(* ===== verification/Prelude.thy ===== *)
theory Prelude imports Main "HOL-Library.State_Monad" "HOL-Library.Sublist" "HOL-Library.Word" "HOL-Library.Char_ord" "HOL-Library.List_Lexorder" begin

text \<open>
  Shared vocabulary of the development: C strings as lists of characters and the few string
  operations every component uses, path segments, and a small calculus of Hoare triples over
  \<open>HOL-Library.State_Monad\<close>, the monad in which the stateful code is written.
\<close>

section \<open>Collections\<close>

named_theorems cstring_simps \<open>rewriting of the C string operations\<close>
named_theorems hoare_rules \<open>introduction rules for Hoare triples over the state monad\<close>

section \<open>C strings\<close>

text \<open>
  A \<open>char *\<close> is the list of its characters before the terminating NUL. \<open>strchr\<close> and
  \<open>strrchr\<close> are given as cuts: the text before the first (last) occurrence of the character
  and the text after it, or \<^const>\<open>None\<close> for a null pointer.
\<close>

definition strchr :: "string \<Rightarrow> char \<Rightarrow> (string \<times> string) option" where
  "strchr s c =
     (if c \<in> set s then Some (takeWhile (\<lambda>x. x \<noteq> c) s, tl (dropWhile (\<lambda>x. x \<noteq> c) s)) else None)"

definition strrchr :: "string \<Rightarrow> char \<Rightarrow> (string \<times> string) option" where
  "strrchr s c = map_option (\<lambda>(a, b). (rev b, rev a)) (strchr (rev s) c)"

lemma strchr_None [cstring_simps]: "strchr s c = None \<longleftrightarrow> c \<notin> set s"
  by (simp add: strchr_def)

lemma dropWhile_neq_Cons: "c \<in> set s \<Longrightarrow> dropWhile (\<lambda>x. x \<noteq> c) s = c # tl (dropWhile (\<lambda>x. x \<noteq> c) s)"
  by (induction s) auto

lemma strchr_SomeD: "strchr s c = Some (a, b) \<Longrightarrow> s = a @ c # b \<and> c \<notin> set a"
  unfolding strchr_def
  by (auto split: if_splits dest: set_takeWhileD)
     (metis dropWhile_neq_Cons takeWhile_dropWhile_id)

lemma strchr_append [cstring_simps]: "c \<notin> set a \<Longrightarrow> strchr (a @ c # b) c = Some (a, b)"
proof -
  assume h: "c \<notin> set a"
  then have "takeWhile (\<lambda>x. x \<noteq> c) (a @ c # b) = a"
    by (subst takeWhile_append2) auto
  moreover from h have "dropWhile (\<lambda>x. x \<noteq> c) (a @ c # b) = c # b"
    by (subst dropWhile_append2) auto
  ultimately show ?thesis by (simp add: strchr_def)
qed

lemma strchr_Some_iff: "strchr s c = Some (a, b) \<longleftrightarrow> s = a @ c # b \<and> c \<notin> set a"
  using strchr_SomeD strchr_append by blast

lemma strrchr_None [cstring_simps]: "strrchr s c = None \<longleftrightarrow> c \<notin> set s"
  by (simp add: strrchr_def strchr_None)

lemma strrchr_Some_iff: "strrchr s c = Some (a, b) \<longleftrightarrow> s = a @ c # b \<and> c \<notin> set b"
proof -
  have "strrchr s c = Some (a, b) \<longleftrightarrow> strchr (rev s) c = Some (rev b, rev a)"
    by (auto simp: strrchr_def)
  also have "\<dots> \<longleftrightarrow> rev s = rev b @ c # rev a \<and> c \<notin> set b"
    by (simp add: strchr_Some_iff)
  also have "rev s = rev b @ c # rev a \<longleftrightarrow> s = a @ c # b"
    by (metis rev_append rev_rev_ident append_assoc append_Cons append_Nil rev.simps(2))
  finally show ?thesis .
qed

definition g_str_has_prefix :: "string \<Rightarrow> string \<Rightarrow> bool" where
  "g_str_has_prefix s p = (take (length p) s = p)"

definition g_str_has_suffix :: "string \<Rightarrow> string \<Rightarrow> bool" where
  "g_str_has_suffix s p = g_str_has_prefix (rev s) (rev p)"

lemma g_str_has_prefix_iff: "g_str_has_prefix s p \<longleftrightarrow> (\<exists>t. s = p @ t)"
  unfolding g_str_has_prefix_def by (metis append_eq_conv_conj append_take_drop_id)

lemma g_str_has_suffix_iff: "g_str_has_suffix s p \<longleftrightarrow> (\<exists>t. s = t @ p)"
  unfolding g_str_has_suffix_def g_str_has_prefix_iff
  by (metis rev_append rev_rev_ident)

text \<open>Splitting at every delimiter (\<open>g_strsplit\<close> and \<open>g_strsplit_set\<close> without a limit:
  the empty string has no token at all, any other string one token more than delimiters).\<close>

fun split_on :: "(char \<Rightarrow> bool) \<Rightarrow> string \<Rightarrow> string list" where
  "split_on p [] = [[]]"
| "split_on p (c # cs) =
     (if p c then [] # split_on p cs
      else (case split_on p cs of [] \<Rightarrow> [[c]] | t # ts \<Rightarrow> (c # t) # ts))"

definition g_strsplit_set :: "string \<Rightarrow> string \<Rightarrow> string list" where
  "g_strsplit_set s delims = (if s = [] then [] else split_on (\<lambda>c. c \<in> set delims) s)"

text \<open>\<open>g_strsplit (s, c, 2)\<close>: at most two tokens.\<close>

definition g_strsplit2 :: "string \<Rightarrow> char \<Rightarrow> string list" where
  "g_strsplit2 s c =
     (if s = [] then [] else (case strchr s c of None \<Rightarrow> [s] | Some (a, b) \<Rightarrow> [a, b]))"

lemma split_on_nonempty [simp]: "split_on p s \<noteq> []"
  by (cases s) (auto split: list.splits)

lemma split_on_no_delim: "t \<in> set (split_on p s) \<Longrightarrow> x \<in> set t \<Longrightarrow> \<not> p x"
proof (induction s arbitrary: t)
  case (Cons c s)
  show ?case
  proof (cases "p c")
    case True
    with Cons show ?thesis by auto
  next
    case False
    obtain u us where u: "split_on p s = u # us"
      by (cases "split_on p s") auto
    with Cons.prems False have "t = c # u \<or> t \<in> set us" by simp
    with Cons.IH [of u] Cons.IH [of t] Cons.prems(2) u False show ?thesis by auto
  qed
qed simp

lemma split_on_concat: "concat (split_on p s) = filter (\<lambda>c. \<not> p c) s"
  by (induction s) (auto split: list.splits)

lemma split_on_append_delim:
  "(\<And>x. x \<in> set a \<Longrightarrow> \<not> p x) \<Longrightarrow> p c \<Longrightarrow> split_on p (a @ c # b) = a # split_on p b"
  by (induction a) auto

lemma split_on_id: "(\<And>x. x \<in> set a \<Longrightarrow> \<not> p x) \<Longrightarrow> split_on p a = [a]"
  by (induction a) auto

text \<open>\<open>g_ascii_isspace\<close>, \<open>g_strstrip\<close> and the character classes.\<close>

definition g_ascii_isspace :: "char \<Rightarrow> bool" where
  "g_ascii_isspace c = (c \<in> set [CHR '' '', CHR 0x09, CHR 0x0A, CHR 0x0C, CHR 0x0D])"

text \<open>\<open>isspace\<close> of the C library, which has the vertical tab too.\<close>

definition isspace :: "char \<Rightarrow> bool" where
  "isspace c = (g_ascii_isspace c \<or> c = CHR 0x0B)"

definition g_ascii_isdigit :: "char \<Rightarrow> bool" where
  "g_ascii_isdigit c = (CHR ''0'' \<le> c \<and> c \<le> CHR ''9'')"

definition g_ascii_isalpha :: "char \<Rightarrow> bool" where
  "g_ascii_isalpha c = ((CHR ''a'' \<le> c \<and> c \<le> CHR ''z'') \<or> (CHR ''A'' \<le> c \<and> c \<le> CHR ''Z''))"

definition g_ascii_isalnum :: "char \<Rightarrow> bool" where
  "g_ascii_isalnum c = (g_ascii_isalpha c \<or> g_ascii_isdigit c)"

definition g_strchug :: "string \<Rightarrow> string" where
  "g_strchug s = dropWhile g_ascii_isspace s"

definition g_strchomp :: "string \<Rightarrow> string" where
  "g_strchomp s = rev (dropWhile g_ascii_isspace (rev s))"

definition g_strstrip :: "string \<Rightarrow> string" where
  "g_strstrip s = g_strchomp (g_strchug s)"

text \<open>
  \<open>strtoull\<close> of the C library in the C locale, for the bases 8 and 10 that the code uses:
  optional white space, an optional sign, the longest run of digits. The result is the value
  and the text at \<open>endptr\<close>, which is the whole input when there is no digit. A value that
  does not fit saturates; a minus sign negates modulo \<open>2 ^ 64\<close>.
\<close>

definition digit_value :: "char \<Rightarrow> nat" where
  "digit_value c = of_char c - 48"

definition is_base_digit :: "nat \<Rightarrow> char \<Rightarrow> bool" where
  "is_base_digit b c = (g_ascii_isdigit c \<and> digit_value c < b)"

definition digits_value :: "nat \<Rightarrow> string \<Rightarrow> nat" where
  "digits_value b ds = foldl (\<lambda>acc c. b * acc + digit_value c) 0 ds"

definition strto_scan :: "nat \<Rightarrow> string \<Rightarrow> (bool \<times> nat \<times> string) option" where
  "strto_scan b s =
     (let s1 = dropWhile isspace s;
          neg = (s1 \<noteq> [] \<and> hd s1 = CHR ''-'');
          s2 = (if s1 \<noteq> [] \<and> (hd s1 = CHR ''-'' \<or> hd s1 = CHR ''+'') then tl s1 else s1);
          ds = takeWhile (is_base_digit b) s2
      in if ds = [] then None
         else Some (neg, digits_value b ds, dropWhile (is_base_digit b) s2))"

definition strtoull :: "string \<Rightarrow> nat \<Rightarrow> 64 word \<times> string" where
  "strtoull s b =
     (case strto_scan b s of
        None \<Rightarrow> (0, s)
      | Some (neg, n, rest) \<Rightarrow>
          (if n \<ge> 2 ^ 64 then - 1 else if neg then - of_nat n else of_nat n, rest))"

definition strtoll :: "string \<Rightarrow> nat \<Rightarrow> int \<times> string" where
  "strtoll s b =
     (case strto_scan b s of
        None \<Rightarrow> (0, s)
      | Some (neg, n, rest) \<Rightarrow>
          (if neg then max (- (2 ^ 63)) (- int n) else min (2 ^ 63 - 1) (int n), rest))"

lemma strtoll_range: "- (2 ^ 63) \<le> fst (strtoll s b) \<and> fst (strtoll s b) \<le> 2 ^ 63 - 1"
  by (auto simp: strtoll_def split: option.split)

text \<open>Printing a number in a base up to ten, and with a fixed number of decimal digits.\<close>

fun print_nat :: "nat \<Rightarrow> nat \<Rightarrow> string" where
  "print_nat b n =
     (if b < 2 \<or> n < b then [char_of (48 + n)]
      else print_nat b (n div b) @ [char_of (48 + n mod b)])"

declare print_nat.simps [simp del]

fun fixed_digits :: "nat \<Rightarrow> nat \<Rightarrow> string" where
  "fixed_digits 0 n = []"
| "fixed_digits (Suc k) n = fixed_digits k (n div 10) @ [char_of (48 + n mod 10)]"

lemma digit_value_char: "d < 10 \<Longrightarrow> digit_value (char_of (48 + d)) = d"
  by (simp add: digit_value_def)

lemma is_base_digit_char: "d < b \<Longrightarrow> b \<le> 10 \<Longrightarrow> is_base_digit b (char_of (48 + d))"
  by (simp add: is_base_digit_def digit_value_char g_ascii_isdigit_def less_eq_char_def)

lemma print_nat_value: "2 \<le> b \<Longrightarrow> b \<le> 10 \<Longrightarrow> digits_value b (print_nat b n) = n"
proof (induction b n rule: print_nat.induct)
  case (1 b n)
  show ?case
  proof (cases "n < b")
    case True
    then show ?thesis using 1 by (simp add: print_nat.simps [of b n] digits_value_def digit_value_char)
  next
    case False
    have "n mod b < b" using 1 by simp
    then have "n mod b < 10" using 1 by linarith
    then have "digits_value b (print_nat b n) = b * digits_value b (print_nat b (n div b)) + n mod b"
      using False 1 by (simp add: print_nat.simps [of b n] digits_value_def digit_value_char)
    then show ?thesis using 1 False by simp
  qed
qed

lemma print_nat_digits: "2 \<le> b \<Longrightarrow> b \<le> 10 \<Longrightarrow> list_all (is_base_digit b) (print_nat b n)"
proof (induction b n rule: print_nat.induct)
  case (1 b n)
  have "n mod b < b" using 1 by simp
  then show ?case using 1 is_base_digit_char
    by (cases "n < b") (simp_all add: print_nat.simps [of b n])
qed

lemma print_nat_nonempty: "print_nat b n \<noteq> []"
  by (simp add: print_nat.simps [of b n])

lemma fixed_digits_value: "digits_value 10 (fixed_digits k n) = n mod 10 ^ k"
proof (induction k arbitrary: n)
  case (Suc k)
  have "n mod 10 < 10" by simp
  then have "digits_value 10 (fixed_digits (Suc k) n) = 10 * (n div 10 mod 10 ^ k) + n mod 10"
    using Suc [of "n div 10"] by (simp add: digits_value_def digit_value_char)
  also have "\<dots> = n mod 10 ^ Suc k" by (simp add: mod_mult2_eq)
  finally show ?case .
qed (simp add: digits_value_def)

lemma fixed_digits_digits: "list_all (is_base_digit 10) (fixed_digits k n)"
proof (induction k arbitrary: n)
  case (Suc k)
  have "n mod 10 < 10" by simp
  then show ?case using Suc is_base_digit_char [of "n mod 10" 10] by simp
qed simp

lemma length_fixed_digits [simp]: "length (fixed_digits k n) = k"
  by (induction k arbitrary: n) simp_all

lemma base_digit_not_space: "is_base_digit b c \<Longrightarrow> \<not> isspace c \<and> c \<noteq> CHR ''-'' \<and> c \<noteq> CHR ''+''"
  by (auto simp: isspace_def is_base_digit_def g_ascii_isdigit_def g_ascii_isspace_def less_eq_char_def)

text \<open>Scanning digits that are followed by something else.\<close>

lemma strto_scan_digits:
  assumes "list_all (is_base_digit b) ds" "ds \<noteq> []" "rest = [] \<or> \<not> is_base_digit b (hd rest)"
  shows "strto_scan b (ds @ rest) = Some (False, digits_value b ds, rest)"
proof -
  obtain c cs where ds: "ds = c # cs" using assms(2) by (cases ds) auto
  have c: "\<not> isspace c" "c \<noteq> CHR ''-''" "c \<noteq> CHR ''+''"
    using base_digit_not_space [of b c] assms(1) by (auto simp: ds)
  have all: "\<And>x. x \<in> set ds \<Longrightarrow> is_base_digit b x" using assms(1) by (auto simp: list_all_iff)
  have "takeWhile (is_base_digit b) rest = []" "dropWhile (is_base_digit b) rest = rest"
    using assms(3) by (cases rest; auto)+
  then have "takeWhile (is_base_digit b) (ds @ rest) = ds" "dropWhile (is_base_digit b) (ds @ rest) = rest"
    using all by (simp_all add: takeWhile_append2 dropWhile_append2)
  moreover have "dropWhile isspace (ds @ rest) = ds @ rest" using c by (simp add: ds)
  moreover have "hd (ds @ rest) = c" by (simp add: ds)
  ultimately show ?thesis using c assms(2) by (simp add: strto_scan_def Let_def)
qed

lemma strtoll_print:
  assumes "2 \<le> b" "b \<le> 10" "n < 2 ^ 63"
  shows "strtoll (print_nat b n) b = (int n, [])"
  using strto_scan_digits [OF print_nat_digits [OF assms(1,2)] print_nat_nonempty, of "[]" n] assms
  by (simp add: strtoll_def print_nat_value)

lemma dropWhile_ConsD: "dropWhile P s = c # cs \<Longrightarrow> \<not> P c"
  by (induction s) (auto split: if_splits)

section \<open>Path segments\<close>

text \<open>The non-empty elements of a path, in order: what the kernel sees of a path besides
  whether it is absolute.\<close>

abbreviation is_slash :: "char \<Rightarrow> bool" where
  "is_slash c \<equiv> c = CHR ''/''"

abbreviation not_slash :: "char \<Rightarrow> bool" where
  "not_slash c \<equiv> c \<noteq> CHR ''/''"

function segs :: "string \<Rightarrow> string list" where
  "segs s =
     (case dropWhile is_slash s of
        [] \<Rightarrow> []
      | c # cs \<Rightarrow> takeWhile not_slash (c # cs) # segs (dropWhile not_slash (c # cs)))"
  by pat_completeness auto
termination
proof (relation "measure length")
  fix s :: string and c cs
  assume h: "dropWhile is_slash s = c # cs"
  then have nc: "not_slash c" by (rule dropWhile_ConsD)
  have "length (dropWhile not_slash (c # cs)) \<le> length cs"
    using nc by (simp add: length_dropWhile_le)
  also have "\<dots> < length (dropWhile is_slash s)" using h by simp
  also have "\<dots> \<le> length s" by (rule length_dropWhile_le)
  finally show "(dropWhile not_slash (c # cs), s) \<in> measure length" by simp
qed simp

declare segs.simps [simp del]

lemma segs_Nil [simp]: "segs [] = []"
  by (simp add: segs.simps)

lemma segs_slash [simp]: "segs (CHR ''/'' # s) = segs s"
  by (subst (1 2) segs.simps) simp

lemma segs_drop_slashes [simp]: "segs (dropWhile is_slash s) = segs s"
  by (induction s) auto

lemma segs_drop_Nil: "dropWhile is_slash s = [] \<Longrightarrow> segs s = []"
  by (metis segs_drop_slashes segs_Nil)

lemma drop_slashes_hd: "dropWhile is_slash s = [] \<or> hd (dropWhile is_slash s) \<noteq> CHR ''/''"
  by (induction s) auto

lemma segs_seg:
  assumes "c \<noteq> CHR ''/''"
  shows "segs (c # s) = takeWhile not_slash (c # s) # segs (dropWhile not_slash (c # s))"
  using assms by (subst segs.simps) simp

lemma segs_word:
  assumes "a \<noteq> []" and "CHR ''/'' \<notin> set a" and "s = [] \<or> hd s = CHR ''/''"
  shows "segs (a @ s) = a # segs s"
proof -
  obtain c cs where a: "a = c # cs" using assms(1) by (cases a) auto
  with assms(2) have c: "c \<noteq> CHR ''/''" by auto
  have t: "takeWhile not_slash (a @ s) = a" "dropWhile not_slash (a @ s) = s"
  proof -
    have na: "\<And>x. x \<in> set a \<Longrightarrow> not_slash x" using assms(2) by auto
    have "takeWhile not_slash s = []" "dropWhile not_slash s = s"
      using assms(3) by (cases s; auto)+
    with na show "takeWhile not_slash (a @ s) = a" "dropWhile not_slash (a @ s) = s"
      by (simp_all add: takeWhile_append2 dropWhile_append2)
  qed
  show ?thesis using segs_seg [OF c, of "cs @ s"] t a by simp
qed

lemma segs_single: "a \<noteq> [] \<Longrightarrow> CHR ''/'' \<notin> set a \<Longrightarrow> segs a = [a]"
  using segs_word [of a "[]"] by simp

lemma segs_wf: "x \<in> set (segs s) \<Longrightarrow> x \<noteq> [] \<and> CHR ''/'' \<notin> set x"
proof (induction s rule: segs.induct)
  case (1 s)
  show ?case
  proof (cases "dropWhile is_slash s")
    case Nil
    with "1.prems" show ?thesis by (simp add: segs.simps [of s])
  next
    case (Cons c cs)
    then have c: "not_slash c" by (rule dropWhile_ConsD)
    have eq: "segs s = takeWhile not_slash (c # cs) # segs (dropWhile not_slash (c # cs))"
      using Cons by (simp add: segs.simps [of s])
    have "takeWhile not_slash (c # cs) \<noteq> []" using c by simp
    moreover have "CHR ''/'' \<notin> set (takeWhile not_slash (c # cs))"
      using set_takeWhileD by fastforce
    moreover have "x = takeWhile not_slash (c # cs) \<or> x \<in> set (segs (dropWhile not_slash (c # cs)))"
      using "1.prems" by (simp only: eq set_simps insert_iff)
    ultimately show ?thesis using "1.IH" [OF Cons] by metis
  qed
qed

lemma segs_all_slashes: "set a \<subseteq> {CHR ''/''} \<Longrightarrow> segs (a @ b) = segs b"
  by (induction a) auto

text \<open>Any text is slashes, or slashes followed by a word and a rest that is empty or starts
  with a slash.\<close>

lemma seg_decomp:
  assumes "\<not> set a \<subseteq> {CHR ''/''}"
  obtains sl w r where "a = sl @ w @ r" "set sl \<subseteq> {CHR ''/''}" "w \<noteq> []"
    "CHR ''/'' \<notin> set w" "r = [] \<or> hd r = CHR ''/''" "length r < length a"
proof -
  let ?sl = "takeWhile is_slash a" and ?d = "dropWhile is_slash a"
  let ?w = "takeWhile not_slash ?d" and ?r = "dropWhile not_slash ?d"
  have "?d \<noteq> []" using assms by (auto simp: dropWhile_eq_Nil_conv)
  then obtain c cs where d: "?d = c # cs" by (cases ?d) auto
  then have c: "not_slash c" by (rule dropWhile_ConsD)
  have w: "?w \<noteq> []" using c d by simp
  have eq: "a = ?sl @ ?w @ ?r" by simp
  have "?r = [] \<or> hd ?r = CHR ''/''"
  proof (cases ?r)
    case (Cons x xs)
    then show ?thesis using dropWhile_ConsD [of not_slash ?d x xs] by simp
  next
    case Nil
    then show ?thesis by (rule disjI1)
  qed
  moreover have "length ?r < length a"
  proof -
    have "length ?r \<le> length cs" using c d by (simp add: length_dropWhile_le)
    moreover have "length (c # cs) \<le> length a" using d length_dropWhile_le [of is_slash a] by simp
    ultimately show ?thesis by simp
  qed
  moreover have "CHR ''/'' \<notin> set ?w" using set_takeWhileD by fastforce
  moreover have "set ?sl \<subseteq> {CHR ''/''}" by (auto dest: set_takeWhileD)
  ultimately show ?thesis using that eq w by blast
qed

lemma segs_append_slash: "segs (a @ CHR ''/'' # b) = segs a @ segs b"
proof (induction "length a" arbitrary: a rule: less_induct)
  case less
  show ?case
  proof (cases "set a \<subseteq> {CHR ''/''}")
    case True
    then show ?thesis using segs_all_slashes [of a "[]"] segs_all_slashes [of a "CHR ''/'' # b"] by simp
  next
    case False
    then obtain sl w r where a: "a = sl @ w @ r" and sl: "set sl \<subseteq> {CHR ''/''}"
      and w: "w \<noteq> []" "CHR ''/'' \<notin> set w" and r: "r = [] \<or> hd r = CHR ''/''"
      and len: "length r < length a" by (rule seg_decomp) blast
    have "segs (a @ CHR ''/'' # b) = segs (w @ (r @ CHR ''/'' # b))"
      using segs_all_slashes [OF sl] by (simp add: a)
    also have "\<dots> = w # segs (r @ CHR ''/'' # b)"
      using w r by (intro segs_word) (auto simp: hd_append)
    also have "\<dots> = (w # segs r) @ segs b" using less len by simp
    also have "w # segs r = segs (w @ r)" using segs_word [OF w r] by simp
    also have "segs (w @ r) = segs a" using segs_all_slashes [OF sl] by (simp add: a)
    finally show ?thesis .
  qed
qed

text \<open>Joining segments with single slashes is the inverse.\<close>

fun join_segs :: "string list \<Rightarrow> string" where
  "join_segs [] = []"
| "join_segs [x] = x"
| "join_segs (x # y # ys) = x @ CHR ''/'' # join_segs (y # ys)"

definition seg_ok :: "string \<Rightarrow> bool" where
  "seg_ok x = (x \<noteq> [] \<and> CHR ''/'' \<notin> set x)"

lemma segs_join: "list_all seg_ok xs \<Longrightarrow> segs (join_segs xs) = xs"
  by (induction xs rule: join_segs.induct)
     (auto simp: segs_append_slash segs_single seg_ok_def)

lemma list_all_segs: "list_all seg_ok (segs s)"
  by (auto simp: list_all_iff seg_ok_def dest: segs_wf)

lemma join_segs_snoc: "xs \<noteq> [] \<Longrightarrow> join_segs (xs @ [x]) = join_segs xs @ CHR ''/'' # x"
  by (induction xs rule: join_segs.induct) auto

lemma join_segs_eq_Nil: "list_all seg_ok xs \<Longrightarrow> join_segs xs = [] \<longleftrightarrow> xs = []"
  by (cases xs rule: join_segs.cases) (auto simp: seg_ok_def)

section \<open>Hoare triples over the state monad\<close>

definition hoare :: "('w \<Rightarrow> bool) \<Rightarrow> ('w, 'a) state \<Rightarrow> ('a \<Rightarrow> 'w \<Rightarrow> bool) \<Rightarrow> bool" where
  "hoare P m Q = (\<forall>s. P s \<longrightarrow> (case run_state m s of (r, s') \<Rightarrow> Q r s'))"

lemma hoareI: "(\<And>s r s'. P s \<Longrightarrow> run_state m s = (r, s') \<Longrightarrow> Q r s') \<Longrightarrow> hoare P m Q"
  by (auto simp: hoare_def)

lemma hoareD: "hoare P m Q \<Longrightarrow> P s \<Longrightarrow> run_state m s = (r, s') \<Longrightarrow> Q r s'"
  by (auto simp: hoare_def split: prod.splits)

lemma hoare_return [hoare_rules]: "(\<And>s. P s \<Longrightarrow> Q x s) \<Longrightarrow> hoare P (State_Monad.return x) Q"
  by (auto simp: hoare_def)

lemma hoare_bind: "hoare P m R \<Longrightarrow> (\<And>x. hoare (R x) (f x) Q) \<Longrightarrow> hoare P (State_Monad.bind m f) Q"
  by (fastforce simp: hoare_def split: prod.splits)

lemma hoare_weaken: "hoare P m Q \<Longrightarrow> (\<And>s. P' s \<Longrightarrow> P s) \<Longrightarrow> (\<And>r s. Q r s \<Longrightarrow> Q' r s) \<Longrightarrow> hoare P' m Q'"
  by (fastforce simp: hoare_def split: prod.splits)

lemma hoare_pre: "hoare P m Q \<Longrightarrow> (\<And>s. P' s \<Longrightarrow> P s) \<Longrightarrow> hoare P' m Q"
  by (rule hoare_weaken)

lemma hoare_false: "(\<And>s. \<not> P s) \<Longrightarrow> hoare P m Q"
  by (simp add: hoare_def)

lemma hoare_if [hoare_rules]:
  "(b \<Longrightarrow> hoare P m Q) \<Longrightarrow> (\<not> b \<Longrightarrow> hoare P n Q) \<Longrightarrow> hoare P (if b then m else n) Q"
  by simp

lemma hoare_sum [hoare_rules]:
  "(\<And>e. r = Inl e \<Longrightarrow> hoare P (f e) Q) \<Longrightarrow> (\<And>x. r = Inr x \<Longrightarrow> hoare P (g x) Q) \<Longrightarrow>
   hoare P (case r of Inl e \<Rightarrow> f e | Inr x \<Rightarrow> g x) Q"
  by (cases r) auto

lemma hoare_option [hoare_rules]:
  "(r = None \<Longrightarrow> hoare P f Q) \<Longrightarrow> (\<And>x. r = Some x \<Longrightarrow> hoare P (g x) Q) \<Longrightarrow>
   hoare P (case r of None \<Rightarrow> f | Some x \<Rightarrow> g x) Q"
  by (cases r) auto

lemma hoare_anyI: "(\<And>r s. Q r s) \<Longrightarrow> hoare P m Q"
  by (simp add: hoare_def split: prod.splits)

lemma hoare_conj: "hoare P m Q \<Longrightarrow> hoare P m R \<Longrightarrow> hoare P m (\<lambda>r s. Q r s \<and> R r s)"
  by (fastforce simp: hoare_def)

text \<open>A triple for a call whose result is only wrapped.\<close>

lemma hoare_wrap:
  "hoare P m R \<Longrightarrow> (\<And>x s. R x s \<Longrightarrow> Q (f x) s) \<Longrightarrow> hoare P (do { x \<leftarrow> m; State_Monad.return (f x) }) Q"
  by (rule hoare_bind) (auto intro: hoare_return)

end
