(* ===== verification/Glib.thy ===== *)
theory Glib imports Prelude begin

text \<open>
  The functions of GLib and of the C library whose algorithm is not in the repository are
  parameters of the model: the fields of the record \<open>glib\<close>. What the code relies on is stated as
  locales over them (documented behaviour), which are the named hypotheses of the properties
  that need it. \<open>glib_ref\<close> is a concrete instance on which every such contract is proved, so
  that no hypothesis is empty.
\<close>

record glib =
  g_build_filename :: "string list \<Rightarrow> string"
  g_path_get_dirname :: "string \<Rightarrow> string"
  g_strcompress :: "string \<Rightarrow> string"
  g_shell_quote :: "string \<Rightarrow> string"
  g_shell_unquote :: "string \<Rightarrow> string + string"
  fnmatch :: "string \<Rightarrow> string \<Rightarrow> bool"
  g_file_path :: "string \<Rightarrow> string"             \<comment> \<open>\<open>g_file_get_path\<close> of \<open>g_file_new_for_path\<close>\<close>
  g_canonicalize_filename :: "string \<Rightarrow> string option \<Rightarrow> string"
  g_sha256 :: "string \<Rightarrow> string"
  g_environ_getenv :: "string list \<Rightarrow> string \<Rightarrow> string option"
  g_environ_setenv :: "string list \<Rightarrow> string \<Rightarrow> string \<Rightarrow> string list"
  g_environ_unsetenv :: "string list \<Rightarrow> string \<Rightarrow> string list"

section \<open>Contracts\<close>

text \<open>Environment blocks: setting (with overwriting) and unsetting one variable is visible for
  that variable and for no other one, for names without \<open>=\<close>.\<close>

definition env_name_ok :: "string \<Rightarrow> bool" where
  "env_name_ok v = (v \<noteq> [] \<and> CHR ''='' \<notin> set v)"

locale environ_block =
  fixes getenv :: "string list \<Rightarrow> string \<Rightarrow> string option"
    and setenv :: "string list \<Rightarrow> string \<Rightarrow> string \<Rightarrow> string list"
    and unsetenv :: "string list \<Rightarrow> string \<Rightarrow> string list"
  assumes get_set: "env_name_ok v \<Longrightarrow> env_name_ok w \<Longrightarrow>
      getenv (setenv e v x) w = (if w = v then Some x else getenv e w)"
    and get_unset: "env_name_ok v \<Longrightarrow> env_name_ok w \<Longrightarrow>
      getenv (unsetenv e v) w = (if w = v then None else getenv e w)"
begin

text \<open>Any sequence of settings (\<^const>\<open>Some\<close>) and unsettings (\<^const>\<open>None\<close>) of distinct
  variables acts as the map of its pairs.\<close>

definition update1 :: "string list \<Rightarrow> string \<times> string option \<Rightarrow> string list" where
  "update1 e p = (case snd p of Some x \<Rightarrow> setenv e (fst p) x | None \<Rightarrow> unsetenv e (fst p))"

lemma get_update1:
  "env_name_ok (fst p) \<Longrightarrow> env_name_ok w \<Longrightarrow>
   getenv (update1 e p) w = (if w = fst p then snd p else getenv e w)"
  by (cases "snd p") (auto simp: update1_def get_set get_unset)

lemma get_updates:
  assumes "distinct (map fst ps)" and "\<And>v. v \<in> set (map fst ps) \<Longrightarrow> env_name_ok v" and "env_name_ok w"
  shows "getenv (foldl update1 e ps) w =
     (case map_of ps w of Some o' \<Rightarrow> o' | None \<Rightarrow> getenv e w)"
  using assms
proof (induction ps arbitrary: e)
  case (Cons p ps)
  obtain v x where p: "p = (v, x)" by (cases p)
  have none: "map_of ps v = None"
    using Cons.prems(1) p by (simp add: map_of_eq_None_iff)
  have "env_name_ok v" using Cons.prems(2) p by simp
  then have "getenv (update1 e p) w = (if w = v then x else getenv e w)"
    using get_update1 [of p w e] Cons.prems(3) p by simp
  with Cons p none show ?case by (auto split: option.splits)
qed simp

end

text \<open>Joining file names: the elements of the result are the elements of the parts in order, and
  the result is absolute exactly when the first part is.\<close>

definition absolute :: "string \<Rightarrow> bool" where
  "absolute s = (s \<noteq> [] \<and> hd s = CHR ''/'')"

locale path_builder =
  fixes build :: "string list \<Rightarrow> string"
  assumes segs_build1: "segs (build [a]) = segs a"
    and abs_build1: "absolute (build [a]) = absolute a"
    and segs_build2: "a \<noteq> [] \<Longrightarrow> segs (build [a, b]) = segs a @ segs b"
    and abs_build2: "a \<noteq> [] \<Longrightarrow> absolute (build [a, b]) = absolute a"
begin

lemma abs_segs_build2: "absolute a \<Longrightarrow> absolute (build [a, b]) \<and> segs (build [a, b]) = segs a @ segs b"
  by (metis absolute_def segs_build2 abs_build2)

end

text \<open>A canonical file name, for an absolute one: no empty elements, no \<open>.\<close> and no \<open>..\<close>. Two slashes at the start are
  kept, since POSIX allows them to mean something special; three and more are one.\<close>

definition canonical_seg :: "string \<Rightarrow> bool" where
  "canonical_seg x = (seg_ok x \<and> x \<noteq> ''.'' \<and> x \<noteq> ''..'')"

definition two_slashes :: "string \<Rightarrow> bool" where
  "two_slashes p = (take 2 p = ''//'' \<and> take 3 p \<noteq> ''///'')"

definition canonical_root :: "string \<Rightarrow> string" where
  "canonical_root p = (if two_slashes p then ''//'' else ''/'')"

locale canonicalizer =
  fixes canon :: "string \<Rightarrow> string"
  assumes canon_form: "absolute p \<Longrightarrow> \<exists>xs. list_all canonical_seg xs \<and> canon p = canonical_root p @ join_segs xs"
begin

lemma canon_absolute: "absolute p \<Longrightarrow> absolute (canon p)"
  using canon_form [of p] by (auto simp: absolute_def canonical_root_def split: if_splits)

end

text \<open>Quoting for a shell and undoing it.\<close>

locale shell_quoting =
  fixes quote :: "string \<Rightarrow> string" and unquote :: "string \<Rightarrow> string + string"
  assumes unquote_quote: "unquote (quote s) = Inr s"
begin

lemma quote_inj: "quote s = quote t \<Longrightarrow> s = t"
  by (metis unquote_quote sum.inject(2))

end

section \<open>A concrete instance\<close>

fun ref_drop_var :: "string \<Rightarrow> string list \<Rightarrow> string list" where
  "ref_drop_var v [] = []"
| "ref_drop_var v (e # es) =
     (if g_str_has_prefix e (v @ ''='') then ref_drop_var v es else e # ref_drop_var v es)"

fun ref_getenv :: "string list \<Rightarrow> string \<Rightarrow> string option" where
  "ref_getenv [] v = None"
| "ref_getenv (e # es) v =
     (if g_str_has_prefix e (v @ ''='') then Some (drop (Suc (length v)) e) else ref_getenv es v)"

definition ref_setenv :: "string list \<Rightarrow> string \<Rightarrow> string \<Rightarrow> string list" where
  "ref_setenv e v x = ref_drop_var v e @ [v @ ''='' @ x]"

definition ref_build :: "string list \<Rightarrow> string" where
  "ref_build xs =
     (case filter (\<lambda>x. x \<noteq> []) xs of
        [] \<Rightarrow> []
      | y # ys \<Rightarrow> (if absolute y then ''/'' else []) @ join_segs (concat (map segs (y # ys))))"

definition ref_dirname :: "string \<Rightarrow> string" where
  "ref_dirname s =
     (case strrchr s CHR ''/'' of
        None \<Rightarrow> ''.''
      | Some (a, _) \<Rightarrow>
          (let d = rev (dropWhile is_slash (rev a)) in if d = [] then ''/'' else d))"

text \<open>Quoting puts every string between single quotes with \<open>'\<close> written as \<open>'\''\<close>.\<close>

definition sq :: char where "sq = CHR 0x27"

fun ref_quote_body :: "string \<Rightarrow> string" where
  "ref_quote_body [] = []"
| "ref_quote_body (c # cs) = (if c = sq then [sq, CHR 0x5C, sq, sq] else [c]) @ ref_quote_body cs"

definition ref_quote :: "string \<Rightarrow> string" where
  "ref_quote s = sq # ref_quote_body s @ [sq]"

fun ref_unquote_body :: "string \<Rightarrow> string option" where
  "ref_unquote_body [] = None"
| "ref_unquote_body [c] = (if c = sq then Some [] else None)"
| "ref_unquote_body (c # d # cs) =
     (if c \<noteq> sq then map_option (Cons c) (ref_unquote_body (d # cs))
      else (case cs of
          e # f # rest \<Rightarrow>
            (if d = CHR 0x5C \<and> e = sq \<and> f = sq then map_option (Cons sq) (ref_unquote_body rest) else None)
        | _ \<Rightarrow> None))"

definition ref_unquote :: "string \<Rightarrow> string + string" where
  "ref_unquote s =
     (if s = [] then Inl ''Text was empty''
      else if hd s \<noteq> sq then Inr s
      else (case ref_unquote_body (tl s) of Some t \<Rightarrow> Inr t | None \<Rightarrow> Inl ''Unmatched quotation mark''))"

text \<open>Octal escapes of three digits; any other escaped character stands for itself.\<close>

function ref_strcompress :: "string \<Rightarrow> string" where
  "ref_strcompress [] = []"
| "ref_strcompress (c # cs) =
     (if c \<noteq> CHR 0x5C then c # ref_strcompress cs
      else if length cs \<ge> 3 \<and> list_all (is_base_digit 8) (take 3 cs)
      then char_of (digits_value 8 (take 3 cs)) # ref_strcompress (drop 3 cs)
      else ref_strcompress cs)"
  by pat_completeness auto
termination by (relation "measure length") auto

text \<open>Resolving the elements \<open>.\<close> and \<open>..\<close> without looking at the file system.\<close>

definition resolve_dot :: "string list \<Rightarrow> string \<Rightarrow> string list" where
  "resolve_dot xs x = (if x = ''.'' then xs else if x = ''..'' then butlast xs else xs @ [x])"

definition resolve_dots :: "string list \<Rightarrow> string list" where
  "resolve_dots xs = foldl resolve_dot [] xs"

definition ref_canonical :: "string \<Rightarrow> string option \<Rightarrow> string" where
  "ref_canonical p relative_to =
     (let a = (if absolute p then p else ref_build [case relative_to of None \<Rightarrow> ''/'' | Some d \<Rightarrow> d, p])
      in canonical_root a @ join_segs (resolve_dots (segs a)))"

definition glib_ref :: glib where
  "glib_ref = \<lparr> g_build_filename = ref_build, g_path_get_dirname = ref_dirname,
     g_strcompress = ref_strcompress, g_shell_quote = ref_quote, g_shell_unquote = ref_unquote,
     fnmatch = (\<lambda>p s. p = s), g_file_path = (\<lambda>p. ref_canonical p None), g_canonicalize_filename = ref_canonical,
     g_sha256 = (\<lambda>s. s), g_environ_getenv = ref_getenv, g_environ_setenv = ref_setenv,
     g_environ_unsetenv = (\<lambda>e v. ref_drop_var v e) \<rparr>"

lemma prefix_eq_name:
  assumes "CHR ''='' \<notin> set v" "CHR ''='' \<notin> set w"
    "g_str_has_prefix e (v @ ''='')" "g_str_has_prefix e (w @ ''='')"
  shows "v = w"
proof -
  obtain a where "e = (v @ ''='') @ a" using assms(3) g_str_has_prefix_iff by metis
  moreover obtain b where "e = (w @ ''='') @ b" using assms(4) g_str_has_prefix_iff by metis
  ultimately have "e = (v @ ''='') @ a" "e = (w @ ''='') @ b" .
  then have "strchr e CHR ''='' = Some (v, a)" "strchr e CHR ''='' = Some (w, b)"
    using assms(1,2) by (auto simp: strchr_Some_iff)
  then show ?thesis by simp
qed

lemma ref_getenv_append:
  "ref_getenv (es @ fs) w = (case ref_getenv es w of None \<Rightarrow> ref_getenv fs w | Some x \<Rightarrow> Some x)"
  by (induction es) auto

lemma ref_getenv_drop:
  "CHR ''='' \<notin> set v \<Longrightarrow> CHR ''='' \<notin> set w \<Longrightarrow>
   ref_getenv (ref_drop_var v es) w = (if w = v then None else ref_getenv es w)"
  by (induction es) (auto dest: prefix_eq_name)

lemma ref_getenv_single:
  assumes "CHR ''='' \<notin> set v" "CHR ''='' \<notin> set w"
  shows "ref_getenv [v @ ''='' @ x] w = (if w = v then Some x else None)"
proof -
  have p: "g_str_has_prefix (v @ ''='' @ x) (v @ ''='')" by (simp add: g_str_has_prefix_def)
  have "g_str_has_prefix (v @ ''='' @ x) (w @ ''='') \<longleftrightarrow> w = v"
    using prefix_eq_name [OF assms(1,2) p] p by auto
  then show ?thesis by auto
qed

interpretation ref_env: environ_block "g_environ_getenv glib_ref" "g_environ_setenv glib_ref"
    "g_environ_unsetenv glib_ref"
proof
  fix v w x :: string and e :: "string list"
  assume "env_name_ok v" "env_name_ok w"
  then have n: "CHR ''='' \<notin> set v" "CHR ''='' \<notin> set w" by (auto simp: env_name_ok_def)
  show "g_environ_getenv glib_ref (g_environ_unsetenv glib_ref e v) w =
      (if w = v then None else g_environ_getenv glib_ref e w)"
    using n by (simp add: glib_ref_def ref_getenv_drop)
  have "ref_getenv (ref_setenv e v x) w = (if w = v then Some x else ref_getenv e w)"
    unfolding ref_setenv_def ref_getenv_append ref_getenv_drop [OF n] ref_getenv_single [OF n]
    by (cases "w = v"; cases "ref_getenv e w") auto
  then show "g_environ_getenv glib_ref (g_environ_setenv glib_ref e v x) w =
      (if w = v then Some x else g_environ_getenv glib_ref e w)"
    by (simp add: glib_ref_def)
qed

lemma resolve_dots_canonical:
  assumes "list_all seg_ok xs"
  shows "list_all canonical_seg (resolve_dots xs)"
proof -
  have "list_all canonical_seg (foldl resolve_dot acc xs)" if "list_all canonical_seg acc" for acc
    using that assms
  proof (induction xs arbitrary: acc)
    case (Cons x xs)
    have "list_all canonical_seg (resolve_dot acc x)"
      using Cons.prems by (auto simp: resolve_dot_def canonical_seg_def list_all_iff dest: in_set_butlastD)
    then show ?case using Cons by simp
  qed simp
  then show ?thesis by (simp add: resolve_dots_def)
qed

interpretation ref_canon: canonicalizer "g_file_path glib_ref"
proof
  fix p
  assume "absolute p"
  then show "\<exists>xs. list_all canonical_seg xs \<and> g_file_path glib_ref p = canonical_root p @ join_segs xs"
    by (intro exI [of _ "resolve_dots (segs p)"]) (simp add: glib_ref_def ref_canonical_def resolve_dots_canonical list_all_segs)
qed

lemma canonicalizer_ref: "canonicalizer (g_file_path glib_ref)"
  by (rule ref_canon.canonicalizer_axioms)

lemma list_all_concat_segs: "list_all seg_ok (concat (map segs xs))"
  using list_all_segs by (auto simp: list_all_iff)

lemma segs_ref_build: "segs (ref_build xs) = concat (map segs (filter (\<lambda>x. x \<noteq> []) xs))"
proof (cases "filter (\<lambda>x. x \<noteq> []) xs")
  case (Cons y ys)
  have "segs ((if absolute y then ''/'' else []) @ s) = segs s" for s by simp
  moreover have "segs (join_segs (concat (map segs (y # ys)))) = concat (map segs (y # ys))"
    by (rule segs_join [OF list_all_concat_segs])
  ultimately show ?thesis unfolding ref_build_def Cons by simp
qed (simp add: ref_build_def)

lemma hd_join_segs: "list_all seg_ok xs \<Longrightarrow> xs \<noteq> [] \<Longrightarrow> \<not> absolute (join_segs xs)"
  by (cases xs rule: join_segs.cases) (auto simp: seg_ok_def absolute_def hd_append dest: hd_in_set)

lemma absolute_ref_build1: "absolute (ref_build [a]) = absolute a"
  using hd_join_segs [OF list_all_segs [of a]]
  by (cases "segs a = []") (auto simp: ref_build_def absolute_def)

lemma absolute_ref_build: "a \<noteq> [] \<Longrightarrow> absolute (ref_build (a # xs)) = absolute a"
proof -
  assume a: "a \<noteq> []"
  let ?j = "join_segs (concat (map segs (a # filter (\<lambda>x. x \<noteq> []) xs)))"
  have "\<not> absolute ?j"
    using hd_join_segs [OF list_all_concat_segs] by (metis absolute_def join_segs.simps(1))
  then show ?thesis using a by (simp add: ref_build_def absolute_def)
qed

interpretation ref_paths: path_builder "g_build_filename glib_ref"
  by unfold_locales (simp_all add: glib_ref_def segs_ref_build absolute_ref_build absolute_ref_build1)

lemma ref_quote_body_Cons: "\<exists>x xs. ref_quote_body s @ [sq] = x # xs"
  by (cases "ref_quote_body s @ [sq]") auto

lemma ref_unquote_quote_body: "ref_unquote_body (ref_quote_body s @ [sq]) = Some s"
proof (induction s)
  case (Cons c cs)
  obtain x xs where x: "ref_quote_body cs @ [sq] = x # xs" using ref_quote_body_Cons by blast
  have "sq \<noteq> CHR 0x5C" by (simp add: sq_def)
  with Cons x show ?case by auto
qed simp

interpretation ref_shell: shell_quoting "g_shell_quote glib_ref" "g_shell_unquote glib_ref"
  by unfold_locales (simp add: glib_ref_def ref_quote_def ref_unquote_def ref_unquote_quote_body)

end
