(* ===== verification/PathPrefix.thy ===== *)
theory PathPrefix imports Glib begin

text \<open>
  Path comparison: \<open>flatpak_has_path_prefix\<close> (pressure-vessel/flatpak-utils.c),
  \<open>_srt_get_path_after\<close> (steam-runtime-tools/utils.c) and \<open>make_relative\<close>
  (pressure-vessel/flatpak-exports.c). The two scanners are the same loop over two cursors; the
  lemmas show that they compute the prefix order on lists of path segments. The locale
  \<open>path_order\<close> is the interface through which the exports use the comparison.
\<close>

section \<open>The scanners\<close>

text \<open>The inner loop: compare one element of the prefix. \<^const>\<open>None\<close> is the early return on
  a mismatch, which includes the end of \<open>str\<close>.\<close>

fun match_element :: "string \<Rightarrow> string \<Rightarrow> (string \<times> string) option" where
  "match_element str [] = Some (str, [])"
| "match_element str (p # ps) =
     (if p = CHR ''/'' then Some (str, p # ps)
      else (case str of
              [] \<Rightarrow> None
            | c # cs \<Rightarrow> if c \<noteq> p then None else match_element cs ps))"

lemma match_element_length:
  "match_element str pre = Some (s, p) \<Longrightarrow> length p \<le> length pre"
  by (induction str pre rule: match_element.induct) (auto split: if_splits list.splits)

lemma match_element_decreases:
  assumes "match_element str (c # cs) = Some (s, p)" and "c \<noteq> CHR ''/''"
  shows "length p < length (c # cs)"
proof -
  from assms obtain x xs where "match_element xs cs = Some (s, p)"
    by (auto split: if_splits list.splits)
  then show ?thesis using match_element_length by fastforce
qed

lemma scan_decreases:
  assumes "dropWhile is_slash pre \<noteq> []" "match_element str (dropWhile is_slash pre) = Some (s, p)"
  shows "length p < length pre"
proof -
  obtain c cs where c: "dropWhile is_slash pre = c # cs" using assms(1) by (cases "dropWhile is_slash pre") auto
  then have "c \<noteq> CHR ''/''" by (rule dropWhile_ConsD)
  with assms(2) c have "length p < length (c # cs)" by (metis match_element_decreases)
  also have "\<dots> \<le> length pre" using c length_dropWhile_le by metis
  finally show ?thesis .
qed

function flatpak_has_path_prefix :: "string \<Rightarrow> string \<Rightarrow> bool" where
  "flatpak_has_path_prefix str pre =
     (let str = dropWhile is_slash str; pre = dropWhile is_slash pre
      in if pre = [] then True
         else (case match_element str pre of
                 None \<Rightarrow> False
               | Some (s, p) \<Rightarrow>
                   if s \<noteq> [] \<and> hd s \<noteq> CHR ''/'' then False else flatpak_has_path_prefix s p))"
  by pat_completeness auto
termination
  by (relation "measure (\<lambda>(s, p). length p)") (auto intro: scan_decreases)

function srt_get_path_after :: "string \<Rightarrow> string \<Rightarrow> string option" where
  "srt_get_path_after str pre =
     (let str = dropWhile is_slash str; pre = dropWhile is_slash pre
      in if pre = [] then Some str
         else (case match_element str pre of
                 None \<Rightarrow> None
               | Some (s, p) \<Rightarrow>
                   if s \<noteq> [] \<and> hd s \<noteq> CHR ''/'' then None else srt_get_path_after s p))"
  by pat_completeness auto
termination
  by (relation "measure (\<lambda>(s, p). length p)") (auto intro: scan_decreases)

declare flatpak_has_path_prefix.simps [simp del] srt_get_path_after.simps [simp del]

section \<open>They compute the prefix order on segments\<close>

lemma match_element_word:
  assumes "CHR ''/'' \<notin> set w" and "r = [] \<or> hd r = CHR ''/''"
  shows "match_element str (w @ r) = (if \<exists>t. str = w @ t then Some (drop (length w) str, r) else None)"
  using assms
proof (induction w arbitrary: str)
  case Nil
  then show ?case by (cases r) auto
next
  case (Cons c w)
  then show ?case by (cases str) auto
qed

lemma first_word:
  assumes "dropWhile is_slash p \<noteq> []"
  obtains w r where "dropWhile is_slash p = w @ r" "w \<noteq> []" "CHR ''/'' \<notin> set w"
    "r = [] \<or> hd r = CHR ''/''" "segs p = w # segs r"
proof -
  let ?d = "dropWhile is_slash p"
  obtain c cs where d: "?d = c # cs" using assms by (cases ?d) auto
  then have c: "c \<noteq> CHR ''/''" by (rule dropWhile_ConsD)
  let ?w = "takeWhile not_slash ?d" and ?r = "dropWhile not_slash ?d"
  have w: "?w \<noteq> []" using c d by simp
  have ns: "CHR ''/'' \<notin> set ?w" using set_takeWhileD by fastforce
  have r: "?r = [] \<or> hd ?r = CHR ''/''"
  proof (cases ?r)
    case (Cons x xs)
    then show ?thesis using dropWhile_ConsD [of not_slash ?d x xs] by simp
  next
    case Nil
    then show ?thesis by (rule disjI1)
  qed
  have "segs p = ?w # segs ?r"
    using segs_word [OF w ns r] by simp
  with w ns r show ?thesis using that [of ?w ?r] by simp
qed

text \<open>A word of the prefix matches the head of the text exactly when it is its first segment.\<close>

lemma word_first_segment:
  assumes w: "w \<noteq> []" "CHR ''/'' \<notin> set w" and s: "dropWhile is_slash str = w @ t"
    and t: "t = [] \<or> hd t = CHR ''/''"
  shows "segs str = w # segs t"
  using segs_word [OF w t] segs_drop_slashes [of str] s by simp

lemma first_segment_word:
  assumes "segs str = w # ws"
  shows "\<exists>t. dropWhile is_slash str = w @ t \<and> (t = [] \<or> hd t = CHR ''/'') \<and> segs t = ws"
proof -
  have "dropWhile is_slash str \<noteq> []"
    using assms segs_drop_Nil by fastforce
  then obtain v r where "dropWhile is_slash str = v @ r" "r = [] \<or> hd r = CHR ''/''"
    "segs str = v # segs r" by (rule first_word)
  with assms show ?thesis by auto
qed

lemma word_match_iff:
  assumes w: "w \<noteq> []" "CHR ''/'' \<notin> set w"
  shows "(\<exists>t. dropWhile is_slash str = w @ t \<and> (t = [] \<or> hd t = CHR ''/'')) \<longleftrightarrow>
         (\<exists>ws. segs str = w # ws)"
  using word_first_segment [OF w] first_segment_word by blast

theorem srt_get_path_after_segs:
  "case srt_get_path_after str pre of
     None \<Rightarrow> \<not> prefix (segs pre) (segs str)
   | Some rest \<Rightarrow> segs str = segs pre @ segs rest \<and> (rest = [] \<or> hd rest \<noteq> CHR ''/'')"
proof (induction "length pre" arbitrary: str pre rule: less_induct)
  case less
  let ?s = "dropWhile is_slash str" and ?p = "dropWhile is_slash pre"
  show ?case
  proof (cases "?p = []")
    case True
    have "segs pre = []" by (rule segs_drop_Nil [OF True])
    moreover have "srt_get_path_after str pre = Some ?s"
      unfolding srt_get_path_after.simps [of str pre] Let_def if_P [OF True] by (rule refl)
    ultimately show ?thesis using drop_slashes_hd by simp
  next
    case False
    then obtain w r where p: "?p = w @ r" and w: "w \<noteq> []" "CHR ''/'' \<notin> set w"
      and r: "r = [] \<or> hd r = CHR ''/''" and sp: "segs pre = w # segs r" by (rule first_word)
    show ?thesis
    proof (cases "\<exists>t. ?s = w @ t \<and> (t = [] \<or> hd t = CHR ''/'')")
      case True
      then obtain t where t: "?s = w @ t" "t = [] \<or> hd t = CHR ''/''" by blast
      have m: "match_element ?s ?p = Some (t, r)"
        unfolding p match_element_word [OF w(2) r] using t(1) by auto
      have eq: "srt_get_path_after str pre = srt_get_path_after t r"
        using t(2) unfolding srt_get_path_after.simps [of str pre] Let_def if_not_P [OF False] m by auto
      have len: "length r < length pre" using scan_decreases [OF False m] .
      show ?thesis
        using less [OF len, of t] eq word_first_segment [OF w t] sp
        by (simp split: option.splits)
    next
      case False2: False
      have none: "srt_get_path_after str pre = None"
        using False False2 unfolding srt_get_path_after.simps [of str pre] p
        by (auto simp: Let_def match_element_word [OF w(2) r])
      have "\<not> prefix (segs pre) (segs str)"
        using False2 word_match_iff [OF w, of str] sp by (auto simp: prefix_def)
      with none show ?thesis by simp
    qed
  qed
qed

lemma has_path_prefix_get_path_after:
  "flatpak_has_path_prefix str pre \<longleftrightarrow> srt_get_path_after str pre \<noteq> None"
proof (induction str pre rule: flatpak_has_path_prefix.induct)
  case (1 str pre)
  let ?s = "dropWhile is_slash str" and ?p = "dropWhile is_slash pre"
  note unfold = flatpak_has_path_prefix.simps [of str pre] srt_get_path_after.simps [of str pre] Let_def
  show ?case
  proof (cases "?p = []")
    case True
    show ?thesis unfolding unfold if_P [OF True] by simp
  next
    case False
    show ?thesis
    proof (cases "match_element ?s ?p")
      case None
      then show ?thesis unfolding unfold if_not_P [OF False] by simp
    next
      case (Some sp)
      obtain s p where sp: "sp = (s, p)" by (cases sp)
      show ?thesis
      proof (cases "s \<noteq> [] \<and> hd s \<noteq> CHR ''/''")
        case True
        then show ?thesis unfolding unfold if_not_P [OF False] Some sp by simp
      next
        case rest: False
        have "flatpak_has_path_prefix s p \<longleftrightarrow> srt_get_path_after s p \<noteq> None"
          by (rule "1" [OF refl refl False]) (use Some sp rest in auto)
        then show ?thesis unfolding unfold if_not_P [OF False] Some sp
          by (simp only: option.case prod.case if_not_P [OF rest])
      qed
    qed
  qed
qed

text \<open>The C functions agree with the order on segments.\<close>

lemma has_path_prefix_iff: "flatpak_has_path_prefix str pre \<longleftrightarrow> prefix (segs pre) (segs str)"
  using srt_get_path_after_segs [where str = str and pre = pre]
  by (cases "srt_get_path_after str pre") (auto simp: has_path_prefix_get_path_after)

section \<open>The order as an interface\<close>

locale path_order =
  fixes below :: "string \<Rightarrow> string \<Rightarrow> bool"
  assumes below_refl: "below p p"
    and below_trans: "below p q \<Longrightarrow> below q r \<Longrightarrow> below p r"
    and below_linear: "below p q \<Longrightarrow> below p r \<Longrightarrow> below q r \<or> below r q"
begin

text \<open>A place that is neither below nor above a reserved one shares no descendant with it.\<close>

lemma disjoint_below:
  "\<not> below p r \<Longrightarrow> \<not> below r p \<Longrightarrow> below q p \<Longrightarrow> \<not> below q r"
  using below_linear by blast

lemma not_below_upward: "\<not> below p r \<Longrightarrow> below p q \<Longrightarrow> \<not> below q r"
  using below_trans by blast

end

interpretation pfx: path_order flatpak_has_path_prefix
proof
  fix p q r
  show "flatpak_has_path_prefix p p" by (simp add: has_path_prefix_iff)
  show "flatpak_has_path_prefix p q \<Longrightarrow> flatpak_has_path_prefix q r \<Longrightarrow> flatpak_has_path_prefix p r"
    unfolding has_path_prefix_iff using prefix_order.trans by blast
  show "flatpak_has_path_prefix p q \<Longrightarrow> flatpak_has_path_prefix p r \<Longrightarrow>
      flatpak_has_path_prefix q r \<or> flatpak_has_path_prefix r q"
    unfolding has_path_prefix_iff using prefix_same_cases by blast
qed

section \<open>Relative symbolic links\<close>

text \<open>\<open>make_relative\<close>: one \<open>../\<close> per element of the base, then the path without its leading
  slashes. The outer loop runs while characters of the base are left.\<close>

lemma drop_word_shorter:
  assumes "base \<noteq> []"
  shows "length (dropWhile not_slash (dropWhile is_slash base)) < length base"
proof (cases "dropWhile is_slash base")
  case Nil
  show ?thesis unfolding Nil using assms by simp
next
  case (Cons c cs)
  then have "c \<noteq> CHR ''/''" by (rule dropWhile_ConsD)
  then have "length (dropWhile not_slash (c # cs)) \<le> length cs" by (simp add: length_dropWhile_le)
  also have "\<dots> < length (dropWhile is_slash base)" using Cons by simp
  also have "\<dots> \<le> length base" by (rule length_dropWhile_le)
  finally show ?thesis using Cons by simp
qed

function make_relative_ups :: "string \<Rightarrow> string" where
  "make_relative_ups base =
     (if base = [] then []
      else (let b = dropWhile is_slash base
            in (if b \<noteq> [] then ''../'' else []) @ make_relative_ups (dropWhile not_slash b)))"
  by pat_completeness auto
termination
  by (relation "measure length") (auto intro: drop_word_shorter)

declare make_relative_ups.simps [simp del]

definition make_relative :: "string \<Rightarrow> string \<Rightarrow> string" where
  "make_relative base path = make_relative_ups base @ dropWhile is_slash path"

lemma make_relative_ups_eq: "make_relative_ups base = concat (replicate (length (segs base)) ''../'')"
proof (induction "length base" arbitrary: base rule: less_induct)
  case less
  let ?b = "dropWhile is_slash base"
  show ?case
  proof (cases "base = []")
    case True
    then show ?thesis by (simp add: make_relative_ups.simps)
  next
    case False
    have IH: "make_relative_ups (dropWhile not_slash ?b) =
        concat (replicate (length (segs (dropWhile not_slash ?b))) ''../'')"
      using less [OF drop_word_shorter [OF False]] .
    show ?thesis
    proof (cases ?b)
      case Nil
      have "segs base = []" by (rule segs_drop_Nil [OF Nil])
      moreover have "dropWhile not_slash ?b = []" unfolding Nil by simp
      ultimately show ?thesis using False Nil IH
        by (simp only: make_relative_ups.simps [of base] Let_def if_False) simp
    next
      case (Cons c cs)
      then have c: "c \<noteq> CHR ''/''" by (rule dropWhile_ConsD)
      have "segs base = takeWhile not_slash ?b # segs (dropWhile not_slash ?b)"
        using segs_seg [OF c, of cs] Cons segs_drop_slashes [of base] by simp
      then show ?thesis using False Cons IH by (simp add: make_relative_ups.simps [of base])
    qed
  qed
qed

text \<open>Following a relative link lexically from a directory: \<open>..\<close> goes up, \<open>.\<close> stays.\<close>

fun walk :: "string list \<Rightarrow> string list \<Rightarrow> string list" where
  "walk dir [] = dir"
| "walk dir (x # xs) =
     (if x = ''.'' then walk dir xs
      else if x = ''..'' then walk (butlast dir) xs
      else walk (dir @ [x]) xs)"

definition plain_seg :: "string \<Rightarrow> bool" where
  "plain_seg x = (x \<noteq> ''.'' \<and> x \<noteq> ''..'')"

lemma walk_plain: "list_all plain_seg xs \<Longrightarrow> walk dir xs = dir @ xs"
  by (induction xs arbitrary: dir) (auto simp: plain_seg_def)

lemma walk_append: "walk dir (xs @ ys) = walk (walk dir xs) ys"
  by (induction xs arbitrary: dir) auto

lemma walk_ups: "walk dir (replicate n ''..'') = take (length dir - n) dir"
  by (induction n arbitrary: dir)
     (auto simp: butlast_conv_take take_take min_def)

lemma segs_ups: "segs (concat (replicate n ''../'') @ s) = replicate n ''..'' @ segs s"
proof (induction n)
  case (Suc n)
  have "segs (''..'' @ CHR ''/'' # (concat (replicate n ''../'') @ s)) =
      segs ''..'' @ segs (concat (replicate n ''../'') @ s)"
    by (rule segs_append_slash)
  moreover have "segs ''..'' = [''..'']" by (rule segs_single) auto
  ultimately show ?case using Suc by simp
qed simp

lemma segs_make_relative:
  "segs (make_relative base path) = replicate (length (segs base)) ''..'' @ segs path"
  by (simp add: make_relative_def make_relative_ups_eq segs_ups)

section \<open>Properties\<close>

text \<open>\<open>flatpak_has_path_prefix\<close> decides the prefix order on path elements: repeated, leading
  and trailing slashes do not matter, and \<open>/foo\<close> is not a prefix of \<open>/foobar\<close>.\<close>

theorem flatpak_has_path_prefix_segs:
  "flatpak_has_path_prefix str pre \<longleftrightarrow> prefix (segs pre) (segs str)"
  by (rule has_path_prefix_iff)

text \<open>\<open>_srt_get_path_after\<close> succeeds exactly for a prefix in that order, and then returns a
  relative path whose elements are those of the path after those of the prefix.\<close>

theorem srt_get_path_after_rest:
  "(srt_get_path_after str pre = None \<longleftrightarrow> \<not> prefix (segs pre) (segs str)) \<and>
   (case srt_get_path_after str pre of
      None \<Rightarrow> True
    | Some rest \<Rightarrow> segs rest = drop (length (segs pre)) (segs str) \<and> \<not> absolute rest)"
  using srt_get_path_after_segs [where str = str and pre = pre]
  by (auto simp: absolute_def split: option.splits)

text \<open>The relative link that the exports create for an absolute symbolic link means the same
  thing: from the directory of the link, \<open>make_relative\<close> leads to the elements of its target,
  whatever slashes the two paths contain, if the target has no element \<open>.\<close> or \<open>..\<close>.\<close>

theorem make_relative_walk:
  assumes "list_all plain_seg (segs path)"
  shows "walk (segs base) (segs (make_relative base path)) = segs path \<and> \<not> absolute (make_relative base path)"
proof -
  have "walk (segs base) (segs (make_relative base path)) = segs path"
    using walk_plain [OF assms] by (simp add: segs_make_relative walk_append walk_ups)
  moreover have "\<not> absolute (make_relative base path)"
  proof (cases "segs base")
    case Nil
    then show ?thesis using drop_slashes_hd [of path]
      by (auto simp: make_relative_def make_relative_ups_eq absolute_def)
  qed (simp add: make_relative_def make_relative_ups_eq absolute_def)
  ultimately show ?thesis ..
qed

theorem make_relative_walk_witness:
  "walk (segs ''/usr//lib/x'') (segs (make_relative ''/usr//lib/x'' ''/etc/alternatives'')) = segs ''/etc/alternatives'' \<and>
   make_relative ''/usr//lib/x'' ''/etc/alternatives'' = ''../../../etc/alternatives''"
proof
  have "list_all plain_seg (segs ''/etc/alternatives'')" by code_simp
  from make_relative_walk [OF this]
  show "walk (segs ''/usr//lib/x'') (segs (make_relative ''/usr//lib/x'' ''/etc/alternatives'')) = segs ''/etc/alternatives''"
    by blast
qed code_simp

end
