(* ===== verification/Kernel.thy ===== *)
theory Kernel imports Prelude begin

text \<open>
  The operating system as the code sees it. The kernel is not part of the repository, so its system
  calls are parameters: the fields of the record \<open>kernel\<close>, each a step of the state monad over a
  world of any type. The wrappers of libglnx (subprojects/libglnx) that the modelled code calls are
  translated on top of them. A call that the code wraps in \<open>TEMP_FAILURE_RETRY\<close> is one
  operation, which never fails with \<open>EINTR\<close>. The logging kernel records every call and its result;
  properties of the form "whatever the kernel answers, the code only calls \<dots>" are stated over it.
\<close>

unbundle bit_operations_syntax

section \<open>Types of the system interface\<close>

type_synonym fd = int

definition AT_FDCWD :: fd where "AT_FDCWD = - 100"

datatype errno = ENOENT | EEXIST | ENOTDIR | ELOOP | EACCES | EPERM | EBADF | EINVAL | ENXIO | EOTHER nat

datatype open_flag = O_RDONLY | O_WRONLY | O_RDWR | O_CLOEXEC | O_NOFOLLOW | O_PATH | O_DIRECTORY
  | O_NONBLOCK | O_NOCTTY | O_CREAT | O_TRUNC

datatype at_flag = AT_EMPTY_PATH | AT_SYMLINK_NOFOLLOW

datatype access_mode = R_OK | W_OK | X_OK

record stat =
  st_dev :: nat
  st_ino :: nat
  st_mode :: "32 word"
  st_size :: int

definition S_IFMT :: "32 word" where "S_IFMT = 0xF000"
definition S_ISDIR :: "32 word \<Rightarrow> bool" where "S_ISDIR m = (m AND S_IFMT = 0x4000)"
definition S_ISREG :: "32 word \<Rightarrow> bool" where "S_ISREG m = (m AND S_IFMT = 0x8000)"
definition S_ISLNK :: "32 word \<Rightarrow> bool" where "S_ISLNK m = (m AND S_IFMT = 0xA000)"
definition S_ISSOCK :: "32 word \<Rightarrow> bool" where "S_ISSOCK m = (m AND S_IFMT = 0xC000)"

text \<open>Locks of \<open>fcntl\<close>, owned by the open file description or by the process.\<close>

datatype lock_cmd = F_OFD_SETLK | F_OFD_SETLKW | F_SETLK | F_SETLKW

datatype lock_type = F_RDLCK | F_WRLCK

text \<open>\<open>GError\<close>: the domain and code; message texts are not modelled.\<close>

datatype io_error_code = IO_FAILED | IO_NOT_FOUND | IO_NOT_DIRECTORY | IO_NOT_REGULAR_FILE
  | IO_TOO_MANY_LINKS | IO_INVALID_FILENAME | IO_WOULD_BLOCK | IO_NOT_MOUNTABLE_FILE | IO_BUSY | IO_ERRNO errno

text \<open>\<open>PRECONDITION_FAILED\<close> stands for a failed \<open>g_return_val_if_fail\<close>: the failure value is
  returned and no \<open>GError\<close> is set.\<close>

datatype gerror = G_IO_ERROR io_error_code | G_OPTION_ERROR_BAD_VALUE | G_NUMBER_PARSER_ERROR | G_SPAWN_ERROR nat | PRECONDITION_FAILED

text \<open>\<open>glnx_throw_errno\<close> maps \<open>ENOENT\<close> to \<open>G_IO_ERROR_NOT_FOUND\<close>.\<close>

fun io_error_from_errno :: "errno \<Rightarrow> io_error_code" where
  "io_error_from_errno ENOENT = IO_NOT_FOUND"
| "io_error_from_errno e = IO_ERRNO e"

definition throw_errno :: "errno \<Rightarrow> gerror" where
  "throw_errno e = G_IO_ERROR (io_error_from_errno e)"

section \<open>System calls\<close>

type_synonym ('w, 'a) sys = "('w, errno + 'a) state"
type_synonym ('w, 'a) io = "('w, gerror + 'a) state"

text \<open>What \<open>nftw\<close> visits below a path: a name, the type flag of its callback, and the entries.
  The call fails if the walk cannot be finished.
  A data input stream is the lines it delivers and the error it ends with, if any; the flag of
  \<open>sys_read_lines\<close> says that the data is decompressed first.\<close>

datatype ftw_type = FTW_D | FTW_DP | FTW_DNR | FTW_F | FTW_SL | FTW_SLN | FTW_NS

datatype ftw_tree = FTW string ftw_type "ftw_tree list"

record 'w kernel =
  sys_dupfd_cloexec :: "fd \<Rightarrow> ('w, nat) sys"
  sys_openat :: "fd \<Rightarrow> string \<Rightarrow> open_flag set \<Rightarrow> ('w, nat) sys"
  sys_close :: "fd \<Rightarrow> ('w, unit) state"
  sys_mkdirat :: "fd \<Rightarrow> string \<Rightarrow> nat \<Rightarrow> ('w, unit) sys"
  sys_readlinkat :: "fd \<Rightarrow> string \<Rightarrow> ('w, string) sys"
  sys_fstatat :: "fd \<Rightarrow> string \<Rightarrow> at_flag set \<Rightarrow> ('w, stat) sys"
  sys_access :: "string \<Rightarrow> access_mode set \<Rightarrow> ('w, unit) sys"
  sys_faccessat :: "fd \<Rightarrow> string \<Rightarrow> access_mode set \<Rightarrow> ('w, unit) sys"
  sys_linkat :: "fd \<Rightarrow> string \<Rightarrow> fd \<Rightarrow> string \<Rightarrow> ('w, unit) sys"
  sys_symlinkat :: "string \<Rightarrow> fd \<Rightarrow> string \<Rightarrow> ('w, unit) sys"
  sys_fchmod :: "fd \<Rightarrow> nat \<Rightarrow> ('w, unit) sys"
  sys_futimens :: "fd \<Rightarrow> int \<times> int \<Rightarrow> ('w, unit) sys"
  sys_read_all :: "fd \<Rightarrow> ('w, string) sys"
  sys_read :: "fd \<Rightarrow> nat \<Rightarrow> ('w, string) sys"
  sys_realpath :: "string \<Rightarrow> ('w, string) sys"
  sys_read_lines :: "fd \<Rightarrow> bool \<Rightarrow> ('w, string list \<times> gerror option) state"
  sys_ftw :: "string \<Rightarrow> ('w, ftw_tree) sys"
  sys_get_contents :: "string \<Rightarrow> ('w, string) io"
  sys_file_copy :: "fd \<Rightarrow> string \<Rightarrow> fd \<Rightarrow> string \<Rightarrow> ('w, unit) io"

text \<open>A successful call yields a non-negative descriptor, an \<open>int\<close> of the C code.\<close>

definition k_openat :: "'w kernel \<Rightarrow> fd \<Rightarrow> string \<Rightarrow> open_flag set \<Rightarrow> ('w, fd) sys" where
  "k_openat K dir path flags = do {
     r \<leftarrow> sys_openat K dir path flags;
     State_Monad.return (case r of Inl e \<Rightarrow> Inl e | Inr n \<Rightarrow> Inr (int n)) }"

definition k_dupfd :: "'w kernel \<Rightarrow> fd \<Rightarrow> ('w, fd) sys" where
  "k_dupfd K fd = do {
     r \<leftarrow> sys_dupfd_cloexec K fd;
     State_Monad.return (case r of Inl e \<Rightarrow> Inl e | Inr n \<Rightarrow> Inr (int n)) }"

text \<open>The name of a descriptor under \<open>/proc/self/fd\<close>: \<open>printf\<close> with \<open>%d\<close>.\<close>

definition decimal :: "int \<Rightarrow> string" where
  "decimal i = (if i < 0 then CHR ''-'' # print_nat 10 (nat (- i)) else print_nat 10 (nat i))"

definition proc_self_fd :: "fd \<Rightarrow> string" where
  "proc_self_fd fd = ''/proc/self/fd/'' @ decimal fd"

section \<open>libglnx\<close>

text \<open>\<open>glnx_dirfd_canonicalize\<close>: -1 stands for the current directory.\<close>

definition glnx_dirfd_canonicalize :: "fd \<Rightarrow> fd" where
  "glnx_dirfd_canonicalize fd = (if fd = - 1 then AT_FDCWD else fd)"

definition glnx_close_fd :: "'w kernel \<Rightarrow> fd \<Rightarrow> ('w, unit) state" where
  "glnx_close_fd K fd = (if fd \<ge> 0 then sys_close K fd else State_Monad.return ())"

definition glnx_opendirat :: "'w kernel \<Rightarrow> fd \<Rightarrow> string \<Rightarrow> bool \<Rightarrow> ('w, fd) io" where
  "glnx_opendirat K dfd path follow = do {
     r \<leftarrow> k_openat K (glnx_dirfd_canonicalize dfd) path
       ({O_RDONLY, O_NONBLOCK, O_DIRECTORY, O_CLOEXEC, O_NOCTTY} \<union> (if follow then {} else {O_NOFOLLOW}));
     State_Monad.return (case r of Inl e \<Rightarrow> Inl (throw_errno e) | Inr fd \<Rightarrow> Inr fd) }"

definition glnx_openat_rdonly :: "'w kernel \<Rightarrow> fd \<Rightarrow> string \<Rightarrow> bool \<Rightarrow> ('w, fd) io" where
  "glnx_openat_rdonly K dfd path follow = do {
     r \<leftarrow> k_openat K dfd path
       ({O_RDONLY, O_CLOEXEC, O_NOCTTY} \<union> (if follow then {} else {O_NOFOLLOW}));
     State_Monad.return (case r of Inl e \<Rightarrow> Inl (throw_errno e) | Inr fd \<Rightarrow> Inr fd) }"

text \<open>The buffer of \<open>glnx_readlinkat_malloc\<close> grows until the target fits, so the result is the
  whole target.\<close>

definition glnx_readlinkat_malloc :: "'w kernel \<Rightarrow> fd \<Rightarrow> string \<Rightarrow> ('w, string) io" where
  "glnx_readlinkat_malloc K dfd subpath = do {
     r \<leftarrow> sys_readlinkat K (glnx_dirfd_canonicalize dfd) subpath;
     State_Monad.return (case r of Inl e \<Rightarrow> Inl (throw_errno e) | Inr t \<Rightarrow> Inr t) }"

definition glnx_fstatat :: "'w kernel \<Rightarrow> fd \<Rightarrow> string \<Rightarrow> at_flag set \<Rightarrow> ('w, stat) io" where
  "glnx_fstatat K dfd path flags = do {
     r \<leftarrow> sys_fstatat K dfd path flags;
     State_Monad.return (case r of Inl e \<Rightarrow> Inl (throw_errno e) | Inr st \<Rightarrow> Inr st) }"

definition glnx_ensure_dir :: "'w kernel \<Rightarrow> fd \<Rightarrow> string \<Rightarrow> nat \<Rightarrow> ('w, unit) io" where
  "glnx_ensure_dir K dfd path mode = do {
     r \<leftarrow> sys_mkdirat K dfd path mode;
     State_Monad.return (case r of
         Inl e \<Rightarrow> if e \<noteq> EEXIST then Inl (throw_errno e) else Inr ()
       | Inr u \<Rightarrow> Inr ()) }"

text \<open>\<open>glnx_basename\<close>: the text after the last slash.\<close>

definition glnx_basename :: "string \<Rightarrow> string" where
  "glnx_basename path = (case strrchr path CHR ''/'' of Some (_, b) \<Rightarrow> b | None \<Rightarrow> path)"

lemma glnx_basename_no_slash: "CHR ''/'' \<notin> set (glnx_basename p)"
  by (auto simp: glnx_basename_def strrchr_Some_iff strrchr_None split: option.splits)

section \<open>The logging kernel\<close>

text \<open>What a child process does after \<open>fork\<close>, as far as a log shows it: it closes a descriptor, or opens a file and exits
  with the status 0 or 1.\<close>

datatype child_step = Child_close fd | Child_exit_after_open fd string "open_flag set"

datatype call =
    C_dup fd "errno + nat"
  | C_openat fd string "open_flag set" "errno + nat"
  | C_close fd
  | C_mkdirat fd string "errno + unit"
  | C_readlinkat fd string "errno + string"
  | C_fstatat fd string "errno + stat"
  | C_access string "errno + unit"
  | C_faccessat fd string "errno + unit"
  | C_linkat fd string fd string "errno + unit"
  | C_symlinkat string fd string "errno + unit"
  | C_fchmod fd nat "errno + unit"
  | C_futimens fd "errno + unit"
  | C_read_all fd
  | C_read fd "errno + string"
  | C_realpath string
  | C_read_lines fd
  | C_ftw string
  | C_get_contents string
  | C_file_copy fd string fd string "gerror + unit"
  | C_pipe2 "errno + nat \<times> nat"
  | C_set_nonblock fd
  | C_fork "child_step list" "errno + nat"
  | C_select_read fd nat int
  | C_sigkill nat
  | C_waitpid nat int

definition log_call :: "('w, 'a) state \<Rightarrow> ('a \<Rightarrow> 'c) \<Rightarrow> ('w \<times> 'c list, 'a) state" where
  "log_call m c = State (\<lambda>(w, l). case run_state m w of (r, w') \<Rightarrow> (r, (w', l @ [c r])))"

definition logged :: "'w kernel \<Rightarrow> ('w \<times> call list) kernel" where
  "logged K = \<lparr>
     sys_dupfd_cloexec = (\<lambda>fd. log_call (sys_dupfd_cloexec K fd) (C_dup fd)),
     sys_openat = (\<lambda>fd p fl. log_call (sys_openat K fd p fl) (C_openat fd p fl)),
     sys_close = (\<lambda>fd. log_call (sys_close K fd) (\<lambda>_. C_close fd)),
     sys_mkdirat = (\<lambda>fd p m. log_call (sys_mkdirat K fd p m) (C_mkdirat fd p)),
     sys_readlinkat = (\<lambda>fd p. log_call (sys_readlinkat K fd p) (C_readlinkat fd p)),
     sys_fstatat = (\<lambda>fd p fl. log_call (sys_fstatat K fd p fl) (C_fstatat fd p)),
     sys_access = (\<lambda>p m. log_call (sys_access K p m) (C_access p)),
     sys_faccessat = (\<lambda>fd p m. log_call (sys_faccessat K fd p m) (C_faccessat fd p)),
     sys_linkat = (\<lambda>sfd s fd p. log_call (sys_linkat K sfd s fd p) (C_linkat sfd s fd p)),
     sys_symlinkat = (\<lambda>t fd p. log_call (sys_symlinkat K t fd p) (C_symlinkat t fd p)),
     sys_fchmod = (\<lambda>fd m. log_call (sys_fchmod K fd m) (C_fchmod fd m)),
     sys_futimens = (\<lambda>fd t. log_call (sys_futimens K fd t) (C_futimens fd)),
     sys_read_all = (\<lambda>fd. log_call (sys_read_all K fd) (\<lambda>_. C_read_all fd)),
     sys_read = (\<lambda>fd n. log_call (sys_read K fd n) (C_read fd)),
     sys_realpath = (\<lambda>p. log_call (sys_realpath K p) (\<lambda>_. C_realpath p)),
     sys_read_lines = (\<lambda>fd z. log_call (sys_read_lines K fd z) (\<lambda>_. C_read_lines fd)),
     sys_ftw = (\<lambda>p. log_call (sys_ftw K p) (\<lambda>_. C_ftw p)),
     sys_get_contents = (\<lambda>p. log_call (sys_get_contents K p) (\<lambda>_. C_get_contents p)),
     sys_file_copy = (\<lambda>sfd s fd p. log_call (sys_file_copy K sfd s fd p) (C_file_copy sfd s fd p)) \<rparr>"

lemma hoare_log_call:
  "(\<And>w l r w'. P (w, l) \<Longrightarrow> Q r (w', l @ [c r])) \<Longrightarrow> hoare P (log_call m c) Q"
  by (auto simp: hoare_def log_call_def split: prod.splits)

text \<open>What a computation adds to the log does not depend on what is in the log already.\<close>

named_theorems frame_rules \<open>computations that only append to the log\<close>

definition frames :: "('w \<times> 'c list, 'a) state \<Rightarrow> bool" where
  "frames m = (\<forall>w l. run_state m (w, l) =
     (case run_state m (w, []) of (r, (w', l')) \<Rightarrow> (r, (w', l @ l'))))"

lemma framesD:
  assumes "frames m" "run_state m (w, []) = (r, (w', l'))"
  shows "run_state m (w, l) = (r, (w', l @ l'))"
proof -
  have "run_state m (w, l) = (case run_state m (w, []) of (r, (w', l')) \<Rightarrow> (r, (w', l @ l')))"
    using assms(1) unfolding frames_def by blast
  then show ?thesis by (simp only: assms(2) prod.case)
qed

lemma frames_return [frame_rules]: "frames (State_Monad.return x)"
  by (simp add: frames_def)

lemma frames_log_call [frame_rules]: "frames (log_call m c)"
  by (simp add: frames_def log_call_def split: prod.split)

lemma frames_bind [frame_rules]:
  assumes "frames m" "\<And>x. frames (f x)"
  shows "frames (State_Monad.bind m f)"
  unfolding frames_def
proof (intro allI)
  fix w l
  obtain r w' l' where m: "run_state m (w, []) = (r, (w', l'))" by (cases "run_state m (w, [])") auto
  obtain r2 w2 l2 where f: "run_state (f r) (w', []) = (r2, (w2, l2))" by (cases "run_state (f r) (w', [])") auto
  show "run_state (m \<bind> f) (w, l) =
      (case run_state (m \<bind> f) (w, []) of (r, (w', l')) \<Rightarrow> (r, (w', l @ l')))"
    unfolding run_state_bind m prod.case framesD [OF assms(1) m] framesD [OF assms(2) f] by simp
qed

lemma frames_if [frame_rules]: "frames m \<Longrightarrow> frames n \<Longrightarrow> frames (if b then m else n)"
  by simp

lemma frames_sum [frame_rules]:
  "(\<And>e. frames (f e)) \<Longrightarrow> (\<And>x. frames (g x)) \<Longrightarrow> frames (case r of Inl e \<Rightarrow> f e | Inr x \<Rightarrow> g x)"
  by (cases r) auto

lemma frames_option [frame_rules]:
  "frames f \<Longrightarrow> (\<And>x. frames (g x)) \<Longrightarrow> frames (case r of None \<Rightarrow> f | Some x \<Rightarrow> g x)"
  by (cases r) auto

lemma frames_prod [frame_rules]: "(\<And>x y. frames (f x y)) \<Longrightarrow> frames (case r of (x, y) \<Rightarrow> f x y)"
  by (cases r) auto

lemma frames_logged [frame_rules]:
  "frames (sys_dupfd_cloexec (logged K) fd)" "frames (sys_openat (logged K) fd p fl)"
  "frames (sys_close (logged K) fd)" "frames (sys_mkdirat (logged K) fd p m)"
  "frames (sys_readlinkat (logged K) fd p)" "frames (sys_fstatat (logged K) fd p afl)"
  "frames (sys_access (logged K) p am)"
  by (simp_all add: logged_def frames_log_call)

lemma frames_k_calls [frame_rules]: "frames (k_openat (logged K) fd p fl)" "frames (k_dupfd (logged K) fd)"
  unfolding k_openat_def k_dupfd_def by (intro frame_rules)+

lemma frames_libglnx [frame_rules]:
  "frames (glnx_close_fd (logged K) fd)" "frames (glnx_opendirat (logged K) fd p b)"
  "frames (glnx_openat_rdonly (logged K) fd p b)" "frames (glnx_readlinkat_malloc (logged K) fd p)"
  "frames (glnx_fstatat (logged K) fd p afl)" "frames (glnx_ensure_dir (logged K) fd p m)"
  unfolding glnx_close_fd_def glnx_opendirat_def glnx_openat_rdonly_def glnx_readlinkat_malloc_def
    glnx_fstatat_def glnx_ensure_dir_def
  by (intro frame_rules)+

end
