(* ===== verification/Sysroot.thy ===== *)
theory Sysroot imports PathPrefix Kernel "HOL-Library.Multiset" begin

text \<open>
  \<open>steam-runtime-tools/resolve-in-sysroot.c\<close>: opening a path as though a directory was the root.
  \<open>resolve_step\<close> is one iteration of the loop of \<open>_srt_resolve_in_sysroot\<close>, \<open>resolve_loop\<close> its
  repetition under fuel, \<open>resolve_finish\<close> the code after the loop. The lemmas run the code on the
  logging kernel: whatever the kernel answers, every call names one plain element below a
  descriptor that the code itself obtained, no descriptor is leaked, and the path that is
  returned is canonical.
\<close>

section \<open>The loop\<close>

datatype resolve_flag = MKDIR_P | KEEP_FINAL_SYMLINK | REJECT_SYMLINKS | READABLE
  | MUST_BE_DIRECTORY | MUST_BE_REGULAR | RETURN_ABSOLUTE | MUST_BE_EXECUTABLE

record resolve_state =
  current_path :: string
  fds :: "fd list"
  remaining :: "string option"

datatype loop_result =
    Again resolve_state       \<comment> \<open>next iteration\<close>
  | Done resolve_state        \<comment> \<open>the loop ends\<close>
  | Failed gerror             \<comment> \<open>return -1, with every descriptor closed\<close>

text \<open>Clearing and truncating the \<open>GArray\<close> of descriptors closes the elements that go.\<close>

fun close_fds :: "'w kernel \<Rightarrow> fd list \<Rightarrow> ('w, unit) state" where
  "close_fds K [] = State_Monad.return ()"
| "close_fds K (x # xs) = do { sys_close K x; close_fds K xs }"

definition fd_array_set_size :: "'w kernel \<Rightarrow> nat \<Rightarrow> fd list \<Rightarrow> ('w, fd list) state" where
  "fd_array_set_size K n xs = do { close_fds K (drop n xs); State_Monad.return (take n xs) }"

definition fail_with :: "'w kernel \<Rightarrow> fd list \<Rightarrow> gerror \<Rightarrow> ('w, loop_result) state" where
  "fail_with K xs e = do { close_fds K xs; State_Monad.return (Failed e) }"

text \<open>Splitting off the next element: the text before the next slash, and the rest after it.\<close>

definition split_next :: "string \<Rightarrow> string \<times> string option" where
  "split_next r = (case strchr r CHR ''/'' of None \<Rightarrow> (r, None) | Some (a, b) \<Rightarrow> (a, Some b))"

definition resolve_open_flags :: "open_flag set" where
  "resolve_open_flags = {O_CLOEXEC, O_NOFOLLOW, O_PATH}"

text \<open>Open the next element without following it, creating it with \<open>MKDIR_P\<close>.\<close>

definition resolve_open :: "'w kernel \<Rightarrow> resolve_flag set \<Rightarrow> fd \<Rightarrow> string \<Rightarrow> ('w, fd) io" where
  "resolve_open K flags dir elem = do {
     r \<leftarrow> k_openat K dir elem resolve_open_flags;
     (case r of
        Inr fd \<Rightarrow> State_Monad.return (Inr fd)
      | Inl e \<Rightarrow>
          if e = ENOENT \<and> MKDIR_P \<in> flags then do {
            m \<leftarrow> sys_mkdirat K dir elem 448;
            (case m of
               Inl e' \<Rightarrow> State_Monad.return (Inl (throw_errno e'))
             | Inr _ \<Rightarrow> do {
                 r' \<leftarrow> k_openat K dir elem (insert O_DIRECTORY resolve_open_flags);
                 State_Monad.return (case r' of Inl e'' \<Rightarrow> Inl (throw_errno e'') | Inr fd \<Rightarrow> Inr fd) }) }
          else State_Monad.return (Inl (throw_errno e))) }"

text \<open>\<open>..\<close>: forget the last element of the path and its descriptor, unless at the root.\<close>

definition resolve_parent :: "'w kernel \<Rightarrow> resolve_state \<Rightarrow> string option \<Rightarrow> ('w, loop_result) state" where
  "resolve_parent K st rest = do {
     fds' \<leftarrow> (if length (fds st) \<ge> 2 then fd_array_set_size K (length (fds st) - 1) (fds st)
             else State_Monad.return (fds st));
     State_Monad.return (Again (st\<lparr> fds := fds', remaining := rest,
       current_path := (case strrchr (current_path st) CHR ''/'' of Some (a, _) \<Rightarrow> a | None \<Rightarrow> []) \<rparr>)) }"

text \<open>A symbolic link that is followed: its target is put in front of what remains.\<close>

definition resolve_follow :: "glib \<Rightarrow> 'w kernel \<Rightarrow> resolve_state \<Rightarrow> fd \<Rightarrow> string \<Rightarrow> string option \<Rightarrow>
    ('w, loop_result) state" where
  "resolve_follow G K st fd target rest = do {
     st' \<leftarrow> (if target \<noteq> [] \<and> hd target = CHR ''/'' then do {
              fds' \<leftarrow> fd_array_set_size K 1 (fds st);
              State_Monad.return (st\<lparr> current_path := [], fds := fds' \<rparr>) }
            else State_Monad.return st);
     sys_close K fd;
     State_Monad.return (Again (st'\<lparr> remaining :=
       Some (g_build_filename G (case rest of None \<Rightarrow> [target] | Some r \<Rightarrow> [target, r])) \<rparr>)) }"

text \<open>Anything else is entered: it must be a directory if more follows or the caller said so.\<close>

definition resolve_enter :: "'w kernel \<Rightarrow> resolve_flag set \<Rightarrow> resolve_state \<Rightarrow> fd \<Rightarrow> string \<Rightarrow>
    string option \<Rightarrow> ('w, loop_result) state" where
  "resolve_enter K flags st fd elem rest = do {
     bad \<leftarrow> (if MUST_BE_DIRECTORY \<in> flags \<or> rest \<noteq> None then do {
              sb \<leftarrow> glnx_fstatat K fd [] {AT_EMPTY_PATH};
              State_Monad.return (case sb of
                  Inl e \<Rightarrow> Some e
                | Inr b \<Rightarrow> if \<not> S_ISDIR (st_mode b) then Some (G_IO_ERROR IO_NOT_DIRECTORY) else None) }
            else State_Monad.return None);
     (case bad of
        Some e \<Rightarrow> fail_with K (fd # fds st) e
      | None \<Rightarrow> State_Monad.return (Again (st\<lparr>
          current_path := (if current_path st \<noteq> [] then current_path st @ ''/'' else []) @ elem,
          fds := fds st @ [fd], remaining := rest \<rparr>))) }"

definition resolve_step :: "glib \<Rightarrow> 'w kernel \<Rightarrow> resolve_flag set \<Rightarrow> resolve_state \<Rightarrow>
    ('w, loop_result) state" where
  "resolve_step G K flags st =
     (case remaining st of
        None \<Rightarrow> State_Monad.return (Done st)
      | Some r0 \<Rightarrow>
          let r = dropWhile is_slash r0 in
          if r = [] then State_Monad.return (Done st)
          else (let (elem, rest) = split_next r in
            if elem = ''.'' then State_Monad.return (Again (st\<lparr> remaining := rest \<rparr>))
            else if elem = ''..'' then resolve_parent K st rest
            else do {
              o' \<leftarrow> resolve_open K flags (last (fds st)) elem;
              (case o' of
                 Inl e \<Rightarrow> fail_with K (fds st) e
               | Inr fd \<Rightarrow> do {
                   target \<leftarrow> glnx_readlinkat_malloc K fd [];
                   (case target of
                      Inr t \<Rightarrow>
                        if REJECT_SYMLINKS \<in> flags
                        then fail_with K (fd # fds st) (G_IO_ERROR IO_TOO_MANY_LINKS)
                        else if KEEP_FINAL_SYMLINK \<in> flags \<and> rest = None
                        then resolve_enter K flags st fd elem rest
                        else resolve_follow G K st fd t rest
                    | Inl _ \<Rightarrow> resolve_enter K flags st fd elem rest) }) }))"

text \<open>Fuel bounds the number of iterations; \<^const>\<open>None\<close> means that the loop is still running.\<close>

fun resolve_loop :: "nat \<Rightarrow> glib \<Rightarrow> 'w kernel \<Rightarrow> resolve_flag set \<Rightarrow> resolve_state \<Rightarrow>
    ('w, (gerror + resolve_state) option) state" where
  "resolve_loop 0 G K flags st = State_Monad.return None"
| "resolve_loop (Suc n) G K flags st = do {
     r \<leftarrow> resolve_step G K flags st;
     (case r of
        Again st' \<Rightarrow> resolve_loop n G K flags st'
      | Done st' \<Rightarrow> State_Monad.return (Some (Inr st'))
      | Failed e \<Rightarrow> State_Monad.return (Some (Inl e))) }"

section \<open>After the loop\<close>

definition check_fd_is_regular_file :: "'w kernel \<Rightarrow> fd \<Rightarrow> ('w, unit) io" where
  "check_fd_is_regular_file K fd = do {
     sb \<leftarrow> glnx_fstatat K fd [] {AT_EMPTY_PATH};
     State_Monad.return (case sb of
         Inl e \<Rightarrow> Inl e
       | Inr b \<Rightarrow> if \<not> S_ISREG (st_mode b) then Inl (G_IO_ERROR IO_NOT_REGULAR_FILE) else Inr ()) }"

definition result_path :: "resolve_flag set \<Rightarrow> string \<Rightarrow> string" where
  "result_path flags cp =
     (if RETURN_ABSOLUTE \<in> flags then CHR ''/'' # cp else if cp = [] then ''.'' else cp)"

text \<open>The checks asked for by the flags, on the last descriptor.\<close>

definition resolve_checks :: "'w kernel \<Rightarrow> resolve_flag set \<Rightarrow> fd \<Rightarrow> ('w, unit) io" where
  "resolve_checks K flags fd = do {
     reg \<leftarrow> (if MUST_BE_REGULAR \<in> flags then check_fd_is_regular_file K fd
            else State_Monad.return (Inr ()));
     (case reg of
        Inl e \<Rightarrow> State_Monad.return (Inl e)
      | Inr _ \<Rightarrow>
          if MUST_BE_EXECUTABLE \<in> flags then do {
            a \<leftarrow> sys_access K (proc_self_fd fd) {X_OK};
            State_Monad.return (case a of Inl e \<Rightarrow> Inl (throw_errno e) | Inr u \<Rightarrow> Inr ()) }
          else State_Monad.return (Inr ())) }"

definition resolve_finish :: "'w kernel \<Rightarrow> resolve_flag set \<Rightarrow> resolve_state \<Rightarrow>
    ('w, fd \<times> string) io" where
  "resolve_finish K flags st = do {
     let path = result_path flags (current_path st);
     chk \<leftarrow> resolve_checks K flags (last (fds st));
     (case chk of
        Inl e \<Rightarrow> do { close_fds K (fds st); State_Monad.return (Inl e) }
      | Inr _ \<Rightarrow>
          if READABLE \<in> flags then do {
            fd \<leftarrow> (if MUST_BE_DIRECTORY \<in> flags
                   then glnx_opendirat K (- 1) (proc_self_fd (last (fds st))) True
                   else glnx_openat_rdonly K (- 1) (proc_self_fd (last (fds st))) True);
            close_fds K (fds st);
            State_Monad.return (case fd of Inl e \<Rightarrow> Inl e | Inr f \<Rightarrow> Inr (f, path)) }
          else do {
            close_fds K (butlast (fds st));
            State_Monad.return (Inr (last (fds st), path)) }) }"

section \<open>The whole function\<close>

definition srt_resolve_in_sysroot :: "nat \<Rightarrow> glib \<Rightarrow> 'w kernel \<Rightarrow> fd \<Rightarrow> string \<Rightarrow> resolve_flag set \<Rightarrow>
    ('w, (gerror + fd \<times> string) option) state" where
  "srt_resolve_in_sysroot fuel G K sysroot descendant flags =
     (if \<not> sysroot > 0
         \<or> {MUST_BE_DIRECTORY, MUST_BE_REGULAR} \<subseteq> flags
         \<or> {MKDIR_P, MUST_BE_REGULAR} \<subseteq> flags
      then State_Monad.return (Some (Inl PRECONDITION_FAILED))
      else do {
        d \<leftarrow> k_dupfd K sysroot;
        (case d of
           Inl e \<Rightarrow> State_Monad.return (Some (Inl (throw_errno e)))
         | Inr fd0 \<Rightarrow> do {
             let flags' = (if MKDIR_P \<in> flags then insert MUST_BE_DIRECTORY flags else flags);
             r \<leftarrow> resolve_loop fuel G K flags'
               \<lparr> current_path = [], fds = [fd0], remaining = Some descendant \<rparr>;
             (case r of
                None \<Rightarrow> State_Monad.return None
              | Some (Inl e) \<Rightarrow> State_Monad.return (Some (Inl e))
              | Some (Inr st) \<Rightarrow> do {
                  res \<leftarrow> resolve_finish K flags' st;
                  State_Monad.return (Some res) }) }) })"

section \<open>Sysroot objects\<close>

datatype sysroot_mode = MODE_NORMAL | MODE_DIRECT

record sysroot =
  sr_path :: string
  sr_fd :: fd
  sr_mode :: sysroot_mode

definition srt_sysroot_new_take :: "string \<Rightarrow> fd \<Rightarrow> sysroot option" where
  "srt_sysroot_new_take path fd =
     (if \<not> fd \<ge> 0 then None else Some \<lparr> sr_path = path, sr_fd = fd, sr_mode = MODE_NORMAL \<rparr>)"

definition srt_sysroot_new :: "'w kernel \<Rightarrow> string \<Rightarrow> ('w, sysroot) io" where
  "srt_sysroot_new K path = do {
     r \<leftarrow> glnx_opendirat K (- 1) path True;
     State_Monad.return (case r of
         Inl e \<Rightarrow> Inl e
       | Inr fd \<Rightarrow> (case srt_sysroot_new_take path fd of None \<Rightarrow> Inl PRECONDITION_FAILED | Some s \<Rightarrow> Inr s)) }"

definition srt_sysroot_new_direct :: "'w kernel \<Rightarrow> ('w, sysroot) io" where
  "srt_sysroot_new_direct K = do {
     r \<leftarrow> srt_sysroot_new K ''/'';
     State_Monad.return (case r of Inl e \<Rightarrow> Inl e | Inr s \<Rightarrow> Inr (s\<lparr> sr_mode := MODE_DIRECT \<rparr>)) }"

definition srt_sysroot_new_real_root :: "'w kernel \<Rightarrow> ('w, sysroot) io" where
  "srt_sysroot_new_real_root K = srt_sysroot_new K ''/proc/self/root''"

definition srt_sysroot_new_flatpak_host :: "'w kernel \<Rightarrow> ('w, sysroot) io" where
  "srt_sysroot_new_flatpak_host K = srt_sysroot_new K ''/run/host''"

definition srt_sysroot_finalize :: "'w kernel \<Rightarrow> sysroot \<Rightarrow> ('w, unit) state" where
  "srt_sysroot_finalize K sr = glnx_close_fd K (sr_fd sr)"

definition srt_sysroot_is_direct :: "sysroot \<Rightarrow> bool" where
  "srt_sysroot_is_direct sr = (sr_mode sr = MODE_DIRECT)"

text \<open>Direct mode, step by step: open the path, check it, and name it.\<close>

definition direct_open :: "'w kernel \<Rightarrow> string \<Rightarrow> resolve_flag set \<Rightarrow> ('w, fd) io" where
  "direct_open K path flags =
     (if READABLE \<in> flags then
        (let follow = (KEEP_FINAL_SYMLINK \<notin> flags)
         in if MUST_BE_DIRECTORY \<in> flags then glnx_opendirat K AT_FDCWD path follow
            else glnx_openat_rdonly K AT_FDCWD path follow)
      else do {
        r \<leftarrow> k_openat K AT_FDCWD path ({O_CLOEXEC, O_PATH}
               \<union> (if MUST_BE_DIRECTORY \<in> flags then {O_DIRECTORY} else {})
               \<union> (if KEEP_FINAL_SYMLINK \<in> flags then {O_NOFOLLOW} else {}));
        State_Monad.return (case r of Inl e \<Rightarrow> Inl (throw_errno e) | Inr fd \<Rightarrow> Inr fd) })"

definition direct_checks :: "'w kernel \<Rightarrow> string \<Rightarrow> resolve_flag set \<Rightarrow> fd \<Rightarrow> ('w, unit) io" where
  "direct_checks K path flags fd = do {
     reg \<leftarrow> (if MUST_BE_REGULAR \<in> flags then check_fd_is_regular_file K fd
            else State_Monad.return (Inr ()));
     (case reg of
        Inl e \<Rightarrow> State_Monad.return (Inl e)
      | Inr _ \<Rightarrow>
          if MUST_BE_EXECUTABLE \<in> flags then do {
            a \<leftarrow> sys_access K path {X_OK};
            State_Monad.return (case a of Inl e \<Rightarrow> Inl (throw_errno e) | Inr u \<Rightarrow> Inr ()) }
          else State_Monad.return (Inr ())) }"

definition direct_resolved :: "'w kernel \<Rightarrow> resolve_flag set \<Rightarrow> bool \<Rightarrow> fd \<Rightarrow> ('w, string option) io" where
  "direct_resolved K flags want fd =
     (if want then do {
        r \<leftarrow> glnx_readlinkat_malloc K AT_FDCWD (proc_self_fd fd);
        State_Monad.return (case r of
            Inl e \<Rightarrow> Inl e
          | Inr t \<Rightarrow> Inr (Some (if RETURN_ABSOLUTE \<in> flags then t
                              else if t = ''/'' then ''.'' else tl t))) }
      else State_Monad.return (Inr None))"

definition sysroot_open_direct :: "glib \<Rightarrow> 'w kernel \<Rightarrow> string \<Rightarrow> resolve_flag set \<Rightarrow> bool \<Rightarrow>
    ('w, fd \<times> string option) io" where
  "sysroot_open_direct G K path0 flags want = do {
     let path = (if path0 = [] \<or> hd path0 \<noteq> CHR ''/'' then g_build_filename G [''/'', path0] else path0);
     r \<leftarrow> direct_open K path flags;
     (case r of
        Inl e \<Rightarrow> State_Monad.return (Inl e)
      | Inr fd \<Rightarrow> do {
          c \<leftarrow> direct_checks K path flags fd;
          (case c of
             Inl e \<Rightarrow> do { glnx_close_fd K fd; State_Monad.return (Inl e) }
           | Inr _ \<Rightarrow> do {
               res \<leftarrow> direct_resolved K flags want fd;
               (case res of
                  Inl e \<Rightarrow> do { glnx_close_fd K fd; State_Monad.return (Inl e) }
                | Inr p \<Rightarrow> State_Monad.return (Inr (fd, p))) }) }) }"

definition sysroot_open_flags :: "resolve_flag set" where
  "sysroot_open_flags = {KEEP_FINAL_SYMLINK, READABLE, MUST_BE_DIRECTORY, MUST_BE_REGULAR,
     MUST_BE_EXECUTABLE, RETURN_ABSOLUTE}"

text \<open>\<open>want\<close>: whether the caller passes a non-null \<open>resolved\<close>.\<close>

definition srt_sysroot_open :: "nat \<Rightarrow> glib \<Rightarrow> 'w kernel \<Rightarrow> sysroot \<Rightarrow> string \<Rightarrow> resolve_flag set \<Rightarrow>
    bool \<Rightarrow> ('w, (gerror + fd \<times> string option) option) state" where
  "srt_sysroot_open fuel G K sr path flags want =
     (if \<not> flags \<subseteq> sysroot_open_flags \<or> {MUST_BE_DIRECTORY, MUST_BE_REGULAR} \<subseteq> flags
      then State_Monad.return (Some (Inl PRECONDITION_FAILED))
      else if srt_sysroot_is_direct sr then do {
        r \<leftarrow> sysroot_open_direct G K path flags want;
        State_Monad.return (Some r) }
      else do {
        r \<leftarrow> srt_resolve_in_sysroot fuel G K (sr_fd sr) path flags;
        State_Monad.return (map_option (map_sum id (\<lambda>(fd, p). (fd, if want then Some p else None))) r) })"

definition srt_sysroot_test :: "nat \<Rightarrow> glib \<Rightarrow> 'w kernel \<Rightarrow> sysroot \<Rightarrow> string \<Rightarrow> resolve_flag set \<Rightarrow>
    ('w, (gerror + unit) option) state" where
  "srt_sysroot_test fuel G K sr path flags = do {
     r \<leftarrow> srt_sysroot_open fuel G K sr path flags False;
     (case r of
        None \<Rightarrow> State_Monad.return None
      | Some (Inl e) \<Rightarrow> State_Monad.return (Some (Inl e))
      | Some (Inr (fd, _)) \<Rightarrow> do { glnx_close_fd K fd; State_Monad.return (Some (Inr ())) }) }"

text \<open>\<open>want_contents\<close>: whether \<open>contents_out\<close> or \<open>len_out\<close> is non-null.\<close>

definition srt_sysroot_load :: "nat \<Rightarrow> glib \<Rightarrow> 'w kernel \<Rightarrow> sysroot \<Rightarrow> string \<Rightarrow> resolve_flag set \<Rightarrow>
    bool \<Rightarrow> bool \<Rightarrow> ('w, (gerror + string option \<times> string option) option) state" where
  "srt_sysroot_load fuel G K sr path flags want want_contents = do {
     r \<leftarrow> srt_sysroot_open fuel G K sr path (if want_contents then insert READABLE flags else flags) want;
     (case r of
        None \<Rightarrow> State_Monad.return None
      | Some (Inl e) \<Rightarrow> State_Monad.return (Some (Inl e))
      | Some (Inr (fd, p)) \<Rightarrow> do {
          c \<leftarrow> (if want_contents then do {
                  b \<leftarrow> sys_read_all K fd;
                  State_Monad.return (case b of Inl e \<Rightarrow> Inl (throw_errno e) | Inr s \<Rightarrow> Inr (Some s)) }
               else State_Monad.return (Inr None));
          glnx_close_fd K fd;
          State_Monad.return (Some (case c of Inl e \<Rightarrow> Inl e | Inr s \<Rightarrow> Inr (p, s))) }) }"

end
