(* ===== verification/SysrootConfine.thy ===== *)
theory SysrootConfine imports Sysroot begin

text \<open>
  \<open>_srt_resolve_in_sysroot\<close> on the logging kernel: an invariant over the log of system calls,
  kept by every piece of the code and so by the whole function, for every kernel underneath. It
  bounds what the function may ask of the kernel and accounts for every descriptor it opens.
\<close>

section \<open>What the calls may be\<close>

text \<open>An element of a path that cannot lead anywhere but to an entry of the directory itself.\<close>

definition safe_elem :: "string \<Rightarrow> bool" where
  "safe_elem x = (seg_ok x \<and> plain_seg x)"

text \<open>Descriptors gained and given up by a call, and by a log.\<close>

fun opened1 :: "call \<Rightarrow> fd multiset" where
  "opened1 (C_dup _ (Inr n)) = {#int n#}"
| "opened1 (C_openat _ _ _ (Inr n)) = {#int n#}"
| "opened1 (C_pipe2 (Inr (a, b))) = {#int a, int b#}"
| "opened1 _ = {#}"

fun closed1 :: "call \<Rightarrow> fd multiset" where
  "closed1 (C_close fd) = {#fd#}"
| "closed1 _ = {#}"

definition opened :: "call list \<Rightarrow> fd multiset" where
  "opened l = sum_list (map opened1 l)"

definition closed :: "call list \<Rightarrow> fd multiset" where
  "closed l = sum_list (map closed1 l)"

lemma opened_simps [simp]: "opened [] = {#}" "opened (l @ m) = opened l + opened m"
  "opened [c] = opened1 c"
  by (simp_all add: opened_def)

lemma closed_simps [simp]: "closed [] = {#}" "closed (l @ m) = closed l + closed m"
  "closed [c] = closed1 c"
  by (simp_all add: closed_def)

text \<open>
  A call is confined when it uses the given root only to duplicate it, and otherwise a descriptor
  that the log has obtained before: to open or create one safe element without following links,
  to inspect the descriptor itself (the empty path), or to reopen it by its name in \<open>/proc\<close>.
\<close>

definition via_proc :: "fd set \<Rightarrow> string \<Rightarrow> bool" where
  "via_proc known p = (\<exists>f \<in> known. p = proc_self_fd f)"

lemma via_procI: "set_mset F \<subseteq> known \<Longrightarrow> d \<in># F \<Longrightarrow> via_proc known (proc_self_fd d)"
  by (auto simp: via_proc_def)

fun call_confined :: "fd \<Rightarrow> fd set \<Rightarrow> call \<Rightarrow> bool" where
  "call_confined root known (C_dup fd r) = (fd = root)"
| "call_confined root known (C_openat fd p fl r) =
     (fd \<in> known \<and> safe_elem p \<and> {O_NOFOLLOW, O_PATH} \<subseteq> fl \<or> via_proc known p)"
| "call_confined root known (C_close fd) = (fd \<in> known)"
| "call_confined root known (C_mkdirat fd p r) = (fd \<in> known \<and> safe_elem p)"
| "call_confined root known (C_readlinkat fd p r) = (fd \<in> known \<and> p = [])"
| "call_confined root known (C_fstatat fd p r) = (fd \<in> known \<and> p = [])"
| "call_confined root known (C_access p r) = via_proc known p"
| "call_confined root known c = False"

fun confined :: "fd \<Rightarrow> fd set \<Rightarrow> call list \<Rightarrow> bool" where
  "confined root known [] = True"
| "confined root known (c # cs) =
     (call_confined root known c \<and> confined root (known \<union> set_mset (opened1 c)) cs)"

lemma confined_snoc:
  "confined root known (l @ [c]) \<longleftrightarrow>
   confined root known l \<and> call_confined root (known \<union> set_mset (opened l)) c"
  by (induction l arbitrary: known) (auto simp: opened_def Un_assoc)

text \<open>The invariant: the log is confined, and the descriptors opened and not closed are \<open>F\<close>.\<close>

definition log_inv :: "fd \<Rightarrow> fd multiset \<Rightarrow> 'w \<times> call list \<Rightarrow> bool" where
  "log_inv root F = (\<lambda>(w, l). confined root {} l \<and> opened l = closed l + F \<and> (\<forall>f \<in># F. 0 \<le> f))"

lemma log_invD: "log_inv root F (w, l) \<Longrightarrow> confined root {} l \<and> opened l = closed l + F"
  by (simp add: log_inv_def)

lemma log_inv_known: "log_inv root F (w, l) \<Longrightarrow> f \<in># F \<Longrightarrow> f \<in># opened l"
  by (simp add: log_inv_def)

text \<open>One step of the log: a call that is confined by the descriptors held.\<close>

lemma log_inv_step:
  assumes "log_inv root F (w, l)"
    and "\<And>known. set_mset F \<subseteq> known \<Longrightarrow> call_confined root known c"
    and "F' + closed1 c = F + opened1 c" and "\<forall>f \<in># F'. f \<in># F \<or> 0 \<le> f"
  shows "log_inv root F' (w', l @ [c])"
proof -
  from assms(1) have l: "confined root {} l" "opened l = closed l + F" "\<forall>f \<in># F. 0 \<le> f"
    by (auto simp: log_inv_def)
  have "set_mset F \<subseteq> set_mset (opened l)" by (auto simp: l(2))
  then have "confined root {} (l @ [c])"
    using assms(2) l(1) by (simp add: confined_snoc)
  moreover have "opened (l @ [c]) = closed (l @ [c]) + F'"
    using assms(3) l(2) by (simp add: add_ac)
  moreover have "\<forall>f \<in># F'. 0 \<le> f" using assms(4) l(3) by blast
  ultimately show ?thesis by (simp add: log_inv_def)
qed

abbreviation post :: "('e \<Rightarrow> 's \<Rightarrow> bool) \<Rightarrow> ('a \<Rightarrow> 's \<Rightarrow> bool) \<Rightarrow> 'e + 'a \<Rightarrow> 's \<Rightarrow> bool" where
  "post E Q r s \<equiv> (case r of Inl e \<Rightarrow> E e s | Inr x \<Rightarrow> Q x s)"

lemma log_inv_step0:
  assumes "log_inv root F (w, l)" "\<And>known. set_mset F \<subseteq> known \<Longrightarrow> call_confined root known c"
    "opened1 c = {#}" "closed1 c = {#}"
  shows "log_inv root F (w', l @ [c])"
  by (rule log_inv_step [OF assms(1,2)]) (simp_all add: assms)

lemma logged_k_openat:
  assumes "\<And>known r. set_mset F \<subseteq> known \<Longrightarrow> call_confined root known (C_openat d p fl r)"
  shows "hoare (log_inv root F) (k_openat (logged K) d p fl)
    (post (\<lambda>e. log_inv root F) (\<lambda>fd. log_inv root (F + {#fd#})))"
  unfolding k_openat_def
proof (rule hoare_wrap [where R = "\<lambda>r. case r of Inl _ \<Rightarrow> log_inv root F | Inr n \<Rightarrow> log_inv root (F + {#int n#})"])
  show "hoare (log_inv root F) (sys_openat (logged K) d p fl)
      (\<lambda>r. case r of Inl _ \<Rightarrow> log_inv root F | Inr n \<Rightarrow> log_inv root (F + {#int n#}))"
    unfolding logged_def kernel.simps
  proof (rule hoare_log_call)
    fix w l r w'
    assume inv: "log_inv root F (w :: 'a, l)"
    show "(case r of Inl _ \<Rightarrow> log_inv root F | Inr n \<Rightarrow> log_inv root (F + {#int n#})) (w', l @ [C_openat d p fl r])"
    proof (cases r)
      case (Inl e)
      then show ?thesis using log_inv_step0 [OF inv assms [where r = "Inl e"]] by simp
    next
      case (Inr n)
      then show ?thesis using log_inv_step [OF inv assms [where r = "Inr n"], where F' = "F + {#int n#}"] by auto
    qed
  qed
qed (auto split: sum.splits)

lemma logged_openat:
  assumes "d \<in># F" "safe_elem p" "{O_NOFOLLOW, O_PATH} \<subseteq> fl"
  shows "hoare (log_inv root F) (k_openat (logged K) d p fl)
    (post (\<lambda>e. log_inv root F) (\<lambda>fd. log_inv root (F + {#fd#})))"
  by (rule logged_k_openat) (use assms in auto)

text \<open>Reopening a held descriptor through \<open>/proc\<close>.\<close>

lemma logged_reopen:
  assumes "d \<in># F"
  shows "hoare (log_inv root F) (k_openat (logged K) dir (proc_self_fd d) fl)
    (post (\<lambda>e. log_inv root F) (\<lambda>fd. log_inv root (F + {#fd#})))"
  by (rule logged_k_openat) (simp add: via_procI [OF _ assms])

lemma logged_close:
  assumes "d \<in># F"
  shows "hoare (log_inv root F) (sys_close (logged K) d) (\<lambda>_. log_inv root (F - {#d#}))"
  unfolding logged_def kernel.simps
  by (rule hoare_log_call)
     (use assms in \<open>auto elim!: log_inv_step dest: in_diffD\<close>)

lemma logged_mkdirat:
  assumes "d \<in># F" "safe_elem p"
  shows "hoare (log_inv root F) (sys_mkdirat (logged K) d p m) (\<lambda>_. log_inv root F)"
  unfolding logged_def kernel.simps
  by (rule hoare_log_call) (use assms in \<open>auto elim!: log_inv_step0\<close>)

lemma logged_readlinkat:
  assumes "d \<in># F"
  shows "hoare (log_inv root F) (sys_readlinkat (logged K) d []) (\<lambda>_. log_inv root F)"
  unfolding logged_def kernel.simps
  by (rule hoare_log_call) (use assms in \<open>auto elim!: log_inv_step0\<close>)

lemma logged_canonical_readlinkat:
  assumes "d \<in># F"
  shows "hoare (log_inv root F) (sys_readlinkat (logged K) (glnx_dirfd_canonicalize d) []) (\<lambda>_. log_inv root F)"
proof (cases "d = - 1")
  case True
  then have "\<not> log_inv root F s" for s :: "'a \<times> call list" using assms by (auto simp: log_inv_def)
  then show ?thesis by (simp add: hoare_false)
next
  case False
  then show ?thesis using logged_readlinkat [OF assms] by (simp add: glnx_dirfd_canonicalize_def)
qed

lemma logged_fstatat:
  assumes "d \<in># F"
  shows "hoare (log_inv root F) (sys_fstatat (logged K) d [] fl) (\<lambda>_. log_inv root F)"
  unfolding logged_def kernel.simps
  by (rule hoare_log_call) (use assms in \<open>auto elim!: log_inv_step0\<close>)

lemma logged_access:
  assumes "d \<in># F"
  shows "hoare (log_inv root F) (sys_access (logged K) (proc_self_fd d) m) (\<lambda>_. log_inv root F)"
  unfolding logged_def kernel.simps
  by (rule hoare_log_call) (auto elim!: log_inv_step0 intro: via_procI [OF _ assms])

lemma logged_dup:
  "hoare (log_inv root F) (k_dupfd (logged K) root)
    (post (\<lambda>e. log_inv root F) (\<lambda>fd. log_inv root (F + {#fd#})))"
  unfolding k_dupfd_def
proof (rule hoare_wrap [where R = "\<lambda>r. case r of Inl _ \<Rightarrow> log_inv root F | Inr n \<Rightarrow> log_inv root (F + {#int n#})"])
  show "hoare (log_inv root F) (sys_dupfd_cloexec (logged K) root)
      (\<lambda>r. case r of Inl _ \<Rightarrow> log_inv root F | Inr n \<Rightarrow> log_inv root (F + {#int n#}))"
    unfolding logged_def kernel.simps
  proof (rule hoare_log_call)
    fix w l r w'
    assume inv: "log_inv root F (w :: 'a, l)"
    show "(case r of Inl _ \<Rightarrow> log_inv root F | Inr n \<Rightarrow> log_inv root (F + {#int n#})) (w', l @ [C_dup root r])"
    proof (cases r)
      case (Inl e)
      then show ?thesis using log_inv_step0 [OF inv, where c = "C_dup root (Inl e)"] by simp
    next
      case (Inr n)
      then show ?thesis using log_inv_step [OF inv, where c = "C_dup root (Inr n)" and F' = "F + {#int n#}"] by auto
    qed
  qed
qed (auto split: sum.splits)

section \<open>The pieces of the code keep the invariant\<close>

lemma close_fds_inv:
  "mset xs \<subseteq># F \<Longrightarrow>
   hoare (log_inv root F) (close_fds (logged K) xs) (\<lambda>_. log_inv root (F - mset xs))"
proof (induction xs arbitrary: F)
  case (Cons x xs)
  have "x \<in># F" using Cons.prems by (simp add: insert_subset_eq_iff)
  moreover have "mset xs \<subseteq># F - {#x#}"
    using Cons.prems by (simp add: insert_subset_eq_iff)
  ultimately show ?case
    using hoare_bind [OF logged_close Cons.IH] by simp
qed (simp add: hoare_return)

lemma set_size_inv:
  assumes "F = mset xs + F'"
  shows "hoare (log_inv root F) (fd_array_set_size (logged K) n xs)
    (\<lambda>ys s. ys = take n xs \<and> log_inv root (mset ys + F') s)"
proof -
  have eq: "mset xs = mset (take n xs) + mset (drop n xs)"
    by (metis append_take_drop_id mset_append)
  have "hoare (log_inv root F) (close_fds (logged K) (drop n xs)) (\<lambda>_. log_inv root (F - mset (drop n xs)))"
    by (rule close_fds_inv) (simp add: assms eq)
  then show ?thesis unfolding fd_array_set_size_def
    by (rule hoare_wrap) (simp add: assms eq add.commute)
qed

lemma fail_with_inv:
  assumes "F = mset xs"
  shows "hoare (log_inv root F) (fail_with (logged K) xs e) (\<lambda>r s. r = Failed e \<and> log_inv root {#} s)"
  unfolding fail_with_def
  by (rule hoare_wrap [OF close_fds_inv]) (simp_all add: assms)

lemma resolve_open_inv:
  assumes "d \<in># F" "safe_elem p"
  shows "hoare (log_inv root F) (resolve_open (logged K) flags d p)
    (post (\<lambda>e. log_inv root F) (\<lambda>fd. log_inv root (F + {#fd#})))"
proof -
  have fl: "{O_NOFOLLOW, O_PATH} \<subseteq> resolve_open_flags"
    "{O_NOFOLLOW, O_PATH} \<subseteq> insert O_DIRECTORY resolve_open_flags"
    by (auto simp: resolve_open_flags_def)
  show ?thesis unfolding resolve_open_def
    apply (rule hoare_bind [OF logged_openat [OF assms fl(1)]])
    apply (rule hoare_sum)
     apply (simp only: sum.case)
     apply (rule hoare_if)
      apply (rule hoare_bind [OF logged_mkdirat [OF assms]])
      apply (rule hoare_sum)
       apply (rule hoare_return, simp)
      apply (rule hoare_wrap [OF logged_openat [OF assms fl(2)]])
      apply (simp split: sum.splits)
     apply (rule hoare_return, simp)
    apply (rule hoare_return, simp)
    done
qed

section \<open>The invariant of the loop\<close>

text \<open>The path so far is the join of safe elements, one per descriptor beyond the root's.\<close>

definition path_inv :: "resolve_state \<Rightarrow> bool" where
  "path_inv st = (\<exists>xs. list_all safe_elem xs \<and> current_path st = join_segs xs \<and>
     length (fds st) = Suc (length xs))"

definition step_post :: "fd \<Rightarrow> loop_result \<Rightarrow> 'w \<times> call list \<Rightarrow> bool" where
  "step_post root r s = (case r of
      Again st \<Rightarrow> path_inv st \<and> log_inv root (mset (fds st)) s
    | Done st \<Rightarrow> path_inv st \<and> log_inv root (mset (fds st)) s
    | Failed e \<Rightarrow> log_inv root {#} s)"

lemma safe_elem_seg_ok: "list_all safe_elem xs \<Longrightarrow> list_all seg_ok xs"
  by (auto simp: list_all_iff safe_elem_def)

lemma split_next_elem:
  assumes "r \<noteq> []" "hd r \<noteq> CHR ''/''" "split_next r = (e, rest)"
  shows "seg_ok e"
  using assms
  by (cases r) (auto simp: split_next_def seg_ok_def strchr_None strchr_Some_iff Cons_eq_append_conv
      split: option.splits)

lemma parent_join:
  assumes "list_all seg_ok xs"
  shows "(case strrchr (join_segs xs) CHR ''/'' of Some (a, _) \<Rightarrow> a | None \<Rightarrow> []) = join_segs (butlast xs)"
proof (cases xs rule: rev_cases)
  case (snoc ys y)
  with assms have y: "CHR ''/'' \<notin> set y" by (simp add: seg_ok_def)
  show ?thesis
  proof (cases "ys = []")
    case True
    then show ?thesis using snoc y by (simp add: strrchr_None [THEN iffD2])
  next
    case False
    have "strrchr (join_segs xs) CHR ''/'' = Some (join_segs ys, y)"
      using y by (simp add: snoc join_segs_snoc [OF False] strrchr_Some_iff)
    then show ?thesis by (simp add: snoc)
  qed
qed (simp add: strrchr_None [THEN iffD2])

lemma path_inv_fds: "path_inv st \<Longrightarrow> fds st \<noteq> []"
  by (auto simp: path_inv_def)

lemma path_inv_last: "path_inv st \<Longrightarrow> last (fds st) \<in># mset (fds st)"
  by (simp add: path_inv_fds)

lemma path_inv_enter:
  assumes "path_inv st" "safe_elem e"
  shows "path_inv (st\<lparr> current_path := (if current_path st \<noteq> [] then current_path st @ ''/'' else []) @ e,
      fds := fds st @ [fd], remaining := rest \<rparr>)"
proof -
  obtain xs where xs: "list_all safe_elem xs" "current_path st = join_segs xs"
    "length (fds st) = Suc (length xs)" using assms(1) by (auto simp: path_inv_def)
  have "(if current_path st \<noteq> [] then current_path st @ ''/'' else []) @ e = join_segs (xs @ [e])"
    using join_segs_eq_Nil [OF safe_elem_seg_ok [OF xs(1)]] by (auto simp: xs(2) join_segs_snoc)
  then show ?thesis unfolding path_inv_def using xs assms(2)
    by (intro exI [of _ "xs @ [e]"]) simp
qed

lemma resolve_parent_inv:
  assumes "path_inv st"
  shows "hoare (log_inv root (mset (fds st))) (resolve_parent (logged K) st rest) (step_post root)"
proof -
  obtain xs where xs: "list_all safe_elem xs" "current_path st = join_segs xs"
    "length (fds st) = Suc (length xs)" using assms by (auto simp: path_inv_def)
  note cp = parent_join [OF safe_elem_seg_ok [OF xs(1)]]
  have bl: "list_all safe_elem (butlast xs)" using xs(1) by (auto simp: list_all_iff dest: in_set_butlastD)
  have inv: "path_inv (st\<lparr> fds := take (length (fds st) - 1) (fds st), remaining := rest,
      current_path := join_segs (butlast xs) \<rparr>)" if "length (fds st) \<ge> 2"
    unfolding path_inv_def using xs bl that by (intro exI [of _ "butlast xs"]) auto
  have inv0: "path_inv (st\<lparr> remaining := rest, current_path := join_segs (butlast xs) \<rparr>)"
    if "\<not> length (fds st) \<ge> 2"
    unfolding path_inv_def using xs that by (intro exI [of _ "[]"]) (cases xs, auto)
  show ?thesis unfolding resolve_parent_def xs(2) cp
  proof (rule hoare_wrap [where R = "\<lambda>ys s. ys = (if length (fds st) \<ge> 2
        then take (length (fds st) - 1) (fds st) else fds st) \<and> log_inv root (mset ys) s"])
    show "hoare (log_inv root (mset (fds st)))
        (if length (fds st) \<ge> 2 then fd_array_set_size (logged K) (length (fds st) - 1) (fds st)
         else State_Monad.return (fds st))
        (\<lambda>ys s. ys = (if length (fds st) \<ge> 2 then take (length (fds st) - 1) (fds st) else fds st)
           \<and> log_inv root (mset ys) s)"
      by (rule hoare_if) (auto intro: hoare_return hoare_weaken [OF set_size_inv [where F' = "{#}"]])
  qed (use inv inv0 in \<open>auto simp: step_post_def\<close>)
qed

lemma resolve_follow_inv:
  assumes "path_inv st"
  shows "hoare (log_inv root (mset (fds st) + {#fd#})) (resolve_follow G (logged K) st fd t rest)
    (step_post root)"
proof -
  let ?R = "\<lambda>st' s. path_inv st' \<and> log_inv root (mset (fds st') + {#fd#}) s"
  have f: "fds st \<noteq> []" using assms by (rule path_inv_fds)
  have one: "path_inv (st\<lparr> current_path := [], fds := take (Suc 0) (fds st) \<rparr>)"
    unfolding path_inv_def using f by (intro exI [of _ "[]"]) (cases "fds st", auto)
  have "hoare (log_inv root (mset (fds st) + {#fd#}))
      (if t \<noteq> [] \<and> hd t = CHR ''/'' then do {
          fds' \<leftarrow> fd_array_set_size (logged K) 1 (fds st);
          State_Monad.return (st\<lparr> current_path := [], fds := fds' \<rparr>) }
       else State_Monad.return st) ?R"
    by (rule hoare_if)
       (auto intro!: hoare_return hoare_wrap [OF set_size_inv [where F' = "{#fd#}"]] simp: assms one)
  then show ?thesis unfolding resolve_follow_def
  proof (rule hoare_bind)
    fix st'
    show "hoare (?R st') (do { sys_close (logged K) fd;
        State_Monad.return (Again (st'\<lparr> remaining :=
          Some (g_build_filename G (case rest of None \<Rightarrow> [t] | Some r \<Rightarrow> [t, r])) \<rparr>)) }) (step_post root)"
    proof (cases "path_inv st'")
      case True
      have "hoare (?R st') (sys_close (logged K) fd) (\<lambda>_. log_inv root (mset (fds st')))"
        by (rule hoare_weaken [OF logged_close [where F = "mset (fds st') + {#fd#}"]]) auto
      then show ?thesis
        by (rule hoare_wrap) (use True in \<open>auto simp: step_post_def path_inv_def\<close>)
    qed (simp add: hoare_false)
  qed
qed

lemma resolve_enter_inv:
  assumes "path_inv st" "safe_elem e"
  shows "hoare (log_inv root (mset (fds st) + {#fd#})) (resolve_enter (logged K) flags st fd e rest)
    (step_post root)"
proof -
  let ?I = "log_inv root (mset (fds st) + {#fd#})"
  have stat: "hoare ?I (glnx_fstatat (logged K) fd [] {AT_EMPTY_PATH}) (\<lambda>_. ?I)"
    unfolding glnx_fstatat_def by (rule hoare_wrap [OF logged_fstatat]) auto
  show ?thesis unfolding resolve_enter_def
  proof (rule hoare_bind [where R = "\<lambda>_. ?I"])
    show "hoare ?I (if MUST_BE_DIRECTORY \<in> flags \<or> rest \<noteq> None then do {
        sb \<leftarrow> glnx_fstatat (logged K) fd [] {AT_EMPTY_PATH};
        State_Monad.return (case sb of Inl e \<Rightarrow> Some e
          | Inr b \<Rightarrow> if \<not> S_ISDIR (st_mode b) then Some (G_IO_ERROR IO_NOT_DIRECTORY) else None) }
      else State_Monad.return None) (\<lambda>_. ?I)"
      by (rule hoare_if [OF hoare_wrap [OF stat]]) (auto intro: hoare_return)
  next
    fix bad
    show "hoare ?I (case bad of Some e \<Rightarrow> fail_with (logged K) (fd # fds st) e
      | None \<Rightarrow> State_Monad.return (Again (st\<lparr>
          current_path := (if current_path st \<noteq> [] then current_path st @ ''/'' else []) @ e,
          fds := fds st @ [fd], remaining := rest \<rparr>))) (step_post root)"
    proof (rule hoare_option)
      show "hoare ?I (State_Monad.return (Again (st\<lparr>
          current_path := (if current_path st \<noteq> [] then current_path st @ ''/'' else []) @ e,
          fds := fds st @ [fd], remaining := rest \<rparr>))) (step_post root)"
        using path_inv_enter [OF assms] by (intro hoare_return) (simp add: step_post_def)
      show "hoare ?I (fail_with (logged K) (fd # fds st) x) (step_post root)" for x
        by (rule hoare_weaken [OF fail_with_inv [where F = "mset (fds st) + {#fd#}"]])
           (auto simp: step_post_def)
    qed
  qed
qed

lemma resolve_step_inv:
  assumes "path_inv st"
  shows "hoare (log_inv root (mset (fds st))) (resolve_step G (logged K) flags st) (step_post root)"
proof -
  let ?I = "log_inv root (mset (fds st))"
  have done_: "hoare ?I (State_Monad.return (Done st)) (step_post root)"
    by (rule hoare_return) (simp add: step_post_def assms)
  have again: "hoare ?I (State_Monad.return (Again (st\<lparr> remaining := rest \<rparr>))) (step_post root)" for rest
    using assms by (intro hoare_return) (simp add: step_post_def path_inv_def)
  have failed: "hoare ?I (fail_with (logged K) (fds st) e) (step_post root)" for e
    by (rule hoare_weaken [OF fail_with_inv]) (auto simp: step_post_def)
  have failed1: "hoare (log_inv root (mset (fds st) + {#fd#})) (fail_with (logged K) (fd # fds st) e)
      (step_post root)" for fd e
    by (rule hoare_weaken [OF fail_with_inv]) (auto simp: step_post_def)
  show ?thesis
  proof (cases "remaining st")
    case None
    then show ?thesis using done_ by (simp add: resolve_step_def)
  next
    case (Some r0)
    let ?r = "dropWhile is_slash r0"
    obtain e rest where e: "split_next ?r = (e, rest)" by (cases "split_next ?r")
    show ?thesis
    proof (cases "?r = []")
      case True
      show ?thesis using done_ unfolding resolve_step_def Some option.case Let_def if_P [OF True] .
    next
      case False
      have ok: "seg_ok e" using split_next_elem [OF False _ e] drop_slashes_hd [of r0] False by blast
      have body: "hoare ?I (if e = ''.'' then State_Monad.return (Again (st\<lparr> remaining := rest \<rparr>))
            else if e = ''..'' then resolve_parent (logged K) st rest
            else do {
              o' \<leftarrow> resolve_open (logged K) flags (last (fds st)) e;
              (case o' of
                 Inl er \<Rightarrow> fail_with (logged K) (fds st) er
               | Inr fd \<Rightarrow> do {
                   target \<leftarrow> glnx_readlinkat_malloc (logged K) fd [];
                   (case target of
                      Inr t \<Rightarrow>
                        if REJECT_SYMLINKS \<in> flags
                        then fail_with (logged K) (fd # fds st) (G_IO_ERROR IO_TOO_MANY_LINKS)
                        else if KEEP_FINAL_SYMLINK \<in> flags \<and> rest = None
                        then resolve_enter (logged K) flags st fd e rest
                        else resolve_follow G (logged K) st fd t rest
                    | Inl _ \<Rightarrow> resolve_enter (logged K) flags st fd e rest) }) }) (step_post root)"
      proof (intro hoare_if again resolve_parent_inv [OF assms])
        assume "e \<noteq> ''.''" "e \<noteq> ''..''"
        with ok have safe: "safe_elem e" by (simp add: safe_elem_def plain_seg_def)
        note op = resolve_open_inv [OF path_inv_last [OF assms] safe]
        show "hoare ?I (do {
              o' \<leftarrow> resolve_open (logged K) flags (last (fds st)) e;
              (case o' of
                 Inl er \<Rightarrow> fail_with (logged K) (fds st) er
               | Inr fd \<Rightarrow> do {
                   target \<leftarrow> glnx_readlinkat_malloc (logged K) fd [];
                   (case target of
                      Inr t \<Rightarrow>
                        if REJECT_SYMLINKS \<in> flags
                        then fail_with (logged K) (fd # fds st) (G_IO_ERROR IO_TOO_MANY_LINKS)
                        else if KEEP_FINAL_SYMLINK \<in> flags \<and> rest = None
                        then resolve_enter (logged K) flags st fd e rest
                        else resolve_follow G (logged K) st fd t rest
                    | Inl _ \<Rightarrow> resolve_enter (logged K) flags st fd e rest) }) }) (step_post root)"
        proof (rule hoare_bind [OF op], rule hoare_sum)
          fix o' :: "gerror + fd" and er
          assume "o' = Inl er"
          then show "hoare (post (\<lambda>e. ?I) (\<lambda>fd. log_inv root (mset (fds st) + {#fd#})) o')
            (fail_with (logged K) (fds st) er) (step_post root)" using failed by simp
        next
          fix o' :: "gerror + fd" and fd
          assume o': "o' = Inr fd"
          let ?J = "log_inv root (mset (fds st) + {#fd#})"
          have rl: "hoare ?J (glnx_readlinkat_malloc (logged K) fd []) (\<lambda>_. ?J)"
          proof -
            have "hoare ?J (sys_readlinkat (logged K) (glnx_dirfd_canonicalize fd) []) (\<lambda>_. ?J)"
              by (rule logged_canonical_readlinkat) simp
            then show ?thesis unfolding glnx_readlinkat_malloc_def by (rule hoare_wrap)
          qed
          show "hoare (post (\<lambda>e. ?I) (\<lambda>fd. log_inv root (mset (fds st) + {#fd#})) o')
            (do {
                   target \<leftarrow> glnx_readlinkat_malloc (logged K) fd [];
                   (case target of
                      Inr t \<Rightarrow>
                        if REJECT_SYMLINKS \<in> flags
                        then fail_with (logged K) (fd # fds st) (G_IO_ERROR IO_TOO_MANY_LINKS)
                        else if KEEP_FINAL_SYMLINK \<in> flags \<and> rest = None
                        then resolve_enter (logged K) flags st fd e rest
                        else resolve_follow G (logged K) st fd t rest
                    | Inl _ \<Rightarrow> resolve_enter (logged K) flags st fd e rest) }) (step_post root)"
            unfolding o' sum.case
            by (intro hoare_bind [OF rl] hoare_sum hoare_if failed1 resolve_follow_inv [OF assms]
                resolve_enter_inv [OF assms safe])
        qed
      qed
      show ?thesis using body unfolding resolve_step_def Some option.case Let_def if_not_P [OF False] e prod.case .
    qed
  qed
qed

lemma resolve_loop_inv:
  "path_inv st \<Longrightarrow> hoare (log_inv root (mset (fds st))) (resolve_loop n G (logged K) flags st)
     (\<lambda>r s. case r of None \<Rightarrow> True
        | Some (Inl e) \<Rightarrow> log_inv root {#} s
        | Some (Inr st') \<Rightarrow> path_inv st' \<and> log_inv root (mset (fds st')) s)"
proof (induction n arbitrary: st)
  case 0
  show ?case by (simp add: hoare_return)
next
  case (Suc n)
  show ?case unfolding resolve_loop.simps
  proof (rule hoare_bind [OF resolve_step_inv [OF Suc.prems]])
    fix r
    show "hoare (step_post root r) (case r of
        Again st' \<Rightarrow> resolve_loop n G (logged K) flags st'
      | Done st' \<Rightarrow> State_Monad.return (Some (Inr st'))
      | Failed e \<Rightarrow> State_Monad.return (Some (Inl e)))
     (\<lambda>r s. case r of None \<Rightarrow> True
        | Some (Inl e) \<Rightarrow> log_inv root {#} s
        | Some (Inr st') \<Rightarrow> path_inv st' \<and> log_inv root (mset (fds st')) s)"
    proof (cases r)
      case (Again st')
      show ?thesis
      proof (cases "path_inv st'")
        case True
        then show ?thesis unfolding Again loop_result.case
          by (rule hoare_pre [OF Suc.IH]) (simp add: step_post_def)
      qed (simp add: Again step_post_def hoare_false)
    qed (auto simp: step_post_def intro: hoare_return)
  qed
qed

section \<open>After the loop\<close>

lemma resolve_checks_inv:
  assumes "fd \<in># F"
  shows "hoare (log_inv root F) (resolve_checks (logged K) flags fd) (\<lambda>_. log_inv root F)"
proof -
  have stat: "hoare (log_inv root F) (check_fd_is_regular_file (logged K) fd) (\<lambda>_. log_inv root F)"
    unfolding check_fd_is_regular_file_def glnx_fstatat_def
    by (rule hoare_wrap, rule hoare_wrap [OF logged_fstatat [OF assms]])
  have acc: "hoare (log_inv root F) (sys_access (logged K) (proc_self_fd fd) m) (\<lambda>_. log_inv root F)" for m
    by (rule logged_access [OF assms])
  show ?thesis unfolding resolve_checks_def
    by (rule hoare_bind [where R = "\<lambda>_. log_inv root F"])
       (auto intro!: hoare_if hoare_sum hoare_wrap [OF acc] intro: stat hoare_return)
qed

definition result_post :: "fd \<Rightarrow> resolve_flag set \<Rightarrow> gerror + fd \<times> string \<Rightarrow> 'w \<times> call list \<Rightarrow> bool" where
  "result_post root flags r s = (case r of
      Inl e \<Rightarrow> log_inv root {#} s
    | Inr (fd, p) \<Rightarrow> log_inv root {#fd#} s \<and>
        (\<exists>xs. list_all safe_elem xs \<and> p = result_path flags (join_segs xs)))"

lemma resolve_finish_inv:
  assumes "path_inv st"
  shows "hoare (log_inv root (mset (fds st))) (resolve_finish (logged K) flags st) (result_post root flags)"
proof -
  let ?I = "log_inv root (mset (fds st))"
  have p: "\<exists>xs. list_all safe_elem xs \<and> result_path flags (current_path st) = result_path flags (join_segs xs)"
    using assms by (auto simp: path_inv_def)
  note l = path_inv_last [OF assms]
  have ne: "fds st \<noteq> []" using assms by (rule path_inv_fds)
  have all: "hoare ?I (close_fds (logged K) (fds st)) (\<lambda>_. log_inv root {#})"
    using close_fds_inv [of "fds st" "mset (fds st)" root K] by simp
  have all1: "hoare (log_inv root (mset (fds st) + {#fd#})) (close_fds (logged K) (fds st))
      (\<lambda>_. log_inv root {#fd#})" for fd
    using close_fds_inv [of "fds st" "mset (fds st) + {#fd#}" root K] by simp
  have but: "hoare ?I (close_fds (logged K) (butlast (fds st))) (\<lambda>_. log_inv root {#last (fds st)#})"
  proof -
    have eq: "mset (fds st) = mset (butlast (fds st)) + {#last (fds st)#}"
      using ne by (metis append_butlast_last_id mset_append mset_single_iff_right)
    then show ?thesis using close_fds_inv [of "butlast (fds st)" "mset (fds st)" root K] by simp
  qed
  have re: "hoare ?I (if MUST_BE_DIRECTORY \<in> flags
       then glnx_opendirat (logged K) (- 1) (proc_self_fd (last (fds st))) True
       else glnx_openat_rdonly (logged K) (- 1) (proc_self_fd (last (fds st))) True)
     (post (\<lambda>e. ?I) (\<lambda>fd. log_inv root (mset (fds st) + {#fd#})))"
    unfolding glnx_opendirat_def glnx_openat_rdonly_def
    by (rule hoare_if; rule hoare_wrap [OF logged_reopen [OF l]]) (auto split: sum.splits)
  show ?thesis unfolding resolve_finish_def Let_def
  proof (rule hoare_bind [OF resolve_checks_inv [OF l]], rule hoare_sum)
    fix e
    show "hoare ?I (do { close_fds (logged K) (fds st); State_Monad.return (Inl e) }) (result_post root flags)"
      by (rule hoare_wrap [OF all]) (simp add: result_post_def)
  next
    show "hoare ?I (if READABLE \<in> flags then do {
            fd \<leftarrow> (if MUST_BE_DIRECTORY \<in> flags
                   then glnx_opendirat (logged K) (- 1) (proc_self_fd (last (fds st))) True
                   else glnx_openat_rdonly (logged K) (- 1) (proc_self_fd (last (fds st))) True);
            close_fds (logged K) (fds st);
            State_Monad.return (case fd of Inl e \<Rightarrow> Inl e
              | Inr f \<Rightarrow> Inr (f, result_path flags (current_path st))) }
          else do {
            close_fds (logged K) (butlast (fds st));
            State_Monad.return (Inr (last (fds st), result_path flags (current_path st))) })
       (result_post root flags)"
    proof (rule hoare_if)
      show "hoare ?I (do {
            fd \<leftarrow> (if MUST_BE_DIRECTORY \<in> flags
                   then glnx_opendirat (logged K) (- 1) (proc_self_fd (last (fds st))) True
                   else glnx_openat_rdonly (logged K) (- 1) (proc_self_fd (last (fds st))) True);
            close_fds (logged K) (fds st);
            State_Monad.return (case fd of Inl e \<Rightarrow> Inl e
              | Inr f \<Rightarrow> Inr (f, result_path flags (current_path st))) }) (result_post root flags)"
      proof (rule hoare_bind [OF re])
        fix fd :: "gerror + fd"
        show "hoare (post (\<lambda>e. ?I) (\<lambda>fd. log_inv root (mset (fds st) + {#fd#})) fd) (do {
            close_fds (logged K) (fds st);
            State_Monad.return (case fd of Inl e \<Rightarrow> Inl e
              | Inr f \<Rightarrow> Inr (f, result_path flags (current_path st))) }) (result_post root flags)"
        proof (cases fd)
          case (Inl e)
          show ?thesis unfolding Inl sum.case by (rule hoare_wrap [OF all]) (simp add: result_post_def)
        next
          case (Inr f)
          show ?thesis unfolding Inr sum.case by (rule hoare_wrap [OF all1]) (simp add: result_post_def p)
        qed
      qed
      show "hoare ?I (do {
            close_fds (logged K) (butlast (fds st));
            State_Monad.return (Inr (last (fds st), result_path flags (current_path st))) })
        (result_post root flags)"
        by (rule hoare_wrap [OF but]) (simp add: result_post_def p)
    qed
  qed
qed

abbreviation effective_flags :: "resolve_flag set \<Rightarrow> resolve_flag set" where
  "effective_flags flags \<equiv> (if MKDIR_P \<in> flags then insert MUST_BE_DIRECTORY flags else flags)"

lemma result_post_effective:
  "result_post root (effective_flags flags) res s = result_post root flags res s"
proof -
  have eq: "result_path (effective_flags flags) = result_path flags"
    by (auto simp: result_path_def fun_eq_iff)
  show ?thesis unfolding result_post_def eq by (rule refl)
qed

lemma srt_resolve_in_sysroot_inv:
  "hoare (log_inv root {#}) (srt_resolve_in_sysroot n G (logged K) root descendant flags)
     (\<lambda>r s. case r of None \<Rightarrow> True | Some res \<Rightarrow> result_post root flags res s)"
proof -
  have init: "path_inv \<lparr> current_path = [], fds = [fd0], remaining = Some descendant \<rparr>" for fd0
    unfolding path_inv_def by (intro exI [of _ "[]"]) simp
  have finish: "hoare (post (\<lambda>e. log_inv root {#}) (\<lambda>st' s. path_inv st' \<and> log_inv root (mset (fds st')) s) (Inr st))
      (do { res \<leftarrow> resolve_finish (logged K) (effective_flags flags) st; State_Monad.return (Some res) })
      (\<lambda>r s. case r of None \<Rightarrow> True | Some res \<Rightarrow> result_post root flags res s)" for st
  proof (cases "path_inv st")
    case True
    have "hoare (post (\<lambda>e. log_inv root {#}) (\<lambda>st' s. path_inv st' \<and> log_inv root (mset (fds st')) s) (Inr st))
        (resolve_finish (logged K) (effective_flags flags) st) (result_post root (effective_flags flags))"
      by (rule hoare_pre [OF resolve_finish_inv [OF True]]) simp
    then show ?thesis by (rule hoare_wrap) (simp only: option.case result_post_effective)
  qed (simp add: hoare_false)
  show ?thesis unfolding srt_resolve_in_sysroot_def Let_def
    apply (rule hoare_if)
     apply (rule hoare_return, simp add: result_post_def)
    apply (rule hoare_bind [OF logged_dup], rule hoare_sum)
     apply (rule hoare_return, simp add: result_post_def)
    apply (rule hoare_bind, rule hoare_pre [OF resolve_loop_inv [OF init]], simp)
    apply (rule hoare_option, rule hoare_return, simp)
    apply (rule hoare_sum, rule hoare_return, simp add: result_post_def)
    apply (use finish in simp)
    done
qed

section \<open>Running from any log\<close>

lemma frames_close_fds [frame_rules]: "frames (close_fds (logged K) xs)"
  by (induction xs) (auto intro!: frame_rules)

lemma frames_resolve_step: "frames (resolve_step G (logged K) flags st)"
  unfolding resolve_step_def Let_def resolve_open_def resolve_parent_def resolve_follow_def resolve_enter_def
    fail_with_def fd_array_set_size_def
  by (intro frame_rules)

lemma frames_resolve_loop: "frames (resolve_loop n G (logged K) flags st)"
proof (induction n arbitrary: st)
  case (Suc n)
  have "frames (case r of Again st' \<Rightarrow> resolve_loop n G (logged K) flags st'
      | Done st' \<Rightarrow> State_Monad.return (Some (Inr st'))
      | Failed e \<Rightarrow> State_Monad.return (Some (Inl e)))" for r
    by (cases r) (auto intro: Suc frame_rules)
  then show ?case by (simp add: frames_bind frames_resolve_step)
qed (simp add: frames_return)

lemma frames_resolve [frame_rules]: "frames (srt_resolve_in_sysroot n G (logged K) root descendant flags)"
  unfolding srt_resolve_in_sysroot_def resolve_finish_def resolve_checks_def check_fd_is_regular_file_def Let_def
  by (intro frame_rules frames_resolve_loop)

section \<open>Properties\<close>

lemma resolve_result:
  assumes "run_state (srt_resolve_in_sysroot n G (logged K) sysroot descendant flags) (w, []) = (Some res, s')"
  shows "result_post sysroot flags res s'"
  using hoareD [OF srt_resolve_in_sysroot_inv _ assms] by (simp add: log_inv_def)

lemma result_post_cases:
  "result_post root flags (Inl e) (w, l) \<longleftrightarrow> log_inv root {#} (w, l)"
  "result_post root flags (Inr (fd, p)) (w, l) \<longleftrightarrow> log_inv root {#fd#} (w, l) \<and>
     (\<exists>xs. list_all safe_elem xs \<and> p = result_path flags (join_segs xs))"
  by (simp_all add: result_post_def)

lemma result_post_confined: "result_post root flags r (w, l) \<Longrightarrow> confined root {} l"
  by (auto simp: result_post_def log_inv_def split: sum.splits)

lemma result_path_canonical:
  "list_all safe_elem xs \<Longrightarrow> result_path flags (join_segs xs) =
     (if RETURN_ABSOLUTE \<in> flags then CHR ''/'' # join_segs xs
      else if xs = [] then ''.'' else join_segs xs)"
  using join_segs_eq_Nil [OF safe_elem_seg_ok] by (auto simp: result_path_def)

lemma result_post_canonical:
  "result_post root flags (Inr (fd, p)) s \<Longrightarrow> \<exists>xs. list_all safe_elem xs \<and>
     p = (if RETURN_ABSOLUTE \<in> flags then CHR ''/'' # join_segs xs
          else if xs = [] then ''.'' else join_segs xs)"
  by (cases s) (metis result_post_cases(2) result_path_canonical)

text \<open>C1: Confinement. Whatever the kernel answers, \<open>_srt_resolve_in_sysroot\<close> uses the sysroot
  descriptor only to duplicate it; every other call names a descriptor the function opened itself
  and either one path element that is neither empty, nor \<open>.\<close>, nor \<open>..\<close>, nor contains a slash
  (opened with \<open>O_NOFOLLOW | O_PATH\<close>), or the descriptor itself. So no symbolic link and no
  \<open>..\<close> is ever resolved by the kernel.\<close>

theorem srt_resolve_in_sysroot_confined:
  "case run_state (srt_resolve_in_sysroot n G (logged K) sysroot descendant flags) (w, []) of
     (Some r, (w', l)) \<Rightarrow> confined sysroot {} l
   | (None, _) \<Rightarrow> True"
  by (auto simp: result_post_confined dest!: resolve_result split: prod.split option.split sum.split)

text \<open>C2: No descriptor leak and no double close. When \<open>_srt_resolve_in_sysroot\<close> fails, every
  descriptor it opened was closed exactly as often as it was opened; when it succeeds, the only
  one left open is the one it returns.\<close>

theorem srt_resolve_in_sysroot_no_leak:
  "case run_state (srt_resolve_in_sysroot n G (logged K) sysroot descendant flags) (w, []) of
     (Some (Inl e), (w', l)) \<Rightarrow> opened l = closed l
   | (Some (Inr (fd, p)), (w', l)) \<Rightarrow> opened l = closed l + {#fd#} \<and> 0 \<le> fd
   | (None, _) \<Rightarrow> True"
  by (auto simp: result_post_cases log_inv_def dest!: resolve_result split: prod.split option.split sum.split)

text \<open>The path that is returned is canonical: \<open>/\<close> or \<open>.\<close> for the root (with and without
  \<open>RETURN_ABSOLUTE\<close>), otherwise elements joined by single slashes, none of them empty, \<open>.\<close> or
  \<open>..\<close>.\<close>

theorem srt_resolve_in_sysroot_canonical:
  "case run_state (srt_resolve_in_sysroot n G (logged K) sysroot descendant flags) (w, []) of
     (Some (Inr (fd, p)), _) \<Rightarrow>
       \<exists>xs. list_all safe_elem xs \<and>
         p = (if RETURN_ABSOLUTE \<in> flags then CHR ''/'' # join_segs xs
              else if xs = [] then ''.'' else join_segs xs)
   | _ \<Rightarrow> True"
proof (cases "run_state (srt_resolve_in_sysroot n G (logged K) sysroot descendant flags) (w, [])")
  case Pair: (fields r s)
  show ?thesis
  proof (cases "\<exists>fd p. r = Some (Inr (fd, p))")
    case True
    then obtain fd p where r: "r = Some (Inr (fd, p))" by blast
    show ?thesis using result_post_canonical [OF resolve_result [OF Pair [unfolded r]]]
      unfolding Pair r prod.case option.case sum.case .
  qed (auto simp: Pair split: option.split sum.split)
qed

end
