(* ===== verification/SysrootOpen.thy ===== *)
theory SysrootOpen imports SysrootConfine begin

text \<open>
  The callers of the resolver: \<open>_srt_sysroot_open\<close>, \<open>_srt_sysroot_test\<close> and
  \<open>_srt_sysroot_load\<close> in both modes (steam-runtime-tools/resolve-in-sysroot.c), on the logging
  kernel: what happens to the descriptors.
\<close>

section \<open>Descriptors of the callers\<close>

text \<open>The part of the invariant that is about descriptors only, for the calls that direct mode
  makes by absolute path.\<close>

definition fd_inv :: "fd multiset \<Rightarrow> 'w \<times> call list \<Rightarrow> bool" where
  "fd_inv F = (\<lambda>(w, l). opened l = closed l + F \<and> (\<forall>f \<in># F. 0 \<le> f))"

lemma fd_inv_log_inv: "log_inv root F s \<Longrightarrow> fd_inv F s"
  by (auto simp: log_inv_def fd_inv_def)

lemma fd_inv_call:
  assumes "\<And>r. opened1 (c r) = {#} \<and> closed1 (c r) = {#}"
  shows "hoare (fd_inv F) (log_call m c) (\<lambda>_. fd_inv F)"
  by (rule hoare_log_call) (use assms in \<open>auto simp: fd_inv_def\<close>)

lemma fd_inv_openat:
  "hoare (fd_inv F) (k_openat (logged K) d p fl) (post (\<lambda>e. fd_inv F) (\<lambda>fd. fd_inv (F + {#fd#})))"
  unfolding k_openat_def
  by (rule hoare_wrap [where R = "\<lambda>r. case r of Inl _ \<Rightarrow> fd_inv F | Inr n \<Rightarrow> fd_inv (F + {#int n#})"])
     (auto simp: logged_def fd_inv_def split: sum.splits intro!: hoare_log_call)

lemma fd_inv_close: "hoare (fd_inv (F + {#fd#})) (glnx_close_fd (logged K) fd) (\<lambda>_. fd_inv F)"
proof (cases "0 \<le> fd")
  case True
  then show ?thesis unfolding glnx_close_fd_def
    by (auto simp: logged_def fd_inv_def intro!: hoare_log_call)
qed (auto simp: fd_inv_def intro!: hoare_false)

lemma fd_inv_opendirat:
  "hoare (fd_inv F) (glnx_opendirat (logged K) d p fo) (post (\<lambda>e. fd_inv F) (\<lambda>fd. fd_inv (F + {#fd#})))"
  unfolding glnx_opendirat_def by (rule hoare_wrap [OF fd_inv_openat]) (auto split: sum.splits)

lemma fd_inv_openat_rdonly:
  "hoare (fd_inv F) (glnx_openat_rdonly (logged K) d p fo) (post (\<lambda>e. fd_inv F) (\<lambda>fd. fd_inv (F + {#fd#})))"
  unfolding glnx_openat_rdonly_def by (rule hoare_wrap [OF fd_inv_openat]) (auto split: sum.splits)

lemma fd_inv_direct_open:
  "hoare (fd_inv F) (direct_open (logged K) p flags) (post (\<lambda>e. fd_inv F) (\<lambda>fd. fd_inv (F + {#fd#})))"
  unfolding direct_open_def Let_def
  by (intro hoare_if fd_inv_opendirat fd_inv_openat_rdonly, rule hoare_wrap [OF fd_inv_openat])
     (auto split: sum.splits)

lemma fd_inv_fstatat: "hoare (fd_inv F) (glnx_fstatat (logged K) d p fl) (\<lambda>_. fd_inv F)"
  unfolding glnx_fstatat_def logged_def by (simp, rule hoare_wrap [OF fd_inv_call]) auto

lemma fd_inv_access: "hoare (fd_inv F) (sys_access (logged K) p m) (\<lambda>_. fd_inv F)"
  unfolding logged_def by (simp, rule fd_inv_call) auto

lemma fd_inv_readlinkat: "hoare (fd_inv F) (glnx_readlinkat_malloc (logged K) d p) (\<lambda>_. fd_inv F)"
  unfolding glnx_readlinkat_malloc_def logged_def by (simp, rule hoare_wrap [OF fd_inv_call]) auto

lemma fd_inv_read_all: "hoare (fd_inv F) (sys_read_all (logged K) d) (\<lambda>_. fd_inv F)"
  unfolding logged_def by (simp, rule fd_inv_call) auto

lemma fd_inv_direct_checks: "hoare (fd_inv F) (direct_checks (logged K) p flags d) (\<lambda>_. fd_inv F)"
  unfolding direct_checks_def check_fd_is_regular_file_def
  by (rule hoare_bind [where R = "\<lambda>_. fd_inv F"])
     (auto intro!: hoare_if hoare_sum hoare_wrap [OF fd_inv_fstatat] hoare_wrap [OF fd_inv_access] hoare_return)

lemma fd_inv_direct_resolved: "hoare (fd_inv F) (direct_resolved (logged K) flags want d) (\<lambda>_. fd_inv F)"
  unfolding direct_resolved_def
  by (auto intro!: hoare_wrap [OF fd_inv_readlinkat] hoare_return)

lemma fd_inv_open_direct:
  "hoare (fd_inv F) (sysroot_open_direct G (logged K) p flags want)
     (post (\<lambda>e. fd_inv F) (\<lambda>(fd, q). fd_inv (F + {#fd#})))"
proof -
  have fail: "hoare (fd_inv (F + {#fd#})) (do { glnx_close_fd (logged K) fd; State_Monad.return (Inl e) })
     (post (\<lambda>e. fd_inv F) (\<lambda>(fd, q). fd_inv (F + {#fd#})))" for fd e
    by (rule hoare_wrap [OF fd_inv_close]) simp
  show ?thesis unfolding sysroot_open_direct_def Let_def
    apply (rule hoare_bind [OF fd_inv_direct_open], rule hoare_sum)
     apply (rule hoare_return, simp)
    apply (simp only: sum.case)
    apply (rule hoare_bind [OF fd_inv_direct_checks], rule hoare_sum, rule fail)
    apply (rule hoare_bind [OF fd_inv_direct_resolved], rule hoare_sum, rule fail)
    apply (rule hoare_return, simp)
    done
qed

definition open_post :: "(gerror + fd \<times> 'a) option \<Rightarrow> 'w \<times> call list \<Rightarrow> bool" where
  "open_post r s = (case r of
      None \<Rightarrow> True
    | Some (Inl e) \<Rightarrow> fd_inv {#} s
    | Some (Inr (fd, p)) \<Rightarrow> fd_inv {#fd#} s)"

lemma resolve_fd_inv:
  "hoare (\<lambda>(w, l). l = []) (srt_resolve_in_sysroot n G (logged K) root p flags) open_post"
  by (rule hoare_weaken [OF srt_resolve_in_sysroot_inv [where root = root]])
     (auto simp: open_post_def result_post_def log_inv_def fd_inv_def
        split: option.splits sum.splits)

lemma sysroot_open_fd_inv:
  "hoare (\<lambda>(w, l). l = []) (srt_sysroot_open n G (logged K) sr p flags want) open_post"
  unfolding srt_sysroot_open_def
proof (intro hoare_if)
  show "hoare (\<lambda>(w, l). l = []) (State_Monad.return (Some (Inl PRECONDITION_FAILED))) open_post"
    by (rule hoare_return) (auto simp: open_post_def fd_inv_def)
  show "hoare (\<lambda>(w, l). l = []) (do {
        r \<leftarrow> sysroot_open_direct G (logged K) p flags want; State_Monad.return (Some r) }) open_post"
    by (rule hoare_wrap [OF hoare_pre [OF fd_inv_open_direct [where F = "{#}"]]])
       (auto simp: open_post_def fd_inv_def split: sum.splits)
  show "hoare (\<lambda>(w, l). l = []) (do {
        r \<leftarrow> srt_resolve_in_sysroot n G (logged K) (sr_fd sr) p flags;
        State_Monad.return (map_option (map_sum id (\<lambda>(fd, p). (fd, if want then Some p else None))) r) })
      open_post"
    by (rule hoare_wrap [OF resolve_fd_inv]) (auto simp: open_post_def split: option.splits sum.splits)
qed

definition closed_post :: "'a option \<Rightarrow> 'w \<times> call list \<Rightarrow> bool" where
  "closed_post r s = (r = None \<or> fd_inv {#} s)"

lemma close_after_open:
  "hoare (open_post (Some (Inr (fd, p)))) (glnx_close_fd (logged K) fd) (\<lambda>_. fd_inv {#})"
  by (rule hoare_pre [OF fd_inv_close]) (simp add: open_post_def)

lemma sysroot_test_fd_inv:
  "hoare (\<lambda>(w, l). l = []) (srt_sysroot_test n G (logged K) sr p flags) closed_post"
  unfolding srt_sysroot_test_def
proof (rule hoare_bind [OF sysroot_open_fd_inv], rule hoare_option)
  fix r x :: "(gerror + fd \<times> string option) option"
  show "hoare (open_post r) (State_Monad.return None) closed_post"
    by (rule hoare_return) (simp add: closed_post_def)
next
  fix r and x :: "gerror + fd \<times> string option"
  assume r: "r = Some x"
  show "hoare (open_post r) (case x of Inl e \<Rightarrow> State_Monad.return (Some (Inl e))
      | Inr (fd, _) \<Rightarrow> do { glnx_close_fd (logged K) fd; State_Monad.return (Some (Inr ())) }) closed_post"
  proof (cases x)
    case (Inl e)
    then show ?thesis by (auto simp: r open_post_def closed_post_def intro: hoare_return)
  next
    case (Inr y)
    then show ?thesis unfolding r Inr sum.case
      by (cases y) (simp, rule hoare_wrap [OF close_after_open], simp add: closed_post_def)
  qed
qed

lemma sysroot_load_fd_inv:
  "hoare (\<lambda>(w, l). l = []) (srt_sysroot_load n G (logged K) sr p flags want want_contents) closed_post"
  unfolding srt_sysroot_load_def
proof (rule hoare_bind [OF sysroot_open_fd_inv], rule hoare_option)
  fix r x :: "(gerror + fd \<times> string option) option"
  show "hoare (open_post r) (State_Monad.return None) closed_post"
    by (rule hoare_return) (simp add: closed_post_def)
next
  fix r and x :: "gerror + fd \<times> string option"
  assume r: "r = Some x"
  have read: "hoare (open_post (Some (Inr (fd, q)))) (if want_contents then do {
        b \<leftarrow> sys_read_all (logged K) fd;
        State_Monad.return (case b of Inl e \<Rightarrow> Inl (throw_errno e) | Inr s \<Rightarrow> Inr (Some s)) }
      else State_Monad.return (Inr None)) (\<lambda>_. open_post (Some (Inr (fd, q))))" for fd and q :: "string option"
  proof -
    have "hoare (open_post (Some (Inr (fd, q)))) (sys_read_all (logged K) fd) (\<lambda>_. open_post (Some (Inr (fd, q))))"
      by (rule hoare_weaken [OF fd_inv_read_all]) (simp_all add: open_post_def)
    then show ?thesis by (intro hoare_if hoare_wrap hoare_return)
  qed
  show "hoare (open_post r) (case x of Inl e \<Rightarrow> State_Monad.return (Some (Inl e))
      | Inr (fd, p) \<Rightarrow> do {
          c \<leftarrow> (if want_contents then do {
                  b \<leftarrow> sys_read_all (logged K) fd;
                  State_Monad.return (case b of Inl e \<Rightarrow> Inl (throw_errno e) | Inr s \<Rightarrow> Inr (Some s)) }
               else State_Monad.return (Inr None));
          glnx_close_fd (logged K) fd;
          State_Monad.return (Some (case c of Inl e \<Rightarrow> Inl e | Inr s \<Rightarrow> Inr (p, s))) }) closed_post"
  proof (cases x)
    case (Inl e)
    then show ?thesis by (auto simp: r open_post_def closed_post_def intro: hoare_return)
  next
    case (Inr y)
    obtain fd q where y: "y = (fd, q)" by (cases y)
    show ?thesis unfolding r Inr y sum.case prod.case
      by (rule hoare_bind [OF read], rule hoare_wrap [OF close_after_open]) (simp add: closed_post_def)
  qed
qed

text \<open>\<open>_srt_sysroot_test\<close> leaves no descriptor open, whether it answers yes or no, in normal
  and in direct mode, whatever the kernel answers.\<close>

theorem srt_sysroot_test_no_leak:
  "case run_state (srt_sysroot_test n G (logged K) sr path flags) (w, []) of
     (Some r, (w', l)) \<Rightarrow> opened l = closed l
   | (None, _) \<Rightarrow> True"
  by (auto simp: closed_post_def fd_inv_def split: prod.split option.split
      dest!: hoareD [OF sysroot_test_fd_inv, where s = "(w, [])", simplified])

text \<open>\<open>_srt_sysroot_load\<close> leaves no descriptor open either: not when the path cannot be opened,
  not when reading it fails, and not when it returns the contents.\<close>

theorem srt_sysroot_load_no_leak:
  "case run_state (srt_sysroot_load n G (logged K) sr path flags want want_contents) (w, []) of
     (Some r, (w', l)) \<Rightarrow> opened l = closed l
   | (None, _) \<Rightarrow> True"
  by (auto simp: closed_post_def fd_inv_def split: prod.split option.split
      dest!: hoareD [OF sysroot_load_fd_inv, where s = "(w, [])", simplified])

end
