(* ===== verification/MemKernel.thy ===== *)
theory MemKernel imports Kernel begin

text \<open>
  A concrete kernel: a file tree with directories, regular files and symbolic links, and a table
  of open descriptors. It instantiates the record \<open>kernel\<close>, so that the code can be evaluated,
  and it is the file system of the refinement theorems.
\<close>

section \<open>A kernel over a file tree\<close>

datatype node = Dir | Reg string | Lnk string

type_synonym tree = "(string list \<times> node) list"

record mem_world =
  tree :: tree
  table :: "(nat \<times> string list) list"
  next_fd :: nat

definition lookup :: "tree \<Rightarrow> string list \<Rightarrow> node option" where
  "lookup t p = (if p = [] then Some Dir else map_of t p)"

definition fd_path :: "mem_world \<Rightarrow> fd \<Rightarrow> string list option" where
  "fd_path w fd = (if fd < 0 then None else map_of (table w) (nat fd))"

definition proc_path :: "mem_world \<Rightarrow> string \<Rightarrow> string list option" where
  "proc_path w p = map_option snd (find (\<lambda>(n, q). proc_self_fd (int n) = p) (table w))"

definition new_fd :: "string list \<Rightarrow> mem_world \<Rightarrow> nat \<times> mem_world" where
  "new_fd p w = (next_fd w, w\<lparr> table := (next_fd w, p) # table w, next_fd := Suc (next_fd w) \<rparr>)"

text \<open>The path that an operation on an entry of a directory is about.\<close>

definition entry_path :: "mem_world \<Rightarrow> fd \<Rightarrow> string \<Rightarrow> errno + string list" where
  "entry_path w dfd x =
     (case fd_path w dfd of
        None \<Rightarrow> Inl EBADF
      | Some d \<Rightarrow> if lookup (tree w) d = Some Dir then Inr (d @ [x]) else Inl ENOTDIR)"

definition mem_open :: "fd \<Rightarrow> string \<Rightarrow> open_flag set \<Rightarrow> mem_world \<Rightarrow> (errno + nat) \<times> mem_world" where
  "mem_open dfd x fl w =
     (case (case proc_path w x of Some p \<Rightarrow> Inr p | None \<Rightarrow> entry_path w dfd x) of
        Inl e \<Rightarrow> (Inl e, w)
      | Inr p \<Rightarrow>
          (case lookup (tree w) p of
             None \<Rightarrow> (Inl ENOENT, w)
           | Some n \<Rightarrow>
               if O_DIRECTORY \<in> fl \<and> n \<noteq> Dir then (Inl ENOTDIR, w)
               else (case new_fd p w of (m, w') \<Rightarrow> (Inr m, w'))))"

definition mem_mode :: "node \<Rightarrow> 32 word" where
  "mem_mode n = (case n of Dir \<Rightarrow> 0x41ED | Reg _ \<Rightarrow> 0x81ED | Lnk _ \<Rightarrow> 0xA1FF)"

definition mem_stat :: "fd \<Rightarrow> string \<Rightarrow> at_flag set \<Rightarrow> mem_world \<Rightarrow> (errno + stat) \<times> mem_world" where
  "mem_stat dfd x fl w =
     ((case (if x = [] then (case fd_path w dfd of None \<Rightarrow> Inl EBADF | Some p \<Rightarrow> Inr p) else entry_path w dfd x) of
        Inl e \<Rightarrow> Inl e
      | Inr p \<Rightarrow> (case lookup (tree w) p of None \<Rightarrow> Inl ENOENT
          | Some n \<Rightarrow> Inr \<lparr> st_dev = 1, st_ino = length p, st_mode = mem_mode n,
              st_size = (case n of Reg s \<Rightarrow> int (length s) | _ \<Rightarrow> 0) \<rparr>)), w)"

definition mem_readlink :: "fd \<Rightarrow> string \<Rightarrow> mem_world \<Rightarrow> (errno + string) \<times> mem_world" where
  "mem_readlink dfd x w =
     ((case (if x = [] then (case fd_path w dfd of None \<Rightarrow> Inl EBADF | Some p \<Rightarrow> Inr p) else entry_path w dfd x) of
        Inl e \<Rightarrow> Inl e
      | Inr p \<Rightarrow> (case lookup (tree w) p of Some (Lnk t) \<Rightarrow> Inr t | Some _ \<Rightarrow> Inl EINVAL | None \<Rightarrow> Inl ENOENT)), w)"

text \<open>Create an entry that does not exist.\<close>

definition mem_create :: "fd \<Rightarrow> string \<Rightarrow> node \<Rightarrow> mem_world \<Rightarrow> (errno + unit) \<times> mem_world" where
  "mem_create dfd x n w =
     (case entry_path w dfd x of
        Inl e \<Rightarrow> (Inl e, w)
      | Inr p \<Rightarrow> if lookup (tree w) p \<noteq> None then (Inl EEXIST, w)
                else (Inr (), w\<lparr> tree := (p, n) # tree w \<rparr>))"

definition mem_dup :: "fd \<Rightarrow> mem_world \<Rightarrow> (errno + nat) \<times> mem_world" where
  "mem_dup fd w = (case fd_path w fd of None \<Rightarrow> (Inl EBADF, w)
     | Some p \<Rightarrow> (case new_fd p w of (m, w') \<Rightarrow> (Inr m, w')))"

definition mem_close :: "fd \<Rightarrow> mem_world \<Rightarrow> mem_world" where
  "mem_close fd w = w\<lparr> table := filter (\<lambda>(n, p). int n \<noteq> fd) (table w) \<rparr>"

definition mem_read :: "fd \<Rightarrow> mem_world \<Rightarrow> (errno + string) \<times> mem_world" where
  "mem_read fd w =
     ((case fd_path w fd of None \<Rightarrow> Inl EBADF
       | Some p \<Rightarrow> (case lookup (tree w) p of Some (Reg s) \<Rightarrow> Inr s | _ \<Rightarrow> Inl EINVAL)), w)"

text \<open>\<open>nftw\<close> below a directory, one level deep.\<close>

definition mem_ftw :: "tree \<Rightarrow> string \<Rightarrow> ftw_tree" where
  "mem_ftw t p = FTW p FTW_D
     (map (\<lambda>(q, n). FTW (p @ CHR ''/'' # join_segs (drop (length (segs p)) q))
         (case n of Dir \<Rightarrow> FTW_D | Reg _ \<Rightarrow> FTW_F | Lnk _ \<Rightarrow> FTW_SL) [])
       (filter (\<lambda>(q, n). q \<noteq> [] \<and> butlast q = segs p) t))"

definition mem_kernel :: "mem_world kernel" where
  "mem_kernel = \<lparr>
     sys_dupfd_cloexec = (\<lambda>fd. State (mem_dup fd)),
     sys_openat = (\<lambda>fd p fl. State (mem_open fd p fl)),
     sys_close = (\<lambda>fd. State (\<lambda>w. ((), mem_close fd w))),
     sys_mkdirat = (\<lambda>fd p m. State (mem_create fd p Dir)),
     sys_readlinkat = (\<lambda>fd p. State (mem_readlink fd p)),
     sys_fstatat = (\<lambda>fd p fl. State (mem_stat fd p fl)),
     sys_access = (\<lambda>p m. State (\<lambda>w. (if proc_path w p = None then Inl ENOENT else Inr (), w))),
     sys_faccessat = (\<lambda>fd p m. State (\<lambda>w. (map_sum id (\<lambda>_. ()) (fst (mem_stat fd p {} w)), w))),
     sys_linkat = (\<lambda>sfd s fd p. State (\<lambda>w. (Inl EPERM, w))),
     sys_symlinkat = (\<lambda>t fd p. State (mem_create fd p (Lnk t))),
     sys_fchmod = (\<lambda>fd m. State (\<lambda>w. (Inr (), w))),
     sys_futimens = (\<lambda>fd t. State (\<lambda>w. (Inr (), w))),
     sys_read_all = (\<lambda>fd. State (mem_read fd)),
     sys_read = (\<lambda>fd n. State (\<lambda>w. (Inr [], w))),
     sys_realpath = (\<lambda>p. State (\<lambda>w. (Inr p, w))),
     sys_read_lines = (\<lambda>fd z. State (\<lambda>w. (case fst (mem_read fd w) of
          Inl e \<Rightarrow> ([], Some (throw_errno e))
        | Inr s \<Rightarrow> (g_strsplit_set s [CHR 0x0A], None), w))),
     sys_ftw = (\<lambda>p. State (\<lambda>w. (Inr (mem_ftw (tree w) p), w))),
     sys_get_contents = (\<lambda>p. State (\<lambda>w. (case find (\<lambda>(n, q). proc_self_fd (int n) = p) (table w) of
          None \<Rightarrow> Inl (G_IO_ERROR IO_NOT_FOUND)
        | Some (n, q) \<Rightarrow> map_sum throw_errno id (fst (mem_read (int n) w)), w))),
     sys_file_copy = (\<lambda>sfd s fd p. State (mem_create fd p (Reg []) \<circ> id) \<bind>
        (\<lambda>r. State_Monad.return (case r of Inl e \<Rightarrow> Inl (throw_errno e) | Inr u \<Rightarrow> Inr u))) \<rparr>"

definition demo_world :: mem_world where
  "demo_world = \<lparr> tree = [([''d''], Dir), ([''d'', ''f''], Reg ''hello''), ([''l''], Lnk ''/d''), ([''loop''], Lnk ''loop'')],
     table = [(3, [])], next_fd = 4 \<rparr>"

end
