(* ===== verification/SysrootWalk.thy ===== *)
theory SysrootWalk imports SysrootConfine MemKernel begin

text \<open>
  Termination of \<open>_srt_resolve_in_sysroot\<close> and the path it returns when symbolic links are
  rejected, for every kernel: the path is the lexical walk of the elements of the argument.
\<close>

section \<open>Without symbolic links\<close>

text \<open>With \<open>REJECT_SYMLINKS\<close> the loop only ever moves forward through the given text: it ends after
  at most one iteration per character, and where it ends is the lexical walk of the path.\<close>

definition rest_segs :: "resolve_state \<Rightarrow> string list" where
  "rest_segs st = (case remaining st of None \<Rightarrow> [] | Some r \<Rightarrow> segs r)"

definition rest_size :: "resolve_state \<Rightarrow> nat" where
  "rest_size st = (case remaining st of None \<Rightarrow> 0 | Some r \<Rightarrow> Suc (length r))"

definition walk_inv :: "string list \<Rightarrow> resolve_state \<Rightarrow> bool" where
  "walk_inv goal st = (\<exists>xs. list_all seg_ok xs \<and> current_path st = join_segs xs \<and> walk xs (rest_segs st) = goal)"

definition walk_post :: "string list \<Rightarrow> nat \<Rightarrow> loop_result \<Rightarrow> 'w \<Rightarrow> bool" where
  "walk_post goal n r s = (case r of
      Again st \<Rightarrow> walk_inv goal st \<and> rest_size st < n
    | Done st \<Rightarrow> walk_inv goal st \<and> rest_segs st = []
    | Failed e \<Rightarrow> True)"

lemma split_next_segs:
  assumes "split_next r = (e, rest)" "r \<noteq> []" "hd r \<noteq> CHR ''/''"
  shows "segs r = e # (case rest of None \<Rightarrow> [] | Some r' \<Rightarrow> segs r')"
    "(case rest of None \<Rightarrow> 0 | Some r' \<Rightarrow> Suc (length r')) \<le> length r"
proof -
  have e: "seg_ok e" using split_next_elem [OF assms(2,3,1)] .
  then have se: "segs e = [e]" by (simp add: seg_ok_def segs_single)
  have "segs r = e # (case rest of None \<Rightarrow> [] | Some r' \<Rightarrow> segs r') \<and>
      (case rest of None \<Rightarrow> 0 | Some r' \<Rightarrow> Suc (length r')) \<le> length r"
    using assms(1) se
    by (auto simp: split_next_def strchr_Some_iff segs_append_slash split: option.splits)
  then show "segs r = e # (case rest of None \<Rightarrow> [] | Some r' \<Rightarrow> segs r')"
    "(case rest of None \<Rightarrow> 0 | Some r' \<Rightarrow> Suc (length r')) \<le> length r" by auto
qed

lemma walk_enter_path:
  assumes "list_all seg_ok xs" "cp = join_segs xs"
  shows "(if cp \<noteq> [] then cp @ ''/'' else []) @ e = join_segs (xs @ [e])"
  using join_segs_eq_Nil [OF assms(1)] by (auto simp: assms(2) join_segs_snoc)

lemma resolve_step_walk:
  assumes inv: "walk_inv goal st" and rej: "REJECT_SYMLINKS \<in> flags"
  shows "hoare P (resolve_step G K flags st) (walk_post goal (rest_size st))"
proof (cases "remaining st")
  case None
  then show ?thesis using inv
    by (auto simp: resolve_step_def walk_post_def rest_segs_def intro: hoare_return)
next
  case (Some r0)
  let ?r = "dropWhile is_slash r0"
  obtain xs where xs: "list_all seg_ok xs" "current_path st = join_segs xs"
    "walk xs (segs r0) = goal" using inv by (auto simp: walk_inv_def rest_segs_def Some)
  obtain e rest where e: "split_next ?r = (e, rest)" by (cases "split_next ?r")
  show ?thesis
  proof (cases "?r = []")
    case True
    have "walk_post goal (rest_size st) (Done st) s" for s :: 'a
      using inv segs_drop_Nil [OF True] by (simp add: walk_post_def rest_segs_def Some)
    then show ?thesis unfolding resolve_step_def Some option.case Let_def if_P [OF True]
      by (intro hoare_return)
  next
    case False
    then have h: "hd ?r \<noteq> CHR ''/''" using drop_slashes_hd by blast
    have ok: "seg_ok e" using split_next_elem [OF False h e] .
    let ?rs = "case rest of None \<Rightarrow> [] | Some r' \<Rightarrow> segs r'"
    have seg: "segs r0 = e # ?rs" using split_next_segs(1) [OF e False h] by simp
    have size: "(case rest of None \<Rightarrow> 0 | Some r' \<Rightarrow> Suc (length r')) < rest_size st"
      using split_next_segs(2) [OF e False h] length_dropWhile_le [of is_slash r0]
      by (simp add: rest_size_def Some)
    have again: "walk_post goal (rest_size st) (Again st') s"
      if "current_path st' = join_segs ys" "list_all seg_ok ys" "remaining st' = rest" "walk ys ?rs = goal"
      for st' ys and s :: 'a
      using that size by (auto simp: walk_post_def walk_inv_def rest_segs_def rest_size_def)
    have enter: "hoare P' (resolve_enter K flags st fd e rest) (walk_post goal (rest_size st))"
      if "e \<noteq> ''.''" "e \<noteq> ''..''" for P' fd
    proof -
      have "walk_post goal (rest_size st) (Again (st\<lparr>
          current_path := (if current_path st \<noteq> [] then current_path st @ ''/'' else []) @ e,
          fds := fds st @ [fd], remaining := rest \<rparr>)) s" for s :: 'a
        by (rule again [where ys = "xs @ [e]"])
           (use that xs ok seg in \<open>simp_all add: walk_enter_path [OF xs(1,2)] flip: xs(2)\<close>)
      then show ?thesis unfolding resolve_enter_def fail_with_def
        by (intro hoare_bind [OF hoare_anyI] hoare_option hoare_return hoare_wrap [OF hoare_anyI])
           (auto simp: walk_post_def)
    qed
    have fail: "hoare P' (fail_with K ys er) (walk_post goal (rest_size st))" for P' ys er
      unfolding fail_with_def by (rule hoare_wrap [OF hoare_anyI]) (auto simp: walk_post_def)
    have parent: "hoare P (resolve_parent K st rest) (walk_post goal (rest_size st))" if "e = ''..''"
    proof -
      have bl: "list_all seg_ok (butlast xs)" using xs(1) by (auto simp: list_all_iff dest: in_set_butlastD)
      show ?thesis unfolding resolve_parent_def
        by (rule hoare_wrap [OF hoare_anyI], rule again [where ys = "butlast xs"])
           (use that xs seg bl in \<open>auto simp: parent_join [OF xs(1)]\<close>)
    qed
    show ?thesis unfolding resolve_step_def Some option.case Let_def if_not_P [OF False] e prod.case
    proof (intro hoare_if parent)
      show "hoare P (State_Monad.return (Again (st\<lparr> remaining := rest \<rparr>))) (walk_post goal (rest_size st))"
        if "e = ''.''"
        by (rule hoare_return, rule again [where ys = xs]) (use that xs seg in auto)
    qed (auto intro!: hoare_bind [OF hoare_anyI] hoare_sum fail enter simp: rej)
  qed
qed


definition walk_result :: "string list \<Rightarrow> gerror + resolve_state \<Rightarrow> bool" where
  "walk_result goal x = (case x of
      Inl e \<Rightarrow> True
    | Inr st \<Rightarrow> current_path st = join_segs goal)"

lemma resolve_loop_walk:
  assumes "REJECT_SYMLINKS \<in> flags"
  shows "walk_inv goal st \<Longrightarrow> rest_size st < n \<Longrightarrow>
     hoare P (resolve_loop n G K flags st) (\<lambda>r s. \<exists>x. r = Some x \<and> walk_result goal x)"
proof (induction n arbitrary: st P)
  case (Suc n)
  show ?case unfolding resolve_loop.simps
  proof (rule hoare_bind [OF resolve_step_walk [OF Suc.prems(1) assms]])
    fix r
    show "hoare (walk_post goal (rest_size st) r) (case r of
        Again st' \<Rightarrow> resolve_loop n G K flags st'
      | Done st' \<Rightarrow> State_Monad.return (Some (Inr st'))
      | Failed e \<Rightarrow> State_Monad.return (Some (Inl e))) (\<lambda>r s. \<exists>x. r = Some x \<and> walk_result goal x)"
    proof (cases r)
      case (Again st')
      show ?thesis
      proof (cases "walk_inv goal st' \<and> rest_size st' < rest_size st")
        case True
        then show ?thesis unfolding Again loop_result.case
          using Suc.IH Suc.prems(2) by simp
      qed (auto simp: Again walk_post_def intro: hoare_false)
    next
      case (Done st')
      show ?thesis unfolding Done loop_result.case
        by (rule hoare_return) (auto simp: walk_post_def walk_inv_def walk_result_def)
    qed (auto simp: walk_result_def intro: hoare_return)
  qed
qed simp

lemma resolve_in_sysroot_walk:
  assumes rej: "REJECT_SYMLINKS \<in> flags" and fuel: "Suc (length descendant) < n"
  shows "hoare P (srt_resolve_in_sysroot n G K sysroot descendant flags)
     (\<lambda>r s. case r of None \<Rightarrow> False | Some (Inl e) \<Rightarrow> True
        | Some (Inr (fd, p)) \<Rightarrow> p = result_path flags (join_segs (walk [] (segs descendant))))"
proof -
  let ?goal = "walk [] (segs descendant)"
  let ?Q = "\<lambda>r s. case r of None \<Rightarrow> False | Some (Inl e) \<Rightarrow> True
        | Some (Inr (fd, p)) \<Rightarrow> p = result_path flags (join_segs ?goal)"
  have loop: "hoare P' (resolve_loop n G K (effective_flags flags)
        \<lparr> current_path = [], fds = [fd0], remaining = Some descendant \<rparr>)
      (\<lambda>r s. \<exists>x. r = Some x \<and> walk_result ?goal x)" for fd0 P'
    by (rule resolve_loop_walk)
       (use rej fuel in \<open>auto simp: walk_inv_def rest_segs_def rest_size_def intro!: exI [of _ "[]"]\<close>)
  have finish: "hoare (\<lambda>s. \<exists>x. Some (Inr st) = Some x \<and> walk_result ?goal x)
      (do { res \<leftarrow> resolve_finish K (effective_flags flags) st; State_Monad.return (Some res) }) ?Q" for st
  proof (cases "current_path st = join_segs ?goal")
    case True
    have rp: "result_path (effective_flags flags) (join_segs ?goal) = result_path flags (join_segs ?goal)"
      by (auto simp: result_path_def)
    have "hoare (\<lambda>s. \<exists>x. Some (Inr st) = Some x \<and> walk_result ?goal x) (resolve_finish K (effective_flags flags) st)
        (\<lambda>r s. case r of Inl e \<Rightarrow> True | Inr (fd, p) \<Rightarrow> p = result_path flags (join_segs ?goal))"
      unfolding resolve_finish_def Let_def True rp
      by (intro hoare_bind [OF hoare_anyI] hoare_sum hoare_if hoare_wrap [OF hoare_anyI])
         (auto split: sum.split)
    then show ?thesis by (rule hoare_wrap) (auto split: sum.splits)
  qed (auto simp: walk_result_def intro: hoare_false)
  show ?thesis unfolding srt_resolve_in_sysroot_def Let_def
    apply (rule hoare_if)
     apply (rule hoare_return, simp)
    apply (rule hoare_bind [OF hoare_anyI], rule TrueI, rule hoare_sum)
     apply (rule hoare_return, simp)
    apply (rule hoare_bind [OF loop], rule hoare_option)
     apply (rule hoare_return, simp)
    apply (rule hoare_sum)
     apply (rule hoare_return, simp)
    apply (use finish in simp)
    done
qed

text \<open>With \<open>REJECT_SYMLINKS\<close>, \<open>_srt_resolve_in_sysroot\<close> returns for every kernel: one loop
  iteration per character of the path, and two more, are enough. If it succeeds, the path it
  returns is the lexical walk of the argument, where \<open>..\<close> at the root stays at the root.\<close>

theorem srt_resolve_in_sysroot_reject_symlinks:
  assumes "REJECT_SYMLINKS \<in> flags" and "Suc (length descendant) < n"
  shows "case run_state (srt_resolve_in_sysroot n G K sysroot descendant flags) w of
     (None, _) \<Rightarrow> False
   | (Some (Inl e), _) \<Rightarrow> True
   | (Some (Inr (fd, p)), _) \<Rightarrow> p = result_path flags (join_segs (walk [] (segs descendant)))"
  using hoareD [OF resolve_in_sysroot_walk [OF assms], of "\<lambda>_. True" w]
  by (auto split: prod.split option.split sum.split)

theorem srt_resolve_in_sysroot_reject_symlinks_witness:
  "(case run_state (srt_resolve_in_sysroot 20 glib_ref mem_kernel 3 ''d/.././d//f'' {REJECT_SYMLINKS}) demo_world of
     (None, _) \<Rightarrow> False
   | (Some (Inl e), _) \<Rightarrow> True
   | (Some (Inr (fd, p)), _) \<Rightarrow> p = result_path {REJECT_SYMLINKS} (join_segs (walk [] (segs ''d/.././d//f'')))) \<and>
   walk [] (segs ''d/.././d//f'') = [''d'', ''f'']"
proof
  show "case run_state (srt_resolve_in_sysroot 20 glib_ref mem_kernel 3 ''d/.././d//f'' {REJECT_SYMLINKS}) demo_world of
     (None, _) \<Rightarrow> False
   | (Some (Inl e), _) \<Rightarrow> True
   | (Some (Inr (fd, p)), _) \<Rightarrow> p = result_path {REJECT_SYMLINKS} (join_segs (walk [] (segs ''d/.././d//f'')))"
    by (rule srt_resolve_in_sysroot_reject_symlinks) simp_all
qed code_simp

end
