(* ===== verification/SysrootRefine.thy ===== *)
theory SysrootRefine imports SysrootWalk MemKernel begin

text \<open>
  \<open>_srt_resolve_in_sysroot\<close> on the concrete kernel: the inductive specification \<open>resolves\<close> of what a
  path means inside a file tree, a simulation between the state of the C loop and a position in
  the tree, and what happens on a symbolic link that leads to itself.
\<close>

section \<open>The specification\<close>

text \<open>
  \<open>resolves keep t cur xs out\<close>: in the tree \<open>t\<close>, the elements \<open>xs\<close> lead from the directory \<open>cur\<close> to
  \<open>out\<close>, where every symbolic link is followed inside the tree (an absolute target starts at its
  root again), \<open>..\<close> at the root stays there, and with \<open>keep\<close> a link at the end may be kept.
\<close>

inductive resolves :: "bool \<Rightarrow> tree \<Rightarrow> string list \<Rightarrow> string list \<Rightarrow> string list \<Rightarrow> bool"
  for keep :: bool and t :: tree where
  resolves_nil: "resolves keep t cur [] cur"
| resolves_dot: "resolves keep t cur xs out \<Longrightarrow> resolves keep t cur (''.'' # xs) out"
| resolves_up: "resolves keep t (butlast cur) xs out \<Longrightarrow> resolves keep t cur (''..'' # xs) out"
| resolves_enter: "plain_seg x \<Longrightarrow> lookup t (cur @ [x]) = Some n \<Longrightarrow> (\<And>l. n \<noteq> Lnk l) \<Longrightarrow>
    (xs \<noteq> [] \<longrightarrow> n = Dir) \<Longrightarrow> resolves keep t (cur @ [x]) xs out \<Longrightarrow> resolves keep t cur (x # xs) out"
| resolves_keep: "keep \<Longrightarrow> plain_seg x \<Longrightarrow> lookup t (cur @ [x]) = Some (Lnk l) \<Longrightarrow>
    resolves keep t cur [x] (cur @ [x])"
| resolves_link: "plain_seg x \<Longrightarrow> lookup t (cur @ [x]) = Some (Lnk l) \<Longrightarrow>
    resolves keep t (if absolute l then [] else cur) (segs l @ xs) out \<Longrightarrow> resolves keep t cur (x # xs) out"

inductive_cases resolves_nilE: "resolves keep t cur [] out"
inductive_simps resolves_nil_iff: "resolves keep t cur [] out"

section \<open>Descriptors of the concrete kernel\<close>

definition fd_ok :: "mem_world \<Rightarrow> bool" where
  "fd_ok w = (\<forall>(n, p) \<in> set (table w). n < next_fd w)"

lemma fd_path_bound: "fd_ok w \<Longrightarrow> fd_path w f = Some p \<Longrightarrow> 0 \<le> f \<and> nat f < next_fd w"
  by (auto simp: fd_ok_def fd_path_def split: if_splits dest: map_of_SomeD)

lemma new_fd_facts:
  assumes "new_fd p w = (m, w')" "fd_ok w"
  shows "fd_ok w'" "tree w' = tree w" "fd_path w' (int m) = Some p"
    "fd_path w f = Some q \<Longrightarrow> fd_path w' f = Some q \<and> f \<noteq> int m"
proof -
  have w': "w' = w\<lparr> table := (next_fd w, p) # table w, next_fd := Suc (next_fd w) \<rparr>" "m = next_fd w"
    using assms(1) by (auto simp: new_fd_def)
  show "fd_ok w'" using assms(2) by (auto simp: w' fd_ok_def less_Suc_eq)
  show "tree w' = tree w" by (simp add: w')
  show "fd_path w' (int m) = Some p" by (simp add: w' fd_path_def)
  show "fd_path w f = Some q \<Longrightarrow> fd_path w' f = Some q \<and> f \<noteq> int m"
    using fd_path_bound [OF assms(2), of f q] by (auto simp: w' fd_path_def)
qed

lemma map_of_filter_fd:
  "map_of (filter (\<lambda>(n, p). int n \<noteq> fd) xs) k = (if int k = fd then None else map_of xs k)"
  by (induction xs) auto

lemma mem_close_facts:
  "fd_ok w \<Longrightarrow> fd_ok (mem_close fd w)" "tree (mem_close fd w) = tree w"
  "fd_path (mem_close fd w) f = (if f = fd then None else fd_path w f)"
  by (auto simp: fd_ok_def mem_close_def fd_path_def map_of_filter_fd)

lemma mem_close_fds:
  assumes "run_state (close_fds mem_kernel xs) w = (u, w')" "fd_ok w"
  shows "fd_ok w'" "tree w' = tree w" "fd_path w' f = (if f \<in> set xs then None else fd_path w f)"
proof -
  have "fd_ok w' \<and> tree w' = tree w \<and> (\<forall>f. fd_path w' f = (if f \<in> set xs then None else fd_path w f))"
    using assms
  proof (induction xs arbitrary: w)
    case (Cons x xs)
    have "run_state (close_fds mem_kernel xs) (mem_close x w) = (u, w')"
      using Cons.prems(1) by (simp add: mem_kernel_def)
    then show ?case using Cons.IH [of "mem_close x w"] Cons.prems(2) mem_close_facts [where w = w and fd = x] by auto
  qed simp
  then show "fd_ok w'" "tree w' = tree w" "fd_path w' f = (if f \<in> set xs then None else fd_path w f)"
    by auto
qed

lemma proc_path_None: "CHR ''/'' \<notin> set x \<Longrightarrow> proc_path w x = None"
  by (auto simp: proc_path_def find_None_iff proc_self_fd_def)

text \<open>What the code's calls do on this kernel.\<close>

lemma mem_openat_elem:
  assumes "fd_path w d = Some p" "CHR ''/'' \<notin> set x" "O_DIRECTORY \<notin> fl"
    "run_state (k_openat mem_kernel d x fl) w = (Inr fd, w')"
  obtains n m where "lookup (tree w) (p @ [x]) = Some n" "new_fd (p @ [x]) w = (m, w')" "fd = int m"
    "lookup (tree w) p = Some Dir"
  using assms
  by (auto simp: k_openat_def mem_kernel_def mem_open_def proc_path_None entry_path_def
      split: option.splits if_splits prod.splits sum.splits)

lemma mem_readlinkat_fd:
  assumes "fd_path w d = Some p" "lookup (tree w) p = Some n"
  shows "run_state (glnx_readlinkat_malloc mem_kernel d []) w =
    (case n of Lnk t \<Rightarrow> Inr t | _ \<Rightarrow> Inl (throw_errno EINVAL), w)"
proof -
  have "d \<noteq> - 1" using assms(1) by (auto simp: fd_path_def)
  then show ?thesis using assms
    by (auto simp: glnx_readlinkat_malloc_def glnx_dirfd_canonicalize_def mem_kernel_def mem_readlink_def
        split: node.split)
qed

lemma mem_fstatat_fd:
  assumes "fd_path w d = Some p" "lookup (tree w) p = Some n"
  shows "\<exists>st. run_state (glnx_fstatat mem_kernel d [] fl) w = (Inr st, w) \<and> S_ISDIR (st_mode st) = (n = Dir)"
  using assms
  by (cases n) (auto simp: glnx_fstatat_def mem_kernel_def mem_stat_def S_ISDIR_def mem_mode_def S_IFMT_def)


section \<open>The simulation\<close>

text \<open>The state of the loop stands for a position in the tree: one descriptor per prefix of the
  path so far; and what remains leads to where the whole path leads.\<close>

definition sim :: "bool \<Rightarrow> tree \<Rightarrow> string list \<Rightarrow> resolve_state \<Rightarrow> string list \<Rightarrow> mem_world \<Rightarrow> bool" where
  "sim keep t goal st xs w = (tree w = t \<and> fd_ok w \<and> distinct (fds st) \<and>
     list_all safe_elem xs \<and> current_path st = join_segs xs \<and>
     map (fd_path w) (fds st) = map Some (prefixes xs) \<and>
     (\<forall>out. resolves keep t xs (rest_segs st) out \<longrightarrow> resolves keep t [] goal out))"

lemma prefixes_butlast: "xs \<noteq> [] \<Longrightarrow> butlast (prefixes xs) = prefixes (butlast xs)"
  by (cases xs rule: rev_cases) (simp_all add: prefixes_snoc)

lemma sim_last: "sim keep t goal st xs w \<Longrightarrow> fds st \<noteq> [] \<and> fd_path w (last (fds st)) = Some xs"
proof -
  assume s: "sim keep t goal st xs w"
  then have eq: "map (fd_path w) (fds st) = map Some (prefixes xs)" by (simp add: sim_def)
  then have ne: "fds st \<noteq> []" by auto
  have "fd_path w (last (fds st)) = last (map (fd_path w) (fds st))" using ne by (simp add: last_map)
  also have "\<dots> = Some xs" by (simp add: eq last_map)
  finally show ?thesis using ne by simp
qed

lemma sim_length: "sim keep t goal st xs w \<Longrightarrow> length (fds st) = Suc (length xs)"
proof -
  assume "sim keep t goal st xs w"
  then have "length (map (fd_path w) (fds st)) = length (map Some (prefixes xs))" by (simp add: sim_def)
  then show ?thesis by simp
qed

text \<open>A new descriptor disturbs none of those held.\<close>

lemma sim_new_fd:
  assumes s: "sim keep t goal st xs w" and new: "new_fd p w = (m, w1)"
  shows "map (fd_path w1) (fds st) = map Some (prefixes xs)" "int m \<notin> set (fds st)"
proof -
  have eq: "map (fd_path w) (fds st) = map Some (prefixes xs)" and ok: "fd_ok w" using s by (auto simp: sim_def)
  have open_fds: "fd_path w f \<noteq> None" if "f \<in> set (fds st)" for f
  proof -
    have "fd_path w f \<in> set (map (fd_path w) (fds st))" using that by simp
    then show ?thesis unfolding eq by auto
  qed
  then show "map (fd_path w1) (fds st) = map Some (prefixes xs)" "int m \<notin> set (fds st)"
    using new_fd_facts(4) [OF new ok] eq by (auto simp: list_eq_iff_nth_eq)
qed

lemma mem_set_size:
  assumes "run_state (fd_array_set_size mem_kernel n xs) w = (ys, w')" "fd_ok w" "distinct xs"
  shows "ys = take n xs" "fd_ok w'" "tree w' = tree w" "map (fd_path w') ys = map (fd_path w) ys"
    "f \<notin> set (drop n xs) \<Longrightarrow> fd_path w' f = fd_path w f"
proof -
  obtain u where run: "run_state (close_fds mem_kernel (drop n xs)) w = (u, w')" and ys: "ys = take n xs"
    using assms(1) by (auto simp: fd_array_set_size_def split: prod.splits)
  note c = mem_close_fds [OF run assms(2)]
  show "ys = take n xs" "fd_ok w'" "tree w' = tree w" using ys c(1,2) by auto
  show "f \<notin> set (drop n xs) \<Longrightarrow> fd_path w' f = fd_path w f" using c(3) by simp
  have "set (take n xs) \<inter> set (drop n xs) = {}" using assms(3) by (rule set_take_disj_set_drop_if_distinct) simp
  then show "map (fd_path w') ys = map (fd_path w) ys" using c(3) by (auto simp: ys)
qed

lemma sim_parent:
  assumes s: "sim keep t goal st xs w" and seg: "rest_segs st = ''..'' # rest_segs (st\<lparr> remaining := rest \<rparr>)"
    and run: "run_state (resolve_parent mem_kernel st rest) w = (r, w')"
  shows "\<exists>st'. r = Again st' \<and> sim keep t goal st' (butlast xs) w'"
proof -
  have ok: "list_all seg_ok xs" using s by (simp add: sim_def safe_elem_seg_ok)
  have bl: "list_all safe_elem (butlast xs)" using s by (auto simp: sim_def list_all_iff dest: in_set_butlastD)
  note len = sim_length [OF s]
  have cp: "(case strrchr (current_path st) CHR ''/'' of Some (a, _) \<Rightarrow> a | None \<Rightarrow> []) = join_segs (butlast xs)"
    using s parent_join [OF ok] by (simp add: sim_def)
  obtain ys where ys: "run_state (if length (fds st) \<ge> 2 then fd_array_set_size mem_kernel (length (fds st) - 1) (fds st)
             else State_Monad.return (fds st)) w = (ys, w')"
    and r: "r = Again (st\<lparr> fds := ys, remaining := rest, current_path := join_segs (butlast xs) \<rparr>)"
    using run unfolding resolve_parent_def cp by (auto split: prod.splits)
  have rest: "rest_segs (st\<lparr> fds := ys, remaining := rest, current_path := c \<rparr>) =
      rest_segs (st\<lparr> remaining := rest \<rparr>)" for c by (simp add: rest_segs_def)
  have cont: "resolves keep t [] goal out" if "resolves keep t (butlast xs) (rest_segs (st\<lparr> remaining := rest \<rparr>)) out" for out
    using s resolves_up [OF that] by (simp add: sim_def seg)
  have "distinct ys \<and> fd_ok w' \<and> tree w' = t \<and> map (fd_path w') ys = map Some (prefixes (butlast xs))"
  proof (cases "xs = []")
    case True
    then have "ys = fds st" "w' = w" using ys len by auto
    then show ?thesis using s True by (simp add: sim_def)
  next
    case False
    then have run': "run_state (fd_array_set_size mem_kernel (length (fds st) - 1) (fds st)) w = (ys, w')"
      using ys len by (cases xs) auto
    have d: "fd_ok w" "distinct (fds st)" using s by (auto simp: sim_def)
    note f = mem_set_size [OF run' d]
    have "map (fd_path w) ys = butlast (map (fd_path w) (fds st))"
      by (simp add: f(1) butlast_conv_take take_map)
    also have "\<dots> = map Some (prefixes (butlast xs))"
      using s prefixes_butlast [OF False] by (simp add: sim_def flip: map_butlast)
    finally show ?thesis using f d s by (simp add: sim_def)
  qed
  then show ?thesis using bl cont by (simp add: r sim_def rest)
qed

lemma resolves_path_cont:
  assumes "resolves keep t (if absolute l then [] else cur) (segs l @ xs) out" "plain_seg x"
    "lookup t (cur @ [x]) = Some (Lnk l)"
  shows "resolves keep t cur (x # xs) out"
  using resolves_link assms by blast

definition wf_tree :: "tree \<Rightarrow> bool" where
  "wf_tree t = (\<forall>(p, n) \<in> set t. n \<noteq> Lnk [])"

lemma wf_tree_lookup: "wf_tree t \<Longrightarrow> lookup t p = Some (Lnk l) \<Longrightarrow> l \<noteq> []"
  by (auto simp: wf_tree_def lookup_def split: if_splits dest: map_of_SomeD)

lemma sim_follow:
  assumes G: "path_builder (g_build_filename G)" and wf: "wf_tree t"
    and s: "sim keep t goal st xs w" and e: "plain_seg e"
    and seg: "rest_segs st = e # (case rest of None \<Rightarrow> [] | Some r \<Rightarrow> segs r)"
    and l: "lookup t (xs @ [e]) = Some (Lnk l)"
    and new: "new_fd (xs @ [e]) w = (m, w1)"
    and run: "run_state (resolve_follow G mem_kernel st (int m) l rest) w1 = (r, w')"
  shows "\<exists>st'. r = Again st' \<and> sim keep t goal st' (if absolute l then [] else xs) w'"
proof -
  let ?rs = "case rest of None \<Rightarrow> [] | Some r \<Rightarrow> segs r"
  let ?new = "g_build_filename G (case rest of None \<Rightarrow> [l] | Some r \<Rightarrow> [l, r])"
  let ?xs = "if absolute l then [] else xs"
  have "l \<noteq> []" using wf_tree_lookup [OF wf l] .
  then have segs: "segs ?new = segs l @ ?rs"
    using path_builder.segs_build1 [OF G] path_builder.segs_build2 [OF G] by (auto split: option.split)
  have s': "tree w = t" "fd_ok w" "distinct (fds st)" "list_all safe_elem xs" "current_path st = join_segs xs"
    "map (fd_path w) (fds st) = map Some (prefixes xs)"
    "\<And>out. resolves keep t xs (rest_segs st) out \<Longrightarrow> resolves keep t [] goal out"
    using s by (auto simp: sim_def)
  note nf = new_fd_facts [OF new s'(2)]
  note keep_fds = sim_new_fd [OF s new]
  have cont: "resolves keep t [] goal out" if "resolves keep t ?xs (segs ?new) out" for out
    using resolves_path_cont [OF that [unfolded segs] e l] s'(7) seg by simp
  have close: "sys_close mem_kernel (int m) = State (\<lambda>w. ((), mem_close (int m) w))"
    by (simp add: mem_kernel_def)
  have post: "sim keep t goal (st\<lparr> current_path := c, fds := ys, remaining := Some ?new \<rparr>) ?xs (mem_close (int m) w2)"
    if "c = join_segs ?xs" "distinct ys" "int m \<notin> set ys" "fd_ok w2" "tree w2 = t"
      "map (fd_path w2) ys = map Some (prefixes ?xs)" for c ys w2
  proof -
    have "map (fd_path (mem_close (int m) w2)) ys = map (fd_path w2) ys"
      using that(3) by (auto simp: mem_close_facts)
    then show ?thesis using that s'(4) cont
      by (auto simp: sim_def rest_segs_def mem_close_facts)
  qed
  show ?thesis
  proof (cases "absolute l")
    case True
    then obtain ys w2 where ys: "run_state (fd_array_set_size mem_kernel 1 (fds st)) w1 = (ys, w2)"
      and r: "r = Again (st\<lparr> current_path := [], fds := ys, remaining := Some ?new \<rparr>)"
      "w' = mem_close (int m) w2"
      using run by (auto simp: resolve_follow_def absolute_def close split: prod.splits)
    note f = mem_set_size [OF ys nf(1) s'(3)]
    have m: "map (fd_path w2) ys = map Some (prefixes [])"
    proof -
      have "map (fd_path w2) ys = take 1 (map (fd_path w1) (fds st))" using f by (simp add: take_map)
      also have "\<dots> = [Some []]" by (cases xs) (simp_all add: keep_fds take_map)
      finally show ?thesis by simp
    qed
    have "sim keep t goal (st\<lparr> current_path := [], fds := ys, remaining := Some ?new \<rparr>) ?xs w'"
      unfolding r(2) by (rule post)
        (use True f nf m s' keep_fds(2) in \<open>auto dest: in_set_takeD\<close>)
    then show ?thesis using r by blast
  next
    case False
    then have r: "r = Again (st\<lparr> remaining := Some ?new \<rparr>)" "w' = mem_close (int m) w1"
      using run by (auto simp: resolve_follow_def absolute_def close)
    have "sim keep t goal (st\<lparr> current_path := current_path st, fds := fds st, remaining := Some ?new \<rparr>) ?xs w'"
      unfolding r(2) by (rule post) (use False nf s' keep_fds in auto)
    then show ?thesis using r by simp
  qed
qed

lemma sim_enter:
  assumes s: "sim keep t goal st xs w" and e: "safe_elem e"
    and seg: "rest_segs st = e # (case rest of None \<Rightarrow> [] | Some r \<Rightarrow> segs r)"
    and n: "lookup t (xs @ [e]) = Some n"
    and link: "(\<exists>l. n = Lnk l) \<Longrightarrow> keep \<and> rest = None"
    and new: "new_fd (xs @ [e]) w = (m, w1)"
    and run: "run_state (resolve_enter mem_kernel flags st (int m) e rest) w1 = (r, w')"
  shows "(\<exists>er. r = Failed er) \<or> (\<exists>st'. r = Again st' \<and> sim keep t goal st' (xs @ [e]) w')"
proof -
  let ?rs = "case rest of None \<Rightarrow> [] | Some r \<Rightarrow> segs r"
  let ?st = "st\<lparr> current_path := (if current_path st \<noteq> [] then current_path st @ ''/'' else []) @ e,
          fds := fds st @ [int m], remaining := rest \<rparr>"
  have s': "tree w = t" "fd_ok w" "distinct (fds st)" "list_all safe_elem xs" "current_path st = join_segs xs"
    "map (fd_path w) (fds st) = map Some (prefixes xs)"
    "\<And>out. resolves keep t xs (rest_segs st) out \<Longrightarrow> resolves keep t [] goal out"
    using s by (auto simp: sim_def)
  note nf = new_fd_facts [OF new s'(2)]
  obtain sb where sb: "run_state (glnx_fstatat mem_kernel (int m) [] {AT_EMPTY_PATH}) w1 = (Inr sb, w1)"
    "S_ISDIR (st_mode sb) = (n = Dir)"
    using mem_fstatat_fd [OF nf(3), of n] n s'(1) nf(2) by auto
  show ?thesis
  proof (cases "(MUST_BE_DIRECTORY \<in> flags \<or> rest \<noteq> None) \<and> n \<noteq> Dir")
    case True
    then have "run_state (resolve_enter mem_kernel flags st (int m) e rest) w1 =
        run_state (fail_with mem_kernel (int m # fds st) (G_IO_ERROR IO_NOT_DIRECTORY)) w1"
      by (simp add: resolve_enter_def sb)
    then show ?thesis using run by (auto simp: fail_with_def split: prod.splits)
  next
    case False
    then have r: "r = Again ?st" "w' = w1"
      using run by (auto simp: resolve_enter_def sb split: if_splits)
    note keep_fds = sim_new_fd [OF s new]
    have cp: "current_path ?st = join_segs (xs @ [e])"
      using walk_enter_path [OF safe_elem_seg_ok [OF s'(4)] s'(5)] by simp
    have plain: "plain_seg e" using e by (simp add: safe_elem_def)
    have "resolves keep t [] goal out" if h: "resolves keep t (xs @ [e]) ?rs out" for out
    proof (cases "\<exists>l. n = Lnk l")
      case True
      then show ?thesis using link h s'(7) [of out] seg resolves_keep [of keep e t xs] plain n
        by (auto simp: resolves_nil_iff)
    next
      case no_link: False
      have "?rs \<noteq> [] \<longrightarrow> n = Dir" using False by (cases rest) auto
      then have "resolves keep t xs (e # ?rs) out"
        using resolves_enter [OF plain n _ _ h] no_link by blast
      then show ?thesis using s'(7) seg by simp
    qed
    then have "sim keep t goal ?st (xs @ [e]) w1"
      using cp s' nf keep_fds e by (simp add: sim_def prefixes_snoc rest_segs_def)
    then show ?thesis using r by blast
  qed
qed


lemma mem_resolve_open:
  assumes "MKDIR_P \<notin> flags" "fd_path w d = Some p" "safe_elem e"
    "run_state (resolve_open mem_kernel flags d e) w = (Inr fd, w')"
  obtains n m where "lookup (tree w) (p @ [e]) = Some n" "new_fd (p @ [e]) w = (m, w')" "fd = int m"
proof -
  have "run_state (k_openat mem_kernel d e resolve_open_flags) w = (Inr fd, w')"
    using assms(1,4) by (auto simp: resolve_open_def split: prod.splits sum.splits)
  moreover have "CHR ''/'' \<notin> set e" using assms(3) by (simp add: safe_elem_def seg_ok_def)
  moreover have "O_DIRECTORY \<notin> resolve_open_flags" by (simp add: resolve_open_flags_def)
  ultimately show ?thesis using that mem_openat_elem [OF assms(2)] by metis
qed

lemma sim_step:
  assumes G: "path_builder (g_build_filename G)" and wf: "wf_tree t" and mk: "MKDIR_P \<notin> flags"
    and s: "sim (KEEP_FINAL_SYMLINK \<in> flags) t goal st xs w"
    and run: "run_state (resolve_step G mem_kernel flags st) w = (r, w')"
  shows "case r of
      Again st' \<Rightarrow> \<exists>ys. sim (KEEP_FINAL_SYMLINK \<in> flags) t goal st' ys w'
    | Done st' \<Rightarrow> sim (KEEP_FINAL_SYMLINK \<in> flags) t goal st' xs w' \<and> rest_segs st' = []
    | Failed e \<Rightarrow> True"
proof (cases "remaining st")
  case None
  then show ?thesis using run s by (auto simp: resolve_step_def rest_segs_def)
next
  case (Some r0)
  let ?k = "KEEP_FINAL_SYMLINK \<in> flags" and ?r = "dropWhile is_slash r0"
  obtain e rest where e: "split_next ?r = (e, rest)" by (cases "split_next ?r")
  let ?rs = "case rest of None \<Rightarrow> [] | Some r' \<Rightarrow> segs r'"
  note step = resolve_step_def Some option.case Let_def e prod.case
  show ?thesis
  proof (cases "?r = []")
    case True
    then have "r = Done st" "w' = w" using run unfolding step if_P [OF True] by auto
    then show ?thesis using s segs_drop_Nil [OF True] by (simp add: rest_segs_def Some)
  next
    case False
    then have h: "hd ?r \<noteq> CHR ''/''" using drop_slashes_hd by blast
    have ok: "seg_ok e" using split_next_elem [OF False h e] .
    have seg: "rest_segs st = e # ?rs" using split_next_segs(1) [OF e False h] by (simp add: rest_segs_def Some)
    have rs: "rest_segs (st\<lparr> remaining := rest \<rparr>) = ?rs" by (simp add: rest_segs_def)
    consider (dot) "e = ''.''" | (up) "e = ''..''" | (plain) "plain_seg e" by (auto simp: plain_seg_def)
    then show ?thesis
    proof cases
      case dot
      then have r: "r = Again (st\<lparr> remaining := rest \<rparr>)" "w' = w"
        using run unfolding step if_not_P [OF False] by auto
      have "sim ?k t goal (st\<lparr> remaining := rest \<rparr>) xs w"
        using s resolves_dot [of ?k t xs ?rs] by (auto simp: sim_def rs seg dot)
      then show ?thesis using r by auto
    next
      case up
      then have "run_state (resolve_parent mem_kernel st rest) w = (r, w')"
        using run unfolding step if_not_P [OF False] by auto
      then show ?thesis using sim_parent [OF s, of rest r w'] seg rs up by auto
    next
      case plain
      then have ne: "e \<noteq> ''.''" "e \<noteq> ''..''" and safe: "safe_elem e" using ok by (auto simp: plain_seg_def safe_elem_def)
      note run' = run [unfolded step if_not_P [OF False] if_not_P [OF ne(1)] if_not_P [OF ne(2)]]
      obtain o' w1 where o': "run_state (resolve_open mem_kernel flags (last (fds st)) e) w = (o', w1)"
        by (cases "run_state (resolve_open mem_kernel flags (last (fds st)) e) w")
      show ?thesis
      proof (cases o')
        case (Inl er)
        then show ?thesis using run' by (auto simp: o' fail_with_def split: prod.splits)
      next
        case (Inr fd)
        obtain n m where n: "lookup (tree w) (xs @ [e]) = Some n" and new: "new_fd (xs @ [e]) w = (m, w1)"
          and fd: "fd = int m"
          using mem_resolve_open [OF mk _ safe o' [unfolded Inr]] sim_last [OF s] by metis
        have t: "tree w = t" "fd_ok w" using s by (auto simp: sim_def)
        note nf = new_fd_facts [OF new t(2)]
        have rl: "run_state (glnx_readlinkat_malloc mem_kernel (int m) []) w1 =
            (case n of Lnk t \<Rightarrow> Inr t | _ \<Rightarrow> Inl (throw_errno EINVAL), w1)"
          using mem_readlinkat_fd [OF nf(3)] n nf(2) by simp
        note ent = sim_enter [OF s safe seg n [unfolded t(1)] _ new]
        show ?thesis
        proof (cases "\<exists>l. n = Lnk l")
          case True
          then obtain l where l: "n = Lnk l" by blast
          consider (rej) "REJECT_SYMLINKS \<in> flags" | (keep) "REJECT_SYMLINKS \<notin> flags" "?k" "rest = None"
            | (follow) "REJECT_SYMLINKS \<notin> flags" "\<not> (?k \<and> rest = None)" by blast
          then show ?thesis
          proof cases
            case rej
            then show ?thesis using run' by (auto simp: o' Inr fd rl l fail_with_def split: prod.splits)
          next
            case keep
            then have "run_state (resolve_enter mem_kernel flags st (int m) e rest) w1 = (r, w')"
              using run' by (simp add: o' Inr fd rl l)
            then show ?thesis using ent [of flags r w'] keep by auto
          next
            case follow
            then have "run_state (resolve_follow G mem_kernel st (int m) l rest) w1 = (r, w')"
              using run' by (auto simp: o' Inr fd rl l)
            then show ?thesis using sim_follow [OF G wf s plain seg _ new] n l t(1) by fastforce
          qed
        next
          case False
          then have "run_state (resolve_enter mem_kernel flags st (int m) e rest) w1 = (r, w')"
            using run' by (cases n) (simp_all add: o' Inr fd rl)
          then show ?thesis using ent [of flags r w'] False by auto
        qed
      qed
    qed
  qed
qed

lemma sim_loop:
  assumes G: "path_builder (g_build_filename G)" and wf: "wf_tree t" and mk: "MKDIR_P \<notin> flags"
  shows "sim (KEEP_FINAL_SYMLINK \<in> flags) t goal st xs w \<Longrightarrow>
    run_state (resolve_loop n G mem_kernel flags st) w = (Some (Inr st'), w') \<Longrightarrow>
    \<exists>ys. sim (KEEP_FINAL_SYMLINK \<in> flags) t goal st' ys w' \<and> rest_segs st' = []"
proof (induction n arbitrary: st xs w)
  case (Suc n)
  obtain r w1 where r: "run_state (resolve_step G mem_kernel flags st) w = (r, w1)"
    by (cases "run_state (resolve_step G mem_kernel flags st) w")
  show ?case using sim_step [OF G wf mk Suc.prems(1) r] Suc.prems(2) Suc.IH
    by (cases r) (auto simp: r)
qed simp


section \<open>Reopening through \<open>/proc\<close>\<close>

lemma proc_self_fd_inj: "proc_self_fd (int m) = proc_self_fd (int n) \<Longrightarrow> m = n"
proof -
  assume "proc_self_fd (int m) = proc_self_fd (int n)"
  then have "print_nat 10 m = print_nat 10 n" by (simp add: proc_self_fd_def decimal_def)
  then have "digits_value 10 (print_nat 10 m) = digits_value 10 (print_nat 10 n)" by simp
  then show "m = n" by (simp add: print_nat_value)
qed

lemma proc_path_fd: "fd_path w (int n) = Some p \<Longrightarrow> proc_path w (proc_self_fd (int n)) = Some p"
proof -
  assume "fd_path w (int n) = Some p"
  then have "map_of (table w) n = Some p" by (simp add: fd_path_def)
  moreover have "map_of xs n = map_option snd (find (\<lambda>(k, q). proc_self_fd (int k) = proc_self_fd (int n)) xs)" for xs :: "(nat \<times> string list) list"
    by (induction xs) (auto dest: proc_self_fd_inj)
  ultimately show ?thesis by (simp add: proc_path_def)
qed

lemma mem_reopen:
  assumes "fd_path w (int k) = Some p" "run_state (k_openat mem_kernel d (proc_self_fd (int k)) fl) w = (Inr fd, w')"
  obtains m where "new_fd p w = (m, w')" "fd = int m"
  using assms
  by (auto simp: k_openat_def mem_kernel_def mem_open_def proc_path_fd
      split: option.splits if_splits prod.splits sum.splits)

lemma mem_resolve_checks:
  "run_state (resolve_checks mem_kernel flags fd) w = (r, w') \<Longrightarrow> w' = w"
  by (auto simp: resolve_checks_def check_fd_is_regular_file_def glnx_fstatat_def mem_kernel_def mem_stat_def
      split: if_splits sum.splits)

lemma sim_finish:
  assumes s: "sim keep t goal st xs w" and fin: "rest_segs st = []"
    and run: "run_state (resolve_finish mem_kernel flags st) w = (Inr (fd, p), w')"
  shows "resolves keep t [] goal xs" "p = result_path flags (join_segs xs)" "fd_path w' fd = Some xs" "tree w' = t"
proof -
  have s': "tree w = t" "fd_ok w" "distinct (fds st)" "current_path st = join_segs xs"
    using s by (auto simp: sim_def)
  note l = sim_last [OF s]
  obtain k where k: "last (fds st) = int k" using l by (metis fd_path_bound int_nat_eq s'(2))
  show "resolves keep t [] goal xs" using s fin by (auto simp: sim_def intro: resolves_nil)
  obtain c w1 where c: "run_state (resolve_checks mem_kernel flags (last (fds st))) w = (c, w1)"
    by (cases "run_state (resolve_checks mem_kernel flags (last (fds st))) w")
  then have w1: "w1 = w" by (rule mem_resolve_checks)
  obtain u where c': "c = Inr u" using run by (cases c) (auto simp: resolve_finish_def Let_def c split: prod.splits)
  show "p = result_path flags (join_segs xs)"
    using run by (auto simp: resolve_finish_def Let_def c c' s'(4) split: if_splits prod.splits sum.splits)
  show "fd_path w' fd = Some xs" "tree w' = t"
  proof -
    have "fd_path w' fd = Some xs \<and> tree w' = t"
    proof (cases "READABLE \<in> flags")
      case True
      let ?re = "if MUST_BE_DIRECTORY \<in> flags
             then glnx_opendirat mem_kernel (- 1) (proc_self_fd (last (fds st))) True
             else glnx_openat_rdonly mem_kernel (- 1) (proc_self_fd (last (fds st))) True"
      obtain o' w2 where re: "run_state ?re w = (o', w2)" by (cases "run_state ?re w")
      obtain u2 where cl: "run_state (close_fds mem_kernel (fds st)) w2 = (u2, w')" and o': "o' = Inr fd"
        using run True by (auto simp: resolve_finish_def Let_def c c' w1 re split: prod.splits sum.splits)
      obtain m where new: "new_fd xs w = (m, w2)" and fd: "fd = int m"
      proof -
        have "fd_path w (int k) = Some xs" using l k by simp
        moreover obtain d fl where "run_state (k_openat mem_kernel d (proc_self_fd (int k)) fl) w = (Inr fd, w2)"
          using re unfolding k o' by (auto simp: glnx_opendirat_def glnx_openat_rdonly_def split: if_splits prod.splits sum.splits)
        ultimately show ?thesis using mem_reopen that by metis
      qed
      note nf = new_fd_facts [OF new s'(2)] and nd = sim_new_fd(2) [OF s new]
      show ?thesis using mem_close_fds [OF cl nf(1)] nf nd s'(1) by (simp add: fd)
    next
      case False
      obtain u2 where cl: "run_state (close_fds mem_kernel (butlast (fds st))) w = (u2, w')" and fd: "fd = last (fds st)"
        using run False by (auto simp: resolve_finish_def Let_def c c' w1 split: prod.splits)
      have "last (fds st) \<notin> set (butlast (fds st))" using s'(3) l
        by (metis append_butlast_last_id distinct_append distinct_length_2_or_more not_distinct_conv_prefix)
      then show ?thesis using mem_close_fds [OF cl s'(2)] l s'(1) by (simp add: fd)
    qed
    then show "fd_path w' fd = Some xs" "tree w' = t" by auto
  qed
qed

text \<open>C3: Functional correctness against the specification of resolution in a file tree. On a
  file system of directories, files and symbolic links, whenever \<open>_srt_resolve_in_sysroot\<close>
  succeeds (without \<open>MKDIR_P\<close>), the descriptor it returns is open on a path that resolves from
  the sysroot by the rules of \<open>resolves\<close> (links followed inside the sysroot, absolute targets from
  its root), the string it returns is exactly that path, and the tree is unchanged.\<close>

theorem srt_resolve_in_sysroot_refines:
  assumes "path_builder (g_build_filename G)" and "wf_tree (tree w)" and "fd_ok w"
    and "fd_path w sysroot = Some []" and "MKDIR_P \<notin> flags"
    and "run_state (srt_resolve_in_sysroot n G mem_kernel sysroot descendant flags) w = (Some (Inr (fd, p)), w')"
  shows "\<exists>out. resolves (KEEP_FINAL_SYMLINK \<in> flags) (tree w) [] (segs descendant) out \<and>
      p = result_path flags (join_segs out) \<and> fd_path w' fd = Some out \<and> tree w' = tree w"
proof -
  let ?k = "KEEP_FINAL_SYMLINK \<in> flags"
  obtain m w0 where new: "new_fd [] w = (m, w0)" by (cases "new_fd [] w")
  let ?st = "\<lparr> current_path = [], fds = [int m], remaining = Some descendant \<rparr>"
  have dup: "run_state (k_dupfd mem_kernel sysroot) w = (Inr (int m), w0)"
    using assms(4) new by (simp add: k_dupfd_def mem_kernel_def mem_dup_def)
  obtain st' w1 where loop: "run_state (resolve_loop n G mem_kernel flags ?st) w0 = (Some (Inr st'), w1)"
    and fin: "run_state (resolve_finish mem_kernel flags st') w1 = (Inr (fd, p), w')"
    using assms(5,6) by (auto simp: srt_resolve_in_sysroot_def dup split: if_splits prod.splits option.splits sum.splits)
  note nf = new_fd_facts [OF new assms(3)]
  have "sim ?k (tree w) (segs descendant) ?st [] w0"
    using nf by (simp add: sim_def rest_segs_def)
  then obtain ys where "sim ?k (tree w) (segs descendant) st' ys w1" "rest_segs st' = []"
    using sim_loop [OF assms(1,2,5) _ loop] by blast
  then show ?thesis using sim_finish [OF _ _ fin] by blast
qed

theorem srt_resolve_in_sysroot_refines_witness:
  "\<exists>out. resolves False (tree demo_world) [] (segs ''l/./../l//f'') out \<and>
     ''d/f'' = result_path {READABLE} (join_segs out) \<and>
     (\<exists>w'. fd_path w' 10 = Some out \<and> tree w' = tree demo_world)"
proof -
  let ?r = "run_state (srt_resolve_in_sysroot 20 glib_ref mem_kernel 3 ''l/./../l//f'' {READABLE}) demo_world"
  have "fst ?r = Some (Inr (10, ''d/f''))" by code_simp
  then have "?r = (Some (Inr (10, ''d/f'')), snd ?r)" by (metis prod.collapse)
  moreover have "wf_tree (tree demo_world)" "fd_ok demo_world" "fd_path demo_world 3 = Some []"
    by (simp_all add: demo_world_def wf_tree_def fd_ok_def fd_path_def)
  ultimately show ?thesis
    using srt_resolve_in_sysroot_refines [OF ref_paths.path_builder_axioms, where flags = "{READABLE}"]
    by fastforce
qed

section \<open>A link to itself\<close>

lemma self_link_step:
  assumes link: "safe_elem a" "lookup t [a] = Some (Lnk a)" "g_build_filename G [a] = a"
    and flags: "REJECT_SYMLINKS \<notin> flags" "KEEP_FINAL_SYMLINK \<notin> flags"
    and w: "tree w = t" "fd_ok w" "fd_path w f = Some []"
  shows "\<exists>w'. run_state (resolve_step G mem_kernel flags \<lparr> current_path = [], fds = [f], remaining = Some a \<rparr>) w =
      (Again \<lparr> current_path = [], fds = [f], remaining = Some a \<rparr>, w') \<and>
    tree w' = t \<and> fd_ok w' \<and> fd_path w' f = Some []"
proof -
  have a: "a \<noteq> []" "CHR ''/'' \<notin> set a" "a \<noteq> ''.''" "a \<noteq> ''..''"
    using link(1) by (auto simp: safe_elem_def seg_ok_def plain_seg_def)
  then have strip: "dropWhile is_slash a = a" and abs: "\<not> (a \<noteq> [] \<and> hd a = CHR ''/'')"
    by (cases a; auto)+
  have split: "split_next a = (a, None)" using a by (simp add: split_next_def strchr_None [THEN iffD2])
  obtain m w1 where new: "new_fd [a] w = (m, w1)" by (cases "new_fd [a] w")
  note nf = new_fd_facts [OF new w(2)]
  have op: "run_state (resolve_open mem_kernel flags f a) w = (Inr (int m), w1)"
    using w link new by (simp add: resolve_open_def k_openat_def mem_kernel_def mem_open_def
        proc_path_None [OF a(2)] entry_path_def resolve_open_flags_def lookup_def)
  have rl: "run_state (glnx_readlinkat_malloc mem_kernel (int m) []) w1 = (Inr a, w1)"
    using mem_readlinkat_fd [OF nf(3), of "Lnk a"] link nf(2) w(1) by simp
  have "run_state (resolve_step G mem_kernel flags \<lparr> current_path = [], fds = [f], remaining = Some a \<rparr>) w =
      (Again \<lparr> current_path = [], fds = [f], remaining = Some a \<rparr>, mem_close (int m) w1)"
    using a flags abs link(3) by (simp add: resolve_step_def strip split op rl resolve_follow_def)
      (simp add: mem_kernel_def)
  then show ?thesis using nf(1,2) nf(4) [OF w(3)] w mem_close_facts by simp
qed

lemma self_link_loop:
  assumes link: "safe_elem a" "lookup t [a] = Some (Lnk a)" "g_build_filename G [a] = a"
    and flags: "REJECT_SYMLINKS \<notin> flags" "KEEP_FINAL_SYMLINK \<notin> flags"
  shows "tree w = t \<Longrightarrow> fd_ok w \<Longrightarrow> fd_path w f = Some [] \<Longrightarrow>
    fst (run_state (resolve_loop n G mem_kernel flags \<lparr> current_path = [], fds = [f], remaining = Some a \<rparr>) w) = None"
proof (induction n arbitrary: w)
  case (Suc n)
  then obtain w' where "run_state (resolve_step G mem_kernel flags \<lparr> current_path = [], fds = [f], remaining = Some a \<rparr>) w =
      (Again \<lparr> current_path = [], fds = [f], remaining = Some a \<rparr>, w')"
    "tree w' = t" "fd_ok w'" "fd_path w' f = Some []"
    using self_link_step [OF assms] by blast
  then show ?case using Suc.IH by simp
qed simp

text \<open>C39: There is no limit on the number of links. If the path is a link whose target is its own
  name, \<open>_srt_resolve_in_sysroot\<close> (without \<open>REJECT_SYMLINKS\<close> and \<open>KEEP_FINAL_SYMLINK\<close>) never
  returns: no number of iterations is enough. The kernel would fail with \<open>ELOOP\<close>.\<close>

theorem srt_resolve_in_sysroot_self_link:
  assumes "safe_elem a" and "lookup (tree w) [a] = Some (Lnk a)" and "g_build_filename G [a] = a"
    and "REJECT_SYMLINKS \<notin> flags" and "KEEP_FINAL_SYMLINK \<notin> flags" and "MUST_BE_REGULAR \<notin> flags"
    and "fd_ok w" and "fd_path w sysroot = Some []" and "0 < sysroot"
  shows "fst (run_state (srt_resolve_in_sysroot n G mem_kernel sysroot a flags) w) = None"
proof -
  obtain m w0 where new: "new_fd [] w = (m, w0)" by (cases "new_fd [] w")
  have dup: "run_state (k_dupfd mem_kernel sysroot) w = (Inr (int m), w0)"
    using assms(8) new by (simp add: k_dupfd_def mem_kernel_def mem_dup_def)
  note nf = new_fd_facts [OF new assms(7)]
  have "fst (run_state (resolve_loop n G mem_kernel (effective_flags flags)
      \<lparr> current_path = [], fds = [int m], remaining = Some a \<rparr>) w0) = None"
    by (rule self_link_loop [OF assms(1) _ assms(3)]) (use assms nf in auto)
  then show ?thesis using assms(6,9)
    by (cases "MKDIR_P \<in> flags") (auto simp: srt_resolve_in_sysroot_def dup Let_def split: prod.splits)
qed

theorem srt_resolve_in_sysroot_self_link_witness:
  "\<forall>n. fst (run_state (srt_resolve_in_sysroot n glib_ref mem_kernel 3 ''loop'' {}) demo_world) = None"
proof
  fix n
  have "g_build_filename glib_ref [''loop''] = ''loop''" by code_simp
  moreover have "safe_elem ''loop''" "fd_ok demo_world" "fd_path demo_world 3 = Some []"
    "lookup (tree demo_world) [''loop''] = Some (Lnk ''loop'')"
    by (simp_all add: demo_world_def safe_elem_def seg_ok_def plain_seg_def fd_ok_def fd_path_def lookup_def)
  ultimately show "fst (run_state (srt_resolve_in_sysroot n glib_ref mem_kernel 3 ''loop'' {}) demo_world) = None"
    using srt_resolve_in_sysroot_self_link by simp
qed

end
