(* ===== verification/HashTable.thy ===== *)
theory HashTable imports Prelude "HOL-Library.AList" begin

text \<open>
  Hash tables with string keys. A \<open>GHashTable\<close> is the list of its bindings in an order that the
  code must not rely on, with at most one binding per key; replacing and removing keys are
  \<open>AList.update\<close> and \<open>AList.delete\<close>. What its clients rely on is the locale \<open>key_value_table\<close>.
  The iterators of steam-runtime-tools/utils.c that visit a table in the order of its keys are
  modelled with their state.
\<close>

section \<open>The interface\<close>

locale key_value_table =
  fixes valid :: "'t \<Rightarrow> bool"
    and lookup :: "'t \<Rightarrow> 'k::linorder \<Rightarrow> 'v option"
    and replace :: "'k \<Rightarrow> 'v \<Rightarrow> 't \<Rightarrow> 't"
    and remove :: "'k \<Rightarrow> 't \<Rightarrow> 't"
    and keys :: "'t \<Rightarrow> 'k list"
  assumes lookup_replace: "lookup (replace k v t) k' = (if k' = k then Some v else lookup t k')"
    and lookup_remove: "lookup (remove k t) k' = (if k' = k then None else lookup t k')"
    and valid_replace: "valid t \<Longrightarrow> valid (replace k v t)"
    and valid_remove: "valid t \<Longrightarrow> valid (remove k t)"
    and keys_dom: "valid t \<Longrightarrow> set (keys t) = dom (lookup t)"
    and keys_distinct: "valid t \<Longrightarrow> distinct (keys t)"
begin

text \<open>The bindings in the order of their keys.\<close>

definition items :: "'t \<Rightarrow> ('k \<times> 'v) list" where
  "items t = map (\<lambda>k. (k, the (lookup t k))) (sort (keys t))"

lemma map_fst_items: "map fst (items t) = sort (keys t)"
  by (simp add: items_def comp_def)

lemma distinct_items: "valid t \<Longrightarrow> distinct (map fst (items t))"
  by (simp add: map_fst_items keys_distinct)

lemma map_of_items: "valid t \<Longrightarrow> map_of (items t) = lookup t"
proof
  fix k
  assume v: "valid t"
  show "map_of (items t) k = lookup t k"
  proof (cases "lookup t k")
    case None
    then have "k \<notin> set (keys t)" using keys_dom [OF v] by auto
    then have "map_of (items t) k = None" by (simp add: map_of_eq_None_iff map_fst_items flip: set_map)
    then show ?thesis using None by simp
  next
    case (Some x)
    then have "k \<in> set (keys t)" using keys_dom [OF v] by auto
    then have "(k, x) \<in> set (items t)" using Some by (force simp: items_def)
    then show ?thesis using distinct_items [OF v] Some by simp
  qed
qed

text \<open>The sorted bindings do not depend on the order inside the table.\<close>

lemma items_eq: "valid t \<Longrightarrow> valid u \<Longrightarrow> lookup t = lookup u \<Longrightarrow> items t = items u"
proof -
  assume v: "valid t" "valid u" and eq: "lookup t = lookup u"
  have "set (keys t) = set (keys u)" using keys_dom v eq by simp
  then have "sort (keys t) = sort (keys u)"
    using keys_distinct v by (metis distinct_sort set_sort sorted_distinct_set_unique sorted_sort)
  then show ?thesis by (simp add: items_def eq)
qed

lemma sorted_items: "valid t \<Longrightarrow> sorted_wrt (<) (map fst (items t))"
  using keys_distinct by (simp add: map_fst_items strict_sorted_iff)

end

section \<open>The table\<close>

type_synonym ('k, 'v) hash_table = "('k \<times> 'v) list"

definition ht_valid :: "('k, 'v) hash_table \<Rightarrow> bool" where
  "ht_valid t = distinct (map fst t)"

definition ht_keys :: "('k, 'v) hash_table \<Rightarrow> 'k list" where
  "ht_keys t = map fst t"

interpretation ht: key_value_table ht_valid map_of AList.update AList.delete ht_keys
  by unfold_locales
     (auto simp: ht_valid_def ht_keys_def update_conv' delete_conv' distinct_update distinct_delete
        dom_map_of_conv_image_fst)

text \<open>\<open>g_hash_table_iter_remove\<close> for every key that satisfies a predicate.\<close>

definition ht_remove_if :: "('k \<Rightarrow> bool) \<Rightarrow> ('k, 'v) hash_table \<Rightarrow> ('k, 'v) hash_table" where
  "ht_remove_if p t = filter (\<lambda>(k, v). \<not> p k) t"

lemma map_of_remove_if: "map_of (ht_remove_if p t) k = (if p k then None else map_of t k)"
  by (induction t) (auto simp: ht_remove_if_def)

lemma ht_valid_remove_if: "ht_valid t \<Longrightarrow> ht_valid (ht_remove_if p t)"
  unfolding ht_valid_def ht_remove_if_def by (induction t) auto

section \<open>Iterators\<close>

record ('k, 'v) ht_iter =
  real_iter :: "('k \<times> 'v) list"       \<comment> \<open>the bindings the \<open>GHashTableIter\<close> has not visited yet\<close>
  it_table :: "('k, 'v) hash_table"
  sorted_keys :: "'k list option"
  sorted_next :: nat

definition srt_hash_table_iter_init :: "('k, 'v) hash_table \<Rightarrow> ('k, 'v) ht_iter" where
  "srt_hash_table_iter_init t = \<lparr> real_iter = t, it_table = [], sorted_keys = None, sorted_next = 0 \<rparr>"

text \<open>\<open>cmp\<close>: whether a comparison function is given. It is the order of the keys.\<close>

definition srt_hash_table_iter_init_sorted ::
    "('k::linorder, 'v) hash_table \<Rightarrow> bool \<Rightarrow> ('k, 'v) ht_iter" where
  "srt_hash_table_iter_init_sorted t cmp =
     (let it = (srt_hash_table_iter_init t)\<lparr> it_table := t \<rparr>
      in if cmp then it\<lparr> sorted_keys := Some (sort (ht_keys t)), sorted_next := 0 \<rparr> else it)"

text \<open>The key and value that are returned (a value that is absent would be a null pointer), or
  \<^const>\<open>None\<close> at the end.\<close>

definition srt_hash_table_iter_next ::
    "('k, 'v) ht_iter \<Rightarrow> ('k \<times> 'v option) option \<times> ('k, 'v) ht_iter" where
  "srt_hash_table_iter_next it =
     (case sorted_keys it of
        None \<Rightarrow> (case real_iter it of
            [] \<Rightarrow> (None, it)
          | (k, v) # rest \<Rightarrow> (Some (k, Some v), it\<lparr> real_iter := rest \<rparr>))
      | Some ks \<Rightarrow>
          if sorted_next it < length ks
          then (let k = ks ! sorted_next it
                in (Some (k, map_of (it_table it) k), it\<lparr> sorted_next := Suc (sorted_next it) \<rparr>))
          else (None, it))"

text \<open>A loop over the iterator, at most \<open>n\<close> times.\<close>

fun iter_collect :: "nat \<Rightarrow> ('k, 'v) ht_iter \<Rightarrow> ('k \<times> 'v option) list" where
  "iter_collect 0 it = []"
| "iter_collect (Suc n) it =
     (case srt_hash_table_iter_next it of
        (None, _) \<Rightarrow> []
      | (Some p, it') \<Rightarrow> p # iter_collect n it')"

lemma iter_collect_sorted:
  "sorted_keys it = Some ks \<Longrightarrow> it_table it = t \<Longrightarrow> length ks < n + sorted_next it \<Longrightarrow>
   iter_collect n it = map (\<lambda>k. (k, map_of t k)) (drop (sorted_next it) ks)"
proof (induction n arbitrary: it)
  case (Suc n)
  show ?case
  proof (cases "sorted_next it < length ks")
    case True
    then have "drop (sorted_next it) ks = ks ! sorted_next it # drop (Suc (sorted_next it)) ks"
      by (rule Cons_nth_drop_Suc [symmetric])
    then show ?thesis using Suc True by (simp add: srt_hash_table_iter_next_def Let_def)
  qed (use Suc.prems in \<open>simp add: srt_hash_table_iter_next_def\<close>)
qed simp

text \<open>Iterating over a hash table with \<open>_srt_hash_table_iter_init_sorted\<close> and
  \<open>_srt_hash_table_iter_next\<close> ends, and visits every binding exactly once, in strictly
  ascending order of the keys, whatever the order inside the table is.\<close>

theorem srt_hash_table_iter_sorted:
  assumes "ht_valid t" and "length t < n"
  shows "iter_collect n (srt_hash_table_iter_init_sorted t True) = map (\<lambda>(k, v). (k, Some v)) (ht.items t) \<and>
     map_of (ht.items t) = map_of t \<and> sorted_wrt (<) (map fst (ht.items t))"
proof -
  have "iter_collect n (srt_hash_table_iter_init_sorted t True) =
      map (\<lambda>k. (k, map_of t k)) (sort (ht_keys t))"
    using iter_collect_sorted [of "srt_hash_table_iter_init_sorted t True" "sort (ht_keys t)" t n] assms(2)
    by (simp add: srt_hash_table_iter_init_sorted_def Let_def srt_hash_table_iter_init_def ht_keys_def)
  moreover have "map_of t k = Some (the (map_of t k))" if "k \<in> set (ht_keys t)" for k
  proof -
    have "map_of t k \<noteq> None" using that by (simp add: map_of_eq_None_iff ht_keys_def)
    then show ?thesis by auto
  qed
  ultimately show ?thesis
    using ht.map_of_items [OF assms(1)] ht.sorted_items [OF assms(1)]
    by (simp add: ht.items_def)
qed

theorem srt_hash_table_iter_sorted_witness:
  "iter_collect 4 (srt_hash_table_iter_init_sorted [(''b'', 1::nat), (''ab'', 2), (''a'', 3)] True) =
     [(''a'', Some 3), (''ab'', Some 2), (''b'', Some 1)]"
proof -
  have "ht_valid [(''b'', 1::nat), (''ab'', 2), (''a'', 3)]" by (simp add: ht_valid_def)
  moreover have "ht.items [(''b'', 1::nat), (''ab'', 2), (''a'', 3)] = [(''a'', 3), (''ab'', 2), (''b'', 1)]"
    unfolding ht.items_def by code_simp
  ultimately show ?thesis using srt_hash_table_iter_sorted [of _ 4] by fastforce
qed

end
