(* ===== verification/Utils.thy ===== *)
theory Utils imports PathPrefix Kernel HashTable begin

text \<open>
  Helpers of steam-runtime-tools/utils.c: filtering \<open>LD_PRELOAD\<close>, the nicknames of enumerations,
  integers, booleans and byte suffixes in text, identifiers, escaping, and the search for the next
  executable of the same name.
\<close>

section \<open>LD_PRELOAD\<close>

definition preload_entries :: "string \<Rightarrow> string list" where
  "preload_entries s = g_strsplit_set s '':''"

fun g_strjoinv :: "string \<Rightarrow> string list \<Rightarrow> string" where
  "g_strjoinv sep [] = []"
| "g_strjoinv sep [x] = x"
| "g_strjoinv sep (x # y # ys) = x @ sep @ g_strjoinv sep (y # ys)"

definition srt_filter_gameoverlayrenderer :: "string \<Rightarrow> string" where
  "srt_filter_gameoverlayrenderer input =
     g_strjoinv '':'' (filter (\<lambda>e. \<not> g_str_has_suffix e ''/gameoverlayrenderer.so'') (preload_entries input))"

definition srt_filter_gameoverlayrenderer_from_envp :: "glib \<Rightarrow> string list \<Rightarrow> string list" where
  "srt_filter_gameoverlayrenderer_from_envp G envp =
     (case g_environ_getenv G envp ''LD_PRELOAD'' of
        None \<Rightarrow> envp
      | Some v \<Rightarrow> g_environ_setenv G envp ''LD_PRELOAD'' (srt_filter_gameoverlayrenderer v))"

section \<open>Enumerations and flags\<close>

record enum_value =
  ev_value :: int
  ev_nick :: string

definition srt_enum_value_to_nick :: "enum_value list \<Rightarrow> int \<Rightarrow> string option" where
  "srt_enum_value_to_nick cls value = map_option ev_nick (find (\<lambda>e. ev_value e = value) cls)"

definition srt_enum_from_nick :: "enum_value list \<Rightarrow> string \<Rightarrow> gerror + int" where
  "srt_enum_from_nick cls nick =
     (case find (\<lambda>e. ev_nick e = nick) cls of
        Some e \<Rightarrow> Inr (ev_value e)
      | None \<Rightarrow> Inl (G_IO_ERROR IO_FAILED))"

record flags_value =
  fv_value :: "32 word"
  fv_nick :: string

definition srt_add_flag_from_nick :: "flags_value list \<Rightarrow> string \<Rightarrow> 32 word \<Rightarrow> gerror + 32 word" where
  "srt_add_flag_from_nick cls nick value_out =
     (case find (\<lambda>e. fv_nick e = nick) cls of
        Some e \<Rightarrow> Inr (value_out OR fv_value e)
      | None \<Rightarrow> Inl (G_IO_ERROR IO_FAILED))"

section \<open>Text\<close>

definition srt_str_is_integer :: "string \<Rightarrow> bool" where
  "srt_str_is_integer str = (if str = [] then False else dropWhile g_ascii_isdigit str = [])"

fun identifier_tail :: "string \<Rightarrow> bool" where
  "identifier_tail [] = True"
| "identifier_tail (p # ps) = (if p \<noteq> CHR ''_'' \<and> \<not> g_ascii_isalnum p then False else identifier_tail ps)"

definition srt_is_identifier :: "string \<Rightarrow> bool" where
  "srt_is_identifier name =
     (case name of
        [] \<Rightarrow> False
      | c # cs \<Rightarrow> if c \<noteq> CHR ''_'' \<and> \<not> g_ascii_isalpha c then False else identifier_tail cs)"

text \<open>The result and, when the variable has a valid value, the new value of \<open>*result\<close>.\<close>

definition srt_environ_get_boolean :: "glib \<Rightarrow> string list \<Rightarrow> string \<Rightarrow> bool \<Rightarrow> (gerror + unit) \<times> bool" where
  "srt_environ_get_boolean G envp name result =
     (let v = g_environ_getenv G envp name in
      if v = Some ''1'' then (Inr (), True)
      else if v = Some '''' \<or> v = Some ''0'' then (Inr (), False)
      else if v \<noteq> None then (Inl G_OPTION_ERROR_BAD_VALUE, result)
      else (Inr (), result))"

definition srt_boolean_environment :: "glib \<Rightarrow> string list \<Rightarrow> string \<Rightarrow> bool \<Rightarrow> bool" where
  "srt_boolean_environment G envp name def = snd (srt_environ_get_boolean G envp name def)"

definition byte_suffixes :: "(string \<times> 32 word) list" where
  "byte_suffixes = [('''', 1), (''M'', 1024 * 1024), (''MiB'', 1024 * 1024), (''MB'', 1000 * 1000),
     (''K'', 1024), (''KiB'', 1024), (''kB'', 1000)]"

definition srt_byte_suffix_to_multiplier :: "string \<Rightarrow> int" where
  "srt_byte_suffix_to_multiplier s =
     (case map_of byte_suffixes (dropWhile (\<lambda>c. c = CHR '' '') s) of
        Some m \<Rightarrow> uint m
      | None \<Rightarrow> 0)"

text \<open>\<open>\<backslash>%03o\<close>.\<close>

definition octal3 :: "nat \<Rightarrow> string" where
  "octal3 n = [char_of (48 + n div 64), char_of (48 + n div 8 mod 8), char_of (48 + n mod 8)]"

definition plain_byte :: "char \<Rightarrow> bool" where
  "plain_byte c = (32 \<le> (of_char c :: nat) \<and> (of_char c :: nat) < 127 \<and> c \<noteq> CHR 0x22 \<and> c \<noteq> CHR 0x5C)"

fun string_append_escaped_len :: "string \<Rightarrow> string \<Rightarrow> string" where
  "string_append_escaped_len str [] = str"
| "string_append_escaped_len str (c # bytes) =
     string_append_escaped_len
       (if plain_byte c then str @ [c] else str @ CHR 0x5C # octal3 (of_char c)) bytes"

section \<open>Environment and files\<close>

definition srt_get_steam_app_id :: "(string \<Rightarrow> string option) \<Rightarrow> string option" where
  "srt_get_steam_app_id getenv =
     (case getenv ''STEAM_COMPAT_APP_ID'' of Some v \<Rightarrow> Some v | None \<Rightarrow> getenv ''SteamAppId'')"

definition srt_check_recursive_exec_guard :: "(string \<Rightarrow> string option) \<Rightarrow> gerror + unit" where
  "srt_check_recursive_exec_guard getenv =
     (if getenv ''SRT_RECURSIVE_EXEC_GUARD'' \<noteq> None then Inl (G_IO_ERROR IO_FAILED) else Inr ())"

definition g_strcmp0 :: "string option \<Rightarrow> string option \<Rightarrow> int" where
  "g_strcmp0 a b =
     (case (a, b) of
        (None, None) \<Rightarrow> 0
      | (None, Some _) \<Rightarrow> - 1
      | (Some _, None) \<Rightarrow> 1
      | (Some x, Some y) \<Rightarrow> if x < y then - 1 else if y < x then 1 else 0)"

definition srt_is_same_stat :: "stat \<Rightarrow> stat \<Rightarrow> bool" where
  "srt_is_same_stat a b = (st_dev a = st_dev b \<and> st_ino a = st_ino b)"

definition srt_fstatat_is_same_file :: "'w kernel \<Rightarrow> fd \<Rightarrow> string \<Rightarrow> fd \<Rightarrow> string \<Rightarrow> ('w, bool) state" where
  "srt_fstatat_is_same_file K afd a bfd b =
     (let afd = glnx_dirfd_canonicalize afd; bfd = glnx_dirfd_canonicalize bfd
      in if afd = bfd \<and> a = b then State_Monad.return True
         else do {
           ra \<leftarrow> sys_fstatat K afd a {AT_EMPTY_PATH};
           (case ra of
              Inl _ \<Rightarrow> State_Monad.return False
            | Inr sa \<Rightarrow> do {
                rb \<leftarrow> sys_fstatat K bfd b {AT_EMPTY_PATH};
                State_Monad.return (case rb of Inl _ \<Rightarrow> False | Inr sb \<Rightarrow> srt_is_same_stat sa sb) }) })"

definition srt_get_random_uuid :: "'w kernel \<Rightarrow> ('w, string) io" where
  "srt_get_random_uuid K = do {
     r \<leftarrow> sys_get_contents K ''/proc/sys/kernel/random/uuid'';
     State_Monad.return (case r of
         Inl e \<Rightarrow> Inl e
       | Inr s \<Rightarrow> (let s' = g_strchomp s
                  in if length s' \<noteq> 36 then Inl (G_IO_ERROR IO_FAILED) else Inr s')) }"

text \<open>Read until end of file, at most \<open>fuel\<close> times: the buffer, and whether it ended without an
  error.\<close>

definition LINE_MAX :: nat where "LINE_MAX = 2048"

fun srt_string_read_fd_until_eof :: "nat \<Rightarrow> 'w kernel \<Rightarrow> string \<Rightarrow> fd \<Rightarrow>
    ('w, (string \<times> (gerror + unit)) option) state" where
  "srt_string_read_fd_until_eof 0 K buf fd = State_Monad.return None"
| "srt_string_read_fd_until_eof (Suc n) K buf fd = do {
     r \<leftarrow> sys_read K fd LINE_MAX;
     (case r of
        Inl e \<Rightarrow> State_Monad.return (Some (buf, Inl (throw_errno e)))
      | Inr s \<Rightarrow> if s = [] then State_Monad.return (Some (buf, Inr ()))
                else srt_string_read_fd_until_eof n K (buf @ s) fd) }"

text \<open>The loop over the directories of the search path.\<close>

fun search_dirs :: "glib \<Rightarrow> 'w kernel \<Rightarrow> stat \<Rightarrow> string \<Rightarrow> string list \<Rightarrow> ('w, string) io" where
  "search_dirs G K self exe_name [] = State_Monad.return (Inl (G_IO_ERROR IO_NOT_FOUND))"
| "search_dirs G K self exe_name (d # ds) = do {
     resolved_dir \<leftarrow> sys_realpath K d;
     (case resolved_dir of
        Inl _ \<Rightarrow> search_dirs G K self exe_name ds
      | Inr rd \<Rightarrow> do {
          let candidate = g_build_filename G [rd, exe_name];
          st \<leftarrow> sys_fstatat K AT_FDCWD candidate {};
          (case st of
             Inl _ \<Rightarrow> search_dirs G K self exe_name ds
           | Inr cs \<Rightarrow>
               if srt_is_same_stat self cs then search_dirs G K self exe_name ds
               else do {
                 a \<leftarrow> sys_access K candidate {R_OK, X_OK};
                 (case a of
                    Inl _ \<Rightarrow> search_dirs G K self exe_name ds
                  | Inr _ \<Rightarrow> State_Monad.return (Inr candidate)) }) }) }"

definition srt_find_next_executable :: "glib \<Rightarrow> 'w kernel \<Rightarrow> string \<Rightarrow> string \<Rightarrow> ('w, string) io" where
  "srt_find_next_executable G K search_path exe_name =
     (if CHR ''/'' \<in> set exe_name then State_Monad.return (Inl PRECONDITION_FAILED)
      else do {
        self \<leftarrow> sys_fstatat K AT_FDCWD ''/proc/self/exe'' {};
        (case self of
           Inl e \<Rightarrow> State_Monad.return (Inl (throw_errno e))
         | Inr self_stat \<Rightarrow> search_dirs G K self_stat exe_name (g_strsplit_set search_path '':'')) })"

section \<open>Properties\<close>

lemma identifier_tail_iff: "identifier_tail s \<longleftrightarrow> list_all (\<lambda>c. c = CHR ''_'' \<or> g_ascii_isalnum c) s"
  by (induction s) auto

lemma srt_is_identifier_iff:
  "srt_is_identifier s \<longleftrightarrow> s \<noteq> [] \<and> \<not> g_ascii_isdigit (hd s) \<and> list_all (\<lambda>c. c = CHR ''_'' \<or> g_ascii_isalnum c) s"
  by (cases s) (auto simp: srt_is_identifier_def identifier_tail_iff g_ascii_isalnum_def g_ascii_isalpha_def g_ascii_isdigit_def
      less_eq_char_def)

text \<open>Joining and splitting.\<close>

lemma split_on_join:
  assumes "xs \<noteq> []" and "\<And>x y. x \<in> set xs \<Longrightarrow> y \<in> set x \<Longrightarrow> \<not> p y" and "p c"
  shows "split_on p (g_strjoinv [c] xs) = xs"
  using assms
proof (induction "[c]" xs rule: g_strjoinv.induct)
  case (2 x)
  then show ?case by (auto intro!: split_on_id)
next
  case (3 x y ys)
  have "split_on p (x @ c # g_strjoinv [c] (y # ys)) = x # split_on p (g_strjoinv [c] (y # ys))"
    by (rule split_on_append_delim) (use 3 in auto)
  moreover have "split_on p (g_strjoinv [c] (y # ys)) = y # ys"
    by (rule "3.hyps") (use 3 in auto)
  ultimately show ?case by simp
qed simp

text \<open>\<open>_srt_filter_gameoverlayrenderer\<close> keeps the entries of \<open>LD_PRELOAD\<close> that do not end in
  \<open>/gameoverlayrenderer.so\<close>, all of them, in order and unchanged (empty entries too); if none is
  left, the result is empty.\<close>

theorem srt_filter_gameoverlayrenderer_entries:
  "let kept = filter (\<lambda>e. \<not> g_str_has_suffix e ''/gameoverlayrenderer.so'') (preload_entries input);
       out = srt_filter_gameoverlayrenderer input
   in (if kept = [] \<or> kept = [[]] then out = [] else preload_entries out = kept) \<and>
      srt_filter_gameoverlayrenderer out = out"
proof -
  let ?bad = "\<lambda>e. \<not> g_str_has_suffix e ''/gameoverlayrenderer.so''"
  let ?kept = "filter ?bad (preload_entries input)" and ?out = "srt_filter_gameoverlayrenderer input"
  have nc: "CHR '':'' \<notin> set x" if "x \<in> set ?kept" for x
  proof
    assume c: "CHR '':'' \<in> set x"
    have "x \<in> set (split_on (\<lambda>c. c \<in> set '':'') input)" using that
      by (auto simp: preload_entries_def g_strsplit_set_def split: if_splits)
    then show False using split_on_no_delim c by fastforce
  qed
  have out: "?out = g_strjoinv '':'' ?kept" by (simp add: srt_filter_gameoverlayrenderer_def)
  show ?thesis
  proof (cases "?kept = [] \<or> ?kept = [[]]")
    case True
    then have "?out = []" unfolding out by auto
    then show ?thesis using True by (simp add: Let_def srt_filter_gameoverlayrenderer_def preload_entries_def g_strsplit_set_def)
  next
    case False
    have "?out \<noteq> []" using False unfolding out by (cases "('':'', ?kept)" rule: g_strjoinv.cases) auto
    moreover have "split_on (\<lambda>x. x = CHR '':'') ?out = ?kept"
      unfolding out by (rule split_on_join) (use False nc in \<open>auto simp del: set_filter\<close>)
    ultimately have e: "preload_entries ?out = ?kept" by (simp add: preload_entries_def g_strsplit_set_def)
    have "srt_filter_gameoverlayrenderer ?out = ?out"
      unfolding srt_filter_gameoverlayrenderer_def [of ?out] e by (simp add: out)
    then show ?thesis using e False unfolding Let_def by simp
  qed
qed

text \<open>The inverse of the escaping, for the round trip.\<close>

fun unescape :: "string \<Rightarrow> string option" where
  "unescape [] = Some []"
| "unescape (c # cs) =
     (if c \<noteq> CHR 0x5C then map_option (Cons c) (unescape cs)
      else (case cs of
          x # y # z # rest \<Rightarrow>
            map_option (Cons (char_of (64 * digit_value x + 8 * digit_value y + digit_value z))) (unescape rest)
        | _ \<Rightarrow> None))"

lemma escaped_append: "string_append_escaped_len str bytes = str @ string_append_escaped_len [] bytes"
proof (induction bytes arbitrary: str)
  case (Cons c bytes)
  show ?case
    unfolding string_append_escaped_len.simps
    by (subst (1 2) Cons.IH) simp
qed simp

lemma octal3_value: "n < 256 \<Longrightarrow> octal3 n = [x, y, z] \<Longrightarrow>
    64 * digit_value x + 8 * digit_value y + digit_value z = n"
proof -
  assume n: "n < 256" and o3: "octal3 n = [x, y, z]"
  have "n div 64 < 10" "n div 8 mod 8 < 10" "n mod 8 < 10" using n by auto
  then have "digit_value x = n div 64" "digit_value y = n div 8 mod 8" "digit_value z = n mod 8"
    using o3 by (auto simp: octal3_def digit_value_char)
  moreover have "n div 64 = n div 8 div 8" by (simp add: div_mult2_eq)
  moreover have "8 * (n div 8 div 8) + n div 8 mod 8 = n div 8" "8 * (n div 8) + n mod 8 = n" by simp_all
  ultimately show ?thesis by linarith
qed

lemma digit_char_printable:
  "(d::nat) < 8 \<Longrightarrow> 32 \<le> (of_char (char_of (48 + d) :: char) :: nat) \<and> (of_char (char_of (48 + d) :: char) :: nat) < 127 \<and>
    (char_of (48 + d) :: char) \<noteq> CHR 0x22"
proof -
  assume "d < 8"
  then consider "d = 0" | "d = 1" | "d = 2" | "d = 3" | "d = 4" | "d = 5" | "d = 6" | "d = 7" by linarith
  then show ?thesis by cases (simp_all add: char_of_def bit_0)
qed

text \<open>Escaping loses nothing: what \<open>string_append_escaped_len\<close> appends consists of printable
  ASCII characters without quotes, and decoding its octal escapes gives back the bytes, whatever
  the bytes are.\<close>

theorem string_append_escaped_len_roundtrip:
  "\<exists>esc. string_append_escaped_len str bytes = str @ esc \<and> unescape esc = Some bytes \<and>
     list_all (\<lambda>c. 32 \<le> (of_char c :: nat) \<and> (of_char c :: nat) < 127 \<and> c \<noteq> CHR 0x22) esc"
proof -
  let ?ok = "\<lambda>c. 32 \<le> (of_char c :: nat) \<and> (of_char c :: nat) < 127 \<and> c \<noteq> CHR 0x22"
  have "unescape (string_append_escaped_len [] bytes) = Some bytes \<and> list_all ?ok (string_append_escaped_len [] bytes)"
  proof (induction bytes)
    case (Cons c bytes)
    show ?case
    proof (cases "plain_byte c")
      case True
      then have "string_append_escaped_len [] (c # bytes) = c # string_append_escaped_len [] bytes"
        by (simp add: escaped_append [of "[c]"])
      then show ?thesis using Cons True by (simp add: plain_byte_def)
    next
      case False
      have n: "(of_char c :: nat) < 256" by simp
      obtain x y z where o3: "octal3 (of_char c) = [x, y, z]" by (simp add: octal3_def)
      have "string_append_escaped_len [] (c # bytes) = CHR 0x5C # x # y # z # string_append_escaped_len [] bytes"
        using False by (simp add: o3 escaped_append [of "[CHR 0x5C, x, y, z]"])
      moreover have "char_of (64 * digit_value x + 8 * digit_value y + digit_value z) = c"
        using octal3_value [OF n o3] by simp
      moreover have "(of_char c :: nat) div 64 < 8" "(of_char c :: nat) div 8 mod 8 < 8" "(of_char c :: nat) mod 8 < 8"
        using less_mult_imp_div_less [of "of_char c" 8 64] n by linarith+
      moreover from this have "list_all ?ok [x, y, z]"
        unfolding o3 [symmetric] octal3_def by (simp only: list.pred_inject digit_char_printable simp_thms)
      ultimately show ?thesis using Cons by simp
    qed
  qed simp
  then show ?thesis using escaped_append by blast
qed

end
