(* ===== verification/EnvOverlay.thy ===== *)
theory EnvOverlay imports Utils begin

text \<open>
  \<open>steam-runtime-tools/env-overlay.c\<close>: a set of changes to an environment block. The hash table
  maps a variable to a value, or to a null pointer to unset it; a variable that is not in the
  table is inherited. The lemmas show what applying an overlay does to every variable, that its
  serialized form reads back, and what the command line options accept.
\<close>

section \<open>The object\<close>

record env_overlay =
  refcount :: nat
  env_values :: "(string, string option) hash_table"

definition srt_env_overlay_new :: env_overlay where
  "srt_env_overlay_new = \<lparr> refcount = 1, env_values = [] \<rparr>"

definition srt_env_overlay_ref :: "env_overlay \<Rightarrow> env_overlay option" where
  "srt_env_overlay_ref self =
     (if \<not> refcount self > 0 then None else Some (self\<lparr> refcount := refcount self + 1 \<rparr>))"

text \<open>\<^const>\<open>None\<close>: the object is freed.\<close>

definition srt_env_overlay_unref :: "env_overlay \<Rightarrow> env_overlay option" where
  "srt_env_overlay_unref self =
     (if \<not> refcount self > 0 then Some self
      else (let n = refcount self - 1 in if n > 0 then Some (self\<lparr> refcount := n \<rparr>) else None))"

section \<open>Changing it\<close>

definition srt_env_overlay_take :: "env_overlay \<Rightarrow> string \<Rightarrow> string option \<Rightarrow> env_overlay" where
  "srt_env_overlay_take self var val = self\<lparr> env_values := AList.update var val (env_values self) \<rparr>"

definition srt_env_overlay_set :: "env_overlay \<Rightarrow> string \<Rightarrow> string option \<Rightarrow> env_overlay" where
  "srt_env_overlay_set self var val = srt_env_overlay_take self var val"

definition srt_env_overlay_inherit :: "env_overlay \<Rightarrow> string \<Rightarrow> env_overlay" where
  "srt_env_overlay_inherit self var = self\<lparr> env_values := AList.delete var (env_values self) \<rparr>"

definition srt_env_overlay_inherit_matching_pattern :: "glib \<Rightarrow> env_overlay \<Rightarrow> string \<Rightarrow> env_overlay" where
  "srt_env_overlay_inherit_matching_pattern G self pattern =
     self\<lparr> env_values := ht_remove_if (fnmatch G pattern) (env_values self) \<rparr>"

section \<open>Reading it\<close>

definition srt_env_overlay_get_vars :: "env_overlay \<Rightarrow> string list" where
  "srt_env_overlay_get_vars self = sort (ht_keys (env_values self))"

definition srt_env_overlay_contains :: "env_overlay \<Rightarrow> string \<Rightarrow> bool" where
  "srt_env_overlay_contains self var = (map_of (env_values self) var \<noteq> None)"

text \<open>\<open>g_hash_table_lookup\<close>: a null pointer for an absent key and for an unset variable.\<close>

definition srt_env_overlay_get :: "env_overlay \<Rightarrow> string \<Rightarrow> string option" where
  "srt_env_overlay_get self var = (case map_of (env_values self) var of None \<Rightarrow> None | Some v \<Rightarrow> v)"

section \<open>Command line options\<close>

definition valid_split :: "string list \<Rightarrow> bool" where
  "valid_split split = (split \<noteq> [] \<and> hd split \<noteq> [] \<and> length split \<ge> 2)"

definition srt_env_overlay_set_cli :: "env_overlay \<Rightarrow> string \<Rightarrow> gerror + env_overlay" where
  "srt_env_overlay_set_cli self value =
     (let split = g_strsplit2 value CHR ''='' in
      if \<not> valid_split split then Inl G_OPTION_ERROR_BAD_VALUE
      else Inr (srt_env_overlay_take self (split ! 0) (Some (split ! 1))))"

definition srt_env_overlay_unset_cli :: "env_overlay \<Rightarrow> string \<Rightarrow> gerror + env_overlay" where
  "srt_env_overlay_unset_cli self value =
     (if value = [] then Inl G_OPTION_ERROR_BAD_VALUE else Inr (srt_env_overlay_set self value None))"

definition srt_env_overlay_inherit_cli :: "env_overlay \<Rightarrow> string \<Rightarrow> gerror + env_overlay" where
  "srt_env_overlay_inherit_cli self value =
     (if value = [] then Inl G_OPTION_ERROR_BAD_VALUE else Inr (srt_env_overlay_inherit self value))"

definition srt_env_overlay_inherit_matching_pattern_cli :: "glib \<Rightarrow> env_overlay \<Rightarrow> string \<Rightarrow> gerror + env_overlay" where
  "srt_env_overlay_inherit_matching_pattern_cli G self value =
     Inr (srt_env_overlay_inherit_matching_pattern G self value)"

definition srt_env_overlay_pass_cli :: "glib \<Rightarrow> env_overlay \<Rightarrow> string \<Rightarrow> string list \<Rightarrow> gerror + env_overlay" where
  "srt_env_overlay_pass_cli G self value envp =
     Inr (srt_env_overlay_set self value (g_environ_getenv G envp value))"

fun pass_matching :: "glib \<Rightarrow> string \<Rightarrow> string list \<Rightarrow> env_overlay \<Rightarrow> env_overlay" where
  "pass_matching G pattern [] self = self"
| "pass_matching G pattern (e # es) self =
     (let split = g_strsplit2 e CHR ''='' in
      pass_matching G pattern es
        (if valid_split split \<and> fnmatch G pattern (split ! 0)
         then srt_env_overlay_take self (split ! 0) (Some (split ! 1)) else self))"

text \<open>\<open>envp\<close> may be a null pointer.\<close>

definition srt_env_overlay_pass_matching_pattern_cli ::
    "glib \<Rightarrow> env_overlay \<Rightarrow> string \<Rightarrow> string list option \<Rightarrow> gerror + env_overlay" where
  "srt_env_overlay_pass_matching_pattern_cli G self value envp =
     (case envp of None \<Rightarrow> Inr self | Some es \<Rightarrow> Inr (pass_matching G value es self))"

text \<open>
  Reading a block in \<open>env -0\<close> format. The result is the overlay as it is when the function
  returns, and whether it returns true: what was read before an error stays.
\<close>

definition NUL :: char where "NUL = CHR 0x00"

function parse_env0 :: "env_overlay \<Rightarrow> string \<Rightarrow> env_overlay \<times> (gerror + unit)" where
  "parse_env0 self p =
     (if p = [] then (self, Inr ())
      else (let item = takeWhile (\<lambda>c. c \<noteq> NUL) p in
        (case strchr item CHR ''='' of
           None \<Rightarrow> (self, Inl G_OPTION_ERROR_BAD_VALUE)
         | Some (var, val) \<Rightarrow>
             if var = [] then (self, Inl G_OPTION_ERROR_BAD_VALUE)
             else parse_env0 (srt_env_overlay_take self var (Some val)) (drop (Suc (length item)) p))))"
  by pat_completeness auto
termination
  by (relation "measure (length \<circ> snd)") auto

declare parse_env0.simps [simp del]

definition G_MAXINT :: "64 word" where "G_MAXINT = 0x7FFFFFFF"

definition srt_env_overlay_env_fd_cli :: "'w kernel \<Rightarrow> env_overlay \<Rightarrow> string \<Rightarrow>
    ('w, env_overlay \<times> (gerror + unit)) state" where
  "srt_env_overlay_env_fd_cli K self value =
     (let (fd, endptr) = strtoull value 10 in
      if endptr \<noteq> [] \<or> fd > G_MAXINT then State_Monad.return (self, Inl G_OPTION_ERROR_BAD_VALUE)
      else do {
        c \<leftarrow> sys_get_contents K (proc_self_fd (uint fd));
        (case c of
           Inl e \<Rightarrow> State_Monad.return (self, Inl e)
         | Inr env_block \<Rightarrow>
             (let (self', r) = parse_env0 self env_block in
              (case r of
                 Inl e \<Rightarrow> State_Monad.return (self', Inl e)
               | Inr u \<Rightarrow> do {
                   (if fd \<ge> 3 then sys_close K (uint fd) else State_Monad.return ());
                   State_Monad.return (self', Inr u) }))) })"

section \<open>Applying and serializing\<close>

fun apply_vars :: "glib \<Rightarrow> env_overlay \<Rightarrow> string list \<Rightarrow> string list \<Rightarrow> string list" where
  "apply_vars G self [] envp = envp"
| "apply_vars G self (v # vs) envp =
     apply_vars G self vs
       (case srt_env_overlay_get self v of
          Some value \<Rightarrow> g_environ_setenv G envp v value
        | None \<Rightarrow> g_environ_unsetenv G envp v)"

definition srt_env_overlay_apply :: "glib \<Rightarrow> env_overlay \<Rightarrow> string list \<Rightarrow> string list" where
  "srt_env_overlay_apply G self envp = apply_vars G self (srt_env_overlay_get_vars self) envp"

definition byte_array_append_env0 :: "string \<Rightarrow> string \<Rightarrow> string \<Rightarrow> string" where
  "byte_array_append_env0 arr var val = arr @ var @ ''='' @ val @ [NUL]"

fun to_env0_vars :: "env_overlay \<Rightarrow> string list \<Rightarrow> string \<Rightarrow> string" where
  "to_env0_vars self [] arr = arr"
| "to_env0_vars self (v # vs) arr =
     to_env0_vars self vs
       (case srt_env_overlay_get self v of
          Some value \<Rightarrow> byte_array_append_env0 arr v value
        | None \<Rightarrow> arr)"

definition srt_env_overlay_to_env0 :: "env_overlay \<Rightarrow> string" where
  "srt_env_overlay_to_env0 self = to_env0_vars self (srt_env_overlay_get_vars self) []"

fun to_shell_vars :: "glib \<Rightarrow> env_overlay \<Rightarrow> string list \<Rightarrow> string \<Rightarrow> string" where
  "to_shell_vars G self [] buf = buf"
| "to_shell_vars G self (name # vs) buf =
     to_shell_vars G self vs
       (if \<not> srt_is_identifier name then buf
        else (case srt_env_overlay_get self name of
            Some value \<Rightarrow> buf @ ''export '' @ name @ ''='' @ g_shell_quote G value @ [CHR 0x0A]
          | None \<Rightarrow> buf @ ''unset '' @ name @ [CHR 0x0A]))"

definition srt_env_overlay_to_shell :: "glib \<Rightarrow> env_overlay \<Rightarrow> string" where
  "srt_env_overlay_to_shell G self = to_shell_vars G self (srt_env_overlay_get_vars self) []"

section \<open>The option table\<close>

datatype env_option = Opt_env | Opt_env_fd | Opt_inherit_env | Opt_inherit_env_matching | Opt_unset_env

definition keep_on_error :: "env_overlay \<Rightarrow> gerror + env_overlay \<Rightarrow> env_overlay \<times> (gerror + unit)" where
  "keep_on_error self r = (case r of Inl e \<Rightarrow> (self, Inl e) | Inr self' \<Rightarrow> (self', Inr ()))"

definition env_option_cb :: "glib \<Rightarrow> 'w kernel \<Rightarrow> env_option \<Rightarrow> env_overlay \<Rightarrow> string \<Rightarrow>
    ('w, env_overlay \<times> (gerror + unit)) state" where
  "env_option_cb G K opt self value =
     (case opt of
        Opt_env \<Rightarrow> State_Monad.return (keep_on_error self (srt_env_overlay_set_cli self value))
      | Opt_env_fd \<Rightarrow> srt_env_overlay_env_fd_cli K self value
      | Opt_inherit_env \<Rightarrow> State_Monad.return (keep_on_error self (srt_env_overlay_inherit_cli self value))
      | Opt_inherit_env_matching \<Rightarrow>
          State_Monad.return (keep_on_error self (srt_env_overlay_inherit_matching_pattern_cli G self value))
      | Opt_unset_env \<Rightarrow> State_Monad.return (keep_on_error self (srt_env_overlay_unset_cli self value)))"

section \<open>Lemmas\<close>

abbreviation overlay_valid :: "env_overlay \<Rightarrow> bool" where
  "overlay_valid self \<equiv> ht_valid (env_values self)"

abbreviation overlay_map :: "env_overlay \<Rightarrow> string \<Rightarrow> string option option" where
  "overlay_map self \<equiv> map_of (env_values self)"

lemma take_map [simp]: "overlay_map (srt_env_overlay_take self v x) w = (if w = v then Some x else overlay_map self w)"
  by (simp add: srt_env_overlay_take_def ht.lookup_replace)

lemma take_valid [simp]: "overlay_valid self \<Longrightarrow> overlay_valid (srt_env_overlay_take self v x)"
  by (simp add: srt_env_overlay_take_def ht.valid_replace)

lemma get_vars_items: "overlay_valid self \<Longrightarrow>
    map (\<lambda>v. (v, srt_env_overlay_get self v)) (srt_env_overlay_get_vars self) = ht.items (env_values self)"
proof -
  assume v: "overlay_valid self"
  have "srt_env_overlay_get self k = the (overlay_map self k)" if "k \<in> set (ht_keys (env_values self))" for k
    using that ht.keys_dom [OF v] by (auto simp: srt_env_overlay_get_def)
  then show ?thesis unfolding srt_env_overlay_get_vars_def ht.items_def by simp
qed

lemma get_vars_set: "overlay_valid self \<Longrightarrow> set (srt_env_overlay_get_vars self) = dom (overlay_map self)"
  using ht.keys_dom by (simp add: srt_env_overlay_get_vars_def)

lemma apply_vars_updates:
  assumes "environ_block (g_environ_getenv G) (g_environ_setenv G) (g_environ_unsetenv G)"
  shows "apply_vars G self vs envp =
    foldl (environ_block.update1 (g_environ_setenv G) (g_environ_unsetenv G)) envp
      (map (\<lambda>v. (v, srt_env_overlay_get self v)) vs)"
  by (induction vs arbitrary: envp) (simp_all add: environ_block.update1_def [OF assms] split: option.split)

text \<open>C5: What applying an overlay means: in the resulting environment block every variable has
  the value the overlay sets, is absent where the overlay unsets it, and is inherited from the
  block otherwise, whatever the order of the hash table. (The names must be non-empty and without
  \<open>=\<close>, and \<open>g_environ_setenv\<close> and \<open>g_environ_unsetenv\<close> must do what GLib documents.)\<close>

theorem srt_env_overlay_apply_getenv:
  assumes "environ_block (g_environ_getenv G) (g_environ_setenv G) (g_environ_unsetenv G)"
    and "ht_valid (env_values self)" and "\<forall>v \<in> set (srt_env_overlay_get_vars self). env_name_ok v"
    and "env_name_ok w"
  shows "g_environ_getenv G (srt_env_overlay_apply G self envp) w =
    (case map_of (env_values self) w of Some val \<Rightarrow> val | None \<Rightarrow> g_environ_getenv G envp w)"
proof -
  have names: "map fst (ht.items (env_values self)) = srt_env_overlay_get_vars self"
    by (simp add: ht.map_fst_items srt_env_overlay_get_vars_def)
  have "g_environ_getenv G (srt_env_overlay_apply G self envp) w =
      (case map_of (ht.items (env_values self)) w of Some o' \<Rightarrow> o' | None \<Rightarrow> g_environ_getenv G envp w)"
    unfolding srt_env_overlay_apply_def apply_vars_updates [OF assms(1)] get_vars_items [OF assms(2)]
    by (rule environ_block.get_updates [OF assms(1) ht.distinct_items [OF assms(2)] _ assms(4)])
       (use assms(3) in \<open>simp add: names\<close>)
  then show ?thesis by (simp add: ht.map_of_items [OF assms(2)])
qed

definition demo_overlay :: env_overlay where
  "demo_overlay = \<lparr> refcount = 1, env_values = [(''B'', None), (''A'', Some ''new''), (''A2'', Some [])] \<rparr>"

theorem srt_env_overlay_apply_getenv_witness:
  "g_environ_getenv glib_ref (srt_env_overlay_apply glib_ref demo_overlay [''A=old'', ''B=b'', ''C=c'']) ''A'' = Some ''new'' \<and>
   g_environ_getenv glib_ref (srt_env_overlay_apply glib_ref demo_overlay [''A=old'', ''B=b'', ''C=c'']) ''B'' = None \<and>
   g_environ_getenv glib_ref (srt_env_overlay_apply glib_ref demo_overlay [''A=old'', ''B=b'', ''C=c'']) ''C'' = Some ''c''"
proof -
  have valid: "ht_valid (env_values demo_overlay)" by (simp add: demo_overlay_def ht_valid_def)
  have names: "\<forall>v \<in> set (srt_env_overlay_get_vars demo_overlay). env_name_ok v"
    by (simp add: srt_env_overlay_get_vars_def demo_overlay_def ht_keys_def env_name_ok_def)
  note inst = srt_env_overlay_apply_getenv [OF ref_env.environ_block_axioms valid names]
  have "g_environ_getenv glib_ref [''A=old'', ''B=b'', ''C=c''] ''C'' = Some ''c''" by code_simp
  then show ?thesis
    using inst [of "''A''"] inst [of "''B''"] inst [of "''C''"] by (simp add: demo_overlay_def env_name_ok_def)
qed

section \<open>The serialized form\<close>

definition env0_name_ok :: "string \<Rightarrow> bool" where
  "env0_name_ok v = (env_name_ok v \<and> NUL \<notin> set v)"

fun take_all :: "env_overlay \<Rightarrow> (string \<times> string) list \<Rightarrow> env_overlay" where
  "take_all self [] = self"
| "take_all self ((v, x) # ps) = take_all (srt_env_overlay_take self v (Some x)) ps"

definition env0_items :: "(string \<times> string) list \<Rightarrow> string" where
  "env0_items ps = concat (map (\<lambda>(v, x). v @ ''='' @ x @ [NUL]) ps)"

lemma parse_env0_item:
  assumes "env0_name_ok v" "NUL \<notin> set x"
  shows "parse_env0 self (v @ ''='' @ x @ NUL # rest) = parse_env0 (srt_env_overlay_take self v (Some x)) rest"
proof -
  have nul: "NUL \<notin> set (v @ ''='' @ x)" using assms by (simp add: env0_name_ok_def NUL_def)
  then have item: "takeWhile (\<lambda>c. c \<noteq> NUL) ((v @ ''='' @ x) @ NUL # rest) = v @ ''='' @ x"
    by (subst takeWhile_append2) auto
  have "strchr (v @ ''='' @ x) CHR ''='' = Some (v, x)"
    using assms by (simp add: strchr_append env0_name_ok_def env_name_ok_def)
  moreover have "v \<noteq> []" using assms by (simp add: env0_name_ok_def env_name_ok_def)
  ultimately show ?thesis using item by (simp add: parse_env0.simps [of self] Let_def)
qed

lemma parse_env0_items:
  "(\<And>v x. (v, x) \<in> set ps \<Longrightarrow> env0_name_ok v \<and> NUL \<notin> set x) \<Longrightarrow>
   parse_env0 self (env0_items ps @ rest) = parse_env0 (take_all self ps) rest"
proof (induction ps arbitrary: self)
  case (Cons p ps)
  obtain v x where p: "p = (v, x)" by (cases p)
  have "env0_items (p # ps) @ rest = v @ ''='' @ x @ NUL # (env0_items ps @ rest)"
    by (simp add: env0_items_def p)
  moreover have "env0_name_ok v" "NUL \<notin> set x" using Cons.prems [of v x] by (auto simp: p)
  then have "parse_env0 self (v @ ''='' @ x @ NUL # (env0_items ps @ rest)) =
      parse_env0 (srt_env_overlay_take self v (Some x)) (env0_items ps @ rest)"
    by (rule parse_env0_item)
  moreover have "parse_env0 (srt_env_overlay_take self v (Some x)) (env0_items ps @ rest) =
      parse_env0 (take_all (srt_env_overlay_take self v (Some x)) ps) rest"
    by (rule Cons.IH) (use Cons.prems in auto)
  ultimately show ?case by (simp add: p)
qed (simp add: env0_items_def)

lemma take_all_map:
  "distinct (map fst ps) \<Longrightarrow> overlay_map (take_all self ps) w =
     (case map_of ps w of Some x \<Rightarrow> Some (Some x) | None \<Rightarrow> overlay_map self w)"
proof (induction ps arbitrary: self)
  case (Cons p ps)
  obtain v x where p: "p = (v, x)" by (cases p)
  have "map_of ps v = None" using Cons.prems by (simp add: p map_of_eq_None_iff)
  then show ?case using Cons by (auto simp: p split: option.split)
qed simp

text \<open>The bindings of a list that set a variable.\<close>

fun set_part :: "(string \<times> string option) list \<Rightarrow> (string \<times> string) list" where
  "set_part [] = []"
| "set_part ((v, Some y) # xs) = (v, y) # set_part xs"
| "set_part ((v, None) # xs) = set_part xs"

lemma set_part_names: "(v, y) \<in> set (set_part xs) \<Longrightarrow> v \<in> fst ` set xs"
  by (induction xs rule: set_part.induct) auto

lemma set_part_distinct: "distinct (map fst xs) \<Longrightarrow> distinct (map fst (set_part xs))"
  by (induction xs rule: set_part.induct) (auto dest: set_part_names)

lemma map_of_set_part:
  "distinct (map fst xs) \<Longrightarrow>
   map_of (set_part xs) w = (case map_of xs w of Some o' \<Rightarrow> o' | None \<Rightarrow> None)"
proof (induction xs rule: set_part.induct)
  case (3 v xs)
  then have "map_of xs v = None" by (simp add: map_of_eq_None_iff)
  then show ?case using 3 by simp
qed simp_all

definition set_items :: "env_overlay \<Rightarrow> (string \<times> string) list" where
  "set_items self = set_part (ht.items (env_values self))"

lemma to_env0_vars_items:
  "to_env0_vars self vs arr = arr @ env0_items (set_part (map (\<lambda>v. (v, srt_env_overlay_get self v)) vs))"
  by (induction vs arbitrary: arr)
     (auto simp: env0_items_def byte_array_append_env0_def split: option.split)

text \<open>Reading back what was written.\<close>

lemma env0_parse_back:
  assumes "ht_valid (env_values self)"
    and "\<forall>(v, x) \<in> set (env_values self). env0_name_ok v \<and> (\<forall>y. x = Some y \<longrightarrow> NUL \<notin> set y)"
  shows "\<exists>other'. parse_env0 other (srt_env_overlay_to_env0 self) = (other', Inr ()) \<and>
    (\<forall>w. map_of (env_values other') w =
      (case map_of (env_values self) w of Some (Some x) \<Rightarrow> Some (Some x) | _ \<Rightarrow> map_of (env_values other) w))"
proof -
  let ?ps = "set_items self"
  have env0: "srt_env_overlay_to_env0 self = env0_items ?ps"
    unfolding srt_env_overlay_to_env0_def to_env0_vars_items get_vars_items [OF assms(1)] set_items_def by simp
  have parts: "distinct (map fst ?ps)"
    "map_of ?ps w = (case overlay_map self w of Some o' \<Rightarrow> o' | None \<Rightarrow> None)" for w
    unfolding set_items_def
    using set_part_distinct map_of_set_part ht.distinct_items [OF assms(1)] ht.map_of_items [OF assms(1)]
    by simp_all
  have ok: "env0_name_ok v \<and> NUL \<notin> set x" if "(v, x) \<in> set ?ps" for v x
  proof -
    have "map_of ?ps v = Some x" using that parts(1) by simp
    then have "overlay_map self v = Some (Some x)" using parts(2) by (simp split: option.splits)
    then show ?thesis using assms(2) by (fastforce dest: map_of_SomeD)
  qed
  have "parse_env0 other (env0_items ?ps @ []) = parse_env0 (take_all other ?ps) []"
    by (rule parse_env0_items) (rule ok)
  then have run: "parse_env0 other (srt_env_overlay_to_env0 self) = (take_all other ?ps, Inr ())"
    by (simp add: env0 parse_env0.simps [of _ "[]"])
  show ?thesis
    by (intro exI [of _ "take_all other ?ps"] conjI run allI) (auto simp: take_all_map [OF parts(1)] parts(2) split: option.splits)
qed

text \<open>Serializing and reading back: \<open>_srt_env_overlay_env_fd_cli\<close> accepts every block that
  \<open>_srt_env_overlay_to_env0\<close> writes, and reading it into any overlay sets exactly the variables
  that were set, to the same values, and changes nothing else. (Names are non-empty and have no
  \<open>=\<close>; a C string has no NUL.)\<close>

theorem srt_env_overlay_env0_roundtrip:
  assumes "ht_valid (env_values self)"
    and "\<forall>(v, x) \<in> set (env_values self). env0_name_ok v \<and> (\<forall>y. x = Some y \<longrightarrow> NUL \<notin> set y)"
  shows "\<exists>other'. parse_env0 other (srt_env_overlay_to_env0 self) = (other', Inr ()) \<and>
    (\<forall>w. map_of (env_values other') w =
      (case map_of (env_values self) w of Some (Some x) \<Rightarrow> Some (Some x) | _ \<Rightarrow> map_of (env_values other) w))"
  by (rule env0_parse_back [OF assms])

theorem srt_env_overlay_env0_roundtrip_witness:
  "\<exists>other'. parse_env0 srt_env_overlay_new (srt_env_overlay_to_env0 demo_overlay) = (other', Inr ()) \<and>
    map_of (env_values other') ''A'' = Some (Some ''new'') \<and> map_of (env_values other') ''B'' = None"
proof -
  have "ht_valid (env_values demo_overlay)" by (simp add: demo_overlay_def ht_valid_def)
  moreover have "\<forall>(v, x) \<in> set (env_values demo_overlay). env0_name_ok v \<and> (\<forall>y. x = Some y \<longrightarrow> NUL \<notin> set y)"
    by (simp add: demo_overlay_def env0_name_ok_def env_name_ok_def NUL_def)
  ultimately obtain other' where
    "parse_env0 srt_env_overlay_new (srt_env_overlay_to_env0 demo_overlay) = (other', Inr ())" and
    other': "\<And>w. map_of (env_values other') w =
      (case map_of (env_values demo_overlay) w of Some (Some x) \<Rightarrow> Some (Some x)
       | _ \<Rightarrow> map_of (env_values srt_env_overlay_new) w)"
    using srt_env_overlay_env0_roundtrip by blast
  then show ?thesis using other' [of "''A''"] other' [of "''B''"]
    by (simp add: demo_overlay_def srt_env_overlay_new_def)
qed

text \<open>A malformed entry is an error, but not one without effect: the entries before it are
  already in the overlay when \<open>_srt_env_overlay_env_fd_cli\<close> fails.\<close>

theorem srt_env_overlay_env_fd_partial:
  assumes "\<forall>(v, x) \<in> set ps. env0_name_ok v \<and> NUL \<notin> set x"
    and "CHR ''='' \<notin> set bad \<or> hd bad = CHR ''=''" and "bad \<noteq> []" and "NUL \<notin> set bad"
  shows "parse_env0 self (env0_items ps @ bad @ NUL # rest) = (take_all self ps, Inl G_OPTION_ERROR_BAD_VALUE)"
proof -
  have "parse_env0 self (env0_items ps @ bad @ NUL # rest) = parse_env0 (take_all self ps) (bad @ NUL # rest)"
    by (rule parse_env0_items) (use assms(1) in auto)
  moreover have "takeWhile (\<lambda>c. c \<noteq> NUL) (bad @ NUL # rest) = bad"
    using assms(4) by (subst takeWhile_append2) auto
  moreover have "(case strchr bad CHR ''='' of None \<Rightarrow> True | Some (v, x) \<Rightarrow> v = [])"
    using assms(2,3) by (auto simp: strchr_None strchr_def split: option.split) (cases bad; simp)
  ultimately show ?thesis using assms(3)
    by (auto simp: parse_env0.simps [of "take_all self ps"] Let_def split: option.splits)
qed

theorem srt_env_overlay_env_fd_partial_witness:
  "parse_env0 srt_env_overlay_new (env0_items [(''A'', ''1'')] @ ''=x'' @ NUL # []) =
    (take_all srt_env_overlay_new [(''A'', ''1'')], Inl G_OPTION_ERROR_BAD_VALUE)"
  by (rule srt_env_overlay_env_fd_partial)
     (simp_all add: env0_name_ok_def env_name_ok_def NUL_def)

text \<open>\<open>--env\<close> accepts exactly the arguments \<open>NAME=VALUE\<close> with a non-empty name, split at
  the first \<open>=\<close>, and then changes that variable only.\<close>

theorem srt_env_overlay_set_cli_iff:
  "srt_env_overlay_set_cli self value = Inr self' \<longleftrightarrow>
   (\<exists>name val. value = name @ CHR ''='' # val \<and> env_name_ok name \<and>
      self' = self\<lparr> env_values := AList.update name (Some val) (env_values self) \<rparr>)"
proof (cases "strchr value CHR ''=''")
  case None
  then have "CHR ''='' \<notin> set value" by (simp add: strchr_None)
  then show ?thesis by (auto simp: srt_env_overlay_set_cli_def g_strsplit2_def valid_split_def Let_def None)
next
  case (Some p)
  then obtain a b where p: "strchr value CHR ''='' = Some (a, b)" by (cases p) auto
  then have v: "value = a @ CHR ''='' # b" "CHR ''='' \<notin> set a" by (auto simp: strchr_Some_iff)
  have uniq: "name = a \<and> val = b" if "value = name @ CHR ''='' # val" "CHR ''='' \<notin> set name" for name val
    using that p by (auto simp: strchr_append)
  have "srt_env_overlay_set_cli self value = Inr self' \<longleftrightarrow> a \<noteq> [] \<and> self' = srt_env_overlay_take self a (Some b)"
    using p v by (auto simp: srt_env_overlay_set_cli_def g_strsplit2_def valid_split_def Let_def)
  also have "\<dots> \<longleftrightarrow> (\<exists>name val. value = name @ CHR ''='' # val \<and> env_name_ok name \<and>
      self' = srt_env_overlay_take self name (Some val))"
    using v uniq unfolding env_name_ok_def by metis
  finally show ?thesis by (simp add: srt_env_overlay_take_def)
qed

end
