(* ===== verification/Mtree.thy ===== *)
theory Mtree imports Glib Utils begin

text \<open>
  \<open>pressure-vessel/mtree.c\<close>, the parser: one line of a mtree(5) manifest. \<open>parse_token\<close> is one
  iteration of the loop over the keywords, in the order of the tests of the code. The code's
  warning about an unknown keyword has no effect and is left out.
\<close>

section \<open>Entries\<close>

datatype entry_kind = KIND_UNKNOWN | KIND_BLOCK | KIND_CHAR | KIND_DIR | KIND_FIFO | KIND_FILE
  | KIND_LINK | KIND_SOCKET

datatype entry_flag = IGNORE_BELOW | NO_CHANGE | OPTIONAL

record mtree_entry =
  name :: "string option"
  contents :: "string option"
  link :: "string option"
  sha256 :: "string option"
  fsize :: int
  mtime_usec :: int
  mode :: int
  kind :: entry_kind
  entry_flags :: "entry_flag set"

definition PV_MTREE_ENTRY_BLANK :: mtree_entry where
  "PV_MTREE_ENTRY_BLANK = \<lparr> name = None, contents = None, link = None, sha256 = None,
     fsize = - 1, mtime_usec = - 1, mode = - 1, kind = KIND_UNKNOWN, entry_flags = {} \<rparr>"

section \<open>Keywords\<close>

definition io_failed :: gerror where
  "io_failed = G_IO_ERROR IO_FAILED"

definition strncmp_eq :: "string \<Rightarrow> string \<Rightarrow> nat \<Rightarrow> bool" where
  "strncmp_eq a b n = (take n a = take n b)"

text \<open>\<open>equals\<close> is given by the text before it and after it.\<close>

definition is_token :: "string \<Rightarrow> (string \<times> string) option \<Rightarrow> string \<Rightarrow> bool" where
  "is_token token equals expected =
     (case equals of
        None \<Rightarrow> token = expected
      | Some (key, _) \<Rightarrow> strncmp_eq token expected (length key))"

definition require_value :: "(string \<times> string) option \<Rightarrow> gerror + string" where
  "require_value equals = (case equals of None \<Rightarrow> Inl io_failed | Some (_, v) \<Rightarrow> Inr v)"

definition forbid_value :: "(string \<times> string) option \<Rightarrow> gerror + unit" where
  "forbid_value equals = (if equals \<noteq> None then Inl io_failed else Inr ())"

definition ignored_keywords :: "string list" where
  "ignored_keywords = [''cksum'', ''device'', ''flags'', ''gid'', ''gname'', ''inode'', ''md5'',
     ''md5digest'', ''nlink'', ''resdevice'', ''ripemd160digest'', ''rmd160'', ''rmd160digest'',
     ''sha1'', ''sha1digest'', ''sha384'', ''sha384digest'', ''sha512'', ''sha512digest'', ''uid'', ''uname'']"

definition kind_nicks :: "(string \<times> entry_kind) list" where
  "kind_nicks = [(''unknown'', KIND_UNKNOWN), (''block'', KIND_BLOCK), (''char'', KIND_CHAR),
     (''dir'', KIND_DIR), (''fifo'', KIND_FIFO), (''file'', KIND_FILE), (''link'', KIND_LINK),
     (''socket'', KIND_SOCKET)]"

section \<open>Values\<close>

definition parse_mode :: "string \<Rightarrow> gerror + int" where
  "parse_mode s =
     (let (value, endptr) = strtoll s 8 in
      if s = [] \<or> endptr \<noteq> [] then Inl io_failed else Inr (value AND 4095))"

definition parse_size :: "string \<Rightarrow> gerror + int" where
  "parse_size s =
     (let (value, endptr) = strtoll s 10 in
      if s = [] \<or> endptr \<noteq> [] then Inl io_failed else Inr value)"

text \<open>The multiplication and the addition are those of \<open>guint64\<close>; the result is stored as a
  \<open>gint64\<close>.\<close>

definition to_usec :: "64 word \<Rightarrow> 64 word \<Rightarrow> int" where
  "to_usec value ns = sint (value * 1000000 + ns div 1000)"

definition parse_time :: "string \<Rightarrow> gerror + int" where
  "parse_time s =
     (let (value, endptr) = strtoull s 10 in
      if s = [] \<or> (endptr \<noteq> [] \<and> hd endptr \<noteq> CHR ''.'') then Inl io_failed
      else if endptr \<noteq> [] \<and> endptr \<noteq> ''.0'' then
        (let after_dot = tl endptr; (ns, endptr') = strtoull after_dot 10 in
         if after_dot = [] \<or> endptr' \<noteq> [] \<or> ns > 999999999 then Inl io_failed
         else if length after_dot - length endptr' \<noteq> 9 then Inl io_failed
         else Inr (to_usec value ns))
      else Inr (to_usec value 0))"

section \<open>A keyword\<close>

definition parse_token :: "glib \<Rightarrow> mtree_entry \<Rightarrow> string \<Rightarrow> gerror + mtree_entry" where
  "parse_token G entry token =
     (let equals = strchr token CHR ''=''; is = is_token token equals; value = require_value equals in
      if list_ex is ignored_keywords then Inr entry
      else if is ''link'' then
        map_sum id (\<lambda>v. entry\<lparr> link := Some (g_strcompress G v) \<rparr>) value
      else if is ''contents'' \<or> is ''content'' then
        map_sum id (\<lambda>v. entry\<lparr> contents := Some (g_strcompress G v) \<rparr>) value
      else if is ''sha256'' \<or> is ''sha256digest'' then
        (case value of
           Inl e \<Rightarrow> Inl e
         | Inr v \<Rightarrow> (case sha256 entry of
               None \<Rightarrow> Inr (entry\<lparr> sha256 := Some v \<rparr>)
             | Some old \<Rightarrow> if old \<noteq> v then Inl io_failed else Inr entry))
      else if is ''mode'' then
        (case value of Inl e \<Rightarrow> Inl e | Inr v \<Rightarrow> map_sum id (\<lambda>m. entry\<lparr> mode := m \<rparr>) (parse_mode v))
      else if is ''size'' then
        (case value of Inl e \<Rightarrow> Inl e | Inr v \<Rightarrow> map_sum id (\<lambda>n. entry\<lparr> fsize := n \<rparr>) (parse_size v))
      else if is ''time'' then
        (case value of Inl e \<Rightarrow> Inl e | Inr v \<Rightarrow> map_sum id (\<lambda>t. entry\<lparr> mtime_usec := t \<rparr>) (parse_time v))
      else if is ''type'' then
        (case value of
           Inl e \<Rightarrow> Inl e
         | Inr v \<Rightarrow> Inr (entry\<lparr> kind := (case map_of kind_nicks v of Some k \<Rightarrow> k | None \<Rightarrow> KIND_UNKNOWN) \<rparr>))
      else if is ''ignore'' then
        map_sum id (\<lambda>_. entry\<lparr> entry_flags := insert IGNORE_BELOW (entry_flags entry) \<rparr>) (forbid_value equals)
      else if is ''nochange'' then
        map_sum id (\<lambda>_. entry\<lparr> entry_flags := insert NO_CHANGE (entry_flags entry) \<rparr>) (forbid_value equals)
      else if is ''optional'' then
        map_sum id (\<lambda>_. entry\<lparr> entry_flags := insert OPTIONAL (entry_flags entry) \<rparr>) (forbid_value equals)
      else Inr entry)"

section \<open>A line\<close>

definition documented_escapes :: string where
  "documented_escapes = ''bfnrtv'' @ [CHR 0x22, CHR 0x5C]"

text \<open>The loop over the characters that looks for escapes which are not supported.\<close>

fun check_escapes :: "string \<Rightarrow> bool" where
  "check_escapes [] = True"
| "check_escapes (c # cs) =
     (if c = CHR 0x5C then
        (case cs of
           [] \<Rightarrow> False
         | d # ds \<Rightarrow>
             if CHR ''0'' \<le> d \<and> d \<le> CHR ''9'' then check_escapes cs
             else if d \<in> set documented_escapes then check_escapes ds
             else False)
      else check_escapes cs)"

fun parse_tokens :: "glib \<Rightarrow> mtree_entry \<Rightarrow> string list \<Rightarrow> gerror + mtree_entry" where
  "parse_tokens G entry [] = Inr entry"
| "parse_tokens G entry (t # ts) =
     (case parse_token G entry t of Inl e \<Rightarrow> Inl e | Inr entry' \<Rightarrow> parse_tokens G entry' ts)"

text \<open>The checks after the loop.\<close>

definition check_entry :: "mtree_entry \<Rightarrow> gerror + mtree_entry" where
  "check_entry entry =
     (if kind entry = KIND_UNKNOWN then Inl io_failed
      else if link entry \<noteq> None \<and> kind entry \<noteq> KIND_LINK then Inl io_failed
      else if link entry = None \<and> kind entry = KIND_LINK then Inl io_failed
      else Inr entry)"

definition pv_mtree_entry_parse_internal :: "glib \<Rightarrow> string \<Rightarrow> gerror + mtree_entry" where
  "pv_mtree_entry_parse_internal G line =
     (if line = [] \<or> hd line = CHR ''#'' then Inr PV_MTREE_ENTRY_BLANK
      else if hd line = CHR ''/'' then Inl io_failed
      else if hd line \<noteq> CHR ''.'' \<or> (tl line \<noteq> [] \<and> hd (tl line) \<noteq> CHR '' '' \<and> hd (tl line) \<noteq> CHR ''/'')
        then Inl io_failed
      else if g_str_has_suffix line [CHR 0x5C] then Inl io_failed
      else if \<not> check_escapes line then Inl io_failed
      else (case g_strsplit_set line [CHR '' '', CHR 0x09] of
          [] \<Rightarrow> Inl io_failed
        | t # ts \<Rightarrow>
            (case parse_tokens G (PV_MTREE_ENTRY_BLANK\<lparr> name := Some (g_strcompress G t) \<rparr>) ts of
               Inl e \<Rightarrow> Inl e
             | Inr entry \<Rightarrow> check_entry entry)))"

text \<open>The wrapper adds the file name and the line number to the message.\<close>

definition pv_mtree_entry_parse :: "glib \<Rightarrow> string \<Rightarrow> gerror + mtree_entry" where
  "pv_mtree_entry_parse G line =
     (case pv_mtree_entry_parse_internal G line of Inl e \<Rightarrow> Inl e | Inr entry \<Rightarrow> Inr entry)"

definition pv_mtree_entry_clear :: "mtree_entry \<Rightarrow> mtree_entry" where
  "pv_mtree_entry_clear entry =
     entry\<lparr> name := None, contents := None, link := None, sha256 := None \<rparr>"

section \<open>What a successful parse guarantees\<close>

definition values_ok :: "mtree_entry \<Rightarrow> bool" where
  "values_ok e = (- 1 \<le> mode e \<and> mode e \<le> 4095 \<and>
     - (2 ^ 63) \<le> fsize e \<and> fsize e < 2 ^ 63 \<and>
     - (2 ^ 63) \<le> mtime_usec e \<and> mtime_usec e < 2 ^ 63)"

lemma and_4095: "(v :: int) AND 4095 = v mod 4096"
  using take_bit_eq_mask [of 12 v] by (simp add: mask_eq_exp_minus_1 take_bit_eq_mod)

lemma parse_mode_range: "parse_mode s = Inr m \<Longrightarrow> 0 \<le> m \<and> m \<le> 4095"
proof -
  assume "parse_mode s = Inr m"
  then obtain v :: int where "m = v mod 4096" by (auto simp: parse_mode_def and_4095 split: if_splits prod.splits)
  moreover have "v mod 4096 < 4096" "0 \<le> v mod 4096" by simp_all
  ultimately show ?thesis by linarith
qed

lemma parse_size_range: "parse_size s = Inr n \<Longrightarrow> - (2 ^ 63) \<le> n \<and> n < 2 ^ 63"
proof -
  assume "parse_size s = Inr n"
  then have "n = fst (strtoll s 10)" by (auto simp: parse_size_def split: if_splits prod.splits)
  then show ?thesis using strtoll_range [of s 10] by auto
qed

lemma to_usec_range: "- (2 ^ 63) \<le> to_usec v ns \<and> to_usec v ns < 2 ^ 63"
  using sint_ge [of "v * 1000000 + ns div 1000"] sint_lt [of "v * 1000000 + ns div 1000"]
  by (simp add: to_usec_def)

lemma parse_time_range: "parse_time s = Inr t \<Longrightarrow> - (2 ^ 63) \<le> t \<and> t < 2 ^ 63"
proof -
  assume "parse_time s = Inr t"
  then obtain v ns where "t = to_usec v ns"
    by (auto simp: parse_time_def Let_def split: if_splits prod.splits)
  then show ?thesis using to_usec_range by simp
qed

lemma parse_token_values:
  assumes "parse_token G e t = Inr e'" "values_ok e"
  shows "values_ok e' \<and> name e' = name e"
proof -
  have wrap: "map_sum id f x = Inr y \<longleftrightarrow> (\<exists>z. x = Inr z \<and> y = f z)" for f :: "'a \<Rightarrow> 'b" and x :: "gerror + 'a" and y
    by (cases x) auto
  show ?thesis
    using assms parse_mode_range parse_size_range parse_time_range
    unfolding parse_token_def Let_def
    by (fastforce simp: wrap values_ok_def split: if_splits sum.splits option.splits)
qed


lemma parse_tokens_values:
  "parse_tokens G e ts = Inr e' \<Longrightarrow> values_ok e \<Longrightarrow> values_ok e' \<and> name e' = name e"
  by (induction ts arbitrary: e) (fastforce dest: parse_token_values split: sum.splits)+

text \<open>C40: What a successful parse guarantees, for any \<open>g_strcompress\<close>: a line that is empty or a
  comment gives the blank entry, and any other line an entry with a name and a known type that has a
  link target exactly if it is a symbolic link, with a mode in \<open>0 \<dots> 07777\<close> (or -1 for none),
  and with a size and a modification time that fit in 64 bits. Such a line starts with a dot
  and a blank or a slash, and does not end in a backslash.\<close>

theorem pv_mtree_entry_parse_guarantees:
  assumes "pv_mtree_entry_parse G line = Inr e"
  shows "(line = [] \<or> hd line = CHR ''#'') \<and> e = PV_MTREE_ENTRY_BLANK \<or>
    name e \<noteq> None \<and> kind e \<noteq> KIND_UNKNOWN \<and> (link e \<noteq> None \<longleftrightarrow> kind e = KIND_LINK) \<and>
    - 1 \<le> mode e \<and> mode e \<le> 4095 \<and> - (2 ^ 63) \<le> fsize e \<and> fsize e < 2 ^ 63 \<and>
    - (2 ^ 63) \<le> mtime_usec e \<and> mtime_usec e < 2 ^ 63 \<and>
    (line = ''.'' \<or> take 2 line = ''. '' \<or> take 2 line = ''./'') \<and> \<not> g_str_has_suffix line [CHR 0x5C]"
proof (cases "line = [] \<or> hd line = CHR ''#''")
  case True
  then show ?thesis using assms
    by (simp add: pv_mtree_entry_parse_def pv_mtree_entry_parse_internal_def split: sum.splits)
next
  case False
  then obtain t ts e1 where line: "hd line = CHR ''.''"
      "tl line = [] \<or> hd (tl line) = CHR '' '' \<or> hd (tl line) = CHR ''/''" "\<not> g_str_has_suffix line [CHR 0x5C]"
    and e1: "parse_tokens G (PV_MTREE_ENTRY_BLANK\<lparr> name := Some (g_strcompress G t) \<rparr>) ts = Inr e1"
    and e: "check_entry e1 = Inr e"
    using assms
    by (auto simp: pv_mtree_entry_parse_def pv_mtree_entry_parse_internal_def split: if_splits sum.splits list.splits)
  have "values_ok (PV_MTREE_ENTRY_BLANK\<lparr> name := Some (g_strcompress G t) \<rparr>)"
    by (simp add: values_ok_def PV_MTREE_ENTRY_BLANK_def)
  then have v: "values_ok e1" "name e1 = Some (g_strcompress G t)" using parse_tokens_values [OF e1] by auto
  have "e = e1" "kind e \<noteq> KIND_UNKNOWN" "link e \<noteq> None \<longleftrightarrow> kind e = KIND_LINK"
    using e by (auto simp: check_entry_def split: if_splits)
  moreover have "line = ''.'' \<or> take 2 line = ''. '' \<or> take 2 line = ''./''"
    using False line by (cases line; cases "tl line") auto
  ultimately show ?thesis using v line(3) by (simp add: values_ok_def)
qed

theorem pv_mtree_entry_parse_guarantees_witness:
  "\<exists>e. pv_mtree_entry_parse glib_ref ''./bin type=dir mode=07 optional'' = Inr e \<and>
     name e = Some ''./bin'' \<and> kind e \<noteq> KIND_UNKNOWN \<and> link e = None \<and> mode e = 7"
proof -
  let ?e = "\<lparr> name = Some ''./bin'', contents = None, link = None, sha256 = None, fsize = - 1,
    mtime_usec = - 1, mode = 7, kind = KIND_DIR, entry_flags = {OPTIONAL} \<rparr>"
  have p: "pv_mtree_entry_parse glib_ref ''./bin type=dir mode=07 optional'' = Inr ?e"
    by code_simp
  show ?thesis using pv_mtree_entry_parse_guarantees [OF p] p by (simp add: PV_MTREE_ENTRY_BLANK_def)
qed

section \<open>Keywords are matched by prefix\<close>

lemma take_eq_prefix: fixes k :: string shows "take (length k) (k @ x) = take (length k) y \<longleftrightarrow> prefix k y"
  using g_str_has_prefix_iff [of y k] by (auto simp: g_str_has_prefix_def prefix_def)

lemma is_token_key:
  "is_token (key @ r) (Some (key, v)) expected \<longleftrightarrow> prefix key expected"
  by (simp add: is_token_def strncmp_eq_def take_eq_prefix [of key "[]" expected, simplified])

text \<open>Before \<open>=\<close>, a keyword is compared up to the position of the \<open>=\<close> only, so that every
  prefix of a keyword is taken for the keyword: every prefix of a keyword that is ignored is
  ignored, even the empty one, whatever its value is. (Only \<open>c=\<close> and the like are meant by
  nobody; but a truncated keyword is not reported as unknown.)\<close>

theorem parse_token_abbreviation:
  assumes "CHR ''='' \<notin> set key" and "\<exists>k \<in> set ignored_keywords. prefix key k"
  shows "parse_token G entry (key @ CHR ''='' # value) = Inr entry"
proof -
  have "strchr (key @ CHR ''='' # value) CHR ''='' = Some (key, value)" using assms(1) by (rule strchr_append)
  moreover have "list_ex (is_token (key @ CHR ''='' # value) (Some (key, value))) ignored_keywords"
    using assms(2) by (auto simp: list_ex_iff is_token_key)
  ultimately show ?thesis by (simp add: parse_token_def Let_def)
qed

theorem parse_token_abbreviation_witness:
  "parse_token glib_ref PV_MTREE_ENTRY_BLANK ''=link'' = Inr PV_MTREE_ENTRY_BLANK \<and>
   parse_token glib_ref PV_MTREE_ENTRY_BLANK ''s=1'' = Inr PV_MTREE_ENTRY_BLANK"
proof
  have k: "''cksum'' \<in> set ignored_keywords" "''sha1'' \<in> set ignored_keywords" by (simp_all add: ignored_keywords_def)
  show "parse_token glib_ref PV_MTREE_ENTRY_BLANK ''=link'' = Inr PV_MTREE_ENTRY_BLANK"
    using parse_token_abbreviation [of "[]" glib_ref PV_MTREE_ENTRY_BLANK "''link''"] k(1) by auto
  show "parse_token glib_ref PV_MTREE_ENTRY_BLANK ''s=1'' = Inr PV_MTREE_ENTRY_BLANK"
    using parse_token_abbreviation [of "''s''" glib_ref PV_MTREE_ENTRY_BLANK "''1''"] k(2) by (force intro: bexI [of _ "''sha1''"])
qed

end
