(* ===== verification/MtreeRoundtrip.thy ===== *)
theory MtreeRoundtrip imports Mtree begin

text \<open>
  A printer for entries of a mtree(5) manifest in the subset that
  \<open>pressure-vessel/mtree.c\<close> documents, and the proof that \<open>pv_mtree_entry_parse\<close> is its inverse.
\<close>

section \<open>Printing\<close>

text \<open>Names are written with three-digit octal escapes for everything but letters, digits and
  \<open>. / - _\<close>. GLib documents that \<open>g_strcompress\<close> undoes octal escapes.\<close>

definition mtree_plain :: "char \<Rightarrow> bool" where
  "mtree_plain c = (g_ascii_isalnum c \<or> c \<in> set ''./-_'')"

fun mtree_escape :: "string \<Rightarrow> string" where
  "mtree_escape [] = []"
| "mtree_escape (c # cs) = (if mtree_plain c then [c] else CHR 0x5C # octal3 (of_char c)) @ mtree_escape cs"

locale octal_compress =
  fixes compress :: "string \<Rightarrow> string"
  assumes compress_escape: "compress (mtree_escape s) = s"

definition keyword :: "string \<Rightarrow> string \<Rightarrow> string" where
  "keyword k v = k @ CHR ''='' # v"

definition print_usec :: "int \<Rightarrow> string" where
  "print_usec u = print_nat 10 (nat u div 1000000) @ ''.'' @ fixed_digits 9 (nat u mod 1000000 * 1000)"

definition kind_nick :: "entry_kind \<Rightarrow> string" where
  "kind_nick k = (case map_of (map (\<lambda>(n, k). (k, n)) kind_nicks) k of Some n \<Rightarrow> n | None \<Rightarrow> [])"

definition opt_tokens :: "(string \<times> string option) list \<Rightarrow> string list" where
  "opt_tokens kvs = concat (map (\<lambda>(k, v). case v of Some x \<Rightarrow> [keyword k x] | None \<Rightarrow> []) kvs)"

definition entry_tokens :: "mtree_entry \<Rightarrow> string list" where
  "entry_tokens e =
     (if fsize e \<ge> 0 then [keyword ''size'' (print_nat 10 (nat (fsize e)))] else []) @
     (if mode e \<ge> 0 then [keyword ''mode'' (print_nat 8 (nat (mode e)))] else []) @
     (if mtime_usec e \<ge> 0 then [keyword ''time'' (print_usec (mtime_usec e))] else []) @
     (case link e of Some l \<Rightarrow> [keyword ''link'' (mtree_escape l)] | None \<Rightarrow> []) @
     (case contents e of Some c \<Rightarrow> [keyword ''contents'' (mtree_escape c)] | None \<Rightarrow> []) @
     (case sha256 e of Some h \<Rightarrow> [keyword ''sha256'' h] | None \<Rightarrow> []) @
     (if IGNORE_BELOW \<in> entry_flags e then [''ignore''] else []) @
     (if NO_CHANGE \<in> entry_flags e then [''nochange''] else []) @
     (if OPTIONAL \<in> entry_flags e then [''optional''] else []) @
     [keyword ''type'' (kind_nick (kind e))]"

definition print_entry :: "mtree_entry \<Rightarrow> string" where
  "print_entry e = g_strjoinv '' '' (mtree_escape (the (name e)) # entry_tokens e)"

definition entry_ok :: "mtree_entry \<Rightarrow> bool" where
  "entry_ok e = ((\<exists>n. name e = Some n \<and> (n = ''.'' \<or> take 2 n = ''./'')) \<and> kind e \<noteq> KIND_UNKNOWN \<and>
     (link e \<noteq> None \<longleftrightarrow> kind e = KIND_LINK) \<and>
     - 1 \<le> mode e \<and> mode e \<le> 4095 \<and> - 1 \<le> fsize e \<and> fsize e < 2 ^ 63 \<and>
     - 1 \<le> mtime_usec e \<and> mtime_usec e < 2 ^ 63 \<and>
     (\<forall>h. sha256 e = Some h \<longrightarrow> h \<noteq> [] \<and> list_all mtree_plain h))"

section \<open>Numbers\<close>

lemma parse_size_print: "0 \<le> n \<Longrightarrow> n < 2 ^ 63 \<Longrightarrow> parse_size (print_nat 10 (nat n)) = Inr n"
  by (simp add: parse_size_def strtoll_print print_nat_nonempty)

lemma parse_mode_print: "0 \<le> m \<Longrightarrow> m \<le> 4095 \<Longrightarrow> parse_mode (print_nat 8 (nat m)) = Inr m"
  by (simp add: parse_mode_def strtoll_print print_nat_nonempty and_4095)

lemma unat_small: "n < 2 ^ 64 \<Longrightarrow> unat (of_nat n :: 64 word) = n"
  by (simp add: unat_of_nat)

lemma to_usec_exact:
  assumes "sec * 1000000 + us < 2 ^ 63" "us < 1000000"
  shows "to_usec (of_nat sec) (of_nat (us * 1000)) = int (sec * 1000000 + us)"
proof -
  have "unat (of_nat (us * 1000) :: 64 word) = us * 1000"
    by (rule unat_small) (use assms(2) in simp)
  then have "unat ((of_nat (us * 1000) :: 64 word) div 1000) = us" by (simp add: unat_div)
  then have d: "(of_nat (us * 1000) :: 64 word) div 1000 = of_nat us" by (metis of_nat_unat ucast_id)
  have "(of_nat sec * 1000000 + of_nat us :: 64 word) = of_nat (sec * 1000000 + us)" by simp
  then have "to_usec (of_nat sec) (of_nat (us * 1000)) = sint (of_nat (sec * 1000000 + us) :: 64 word)"
    by (simp only: to_usec_def d)
  also have "\<dots> = int (sec * 1000000 + us)"
  proof -
    have "(of_nat (sec * 1000000 + us) :: 64 word) = word_of_int (int (sec * 1000000 + us))" by simp
    then have "sint (of_nat (sec * 1000000 + us) :: 64 word) = (int (sec * 1000000 + us) + 2 ^ 63) mod 2 ^ 64 - 2 ^ 63"
      using int_word_sint [where 'a = 64, of "int (sec * 1000000 + us)"] by simp
    then show ?thesis using assms(1) by simp
  qed
  finally show ?thesis .
qed


lemma parse_time_print:
  assumes "0 \<le> u" "u < 2 ^ 63"
  shows "parse_time (print_usec u) = Inr u"
proof -
  let ?n = "nat u" and ?sec = "nat u div 1000000" and ?us = "nat u mod 1000000"
  have n: "?sec * 1000000 + ?us = ?n" by simp
  have lt: "?n < 2 ^ 63" using assms by (simp add: nat_less_iff)
  have d: "\<not> is_base_digit 10 CHR ''.''" by (simp add: is_base_digit_def g_ascii_isdigit_def less_eq_char_def)
  have "?sec < 2 ^ 64" using lt by (simp add: div_le_dividend le_less_trans)
  then have sec: "strtoull (print_usec u) 10 = (of_nat ?sec, CHR ''.'' # fixed_digits 9 (?us * 1000))"
    using strto_scan_digits [OF print_nat_digits [of 10 ?sec] print_nat_nonempty, of "CHR ''.'' # fixed_digits 9 (?us * 1000)"] d
    by (simp add: strtoull_def print_usec_def print_nat_value)
  have ns: "strtoull (fixed_digits 9 (?us * 1000)) 10 = (of_nat (?us * 1000), [])"
  proof -
    have "fixed_digits 9 (?us * 1000) \<noteq> []" using length_fixed_digits [of 9 "?us * 1000"] by fastforce
    moreover have "?us * 1000 mod 10 ^ 9 = ?us * 1000" by simp
    ultimately show ?thesis
      using strto_scan_digits [OF fixed_digits_digits, of 9 "?us * 1000" "[]"]
      by (simp add: strtoull_def fixed_digits_value)
  qed
  have bound: "\<not> (of_nat (?us * 1000) :: 64 word) > 999999999"
  proof -
    have "unat (of_nat (?us * 1000) :: 64 word) = ?us * 1000"
    proof (rule unat_small)
      have "?us < 1000000" by simp
      then show "?us * 1000 < 2 ^ 64" by simp
    qed
    moreover have "?us * 1000 \<le> 999999999" using mod_less_divisor [of 1000000 ?n] by linarith
    ultimately show ?thesis by (simp add: word_less_nat_alt not_less)
  qed
  have len: "length (fixed_digits 9 (?us * 1000)) = 9" by simp
  have ne: "print_usec u \<noteq> []" "fixed_digits 9 (?us * 1000) \<noteq> []" "CHR ''.'' # fixed_digits 9 (?us * 1000) \<noteq> ''.0''"
    using len by (auto simp: print_usec_def simp del: length_fixed_digits dest: arg_cong [where f = length])
  have exact: "to_usec (of_nat ?sec) (of_nat (?us * 1000)) = u"
    using to_usec_exact [of ?sec ?us] n lt assms(1) by simp
  show ?thesis unfolding parse_time_def sec Let_def prod.case ns
    using ne bound len exact by (simp add: ns del: of_nat_mult)
qed


section \<open>Keywords\<close>

lemma strchr_keyword: "CHR ''='' \<notin> set k \<Longrightarrow> strchr (keyword k v) CHR ''='' = Some (k, v)"
  by (simp add: keyword_def strchr_append)

lemma is_token_keyword: "CHR ''='' \<notin> set k \<Longrightarrow> is_token (keyword k v) (Some (k, v)) x \<longleftrightarrow> prefix k x"
  unfolding keyword_def by (rule is_token_key)

lemma is_token_plain: "is_token t None x \<longleftrightarrow> t = x"
  by (simp add: is_token_def)

lemmas keyword_simps = parse_token_def Let_def strchr_keyword is_token_keyword require_value_def
  ignored_keywords_def

lemma parse_size_token:
  "0 \<le> n \<Longrightarrow> n < 2 ^ 63 \<Longrightarrow>
   parse_token G e (keyword ''size'' (print_nat 10 (nat n))) = Inr (e\<lparr> fsize := n \<rparr>)"
  by (simp add: keyword_simps parse_size_print)

lemma parse_mode_token:
  "0 \<le> m \<Longrightarrow> m \<le> 4095 \<Longrightarrow>
   parse_token G e (keyword ''mode'' (print_nat 8 (nat m))) = Inr (e\<lparr> mode := m \<rparr>)"
  by (simp add: keyword_simps parse_mode_print)

lemma parse_time_token:
  "0 \<le> u \<Longrightarrow> u < 2 ^ 63 \<Longrightarrow>
   parse_token G e (keyword ''time'' (print_usec u)) = Inr (e\<lparr> mtime_usec := u \<rparr>)"
  by (simp add: keyword_simps parse_time_print)

lemma parse_text_tokens:
  assumes "octal_compress (g_strcompress G)"
  shows "parse_token G e (keyword ''link'' (mtree_escape l)) = Inr (e\<lparr> link := Some l \<rparr>)"
    "parse_token G e (keyword ''contents'' (mtree_escape l)) = Inr (e\<lparr> contents := Some l \<rparr>)"
  by (simp_all add: keyword_simps octal_compress.compress_escape [OF assms])

lemma parse_sha_token:
  "sha256 e = None \<Longrightarrow> parse_token G e (keyword ''sha256'' h) = Inr (e\<lparr> sha256 := Some h \<rparr>)"
  by (simp add: keyword_simps)

lemma parse_flag_tokens:
  "parse_token G e ''ignore'' = Inr (e\<lparr> entry_flags := insert IGNORE_BELOW (entry_flags e) \<rparr>)"
  "parse_token G e ''nochange'' = Inr (e\<lparr> entry_flags := insert NO_CHANGE (entry_flags e) \<rparr>)"
  "parse_token G e ''optional'' = Inr (e\<lparr> entry_flags := insert OPTIONAL (entry_flags e) \<rparr>)"
  by (simp_all add: parse_token_def Let_def strchr_def is_token_plain forbid_value_def ignored_keywords_def)

lemma kind_nick_inverse: "map_of kind_nicks (kind_nick k) = Some k"
  by (cases k) (simp_all add: kind_nick_def kind_nicks_def)

lemma parse_type_token: "parse_token G e (keyword ''type'' (kind_nick k)) = Inr (e\<lparr> kind := k \<rparr>)"
  by (simp add: keyword_simps kind_nick_inverse)

lemma parse_tokens_append:
  "parse_tokens G e (xs @ ys) = (case parse_tokens G e xs of Inl er \<Rightarrow> Inl er | Inr e' \<Rightarrow> parse_tokens G e' ys)"
  by (induction xs arbitrary: e) (auto split: sum.split)

definition blank_named :: "string option \<Rightarrow> mtree_entry" where
  "blank_named n = PV_MTREE_ENTRY_BLANK\<lparr> name := n \<rparr>"

text \<open>Each group of tokens sets its field, if it is set.\<close>

lemma parse_entry_tokens:
  assumes G: "octal_compress (g_strcompress G)" and ok: "entry_ok e"
  shows "parse_tokens G (blank_named (name e)) (entry_tokens e) = Inr e"
proof -
  let ?b = "blank_named (name e)"
  let ?F = "entry_flags e"
  have r: "- 1 \<le> mode e" "mode e \<le> 4095" "- 1 \<le> fsize e" "fsize e < 2 ^ 63" "- 1 \<le> mtime_usec e" "mtime_usec e < 2 ^ 63"
    using ok by (auto simp: entry_ok_def)
  have size: "parse_tokens G x (if fsize e \<ge> 0 then [keyword ''size'' (print_nat 10 (nat (fsize e)))] else []) =
      Inr (x\<lparr> fsize := fsize e \<rparr>)" if "fsize x = - 1" for x
    using r that by (cases "fsize e \<ge> 0") (simp_all add: parse_size_token)
  have mode: "parse_tokens G x (if mode e \<ge> 0 then [keyword ''mode'' (print_nat 8 (nat (mode e)))] else []) =
      Inr (x\<lparr> mode := mode e \<rparr>)" if "mode x = - 1" for x
    using r that by (cases "mode e \<ge> 0") (simp_all add: parse_mode_token)
  have time: "parse_tokens G x (if mtime_usec e \<ge> 0 then [keyword ''time'' (print_usec (mtime_usec e))] else []) =
      Inr (x\<lparr> mtime_usec := mtime_usec e \<rparr>)" if "mtime_usec x = - 1" for x
    using r that by (cases "mtime_usec e \<ge> 0") (simp_all add: parse_time_token)
  have link: "parse_tokens G x (case link e of Some l \<Rightarrow> [keyword ''link'' (mtree_escape l)] | None \<Rightarrow> []) =
      Inr (x\<lparr> link := link e \<rparr>)" if "link x = None" for x
    using that by (cases "link e") (simp_all add: parse_text_tokens [OF G])
  have contents: "parse_tokens G x (case contents e of Some l \<Rightarrow> [keyword ''contents'' (mtree_escape l)] | None \<Rightarrow> []) =
      Inr (x\<lparr> contents := contents e \<rparr>)" if "contents x = None" for x
    using that by (cases "contents e") (simp_all add: parse_text_tokens [OF G])
  have sha: "parse_tokens G x (case sha256 e of Some h \<Rightarrow> [keyword ''sha256'' h] | None \<Rightarrow> []) =
      Inr (x\<lparr> sha256 := sha256 e \<rparr>)" if "sha256 x = None" for x
    using that by (cases "sha256 e") (simp_all add: parse_sha_token)
  have flag: "parse_tokens G x (if f \<in> ?F then [t] else []) = Inr (x\<lparr> entry_flags := entry_flags x \<union> (?F \<inter> {f}) \<rparr>)"
    if "(f, t) \<in> {(IGNORE_BELOW, ''ignore''), (NO_CHANGE, ''nochange''), (OPTIONAL, ''optional'')}" for f t x
    using that by (auto simp: parse_flag_tokens)
  have flags: "?F \<inter> {IGNORE_BELOW} \<union> ?F \<inter> {NO_CHANGE} \<union> ?F \<inter> {OPTIONAL} = ?F"
    using entry_flag.exhaust by blast
  have blank: "fsize ?b = - 1" "mode ?b = - 1" "mtime_usec ?b = - 1" "link ?b = None" "contents ?b = None"
    "sha256 ?b = None" "entry_flags ?b = {}" "name ?b = name e"
    by (simp_all add: blank_named_def PV_MTREE_ENTRY_BLANK_def)
  show ?thesis unfolding entry_tokens_def parse_tokens_append
    by (simp add: size mode time link contents sha flag blank parse_type_token flags)
qed


section \<open>Lines\<close>

text \<open>A token that the scan for escapes passes over, that has no blank, and that does not end in a
  backslash.\<close>

definition token_ok :: "string \<Rightarrow> bool" where
  "token_ok t = (t \<noteq> [] \<and> last t \<noteq> CHR 0x5C \<and> CHR '' '' \<notin> set t \<and> CHR 0x09 \<notin> set t \<and>
     (\<forall>rest. check_escapes (t @ rest) = check_escapes rest))"

definition ordinary :: "char \<Rightarrow> bool" where
  "ordinary c = (c \<noteq> CHR 0x5C \<and> c \<noteq> CHR '' '' \<and> c \<noteq> CHR 0x09)"

lemma check_escapes_ordinary: "list_all ordinary t \<Longrightarrow> check_escapes (t @ rest) = check_escapes rest"
  by (induction t) (auto simp: ordinary_def)

lemma token_ok_ordinary: "t \<noteq> [] \<Longrightarrow> list_all ordinary t \<Longrightarrow> token_ok t"
  by (auto simp: token_ok_def check_escapes_ordinary list_all_iff ordinary_def dest: last_in_set)

lemma mtree_plain_ordinary: "mtree_plain c \<Longrightarrow> ordinary c"
  by (auto simp: mtree_plain_def ordinary_def g_ascii_isalnum_def g_ascii_isalpha_def g_ascii_isdigit_def less_eq_char_def)

lemma base_digit_ordinary: "is_base_digit b c \<Longrightarrow> ordinary c \<and> CHR ''0'' \<le> c \<and> c \<le> CHR ''9''"
  by (auto simp: is_base_digit_def ordinary_def g_ascii_isdigit_def less_eq_char_def)

lemma octal3_digits: "list_all (is_base_digit 10) (octal3 (of_char c))"
proof -
  have "(of_char c :: nat) < 256" by simp
  then have "(of_char c :: nat) div 64 < 10" using less_mult_imp_div_less [of "of_char c" 4 64] by linarith
  moreover have "(of_char c :: nat) div 8 mod 8 < 10" "(of_char c :: nat) mod 8 < 10"
    using mod_less_divisor [of 8 "of_char c div 8"] mod_less_divisor [of 8 "of_char c"] by linarith+
  ultimately show ?thesis
    by (simp add: octal3_def is_base_digit_char del: mod_less_divisor)
qed

lemma escape_ok:
  "check_escapes (mtree_escape s @ rest) = check_escapes rest \<and>
   CHR '' '' \<notin> set (mtree_escape s) \<and> CHR 0x09 \<notin> set (mtree_escape s) \<and>
   (s \<noteq> [] \<longrightarrow> mtree_escape s \<noteq> [] \<and> last (mtree_escape s) \<noteq> CHR 0x5C)"
proof (induction s)
  case (Cons c cs)
  show ?case
  proof (cases "mtree_plain c")
    case True
    then have "ordinary c" by (rule mtree_plain_ordinary)
    then show ?thesis using Cons True by (auto simp: ordinary_def)
  next
    case False
    obtain x y z where o3: "octal3 (of_char c) = [x, y, z]" by (simp add: octal3_def)
    have d: "is_base_digit 10 x" "is_base_digit 10 y" "is_base_digit 10 z"
      using octal3_digits [of c] by (simp_all add: o3)
    note o' = base_digit_ordinary [OF d(1)] base_digit_ordinary [OF d(2)] base_digit_ordinary [OF d(3)]
    show ?thesis using Cons False o' by (auto simp: o3 ordinary_def)
  qed
qed simp

lemma token_ok_keyword:
  assumes "list_all ordinary k" and "token_ok v \<or> v = []"
  shows "token_ok (keyword k v)"
proof -
  have "list_all ordinary (k @ ''='')" using assms(1) by (simp add: ordinary_def)
  then have "check_escapes (keyword k v @ rest) = check_escapes rest" for rest
    using check_escapes_ordinary [of "k @ ''=''" "v @ rest"] assms(2) by (auto simp: keyword_def token_ok_def)
  moreover have "keyword k v \<noteq> [] \<and> last (keyword k v) \<noteq> CHR 0x5C"
    using assms(2) by (cases "v = []") (auto simp: keyword_def token_ok_def)
  moreover have "set (keyword k v) = set k \<union> {CHR ''=''} \<union> set v" by (auto simp: keyword_def)
  moreover have "CHR '' '' \<notin> set k \<and> CHR 0x09 \<notin> set k"
    using assms(1) by (auto simp: list_all_iff ordinary_def)
  moreover have "CHR '' '' \<notin> set v \<and> CHR 0x09 \<notin> set v" using assms(2) by (auto simp: token_ok_def)
  ultimately show ?thesis unfolding token_ok_def by simp
qed

lemma token_ok_escape: "s \<noteq> [] \<Longrightarrow> token_ok (mtree_escape s)"
  using escape_ok [of s] by (auto simp: token_ok_def)

lemma token_ok_digits: "list_all (is_base_digit b) ds \<Longrightarrow> ds \<noteq> [] \<Longrightarrow> token_ok ds"
  by (rule token_ok_ordinary) (auto simp: list_all_iff dest: base_digit_ordinary)

lemma token_ok_usec: "token_ok (print_usec u)"
proof (rule token_ok_ordinary)
  have "list_all ordinary (print_nat 10 n)" "list_all ordinary (fixed_digits 9 n)" for n
    using print_nat_digits [of 10 n] fixed_digits_digits [of 9 n]
    by (auto simp: list_all_iff dest: base_digit_ordinary)
  then show "list_all ordinary (print_usec u)" by (simp add: print_usec_def ordinary_def)
qed (simp add: print_usec_def)

lemma kind_nick_ordinary: "list_all ordinary (kind_nick k)" "kind_nick k \<noteq> []"
  by (cases k; simp add: kind_nick_def kind_nicks_def ordinary_def)+

lemma entry_tokens_ok: "entry_ok e \<Longrightarrow> t \<in> set (entry_tokens e) \<Longrightarrow> token_ok t"
proof -
  assume e: "entry_ok e" and t: "t \<in> set (entry_tokens e)"
  have v: "token_ok (mtree_escape s) \<or> mtree_escape s = []" for s
    using token_ok_escape [of s] by (cases s) auto
  have n: "token_ok (print_nat b m)" if "2 \<le> b" "b \<le> 10" for b m
    using token_ok_digits [OF print_nat_digits [OF that] print_nat_nonempty] .
  have h: "token_ok h" if "sha256 e = Some h" for h
    using e that by (auto simp: entry_ok_def list_all_iff intro!: token_ok_ordinary mtree_plain_ordinary)
  have k: "token_ok (kind_nick k)" for k by (intro token_ok_ordinary kind_nick_ordinary)
  show ?thesis using t
    by (auto simp: entry_tokens_def ordinary_def n h k token_ok_usec
        intro!: token_ok_keyword [OF _ v] token_ok_keyword [OF _ disjI1] intro: token_ok_ordinary
        split: if_splits option.splits)
qed

lemma join_tokens:
  assumes "\<And>t. t \<in> set ts \<Longrightarrow> token_ok t" "ts \<noteq> []"
  shows "check_escapes (g_strjoinv '' '' ts) \<and> last (g_strjoinv '' '' ts) \<noteq> CHR 0x5C \<and> g_strjoinv '' '' ts \<noteq> []"
  using assms
proof (induction "'' ''" ts rule: g_strjoinv.induct)
  case (2 x)
  then have "token_ok x" by simp
  then show ?case unfolding token_ok_def by (metis append_Nil2 check_escapes.simps(1) g_strjoinv.simps(2))
next
  case (3 x y ys)
  have IH: "check_escapes (g_strjoinv '' '' (y # ys)) \<and> last (g_strjoinv '' '' (y # ys)) \<noteq> CHR 0x5C \<and>
      g_strjoinv '' '' (y # ys) \<noteq> []"
    by (rule "3.hyps") (use 3 in auto)
  have "token_ok x" using 3 by simp
  then have "check_escapes (x @ '' '' @ g_strjoinv '' '' (y # ys)) = check_escapes ('' '' @ g_strjoinv '' '' (y # ys))"
    by (simp only: token_ok_def)
  then show ?case using IH by simp
qed simp

text \<open>C36: Round trip: for every well-formed entry (a name \<open>.\<close> or below \<open>./\<close>, a known type with a
  link target exactly for links, values in their ranges), parsing the line that describes it
  gives back the entry, every field of it, if \<open>g_strcompress\<close> undoes octal escapes. So names
  and link targets may contain any bytes, and times are exact to the microsecond.\<close>

theorem pv_mtree_entry_parse_roundtrip:
  assumes "octal_compress (g_strcompress G)" and "entry_ok e"
  shows "pv_mtree_entry_parse G (print_entry e) = Inr e"
proof -
  obtain n where n: "name e = Some n" "n = ''.'' \<or> take 2 n = ''./''" using assms(2) by (auto simp: entry_ok_def)
  then obtain m where nm: "n = CHR ''.'' # m" "m = [] \<or> hd m = CHR ''/''"
    by (cases n; cases "tl n") auto
  let ?ts = "mtree_escape n # entry_tokens e" and ?line = "print_entry e"
  have line: "?line = g_strjoinv '' '' ?ts" by (simp add: print_entry_def n)
  have ok: "token_ok t" if "t \<in> set ?ts" for t
    using that entry_tokens_ok [OF assms(2)] token_ok_escape [of n] nm by auto
  have joined: "check_escapes ?line \<and> last ?line \<noteq> CHR 0x5C \<and> ?line \<noteq> []"
    unfolding line by (rule join_tokens) (use ok in auto)
  have split: "g_strsplit_set ?line [CHR '' '', CHR 0x09] = ?ts"
  proof -
    have "split_on (\<lambda>c. c \<in> set [CHR '' '', CHR 0x09]) ?line = ?ts" unfolding line
      by (rule split_on_join) (use ok in \<open>auto simp: token_ok_def\<close>)
    then show ?thesis using joined by (simp add: g_strsplit_set_def)
  qed
  have dot: "mtree_plain CHR ''.''" "mtree_plain CHR ''/''" by (simp_all add: mtree_plain_def)
  have ne: "entry_tokens e \<noteq> []" by (simp add: entry_tokens_def)
  then obtain t0 ts0 where et: "entry_tokens e = t0 # ts0" by (cases "entry_tokens e") auto
  have hd: "hd ?line = CHR ''.''" "hd (tl ?line) = CHR '' '' \<or> hd (tl ?line) = CHR ''/''" "?line \<noteq> []"
    unfolding line using nm dot by (cases m; simp add: et)+
  have suffix: "\<not> g_str_has_suffix ?line [CHR 0x5C]"
    using joined by (auto simp: g_str_has_suffix_iff)
  have tokens: "parse_tokens G (PV_MTREE_ENTRY_BLANK\<lparr> name := Some (g_strcompress G (mtree_escape n)) \<rparr>) (entry_tokens e) = Inr e"
    using parse_entry_tokens [OF assms] by (simp add: n octal_compress.compress_escape [OF assms(1)] blank_named_def)
  have "check_entry e = Inr e" using assms(2) by (auto simp: check_entry_def entry_ok_def)
  then show ?thesis unfolding pv_mtree_entry_parse_def pv_mtree_entry_parse_internal_def split
    using hd suffix joined tokens by auto
qed


text \<open>The reference instance undoes the escapes.\<close>

lemma octal3_compress: "ref_strcompress (CHR 0x5C # octal3 (of_char c) @ rest) = c # ref_strcompress rest"
proof -
  let ?n = "of_char c :: nat"
  have n: "?n < 256" by simp
  obtain x y z where o3: "octal3 ?n = [x, y, z]" by (simp add: octal3_def)
  have "?n div 64 < 8" using less_mult_imp_div_less [of ?n 4 64] n by linarith
  moreover have "?n div 8 mod 8 < 8" "?n mod 8 < 8" by simp_all
  ultimately have "list_all (is_base_digit 8) [x, y, z]"
    unfolding o3 [symmetric] octal3_def using is_base_digit_char [of _ 8] by simp
  moreover have "digits_value 8 [x, y, z] = ?n"
    using octal3_value [OF n o3] by (simp add: digits_value_def)
  ultimately show ?thesis unfolding o3 by simp
qed

interpretation ref_compress: octal_compress "g_strcompress glib_ref"
proof
  fix s
  have "ref_strcompress (mtree_escape s) = s"
  proof (induction s)
    case (Cons c cs)
    show ?case
    proof (cases "mtree_plain c")
      case True
      then have "c \<noteq> CHR 0x5C" using mtree_plain_ordinary by (auto simp: ordinary_def)
      then show ?thesis using Cons True by simp
    qed (use Cons octal3_compress in simp)
  qed simp
  then show "g_strcompress glib_ref (mtree_escape s) = s" by (simp add: glib_ref_def)
qed

theorem pv_mtree_entry_parse_roundtrip_witness:
  "let e = \<lparr> name = Some ''./a b'', contents = None, link = Some ''../x=y'', sha256 = None, fsize = - 1,
      mtime_usec = 1600000000123456, mode = 511, kind = KIND_LINK, entry_flags = {OPTIONAL} \<rparr>
   in pv_mtree_entry_parse glib_ref (print_entry e) = Inr e"
  unfolding Let_def
  by (rule pv_mtree_entry_parse_roundtrip [OF ref_compress.octal_compress_axioms]) (simp add: entry_ok_def)

end
