(* ===== verification/MtreeApply.thy ===== *)
theory MtreeApply imports Mtree Sysroot begin

text \<open>
  \<open>pressure-vessel/mtree.c\<close>, the loop over a manifest and applying it to a directory tree.
  \<open>pv_mtree_foreach\<close> takes its callbacks as functions over the state that the C code passes as
  \<open>user_data\<close>. File names and line numbers that only occur in messages are left out; what is
  logged is kept as the level and the kind of each message, because the level is state.
\<close>

section \<open>Iterating over a manifest\<close>

datatype apply_flag = GZIP | EXPECT_HARD_LINKS | CHMOD_MAY_FAIL | MINIMIZED_RUNTIME

text \<open>
  What a callback reports: it succeeded, or it failed with an error, or it returned false
  without setting one (\<^const>\<open>None\<close>). A function that dereferences a null error crashes.
\<close>

type_synonym failure = "gerror option"

datatype 'a outcome =
    Ret 'a          \<comment> \<open>the function returned\<close>
  | Crash           \<comment> \<open>a null pointer was dereferenced\<close>
  | Out_of_fuel     \<comment> \<open>the fuel of a path resolution was used up\<close>

type_synonym ('w, 's) callback =
  "mtree_entry \<Rightarrow> apply_flag set \<Rightarrow> 's \<Rightarrow> ('w, ('s \<times> (failure + unit)) outcome) state"

text \<open>\<open>on_error_cb\<close> gets the error that the callback set, which may be a null pointer.\<close>

type_synonym 's error_callback = "failure \<Rightarrow> 's \<Rightarrow> 's outcome"

fun foreach_lines :: "glib \<Rightarrow> apply_flag set \<Rightarrow> ('w, 's) callback \<Rightarrow> 's error_callback option \<Rightarrow>
    string list \<Rightarrow> gerror option \<Rightarrow> 's \<Rightarrow> ('w, ('s \<times> (failure + unit)) outcome) state" where
  "foreach_lines G flags cb on_error [] end_error s =
     State_Monad.return (Ret (s, case end_error of Some e \<Rightarrow> Inl (Some e) | None \<Rightarrow> Inr ()))"
| "foreach_lines G flags cb on_error (line # lines) end_error s =
     (case pv_mtree_entry_parse G (g_strstrip line) of
        Inl e \<Rightarrow> State_Monad.return (Ret (s, Inl (Some e)))
      | Inr entry \<Rightarrow>
          if name entry = None \<or> name entry = Some ''.''
          then foreach_lines G flags cb on_error lines end_error s
          else do {
            r \<leftarrow> cb entry flags s;
            (case r of
               Ret (s', Inr _) \<Rightarrow> foreach_lines G flags cb on_error lines end_error s'
             | Ret (s', Inl e) \<Rightarrow>
                 (case on_error of
                    None \<Rightarrow> State_Monad.return (Ret (s', Inl e))
                  | Some h \<Rightarrow>
                      (case h e s' of
                         Ret s'' \<Rightarrow> foreach_lines G flags cb on_error lines end_error s''
                       | Crash \<Rightarrow> State_Monad.return Crash
                       | Out_of_fuel \<Rightarrow> State_Monad.return Out_of_fuel))
             | Crash \<Rightarrow> State_Monad.return Crash
             | Out_of_fuel \<Rightarrow> State_Monad.return Out_of_fuel) })"

definition pv_mtree_foreach :: "glib \<Rightarrow> 'w kernel \<Rightarrow> string \<Rightarrow> apply_flag set \<Rightarrow> ('w, 's) callback \<Rightarrow>
    's error_callback option \<Rightarrow> 's \<Rightarrow> ('w, ('s \<times> (failure + unit)) outcome) state" where
  "pv_mtree_foreach G K mtree flags cb on_error s = do {
     fd \<leftarrow> glnx_openat_rdonly K AT_FDCWD mtree True;
     (case fd of
        Inl e \<Rightarrow> State_Monad.return (Ret (s, Inl (Some e)))
      | Inr mtree_fd \<Rightarrow> do {
          stream \<leftarrow> sys_read_lines K mtree_fd (GZIP \<in> flags);
          r \<leftarrow> foreach_lines G flags cb on_error (fst stream) (snd stream) s;
          glnx_close_fd K mtree_fd;
          State_Monad.return r }) }"

section \<open>Permissions\<close>

datatype log_level = LEVEL_WARNING | LEVEL_INFO

datatype log_kind = Chmod_plusx | Chmod_minusx | Set_mtime | No_hard_link

record apply_state =
  ap_sysroot_fd :: fd
  ap_source_files_fd :: fd
  chmod_plusx_warning_level :: log_level
  chmod_minusx_warning_level :: log_level
  set_mtime_warning_level :: log_level
  logged_messages :: "(log_level \<times> log_kind) list"

definition log_message :: "log_level \<Rightarrow> log_kind \<Rightarrow> apply_state \<Rightarrow> apply_state" where
  "log_message l k s = s\<lparr> logged_messages := logged_messages s @ [(l, k)] \<rparr>"

definition has_x :: "int \<Rightarrow> bool" where
  "has_x m = (m AND 73 \<noteq> 0)"       \<comment> \<open>0111\<close>

definition adjusted_mode :: "mtree_entry \<Rightarrow> nat" where
  "adjusted_mode entry =
     (if kind entry = KIND_DIR \<or> (mode entry \<ge> 0 \<and> has_x (mode entry)) then 493 else 420)"   \<comment> \<open>0755, 0644\<close>

definition maybe_chmod :: "'w kernel \<Rightarrow> mtree_entry \<Rightarrow> fd \<Rightarrow> string \<Rightarrow> fd \<Rightarrow> apply_flag set \<Rightarrow> apply_state \<Rightarrow>
    ('w, apply_state \<times> (gerror + unit)) state" where
  "maybe_chmod K entry parent_fd base fd flags s =
     (if NO_CHANGE \<in> entry_flags entry then State_Monad.return (s, Inr ())
      else do {
        r \<leftarrow> sys_fchmod K fd (adjusted_mode entry);
        (case r of
           Inr _ \<Rightarrow> State_Monad.return (s, Inr ())
         | Inl saved_errno \<Rightarrow> do {
             _ \<leftarrow> sys_fstatat K fd [] {AT_EMPTY_PATH};
             (if saved_errno = EPERM \<and> CHMOD_MAY_FAIL \<in> flags then
                (if has_x (int (adjusted_mode entry)) then do {
                   a \<leftarrow> sys_faccessat K parent_fd base {R_OK, X_OK};
                   State_Monad.return (case a of
                       Inr _ \<Rightarrow> ((log_message (chmod_plusx_warning_level s) Chmod_plusx s)
                          \<lparr> chmod_plusx_warning_level := LEVEL_INFO \<rparr>, Inr ())
                     | Inl _ \<Rightarrow> (s, Inl (throw_errno saved_errno))) }
                 else do {
                   a \<leftarrow> sys_faccessat K parent_fd base {R_OK};
                   State_Monad.return (case a of
                       Inr _ \<Rightarrow> ((log_message (chmod_minusx_warning_level s) Chmod_minusx s)
                          \<lparr> chmod_minusx_warning_level := LEVEL_INFO \<rparr>, Inr ())
                     | Inl _ \<Rightarrow> (s, Inl (throw_errno saved_errno))) })
              else State_Monad.return (s, Inl (throw_errno saved_errno))) }) })"

section \<open>Applying an entry\<close>

text \<open>A regular file. The result is the descriptor, which is negative if nothing was opened. The
  error of \<open>linkat\<close> is only logged.\<close>

definition apply_copy :: "'w kernel \<Rightarrow> mtree_entry \<Rightarrow> apply_flag set \<Rightarrow> fd \<Rightarrow> string \<Rightarrow> string \<Rightarrow> apply_state \<Rightarrow>
    ('w, apply_state \<times> (gerror + unit)) state" where
  "apply_copy K entry flags parent_fd base source s = do {
     l \<leftarrow> sys_linkat K (ap_source_files_fd s) source parent_fd base;
     (case l of
        Inr _ \<Rightarrow> State_Monad.return (s, Inr ())
      | Inl link_errno \<Rightarrow> do {
          c \<leftarrow> sys_file_copy K (ap_source_files_fd s) source parent_fd base;
          State_Monad.return (case c of
              Inl e \<Rightarrow> (s, Inl e)
            | Inr _ \<Rightarrow> (if EXPECT_HARD_LINKS \<in> flags then log_message LEVEL_WARNING No_hard_link s else s, Inr ())) }) }"

definition apply_file :: "'w kernel \<Rightarrow> mtree_entry \<Rightarrow> apply_flag set \<Rightarrow> fd \<Rightarrow> string \<Rightarrow> apply_state \<Rightarrow>
    ('w, apply_state \<times> (gerror + fd)) state" where
  "apply_file K entry flags parent_fd base s =
     (if fsize entry = 0 then do {
        r \<leftarrow> k_openat K parent_fd base {O_RDWR, O_CLOEXEC, O_NOCTTY, O_NOFOLLOW, O_CREAT, O_TRUNC};
        State_Monad.return (s, case r of Inl e \<Rightarrow> Inl (throw_errno e) | Inr fd \<Rightarrow> Inr fd) }
      else do {
        r \<leftarrow> (if ap_source_files_fd s \<ge> 0 then do {
               let source = (case contents entry of Some c \<Rightarrow> c | None \<Rightarrow> the (name entry));
               existing \<leftarrow> glnx_openat_rdonly K parent_fd base False;
               (case existing of
                  Inr fd \<Rightarrow> State_Monad.return (s, Inr fd)
                | Inl _ \<Rightarrow> do {
                    r \<leftarrow> apply_copy K entry flags parent_fd base source s;
                    State_Monad.return (fst r, case snd r of Inl e \<Rightarrow> Inl e | Inr _ \<Rightarrow> Inr (- 1)) }) }
             else State_Monad.return (s, Inr (- 1)));
        (case snd r of
           Inl e \<Rightarrow> State_Monad.return (fst r, Inl e)
         | Inr fd \<Rightarrow>
             if fd < 0 \<and> OPTIONAL \<notin> entry_flags entry then do {
               o' \<leftarrow> glnx_openat_rdonly K parent_fd base False;
               State_Monad.return (fst r, o') }
             else State_Monad.return (fst r, Inr fd)) })"

definition apply_dir :: "'w kernel \<Rightarrow> fd \<Rightarrow> string \<Rightarrow> ('w, fd) io" where
  "apply_dir K parent_fd base = do {
     d \<leftarrow> glnx_ensure_dir K parent_fd base 493;
     (case d of
        Inl e \<Rightarrow> State_Monad.return (Inl e)
      | Inr _ \<Rightarrow> glnx_opendirat K parent_fd base False) }"

definition apply_link :: "'w kernel \<Rightarrow> mtree_entry \<Rightarrow> fd \<Rightarrow> string \<Rightarrow> ('w, fd) io" where
  "apply_link K entry parent_fd base = do {
     target \<leftarrow> glnx_readlinkat_malloc K parent_fd base;
     (case target of
        Inr _ \<Rightarrow> State_Monad.return (Inr (- 1))
      | Inl _ \<Rightarrow> do {
          r \<leftarrow> sys_symlinkat K (the (link entry)) parent_fd base;
          State_Monad.return (case r of Inl e \<Rightarrow> Inl (throw_errno e) | Inr _ \<Rightarrow> Inr (- 1)) }) }"

definition apply_kind :: "'w kernel \<Rightarrow> mtree_entry \<Rightarrow> apply_flag set \<Rightarrow> fd \<Rightarrow> string \<Rightarrow> apply_state \<Rightarrow>
    ('w, apply_state \<times> (gerror + fd)) state" where
  "apply_kind K entry flags parent_fd base s =
     (case kind entry of
        KIND_FILE \<Rightarrow> apply_file K entry flags parent_fd base s
      | KIND_DIR \<Rightarrow> do { r \<leftarrow> apply_dir K parent_fd base; State_Monad.return (s, r) }
      | KIND_LINK \<Rightarrow> do { r \<leftarrow> apply_link K entry parent_fd base; State_Monad.return (s, r) }
      | _ \<Rightarrow> State_Monad.return (s, Inl io_failed))"

text \<open>The modification time, in seconds and nanoseconds (the division of C truncates).\<close>

definition mtime_spec :: "int \<Rightarrow> int \<times> int" where
  "mtime_spec usec = (usec div 1000000, (usec mod 1000000) * 1000)"

definition apply_mtime :: "'w kernel \<Rightarrow> mtree_entry \<Rightarrow> fd \<Rightarrow> apply_state \<Rightarrow> ('w, apply_state) state" where
  "apply_mtime K entry fd s =
     (if mtime_usec entry \<ge> 0 \<and> fd \<ge> 0 \<and> NO_CHANGE \<notin> entry_flags entry \<and> kind entry = KIND_FILE then do {
        r \<leftarrow> sys_futimens K fd (mtime_spec (mtime_usec entry));
        State_Monad.return (case r of
            Inl _ \<Rightarrow> (log_message (set_mtime_warning_level s) Set_mtime s)\<lparr> set_mtime_warning_level := LEVEL_INFO \<rparr>
          | Inr _ \<Rightarrow> s) }
      else State_Monad.return s)"

text \<open>Everything after the parent directory is open.\<close>

definition apply_in_parent :: "'w kernel \<Rightarrow> mtree_entry \<Rightarrow> apply_flag set \<Rightarrow> fd \<Rightarrow> string \<Rightarrow> apply_state \<Rightarrow>
    ('w, apply_state \<times> (gerror + unit)) state" where
  "apply_in_parent K entry flags parent_fd base s = do {
     r \<leftarrow> apply_kind K entry flags parent_fd base s;
     (case snd r of
        Inl e \<Rightarrow> State_Monad.return (fst r, Inl e)
      | Inr fd \<Rightarrow> do {
          c \<leftarrow> (if fd \<ge> 0 then maybe_chmod K entry parent_fd base fd flags (fst r)
               else State_Monad.return (fst r, Inr ()));
          (case snd c of
             Inl e \<Rightarrow> do { glnx_close_fd K fd; State_Monad.return (fst c, Inl e) }
           | Inr _ \<Rightarrow> do {
               s' \<leftarrow> apply_mtime K entry fd (fst c);
               glnx_close_fd K fd;
               State_Monad.return (s', Inr ()) }) }) }"

definition pv_mtree_foreach_apply_cb :: "nat \<Rightarrow> glib \<Rightarrow> 'w kernel \<Rightarrow> ('w, apply_state) callback" where
  "pv_mtree_foreach_apply_cb fuel G K entry flags s = do {
     let parent = g_path_get_dirname G (the (name entry));
     let base = glnx_basename (the (name entry));
     r \<leftarrow> srt_resolve_in_sysroot fuel G K (ap_sysroot_fd s) parent {MKDIR_P};
     (case r of
        None \<Rightarrow> State_Monad.return Out_of_fuel
      | Some (Inl PRECONDITION_FAILED) \<Rightarrow> State_Monad.return (Ret (s, Inl None))
      | Some (Inl e) \<Rightarrow> State_Monad.return (Ret (s, Inl (Some e)))
      | Some (Inr (parent_fd, _)) \<Rightarrow> do {
          x \<leftarrow> apply_in_parent K entry flags parent_fd base s;
          glnx_close_fd K parent_fd;
          State_Monad.return (Ret (fst x, case snd x of Inl e \<Rightarrow> Inl (Some e) | Inr _ \<Rightarrow> Inr ())) }) }"

definition pv_mtree_apply :: "nat \<Rightarrow> glib \<Rightarrow> 'w kernel \<Rightarrow> string \<Rightarrow> fd \<Rightarrow> string option \<Rightarrow> apply_flag set \<Rightarrow>
    ('w, (apply_state option \<times> (failure + unit)) outcome) state" where
  "pv_mtree_apply fuel G K mtree sysroot_fd source_files flags =
     (if \<not> sysroot_fd \<ge> 0 then State_Monad.return (Ret (None, Inl None))
      else do {
        src \<leftarrow> (case source_files of
            None \<Rightarrow> State_Monad.return (Inr (- 1))
          | Some p \<Rightarrow> glnx_opendirat K AT_FDCWD p False);
        (case src of
           Inl e \<Rightarrow> State_Monad.return (Ret (None, Inl (Some e)))
         | Inr source_files_fd \<Rightarrow> do {
             r \<leftarrow> pv_mtree_foreach G K mtree flags (pv_mtree_foreach_apply_cb fuel G K) None
               \<lparr> ap_sysroot_fd = sysroot_fd, ap_source_files_fd = source_files_fd,
                 chmod_plusx_warning_level = LEVEL_WARNING, chmod_minusx_warning_level = LEVEL_WARNING,
                 set_mtime_warning_level = LEVEL_WARNING, logged_messages = [] \<rparr>;
             glnx_close_fd K source_files_fd;
             State_Monad.return (case r of
                 Ret (s, x) \<Rightarrow> Ret (Some s, x) | Crash \<Rightarrow> Crash | Out_of_fuel \<Rightarrow> Out_of_fuel) }) })"

end
