(* ===== verification/MtreeConfine.thy ===== *)
theory MtreeConfine imports MtreeApply SysrootConfine MemKernel begin

text \<open>
  What applying a manifest does to the file system (\<open>pressure-vessel/mtree.c\<close>,
  \<open>pv_mtree_foreach_apply_cb\<close>): every call works on one safe element of a directory that was
  opened below the sysroot, and no descriptor leaks, provided that no entry is called \<open>..\<close>; an
  entry that is called \<open>..\<close> reaches the parent directory of the sysroot. Also here: how often the
  warnings of a run can occur.
\<close>


section \<open>Which calls applying a manifest may make\<close>

text \<open>Below the sysroot, one safe element of a directory that was opened below it; the source
  directory only as the source of a link or copy. \<open>src\<close> is its descriptor.\<close>

fun apply_confined :: "fd \<Rightarrow> fd \<Rightarrow> fd set \<Rightarrow> call \<Rightarrow> bool" where
  "apply_confined root src known (C_openat fd p fl r) =
     (call_confined root known (C_openat fd p fl r) \<or> fd \<in> known \<and> safe_elem p \<and> O_NOFOLLOW \<in> fl)"
| "apply_confined root src known (C_readlinkat fd p r) = (fd \<in> known \<and> (p = [] \<or> safe_elem p))"
| "apply_confined root src known (C_faccessat fd p r) = (fd \<in> known \<and> safe_elem p)"
| "apply_confined root src known (C_linkat sfd s fd p r) = (sfd = src \<and> fd \<in> known \<and> safe_elem p)"
| "apply_confined root src known (C_file_copy sfd s fd p r) = (sfd = src \<and> fd \<in> known \<and> safe_elem p)"
| "apply_confined root src known (C_symlinkat t fd p r) = (fd \<in> known \<and> safe_elem p)"
| "apply_confined root src known (C_fchmod fd m r) = (fd \<in> known)"
| "apply_confined root src known (C_futimens fd r) = (fd \<in> known)"
| "apply_confined root src known c = call_confined root known c"

fun all_confined :: "(fd set \<Rightarrow> call \<Rightarrow> bool) \<Rightarrow> fd set \<Rightarrow> call list \<Rightarrow> bool" where
  "all_confined Q known [] = True"
| "all_confined Q known (c # cs) = (Q known c \<and> all_confined Q (known \<union> set_mset (opened1 c)) cs)"

lemma opened_Cons: "opened (c # cs) = opened1 c + opened cs"
  by (simp add: opened_def)

lemma all_confined_append:
  "all_confined Q known (l @ m) \<longleftrightarrow> all_confined Q known l \<and> all_confined Q (known \<union> set_mset (opened l)) m"
  by (induction l arbitrary: known) (auto simp: opened_Cons Un_assoc)

lemma call_confined_mono: "call_confined root known c \<Longrightarrow> known \<subseteq> known' \<Longrightarrow> call_confined root known' c"
  by (cases c) (auto simp: via_proc_def)

lemma apply_confined_call: "call_confined root known c \<Longrightarrow> apply_confined root src known c"
  by (cases c) auto

lemma confined_all:
  "confined root known l \<Longrightarrow> known \<subseteq> known' \<Longrightarrow> all_confined (apply_confined root src) known' l"
proof (induction l arbitrary: known known')
  case (Cons c l)
  have "apply_confined root src known' c"
    using Cons.prems call_confined_mono apply_confined_call by fastforce
  moreover have "all_confined (apply_confined root src) (known' \<union> set_mset (opened1 c)) l"
    by (rule Cons.IH [of "known \<union> set_mset (opened1 c)"]) (use Cons.prems in auto)
  ultimately show ?case by simp
qed simp

section \<open>The invariant\<close>

definition ap_inv :: "fd \<Rightarrow> fd \<Rightarrow> fd multiset \<Rightarrow> 'w \<times> call list \<Rightarrow> bool" where
  "ap_inv root src F = (\<lambda>(w, l). all_confined (apply_confined root src) {} l \<and>
     opened l = closed l + F \<and> (\<forall>f \<in># F. 0 \<le> f))"

lemma ap_inv_step:
  assumes "ap_inv root src F (w, l)"
    and "\<And>known. set_mset F \<subseteq> known \<Longrightarrow> apply_confined root src known c"
    and "F' + closed1 c = F + opened1 c" and "\<forall>f \<in># F'. f \<in># F \<or> 0 \<le> f"
  shows "ap_inv root src F' (w', l @ [c])"
proof -
  from assms(1) have l: "all_confined (apply_confined root src) {} l" "opened l = closed l + F" "\<forall>f \<in># F. 0 \<le> f"
    by (auto simp: ap_inv_def)
  have "set_mset F \<subseteq> set_mset (opened l)" by (auto simp: l(2))
  then have "all_confined (apply_confined root src) {} (l @ [c])"
    using assms(2) l(1) by (simp add: all_confined_append)
  moreover have "opened (l @ [c]) = closed (l @ [c]) + F'" using assms(3) l(2) by (simp add: add_ac)
  moreover have "\<forall>f \<in># F'. 0 \<le> f" using assms(4) l(3) by blast
  ultimately show ?thesis by (simp add: ap_inv_def)
qed

text \<open>A call that opens and closes nothing.\<close>

lemma ap_inv_call:
  assumes "\<And>r known. set_mset F \<subseteq> known \<Longrightarrow> apply_confined root src known (c r)"
    "\<And>r. opened1 (c r) = {#}" "\<And>r. closed1 (c r) = {#}"
  shows "hoare (ap_inv root src F) (log_call m c) (\<lambda>_. ap_inv root src F)"
proof (rule hoare_log_call)
  fix w l r w'
  assume "ap_inv root src F (w, l)"
  then show "ap_inv root src F (w', l @ [c r])"
    by (rule ap_inv_step) (use assms in auto)
qed

lemma ap_openat:
  assumes "d \<in># F" "safe_elem p" "O_NOFOLLOW \<in> fl"
  shows "hoare (ap_inv root src F) (k_openat (logged K) d p fl)
    (post (\<lambda>e. ap_inv root src F) (\<lambda>fd. ap_inv root src (F + {#fd#})))"
  unfolding k_openat_def
proof (rule hoare_wrap [where R = "\<lambda>r. case r of Inl _ \<Rightarrow> ap_inv root src F | Inr n \<Rightarrow> ap_inv root src (F + {#int n#})"])
  have "hoare (ap_inv root src F) (log_call (sys_openat K d p fl) (C_openat d p fl))
      (\<lambda>r. case r of Inl _ \<Rightarrow> ap_inv root src F | Inr n \<Rightarrow> ap_inv root src (F + {#int n#}))"
  proof (rule hoare_log_call)
    fix w l r w'
    assume inv: "ap_inv root src F (w :: 'a, l)"
    show "(case r of Inl _ \<Rightarrow> ap_inv root src F | Inr n \<Rightarrow> ap_inv root src (F + {#int n#})) (w', l @ [C_openat d p fl r])"
    proof (cases r)
      case (Inl e)
      have "ap_inv root src F (w', l @ [C_openat d p fl r])"
        by (rule ap_inv_step [OF inv]) (use assms Inl in auto)
      then show ?thesis by (simp add: Inl)
    next
      case (Inr n)
      have "ap_inv root src (F + {#int n#}) (w', l @ [C_openat d p fl r])"
        by (rule ap_inv_step [OF inv]) (use assms Inr in auto)
      then show ?thesis by (simp add: Inr)
    qed
  qed
  then show "hoare (ap_inv root src F) (sys_openat (logged K) d p fl)
      (\<lambda>r. case r of Inl _ \<Rightarrow> ap_inv root src F | Inr n \<Rightarrow> ap_inv root src (F + {#int n#}))"
    by (simp add: logged_def)
qed (auto split: sum.splits)

lemma ap_close: "hoare (ap_inv root src (F + {#fd#})) (glnx_close_fd (logged K) fd) (\<lambda>_. ap_inv root src F)"
proof (cases "0 \<le> fd")
  case True
  have "hoare (ap_inv root src (F + {#fd#})) (log_call (sys_close K fd) (\<lambda>_. C_close fd)) (\<lambda>_. ap_inv root src F)"
    by (rule hoare_log_call, rule ap_inv_step, assumption) auto
  then show ?thesis using True by (simp add: glnx_close_fd_def logged_def)
qed (auto simp: ap_inv_def intro!: hoare_false)

lemma ap_no_close: "fd < 0 \<Longrightarrow> hoare P (glnx_close_fd (logged K) fd) (\<lambda>_. P)"
  by (simp add: glnx_close_fd_def hoare_return)

lemma ap_openat_rdonly:
  assumes "d \<in># F" "safe_elem p"
  shows "hoare (ap_inv root src F) (glnx_openat_rdonly (logged K) d p False)
    (post (\<lambda>e. ap_inv root src F) (\<lambda>fd. ap_inv root src (F + {#fd#})))"
  unfolding glnx_openat_rdonly_def
  by (rule hoare_wrap [OF ap_openat [OF assms]]) (auto split: sum.splits)

lemma ap_canonical:
  assumes "d \<in># F" "d \<noteq> - 1 \<Longrightarrow> hoare (ap_inv root src F) (m d) Q"
  shows "hoare (ap_inv root src F) (m (glnx_dirfd_canonicalize d)) Q"
proof (cases "d = - 1")
  case True
  then have "\<not> ap_inv root src F s" for s :: "'a \<times> call list" using assms(1) by (auto simp: ap_inv_def)
  then show ?thesis by (simp add: hoare_false)
qed (use assms in \<open>simp add: glnx_dirfd_canonicalize_def\<close>)

lemma ap_opendirat:
  assumes "d \<in># F" "safe_elem p"
  shows "hoare (ap_inv root src F) (glnx_opendirat (logged K) d p False)
    (post (\<lambda>e. ap_inv root src F) (\<lambda>fd. ap_inv root src (F + {#fd#})))"
  unfolding glnx_opendirat_def
  by (rule hoare_wrap, rule ap_canonical [OF assms(1)], rule ap_openat [OF assms]) (auto split: sum.splits)

lemma ap_calls:
  assumes "d \<in># F" "safe_elem p"
  shows "hoare (ap_inv root src F) (sys_linkat (logged K) src s d p) (\<lambda>_. ap_inv root src F)"
    "hoare (ap_inv root src F) (sys_file_copy (logged K) src s d p) (\<lambda>_. ap_inv root src F)"
    "hoare (ap_inv root src F) (sys_symlinkat (logged K) t d p) (\<lambda>_. ap_inv root src F)"
    "hoare (ap_inv root src F) (sys_faccessat (logged K) d p am) (\<lambda>_. ap_inv root src F)"
    "hoare (ap_inv root src F) (sys_mkdirat (logged K) d p mo) (\<lambda>_. ap_inv root src F)"
    "hoare (ap_inv root src F) (sys_readlinkat (logged K) d p) (\<lambda>_. ap_inv root src F)"
    "hoare (ap_inv root src F) (sys_fchmod (logged K) d mo) (\<lambda>_. ap_inv root src F)"
    "hoare (ap_inv root src F) (sys_futimens (logged K) d ts) (\<lambda>_. ap_inv root src F)"
    "hoare (ap_inv root src F) (sys_fstatat (logged K) d [] afl) (\<lambda>_. ap_inv root src F)"
  unfolding logged_def kernel.simps by (rule ap_inv_call; use assms in auto)+


text \<open>The resolver, started from any log.\<close>

lemma ap_resolve:
  "hoare (ap_inv root src F) (srt_resolve_in_sysroot n G (logged K) root p flags)
     (\<lambda>r s. case r of None \<Rightarrow> True
        | Some (Inl e) \<Rightarrow> ap_inv root src F s
        | Some (Inr (fd, q)) \<Rightarrow> ap_inv root src (F + {#fd#}) s)"
proof (rule hoareI)
  fix s r s'
  assume inv: "ap_inv root src F s" and run: "run_state (srt_resolve_in_sysroot n G (logged K) root p flags) s = (r, s')"
  obtain w l where s: "s = (w, l)" by (cases s)
  obtain r0 w' l' where r0: "run_state (srt_resolve_in_sysroot n G (logged K) root p flags) (w, []) = (r0, (w', l'))"
    by (cases "run_state (srt_resolve_in_sysroot n G (logged K) root p flags) (w, [])") auto
  have r: "r = r0" "s' = (w', l @ l')" using framesD [OF frames_resolve r0, of l] run by (auto simp: s)
  have inv': "all_confined (apply_confined root src) {} l" "opened l = closed l + F" "\<forall>f \<in># F. 0 \<le> f"
    using inv by (auto simp: s ap_inv_def)
  have ext: "ap_inv root src (F + D) (w', l @ l')" if "log_inv root D (w', l')" for D
    using that inv' confined_all [of root "{}" l' "set_mset (opened l)" src]
    by (auto simp: ap_inv_def log_inv_def all_confined_append)
  show "case r of None \<Rightarrow> True
        | Some (Inl e) \<Rightarrow> ap_inv root src F s'
        | Some (Inr (fd, q)) \<Rightarrow> ap_inv root src (F + {#fd#}) s'"
  proof (cases r0)
    case (Some res)
    have "result_post root flags res (w', l')" by (rule resolve_result [OF r0 [unfolded Some]])
    then show ?thesis using ext [of "{#}"] ext [of "{#fst (projr res)#}"] by (cases res) (auto simp: r Some result_post_cases)
  qed (simp add: r)
qed

section \<open>The pieces of the callback\<close>

text \<open>A descriptor that may be missing.\<close>

definition opt_fd :: "fd \<Rightarrow> fd multiset" where
  "opt_fd fd = (if fd < 0 then {#} else {#fd#})"

lemma ap_opt_close: "hoare (ap_inv root src (F + opt_fd fd)) (glnx_close_fd (logged K) fd) (\<lambda>_. ap_inv root src F)"
  using ap_close ap_no_close by (auto simp: opt_fd_def)

lemma ap_inv_opt: "ap_inv root src (F + {#fd#}) s \<Longrightarrow> ap_inv root src (F + opt_fd fd) s"
  by (cases s) (auto simp: opt_fd_def ap_inv_def)

lemma ap_maybe_chmod:
  assumes "d \<in># F" "fd \<in># F" "safe_elem base"
  shows "hoare (ap_inv root src F) (maybe_chmod (logged K) e d base fd flags s) (\<lambda>_. ap_inv root src F)"
proof -
  note d = ap_calls [OF assms(1,3)] and f = ap_calls [OF assms(2,3)]
  show ?thesis unfolding maybe_chmod_def
    by (intro hoare_if hoare_return hoare_bind [OF f(7)] hoare_sum hoare_bind [OF f(9)] hoare_wrap [OF d(4)])
qed

lemma ap_apply_copy:
  assumes "d \<in># F" "safe_elem base" "ap_source_files_fd s = src"
  shows "hoare (ap_inv root src F) (apply_copy (logged K) e flags d base source s)
    (\<lambda>r t. ap_inv root src F t \<and> ap_source_files_fd (fst r) = src \<and> ap_sysroot_fd (fst r) = ap_sysroot_fd s)"
proof -
  note d = ap_calls [OF assms(1,2)]
  show ?thesis unfolding apply_copy_def assms(3)
    by (rule hoare_bind [OF d(1)], rule hoare_sum, rule hoare_wrap [OF d(2)])
       (auto simp: log_message_def assms(3) split: sum.split intro: hoare_return)
qed

definition kind_post :: "fd \<Rightarrow> fd \<Rightarrow> fd multiset \<Rightarrow> apply_state \<Rightarrow> apply_state \<times> (gerror + fd) \<Rightarrow>
    'w \<times> call list \<Rightarrow> bool" where
  "kind_post root src F s r t = (ap_source_files_fd (fst r) = ap_source_files_fd s \<and>
     ap_sysroot_fd (fst r) = ap_sysroot_fd s \<and>
     (case snd r of Inl e \<Rightarrow> ap_inv root src F t | Inr fd \<Rightarrow> ap_inv root src (F + opt_fd fd) t))"

lemma ap_apply_file:
  assumes d: "d \<in># F" and base: "safe_elem base" and src: "ap_source_files_fd s = src"
  shows "hoare (ap_inv root src F) (apply_file (logged K) e flags d base s) (kind_post root src F s)"
proof -
  have again: "hoare (kind_post root src F s r) (case snd r of
           Inl er \<Rightarrow> State_Monad.return (fst r, Inl er)
         | Inr fd \<Rightarrow>
             if fd < 0 \<and> OPTIONAL \<notin> entry_flags e then do {
               o' \<leftarrow> glnx_openat_rdonly (logged K) d base False;
               State_Monad.return (fst r, o') }
             else State_Monad.return (fst r, Inr fd)) (kind_post root src F s)" for r
  proof (rule hoare_sum)
    fix er
    assume "snd r = Inl er"
    then show "hoare (kind_post root src F s r) (State_Monad.return (fst r, Inl er)) (kind_post root src F s)"
      by (intro hoare_return) (simp add: kind_post_def)
  next
    fix fd
    assume r: "snd r = Inr fd"
    show "hoare (kind_post root src F s r) (if fd < 0 \<and> OPTIONAL \<notin> entry_flags e then do {
               o' \<leftarrow> glnx_openat_rdonly (logged K) d base False;
               State_Monad.return (fst r, o') }
             else State_Monad.return (fst r, Inr fd)) (kind_post root src F s)"
    proof (rule hoare_if)
      assume fd: "fd < 0 \<and> OPTIONAL \<notin> entry_flags e"
      show "hoare (kind_post root src F s r) (do {
               o' \<leftarrow> glnx_openat_rdonly (logged K) d base False;
               State_Monad.return (fst r, o') }) (kind_post root src F s)"
      proof (cases "ap_source_files_fd (fst r) = ap_source_files_fd s \<and> ap_sysroot_fd (fst r) = ap_sysroot_fd s")
        case True
        have "hoare (kind_post root src F s r) (glnx_openat_rdonly (logged K) d base False)
            (post (\<lambda>e. ap_inv root src F) (\<lambda>fd. ap_inv root src (F + {#fd#})))"
          by (rule hoare_pre [OF ap_openat_rdonly [OF d base]]) (use r fd in \<open>simp add: kind_post_def opt_fd_def\<close>)
        then show ?thesis
          by (rule hoare_wrap) (auto simp: kind_post_def True ap_inv_opt split: sum.splits)
      qed (auto simp: kind_post_def intro: hoare_false)
    next
      show "hoare (kind_post root src F s r) (State_Monad.return (fst r, Inr fd)) (kind_post root src F s)"
        by (rule hoare_return) (use r in \<open>simp add: kind_post_def\<close>)
    qed
  qed
  have create: "hoare (ap_inv root src F) (do {
        r \<leftarrow> k_openat (logged K) d base {O_RDWR, O_CLOEXEC, O_NOCTTY, O_NOFOLLOW, O_CREAT, O_TRUNC};
        State_Monad.return (s, case r of Inl e \<Rightarrow> Inl (throw_errno e) | Inr fd \<Rightarrow> Inr fd) }) (kind_post root src F s)"
    by (rule hoare_wrap [OF ap_openat [OF d base]]) (auto simp: kind_post_def ap_inv_opt split: sum.splits)
  have copy: "hoare (ap_inv root src F) (do {
        r \<leftarrow> apply_copy (logged K) e flags d base source s;
        State_Monad.return (fst r, case snd r of Inl e \<Rightarrow> Inl e | Inr _ \<Rightarrow> Inr (- 1)) }) (kind_post root src F s)" for source
    by (rule hoare_wrap [OF ap_apply_copy [OF d base src]])
       (auto simp: kind_post_def src opt_fd_def split: sum.split)
  have existing: "hoare (ap_inv root src F) (do {
               existing \<leftarrow> glnx_openat_rdonly (logged K) d base False;
               (case existing of
                  Inr fd \<Rightarrow> State_Monad.return (s, Inr fd)
                | Inl _ \<Rightarrow> do {
                    r \<leftarrow> apply_copy (logged K) e flags d base source s;
                    State_Monad.return (fst r, case snd r of Inl e \<Rightarrow> Inl e | Inr _ \<Rightarrow> Inr (- 1)) }) })
      (kind_post root src F s)" for source
  proof (rule hoare_bind [OF ap_openat_rdonly [OF d base]], rule hoare_sum)
    fix x :: "gerror + fd" and er
    assume "x = Inl er"
    then show "hoare (post (\<lambda>e. ap_inv root src F) (\<lambda>fd. ap_inv root src (F + {#fd#})) x) (do {
                    r \<leftarrow> apply_copy (logged K) e flags d base source s;
                    State_Monad.return (fst r, case snd r of Inl e \<Rightarrow> Inl e | Inr _ \<Rightarrow> Inr (- 1)) })
        (kind_post root src F s)" using copy by simp
  next
    fix x :: "gerror + fd" and fd
    assume "x = Inr fd"
    then show "hoare (post (\<lambda>e. ap_inv root src F) (\<lambda>fd. ap_inv root src (F + {#fd#})) x)
        (State_Monad.return (s, Inr fd)) (kind_post root src F s)"
      by (intro hoare_return) (auto simp: kind_post_def ap_inv_opt)
  qed
  have none: "hoare (ap_inv root src F) (State_Monad.return (s, Inr (- 1))) (kind_post root src F s)"
    by (rule hoare_return) (simp add: kind_post_def opt_fd_def)
  show ?thesis unfolding apply_file_def Let_def
    by (rule hoare_if [OF create], rule hoare_bind, rule hoare_if [OF existing none], rule again)
qed

lemma ap_apply_dir:
  assumes d: "d \<in># F" and base: "safe_elem base"
  shows "hoare (ap_inv root src F) (apply_dir (logged K) d base)
    (post (\<lambda>e. ap_inv root src F) (\<lambda>fd. ap_inv root src (F + {#fd#})))"
proof -
  have "hoare (ap_inv root src F) (glnx_ensure_dir (logged K) d base 493) (\<lambda>_. ap_inv root src F)"
    unfolding glnx_ensure_dir_def by (rule hoare_wrap [OF ap_calls(5) [OF d base]])
  then show ?thesis unfolding apply_dir_def
    by (rule hoare_bind) (auto intro!: hoare_sum hoare_return ap_opendirat [OF d base])
qed

lemma ap_apply_link:
  assumes d: "d \<in># F" and base: "safe_elem base"
  shows "hoare (ap_inv root src F) (apply_link (logged K) e d base)
    (\<lambda>r. case r of Inl e \<Rightarrow> ap_inv root src F | Inr fd \<Rightarrow> ap_inv root src (F + opt_fd fd))"
proof -
  have "hoare (ap_inv root src F) (glnx_readlinkat_malloc (logged K) d base) (\<lambda>_. ap_inv root src F)"
    unfolding glnx_readlinkat_malloc_def
    by (rule hoare_wrap, rule ap_canonical [OF d], rule ap_calls(6) [OF d base])
  then show ?thesis unfolding apply_link_def
    by (rule hoare_bind)
       (auto intro!: hoare_sum hoare_return hoare_wrap [OF ap_calls(3) [OF d base]] simp: opt_fd_def split: sum.split)
qed

lemma ap_apply_kind:
  assumes d: "d \<in># F" and base: "safe_elem base" and src: "ap_source_files_fd s = src"
  shows "hoare (ap_inv root src F) (apply_kind (logged K) e flags d base s) (kind_post root src F s)"
proof (cases "kind e")
  case KIND_FILE
  then show ?thesis using ap_apply_file [OF assms] by (simp add: apply_kind_def)
next
  case KIND_DIR
  show ?thesis unfolding apply_kind_def KIND_DIR entry_kind.case
    by (rule hoare_wrap [OF ap_apply_dir [OF d base]]) (auto simp: kind_post_def ap_inv_opt split: sum.splits)
next
  case KIND_LINK
  show ?thesis unfolding apply_kind_def KIND_LINK entry_kind.case
    by (rule hoare_wrap [OF ap_apply_link [OF d base]]) (auto simp: kind_post_def split: sum.splits)
qed (auto simp: apply_kind_def kind_post_def intro!: hoare_return)


definition state_ok :: "fd \<Rightarrow> fd \<Rightarrow> apply_state \<Rightarrow> bool" where
  "state_ok root src s = (ap_source_files_fd s = src \<and> ap_sysroot_fd s = root)"

lemma maybe_chmod_state:
  "hoare P (maybe_chmod K e d base fd flags s)
     (\<lambda>r _. ap_source_files_fd (fst r) = ap_source_files_fd s \<and> ap_sysroot_fd (fst r) = ap_sysroot_fd s)"
  unfolding maybe_chmod_def
  by (intro hoare_if hoare_return hoare_bind [OF hoare_anyI] hoare_sum hoare_wrap [OF hoare_anyI])
     (auto simp: log_message_def split: sum.splits)

lemma ap_apply_mtime:
  assumes "fd \<ge> 0 \<Longrightarrow> fd \<in># F"
  shows "hoare (ap_inv root src F) (apply_mtime (logged K) e fd s) (\<lambda>s' t. ap_inv root src F t \<and>
     ap_source_files_fd s' = ap_source_files_fd s \<and> ap_sysroot_fd s' = ap_sysroot_fd s)"
proof -
  have "hoare (ap_inv root src F) (sys_futimens (logged K) fd ts) (\<lambda>_. ap_inv root src F)" if "fd \<ge> 0" for ts
    unfolding logged_def kernel.simps by (rule ap_inv_call) (use assms that in auto)
  then have "hoare (ap_inv root src F) (do {
        r \<leftarrow> sys_futimens (logged K) fd (mtime_spec (mtime_usec e));
        State_Monad.return (case r of
            Inl _ \<Rightarrow> (log_message (set_mtime_warning_level s) Set_mtime s)\<lparr> set_mtime_warning_level := LEVEL_INFO \<rparr>
          | Inr _ \<Rightarrow> s) }) (\<lambda>s' t. ap_inv root src F t \<and>
     ap_source_files_fd s' = ap_source_files_fd s \<and> ap_sysroot_fd s' = ap_sysroot_fd s)" if "fd \<ge> 0"
    by (rule hoare_wrap) (use that in \<open>auto simp: log_message_def split: sum.split\<close>)
  then show ?thesis unfolding apply_mtime_def
    by (intro hoare_if hoare_return) auto
qed

lemma ap_in_parent:
  assumes d: "d \<in># F" and base: "safe_elem base" and s: "state_ok root src s"
  shows "hoare (ap_inv root src F) (apply_in_parent (logged K) e flags d base s)
    (\<lambda>r t. ap_inv root src F t \<and> state_ok root src (fst r))"
proof -
  have src: "ap_source_files_fd s = src" using s by (simp add: state_ok_def)
  have chmod: "hoare (ap_inv root src (F + opt_fd fd)) (if fd \<ge> 0 then maybe_chmod (logged K) e d base fd flags s'
               else State_Monad.return (s', Inr ()))
      (\<lambda>c t. ap_inv root src (F + opt_fd fd) t \<and> ap_source_files_fd (fst c) = ap_source_files_fd s' \<and>
         ap_sysroot_fd (fst c) = ap_sysroot_fd s')" for fd s'
    by (rule hoare_if, rule hoare_conj [OF ap_maybe_chmod maybe_chmod_state])
       (use d base in \<open>auto simp: opt_fd_def intro: hoare_return\<close>)
  have rest: "hoare (kind_post root src F s r) (case snd r of
        Inl e \<Rightarrow> State_Monad.return (fst r, Inl e)
      | Inr fd \<Rightarrow> do {
          c \<leftarrow> (if fd \<ge> 0 then maybe_chmod (logged K) e d base fd flags (fst r)
               else State_Monad.return (fst r, Inr ()));
          (case snd c of
             Inl e \<Rightarrow> do { glnx_close_fd (logged K) fd; State_Monad.return (fst c, Inl e) }
           | Inr _ \<Rightarrow> do {
               s' \<leftarrow> apply_mtime (logged K) e fd (fst c);
               glnx_close_fd (logged K) fd;
               State_Monad.return (s', Inr ()) }) })
      (\<lambda>r t. ap_inv root src F t \<and> state_ok root src (fst r))" for r :: "apply_state \<times> (gerror + fd)"
  proof (cases "ap_source_files_fd (fst r) = ap_source_files_fd s \<and> ap_sysroot_fd (fst r) = ap_sysroot_fd s")
    case True
    then have ok: "state_ok root src (fst r)" using s by (simp add: state_ok_def)
    show ?thesis
    proof (cases "snd r")
      case (Inl er)
      then show ?thesis using ok by (auto simp: kind_post_def intro!: hoare_return)
    next
      case (Inr fd)
      let ?C = "\<lambda>c t. ap_inv root src (F + opt_fd fd) t \<and> ap_source_files_fd (fst c) = ap_source_files_fd (fst r) \<and>
         ap_sysroot_fd (fst c) = ap_sysroot_fd (fst r)"
      have tail: "hoare (?C c) (case snd c of
             Inl e \<Rightarrow> do { glnx_close_fd (logged K) fd; State_Monad.return (fst c, Inl e) }
           | Inr _ \<Rightarrow> do {
               s' \<leftarrow> apply_mtime (logged K) e fd (fst c);
               glnx_close_fd (logged K) fd;
               State_Monad.return (s', Inr ()) }) (\<lambda>r t. ap_inv root src F t \<and> state_ok root src (fst r))" for c :: "apply_state \<times> (gerror + unit)"
      proof (cases "ap_source_files_fd (fst c) = ap_source_files_fd (fst r) \<and> ap_sysroot_fd (fst c) = ap_sysroot_fd (fst r)")
        case True
        then have okc: "state_ok root src (fst c)" using ok by (simp add: state_ok_def)
        have cl: "hoare (ap_inv root src (F + opt_fd fd)) (do { glnx_close_fd (logged K) fd; State_Monad.return (x, y) })
            (\<lambda>r t. ap_inv root src F t \<and> state_ok root src (fst r))" if "state_ok root src x" for x and y :: "gerror + unit"
          by (rule hoare_wrap [OF ap_opt_close]) (use that in simp)
        have mt: "hoare (ap_inv root src (F + opt_fd fd)) (apply_mtime (logged K) e fd (fst c))
            (\<lambda>s' t. ap_inv root src (F + opt_fd fd) t \<and> state_ok root src s')"
          by (rule hoare_weaken [OF ap_apply_mtime [where F = "F + opt_fd fd"]])
             (use okc in \<open>auto simp: opt_fd_def state_ok_def\<close>)
        have "hoare (\<lambda>t. ap_inv root src (F + opt_fd fd) t \<and> state_ok root src s')
            (do { glnx_close_fd (logged K) fd; State_Monad.return (s', Inr () :: gerror + unit) })
            (\<lambda>r t. ap_inv root src F t \<and> state_ok root src (fst r))" for s'
        proof (cases "state_ok root src s'")
          case True
          show ?thesis by (rule hoare_pre [OF cl [OF True]]) simp
        qed (simp add: hoare_false)
        from hoare_bind [OF mt this] have "hoare (ap_inv root src (F + opt_fd fd)) (do {
               s' \<leftarrow> apply_mtime (logged K) e fd (fst c);
               glnx_close_fd (logged K) fd;
               State_Monad.return (s', Inr () :: gerror + unit) })
            (\<lambda>r t. ap_inv root src F t \<and> state_ok root src (fst r))" by simp
        then show ?thesis using True cl [OF okc]
          by (cases "snd c") (simp_all only: sum.case simp_thms)
      qed (auto intro: hoare_false)
      show ?thesis unfolding Inr sum.case
        by (rule hoare_bind [OF hoare_pre [OF chmod] tail]) (simp add: kind_post_def Inr)
    qed
  qed (auto simp: kind_post_def intro: hoare_false)
  show ?thesis unfolding apply_in_parent_def
    by (rule hoare_bind [OF ap_apply_kind [OF d base src] rest])
qed

text \<open>The callback, for an entry whose last element is an ordinary name.\<close>

definition cb_post :: "fd \<Rightarrow> fd \<Rightarrow> fd multiset \<Rightarrow> (apply_state \<times> (failure + unit)) outcome \<Rightarrow> 'w \<times> call list \<Rightarrow> bool" where
  "cb_post root src F r t = (case r of
      Ret x \<Rightarrow> ap_inv root src F t \<and> state_ok root src (fst x)
    | Crash \<Rightarrow> False
    | Out_of_fuel \<Rightarrow> True)"

lemma ap_callback:
  assumes base: "safe_elem (glnx_basename (the (name e)))" and s: "state_ok root src s"
  shows "hoare (ap_inv root src F) (pv_mtree_foreach_apply_cb fuel G (logged K) e flags s) (cb_post root src F)"
proof -
  have root: "ap_sysroot_fd s = root" using s by (simp add: state_ok_def)
  have ret: "cb_post root src F (Ret (s, x)) t" if "ap_inv root src F t" for x and t :: "'a \<times> call list"
    using that s by (simp add: cb_post_def)
  have body: "hoare (ap_inv root src (F + {#fd#})) (do {
          x \<leftarrow> apply_in_parent (logged K) e flags fd (glnx_basename (the (name e))) s;
          glnx_close_fd (logged K) fd;
          State_Monad.return (Ret (fst x, case snd x of Inl e \<Rightarrow> Inl (Some e) | Inr _ \<Rightarrow> Inr ())) })
      (cb_post root src F)" for fd
  proof (rule hoare_bind [OF ap_in_parent [OF _ base s]])
    fix x :: "apply_state \<times> (gerror + unit)"
    show "hoare (\<lambda>t. ap_inv root src (F + {#fd#}) t \<and> state_ok root src (fst x)) (do {
          glnx_close_fd (logged K) fd;
          State_Monad.return (Ret (fst x, case snd x of Inl e \<Rightarrow> Inl (Some e) | Inr _ \<Rightarrow> Inr ())) }) (cb_post root src F)"
    proof (cases "state_ok root src (fst x)")
      case True
      have "hoare (ap_inv root src (F + {#fd#})) (do {
          glnx_close_fd (logged K) fd;
          State_Monad.return (Ret (fst x, case snd x of Inl e \<Rightarrow> Inl (Some e) | Inr _ \<Rightarrow> Inr ())) }) (cb_post root src F)"
        by (rule hoare_wrap [OF ap_close]) (simp add: cb_post_def True)
      then show ?thesis by (rule hoare_pre) simp
    qed (simp add: hoare_false)
  qed simp
  show ?thesis unfolding pv_mtree_foreach_apply_cb_def Let_def root
    apply (rule hoare_bind [OF ap_resolve])
    subgoal for r
      apply (cases r)
       apply (simp add: hoare_return cb_post_def)
      subgoal for x
        apply (cases x)
        subgoal for g using ret by (cases g) (auto intro!: hoare_return)
        subgoal for q using body by (cases q) simp
        done
      done
    done
qed

lemma ap_foreach_lines:
  assumes "\<And>line e. line \<in> set lines \<Longrightarrow> pv_mtree_entry_parse G (g_strstrip line) = Inr e \<Longrightarrow>
      name e \<noteq> None \<Longrightarrow> name e \<noteq> Some ''.'' \<Longrightarrow> safe_elem (glnx_basename (the (name e)))"
  shows "state_ok root src s \<Longrightarrow> hoare (ap_inv root src F)
    (foreach_lines G flags (pv_mtree_foreach_apply_cb fuel G (logged K)) None lines err s) (cb_post root src F)"
  using assms
proof (induction lines arbitrary: s)
  case Nil
  then show ?case by (auto simp: cb_post_def intro!: hoare_return)
next
  case (Cons line lines)
  have IH: "state_ok root src s' \<Longrightarrow> hoare (ap_inv root src F)
    (foreach_lines G flags (pv_mtree_foreach_apply_cb fuel G (logged K)) None lines err s') (cb_post root src F)" for s'
    by (rule Cons.IH) (use Cons.prems in auto)
  show ?case
  proof (cases "pv_mtree_entry_parse G (g_strstrip line)")
    case (Inl e)
    then show ?thesis using Cons.prems(1) by (auto simp: cb_post_def intro!: hoare_return)
  next
    case (Inr e)
    show ?thesis
    proof (cases "name e = None \<or> name e = Some ''.''")
      case True
      then show ?thesis using IH [OF Cons.prems(1)] by (simp add: Inr)
    next
      case False
      then have base: "safe_elem (glnx_basename (the (name e)))" using Cons.prems(2) [OF _ Inr] by auto
      have tail: "hoare (cb_post root src F r) (case r of
               Ret (s', Inr _) \<Rightarrow> foreach_lines G flags (pv_mtree_foreach_apply_cb fuel G (logged K)) None lines err s'
             | Ret (s', Inl e) \<Rightarrow> State_Monad.return (Ret (s', Inl e))
             | Crash \<Rightarrow> State_Monad.return Crash
             | Out_of_fuel \<Rightarrow> State_Monad.return Out_of_fuel) (cb_post root src F)" for r
      proof (cases r)
        case (Ret x)
        obtain s' y where x: "x = (s', y)" by (cases x)
        show ?thesis
        proof (cases "state_ok root src s'")
          case True
          then show ?thesis using IH [OF True] by (cases y) (auto simp: Ret x cb_post_def intro!: hoare_return elim!: hoare_weaken)
        qed (auto simp: Ret x cb_post_def intro: hoare_false)
      qed (auto simp: cb_post_def intro: hoare_return hoare_false)
      show ?thesis unfolding foreach_lines.simps Inr sum.case if_not_P [OF False] option.case
        by (rule hoare_bind [OF ap_callback [OF base Cons.prems(1)] tail])
    qed
  qed
qed

section \<open>The properties\<close>

text \<open>C4: Applying the lines of a manifest whose entries have ordinary last elements never
  dereferences a null pointer, and when the loop returns, every system call that it made was confined:
  files, directories, links, permissions and times are only made or changed for a single path
  element of a directory that was reached from the sysroot one non-link element at a time, the
  source directory is only read by \<open>linkat\<close> and the copy, and every descriptor that was opened has
  been closed, whatever the kernel answers and whether or not an entry failed.\<close>

theorem foreach_apply_confined:
  assumes "\<And>line e. line \<in> set lines \<Longrightarrow> pv_mtree_entry_parse G (g_strstrip line) = Inr e \<Longrightarrow>
      name e \<noteq> None \<Longrightarrow> name e \<noteq> Some ''.'' \<Longrightarrow> safe_elem (glnx_basename (the (name e)))"
    and "run_state (foreach_lines G flags (pv_mtree_foreach_apply_cb fuel G (logged K)) None lines err s) (w, []) =
      (r, (w', l))"
  shows "r \<noteq> Crash \<and> (r \<noteq> Out_of_fuel \<longrightarrow>
    all_confined (apply_confined (ap_sysroot_fd s) (ap_source_files_fd s)) {} l \<and> opened l = closed l)"
proof -
  have ok: "state_ok (ap_sysroot_fd s) (ap_source_files_fd s) s" by (simp add: state_ok_def)
  have init: "ap_inv (ap_sysroot_fd s) (ap_source_files_fd s) {#} (w, [])"
    by (simp add: ap_inv_def opened_def closed_def)
  have "cb_post (ap_sysroot_fd s) (ap_source_files_fd s) {#} r (w', l)"
    by (rule hoareD [OF ap_foreach_lines [OF assms(1) ok] init assms(2)])
  then show ?thesis by (cases r) (auto simp: cb_post_def ap_inv_def)
qed

text \<open>A manifest with a directory and an empty file in it, applied to the demonstration tree.\<close>

definition demo_state :: "fd \<Rightarrow> apply_state" where
  "demo_state src = \<lparr> ap_sysroot_fd = 3, ap_source_files_fd = src,
     chmod_plusx_warning_level = LEVEL_WARNING, chmod_minusx_warning_level = LEVEL_WARNING,
     set_mtime_warning_level = LEVEL_WARNING, logged_messages = [] \<rparr>"

definition demo_run :: "tree \<Rightarrow> fd \<Rightarrow> apply_flag set \<Rightarrow> string list \<Rightarrow>
    (apply_state \<times> (failure + unit)) outcome \<times> mem_world \<times> call list" where
  "demo_run t src flags lines = run_state (foreach_lines glib_ref flags
      (pv_mtree_foreach_apply_cb 20 glib_ref (logged mem_kernel)) None lines None (demo_state src))
      (demo_world\<lparr> tree := t @ tree demo_world \<rparr>, [])"

text \<open>The calls of a run.\<close>

definition demo_log :: "tree \<Rightarrow> string list \<Rightarrow> call list" where
  "demo_log t lines = snd (snd (demo_run t (- 1) {} lines))"

lemma foreach_apply_confined_witness:
  "all_confined (apply_confined 3 (- 1)) {} (demo_log [] [''./d type=dir''])"
proof -
  have "(case pv_mtree_entry_parse glib_ref (g_strstrip ''./d type=dir'') of
      Inr e \<Rightarrow> safe_elem (glnx_basename (the (name e))) | _ \<Rightarrow> False)"
    by code_simp
  then have base: "line \<in> set [''./d type=dir''] \<Longrightarrow> pv_mtree_entry_parse glib_ref (g_strstrip line) = Inr e \<Longrightarrow>
      safe_elem (glnx_basename (the (name e)))" for line e by simp
  have out: "fst (demo_run [] (- 1) {} [''./d type=dir'']) \<noteq> Out_of_fuel" by code_simp
  have "run_state (foreach_lines glib_ref {} (pv_mtree_foreach_apply_cb 20 glib_ref (logged mem_kernel)) None
      [''./d type=dir''] None (demo_state (- 1))) (demo_world\<lparr> tree := [] @ tree demo_world \<rparr>, []) =
      (fst (demo_run [] (- 1) {} [''./d type=dir'']), (fst (snd (demo_run [] (- 1) {} [''./d type=dir''])),
       demo_log [] [''./d type=dir'']))"
    by (simp only: demo_run_def demo_log_def prod.collapse)
  from foreach_apply_confined [OF base this] show ?thesis
    using out by (simp add: demo_state_def)
qed

text \<open>An entry called \<open>./..\<close> is not rejected: applying it opens the parent directory of the
  sysroot and changes its permissions to 0755 (the resolver only sees the directory name \<open>.\<close>, and
  the last element is used as it is).\<close>

theorem foreach_apply_dotdot_escapes:
  "\<not> all_confined (apply_confined 3 (- 1)) {} (demo_log [([''..''], Dir)] [''./.. type=dir'']) \<and>
   demo_log [([''..''], Dir)] [''./.. type=dir''] =
     [C_dup 3 (Inr 4), C_mkdirat 4 ''..'' (Inl EEXIST),
      C_openat 4 ''..'' {O_NOCTTY, O_CLOEXEC, O_DIRECTORY, O_NONBLOCK, O_RDONLY, O_NOFOLLOW} (Inr 5),
      C_fchmod 5 493 (Inr ()), C_close 5, C_close 4]"
proof
  show "\<not> all_confined (apply_confined 3 (- 1)) {} (demo_log [([''..''], Dir)] [''./.. type=dir''])"
    by code_simp
  show "demo_log [([''..''], Dir)] [''./.. type=dir''] =
     [C_dup 3 (Inr 4), C_mkdirat 4 ''..'' (Inl EEXIST),
      C_openat 4 ''..'' {O_NOCTTY, O_CLOEXEC, O_DIRECTORY, O_NONBLOCK, O_RDONLY, O_NOFOLLOW} (Inr 5),
      C_fchmod 5 493 (Inr ()), C_close 5, C_close 4]"
    by code_simp
qed

section \<open>Warnings\<close>

text \<open>No warning of this kind so far, or one and then the level is lower.\<close>

definition level_of :: "log_kind \<Rightarrow> apply_state \<Rightarrow> log_level" where
  "level_of k s = (case k of
      Chmod_plusx \<Rightarrow> chmod_plusx_warning_level s
    | Chmod_minusx \<Rightarrow> chmod_minusx_warning_level s
    | Set_mtime \<Rightarrow> set_mtime_warning_level s
    | No_hard_link \<Rightarrow> LEVEL_WARNING)"

definition warned :: "log_kind \<Rightarrow> apply_state \<Rightarrow> nat" where
  "warned k s = length (filter ((=) (LEVEL_WARNING, k)) (logged_messages s))"

definition warn_ok :: "log_kind \<Rightarrow> apply_state \<Rightarrow> bool" where
  "warn_ok k s = (warned k s \<le> 1 \<and> (level_of k s = LEVEL_WARNING \<longrightarrow> warned k s = 0))"

lemma warn_ok_chmod_plusx: "k \<noteq> No_hard_link \<Longrightarrow> warn_ok k s \<Longrightarrow>
    warn_ok k ((log_message (chmod_plusx_warning_level s) Chmod_plusx s)\<lparr> chmod_plusx_warning_level := LEVEL_INFO \<rparr>)"
  by (cases k) (auto simp: warn_ok_def warned_def level_of_def log_message_def)

lemma warn_ok_chmod_minusx: "k \<noteq> No_hard_link \<Longrightarrow> warn_ok k s \<Longrightarrow>
    warn_ok k ((log_message (chmod_minusx_warning_level s) Chmod_minusx s)\<lparr> chmod_minusx_warning_level := LEVEL_INFO \<rparr>)"
  by (cases k) (auto simp: warn_ok_def warned_def level_of_def log_message_def)

lemma warn_ok_set_mtime: "k \<noteq> No_hard_link \<Longrightarrow> warn_ok k s \<Longrightarrow>
    warn_ok k ((log_message (set_mtime_warning_level s) Set_mtime s)\<lparr> set_mtime_warning_level := LEVEL_INFO \<rparr>)"
  by (cases k) (auto simp: warn_ok_def warned_def level_of_def log_message_def)

lemma warn_ok_hard_link: "k \<noteq> No_hard_link \<Longrightarrow> warn_ok k s \<Longrightarrow> warn_ok k (log_message l No_hard_link s)"
  by (cases k) (auto simp: warn_ok_def warned_def level_of_def log_message_def)

lemmas warn_ok_steps = warn_ok_chmod_plusx warn_ok_chmod_minusx warn_ok_set_mtime warn_ok_hard_link

text \<open>A fact about the result so far survives an operation whose result is dropped.\<close>

lemma hoare_after:
  "hoare P m (\<lambda>x _. b x) \<Longrightarrow> (\<And>x. b x \<Longrightarrow> Q (f x)) \<Longrightarrow>
   hoare P (do { x \<leftarrow> m; c x; State_Monad.return (f x) }) (\<lambda>r _. Q r)"
  by (fastforce simp: hoare_def split: prod.splits)

lemma warn_maybe_chmod:
  assumes "k \<noteq> No_hard_link" "warn_ok k s"
  shows "hoare (\<lambda>_. True) (maybe_chmod K e d base fd flags s) (\<lambda>r _. warn_ok k (fst r))"
  unfolding maybe_chmod_def
  by (intro hoare_if hoare_return hoare_bind [OF hoare_anyI] hoare_sum hoare_wrap [OF hoare_anyI])
     (auto simp: warn_ok_steps assms split: sum.splits)

lemma warn_apply_copy:
  assumes "k \<noteq> No_hard_link" "warn_ok k s"
  shows "hoare (\<lambda>_. True) (apply_copy K e flags d base src s) (\<lambda>r _. warn_ok k (fst r))"
  unfolding apply_copy_def
  by (intro hoare_if hoare_return hoare_bind [OF hoare_anyI] hoare_sum hoare_wrap [OF hoare_anyI])
     (auto simp: warn_ok_steps assms split: sum.splits)

lemma warn_apply_file:
  assumes "k \<noteq> No_hard_link" "warn_ok k s"
  shows "hoare (\<lambda>_. True) (apply_file K e flags d base s) (\<lambda>r _. warn_ok k (fst r))"
proof -
  have found: "hoare (\<lambda>_. True) (do {
               existing \<leftarrow> glnx_openat_rdonly K d base False;
               (case existing of
                  Inr fd \<Rightarrow> State_Monad.return (s, Inr fd)
                | Inl _ \<Rightarrow> do {
                    r \<leftarrow> apply_copy K e flags d base src s;
                    State_Monad.return (fst r, case snd r of Inl e \<Rightarrow> Inl e | Inr _ \<Rightarrow> Inr (- 1)) }) })
      (\<lambda>r _. warn_ok k (fst r))" for src
    by (rule hoare_bind [OF hoare_anyI [where Q = "\<lambda>_ _. True"]])
       (auto simp: assms intro!: hoare_return hoare_sum hoare_wrap [OF warn_apply_copy [OF assms]])
  have rest: "hoare (\<lambda>_. warn_ok k (fst r)) (case snd r of
         Inl e \<Rightarrow> State_Monad.return (fst r, Inl e)
       | Inr fd \<Rightarrow>
             if fd < 0 \<and> OPTIONAL \<notin> entry_flags e then do {
               o' \<leftarrow> glnx_openat_rdonly K d base False;
               State_Monad.return (fst r, o') }
             else State_Monad.return (fst r, Inr fd)) (\<lambda>r _. warn_ok k (fst r))"
    for r :: "apply_state \<times> (gerror + fd)"
    by (cases "warn_ok k (fst r)")
       (auto simp: hoare_false intro!: hoare_return hoare_sum hoare_if hoare_wrap [OF hoare_anyI])
  show ?thesis unfolding apply_file_def Let_def
    by (intro hoare_if hoare_bind [OF _ rest] found hoare_wrap [OF hoare_anyI] hoare_return) (auto simp: assms)
qed

lemma warn_apply_kind:
  assumes "k \<noteq> No_hard_link" "warn_ok k s"
  shows "hoare (\<lambda>_. True) (apply_kind K e flags d base s) (\<lambda>r _. warn_ok k (fst r))"
  unfolding apply_kind_def
  by (cases "kind e")
     (auto simp: assms intro!: hoare_return hoare_wrap [OF hoare_anyI] warn_apply_file)

lemma warn_apply_mtime:
  assumes "k \<noteq> No_hard_link" "warn_ok k s"
  shows "hoare (\<lambda>_. True) (apply_mtime K e fd s) (\<lambda>s' _. warn_ok k s')"
  unfolding apply_mtime_def
  by (intro hoare_if hoare_return hoare_wrap [OF hoare_anyI]) (auto simp: warn_ok_steps assms split: sum.splits)

lemma warn_apply_in_parent:
  assumes "k \<noteq> No_hard_link" "warn_ok k s"
  shows "hoare (\<lambda>_. True) (apply_in_parent K e flags d base s) (\<lambda>r _. warn_ok k (fst r))"
proof -
  have close: "hoare (\<lambda>_. True) (do { glnx_close_fd K fd; State_Monad.return (x, y) }) (\<lambda>r _. warn_ok k (fst r))"
    if "warn_ok k x" for fd x and y :: "gerror + unit"
    by (rule hoare_wrap [OF hoare_anyI]) (use that in simp_all)
  have close': "hoare (\<lambda>_. warn_ok k x) (do { glnx_close_fd K fd; State_Monad.return (x, y) }) (\<lambda>r _. warn_ok k (fst r))"
    for fd x and y :: "gerror + unit"
    by (cases "warn_ok k x") (use close in \<open>auto simp: hoare_false\<close>)
  have mtime: "hoare (\<lambda>_. True) (do { s' \<leftarrow> apply_mtime K e fd x; glnx_close_fd K fd; State_Monad.return (s', Inr () :: gerror + unit) })
      (\<lambda>r _. warn_ok k (fst r))" if "warn_ok k x" for fd x
    by (rule hoare_bind [OF warn_apply_mtime [OF assms(1) that] close'])
  have tail: "hoare (\<lambda>_. warn_ok k (fst c)) (case snd c of
             Inl e \<Rightarrow> do { glnx_close_fd K fd; State_Monad.return (fst c, Inl e) }
           | Inr _ \<Rightarrow> do {
               s' \<leftarrow> apply_mtime K e fd (fst c);
               glnx_close_fd K fd;
               State_Monad.return (s', Inr ()) }) (\<lambda>r _. warn_ok k (fst r))"
    for fd and c :: "apply_state \<times> (gerror + unit)"
    by (cases "warn_ok k (fst c)") (auto simp: hoare_false intro!: hoare_sum close mtime)
  have rest: "hoare (\<lambda>_. warn_ok k (fst r)) (case snd r of
        Inl e \<Rightarrow> State_Monad.return (fst r, Inl e)
      | Inr fd \<Rightarrow> do {
          c \<leftarrow> (if fd \<ge> 0 then maybe_chmod K e d base fd flags (fst r)
               else State_Monad.return (fst r, Inr ()));
          (case snd c of
             Inl e \<Rightarrow> do { glnx_close_fd K fd; State_Monad.return (fst c, Inl e) }
           | Inr _ \<Rightarrow> do {
               s' \<leftarrow> apply_mtime K e fd (fst c);
               glnx_close_fd K fd;
               State_Monad.return (s', Inr ()) }) }) (\<lambda>r _. warn_ok k (fst r))"
    for r :: "apply_state \<times> (gerror + fd)"
  proof (cases "warn_ok k (fst r)")
    case True
    then show ?thesis
      by (intro hoare_sum hoare_bind [OF _ tail] hoare_if hoare_return hoare_pre [OF warn_maybe_chmod])
         (auto simp: assms)
  qed (simp add: hoare_false)
  show ?thesis unfolding apply_in_parent_def by (rule hoare_bind [OF warn_apply_kind [OF assms] rest])
qed

definition warn_post :: "log_kind \<Rightarrow> (apply_state \<times> (failure + unit)) outcome \<Rightarrow> bool" where
  "warn_post k r = (case r of Ret x \<Rightarrow> warn_ok k (fst x) | _ \<Rightarrow> True)"

lemma warn_callback:
  assumes "k \<noteq> No_hard_link" "warn_ok k s"
  shows "hoare (\<lambda>_. True) (pv_mtree_foreach_apply_cb fuel G K e flags s) (\<lambda>r _. warn_post k r)"
proof -
  have parent: "hoare (\<lambda>_. True) (do {
          x \<leftarrow> apply_in_parent K e flags fd (glnx_basename (the (name e))) s;
          glnx_close_fd K fd;
          State_Monad.return (Ret (fst x, case snd x of Inl e \<Rightarrow> Inl (Some e) | Inr _ \<Rightarrow> Inr ())) })
      (\<lambda>r _. warn_post k r)" for fd
  proof (rule hoare_bind [OF warn_apply_in_parent [OF assms]])
    fix x :: "apply_state \<times> (gerror + unit)"
    show "hoare (\<lambda>_. warn_ok k (fst x)) (do {
          glnx_close_fd K fd;
          State_Monad.return (Ret (fst x, case snd x of Inl e \<Rightarrow> Inl (Some e) | Inr _ \<Rightarrow> Inr ())) })
        (\<lambda>r _. warn_post k r)"
      by (cases "warn_ok k (fst x)") (auto simp: hoare_false warn_post_def intro!: hoare_wrap [OF hoare_anyI])
  qed
  show ?thesis unfolding pv_mtree_foreach_apply_cb_def Let_def
    apply (rule hoare_bind [OF hoare_anyI [where Q = "\<lambda>_ _. True"]], simp)
    subgoal for r
      apply (cases r)
       apply (simp add: hoare_return warn_post_def)
      subgoal for x
        apply (cases x)
        subgoal for g by (cases g) (auto simp: warn_post_def assms intro!: hoare_return)
        subgoal for q using parent by (cases q) simp
        done
      done
    done
qed

lemma warn_foreach:
  assumes "k \<noteq> No_hard_link"
  shows "warn_ok k s \<Longrightarrow> hoare (\<lambda>_. True)
    (foreach_lines G flags (pv_mtree_foreach_apply_cb fuel G K) None lines err s) (\<lambda>r _. warn_post k r)"
proof (induction lines arbitrary: s)
  case Nil
  then show ?case by (auto simp: warn_post_def intro!: hoare_return)
next
  case (Cons line lines)
  have tail: "hoare (\<lambda>_. warn_post k r) (case r of
         Ret (s', Inr _) \<Rightarrow> foreach_lines G flags (pv_mtree_foreach_apply_cb fuel G K) None lines err s'
       | Ret (s', Inl e) \<Rightarrow> State_Monad.return (Ret (s', Inl e))
       | Crash \<Rightarrow> State_Monad.return Crash
       | Out_of_fuel \<Rightarrow> State_Monad.return Out_of_fuel) (\<lambda>r _. warn_post k r)" for r
  proof (cases r)
    case (Ret x)
    then show ?thesis using Cons.IH
      by (cases "warn_ok k (fst x)"; cases x; cases "snd x")
         (auto simp: warn_post_def hoare_false intro!: hoare_return elim!: hoare_pre)
  qed (auto simp: warn_post_def intro: hoare_return)
  show ?case
    unfolding foreach_lines.simps option.case
    by (intro hoare_sum hoare_if hoare_bind [OF warn_callback [OF assms Cons.prems] tail] Cons.IH [OF Cons.prems]
          hoare_return) (auto simp: warn_post_def Cons.prems)
qed

text \<open>However many entries of a manifest cannot be given their permissions or their
  modification time, and whatever the kernel answers, a run of \<open>pv_mtree_apply\<close> logs each of
  these three kinds of message at most once as a warning: after the first one the level is lowered
  for the rest of the run.\<close>

theorem pv_mtree_apply_warns_once:
  "list_all (\<lambda>k. case fst (run_state (pv_mtree_apply fuel G K mtree sysroot_fd source_files flags) w) of
      Ret (Some s, x) \<Rightarrow> warned k s \<le> 1
    | _ \<Rightarrow> True) [Chmod_plusx, Chmod_minusx, Set_mtime]"
proof -
  let ?Q = "\<lambda>k r. case r of Ret (Some s, x) \<Rightarrow> warned k s \<le> 1 | _ \<Rightarrow> True"
  have lines: "hoare (\<lambda>_. True) (pv_mtree_foreach G K mtree flags (pv_mtree_foreach_apply_cb fuel G K) None s)
      (\<lambda>r _. warn_post k r)" if "k \<noteq> No_hard_link" "warn_ok k s" for k s
    unfolding pv_mtree_foreach_def
    by (intro hoare_bind [OF hoare_anyI [where Q = "\<lambda>_ _. True"]] hoare_sum hoare_return
          hoare_after [OF warn_foreach [OF that]])
       (auto simp: warn_post_def that)
  have init: "warn_ok k \<lparr> ap_sysroot_fd = sysroot_fd, ap_source_files_fd = x,
       chmod_plusx_warning_level = LEVEL_WARNING, chmod_minusx_warning_level = LEVEL_WARNING,
       set_mtime_warning_level = LEVEL_WARNING, logged_messages = [] \<rparr>" for k x
    by (simp add: warn_ok_def warned_def)
  have "hoare (\<lambda>_. True) (pv_mtree_apply fuel G K mtree sysroot_fd source_files flags) (\<lambda>r _. ?Q k r)"
    if "k \<noteq> No_hard_link" for k
    unfolding pv_mtree_apply_def
    by (intro hoare_if hoare_bind [OF hoare_anyI [where Q = "\<lambda>_ _. True"]] hoare_sum hoare_return
          hoare_after [OF lines [OF that init]])
       (auto simp: warn_post_def warn_ok_def split: outcome.splits)
  from hoareD [OF this, of _ w] have "?Q k (fst (run_state (pv_mtree_apply fuel G K mtree sysroot_fd source_files flags) w))"
    if "k \<noteq> No_hard_link" for k
    using that by (cases "run_state (pv_mtree_apply fuel G K mtree sysroot_fd source_files flags) w") simp
  then show ?thesis by simp
qed

text \<open>The messages after two regular files of the sysroot had to be copied.\<close>

definition demo_file :: "string \<Rightarrow> mtree_entry" where
  "demo_file n = PV_MTREE_ENTRY_BLANK\<lparr> name := Some n, kind := KIND_FILE, fsize := 1 \<rparr>"

definition demo_messages :: "apply_flag set \<Rightarrow> (log_level \<times> log_kind) list" where
  "demo_messages flags = logged_messages (fst (fst (run_state (do {
       x \<leftarrow> apply_in_parent mem_kernel (demo_file ''./a'') flags 3 ''a'' (demo_state 3);
       apply_in_parent mem_kernel (demo_file ''./b'') flags 3 ''b'' (fst x) }) demo_world)))"

text \<open>The warning that hard links are not possible, which a comment wants once per tree, is
  logged for every file that is copied: the flag that is cleared is the parameter of one call.\<close>

theorem foreach_apply_hard_link_warnings:
  "demo_messages {EXPECT_HARD_LINKS} = [(LEVEL_WARNING, No_hard_link), (LEVEL_WARNING, No_hard_link)]"
  by code_simp

end
