(* ===== verification/MtreeVerify.thy ===== *)
theory MtreeVerify imports MtreeConfine HashTable begin

text \<open>
  \<open>pressure-vessel/mtree.c\<close>, checking a directory tree against a manifest (\<open>pv_mtree_verify\<close>):
  every entry of the manifest has to be in the tree with its type, size, contents and permissions,
  and every object of the tree has to be in the manifest, unless it is below an ignored directory.
  The file-scope variable \<open>verify_state\<close> is the record \<open>verify_state\<close>.
\<close>

section \<open>Checking the entries\<close>

record verify_state =
  vs_names :: "(string, entry_flag set) hash_table"
  vs_runtimes :: "string list"
  vs_sysroot :: string
  vs_sysroot_fd :: fd
  vs_failed :: bool

definition verify_name :: "apply_flag set \<Rightarrow> mtree_entry \<Rightarrow> string" where
  "verify_name flags entry =
     (let name = (case contents entry of
          Some c \<Rightarrow> if MINIMIZED_RUNTIME \<in> flags then c else the (name entry)
        | None \<Rightarrow> the (name entry))
      in if g_str_has_prefix name ''./'' then drop 2 name else name)"

text \<open>The directories above a file of a minimized runtime.\<close>

function add_ancestors :: "string \<Rightarrow> (string, entry_flag set) hash_table \<Rightarrow> (string, entry_flag set) hash_table" where
  "add_ancestors ancestor names =
     (case strrchr ancestor CHR ''/'' of
        None \<Rightarrow> names
      | Some (ancestor', _) \<Rightarrow>
          add_ancestors ancestor'
            (if map_of names ancestor' = None then AList.update ancestor' {OPTIONAL} names else names))"
  by pat_completeness auto
termination
  by (relation "measure (\<lambda>(a, _). length a)") (auto simp: strrchr_Some_iff)

declare add_ancestors.simps [simp del]

definition verify_names :: "apply_flag set \<Rightarrow> mtree_entry \<Rightarrow> (string, entry_flag set) hash_table \<Rightarrow>
    (string, entry_flag set) hash_table" where
  "verify_names flags entry names =
     (let name = verify_name flags entry;
          names' = AList.update name (entry_flags entry) names
      in if MINIMIZED_RUNTIME \<in> flags \<and> contents entry \<noteq> None then add_ancestors name names' else names')"

text \<open>Entries of a minimized runtime that are not in the tree.\<close>

definition only_metadata :: "apply_flag set \<Rightarrow> mtree_entry \<Rightarrow> bool" where
  "only_metadata flags entry = (MINIMIZED_RUNTIME \<in> flags \<and>
     (case kind entry of KIND_FILE \<Rightarrow> fsize entry = 0 | KIND_DIR \<Rightarrow> True | KIND_LINK \<Rightarrow> True | _ \<Rightarrow> False))"

fun hash_fd :: "nat \<Rightarrow> glib \<Rightarrow> 'w kernel \<Rightarrow> fd \<Rightarrow> string \<Rightarrow> ('w, (gerror + string) option) state" where
  "hash_fd 0 G K fd hashed = State_Monad.return None"
| "hash_fd (Suc n) G K fd hashed = do {
     r \<leftarrow> sys_read K fd 4096;
     (case r of
        Inl e \<Rightarrow> State_Monad.return (Some (Inl (throw_errno e)))
      | Inr s \<Rightarrow> if s = [] then State_Monad.return (Some (Inr (g_sha256 G hashed)))
                else hash_fd n G K fd (hashed @ s)) }"

text \<open>A check of an open object: \<^const>\<open>None\<close> if fuel ran out.\<close>

definition verify_mode :: "mtree_entry \<Rightarrow> stat \<Rightarrow> gerror + unit" where
  "verify_mode entry st =
     (if st_mode st AND 73 = 0 \<and> (kind entry = KIND_DIR \<or> mode entry \<ge> 0 \<and> has_x (mode entry))
      then Inl io_failed else Inr ())"

definition verify_stat :: "nat \<Rightarrow> glib \<Rightarrow> 'w kernel \<Rightarrow> mtree_entry \<Rightarrow> fd \<Rightarrow> stat \<Rightarrow>
    ('w, (gerror + unit) option) state" where
  "verify_stat fuel G K entry fd st =
     (case kind entry of
        KIND_FILE \<Rightarrow>
          if \<not> S_ISREG (st_mode st) then State_Monad.return (Some (Inl io_failed))
          else if fsize entry \<ge> 0 \<and> fsize entry \<noteq> st_size st then State_Monad.return (Some (Inl io_failed))
          else (case sha256 entry of
              None \<Rightarrow> State_Monad.return (Some (verify_mode entry st))
            | Some expected \<Rightarrow> do {
                h \<leftarrow> hash_fd fuel G K fd [];
                State_Monad.return (case h of
                    None \<Rightarrow> None
                  | Some (Inl e) \<Rightarrow> Some (Inl e)
                  | Some (Inr digest) \<Rightarrow> Some (if digest = expected then verify_mode entry st else Inl io_failed)) })
      | KIND_DIR \<Rightarrow> State_Monad.return (Some (if S_ISDIR (st_mode st) then verify_mode entry st else Inl io_failed))
      | _ \<Rightarrow> State_Monad.return (Some (Inl PRECONDITION_FAILED)))"

text \<open>The object itself: \<open>Inr (Some fd)\<close> if it was opened and has to be checked further,
  \<open>Inr None\<close> if there is nothing more to check.\<close>

definition optional_missing :: "mtree_entry \<Rightarrow> gerror \<Rightarrow> bool" where
  "optional_missing entry e = (OPTIONAL \<in> entry_flags entry \<and> e = G_IO_ERROR IO_NOT_FOUND)"

definition verify_open :: "'w kernel \<Rightarrow> mtree_entry \<Rightarrow> fd \<Rightarrow> string \<Rightarrow> ('w, fd option) io" where
  "verify_open K entry parent_fd base =
     (let opened = (\<lambda>r. case r of
          Inl e \<Rightarrow> if optional_missing entry e then Inr None else Inl e
        | Inr fd \<Rightarrow> Inr (Some fd))
      in case kind entry of
        KIND_FILE \<Rightarrow> do { r \<leftarrow> glnx_openat_rdonly K parent_fd base False; State_Monad.return (opened r) }
      | KIND_DIR \<Rightarrow> do { r \<leftarrow> glnx_opendirat K parent_fd base False; State_Monad.return (opened r) }
      | KIND_LINK \<Rightarrow> do {
          target \<leftarrow> glnx_readlinkat_malloc K parent_fd base;
          State_Monad.return (case target of
              Inl e \<Rightarrow> if optional_missing entry e then Inr None else Inl e
            | Inr t \<Rightarrow> if t = the (link entry) then Inr None else Inl io_failed) }
      | _ \<Rightarrow> State_Monad.return (Inl io_failed))"

definition verify_fd :: "nat \<Rightarrow> glib \<Rightarrow> 'w kernel \<Rightarrow> mtree_entry \<Rightarrow> fd \<Rightarrow> ('w, (gerror + unit) option) state" where
  "verify_fd fuel G K entry fd = do {
     st \<leftarrow> sys_fstatat K fd [] {AT_EMPTY_PATH};
     r \<leftarrow> (case st of
        Inl e \<Rightarrow> State_Monad.return (Some (Inl (throw_errno e)))
      | Inr s \<Rightarrow> verify_stat fuel G K entry fd s);
     glnx_close_fd K fd;
     State_Monad.return r }"

text \<open>Everything after the parent directory is open. The path of the parent directory of a
  nested manifest is kept. \<open>g_return_val_if_reached\<close> leaves the error of the caller alone.\<close>

definition verify_in_parent :: "nat \<Rightarrow> glib \<Rightarrow> 'w kernel \<Rightarrow> mtree_entry \<Rightarrow> apply_flag set \<Rightarrow> fd \<Rightarrow> string \<Rightarrow> string \<Rightarrow>
    verify_state \<Rightarrow> ('w, (verify_state \<times> (failure + unit)) outcome) state" where
  "verify_in_parent fuel G K entry flags parent_fd parent base s = do {
     f \<leftarrow> verify_open K entry parent_fd base;
     v \<leftarrow> (case f of
         Inl e \<Rightarrow> State_Monad.return (Some (Inl e))
       | Inr None \<Rightarrow> State_Monad.return (Some (Inr ()))
       | Inr (Some fd) \<Rightarrow> verify_fd fuel G K entry fd);
     glnx_close_fd K parent_fd;
     State_Monad.return (case v of
         None \<Rightarrow> Out_of_fuel
       | Some (Inl e) \<Rightarrow> Ret (s, Inl (if e = PRECONDITION_FAILED then None else Some e))
       | Some (Inr _) \<Rightarrow>
           Ret (if f \<noteq> Inr None \<and> MINIMIZED_RUNTIME \<notin> flags \<and> base = ''usr-mtree.txt.gz''
                then s\<lparr> vs_runtimes := vs_runtimes s @ [parent] \<rparr> else s, Inr ())) }"

text \<open>If the parent directory cannot be opened, the resolver has set \<open>local_error\<close>, which is freed,
  and the error of the caller is left alone.\<close>

definition pv_mtree_foreach_verify_cb :: "nat \<Rightarrow> glib \<Rightarrow> 'w kernel \<Rightarrow> ('w, verify_state) callback" where
  "pv_mtree_foreach_verify_cb fuel G K entry flags state0 =
     (let name = verify_name flags entry;
          s = state0\<lparr> vs_names := verify_names flags entry (vs_names state0) \<rparr>;
          parent = g_path_get_dirname G name;
          base = glnx_basename name
      in if only_metadata flags entry then State_Monad.return (Ret (s, Inr ()))
         else do {
           r \<leftarrow> srt_resolve_in_sysroot fuel G K (vs_sysroot_fd s) parent {MUST_BE_DIRECTORY};
           (case r of
              None \<Rightarrow> State_Monad.return Out_of_fuel
            | Some (Inl _) \<Rightarrow> State_Monad.return (Ret (s, Inl None))
            | Some (Inr q) \<Rightarrow> verify_in_parent fuel G K entry flags (fst q) parent base s) })"

text \<open>The error is printed, so a null pointer is dereferenced.\<close>

definition pv_mtree_foreach_verify_error_cb :: "verify_state error_callback" where
  "pv_mtree_foreach_verify_error_cb e s =
     (case e of None \<Rightarrow> Crash | Some _ \<Rightarrow> Ret (s\<lparr> vs_failed := True \<rparr>))"

section \<open>Checking the tree\<close>

datatype ftw_action = FTW_CONTINUE | FTW_SKIP_SUBTREE | FTW_STOP

definition pv_mtree_verify_nftw_cb :: "string \<Rightarrow> ftw_type \<Rightarrow> verify_state \<Rightarrow> verify_state \<times> ftw_action" where
  "pv_mtree_verify_nftw_cb fpath typeflag s =
     (if \<not> g_str_has_prefix fpath (vs_sysroot s) then (s\<lparr> vs_failed := True \<rparr>, FTW_CONTINUE)
      else (case drop (length (vs_sysroot s)) fpath of
          [] \<Rightarrow> (s, FTW_CONTINUE)
        | c # rest \<Rightarrow>
            if c \<noteq> CHR ''/'' then (s, FTW_STOP)
            else (let suffix = dropWhile is_slash rest
                  in case map_of (vs_names s) suffix of
                    Some eflags \<Rightarrow>
                      (s, if typeflag = FTW_D \<and> IGNORE_BELOW \<in> eflags then FTW_SKIP_SUBTREE else FTW_CONTINUE)
                  | None \<Rightarrow>
                      (s\<lparr> vs_failed := True \<rparr>, if typeflag = FTW_D then FTW_SKIP_SUBTREE else FTW_CONTINUE))))"

text \<open>\<open>nftw\<close> with \<open>FTW_ACTIONRETVAL\<close> calls back in preorder; \<open>FTW_STOP\<close> ends the walk and is its
  result, 1.\<close>

fun nftw_tree :: "verify_state \<Rightarrow> ftw_tree \<Rightarrow> verify_state \<times> bool"
  and nftw_trees :: "verify_state \<Rightarrow> ftw_tree list \<Rightarrow> verify_state \<times> bool" where
  "nftw_tree s (FTW p ty ts) =
     (case pv_mtree_verify_nftw_cb p ty s of
        (s', FTW_CONTINUE) \<Rightarrow> nftw_trees s' ts
      | (s', FTW_SKIP_SUBTREE) \<Rightarrow> (s', True)
      | (s', FTW_STOP) \<Rightarrow> (s', False))"
| "nftw_trees s [] = (s, True)"
| "nftw_trees s (t # ts) =
     (case nftw_tree s t of (s', go) \<Rightarrow> if go then nftw_trees s' ts else (s', False))"

text \<open>The value of \<open>res = 0\<close> after the walk.\<close>

definition verify_walk :: "'w kernel \<Rightarrow> verify_state \<Rightarrow> ('w, bool) state" where
  "verify_walk K s = do {
     t \<leftarrow> sys_ftw K (vs_sysroot s);
     State_Monad.return (case t of
         Inl _ \<Rightarrow> False
       | Inr t \<Rightarrow> (case nftw_tree s t of (s', go) \<Rightarrow> go \<and> \<not> vs_failed s')) }"

section \<open>The whole check\<close>

text \<open>
  The checks of the nested runtimes call \<open>pv_mtree_verify\<close> again, with \<open>MINIMIZED_RUNTIME\<close>,
  where no further runtimes are collected. \<open>verify\<close> is that call. \<open>g_assert\<close> fails if it returns
  false without setting an error.
\<close>

fun verify_runtimes :: "nat \<Rightarrow> glib \<Rightarrow> 'w kernel \<Rightarrow>
    (string \<Rightarrow> string \<Rightarrow> fd \<Rightarrow> ('w, (failure + unit) outcome) state) \<Rightarrow> string \<Rightarrow> fd \<Rightarrow> string list \<Rightarrow> bool \<Rightarrow>
    ('w, bool outcome) state" where
  "verify_runtimes fuel G K verify sysroot sysroot_fd [] res = State_Monad.return (Ret res)"
| "verify_runtimes fuel G K verify sysroot sysroot_fd (runtime # rs) res = (
     let runtime_mtree = g_build_filename G [sysroot, runtime, ''usr-mtree.txt.gz''];
         runtime_files_rel = g_build_filename G [runtime, ''files''];
         runtime_files = g_build_filename G [sysroot, runtime_files_rel]
     in do {
       r \<leftarrow> srt_resolve_in_sysroot fuel G K sysroot_fd runtime_files_rel {MUST_BE_DIRECTORY};
       (case r of
          None \<Rightarrow> State_Monad.return Out_of_fuel
        | Some (Inl PRECONDITION_FAILED) \<Rightarrow> State_Monad.return Crash
        | Some (Inl _) \<Rightarrow> verify_runtimes fuel G K verify sysroot sysroot_fd rs False
        | Some (Inr (runtime_fd, _)) \<Rightarrow> do {
            v \<leftarrow> verify runtime_mtree runtime_files runtime_fd;
            (case v of
               Ret (Inl None) \<Rightarrow> State_Monad.return Crash
             | Ret (Inl (Some _)) \<Rightarrow> do {
                 glnx_close_fd K runtime_fd;
                 verify_runtimes fuel G K verify sysroot sysroot_fd rs False }
             | Ret (Inr _) \<Rightarrow> do {
                 glnx_close_fd K runtime_fd;
                 verify_runtimes fuel G K verify sysroot sysroot_fd rs res }
             | Crash \<Rightarrow> State_Monad.return Crash
             | Out_of_fuel \<Rightarrow> State_Monad.return Out_of_fuel) }) })"

text \<open>One call, given the recursive one.\<close>

definition verify_once :: "nat \<Rightarrow> glib \<Rightarrow> 'w kernel \<Rightarrow>
    (string \<Rightarrow> string \<Rightarrow> fd \<Rightarrow> ('w, (failure + unit) outcome) state) \<Rightarrow>
    string \<Rightarrow> string \<Rightarrow> fd \<Rightarrow> apply_flag set \<Rightarrow> ('w, (failure + unit) outcome) state" where
  "verify_once fuel G K verify mtree sysroot sysroot_fd flags =
     (if \<not> sysroot_fd \<ge> 0 then State_Monad.return (Ret (Inl None))
      else do {
        let s0 = \<lparr> vs_names = [], vs_runtimes = [], vs_sysroot = g_file_path G sysroot,
                   vs_sysroot_fd = sysroot_fd, vs_failed = False \<rparr>;
        r \<leftarrow> pv_mtree_foreach G K mtree flags (pv_mtree_foreach_verify_cb fuel G K)
               (Some pv_mtree_foreach_verify_error_cb) s0;
        (case r of
           Crash \<Rightarrow> State_Monad.return Crash
         | Out_of_fuel \<Rightarrow> State_Monad.return Out_of_fuel
         | Ret (s, x) \<Rightarrow> do {
             res \<leftarrow> (case x of Inl _ \<Rightarrow> State_Monad.return False | Inr _ \<Rightarrow> verify_walk K s);
             v \<leftarrow> verify_runtimes fuel G K verify sysroot sysroot_fd (vs_runtimes s) res;
             State_Monad.return (case v of
                 Ret True \<Rightarrow> Ret (Inr ())
               | Ret False \<Rightarrow> Ret (Inl (Some (case x of Inl (Some e) \<Rightarrow> e | _ \<Rightarrow> io_failed)))
               | Crash \<Rightarrow> Crash
               | Out_of_fuel \<Rightarrow> Out_of_fuel) }) })"

definition pv_mtree_verify :: "nat \<Rightarrow> glib \<Rightarrow> 'w kernel \<Rightarrow> string \<Rightarrow> string \<Rightarrow> fd \<Rightarrow> apply_flag set \<Rightarrow>
    ('w, (failure + unit) outcome) state" where
  "pv_mtree_verify fuel G K mtree sysroot sysroot_fd flags =
     verify_once fuel G K
       (\<lambda>m r fd. verify_once fuel G K (\<lambda>_ _ _. State_Monad.return (Ret (Inl None))) m r fd (insert MINIMIZED_RUNTIME flags))
       mtree sysroot sysroot_fd flags"


section \<open>What the walk finds\<close>

text \<open>The objects of a tree, each with the objects above it.\<close>

fun ftw_nodes :: "(string \<times> ftw_type) list \<Rightarrow> ftw_tree \<Rightarrow> (string \<times> ftw_type \<times> (string \<times> ftw_type) list) list"
  and ftw_nodess :: "(string \<times> ftw_type) list \<Rightarrow> ftw_tree list \<Rightarrow>
    (string \<times> ftw_type \<times> (string \<times> ftw_type) list) list" where
  "ftw_nodes anc (FTW p ty ts) = (p, ty, anc) # ftw_nodess ((p, ty) # anc) ts"
| "ftw_nodess anc [] = []"
| "ftw_nodess anc (t # ts) = ftw_nodes anc t @ ftw_nodess anc ts"

definition in_sysroot :: "verify_state \<Rightarrow> string \<Rightarrow> bool" where
  "in_sysroot s p = (p = vs_sysroot s \<or> g_str_has_prefix p (vs_sysroot s @ ''/''))"

text \<open>The entry of the manifest for an object, if there is one.\<close>

definition manifest_entry :: "verify_state \<Rightarrow> string \<Rightarrow> entry_flag set option" where
  "manifest_entry s p = map_of (vs_names s) (dropWhile is_slash (drop (length (vs_sysroot s)) p))"

definition unlisted :: "verify_state \<Rightarrow> string \<Rightarrow> bool" where
  "unlisted s p = (p \<noteq> vs_sysroot s \<and> manifest_entry s p = None)"

definition ignored_dir :: "verify_state \<Rightarrow> string \<times> ftw_type \<Rightarrow> bool" where
  "ignored_dir s = (\<lambda>(p, ty). p \<noteq> vs_sysroot s \<and> ty = FTW_D \<and>
     (\<exists>fl. manifest_entry s p = Some fl \<and> IGNORE_BELOW \<in> fl))"

text \<open>The callback, in these terms.\<close>

lemma nftw_cb_spec:
  assumes "in_sysroot s p"
  shows "pv_mtree_verify_nftw_cb p ty s =
     (if unlisted s p then (s\<lparr> vs_failed := True \<rparr>, if ty = FTW_D then FTW_SKIP_SUBTREE else FTW_CONTINUE)
      else (s, if ignored_dir s (p, ty) then FTW_SKIP_SUBTREE else FTW_CONTINUE))"
proof (cases "p = vs_sysroot s")
  case True
  then show ?thesis by (simp add: pv_mtree_verify_nftw_cb_def unlisted_def ignored_dir_def g_str_has_prefix_def)
next
  case False
  then obtain r where p: "p = vs_sysroot s @ CHR ''/'' # r"
    using assms by (auto simp: in_sysroot_def g_str_has_prefix_iff)
  show ?thesis
    by (cases "map_of (vs_names s) (dropWhile is_slash r)")
       (auto simp: p pv_mtree_verify_nftw_cb_def unlisted_def ignored_dir_def g_str_has_prefix_def manifest_entry_def)
qed

lemma only_failed:
  "unlisted (s\<lparr> vs_failed := b \<rparr>) = unlisted s" "ignored_dir (s\<lparr> vs_failed := b \<rparr>) = ignored_dir s"
  "in_sysroot (s\<lparr> vs_failed := b \<rparr>) = in_sysroot s"
  by (simp_all add: fun_eq_iff unlisted_def ignored_dir_def in_sysroot_def manifest_entry_def)

text \<open>An object is missing from the manifest, and no directory above it is ignored.\<close>

definition found_unlisted :: "verify_state \<Rightarrow> (string \<times> ftw_type \<times> (string \<times> ftw_type) list) list \<Rightarrow> bool" where
  "found_unlisted s ns = (\<exists>(p, ty, anc) \<in> set ns. unlisted s p \<and> \<not> list_ex (ignored_dir s) anc)"

lemma found_unlisted_simps:
  "found_unlisted s [] = False"
  "found_unlisted s (n # ns) = (unlisted s (fst n) \<and> \<not> list_ex (ignored_dir s) (snd (snd n)) \<or> found_unlisted s ns)"
  "found_unlisted s (ns @ ms) = (found_unlisted s ns \<or> found_unlisted s ms)"
  "found_unlisted (s\<lparr> vs_failed := b \<rparr>) ns = found_unlisted s ns"
  by (auto simp: found_unlisted_def only_failed case_prod_beta)

lemma ftw_nodes_anc:
  "n \<in> set (ftw_nodes anc t) \<Longrightarrow> set anc \<subseteq> set (snd (snd n))"
  "n \<in> set (ftw_nodess anc ts) \<Longrightarrow> set anc \<subseteq> set (snd (snd n))"
  by (induction anc t and anc ts rule: ftw_nodes_ftw_nodess.induct) auto

lemma found_unlisted_ignored: "ignored_dir s x \<Longrightarrow> \<not> found_unlisted s (ftw_nodess (x # anc) ts)"
  using ftw_nodes_anc(2) by (fastforce simp: found_unlisted_def list_ex_iff)

lemma nftw_found:
  "\<forall>n \<in> set (ftw_nodes anc t). in_sysroot s (fst n) \<Longrightarrow> \<not> list_ex (ignored_dir s) anc \<Longrightarrow>
   nftw_tree s t = (s\<lparr> vs_failed := vs_failed s \<or> found_unlisted s (ftw_nodes anc t) \<rparr>, True)"
  "\<forall>n \<in> set (ftw_nodess anc ts). in_sysroot s (fst n) \<Longrightarrow> \<not> list_ex (ignored_dir s) anc \<Longrightarrow>
   nftw_trees s ts = (s\<lparr> vs_failed := vs_failed s \<or> found_unlisted s (ftw_nodess anc ts) \<rparr>, True)"
proof (induction anc t and anc ts arbitrary: s and s rule: ftw_nodes_ftw_nodess.induct)
  case (1 anc p ty ts)
  have p: "in_sysroot s p" using 1(2) by simp
  have not_both: "unlisted s p \<Longrightarrow> \<not> ignored_dir s (p, ty)" by (auto simp: unlisted_def ignored_dir_def)
  have IH: "\<not> ignored_dir s (p, ty) \<Longrightarrow> nftw_trees (s\<lparr> vs_failed := b \<rparr>) ts =
      (s\<lparr> vs_failed := b \<or> found_unlisted s (ftw_nodess ((p, ty) # anc) ts) \<rparr>, True)" for b
    using 1(1) [of "s\<lparr> vs_failed := b \<rparr>"] 1(2,3) by (simp add: only_failed found_unlisted_simps)
  show ?case
  proof (cases "unlisted s p")
    case True
    then show ?thesis using not_both IH [of True] 1(3) by (simp add: nftw_cb_spec [OF p] found_unlisted_simps)
  next
    case False
    then show ?thesis using IH [of "vs_failed s"] found_unlisted_ignored
      by (simp add: nftw_cb_spec [OF p] found_unlisted_simps)
  qed
next
  case (3 anc t ts)
  then show ?case by (simp add: found_unlisted_simps only_failed disj_assoc)
qed (simp add: found_unlisted_simps)

text \<open>C34: The walk over the directory tree fails exactly if the check had failed before it, or some
  object of the tree, other than the sysroot itself, is missing from the manifest and is not below a
  directory that the manifest ignores.\<close>

theorem verify_walk_complete:
  assumes "run_state (sys_ftw K (vs_sysroot s)) w = (Inr t, w')"
    and "\<forall>n \<in> set (ftw_nodes [] t). in_sysroot s (fst n)"
  shows "run_state (verify_walk K s) w = (\<not> vs_failed s \<and> \<not> found_unlisted s (ftw_nodes [] t), w')"
  using assms(1) nftw_found(1) [OF assms(2)] by (simp add: verify_walk_def)

lemma verify_walk_complete_witness:
  "run_state (verify_walk mem_kernel \<lparr> vs_names = [(''f'', {})], vs_runtimes = [], vs_sysroot = ''/d'', vs_sysroot_fd = 3,
     vs_failed = False \<rparr>) demo_world = (True, demo_world)"
proof -
  let ?s = "\<lparr> vs_names = [(''f'', {})], vs_runtimes = [], vs_sysroot = ''/d'', vs_sysroot_fd = 3, vs_failed = False \<rparr>"
  let ?t = "FTW ''/d'' FTW_D [FTW ''/d/f'' FTW_F []]"
  have run: "run_state (sys_ftw mem_kernel (vs_sysroot ?s)) demo_world = (Inr ?t, demo_world)" by code_simp
  have below: "\<forall>n \<in> set (ftw_nodes [] ?t). in_sysroot ?s (fst n)" by code_simp
  show ?thesis
    using verify_walk_complete [OF run below]
    by (simp add: found_unlisted_simps unlisted_def manifest_entry_def)
qed

section \<open>What a successful check of a file means\<close>

text \<open>A regular file as an entry describes it. \<open>bytes\<close> is what was read from it.\<close>

definition file_conforms :: "glib \<Rightarrow> mtree_entry \<Rightarrow> stat \<Rightarrow> string \<Rightarrow> bool" where
  "file_conforms G e st bytes = (S_ISREG (st_mode st) \<and> (0 \<le> fsize e \<longrightarrow> st_size st = fsize e) \<and>
     (0 \<le> mode e \<and> has_x (mode e) \<longrightarrow> st_mode st AND 73 \<noteq> 0) \<and>
     (\<forall>h. sha256 e = Some h \<longrightarrow> g_sha256 G bytes = h))"

text \<open>The calls that read a file to its end.\<close>

definition read_calls :: "mtree_entry \<Rightarrow> fd \<Rightarrow> string list \<Rightarrow> call list" where
  "read_calls e fd chunks =
     (if sha256 e = None then [] else map (\<lambda>c. C_read fd (Inr c)) chunks @ [C_read fd (Inr [])])"

lemma run_log_call:
  "run_state (log_call m c) (w, l) = (case run_state m w of (r, w') \<Rightarrow> (r, (w', l @ [c r])))"
  by (simp add: log_call_def)

lemma hash_fd_run:
  "run_state (hash_fd n G (logged K) fd h) (w, l) = (Some (Inr d), (w', l')) \<Longrightarrow>
   \<exists>chunks. l' = l @ map (\<lambda>c. C_read fd (Inr c)) chunks @ [C_read fd (Inr [])] \<and> d = g_sha256 G (h @ concat chunks)"
proof (induction n arbitrary: h w l)
  case (Suc n)
  obtain r w1 where r: "run_state (sys_read K fd 4096) w = (r, w1)" by fastforce
  have rd: "run_state (sys_read (logged K) fd 4096) (w, l) = (r, (w1, l @ [C_read fd r]))"
    by (simp add: logged_def run_log_call r)
  show ?case
  proof (cases r)
    case (Inl e)
    then show ?thesis using Suc.prems by (simp add: run_state_bind rd)
  next
    case (Inr c)
    show ?thesis
    proof (cases "c = []")
      case True
      then show ?thesis using Suc.prems by (intro exI [of _ "[]"]) (simp add: run_state_bind rd Inr)
    next
      case False
      then have "run_state (hash_fd n G (logged K) fd (h @ c)) (w1, l @ [C_read fd (Inr c)]) = (Some (Inr d), (w', l'))"
        using Suc.prems by (simp add: run_state_bind rd Inr)
      from Suc.IH [OF this] obtain chunks where
        "l' = (l @ [C_read fd (Inr c)]) @ map (\<lambda>c. C_read fd (Inr c)) chunks @ [C_read fd (Inr [])]"
        "d = g_sha256 G ((h @ c) @ concat chunks)" by blast
      then show ?thesis by (intro exI [of _ "c # chunks"]) simp
    qed
  qed
qed simp

lemma close_run:
  obtains w2 l2 where "run_state (glnx_close_fd (logged K) fd) (w, l) = ((), (w2, l @ l2))"
proof (cases "fd \<ge> 0")
  case True
  obtain w2 where "run_state (sys_close K fd) w = ((), w2)" by (cases "run_state (sys_close K fd) w") auto
  then show ?thesis using True that [of w2 "[C_close fd]"] by (simp add: glnx_close_fd_def logged_def run_log_call)
next
  case False
  then show ?thesis using that [of w "[]"] by (simp add: glnx_close_fd_def)
qed

lemma verify_stat_run:
  assumes "run_state (verify_stat fuel G (logged K) e fd st) (w, l) = (Some (Inr ()), (w', l'))" "kind e = KIND_FILE"
  shows "\<exists>chunks. l' = l @ read_calls e fd chunks \<and> file_conforms G e st (concat chunks)"
proof -
  have st: "S_ISREG (st_mode st)" "0 \<le> fsize e \<longrightarrow> st_size st = fsize e"
    using assms by (auto simp: verify_stat_def split: if_splits)
  have mode: "verify_mode e st = Inr () \<longleftrightarrow> (0 \<le> mode e \<and> has_x (mode e) \<longrightarrow> st_mode st AND 73 \<noteq> 0)"
    using assms(2) by (auto simp: verify_mode_def)
  show ?thesis
  proof (cases "sha256 e")
    case None
    then show ?thesis using assms st mode
      by (auto simp: verify_stat_def read_calls_def file_conforms_def split: if_splits)
  next
    case (Some h)
    obtain r w1 l1 where r: "run_state (hash_fd fuel G (logged K) fd []) (w, l) = (r, (w1, l1))"
      by (cases "run_state (hash_fd fuel G (logged K) fd []) (w, l)") auto
    have d: "r = Some (Inr h)" "w1 = w'" "l1 = l'" "verify_mode e st = Inr ()"
      using assms st Some r
      by (auto simp: verify_stat_def run_state_bind split: option.splits sum.splits if_splits)
    from hash_fd_run [OF r [unfolded d(1)]] d(3) Some st mode d(4) show ?thesis
      by (auto simp: read_calls_def file_conforms_def)
  qed
qed

lemma verify_fd_run:
  assumes "run_state (verify_fd fuel G (logged K) e fd) (w, l) = (Some (Inr ()), (w', l'))" "kind e = KIND_FILE"
  shows "\<exists>st chunks l2. l' = l @ C_fstatat fd [] (Inr st) # read_calls e fd chunks @ l2 \<and> file_conforms G e st (concat chunks)"
proof -
  obtain r w1 where "run_state (sys_fstatat K fd [] {AT_EMPTY_PATH}) w = (r, w1)" by fastforce
  then have stat: "run_state (sys_fstatat (logged K) fd [] {AT_EMPTY_PATH}) (w, l) = (r, (w1, l @ [C_fstatat fd [] r]))"
    by (simp add: logged_def run_log_call)
  show ?thesis
  proof (cases r)
    case (Inl e')
    obtain w2 l2 where "run_state (glnx_close_fd (logged K) fd) (w1, l @ [C_fstatat fd [] r]) = ((), (w2, (l @ [C_fstatat fd [] r]) @ l2))"
      by (rule close_run)
    then show ?thesis using assms(1) by (simp add: verify_fd_def run_state_bind stat Inl)
  next
    case (Inr st)
    obtain v w2 l2 where v: "run_state (verify_stat fuel G (logged K) e fd st) (w1, l @ [C_fstatat fd [] (Inr st)]) = (v, (w2, l2))"
      by (cases "run_state (verify_stat fuel G (logged K) e fd st) (w1, l @ [C_fstatat fd [] (Inr st)])") auto
    obtain w3 l3 where c: "run_state (glnx_close_fd (logged K) fd) (w2, l2) = ((), (w3, l2 @ l3))" by (rule close_run)
    have "v = Some (Inr ())" and l': "l' = l2 @ l3"
      using assms(1) by (simp_all add: verify_fd_def run_state_bind stat Inr v c)
    from verify_stat_run [OF v [unfolded this(1)] assms(2)] l' show ?thesis by fastforce
  qed
qed

lemma verify_in_parent_run:
  assumes "run_state (verify_in_parent fuel G (logged K) e flags dfd parent base s) (w, l) = (Ret (s', Inr ()), (w', l'))"
    and "kind e = KIND_FILE" "OPTIONAL \<notin> entry_flags e"
  shows "\<exists>l2 fl n st chunks. l' = l @ C_openat dfd base fl (Inr n) #
      C_fstatat (int n) [] (Inr st) # read_calls e (int n) chunks @ l2 \<and>
      O_NOFOLLOW \<in> fl \<and> file_conforms G e st (concat chunks)"
proof -
  let ?fl = "{O_NOFOLLOW, O_RDONLY, O_CLOEXEC, O_NOCTTY}"
  obtain x w1 where x: "run_state (sys_openat K dfd base ?fl) w = (x, w1)" by fastforce
  have f: "run_state (verify_open (logged K) e dfd base) (w, l) =
      (case x of Inl e \<Rightarrow> Inl (throw_errno e) | Inr n \<Rightarrow> Inr (Some (int n)), (w1, l @ [C_openat dfd base ?fl x]))"
    using x assms(2,3)
    by (auto simp: verify_open_def glnx_openat_rdonly_def k_openat_def run_state_bind logged_def run_log_call
        optional_missing_def split: sum.splits)
  show ?thesis
  proof (cases x)
    case (Inl e')
    obtain w2 l2 where c: "run_state (glnx_close_fd (logged K) dfd) (w1, l @ [C_openat dfd base ?fl x]) =
        ((), (w2, (l @ [C_openat dfd base ?fl x]) @ l2))"
      by (rule close_run)
    then show ?thesis using assms(1) f by (simp add: verify_in_parent_def run_state_bind Inl)
  next
    case (Inr n)
    let ?l = "l @ [C_openat dfd base ?fl (Inr n)]"
    obtain v w2 l2 where v: "run_state (verify_fd fuel G (logged K) e (int n)) (w1, ?l) = (v, (w2, l2))"
      by (cases "run_state (verify_fd fuel G (logged K) e (int n)) (w1, ?l)") auto
    obtain w3 l3 where c: "run_state (glnx_close_fd (logged K) dfd) (w2, l2) = ((), (w3, l2 @ l3))" by (rule close_run)
    have "v = Some (Inr ())" and l': "l' = l2 @ l3"
      using assms(1) f by (auto simp: verify_in_parent_def run_state_bind Inr v c split: option.splits sum.splits)
    from verify_fd_run [OF v [unfolded this(1)] assms(2)] obtain st chunks l4 where
      l2: "l2 = ?l @ C_fstatat (int n) [] (Inr st) # read_calls e (int n) chunks @ l4" and
      ok: "file_conforms G e st (concat chunks)" by blast
    show ?thesis
      by (rule exI [of _ "l4 @ l3"], rule exI [of _ ?fl], rule exI [of _ n], rule exI [of _ st], rule exI [of _ chunks])
         (simp add: l' l2 ok)
  qed
qed

text \<open>C35: When the check of a regular file that is neither optional nor part of a minimized
  runtime succeeds, the code has opened the last element of its name without following a symbolic
  link, and what it was told about that descriptor conforms to the entry: it is a regular file, of
  the size in the manifest, executable if the manifest says so, and the bytes that were read, up to
  the end of the file, have the checksum in the manifest.\<close>

theorem verify_cb_file_sound:
  assumes "run_state (pv_mtree_foreach_verify_cb fuel G (logged K) e flags s) (w, []) = (Ret (s', Inr ()), (w', l))"
    and "kind e = KIND_FILE" "OPTIONAL \<notin> entry_flags e" "MINIMIZED_RUNTIME \<notin> flags"
  shows "\<exists>l1 l2 dfd fl n st chunks. l = l1 @ C_openat dfd (glnx_basename (verify_name flags e)) fl (Inr n) #
      C_fstatat (int n) [] (Inr st) # read_calls e (int n) chunks @ l2 \<and>
      O_NOFOLLOW \<in> fl \<and> file_conforms G e st (concat chunks)"
proof -
  let ?base = "glnx_basename (verify_name flags e)" and ?parent = "g_path_get_dirname G (verify_name flags e)"
  let ?s = "s\<lparr> vs_names := verify_names flags e (vs_names s) \<rparr>"
  let ?resolve = "srt_resolve_in_sysroot fuel G (logged K) (vs_sysroot_fd s) ?parent {MUST_BE_DIRECTORY}"
  have meta: "only_metadata flags e = False" using assms(4) by (simp add: only_metadata_def)
  obtain r w1 l1 where r: "run_state ?resolve (w, []) = (r, (w1, l1))" by (cases "run_state ?resolve (w, [])") auto
  have cb: "run_state (case r of
        None \<Rightarrow> State_Monad.return Out_of_fuel
      | Some (Inl _) \<Rightarrow> State_Monad.return (Ret (?s, Inl None))
      | Some (Inr q) \<Rightarrow> verify_in_parent fuel G (logged K) e flags (fst q) ?parent ?base ?s) (w1, l1) =
      (Ret (s', Inr ()), (w', l))"
    using assms(1) r by (simp add: pv_mtree_foreach_verify_cb_def Let_def meta run_state_bind)
  then obtain q where "r = Some (Inr q)"
    by (cases r) (auto split: sum.splits)
  with cb have "run_state (verify_in_parent fuel G (logged K) e flags (fst q) ?parent ?base ?s) (w1, l1) =
      (Ret (s', Inr ()), (w', l))" by simp
  from verify_in_parent_run [OF this assms(2,3)] show ?thesis by blast
qed

definition demo_entry :: mtree_entry where
  "demo_entry = PV_MTREE_ENTRY_BLANK\<lparr> name := Some ''./d/f'', kind := KIND_FILE, fsize := 5 \<rparr>"

definition demo_verify_state :: verify_state where
  "demo_verify_state = \<lparr> vs_names = [], vs_runtimes = [], vs_sysroot = ''/'', vs_sysroot_fd = 3, vs_failed = False \<rparr>"

lemma verify_cb_file_sound_witness:
  "\<exists>l1 l2 dfd fl n st. snd (snd (run_state (pv_mtree_foreach_verify_cb 20 glib_ref (logged mem_kernel) demo_entry {}
      demo_verify_state) (demo_world, []))) =
      l1 @ C_openat dfd ''f'' fl (Inr n) # C_fstatat (int n) [] (Inr st) # l2 \<and> S_ISREG (st_mode st)"
proof -
  let ?run = "run_state (pv_mtree_foreach_verify_cb 20 glib_ref (logged mem_kernel) demo_entry {}
      demo_verify_state) (demo_world, [])"
  have ok: "(case fst ?run of Ret (s, Inr ()) \<Rightarrow> True | _ \<Rightarrow> False)" by code_simp
  obtain r w l where R: "?run = (r, (w, l))" by (rule prod_cases3)
  have ok': "(case r of Ret (s, Inr ()) \<Rightarrow> True | _ \<Rightarrow> False)"
    using ok by (simp only: R fst_conv)
  then obtain s where r: "r = Ret (s, Inr ())"
    by (cases r) (auto split: sum.splits)
  have e: "kind demo_entry = KIND_FILE" "OPTIONAL \<notin> entry_flags demo_entry" "glnx_basename (verify_name {} demo_entry) = ''f''"
    by code_simp+
  from verify_cb_file_sound [OF R [unfolded r] e(1,2)] show ?thesis
    unfolding R e(3) snd_conv file_conforms_def by fastforce
qed

section \<open>Names\<close>

lemma map_of_add_ancestors:
  "map_of (add_ancestors n t) a =
     (if map_of t a = None \<and> (\<exists>b. n = a @ CHR ''/'' # b) then Some {OPTIONAL} else map_of t a)"
proof (induction n t rule: add_ancestors.induct)
  case (1 n t)
  show ?case
  proof (cases "strrchr n CHR ''/''")
    case None
    then have "CHR ''/'' \<notin> set n" by (simp add: strrchr_None)
    then show ?thesis by (subst add_ancestors.simps) (auto simp: None)
  next
    case (Some x)
    obtain d r where x: "x = (d, r)" by (cases x)
    then have n: "n = d @ CHR ''/'' # r" "CHR ''/'' \<notin> set r" using Some by (auto simp: strrchr_Some_iff)
    have split: "(\<exists>b. n = a @ CHR ''/'' # b) \<longleftrightarrow> a = d \<or> (\<exists>b. d = a @ CHR ''/'' # b)"
      using n by (fastforce simp: append_eq_append_conv2 Cons_eq_append_conv append_eq_Cons_conv)
    show ?thesis
      using 1 [OF Some x [symmetric]] unfolding split
      by (subst add_ancestors.simps) (auto simp: Some x update_conv')
  qed
qed

text \<open>After an entry has been checked, the table of names gives the flags of the entry for its
  own name; for a minimized runtime, every directory above the file that holds the contents is in
  the table too, as optional unless the manifest has listed it; and nothing else has changed.\<close>

theorem verify_names_lookup:
  "map_of (verify_names flags e names) a =
     (if a = verify_name flags e then Some (entry_flags e)
      else if map_of names a = None \<and> MINIMIZED_RUNTIME \<in> flags \<and> contents e \<noteq> None \<and>
          (\<exists>b. verify_name flags e = a @ CHR ''/'' # b) then Some {OPTIONAL}
      else map_of names a)"
  by (auto simp: verify_names_def Let_def map_of_add_ancestors update_conv')

section \<open>Missing directories\<close>

text \<open>If the directory that should hold an entry cannot be opened, checking the manifest
  dereferences a null pointer: the callback fails without setting an error, because the resolver
  reported to a local variable, and the error callback prints the message of that error. This is
  so for optional entries too.\<close>

theorem verify_missing_parent_crashes:
  assumes "pv_mtree_entry_parse G (g_strstrip line) = Inr e" "name e \<noteq> None" "name e \<noteq> Some ''.''"
    and "\<not> only_metadata flags e"
    and "fst (run_state (srt_resolve_in_sysroot fuel G K (vs_sysroot_fd s)
        (g_path_get_dirname G (verify_name flags e)) {MUST_BE_DIRECTORY}) w) = Some (Inl err)"
  shows "fst (run_state (foreach_lines G flags (pv_mtree_foreach_verify_cb fuel G K)
      (Some pv_mtree_foreach_verify_error_cb) (line # lines) end_error s) w) = Crash"
proof -
  let ?resolve = "srt_resolve_in_sysroot fuel G K (vs_sysroot_fd s)
        (g_path_get_dirname G (verify_name flags e)) {MUST_BE_DIRECTORY}"
  obtain w1 where "run_state ?resolve w = (Some (Inl err), w1)" using assms(5) by (cases "run_state ?resolve w") auto
  then show ?thesis
    using assms(1-4)
    by (cases "name e") (simp_all add: run_state_bind pv_mtree_foreach_verify_cb_def Let_def pv_mtree_foreach_verify_error_cb_def)
qed

lemma verify_missing_parent_crashes_witness:
  "fst (run_state (foreach_lines glib_ref {} (pv_mtree_foreach_verify_cb 20 glib_ref mem_kernel)
      (Some pv_mtree_foreach_verify_error_cb) [''./missing/x type=file optional''] None demo_verify_state) demo_world) = Crash"
proof -
  let ?p = "pv_mtree_entry_parse glib_ref (g_strstrip ''./missing/x type=file optional'')"
  have "(case ?p of Inr e \<Rightarrow> name e = Some ''./missing/x'' \<and> \<not> only_metadata {} e \<and> contents e = None | _ \<Rightarrow> False)"
    by code_simp
  then obtain e where e: "?p = Inr e" "name e = Some ''./missing/x''" "\<not> only_metadata {} e" "contents e = None"
    by (auto split: sum.splits)
  then have n: "verify_name {} e = ''missing/x''" by (simp add: verify_name_def g_str_has_prefix_def)
  have "fst (run_state (srt_resolve_in_sysroot 20 glib_ref mem_kernel 3 (g_path_get_dirname glib_ref ''missing/x'')
      {MUST_BE_DIRECTORY}) demo_world) = Some (Inl (G_IO_ERROR IO_NOT_FOUND))"
    by code_simp
  then show ?thesis
    by (intro verify_missing_parent_crashes [OF e(1) _ _ e(3)]) (simp_all add: e(2) n demo_verify_state_def)
qed

end
