(* ===== verification/Host.thy ===== *)
theory Host imports Kernel Glib begin

text \<open>
  What pressure-vessel needs of its environment beyond the kernel of the resolver: creating a
  sealed memory file, a pipe, the type of a file system, a child process and its exit status, the user id. These are parameters too, the fields of the record \<open>host\<close>.
\<close>

record 'w host =
  kern :: "'w kernel"
  h_memfd :: "string \<Rightarrow> ('w, nat) io"              \<comment> \<open>\<open>flatpak_buffer_to_sealed_memfd_or_tmpfile\<close>\<close>
  h_pipe2 :: "('w, nat \<times> nat) sys"
  h_lseek_start :: "fd \<Rightarrow> ('w, unit) state"
  h_set_inherit :: "fd \<Rightarrow> ('w, unit) state"        \<comment> \<open>\<open>fcntl (fd, F_SETFD, 0)\<close>\<close>
  h_fdwalk_set_cloexec :: "fd \<Rightarrow> ('w, unit) state"
  h_fstatfs_autofs :: "fd \<Rightarrow> ('w, bool) sys"        \<comment> \<open>whether \<open>f_type\<close> is \<open>AUTOFS_SUPER_MAGIC\<close>\<close>
  h_set_nonblock :: "fd \<Rightarrow> ('w, unit) state"
  h_fork :: "child_step list \<Rightarrow> ('w, nat) sys"       \<comment> \<open>with what the child does\<close>
  h_select_read :: "fd \<Rightarrow> nat \<Rightarrow> ('w, int) state"   \<comment> \<open>a timeout in microseconds\<close>
  h_sigkill :: "nat \<Rightarrow> ('w, unit) state"
  h_waitpid :: "nat \<Rightarrow> ('w, int \<times> int option) state" \<comment> \<open>with the exit status, unless the child was killed\<close>
  h_readdir :: "fd \<Rightarrow> ('w, string list) io"           \<comment> \<open>the entries of a directory, without \<open>.\<close> and \<open>..\<close>\<close>
  h_unlinkat :: "fd \<Rightarrow> string \<Rightarrow> ('w, unit) sys"
  h_getuid :: int
  h_environ :: "string list"
  h_home_dir :: "string option"                       \<comment> \<open>\<open>g_get_home_dir\<close>\<close>
  g_path_get_basename :: "string \<Rightarrow> string"

text \<open>\<open>g_path_is_absolute\<close>\<close>

definition g_path_is_absolute :: "string \<Rightarrow> bool" where
  "g_path_is_absolute p = (p \<noteq> [] \<and> hd p = CHR ''/'')"

section \<open>Symbolic links of the host\<close>

text \<open>\<open>flatpak_readlink\<close> and \<open>flatpak_resolve_link\<close> (pressure-vessel/flatpak-utils-base.c): the target
  of a link, relative to its directory unless it is absolute.\<close>

definition flatpak_readlink :: "'w kernel \<Rightarrow> string \<Rightarrow> ('w, string) io" where
  "flatpak_readlink K path = glnx_readlinkat_malloc K (- 1) path"

definition flatpak_resolve_link :: "glib \<Rightarrow> 'w kernel \<Rightarrow> string \<Rightarrow> ('w, string) io" where
  "flatpak_resolve_link G K path = do {
     l \<leftarrow> flatpak_readlink K path;
     State_Monad.return (case l of
         Inl e \<Rightarrow> Inl e
       | Inr link \<Rightarrow>
           Inr (if g_path_is_absolute link then link else g_build_filename G [g_path_get_dirname G path, link])) }"

end
