(* ===== verification/Qsort.thy ===== *)
theory Qsort imports Prelude "HOL-Library.Multiset" "HOL-Library.Product_Lexorder" begin

text \<open>
  Comparison functions and sorting. \<open>qsort\<close> and \<open>g_list_sort\<close> belong to the C library and to GLib;
  their algorithm does not matter when the comparison function is a total order, which is the
  contract \<open>qsort_order\<close>: every sorted permutation is the same list. \<open>qsort_by\<close> computes it. The
  interpretations are for \<open>strcmp\<close> and for \<open>flatpak_envp_cmp\<close> (pressure-vessel/flatpak-utils.c).
\<close>

section \<open>Sorting with a comparison function\<close>

fun insort_by :: "('a \<Rightarrow> 'a \<Rightarrow> int) \<Rightarrow> 'a \<Rightarrow> 'a list \<Rightarrow> 'a list" where
  "insort_by cmp x [] = [x]"
| "insort_by cmp x (y # ys) = (if cmp x y \<le> 0 then x # y # ys else y # insort_by cmp x ys)"

fun qsort_by :: "('a \<Rightarrow> 'a \<Rightarrow> int) \<Rightarrow> 'a list \<Rightarrow> 'a list" where
  "qsort_by cmp [] = []"
| "qsort_by cmp (x # xs) = insort_by cmp x (qsort_by cmp xs)"

lemma mset_insort_by: "mset (insort_by cmp x xs) = add_mset x (mset xs)"
  by (induction xs) auto

lemma mset_qsort_by: "mset (qsort_by cmp xs) = mset xs"
  by (induction xs) (auto simp: mset_insort_by)

lemma set_qsort_by [simp]: "set (qsort_by cmp xs) = set xs"
  by (metis mset_qsort_by set_mset_mset)

lemma length_qsort_by [simp]: "length (qsort_by cmp xs) = length xs"
  by (metis mset_qsort_by size_mset)

lemma distinct_qsort_by [simp]: "distinct (qsort_by cmp xs) = distinct xs"
  by (metis mset_qsort_by mset_eq_imp_distinct_iff)

locale qsort_order =
  fixes cmp :: "'a \<Rightarrow> 'a \<Rightarrow> int"
  assumes cmp_zero: "cmp a b = 0 \<longleftrightarrow> a = b"
    and cmp_sym: "0 < cmp a b \<longleftrightarrow> cmp b a < 0"
    and cmp_trans: "cmp a b < 0 \<Longrightarrow> cmp b c < 0 \<Longrightarrow> cmp a c < 0"
begin

definition le :: "'a \<Rightarrow> 'a \<Rightarrow> bool" where
  "le a b = (cmp a b \<le> 0)"

lemma le_total: "le a b \<or> le b a"
  using cmp_sym [of a b] by (auto simp: le_def)

lemma le_antisym: "le a b \<Longrightarrow> le b a \<Longrightarrow> a = b"
  using cmp_sym [of a b] cmp_sym [of b a] cmp_zero [of a b] unfolding le_def by linarith

lemma le_trans: "le a b \<Longrightarrow> le b c \<Longrightarrow> le a c"
proof -
  assume "le a b" "le b c"
  then have "a = b \<or> cmp a b < 0" "b = c \<or> cmp b c < 0" using cmp_zero by (force simp: le_def)+
  then show "le a c" using cmp_trans cmp_zero [of c c] by (auto simp: le_def intro: less_imp_le)
qed

lemma sorted_insort: "sorted_wrt le ys \<Longrightarrow> sorted_wrt le (insort_by cmp x ys)"
proof (induction ys)
  case (Cons y ys)
  have set: "set (insort_by cmp x ys) = insert x (set ys)"
    by (metis mset_insort_by set_mset_add_mset_insert set_mset_mset)
  show ?case
  proof (cases "cmp x y \<le> 0")
    case True
    then show ?thesis using Cons.prems le_trans by (auto simp: le_def [symmetric])
  next
    case False
    then have "le y x" using le_total by (auto simp: le_def)
    then show ?thesis using Cons False by (auto simp: set)
  qed
qed simp

lemma sorted_qsort: "sorted_wrt le (qsort_by cmp xs)"
  by (induction xs) (auto intro: sorted_insort)

lemma sorted_unique: "sorted_wrt le xs \<Longrightarrow> sorted_wrt le ys \<Longrightarrow> mset xs = mset ys \<Longrightarrow> xs = ys"
proof (induction xs arbitrary: ys)
  case (Cons x xs)
  obtain y zs where ys: "ys = y # zs" using Cons.prems(3) by (cases ys) auto
  have "set (x # xs) = set (y # zs)" using Cons.prems(3) ys by (metis set_mset_mset)
  then have "x = y" using Cons.prems(1,2) ys le_antisym by (metis set_ConsD list.set_intros(1) sorted_wrt.simps(2))
  then show ?case using Cons ys by auto
qed simp

lemma qsort_unique: "sorted_wrt le ys \<Longrightarrow> mset ys = mset xs \<Longrightarrow> qsort_by cmp xs = ys"
  by (rule sorted_unique) (auto simp: sorted_qsort mset_qsort_by)

end

text \<open>A comparison by a key that tells all values apart.\<close>

lemma qsort_order_key:
  fixes key :: "'a \<Rightarrow> 'k::linorder"
  assumes "\<And>a b. (cmp a b :: int) < 0 \<longleftrightarrow> key a < key b" "\<And>a b. cmp a b = 0 \<longleftrightarrow> a = b" "inj key"
  shows "qsort_order cmp"
proof
  fix a b c
  show "cmp a b = 0 \<longleftrightarrow> a = b" by (rule assms(2))
  show "0 < cmp a b \<longleftrightarrow> cmp b a < 0"
    using assms(1) [of a b] assms(1) [of b a] assms(2) [of a b] injD [OF assms(3), of a b]
    by (cases "cmp a b" "0 :: int" rule: linorder_cases) auto
  show "cmp a b < 0 \<Longrightarrow> cmp b c < 0 \<Longrightarrow> cmp a c < 0" using assms(1) by auto
qed

section \<open>Comparing strings\<close>

definition strcmp :: "string \<Rightarrow> string \<Rightarrow> int" where
  "strcmp a b = (if a = b then 0 else if a < b then - 1 else 1)"

definition strncmp :: "string \<Rightarrow> string \<Rightarrow> nat \<Rightarrow> int" where
  "strncmp a b n = strcmp (take n a) (take n b)"

interpretation strcmp: qsort_order strcmp
  by (rule qsort_order_key [where key = id]) (auto simp: strcmp_def)

lemma strcmp_le: "strcmp.le a b \<longleftrightarrow> a \<le> b"
  by (auto simp: strcmp.le_def strcmp_def)

text \<open>The character at a position, \<^const>\<open>None\<close> for the terminating NUL at the end.\<close>

definition char_at :: "string \<Rightarrow> nat \<Rightarrow> char option" where
  "char_at s i = (if i < length s then Some (s ! i) else None)"

definition key_length :: "string \<Rightarrow> nat" where
  "key_length s = (case strchr s CHR ''='' of Some (k, _) \<Rightarrow> length k | None \<Rightarrow> length s)"

definition flatpak_envp_cmp :: "string \<Rightarrow> string \<Rightarrow> int" where
  "flatpak_envp_cmp s1 s2 =
     (let mn = min (key_length s1) (key_length s2);
          ret = strncmp s1 s2 mn
      in if ret \<noteq> 0 then ret
         else let ret = strcmp s1 s2 in
           if ret = 0 then ret
           else if char_at s1 mn = None then - 1
           else if char_at s2 mn = None then 1
           else if char_at s1 mn = Some CHR ''='' \<and> char_at s2 mn \<noteq> Some CHR ''='' then - 1
           else if char_at s2 mn = Some CHR ''='' \<and> char_at s1 mn \<noteq> Some CHR ''='' then 1
           else ret)"

text \<open>The name of a variable: everything before the first \<open>=\<close>.\<close>

definition env_key :: "string \<Rightarrow> string" where
  "env_key s = takeWhile (\<lambda>c. c \<noteq> CHR ''='') s"

lemma key_length_env_key: "key_length s = length (env_key s)"
proof (cases "CHR ''='' \<in> set s")
  case True
  then show ?thesis by (simp add: key_length_def strchr_def env_key_def)
next
  case False
  then have "env_key s = s" by (auto simp: env_key_def takeWhile_eq_all_conv)
  then show ?thesis using False by (simp add: key_length_def strchr_def)
qed

text \<open>A string is its key, or its key, \<open>=\<close> and a value.\<close>

lemma env_key_cases:
  "\<exists>k. env_key s = k \<and> (s = k \<and> char_at s (length k) = None \<or>
     (\<exists>v. s = k @ CHR ''='' # v \<and> char_at s (length k) = Some CHR ''=''))"
proof -
  define k where "k = env_key s"
  have s: "s = k @ dropWhile (\<lambda>c. c \<noteq> CHR ''='') s" by (simp add: k_def env_key_def)
  show ?thesis
  proof (cases "dropWhile (\<lambda>c. c \<noteq> CHR ''='') s")
    case Nil
    then have "s = k" using s by (simp only: append_Nil2)
    then have "s = k \<and> char_at s (length k) = None" by (auto simp: char_at_def)
    then show ?thesis unfolding k_def by blast
  next
    case (Cons c v)
    then have "c = CHR ''=''" using hd_dropWhile [of "\<lambda>c. c \<noteq> CHR ''=''" s] by simp
    then have "s = k @ CHR ''='' # v" using s Cons by simp
    then have "s = k @ CHR ''='' # v \<and> char_at s (length k) = Some CHR ''=''" by (auto simp: char_at_def)
    then show ?thesis unfolding k_def by blast
  qed
qed

lemma env_key_no_eq: "i < length (env_key s) \<Longrightarrow> char_at s i = Some (env_key s ! i) \<and> env_key s ! i \<noteq> CHR ''=''"
  unfolding env_key_def char_at_def
  by (metis (mono_tags, lifting) length_takeWhile_le nth_mem order_less_le_trans set_takeWhileD takeWhile_nth)

lemma append_less_iff: "length x = length y \<Longrightarrow> x \<noteq> y \<Longrightarrow> x @ u < y @ v \<longleftrightarrow> (x :: string) < y"
  by (induction x y rule: list_induct2) auto

lemma take_less_iff:
  assumes "take n a \<noteq> take n b" "n \<le> length a" "n \<le> length b"
  shows "(a :: string) < b \<longleftrightarrow> take n a < take n b"
proof -
  have "take n a @ drop n a < take n b @ drop n b \<longleftrightarrow> take n a < take n b"
    using assms by (intro append_less_iff) auto
  then show ?thesis by simp
qed

lemma less_append: "(x :: string) < x @ c # cs" "\<not> x @ c # cs < (x :: string)"
  by (induction x) auto

lemma take_env_key: "n \<le> length (env_key s) \<Longrightarrow> take n s = take n (env_key s)"
  unfolding env_key_def by (metis append_take_drop_id length_take min.absorb2 take_append takeWhile_dropWhile_id diff_is_0_eq take0 append_Nil2)

lemma envp_cmp_key: "flatpak_envp_cmp s t < 0 \<longleftrightarrow> (env_key s, s) < (env_key t, t)"
proof -
  let ?k = "env_key s" and ?l = "env_key t"
  define mn where "mn = min (length ?k) (length ?l)"
  have tk: "take mn s = take mn ?k" "take mn t = take mn ?l" by (simp_all add: take_env_key mn_def)
  show ?thesis
  proof (cases "take mn ?k = take mn ?l")
    case False
    then have "?k < ?l \<longleftrightarrow> take mn ?k < take mn ?l" by (intro take_less_iff) (auto simp: mn_def)
    moreover have "?k \<noteq> ?l" using False by auto
    moreover have "flatpak_envp_cmp s t = strcmp (take mn ?k) (take mn ?l)"
      using False by (simp add: flatpak_envp_cmp_def key_length_env_key strncmp_def tk mn_def [symmetric] strcmp.cmp_zero)
    ultimately show ?thesis using False by (auto simp: strcmp_def less_prod_def)
  next
    case True
    then have ret: "strncmp s t mn = 0" by (simp add: strncmp_def tk strcmp_def)
    consider (lt) "length ?k < length ?l" | (gt) "length ?l < length ?k" | (eq) "length ?k = length ?l" by linarith
    then show ?thesis
    proof cases
      case lt
      then have mn: "mn = length ?k" by (simp add: mn_def)
      obtain c cs where l: "?l = ?k @ c # cs" 
        using True lt mn by (metis append_take_drop_id drop_eq_Nil2 linorder_not_le neq_Nil_conv take_all_iff order_refl)
      have "char_at t mn \<noteq> None" "char_at t mn \<noteq> Some CHR ''=''" using env_key_no_eq [of mn t] lt mn by auto
      moreover have "char_at s mn = None \<or> char_at s mn = Some CHR ''=''" using env_key_cases [of s] unfolding mn by blast
      moreover have "s \<noteq> t" using lt by auto
      moreover have "?k < ?l" unfolding l by (rule less_append(1))
      ultimately show ?thesis using ret
        by (auto simp: flatpak_envp_cmp_def key_length_env_key mn_def [symmetric] Let_def strcmp.cmp_zero)
    next
      case gt
      then have mn: "mn = length ?l" by (simp add: mn_def)
      obtain c cs where k: "?k = ?l @ c # cs" 
        using True gt mn by (metis append_take_drop_id drop_eq_Nil2 linorder_not_le neq_Nil_conv take_all_iff order_refl)
      have "char_at s mn \<noteq> None" "char_at s mn \<noteq> Some CHR ''=''" using env_key_no_eq [of mn s] gt mn by auto
      moreover have "char_at t mn = None \<or> char_at t mn = Some CHR ''=''" using env_key_cases [of t] unfolding mn by blast
      moreover have "s \<noteq> t" using gt by auto
      moreover have "?l < ?k" unfolding k by (rule less_append(1))
      ultimately show ?thesis using ret
        by (auto simp: flatpak_envp_cmp_def key_length_env_key mn_def [symmetric] Let_def strcmp.cmp_zero)
    next
      case eq
      then have kl: "?k = ?l" and mn: "mn = length ?k" "mn = length ?l" using True by (auto simp: mn_def)
      have cmp: "flatpak_envp_cmp s t =
          (if s = t then 0 else if char_at s mn = None then - 1 else if char_at t mn = None then 1
           else if char_at s mn = Some CHR ''='' \<and> char_at t mn \<noteq> Some CHR ''='' then - 1
           else if char_at t mn = Some CHR ''='' \<and> char_at s mn \<noteq> Some CHR ''='' then 1 else strcmp s t)"
        using ret by (simp add: flatpak_envp_cmp_def key_length_env_key mn_def [symmetric] Let_def strcmp.cmp_zero)
      have less: "(?k, s) < (?l, t) \<longleftrightarrow> s < t" using kl by simp
      obtain k where k: "?k = k" "s = k \<and> char_at s mn = None \<or> (\<exists>v. s = k @ CHR ''='' # v \<and> char_at s mn = Some CHR ''='')"
        using env_key_cases [of s] unfolding mn(1) by blast
      have l: "t = k \<and> char_at t mn = None \<or> (\<exists>v. t = k @ CHR ''='' # v \<and> char_at t mn = Some CHR ''='')"
      proof -
        have "?l = k" using k(1) kl by simp
        then show ?thesis using env_key_cases [of t] unfolding mn(2) by blast
      qed
      show ?thesis unfolding cmp less
        using k(2) l by (elim disjE conjE exE) (auto simp: strcmp_def less_append)
    qed
  qed
qed

lemma envp_cmp_zero: "flatpak_envp_cmp s t = 0 \<longleftrightarrow> s = t"
proof
  assume "s = t"
  then show "flatpak_envp_cmp s t = 0" by (simp add: flatpak_envp_cmp_def strncmp_def strcmp_def)
next
  assume "flatpak_envp_cmp s t = 0"
  then show "s = t" by (auto simp: flatpak_envp_cmp_def Let_def strcmp.cmp_zero split: if_splits)
qed

interpretation envp: qsort_order flatpak_envp_cmp
  by (rule qsort_order_key [where key = "\<lambda>s. (env_key s, s)"]) (auto simp: envp_cmp_key envp_cmp_zero inj_on_def)

end
