(* ===== verification/Bwrap.thy ===== *)
theory Bwrap imports Host Qsort SysrootConfine begin

text \<open>
  \<open>pressure-vessel/flatpak-bwrap.c\<close>: the command line of bubblewrap while it is being built, with the
  file descriptors it refers to and the environment it will have. A null pointer in \<open>argv\<close> is
  \<^const>\<open>None\<close>. The lemmas: descriptors are moved, never duplicated or lost; sorting the environment
  is a permutation with a unique result; turning it into \<open>--setenv\<close> options keeps its meaning; and
  bundling arguments into a file can be undone.
\<close>

section \<open>The command line\<close>

record bwrap =
  argv :: "string option list"
  noinherit_fds :: "fd list"
  bw_fds :: "fd list"
  bw_fds_clear :: bool        \<comment> \<open>whether the array of descriptors closes them when it is freed\<close>
  envp :: "string list"
  runtime_dir_members :: "string list option"
  sync_fds :: "fd \<times> fd"

definition flatpak_bwrap_new :: "'w host \<Rightarrow> string list option \<Rightarrow> bwrap" where
  "flatpak_bwrap_new H env = \<lparr> argv = [], noinherit_fds = [], bw_fds = [], bw_fds_clear = True,
     envp = (case env of Some e \<Rightarrow> e | None \<Rightarrow> h_environ H),
     runtime_dir_members = None, sync_fds = (- 1, - 1) \<rparr>"

text \<open>\<open>clear_fd\<close> for every element of an array.\<close>

fun clear_fds :: "'w kernel \<Rightarrow> fd list \<Rightarrow> ('w, unit) state" where
  "clear_fds K [] = State_Monad.return ()"
| "clear_fds K (x # xs) =
     do { (if x \<noteq> - 1 then sys_close K x else State_Monad.return ()); clear_fds K xs }"

definition flatpak_bwrap_free :: "'w kernel \<Rightarrow> bwrap \<Rightarrow> ('w, unit) state" where
  "flatpak_bwrap_free K b = do {
     clear_fds K (noinherit_fds b);
     (if bw_fds_clear b then clear_fds K (bw_fds b) else State_Monad.return ()) }"

definition flatpak_bwrap_is_empty :: "bwrap \<Rightarrow> bool" where
  "flatpak_bwrap_is_empty b = (argv b = [])"

definition flatpak_bwrap_set_env :: "glib \<Rightarrow> bwrap \<Rightarrow> string \<Rightarrow> string \<Rightarrow> bool \<Rightarrow> bwrap" where
  "flatpak_bwrap_set_env G b variable val overwrite =
     b\<lparr> envp := (if overwrite \<or> g_environ_getenv G (envp b) variable = None
                 then g_environ_setenv G (envp b) variable val else envp b) \<rparr>"

definition flatpak_bwrap_unset_env :: "glib \<Rightarrow> bwrap \<Rightarrow> string \<Rightarrow> bwrap" where
  "flatpak_bwrap_unset_env G b variable = b\<lparr> envp := g_environ_unsetenv G (envp b) variable \<rparr>"

definition flatpak_bwrap_take_arg :: "bwrap \<Rightarrow> string \<Rightarrow> bwrap" where
  "flatpak_bwrap_take_arg b arg = b\<lparr> argv := argv b @ [Some arg] \<rparr>"

definition flatpak_bwrap_add_arg :: "bwrap \<Rightarrow> string \<Rightarrow> bwrap" where
  "flatpak_bwrap_add_arg b arg = b\<lparr> argv := argv b @ [Some arg] \<rparr>"

text \<open>The string is the formatted one.\<close>

definition flatpak_bwrap_add_arg_printf :: "bwrap \<Rightarrow> string \<Rightarrow> bwrap" where
  "flatpak_bwrap_add_arg_printf b formatted = b\<lparr> argv := argv b @ [Some formatted] \<rparr>"

definition flatpak_bwrap_finish :: "bwrap \<Rightarrow> bwrap" where
  "flatpak_bwrap_finish b = b\<lparr> argv := argv b @ [None] \<rparr>"

definition flatpak_bwrap_add_noinherit_fd :: "bwrap \<Rightarrow> fd \<Rightarrow> bwrap" where
  "flatpak_bwrap_add_noinherit_fd b fd = b\<lparr> noinherit_fds := noinherit_fds b @ [fd] \<rparr>"

definition flatpak_bwrap_add_fd :: "bwrap \<Rightarrow> fd \<Rightarrow> bwrap" where
  "flatpak_bwrap_add_fd b fd = b\<lparr> bw_fds := bw_fds b @ [fd] \<rparr>"

text \<open>The variadic functions take the list of their arguments; the list ends before the first null
  pointer.\<close>

definition flatpak_bwrap_add_args :: "bwrap \<Rightarrow> string list \<Rightarrow> bwrap" where
  "flatpak_bwrap_add_args b args = foldl flatpak_bwrap_add_arg b args"

text \<open>A negative length means the length up to the terminating null pointer.\<close>

definition flatpak_bwrap_append_argsv :: "bwrap \<Rightarrow> string option list \<Rightarrow> int \<Rightarrow> bwrap" where
  "flatpak_bwrap_append_argsv b args len =
     (let n = (if len < 0 then length (takeWhile (\<lambda>a. a \<noteq> None) args) else nat len)
      in b\<lparr> argv := argv b @ take n args \<rparr>)"

definition flatpak_bwrap_append_args :: "bwrap \<Rightarrow> string option list \<Rightarrow> bwrap" where
  "flatpak_bwrap_append_args b other_array = flatpak_bwrap_append_argsv b other_array (int (length other_array))"

definition flatpak_bwrap_steal_fds :: "bwrap \<Rightarrow> fd list \<times> bwrap" where
  "flatpak_bwrap_steal_fds b = (bw_fds b, b\<lparr> bw_fds := [], bw_fds_clear := False \<rparr>)"

fun append_env :: "glib \<Rightarrow> string list \<Rightarrow> bwrap \<Rightarrow> bwrap" where
  "append_env G [] b = b"
| "append_env G (key_val # rest) b =
     append_env G rest
       (case strchr key_val CHR ''='' of
          None \<Rightarrow> b
        | Some (key, val) \<Rightarrow> flatpak_bwrap_set_env G b key val True)"

text \<open>The result is the pair of \<open>bwrap\<close> and \<open>other\<close> afterwards.\<close>

definition flatpak_bwrap_append_bwrap :: "glib \<Rightarrow> bwrap \<Rightarrow> bwrap \<Rightarrow> bwrap \<times> bwrap" where
  "flatpak_bwrap_append_bwrap G b other =
     (let (fs, other') = flatpak_bwrap_steal_fds other;
          b1 = foldl flatpak_bwrap_add_fd b fs;
          b2 = flatpak_bwrap_append_argsv b1 (argv other') (int (length (argv other')));
          b3 = append_env G (envp other') b2
      in (case runtime_dir_members other' of
            None \<Rightarrow> b3
          | Some ms \<Rightarrow> b3\<lparr> runtime_dir_members :=
              Some ((case runtime_dir_members b3 of None \<Rightarrow> [] | Some xs \<Rightarrow> xs) @ ms) \<rparr>, other'))"

text \<open>\<open>path_optional\<close> may be a null pointer, which ends the arguments.\<close>

definition flatpak_bwrap_add_args_data_fd :: "bwrap \<Rightarrow> string \<Rightarrow> fd \<Rightarrow> string option \<Rightarrow> bwrap" where
  "flatpak_bwrap_add_args_data_fd b op fd path_optional =
     flatpak_bwrap_add_args (flatpak_bwrap_add_fd b fd)
       ([op, decimal fd] @ (case path_optional of None \<Rightarrow> [] | Some p \<Rightarrow> [p]))"

definition flatpak_bwrap_add_args_data :: "'w host \<Rightarrow> bwrap \<Rightarrow> string \<Rightarrow> string \<Rightarrow> ('w, gerror + bwrap) state" where
  "flatpak_bwrap_add_args_data H b content path = do {
     r \<leftarrow> h_memfd H content;
     State_Monad.return (case r of
         Inl e \<Rightarrow> Inl e
       | Inr fd \<Rightarrow> Inr (flatpak_bwrap_add_args_data_fd b ''--ro-bind-data'' (int fd) (Some path))) }"

definition flatpak_bwrap_add_bind_arg :: "glib \<Rightarrow> 'w host \<Rightarrow> bwrap \<Rightarrow> string \<Rightarrow> string \<Rightarrow> string \<Rightarrow> ('w, bwrap) state" where
  "flatpak_bwrap_add_bind_arg G H b type src dest = do {
     r \<leftarrow> sys_realpath (kern H) (g_path_get_dirname G dest);
     State_Monad.return (case r of
         Inl _ \<Rightarrow> b
       | Inr dest_dirname_real \<Rightarrow>
           (let dest_real = g_build_filename G [dest_dirname_real, g_path_get_basename H dest]
            in flatpak_bwrap_add_args b [type, src, dest_real])) }"

section \<open>The environment\<close>

definition flatpak_bwrap_sort_envp :: "bwrap \<Rightarrow> bwrap" where
  "flatpak_bwrap_sort_envp b = b\<lparr> envp := qsort_by flatpak_envp_cmp (envp b) \<rparr>"

text \<open>A string without \<open>=\<close> only causes a warning.\<close>

fun setenv_args :: "string list \<Rightarrow> bwrap \<Rightarrow> bwrap" where
  "setenv_args [] b = b"
| "setenv_args (key_val # rest) b =
     setenv_args rest
       (case strchr key_val CHR ''='' of
          None \<Rightarrow> b
        | Some (key, val) \<Rightarrow>
            flatpak_bwrap_add_arg (flatpak_bwrap_take_arg (flatpak_bwrap_add_arg b ''--setenv'') key) val)"

definition flatpak_bwrap_envp_to_args :: "bwrap \<Rightarrow> bwrap" where
  "flatpak_bwrap_envp_to_args b = (setenv_args (envp b) b)\<lparr> envp := [] \<rparr>"

section \<open>Bundling arguments\<close>

text \<open>The buffer: each argument with its terminating NUL. A null pointer among them would be
  dereferenced.\<close>

fun bundle_data :: "string option list \<Rightarrow> string option" where
  "bundle_data [] = Some []"
| "bundle_data (None # as) = None"
| "bundle_data (Some a # as) = map_option (\<lambda>d. a @ CHR 0x00 # d) (bundle_data as)"

datatype bundle_result = Bundled bwrap | Bundle_failed gerror | Bundle_crash

definition flatpak_bwrap_bundle_args :: "'w host \<Rightarrow> bwrap \<Rightarrow> nat \<Rightarrow> int \<Rightarrow> bool \<Rightarrow> ('w, bundle_result) state" where
  "flatpak_bwrap_bundle_args H b start end' one_arg =
     (let e = (if end' = - 1 then length (argv b) else nat end')
      in case bundle_data (take (e - start) (drop start (argv b))) of
           None \<Rightarrow> State_Monad.return Bundle_crash
         | Some bytes \<Rightarrow> do {
             r \<leftarrow> h_memfd H bytes;
             State_Monad.return (case r of
                 Inl err \<Rightarrow> Bundle_failed err
               | Inr n \<Rightarrow>
                   (let b' = flatpak_bwrap_add_fd b (int n);
                        removed = take start (argv b') @ drop e (argv b');
                        args = (if one_arg then [''--args='' @ decimal (int n)] else [''--args'', decimal (int n)])
                    in Bundled (b'\<lparr> argv := take start removed @ map Some args @ drop start removed \<rparr>))) })"

section \<open>The runtime directory\<close>

definition flatpak_bwrap_add_runtime_dir_member :: "bwrap \<Rightarrow> string \<Rightarrow> bwrap" where
  "flatpak_bwrap_add_runtime_dir_member b name =
     b\<lparr> runtime_dir_members := Some ((case runtime_dir_members b of None \<Rightarrow> [] | Some xs \<Rightarrow> xs) @ [name]) \<rparr>"

text \<open>\<open>expect_symlink\<close> only warns if the link is not there afterwards; the result is whether it warned.\<close>

definition expect_symlink :: "'w kernel \<Rightarrow> string \<Rightarrow> string \<Rightarrow> ('w, bool) state" where
  "expect_symlink K host_path target = do {
     r \<leftarrow> sys_symlinkat K target AT_FDCWD host_path;
     (if r \<noteq> Inr () \<and> r \<noteq> Inl EEXIST then State_Monad.return True
      else do {
        got \<leftarrow> glnx_readlinkat_malloc K AT_FDCWD host_path;
        State_Monad.return (got \<noteq> Inr target) }) }"

definition member_target :: "string \<Rightarrow> string" where
  "member_target m = ''../../pressure-vessel/'' @ m"

fun populate_members :: "glib \<Rightarrow> 'w host \<Rightarrow> string option \<Rightarrow> string list \<Rightarrow> bwrap \<Rightarrow> ('w, bwrap) state" where
  "populate_members G H shared [] b = State_Monad.return b"
| "populate_members G H shared (m # ms) b =
     (case shared of
        Some dir \<Rightarrow> do {
          _ \<leftarrow> expect_symlink (kern H) (g_build_filename G [dir, m]) (member_target m);
          populate_members G H shared ms b }
      | None \<Rightarrow> populate_members G H shared ms (flatpak_bwrap_add_arg_printf
          (flatpak_bwrap_add_arg (flatpak_bwrap_add_arg b ''--symlink'') (member_target m))
          (''/run/user/'' @ decimal (h_getuid H) @ ''/'' @ m)))"

definition flatpak_bwrap_populate_runtime_dir :: "glib \<Rightarrow> 'w host \<Rightarrow> bwrap \<Rightarrow> string option \<Rightarrow> ('w, bwrap) state" where
  "flatpak_bwrap_populate_runtime_dir G H b shared =
     (case runtime_dir_members b of None \<Rightarrow> State_Monad.return b | Some ms \<Rightarrow> populate_members G H shared ms b)"

section \<open>Starting the process\<close>

fun inherit_fds :: "'w host \<Rightarrow> fd list \<Rightarrow> ('w, unit) state" where
  "inherit_fds H [] = State_Monad.return ()"
| "inherit_fds H (fd # fs) = do { h_lseek_start H fd; h_set_inherit H fd; inherit_fds H fs }"

definition flatpak_bwrap_child_setup :: "'w host \<Rightarrow> fd list option \<Rightarrow> bool \<Rightarrow> ('w, unit) state" where
  "flatpak_bwrap_child_setup H fd_array close_fd_workaround = do {
     (if close_fd_workaround then h_fdwalk_set_cloexec H 3 else State_Monad.return ());
     (case fd_array of None \<Rightarrow> State_Monad.return () | Some fs \<Rightarrow> inherit_fds H fs) }"

definition flatpak_bwrap_child_setup_cb :: "'w host \<Rightarrow> fd list option \<Rightarrow> ('w, unit) state" where
  "flatpak_bwrap_child_setup_cb H fd_array = flatpak_bwrap_child_setup H fd_array True"

definition flatpak_bwrap_child_setup_inherit_fds_cb :: "'w host \<Rightarrow> fd list option \<Rightarrow> ('w, unit) state" where
  "flatpak_bwrap_child_setup_inherit_fds_cb H fd_array = flatpak_bwrap_child_setup H fd_array False"

definition flatpak_bwrap_add_sync_fd :: "'w host \<Rightarrow> bwrap \<Rightarrow> ('w, bwrap \<times> fd) state" where
  "flatpak_bwrap_add_sync_fd H b =
     (if snd (sync_fds b) \<ge> 0 then State_Monad.return (b, snd (sync_fds b))
      else do {
        r \<leftarrow> h_pipe2 H;
        State_Monad.return (case r of
            Inl _ \<Rightarrow> (b, - 1)
          | Inr (rd, wr) \<Rightarrow>
              (flatpak_bwrap_add_args_data_fd (b\<lparr> sync_fds := (int rd, int wr) \<rparr>) ''--sync-fd'' (int rd) None, int wr)) })"

section \<open>Sorting the environment\<close>

lemma envp_le: "envp.le s t \<longleftrightarrow> (env_key s, s) \<le> (env_key t, t)"
  using envp_cmp_key [of t s] envp.cmp_sym [of s t] unfolding envp.le_def by (auto simp: not_less)

text \<open>Sorting the environment: the result is the one and only permutation of the environment
  that is sorted by the name of the variable and, for equal names, by the whole string; in
  particular \<open>FOO=\<close> comes before \<open>FOO_BAR=\<close>, which a comparison with \<open>strcmp\<close> would not do.\<close>

theorem flatpak_bwrap_sort_envp_unique:
  "ys = envp (flatpak_bwrap_sort_envp b) \<longleftrightarrow>
   mset ys = mset (envp b) \<and> sorted_wrt (\<lambda>s t. (env_key s, s) \<le> (env_key t, t)) ys"
proof -
  have le: "(\<lambda>s t. (env_key s, s) \<le> (env_key t, t)) = envp.le" by (intro ext) (simp add: envp_le)
  show ?thesis unfolding le flatpak_bwrap_sort_envp_def
    using envp.qsort_unique [of ys "envp b"] envp.sorted_qsort [of "envp b"] by (auto simp: mset_qsort_by)
qed

section \<open>The environment as options\<close>

text \<open>What bubblewrap does with the options: each \<open>--setenv\<close> sets a variable, replacing its value.\<close>

fun apply_setenv :: "string option list \<Rightarrow> (string \<rightharpoonup> string) \<Rightarrow> (string \<rightharpoonup> string) option" where
  "apply_setenv [] m = Some m"
| "apply_setenv (Some opt # Some k # Some v # rest) m =
     (if opt = ''--setenv'' then apply_setenv rest (m(k \<mapsto> v)) else None)"
| "apply_setenv _ m = None"

fun env_pairs :: "string list \<Rightarrow> (string \<times> string) list" where
  "env_pairs [] = []"
| "env_pairs (e # es) = (case strchr e CHR ''='' of None \<Rightarrow> env_pairs es | Some p \<Rightarrow> p # env_pairs es)"

definition setenv_options :: "string list \<Rightarrow> string option list" where
  "setenv_options es = concat (map (\<lambda>(k, v). [Some ''--setenv'', Some k, Some v]) (env_pairs es))"

lemma setenv_args_append: "setenv_args es b = b\<lparr> argv := argv b @ setenv_options es \<rparr>"
  by (induction es arbitrary: b)
    (auto simp: setenv_options_def flatpak_bwrap_add_arg_def flatpak_bwrap_take_arg_def split: option.split)

lemma apply_setenv_pairs:
  "apply_setenv (concat (map (\<lambda>(k, v). [Some ''--setenv'', Some k, Some v]) ps)) m = Some (m ++ map_of (rev ps))"
  by (induction ps arbitrary: m) (auto simp: map_add_upd_left map_add_def fun_eq_iff split: option.split)

lemma prefix_name_strchr:
  assumes "CHR ''='' \<notin> set w"
  shows "g_str_has_prefix e (w @ ''='') \<longleftrightarrow> (\<exists>v. strchr e CHR ''='' = Some (w, v))"
  using assms by (auto simp: g_str_has_prefix_iff strchr_Some_iff)

lemma ref_getenv_pairs: "CHR ''='' \<notin> set w \<Longrightarrow> ref_getenv es w = map_of (env_pairs es) w"
proof (induction es)
  case (Cons e es)
  show ?case
  proof (cases "strchr e CHR ''=''")
    case None
    then show ?thesis using Cons prefix_name_strchr [of w e] by simp
  next
    case (Some p)
    obtain k v where p: "p = (k, v)" by (cases p)
    then have "e = k @ CHR ''='' # v" using Some by (simp add: strchr_Some_iff)
    then show ?thesis using Cons prefix_name_strchr [of w e] Some p by auto
  qed
qed simp

lemma env_pairs_mset: "mset es = mset fs \<Longrightarrow> mset (env_pairs es) = mset (env_pairs fs)"
proof -
  have pairs: "env_pairs gs = List.map_filter (\<lambda>e. strchr e CHR ''='') gs" for gs
    by (induction gs) (auto simp: List.map_filter_simps split: option.split)
  show "mset es = mset fs \<Longrightarrow> ?thesis" unfolding pairs by (simp only: List.map_filter_def mset_map mset_filter)
qed

text \<open>Turning the environment into \<open>--setenv\<close> options, after sorting it: bubblewrap, starting from an
  empty environment, gets for every name the value that \<open>g_environ_getenv\<close> finds in the environment
  before, and the environment itself is empty afterwards. (Every name is set at most once: of two
  settings of one name \<open>g_environ_getenv\<close> takes the first and bubblewrap the last.)\<close>

theorem flatpak_bwrap_envp_to_args_getenv:
  assumes "distinct (map fst (env_pairs (envp b)))"
  defines "c \<equiv> flatpak_bwrap_envp_to_args (flatpak_bwrap_sort_envp b)"
  shows "\<exists>opts m. argv c = argv b @ opts \<and> envp c = [] \<and> apply_setenv opts Map.empty = Some m \<and>
    (\<forall>w. CHR ''='' \<notin> set w \<longrightarrow> m w = g_environ_getenv glib_ref (envp b) w)"
proof -
  let ?ps = "env_pairs (envp (flatpak_bwrap_sort_envp b))"
  have ms: "mset ?ps = mset (env_pairs (envp b))"
    by (rule env_pairs_mset) (simp add: flatpak_bwrap_sort_envp_def mset_qsort_by)
  then have d: "distinct (map fst ?ps)"
    using assms(1) by (metis mset_eq_imp_distinct_iff mset_map)
  have set: "set ?ps = set (env_pairs (envp b))" using ms by (metis set_mset_mset)
  have "map_of (rev ?ps) = map_of (env_pairs (envp b))"
    using d assms(1) set by (intro map_of_eqI) (auto simp: rev_map [symmetric] map_of_eq_Some_iff distinct_rev intro!: arg_cong [where f = "map_of"])
  then show ?thesis
    unfolding c_def flatpak_bwrap_envp_to_args_def setenv_args_append
    by (intro exI [of _ "setenv_options (envp (flatpak_bwrap_sort_envp b))"] exI [of _ "map_of (env_pairs (envp b))"])
      (auto simp: setenv_options_def apply_setenv_pairs ref_getenv_pairs glib_ref_def flatpak_bwrap_sort_envp_def)
qed

definition demo_bwrap :: bwrap where
  "demo_bwrap = \<lparr> argv = [Some ''bwrap''], noinherit_fds = [7], bw_fds = [5, - 1], bw_fds_clear = True,
     envp = [''FOO_BAR=2'', ''FOO=1''], runtime_dir_members = None, sync_fds = (- 1, - 1) \<rparr>"

theorem flatpak_bwrap_envp_to_args_getenv_witness:
  "argv (flatpak_bwrap_envp_to_args (flatpak_bwrap_sort_envp demo_bwrap)) =
     map Some [''bwrap'', ''--setenv'', ''FOO'', ''1'', ''--setenv'', ''FOO_BAR'', ''2''] \<and>
   envp (flatpak_bwrap_envp_to_args (flatpak_bwrap_sort_envp demo_bwrap)) = [] \<and>
   g_environ_getenv glib_ref (envp demo_bwrap) ''FOO'' = Some ''1''"
proof -
  have "distinct (map fst (env_pairs (envp demo_bwrap)))" by code_simp
  from flatpak_bwrap_envp_to_args_getenv [OF this]
  have "envp (flatpak_bwrap_envp_to_args (flatpak_bwrap_sort_envp demo_bwrap)) = []" by blast
  moreover have "argv (flatpak_bwrap_envp_to_args (flatpak_bwrap_sort_envp demo_bwrap)) =
     map Some [''bwrap'', ''--setenv'', ''FOO'', ''1'', ''--setenv'', ''FOO_BAR'', ''2'']"
    "g_environ_getenv glib_ref (envp demo_bwrap) ''FOO'' = Some ''1''" by code_simp+
  ultimately show ?thesis by blast
qed

section \<open>Bundling is reversible\<close>

text \<open>How bubblewrap reads the data of \<open>--args\<close>: strings, each ended by a NUL byte.\<close>

function read_args :: "string \<Rightarrow> string list" where
  "read_args d = (if d = [] then [] else takeWhile (\<lambda>c. c \<noteq> CHR 0x00) d #
     read_args (drop (Suc (length (takeWhile (\<lambda>c. c \<noteq> CHR 0x00) d))) d))"
  by pat_completeness auto
termination by (relation "measure length") auto

declare read_args.simps [simp del]

lemma read_args_Cons:
  assumes "CHR 0x00 \<notin> set a"
  shows "read_args (a @ CHR 0x00 # d) = a # read_args d"
proof -
  have tw: "takeWhile (\<lambda>c. c \<noteq> CHR 0x00) (a @ CHR 0x00 # d) = a" using assms by (subst takeWhile_append2) auto
  show ?thesis by (subst read_args.simps) (simp add: tw)
qed

lemma bundle_data_read:
  "(\<And>a. a \<in> set as \<Longrightarrow> CHR 0x00 \<notin> set a) \<Longrightarrow>
   \<exists>d. bundle_data (map Some as) = Some d \<and> read_args d = as"
proof (induction as)
  case (Cons a as)
  then obtain d where "bundle_data (map Some as) = Some d" "read_args d = as" by auto
  then show ?case using read_args_Cons [of a d] Cons.prems by simp
qed (simp add: read_args.simps [of "[]"])

text \<open>Bundling arguments into a file loses nothing: if the arguments from \<open>start\<close> up to \<open>e\<close> are the
  strings \<open>mid\<close>, then the data offered to the memory file reads back as \<open>mid\<close>; if the file is
  created, they are replaced by the option that names its descriptor, which is the only one added,
  and otherwise the command line is unchanged (the error is returned).\<close>

theorem flatpak_bwrap_bundle_args_roundtrip:
  assumes "argv b = pfx @ map Some mid @ suf" and "\<forall>a \<in> set mid. CHR 0x00 \<notin> set a"
    and "end' = int (length pfx + length mid) \<or> end' = - 1 \<and> suf = []"
  shows "\<exists>bytes. read_args bytes = mid \<and>
    flatpak_bwrap_bundle_args H b (length pfx) end' one_arg = do {
      r \<leftarrow> h_memfd H bytes;
      State_Monad.return (case r of
          Inl err \<Rightarrow> Bundle_failed err
        | Inr n \<Rightarrow> Bundled (b\<lparr> bw_fds := bw_fds b @ [int n],
            argv := pfx @ map Some (if one_arg then [''--args='' @ decimal (int n)]
                                    else [''--args'', decimal (int n)]) @ suf \<rparr>)) }"
proof -
  obtain d where d: "bundle_data (map Some mid) = Some d" "read_args d = mid"
    using bundle_data_read [of mid] assms(2) by blast
  have e: "(if end' = - 1 then length (argv b) else nat end') = length pfx + length mid"
    using assms(1,3) by auto
  have m: "take (length pfx + length mid - length pfx) (drop (length pfx) (argv b)) = map Some mid"
    by (simp add: assms(1))
  show ?thesis
    unfolding flatpak_bwrap_bundle_args_def Let_def e m d(1) option.case
    by (intro exI [of _ d] conjI d(2) arg_cong [where f = "State_Monad.bind (h_memfd H d)"] ext
          arg_cong [where f = State_Monad.return])
      (auto simp: flatpak_bwrap_add_fd_def assms(1) split: sum.split)
qed

theorem flatpak_bwrap_bundle_args_roundtrip_witness:
  "\<forall>H :: 'w host. \<exists>bytes. read_args bytes = [''--bind'', ''/a''] \<and>
    flatpak_bwrap_bundle_args H (flatpak_bwrap_add_args demo_bwrap [''--bind'', ''/a'']) 1 (- 1) False = do {
      r \<leftarrow> h_memfd H bytes;
      State_Monad.return (case r of
          Inl err \<Rightarrow> Bundle_failed err
        | Inr n \<Rightarrow> Bundled (flatpak_bwrap_add_args demo_bwrap [''--bind'', ''/a''] \<lparr> bw_fds := [5, - 1, int n],
            argv := [Some ''bwrap'', Some ''--args'', Some (decimal (int n))] \<rparr>)) }"
proof
  fix H :: "'w host"
  show "\<exists>bytes. read_args bytes = [''--bind'', ''/a''] \<and>
    flatpak_bwrap_bundle_args H (flatpak_bwrap_add_args demo_bwrap [''--bind'', ''/a'']) 1 (- 1) False = do {
      r \<leftarrow> h_memfd H bytes;
      State_Monad.return (case r of
          Inl err \<Rightarrow> Bundle_failed err
        | Inr n \<Rightarrow> Bundled (flatpak_bwrap_add_args demo_bwrap [''--bind'', ''/a''] \<lparr> bw_fds := [5, - 1, int n],
            argv := [Some ''bwrap'', Some ''--args'', Some (decimal (int n))] \<rparr>)) }"
    using flatpak_bwrap_bundle_args_roundtrip
      [of "flatpak_bwrap_add_args demo_bwrap [''--bind'', ''/a'']" "[Some ''bwrap'']" "[''--bind'', ''/a'']" "[]" "- 1" H False]
    by (simp add: demo_bwrap_def flatpak_bwrap_add_args_def flatpak_bwrap_add_arg_def cong del: sum.case_cong_weak)
qed

section \<open>Descriptors are moved\<close>

lemma clear_fds_log:
  "run_state (clear_fds (logged K) fs) (w, l) =
     ((), (snd (run_state (clear_fds K fs) w), l @ map C_close (filter (\<lambda>f. f \<noteq> - 1) fs)))"
  by (induction fs arbitrary: w l) (auto simp: run_state_bind logged_def log_call_def split: prod.split)

lemma closed_map: "closed (map C_close fs) = mset fs"
  by (induction fs) (auto simp: closed_def)

lemma add_fd_foldl: "foldl flatpak_bwrap_add_fd b fs = b\<lparr> bw_fds := bw_fds b @ fs \<rparr>"
  by (induction fs arbitrary: b) (auto simp: flatpak_bwrap_add_fd_def)

lemma append_env_envp: "\<exists>e. append_env G es b = b\<lparr> envp := e \<rparr>"
proof (induction es arbitrary: b)
  case Nil
  then show ?case by (intro exI [of _ "envp b"]) simp
next
  case (Cons e es)
  show ?case
  proof (cases "strchr e CHR ''=''")
    case (Some p)
    obtain k v x where "flatpak_bwrap_set_env G b k v True = b\<lparr> envp := x \<rparr>" "p = (k, v)"
      by (cases p) (auto simp: flatpak_bwrap_set_env_def)
    moreover obtain e' where "append_env G es (b\<lparr> envp := x \<rparr>) = b\<lparr> envp := x, envp := e' \<rparr>" using Cons by blast
    ultimately show ?thesis using Some by auto
  qed (use Cons in simp)
qed

lemma append_bwrap_fields:
  assumes "flatpak_bwrap_append_bwrap G b other = (b', other')"
  shows "bw_fds b' = bw_fds b @ bw_fds other" "argv b' = argv b @ argv other"
    "noinherit_fds b' = noinherit_fds b" "bw_fds_clear b' = bw_fds_clear b"
    "other' = other\<lparr> bw_fds := [], bw_fds_clear := False \<rparr>"
proof -
  define c where "c = flatpak_bwrap_append_argsv (foldl flatpak_bwrap_add_fd b (bw_fds other)) (argv other) (int (length (argv other)))"
  obtain e where e: "append_env G (envp other) c = c\<lparr> envp := e \<rparr>" using append_env_envp by blast
  have c: "c = b\<lparr> bw_fds := bw_fds b @ bw_fds other, argv := argv b @ argv other \<rparr>"
    by (simp add: c_def add_fd_foldl flatpak_bwrap_append_argsv_def)
  have r: "other' = other\<lparr> bw_fds := [], bw_fds_clear := False \<rparr> \<and> (\<exists>ms. b' = c\<lparr> envp := e, runtime_dir_members := ms \<rparr>)"
  proof (cases "runtime_dir_members other")
    case None
    then have "b' = c\<lparr> envp := e \<rparr>" "other' = other\<lparr> bw_fds := [], bw_fds_clear := False \<rparr>"
      using assms e by (simp_all add: flatpak_bwrap_append_bwrap_def flatpak_bwrap_steal_fds_def c_def [symmetric])
    moreover have "c\<lparr> envp := e \<rparr> = c\<lparr> envp := e, runtime_dir_members := runtime_dir_members c \<rparr>" by simp
    ultimately show ?thesis by blast
  next
    case (Some ms)
    then show ?thesis
      using assms e by (auto simp: flatpak_bwrap_append_bwrap_def flatpak_bwrap_steal_fds_def c_def [symmetric])
  qed
  then show "bw_fds b' = bw_fds b @ bw_fds other" "argv b' = argv b @ argv other"
    "noinherit_fds b' = noinherit_fds b" "bw_fds_clear b' = bw_fds_clear b"
    "other' = other\<lparr> bw_fds := [], bw_fds_clear := False \<rparr>"
    by (auto simp: c)
qed

text \<open>C37: Appending one command line to another moves its descriptors: if both are freed afterwards,
  every valid descriptor that either of them held is closed exactly once. Descriptors added to
  the emptied command line later (\<open>late\<close>) are not closed at all, because the new array made by
  \<open>flatpak_bwrap_steal_fds\<close> has no clear function.\<close>

theorem flatpak_bwrap_append_bwrap_closes:
  assumes "bw_fds_clear b" and "flatpak_bwrap_append_bwrap G b other = (b', other')"
    and "run_state (do { flatpak_bwrap_free (logged K) (foldl flatpak_bwrap_add_fd other' late);
                         flatpak_bwrap_free (logged K) b' }) (w, []) = ((), (w', l))"
  shows "closed l = filter_mset (\<lambda>f. f \<noteq> - 1)
    (mset (noinherit_fds b) + mset (bw_fds b) + mset (noinherit_fds other) + mset (bw_fds other))"
proof -
  note fields = append_bwrap_fields [OF assms(2)]
  have "l = map C_close (filter (\<lambda>f. f \<noteq> - 1) (noinherit_fds other)) @
      map C_close (filter (\<lambda>f. f \<noteq> - 1) (noinherit_fds b)) @ map C_close (filter (\<lambda>f. f \<noteq> - 1) (bw_fds b @ bw_fds other))"
    using assms(1,3)
    by (simp add: flatpak_bwrap_free_def run_state_bind clear_fds_log add_fd_foldl fields)
  then show ?thesis by (simp add: closed_map)
qed

definition demo_other :: bwrap where
  "demo_other = demo_bwrap\<lparr> noinherit_fds := [], bw_fds := [8, 9] \<rparr>"

theorem flatpak_bwrap_append_bwrap_closes_witness:
  "\<forall>(K :: 'w kernel) w. \<exists>l w'. run_state (do { flatpak_bwrap_free (logged K) (foldl flatpak_bwrap_add_fd (snd (flatpak_bwrap_append_bwrap glib_ref demo_bwrap demo_other)) [11]);
      flatpak_bwrap_free (logged K) (fst (flatpak_bwrap_append_bwrap glib_ref demo_bwrap demo_other)) }) (w, []) = ((), (w', l)) \<and>
    closed l = {# 5, 7, 8, 9 #}"
proof (intro allI)
  fix K :: "'w kernel" and w
  obtain b' other' where a: "flatpak_bwrap_append_bwrap glib_ref demo_bwrap demo_other = (b', other')"
    by (cases "flatpak_bwrap_append_bwrap glib_ref demo_bwrap demo_other")
  obtain w' l where r: "run_state (do { flatpak_bwrap_free (logged K) (foldl flatpak_bwrap_add_fd other' [11]);
      flatpak_bwrap_free (logged K) b' }) (w, []) = ((), (w', l))"
    by (cases "run_state (do { flatpak_bwrap_free (logged K) (foldl flatpak_bwrap_add_fd other' [11]);
      flatpak_bwrap_free (logged K) b' }) (w, [])") auto
  have "bw_fds_clear demo_bwrap" by (simp add: demo_bwrap_def)
  from flatpak_bwrap_append_bwrap_closes [OF this a r]
  have "closed l = {# 5, 7, 8, 9 #}" by (simp add: demo_bwrap_def demo_other_def)
  then show "\<exists>l w'. run_state (do { flatpak_bwrap_free (logged K) (foldl flatpak_bwrap_add_fd (snd (flatpak_bwrap_append_bwrap glib_ref demo_bwrap demo_other)) [11]);
      flatpak_bwrap_free (logged K) (fst (flatpak_bwrap_append_bwrap glib_ref demo_bwrap demo_other)) }) (w, []) = ((), (w', l)) \<and>
    closed l = {# 5, 7, 8, 9 #}"
    using r a by auto
qed

end
