(* ===== verification/Exports.thy ===== *)
theory Exports imports Bwrap PathPrefix HashTable begin

text \<open>
  \<open>pressure-vessel/flatpak-exports.c\<close>: the paths of the host that are shared with the container. The
  table maps a canonical path to a mode. Everything the code asks of the host goes through the
  kernel. The functions that can fail return
  the table as it is afterwards together with the error, so that it is a theorem, not part of the
  model, that a failure changes nothing.
\<close>

section \<open>Modes and state\<close>

definition FLATPAK_FILESYSTEM_MODE_NONE :: int where "FLATPAK_FILESYSTEM_MODE_NONE = 0"
definition FLATPAK_FILESYSTEM_MODE_READ_ONLY :: int where "FLATPAK_FILESYSTEM_MODE_READ_ONLY = 1"
definition FLATPAK_FILESYSTEM_MODE_READ_WRITE :: int where "FLATPAK_FILESYSTEM_MODE_READ_WRITE = 2"
definition FLATPAK_FILESYSTEM_MODE_CREATE :: int where "FLATPAK_FILESYSTEM_MODE_CREATE = 3"
definition FLATPAK_FILESYSTEM_MODE_LAST :: int where "FLATPAK_FILESYSTEM_MODE_LAST = FLATPAK_FILESYSTEM_MODE_CREATE"

definition FAKE_MODE_DIR :: int where "FAKE_MODE_DIR = - 1"
definition FAKE_MODE_TMPFS :: int where "FAKE_MODE_TMPFS = FLATPAK_FILESYSTEM_MODE_NONE"
definition FAKE_MODE_SYMLINK :: int where "FAKE_MODE_SYMLINK = 2147483647"

lemmas mode_defs = FLATPAK_FILESYSTEM_MODE_NONE_def FLATPAK_FILESYSTEM_MODE_READ_ONLY_def
  FLATPAK_FILESYSTEM_MODE_READ_WRITE_def FLATPAK_FILESYSTEM_MODE_CREATE_def
  FLATPAK_FILESYSTEM_MODE_LAST_def FAKE_MODE_DIR_def FAKE_MODE_TMPFS_def FAKE_MODE_SYMLINK_def

definition is_export_mode :: "int \<Rightarrow> bool" where
  "is_export_mode mode =
     (mode \<ge> FLATPAK_FILESYSTEM_MODE_NONE \<and> mode \<le> FLATPAK_FILESYSTEM_MODE_LAST
      \<or> mode = FAKE_MODE_DIR \<or> mode = FAKE_MODE_SYMLINK)"

text \<open>An \<open>ExportedPath\<close> is a path with its mode; its path is also its key.\<close>

record exports =
  ex_hash :: "(string, int) hash_table"
  host_etc :: int
  host_os :: int
  host_fd :: fd
  test_autofs :: bool

definition flatpak_exports_new :: exports where
  "flatpak_exports_new = \<lparr> ex_hash = [], host_etc = FLATPAK_FILESYSTEM_MODE_NONE,
     host_os = FLATPAK_FILESYSTEM_MODE_NONE, host_fd = - 1, test_autofs = False \<rparr>"

definition flatpak_exports_free :: "'w kernel \<Rightarrow> exports \<Rightarrow> ('w, unit) state" where
  "flatpak_exports_free K ex = glnx_close_fd K (host_fd ex)"

definition flatpak_exports_take_host_fd :: "'w kernel \<Rightarrow> exports \<Rightarrow> fd \<Rightarrow> ('w, exports) state" where
  "flatpak_exports_take_host_fd K ex fd = do {
     glnx_close_fd K (host_fd ex);
     State_Monad.return (ex\<lparr> host_fd := (if fd \<ge> 0 then fd else - 1) \<rparr>) }"

definition flatpak_exports_set_test_flags :: "exports \<Rightarrow> bool \<Rightarrow> exports" where
  "flatpak_exports_set_test_flags ex autofs = ex\<lparr> test_autofs := autofs \<rparr>"

section \<open>Looking at the host\<close>

definition flatpak_exports_stat_in_host :: "'w kernel \<Rightarrow> exports \<Rightarrow> string \<Rightarrow> at_flag set \<Rightarrow> ('w, stat) io" where
  "flatpak_exports_stat_in_host K ex abs_path flags =
     (if \<not> g_path_is_absolute abs_path then State_Monad.return (Inl PRECONDITION_FAILED)
      else if host_fd ex \<ge> 0 then glnx_fstatat K (host_fd ex) (tl abs_path) (insert AT_EMPTY_PATH flags)
      else glnx_fstatat K AT_FDCWD abs_path flags)"

definition flatpak_exports_readlink_in_host :: "'w kernel \<Rightarrow> exports \<Rightarrow> string \<Rightarrow> ('w, string) io" where
  "flatpak_exports_readlink_in_host K ex abs_path =
     (if \<not> g_path_is_absolute abs_path then State_Monad.return (Inl PRECONDITION_FAILED)
      else if host_fd ex \<ge> 0 then glnx_readlinkat_malloc K (host_fd ex) (tl abs_path)
      else glnx_readlinkat_malloc K AT_FDCWD abs_path)"

definition flatpak_exports_open_in_host_async_signal_safe ::
    "'w kernel \<Rightarrow> exports \<Rightarrow> string \<Rightarrow> open_flag set \<Rightarrow> ('w, fd) sys" where
  "flatpak_exports_open_in_host_async_signal_safe K ex abs_path flags =
     (if host_fd ex \<ge> 0 then k_openat K (host_fd ex) (tl abs_path) (insert O_CLOEXEC flags)
      else k_openat K AT_FDCWD abs_path (insert O_CLOEXEC flags))"

text \<open>The failure value is -1 in all cases, so \<open>errno\<close> is not looked at if the precondition fails.\<close>

definition flatpak_exports_open_in_host ::
    "'w kernel \<Rightarrow> exports \<Rightarrow> string \<Rightarrow> open_flag set \<Rightarrow> ('w, fd) sys" where
  "flatpak_exports_open_in_host K ex abs_path flags =
     (if \<not> g_path_is_absolute abs_path then State_Monad.return (Inl (EOTHER 0))
      else flatpak_exports_open_in_host_async_signal_safe K ex abs_path flags)"

definition flatpak_exports_resolve_link_in_host :: "glib \<Rightarrow> 'w kernel \<Rightarrow> exports \<Rightarrow> string \<Rightarrow> ('w, string) io" where
  "flatpak_exports_resolve_link_in_host G K ex abs_path =
     (if \<not> g_path_is_absolute abs_path then State_Monad.return (Inl PRECONDITION_FAILED)
      else if host_fd ex \<ge> 0 then
        (let fd_path = proc_self_fd (host_fd ex) @ ''/'';
             real_path = fd_path @ tl abs_path
         in do {
           r \<leftarrow> flatpak_resolve_link G K real_path;
           State_Monad.return (case r of
               Inl e \<Rightarrow> Inl e
             | Inr resolved \<Rightarrow>
                 if \<not> g_str_has_prefix resolved fd_path then Inl (G_IO_ERROR IO_FAILED)
                 else Inr (drop (length fd_path - 1) resolved)) })
      else flatpak_resolve_link G K abs_path)"

definition path_is_dir :: "'w kernel \<Rightarrow> exports \<Rightarrow> string \<Rightarrow> ('w, bool) state" where
  "path_is_dir K ex path = do {
     r \<leftarrow> flatpak_exports_stat_in_host K ex path {AT_SYMLINK_NOFOLLOW};
     State_Monad.return (case r of Inl _ \<Rightarrow> False | Inr s \<Rightarrow> S_ISDIR (st_mode s)) }"

definition path_is_symlink :: "'w kernel \<Rightarrow> exports \<Rightarrow> string \<Rightarrow> ('w, bool) state" where
  "path_is_symlink K ex path = do {
     r \<leftarrow> flatpak_exports_stat_in_host K ex path {AT_SYMLINK_NOFOLLOW};
     State_Monad.return (case r of Inl _ \<Rightarrow> False | Inr s \<Rightarrow> S_ISLNK (st_mode s)) }"

section \<open>What is mapped\<close>

text \<open>The assertions on the modes in the table never fail: see \<open>modes_ok\<close> below. A key that is not
  in the table would be a null pointer; the keys are those of the table.\<close>

fun path_parent_is_mapped :: "string list \<Rightarrow> (string, int) hash_table \<Rightarrow> string \<Rightarrow> bool \<Rightarrow> bool" where
  "path_parent_is_mapped [] hash path is_mapped = is_mapped"
| "path_parent_is_mapped (mounted_path # keys) hash path is_mapped =
     (let mode = the (map_of hash mounted_path) in
      path_parent_is_mapped keys hash path
        (if flatpak_has_path_prefix path mounted_path \<and> path \<noteq> mounted_path
         then (if mode = FAKE_MODE_DIR then is_mapped else mode \<noteq> FAKE_MODE_TMPFS)
         else is_mapped))"

text \<open>The result: whether the path is mapped, and \<open>is_readonly_out\<close>.\<close>

fun path_is_mapped :: "string list \<Rightarrow> (string, int) hash_table \<Rightarrow> string \<Rightarrow> bool \<times> bool \<Rightarrow> bool \<times> bool" where
  "path_is_mapped [] hash path (is_mapped, is_readonly) = (is_mapped, is_readonly)"
| "path_is_mapped (mounted_path # keys) hash path (is_mapped, is_readonly) =
     (let mode = the (map_of hash mounted_path) in
      path_is_mapped keys hash path
        (if flatpak_has_path_prefix path mounted_path then
           (if mode = FAKE_MODE_DIR then (is_mapped, is_readonly)
            else (let is_mapped = (if mode = FAKE_MODE_SYMLINK then path = mounted_path else mode \<noteq> FAKE_MODE_TMPFS)
                  in (is_mapped, is_mapped \<and> mode = FLATPAK_FILESYSTEM_MODE_READ_ONLY)))
         else (is_mapped, is_readonly)))"

definition sorted_export_keys :: "exports \<Rightarrow> string list" where
  "sorted_export_keys ex = qsort_by strcmp (ht_keys (ex_hash ex))"

section \<open>The arguments for bubblewrap\<close>

definition compare_eps :: "string \<times> int \<Rightarrow> string \<times> int \<Rightarrow> int" where
  "compare_eps a b = strcmp (fst a) (fst b)"

definition append_symlink :: "glib \<Rightarrow> 'w kernel \<Rightarrow> exports \<Rightarrow> string list \<Rightarrow> string \<Rightarrow> bwrap \<Rightarrow> ('w, bwrap) state" where
  "append_symlink G K ex keys path b =
     (if path_parent_is_mapped keys (ex_hash ex) path False then State_Monad.return b
      else do {
        r \<leftarrow> flatpak_exports_resolve_link_in_host G K ex path;
        State_Monad.return (case r of
            Inl _ \<Rightarrow> b
          | Inr resolved \<Rightarrow>
              (let relative = make_relative (g_path_get_dirname G path) resolved
               in flatpak_bwrap_add_args b [''--symlink'', relative, path])) })"

definition append_export :: "glib \<Rightarrow> 'w kernel \<Rightarrow> exports \<Rightarrow> string list \<Rightarrow> string \<times> int \<Rightarrow> bwrap \<Rightarrow> ('w, bwrap) state" where
  "append_export G K ex keys ep b =
     (case ep of (path, mode) \<Rightarrow>
        if mode = FAKE_MODE_SYMLINK then append_symlink G K ex keys path b
        else if mode = FAKE_MODE_TMPFS then do {
          d \<leftarrow> path_is_dir K ex path;
          State_Monad.return
            (if d then
               (if \<not> path_parent_is_mapped keys (ex_hash ex) path False
                then flatpak_bwrap_add_args b [''--dir'', path]
                else flatpak_bwrap_add_args b [''--tmpfs'', path])
             else b) }
        else if mode = FAKE_MODE_DIR then do {
          d \<leftarrow> path_is_dir K ex path;
          State_Monad.return (if d then flatpak_bwrap_add_args b [''--dir'', path] else b) }
        else State_Monad.return (flatpak_bwrap_add_args b
          [if mode = FLATPAK_FILESYSTEM_MODE_READ_ONLY then ''--ro-bind'' else ''--bind'', path, path]))"

fun append_exports :: "glib \<Rightarrow> 'w kernel \<Rightarrow> exports \<Rightarrow> string list \<Rightarrow> (string \<times> int) list \<Rightarrow> bwrap \<Rightarrow> ('w, bwrap) state" where
  "append_exports G K ex keys [] b = State_Monad.return b"
| "append_exports G K ex keys (ep # eps) b = do {
     b' \<leftarrow> append_export G K ex keys ep b;
     append_exports G K ex keys eps b' }"

text \<open>Bind a path of the host below \<open>/run/host\<close> if it is a directory.\<close>

definition append_if_dir :: "'w kernel \<Rightarrow> exports \<Rightarrow> string \<Rightarrow> string \<Rightarrow> string \<Rightarrow> bwrap \<Rightarrow> ('w, bwrap) state" where
  "append_if_dir K ex bind_mode path run_host_path b = do {
     r \<leftarrow> flatpak_exports_stat_in_host K ex path {};
     State_Monad.return (case r of
         Inl _ \<Rightarrow> b
       | Inr buf \<Rightarrow> if S_ISDIR (st_mode buf) then flatpak_bwrap_add_args b [bind_mode, path, run_host_path] else b) }"

definition flatpak_abs_usrmerged_dirs :: "string list" where
  "flatpak_abs_usrmerged_dirs = [''/bin'', ''/lib'', ''/lib32'', ''/lib64'', ''/sbin'']"

fun append_usrmerged :: "'w kernel \<Rightarrow> exports \<Rightarrow> string \<Rightarrow> string list \<Rightarrow> bwrap \<Rightarrow> ('w, bwrap) state" where
  "append_usrmerged K ex os_bind_mode [] b = State_Monad.return b"
| "append_usrmerged K ex os_bind_mode (subdir # subdirs) b =
     (let run_host_subdir = ''/run/host'' @ subdir in do {
        target \<leftarrow> flatpak_exports_readlink_in_host K ex subdir;
        b' \<leftarrow> (case target of
            Inr t \<Rightarrow>
              if g_str_has_prefix t ''usr/''
              then State_Monad.return (flatpak_bwrap_add_args b [''--symlink'', t, run_host_subdir])
              else if g_str_has_prefix t ''/usr/''
              then State_Monad.return (flatpak_bwrap_add_args b [''--symlink'', tl t, run_host_subdir])
              else append_if_dir K ex os_bind_mode subdir run_host_subdir b
          | Inl _ \<Rightarrow> append_if_dir K ex os_bind_mode subdir run_host_subdir b);
        append_usrmerged K ex os_bind_mode subdirs b' })"

definition libs_need_etc :: "(string \<times> 32 word) list" where
  "libs_need_etc = [(''ld.so.cache'', 0x8000), (''alternatives'', 0x4000)]"

fun append_libs_need_etc :: "'w kernel \<Rightarrow> exports \<Rightarrow> string \<Rightarrow> (string \<times> 32 word) list \<Rightarrow> bwrap \<Rightarrow> ('w, bwrap) state" where
  "append_libs_need_etc K ex os_bind_mode [] b = State_Monad.return b"
| "append_libs_need_etc K ex os_bind_mode ((name, ifmt) # items) b =
     (let host_path = ''/etc/'' @ name in do {
        r \<leftarrow> flatpak_exports_stat_in_host K ex host_path {};
        append_libs_need_etc K ex os_bind_mode items
          (case r of
             Inl _ \<Rightarrow> b
           | Inr buf \<Rightarrow>
               if st_mode buf AND S_IFMT = ifmt
               then flatpak_bwrap_add_args b [os_bind_mode, host_path, ''/run/host/etc/'' @ name] else b) })"

definition append_host_os :: "'w kernel \<Rightarrow> exports \<Rightarrow> bwrap \<Rightarrow> ('w, bwrap) state" where
  "append_host_os K ex b =
     (if host_os ex = FLATPAK_FILESYSTEM_MODE_NONE then State_Monad.return b
      else (let os_bind_mode = (if host_os ex = FLATPAK_FILESYSTEM_MODE_READ_ONLY then ''--ro-bind'' else ''--bind'') in do {
        b1 \<leftarrow> append_if_dir K ex os_bind_mode ''/usr'' ''/run/host/usr'' b;
        b2 \<leftarrow> append_if_dir K ex os_bind_mode ''/var/usrlocal'' ''/run/host/var/usrlocal'' b1;
        b3 \<leftarrow> append_usrmerged K ex os_bind_mode flatpak_abs_usrmerged_dirs b2;
        (if host_etc ex = FLATPAK_FILESYSTEM_MODE_NONE
         then append_libs_need_etc K ex os_bind_mode libs_need_etc b3
         else State_Monad.return b3) }))"

definition append_host_etc :: "'w kernel \<Rightarrow> exports \<Rightarrow> bwrap \<Rightarrow> ('w, bwrap) state" where
  "append_host_etc K ex b =
     (if host_etc ex = FLATPAK_FILESYSTEM_MODE_NONE then State_Monad.return b
      else append_if_dir K ex (if host_etc ex = FLATPAK_FILESYSTEM_MODE_READ_ONLY then ''--ro-bind'' else ''--bind'')
             ''/etc'' ''/run/host/etc'' b)"

definition append_os_release :: "'w kernel \<Rightarrow> exports \<Rightarrow> bwrap \<Rightarrow> ('w, bwrap) state" where
  "append_os_release K ex b = do {
     r \<leftarrow> flatpak_exports_stat_in_host K ex ''/etc/os-release'' {};
     (case r of
        Inr _ \<Rightarrow> State_Monad.return (flatpak_bwrap_add_args b [''--ro-bind'', ''/etc/os-release'', ''/run/host/os-release''])
      | Inl _ \<Rightarrow> do {
          r \<leftarrow> flatpak_exports_stat_in_host K ex ''/usr/lib/os-release'' {};
          State_Monad.return (case r of
              Inr _ \<Rightarrow> flatpak_bwrap_add_args b [''--ro-bind'', ''/usr/lib/os-release'', ''/run/host/os-release'']
            | Inl _ \<Rightarrow> b) }) }"

definition flatpak_exports_append_bwrap_args :: "glib \<Rightarrow> 'w kernel \<Rightarrow> exports \<Rightarrow> bwrap \<Rightarrow> ('w, bwrap) state" where
  "flatpak_exports_append_bwrap_args G K ex b = do {
     b1 \<leftarrow> append_exports G K ex (sorted_export_keys ex) (qsort_by compare_eps (ex_hash ex)) b;
     b2 \<leftarrow> append_host_os K ex b1;
     b3 \<leftarrow> append_host_etc K ex b2;
     append_os_release K ex b3 }"

section \<open>Visibility\<close>

definition flatpak_canonicalize_filename :: "glib \<Rightarrow> string \<Rightarrow> string" where
  "flatpak_canonicalize_filename G path = g_file_path G path"

text \<open>\<open>g_strsplit\<close> with a single character: no parts at all for the empty string.\<close>

definition g_strsplit :: "string \<Rightarrow> char \<Rightarrow> string list" where
  "g_strsplit s c = (if s = [] then [] else split_on (\<lambda>x. x = c) s)"

text \<open>One pass over the parts of a path: the mode, or the path to continue with.\<close>

datatype mode_step = Mode int | Continue_with string

fun path_mode_parts :: "glib \<Rightarrow> 'w kernel \<Rightarrow> exports \<Rightarrow> string list \<Rightarrow> bool \<Rightarrow> string \<Rightarrow> string list \<Rightarrow> ('w, mode_step) state" where
  "path_mode_parts G K ex keys is_readonly builder [] = State_Monad.return
     (Mode (if is_readonly then FLATPAK_FILESYSTEM_MODE_READ_ONLY else FLATPAK_FILESYSTEM_MODE_READ_WRITE))"
| "path_mode_parts G K ex keys _ builder (part # parts) =
     (let p = builder @ ''/'' @ part;
          (is_mapped, is_readonly) = path_is_mapped keys (ex_hash ex) p (False, False)
      in if is_mapped then do {
           r \<leftarrow> flatpak_exports_stat_in_host K ex p {AT_SYMLINK_NOFOLLOW};
           (case r of
              Inl e \<Rightarrow> State_Monad.return (Mode
                (if e = G_IO_ERROR IO_NOT_FOUND \<and> parts = [] \<and> \<not> is_readonly
                 then FLATPAK_FILESYSTEM_MODE_READ_WRITE else FLATPAK_FILESYSTEM_MODE_NONE))
            | Inr st \<Rightarrow>
                if S_ISLNK (st_mode st) then do {
                  l \<leftarrow> flatpak_exports_resolve_link_in_host G K ex p;
                  State_Monad.return (case l of
                      Inl _ \<Rightarrow> Mode FLATPAK_FILESYSTEM_MODE_NONE
                    | Inr resolved \<Rightarrow> Continue_with (resolved @ concat (map (\<lambda>q. ''/'' @ q) parts))) }
                else path_mode_parts G K ex keys is_readonly p parts) }
         else if parts = [] then State_Monad.return (Mode FLATPAK_FILESYSTEM_MODE_NONE)
         else path_mode_parts G K ex keys is_readonly p parts)"

text \<open>The recursion through symbolic links has no bound in the code: \<^const>\<open>None\<close> if the fuel runs out.\<close>

fun flatpak_exports_path_get_mode :: "nat \<Rightarrow> glib \<Rightarrow> 'w kernel \<Rightarrow> exports \<Rightarrow> string \<Rightarrow> ('w, int option) state" where
  "flatpak_exports_path_get_mode 0 G K ex path = State_Monad.return None"
| "flatpak_exports_path_get_mode (Suc fuel) G K ex path = do {
     r \<leftarrow> path_mode_parts G K ex (sorted_export_keys ex) False [] (g_strsplit (tl (flatpak_canonicalize_filename G path)) CHR ''/'');
     (case r of
        Mode m \<Rightarrow> State_Monad.return (Some m)
      | Continue_with path2 \<Rightarrow> flatpak_exports_path_get_mode fuel G K ex path2) }"

definition flatpak_exports_path_is_visible :: "nat \<Rightarrow> glib \<Rightarrow> 'w kernel \<Rightarrow> exports \<Rightarrow> string \<Rightarrow> ('w, bool option) state" where
  "flatpak_exports_path_is_visible fuel G K ex path = do {
     m \<leftarrow> flatpak_exports_path_get_mode fuel G K ex path;
     State_Monad.return (map_option (\<lambda>m. m > FLATPAK_FILESYSTEM_MODE_NONE) m) }"

section \<open>Exporting a path\<close>

definition never_export_as_symlink :: "string \<Rightarrow> bool" where
  "never_export_as_symlink path = (path = ''/tmp'' \<or> path = ''/var/tmp'')"

definition do_export_path :: "exports \<Rightarrow> string \<Rightarrow> int \<Rightarrow> exports" where
  "do_export_path ex path mode =
     (if \<not> is_export_mode mode then ex
      else ex\<lparr> ex_hash := AList.update path
        (case map_of (ex_hash ex) path of
           Some old \<Rightarrow> if old < mode then mode else old
         | None \<Rightarrow> mode) (ex_hash ex) \<rparr>)"

text \<open>An automount point is opened by a child process, which is killed if that takes more than 200 ms. The child shares the
  write end of the pipe, which becomes readable at its other end when the child has exited.\<close>

definition autofs_child :: "exports \<Rightarrow> string \<Rightarrow> fd \<Rightarrow> child_step list" where
  "autofs_child ex path read_end =
     [Child_close read_end,
      if host_fd ex \<ge> 0 then Child_exit_after_open (host_fd ex) (tl path) {O_CLOEXEC, O_RDONLY, O_NONBLOCK, O_DIRECTORY}
      else Child_exit_after_open AT_FDCWD path {O_CLOEXEC, O_RDONLY, O_NONBLOCK, O_DIRECTORY}]"

definition wait_for_autofs_child :: "'w host \<Rightarrow> fd \<Rightarrow> fd \<Rightarrow> nat \<Rightarrow> ('w, bool) state" where
  "wait_for_autofs_child H read_end write_end pid = do {
     sys_close (kern H) write_end;
     res \<leftarrow> h_select_read H read_end 200000;
     sys_close (kern H) read_end;
     (if res = - 1 \<or> res = 0 then h_sigkill H pid else State_Monad.return ());
     (p, exited) \<leftarrow> h_waitpid H pid;
     State_Monad.return (p = int pid \<and> \<not> (res = - 1 \<or> res = 0) \<and> exited = Some 0) }"

definition check_if_autofs_works :: "'w host \<Rightarrow> exports \<Rightarrow> string \<Rightarrow> ('w, bool) state" where
  "check_if_autofs_works H ex path =
     (if \<not> g_path_is_absolute path then State_Monad.return False
      else do {
        r \<leftarrow> h_pipe2 H;
        (case r of
           Inl _ \<Rightarrow> State_Monad.return False
         | Inr (rd, wr) \<Rightarrow> do {
             h_set_nonblock H (int rd);
             h_set_nonblock H (int wr);
             f \<leftarrow> h_fork H (autofs_child ex path (int rd));
             (case f of
                Inl _ \<Rightarrow> do {
                  sys_close (kern H) (int rd);
                  sys_close (kern H) (int wr);
                  State_Monad.return False }
              | Inr pid \<Rightarrow> do {
                  works \<leftarrow> wait_for_autofs_child H (int rd) (int wr) pid;
                  State_Monad.return (works \<and> \<not> (test_autofs ex \<and> path = ''/broken-autofs'')) }) }) })"

definition pv_get_reserved_paths :: "string list" where
  "pv_get_reserved_paths = [''/.flatpak-info'', ''/app'', ''/bin'', ''/dev'', ''/etc'', ''/overrides'', ''/lib'',
     ''/lib32'', ''/lib64'', ''/proc'', ''/run/flatpak'', ''/run/gfx'', ''/run/host'', ''/run/interpreter-host'',
     ''/run/parent'', ''/run/pressure-vessel'', ''/sbin'', ''/usr'', ''/var/cache/ldconfig'', ''/var/lib/dbus'',
     ''/var/pressure-vessel'', ''/var/run'']"

definition is_reserved :: "string \<Rightarrow> bool" where
  "is_reserved path =
     (list_ex (\<lambda>r. flatpak_has_path_prefix path r \<or> flatpak_has_path_prefix r path) pv_get_reserved_paths
      \<or> list_ex (flatpak_has_path_prefix path) flatpak_abs_usrmerged_dirs)"

text \<open>The checks on the host's object, while its descriptor is open.\<close>

definition expose_checks :: "'w host \<Rightarrow> exports \<Rightarrow> string \<Rightarrow> fd \<Rightarrow> ('w, unit) io" where
  "expose_checks H ex path o_path_fd = do {
     s \<leftarrow> sys_fstatat (kern H) o_path_fd [] {AT_EMPTY_PATH};
     (case s of
        Inl _ \<Rightarrow> State_Monad.return (Inl (G_IO_ERROR IO_FAILED))
      | Inr st \<Rightarrow>
          if \<not> (S_ISDIR (st_mode st) \<or> S_ISREG (st_mode st) \<or> S_ISLNK (st_mode st) \<or> S_ISSOCK (st_mode st))
          then State_Monad.return (Inl (G_IO_ERROR IO_FAILED))
          else do {
            f \<leftarrow> h_fstatfs_autofs H o_path_fd;
            (case f of
               Inl _ \<Rightarrow> State_Monad.return (Inl (G_IO_ERROR IO_FAILED))
             | Inr autofs \<Rightarrow>
                 if autofs \<or> test_autofs ex \<and> S_ISDIR (st_mode st) then do {
                   w \<leftarrow> check_if_autofs_works H ex path;
                   State_Monad.return (if w then Inr () else Inl (G_IO_ERROR IO_WOULD_BLOCK)) }
                 else State_Monad.return (Inr ())) }) }"

text \<open>The loop over the prefixes of the canonical path: \<open>p\<close> is the part before \<open>slash + 1\<close> and \<open>rest\<close>
  the part after it; \<open>expose\<close> is the recursive call for the target of a link. The result is whether the
  function returns here.\<close>

function expose_links :: "glib \<Rightarrow> 'w kernel \<Rightarrow> (string \<Rightarrow> exports \<Rightarrow> ('w, exports \<times> (gerror + unit)) state) \<Rightarrow>
    exports \<Rightarrow> string \<Rightarrow> string \<Rightarrow> ('w, exports \<times> (gerror + unit) option) state" where
  "expose_links G K expose ex p rest =
     (let (path, slash) = (case strchr rest CHR ''/'' of None \<Rightarrow> (p @ rest, None) | Some (a, b) \<Rightarrow> (p @ a, Some b)) in do {
        l \<leftarrow> path_is_symlink K ex path;
        (if \<not> l \<or> never_export_as_symlink path then
           (case slash of
              None \<Rightarrow> State_Monad.return (ex, None)
            | Some b \<Rightarrow> expose_links G K expose ex (path @ ''/'') b)
         else do {
           r \<leftarrow> flatpak_exports_resolve_link_in_host G K ex path;
           (case r of
              Inl _ \<Rightarrow> State_Monad.return (ex, Some (Inl (G_IO_ERROR IO_NOT_FOUND)))
            | Inr resolved \<Rightarrow>
                (let new_target = (case slash of Some b \<Rightarrow> g_build_filename G [resolved, b] | None \<Rightarrow> resolved) in do {
                   (ex', e) \<leftarrow> expose new_target ex;
                   State_Monad.return (case e of
                       Inr _ \<Rightarrow> (do_export_path ex' path FAKE_MODE_SYMLINK, Some (Inr ()))
                     | Inl err \<Rightarrow> (ex', Some (Inl err))) })) }) })"
  by pat_completeness auto
termination
  by (relation "measure (\<lambda>(G, K, expose, ex, p, rest). length rest)")
    (auto simp: strchr_Some_iff split: option.splits prod.splits)

declare expose_links.simps [simp del]

text \<open>\<open>_exports_path_expose\<close>; \<open>left\<close> is \<open>41 - level\<close>, so the recursion ends when \<open>level > 40\<close>.\<close>

fun exports_path_expose :: "glib \<Rightarrow> 'w host \<Rightarrow> nat \<Rightarrow> int \<Rightarrow> string \<Rightarrow> exports \<Rightarrow> ('w, exports \<times> (gerror + unit)) state" where
  "exports_path_expose G H 0 mode path ex = State_Monad.return
     (ex, Inl (if \<not> is_export_mode mode then PRECONDITION_FAILED else G_IO_ERROR IO_TOO_MANY_LINKS))"
| "exports_path_expose G H (Suc left) mode path ex =
     (if \<not> is_export_mode mode then State_Monad.return (ex, Inl PRECONDITION_FAILED)
      else if \<not> g_path_is_absolute path then State_Monad.return (ex, Inl (G_IO_ERROR IO_INVALID_FILENAME))
      else do {
        opn \<leftarrow> flatpak_exports_open_in_host (kern H) ex path {O_PATH, O_NOFOLLOW};
        (case opn of
           Inl _ \<Rightarrow> State_Monad.return (ex, Inl (G_IO_ERROR IO_NOT_FOUND))
         | Inr o_path_fd \<Rightarrow> do {
             c \<leftarrow> expose_checks H ex path o_path_fd;
             r \<leftarrow> (case c of
                 Inl e \<Rightarrow> State_Monad.return (ex, Inl e)
               | Inr _ \<Rightarrow>
                   (let canonical = flatpak_canonicalize_filename G path in
                    if is_reserved canonical then State_Monad.return (ex, Inl (G_IO_ERROR IO_NOT_MOUNTABLE_FILE))
                    else do {
                      (ex', ret) \<leftarrow> expose_links G (kern H) (exports_path_expose G H left mode) ex
                        (take 1 canonical) (drop 1 canonical);
                      State_Monad.return (case ret of
                          Some e \<Rightarrow> (ex', e)
                        | None \<Rightarrow> (do_export_path ex' canonical mode, Inr ())) }));
             glnx_close_fd (kern H) o_path_fd;
             State_Monad.return r }) })"

definition MAX_LEVELS :: nat where "MAX_LEVELS = 41"

definition flatpak_exports_add_path_expose :: "glib \<Rightarrow> 'w host \<Rightarrow> int \<Rightarrow> string \<Rightarrow> exports \<Rightarrow> ('w, exports \<times> (gerror + unit)) state" where
  "flatpak_exports_add_path_expose G H mode path ex =
     (if \<not> (mode > FLATPAK_FILESYSTEM_MODE_NONE \<and> mode \<le> FLATPAK_FILESYSTEM_MODE_LAST)
      then State_Monad.return (ex, Inl PRECONDITION_FAILED)
      else exports_path_expose G H MAX_LEVELS mode path ex)"

definition flatpak_exports_add_path_tmpfs :: "glib \<Rightarrow> 'w host \<Rightarrow> string \<Rightarrow> exports \<Rightarrow> ('w, exports \<times> (gerror + unit)) state" where
  "flatpak_exports_add_path_tmpfs G H path ex = exports_path_expose G H MAX_LEVELS FAKE_MODE_TMPFS path ex"

definition flatpak_exports_add_path_expose_or_hide :: "glib \<Rightarrow> 'w host \<Rightarrow> int \<Rightarrow> string \<Rightarrow> exports \<Rightarrow> ('w, exports \<times> (gerror + unit)) state" where
  "flatpak_exports_add_path_expose_or_hide G H mode path ex =
     (if \<not> (mode \<ge> FLATPAK_FILESYSTEM_MODE_NONE \<and> mode \<le> FLATPAK_FILESYSTEM_MODE_LAST)
      then State_Monad.return (ex, Inl PRECONDITION_FAILED)
      else if mode = FLATPAK_FILESYSTEM_MODE_NONE then flatpak_exports_add_path_tmpfs G H path ex
      else flatpak_exports_add_path_expose G H mode path ex)"

definition flatpak_exports_add_path_dir :: "glib \<Rightarrow> 'w host \<Rightarrow> string \<Rightarrow> exports \<Rightarrow> ('w, exports \<times> (gerror + unit)) state" where
  "flatpak_exports_add_path_dir G H path ex = exports_path_expose G H MAX_LEVELS FAKE_MODE_DIR path ex"

definition flatpak_exports_add_host_etc_expose :: "exports \<Rightarrow> int \<Rightarrow> exports" where
  "flatpak_exports_add_host_etc_expose ex mode =
     (if mode > FLATPAK_FILESYSTEM_MODE_NONE \<and> mode \<le> FLATPAK_FILESYSTEM_MODE_LAST
      then ex\<lparr> host_etc := mode \<rparr> else ex)"

definition flatpak_exports_add_host_os_expose :: "exports \<Rightarrow> int \<Rightarrow> exports" where
  "flatpak_exports_add_host_os_expose ex mode =
     (if mode > FLATPAK_FILESYSTEM_MODE_NONE \<and> mode \<le> FLATPAK_FILESYSTEM_MODE_LAST
      then ex\<lparr> host_os := mode \<rparr> else ex)"

end
