(* ===== verification/ExportsMapped.thy ===== *)
theory ExportsMapped imports Exports MemKernel begin

text \<open>
  Which paths are mapped. The code walks over all keys in the order of \<open>strcmp\<close> and lets the last
  one that is a prefix win; the specification looks up the path, then its parent, and so on.
\<close>

section \<open>The nearest mount\<close>

definition to_path :: "string list \<Rightarrow> string" where
  "to_path xs = CHR ''/'' # join_segs xs"

definition is_canonical :: "string \<Rightarrow> bool" where
  "is_canonical k = (segs k \<noteq> [] \<and> k = to_path (segs k))"

text \<open>The elements of the path in reverse order.\<close>

fun nearest_mount :: "(string, int) hash_table \<Rightarrow> string list \<Rightarrow> (string \<times> int) option" where
  "nearest_mount hash [] = None"
| "nearest_mount hash (x # xs) =
     (let k = to_path (rev (x # xs)) in
      case map_of hash k of
        Some m \<Rightarrow> if m \<noteq> FAKE_MODE_DIR then Some (k, m) else nearest_mount hash xs
      | None \<Rightarrow> nearest_mount hash xs)"

definition mapped_by :: "string \<Rightarrow> string \<Rightarrow> int \<Rightarrow> bool \<times> bool" where
  "mapped_by path k m =
     (let is_mapped = (if m = FAKE_MODE_SYMLINK then path = k else m \<noteq> FAKE_MODE_TMPFS)
      in (is_mapped, is_mapped \<and> m = FLATPAK_FILESYSTEM_MODE_READ_ONLY))"

definition mapped_spec :: "(string, int) hash_table \<Rightarrow> string \<Rightarrow> bool \<times> bool" where
  "mapped_spec hash path =
     (case nearest_mount hash (rev (segs path)) of None \<Rightarrow> (False, False) | Some (k, m) \<Rightarrow> mapped_by path k m)"

lemma segs_to_path [simp]: "list_all seg_ok xs \<Longrightarrow> segs (to_path xs) = xs"
  by (simp add: to_path_def segs_join)

text \<open>The keys that count, in the order of the walk.\<close>

definition relevant :: "(string, int) hash_table \<Rightarrow> string \<Rightarrow> string list \<Rightarrow> string list" where
  "relevant hash path keys =
     filter (\<lambda>k. flatpak_has_path_prefix path k \<and> the (map_of hash k) \<noteq> FAKE_MODE_DIR) keys"

lemma path_is_mapped_last:
  "path_is_mapped keys hash path r =
    (if relevant hash path keys = [] then r
     else mapped_by path (last (relevant hash path keys)) (the (map_of hash (last (relevant hash path keys)))))"
  by (induction keys hash path r rule: path_is_mapped.induct) (auto simp: relevant_def mapped_by_def Let_def)

lemma join_segs_longer: "xs \<noteq> [] \<Longrightarrow> ys \<noteq> [] \<Longrightarrow> \<exists>c cs. join_segs (xs @ ys) = join_segs xs @ c # cs"
proof (induction ys rule: rev_induct)
  case (snoc y ys)
  show ?case
  proof (cases "ys = []")
    case False
    then obtain c cs where "join_segs (xs @ ys) = join_segs xs @ c # cs" using snoc by blast
    then have "join_segs (xs @ ys @ [y]) = join_segs xs @ c # (cs @ CHR ''/'' # y)"
      using snoc.prems(1) join_segs_snoc [of "xs @ ys" y] by simp
    then show ?thesis by blast
  qed (use snoc.prems in \<open>simp add: join_segs_snoc\<close>)
qed simp

lemma to_path_less: "xs \<noteq> [] \<Longrightarrow> ys \<noteq> [] \<Longrightarrow> to_path xs < to_path (xs @ ys)"
  using join_segs_longer [of xs ys] less_append(1) by (auto simp: to_path_def)

lemma nearest_mount_Some:
  "nearest_mount hash (rev xs) = Some (k, m) \<Longrightarrow>
   \<exists>n. 0 < n \<and> n \<le> length xs \<and> k = to_path (take n xs) \<and> map_of hash k = Some m \<and> m \<noteq> FAKE_MODE_DIR \<and>
     (\<forall>i m'. n < i \<and> i \<le> length xs \<and> map_of hash (to_path (take i xs)) = Some m' \<longrightarrow> m' = FAKE_MODE_DIR)"
proof (induction xs rule: rev_induct)
  case (snoc x xs)
  show ?case
  proof (cases "\<exists>m. map_of hash (to_path (xs @ [x])) = Some m \<and> m \<noteq> FAKE_MODE_DIR")
    case True
    then show ?thesis using snoc.prems by (intro exI [of _ "Suc (length xs)"]) auto
  next
    case False
    then have "nearest_mount hash (rev xs) = Some (k, m)" using snoc.prems by (auto simp: Let_def split: option.splits if_splits)
    from snoc.IH [OF this] obtain n where n: "0 < n" "n \<le> length xs" "k = to_path (take n xs)" "map_of hash k = Some m"
      "m \<noteq> FAKE_MODE_DIR" "\<forall>i m'. n < i \<and> i \<le> length xs \<and> map_of hash (to_path (take i xs)) = Some m' \<longrightarrow> m' = FAKE_MODE_DIR"
      by blast
    have "m' = FAKE_MODE_DIR" if "n < i" "i \<le> length (xs @ [x])" "map_of hash (to_path (take i (xs @ [x]))) = Some m'" for i m'
      using that n(6) False by (cases "i \<le> length xs") (auto simp: le_Suc_eq)
    then show ?thesis using n by (intro exI [of _ n]) auto
  qed
qed simp

lemma nearest_mount_None:
  "nearest_mount hash (rev xs) = None \<Longrightarrow> 0 < i \<Longrightarrow> i \<le> length xs \<Longrightarrow>
   map_of hash (to_path (take i xs)) = Some m \<Longrightarrow> m = FAKE_MODE_DIR"
proof (induction xs rule: rev_induct)
  case (snoc x xs)
  then show ?case by (cases "i \<le> length xs") (auto simp: Let_def le_Suc_eq split: option.splits if_splits)
qed simp

lemma relevant_take:
  assumes "k \<in> set (relevant hash path keys)" "is_canonical k"
  shows "\<exists>n. 0 < n \<and> n \<le> length (segs path) \<and> k = to_path (take n (segs path))"
proof -
  have "prefix (segs k) (segs path)" using assms(1) by (simp add: relevant_def has_path_prefix_iff)
  then have "segs k = take (length (segs k)) (segs path)" "length (segs k) \<le> length (segs path)"
    by (auto simp: prefix_def)
  then show ?thesis using assms(2) unfolding is_canonical_def
    by (intro exI [of _ "length (segs k)"]) (metis length_greater_0_conv)
qed

lemma path_is_mapped_spec:
  assumes "ht_valid (ex_hash ex)" and "\<forall>k \<in> set (ht_keys (ex_hash ex)). is_canonical k"
  shows "path_is_mapped (sorted_export_keys ex) (ex_hash ex) path (False, False) = mapped_spec (ex_hash ex) path"
proof -
  let ?hash = "ex_hash ex" and ?xs = "segs path"
  let ?rel = "relevant ?hash path (sorted_export_keys ex)"
  have keys: "set (sorted_export_keys ex) = dom (map_of ?hash)"
    using ht.keys_dom [OF assms(1)] by (simp add: sorted_export_keys_def)
  have in_rel: "to_path (take i ?xs) \<in> set ?rel \<longleftrightarrow> (\<exists>m. map_of ?hash (to_path (take i ?xs)) = Some m \<and> m \<noteq> FAKE_MODE_DIR)" for i
  proof -
    have "list_all seg_ok (take i ?xs)" using list_all_segs [of path] by (auto simp: list_all_iff dest: in_set_takeD)
    then show ?thesis using keys by (auto simp: relevant_def has_path_prefix_iff take_is_prefix)
  qed
  have rel_take: "\<exists>n. 0 < n \<and> n \<le> length ?xs \<and> k = to_path (take n ?xs)" if "k \<in> set ?rel" for k
    using relevant_take [OF that] assms(2) that by (auto simp: relevant_def sorted_export_keys_def)
  have sorted: "sorted ?rel"
    using strcmp.sorted_qsort [of "ht_keys ?hash"]
    by (simp add: relevant_def sorted_export_keys_def sorted_wrt_filter strcmp_le [abs_def])
  show ?thesis
  proof (cases "nearest_mount ?hash (rev ?xs)")
    case None
    then have "?rel = []" using rel_take in_rel nearest_mount_None [OF None] by (metis last_in_set)
    then show ?thesis by (simp add: path_is_mapped_last mapped_spec_def None)
  next
    case (Some km)
    obtain k m where km: "km = (k, m)" by (cases km)
    obtain n where n: "0 < n" "n \<le> length ?xs" "k = to_path (take n ?xs)" "map_of ?hash k = Some m" "m \<noteq> FAKE_MODE_DIR"
      and longest: "\<forall>i m'. n < i \<and> i \<le> length ?xs \<and> map_of ?hash (to_path (take i ?xs)) = Some m' \<longrightarrow> m' = FAKE_MODE_DIR"
      using nearest_mount_Some [of ?hash ?xs k m] Some km by auto
    have k: "k \<in> set ?rel" using in_rel [of n] n by blast
    then have ne: "?rel \<noteq> []" by auto
    then have lst: "last ?rel \<in> set ?rel" by simp
    then obtain i where i: "0 < i" "i \<le> length ?xs" "last ?rel = to_path (take i ?xs)" using rel_take by blast
    have "k \<le> last ?rel" using sorted k append_butlast_last_id [OF ne]
      by (metis Un_iff empty_iff insert_iff list.set(1) list.simps(15) order_refl set_append sorted_append)
    have "i \<le> n"
    proof (rule ccontr)
      assume "\<not> i \<le> n"
      then show False using longest in_rel [of i] lst i by (metis linorder_not_le)
    qed
    have "i = n"
    proof (rule ccontr)
      assume "i \<noteq> n"
      then have "i < n" using \<open>i \<le> n\<close> by simp
      then have "take n ?xs = take i ?xs @ drop i (take n ?xs)" "drop i (take n ?xs) \<noteq> []" "take i ?xs \<noteq> []"
        using n(2) i(1) by (auto simp: min_def simp flip: take_take) (metis append_take_drop_id min.absorb1 order_less_imp_le take_take)
      then have "last ?rel < k" using to_path_less i(3) n(3) by metis
      then show False using \<open>k \<le> last ?rel\<close> by simp
    qed
    then have "last ?rel = k" using i(3) n(3) by simp
    then show ?thesis using ne n(4) by (simp add: path_is_mapped_last mapped_spec_def Some km)
  qed
qed

text \<open>C10: Which paths are mapped, and which of them read-only: the nearest key at or above the path that is
  not a mere directory decides. Because the keys are sorted with \<open>strcmp\<close>, where a parent comes before
  its children, the last matching key of the walk is the longest one.\<close>

theorem path_is_mapped_nearest:
  assumes "ht_valid (ex_hash ex)" and "\<forall>k \<in> set (ht_keys (ex_hash ex)). is_canonical k"
  shows "path_is_mapped (sorted_export_keys ex) (ex_hash ex) path (False, False) = mapped_spec (ex_hash ex) path"
  by (rule path_is_mapped_spec [OF assms])

definition demo_exports :: exports where
  "demo_exports = flatpak_exports_new\<lparr> ex_hash :=
     [(''/home/u/x'', FAKE_MODE_DIR), (''/home'', FLATPAK_FILESYSTEM_MODE_READ_ONLY), (''/home-2'', FAKE_MODE_TMPFS),
      (''/home/u'', FLATPAK_FILESYSTEM_MODE_READ_WRITE), (''/link'', FAKE_MODE_SYMLINK)] \<rparr>"

theorem path_is_mapped_nearest_witness:
  "path_is_mapped (sorted_export_keys demo_exports) (ex_hash demo_exports) ''/home/u/x/y'' (False, False) = (True, False) \<and>
   path_is_mapped (sorted_export_keys demo_exports) (ex_hash demo_exports) ''/home/v'' (False, False) = (True, True) \<and>
   path_is_mapped (sorted_export_keys demo_exports) (ex_hash demo_exports) ''/link/v'' (False, False) = (False, False)"
proof -
  have valid: "ht_valid (ex_hash demo_exports)" by (simp add: demo_exports_def ht_valid_def)
  have canon: "\<forall>k \<in> set (ht_keys (ex_hash demo_exports)). is_canonical k" by code_simp
  have "mapped_spec (ex_hash demo_exports) ''/home/u/x/y'' = (True, False)"
    "mapped_spec (ex_hash demo_exports) ''/home/v'' = (True, True)"
    "mapped_spec (ex_hash demo_exports) ''/link/v'' = (False, False)" by code_simp+
  then show ?thesis by (simp add: path_is_mapped_nearest [OF valid canon])
qed

section \<open>The mode of a path\<close>

lemma split_on_parts: "concat (map (Cons c) (split_on (\<lambda>x. x = c) s)) = c # s"
proof (induction s)
  case (Cons x s)
  then show ?case by (cases "split_on (\<lambda>x. x = c) s") auto
qed simp

lemma concat_g_strsplit: "s \<noteq> [] \<Longrightarrow> concat (map (\<lambda>q. ''/'' @ q) (g_strsplit s CHR ''/'')) = CHR ''/'' # s"
  using split_on_parts [of "CHR ''/''" s] by (simp add: g_strsplit_def)

text \<open>A visible result means that the whole path is mapped, with the same access.\<close>

lemma path_mode_parts_visible:
  assumes "run_state (path_mode_parts G K ex keys ro p parts) w = (Mode m, w')" "m \<noteq> FLATPAK_FILESYSTEM_MODE_NONE"
  shows "(case parts of [] \<Rightarrow> ro = (m = FLATPAK_FILESYSTEM_MODE_READ_ONLY)
     | _ \<Rightarrow> path_is_mapped keys (ex_hash ex) (p @ concat (map (\<lambda>q. ''/'' @ q) parts)) (False, False) =
              (True, m = FLATPAK_FILESYSTEM_MODE_READ_ONLY)) \<and>
     m \<in> {FLATPAK_FILESYSTEM_MODE_READ_ONLY, FLATPAK_FILESYSTEM_MODE_READ_WRITE}"
  using assms
proof (induction parts arbitrary: p ro w)
  case Nil
  then show ?case by (cases ro) (auto simp: mode_defs)
next
  case (Cons part parts)
  let ?p = "p @ ''/'' @ part"
  obtain mapped ro' where pm: "path_is_mapped keys (ex_hash ex) ?p (False, False) = (mapped, ro')" by fastforce
  have step: ?case if "run_state (path_mode_parts G K ex keys ro' ?p parts) v = (Mode m, w')" "mapped \<or> parts \<noteq> []" for v
    using Cons.IH [OF that(1) Cons.prems(2)] that(2) pm by (cases parts) auto
  show ?case
  proof (cases mapped)
    case False
    then show ?thesis using Cons.prems pm step [of w] by (auto simp: Let_def split: if_splits)
  next
    case True
    obtain r v where st: "run_state (flatpak_exports_stat_in_host K ex ?p {AT_SYMLINK_NOFOLLOW}) w = (r, v)" by fastforce
    show ?thesis
    proof (cases r)
      case (Inl e)
      then show ?thesis using Cons.prems pm True st
        by (auto simp: Let_def run_state_bind mode_defs split: if_splits)
    next
      case (Inr s)
      then show ?thesis using Cons.prems pm True st step [of v]
        by (auto simp: Let_def run_state_bind split: if_splits sum.splits prod.splits)
    qed
  qed
qed

text \<open>A path that is reported as visible without following a link is mapped, and it is writable in
  the result exactly if its nearest mount is. (The root directory itself is the exception: it has no
  parts, and is reported as writable whatever is exported.)\<close>

theorem flatpak_exports_path_get_mode_visible:
  assumes "ht_valid (ex_hash ex)" and "\<forall>k \<in> set (ht_keys (ex_hash ex)). is_canonical k"
    and "flatpak_canonicalize_filename G path = CHR ''/'' # rest"
    and "run_state (flatpak_exports_path_get_mode 1 G K ex path) w = (Some m, w')" and "m \<noteq> FLATPAK_FILESYSTEM_MODE_NONE"
  shows "m \<in> {FLATPAK_FILESYSTEM_MODE_READ_ONLY, FLATPAK_FILESYSTEM_MODE_READ_WRITE} \<and>
    (if rest = [] then m = FLATPAK_FILESYSTEM_MODE_READ_WRITE
     else mapped_spec (ex_hash ex) (CHR ''/'' # rest) = (True, m = FLATPAK_FILESYSTEM_MODE_READ_ONLY))"
proof -
  let ?parts = "g_strsplit rest CHR ''/''"
  have "run_state (path_mode_parts G K ex (sorted_export_keys ex) False [] ?parts) w = (Mode m, w')"
    using assms(3,4) by (auto simp: run_state_bind split: prod.splits mode_step.splits)
  from path_mode_parts_visible [OF this assms(5), unfolded append_Nil]
  have v: "case ?parts of [] \<Rightarrow> False = (m = FLATPAK_FILESYSTEM_MODE_READ_ONLY)
     | _ \<Rightarrow> path_is_mapped (sorted_export_keys ex) (ex_hash ex) (concat (map (\<lambda>q. ''/'' @ q) ?parts)) (False, False) =
              (True, m = FLATPAK_FILESYSTEM_MODE_READ_ONLY)"
    and m: "m \<in> {FLATPAK_FILESYSTEM_MODE_READ_ONLY, FLATPAK_FILESYSTEM_MODE_READ_WRITE}" by blast+
  show ?thesis
  proof (cases "rest = []")
    case True
    then show ?thesis using v m by (auto simp: g_strsplit_def)
  next
    case False
    then have "?parts \<noteq> []" by (simp add: g_strsplit_def)
    then show ?thesis using v m False concat_g_strsplit [OF False] path_is_mapped_spec [OF assms(1,2)]
      by (auto split: list.splits)
  qed
qed

text \<open>A host that is a table of absolute paths.\<close>

definition path_kernel :: "(string \<times> node) list \<Rightarrow> mem_world kernel" where
  "path_kernel t = mem_kernel\<lparr>
     sys_fstatat := (\<lambda>fd p fl. State (\<lambda>w. (case map_of t p of None \<Rightarrow> Inl ENOENT
        | Some n \<Rightarrow> Inr \<lparr> st_dev = 1, st_ino = 1, st_mode = mem_mode n, st_size = 0 \<rparr>, w))),
     sys_readlinkat := (\<lambda>fd p. State (\<lambda>w. (case map_of t p of Some (Lnk l) \<Rightarrow> Inr l | _ \<Rightarrow> Inl EINVAL, w))) \<rparr>"

theorem flatpak_exports_path_get_mode_visible_witness:
  "run_state (flatpak_exports_path_get_mode 1 glib_ref (path_kernel [(''/home'', Dir), (''/home/v'', Dir)])
       demo_exports ''/home//v/'') demo_world = (Some FLATPAK_FILESYSTEM_MODE_READ_ONLY, demo_world) \<and>
   mapped_spec (ex_hash demo_exports) ''/home/v'' = (True, True)"
proof -
  have valid: "ht_valid (ex_hash demo_exports)" by (simp add: demo_exports_def ht_valid_def)
  have canon: "\<forall>k \<in> set (ht_keys (ex_hash demo_exports)). is_canonical k" by code_simp
  have c: "flatpak_canonicalize_filename glib_ref ''/home//v/'' = CHR ''/'' # ''home/v''" by code_simp
  have r: "run_state (flatpak_exports_path_get_mode 1 glib_ref (path_kernel [(''/home'', Dir), (''/home/v'', Dir)])
       demo_exports ''/home//v/'') demo_world = (Some FLATPAK_FILESYSTEM_MODE_READ_ONLY, demo_world)" by code_simp
  have "FLATPAK_FILESYSTEM_MODE_READ_ONLY \<noteq> FLATPAK_FILESYSTEM_MODE_NONE" by (simp add: mode_defs)
  from flatpak_exports_path_get_mode_visible [OF valid canon c r this]
  show ?thesis using r by simp
qed

text \<open>There is no bound on the links that \<open>flatpak_exports_path_get_mode\<close> follows: if a link below an
  exported directory points to itself, the recursion never ends, whatever the fuel. (The function
  that adds exports gives up after 40 links.)\<close>

theorem flatpak_exports_path_get_mode_link_loop:
  assumes p: "p = ''/'' @ d @ ''/'' @ x" "flatpak_canonicalize_filename G p = p" "seg_ok d" "seg_ok x"
    and mapped: "fst (path_is_mapped (sorted_export_keys ex) (ex_hash ex) (''/'' @ d) (False, False))"
      "fst (path_is_mapped (sorted_export_keys ex) (ex_hash ex) p (False, False))"
    and host: "host_fd ex < 0"
      "run_state (sys_fstatat K AT_FDCWD (''/'' @ d) {AT_SYMLINK_NOFOLLOW}) w = (Inr dst, w)" "\<not> S_ISLNK (st_mode dst)"
      "run_state (sys_fstatat K AT_FDCWD p {AT_SYMLINK_NOFOLLOW}) w = (Inr lst, w)" "S_ISLNK (st_mode lst)"
      "run_state (sys_readlinkat K AT_FDCWD p) w = (Inr p, w)"
  shows "run_state (flatpak_exports_path_get_mode fuel G K ex p) w = (None, w)"
proof -
  have seg: "c \<noteq> CHR ''/''" if "c \<in> set d \<or> c \<in> set x" for c using that p(3,4) by (auto simp: seg_ok_def)
  have "split_on (\<lambda>c. c = CHR ''/'') (d @ CHR ''/'' # x) = [d, x]"
    using seg by (subst split_on_append_delim) (auto simp: split_on_id)
  then have parts: "g_strsplit (tl (flatpak_canonicalize_filename G p)) CHR ''/'' = [d, x]"
    using p(1,2) by (simp add: g_strsplit_def)
  have abs: "g_path_is_absolute p" "g_path_is_absolute (''/'' @ d)" by (simp_all add: p(1) g_path_is_absolute_def)
  obtain r1 r2 where m: "path_is_mapped (sorted_export_keys ex) (ex_hash ex) (''/'' @ d) (False, False) = (True, r1)"
    "path_is_mapped (sorted_export_keys ex) (ex_hash ex) p (False, False) = (True, r2)"
    using mapped by (metis (full_types) prod.collapse)
  have st: "run_state (flatpak_exports_stat_in_host K ex (''/'' @ d) {AT_SYMLINK_NOFOLLOW}) w = (Inr dst, w)"
    "run_state (flatpak_exports_stat_in_host K ex p {AT_SYMLINK_NOFOLLOW}) w = (Inr lst, w)"
    using host(1,2,4) abs by (simp_all add: flatpak_exports_stat_in_host_def glnx_fstatat_def run_state_bind)
  have l: "run_state (flatpak_exports_resolve_link_in_host G K ex p) w = (Inr p, w)"
    using host(1,6) abs by (simp add: flatpak_exports_resolve_link_in_host_def flatpak_resolve_link_def flatpak_readlink_def
        glnx_readlinkat_malloc_def glnx_dirfd_canonicalize_def run_state_bind)
  have step: "run_state (path_mode_parts G K ex (sorted_export_keys ex) False [] [d, x]) w = (Continue_with p, w)"
    using m st l host(3,5) p(1) by (simp add: run_state_bind Let_def)
  show ?thesis by (induction fuel) (simp_all add: run_state_bind parts step del: path_mode_parts.simps)
qed

theorem flatpak_exports_path_get_mode_link_loop_witness:
  "run_state (flatpak_exports_path_get_mode 1000 glib_ref (path_kernel [(''/home'', Dir), (''/home/l'', Lnk ''/home/l'')])
     demo_exports ''/home/l'') demo_world = (None, demo_world)"
proof -
  let ?K = "path_kernel [(''/home'', Dir), (''/home/l'', Lnk ''/home/l'')]"
  have "run_state (sys_fstatat ?K AT_FDCWD (''/'' @ ''home'') {AT_SYMLINK_NOFOLLOW}) demo_world =
      (Inr \<lparr> st_dev = 1, st_ino = 1, st_mode = mem_mode Dir, st_size = 0 \<rparr>, demo_world)"
    "run_state (sys_fstatat ?K AT_FDCWD ''/home/l'' {AT_SYMLINK_NOFOLLOW}) demo_world =
      (Inr \<lparr> st_dev = 1, st_ino = 1, st_mode = mem_mode (Lnk ''/home/l''), st_size = 0 \<rparr>, demo_world)"
    "run_state (sys_readlinkat ?K AT_FDCWD ''/home/l'') demo_world = (Inr ''/home/l'', demo_world)"
    by (simp_all add: path_kernel_def)
  note k = this
  have n: "''/home/l'' = ''/'' @ ''home'' @ ''/'' @ ''l''" "seg_ok ''home''" "seg_ok ''l''" by (simp_all add: seg_ok_def)
  have c: "flatpak_canonicalize_filename glib_ref ''/home/l'' = ''/home/l''" by code_simp
  have m: "fst (path_is_mapped (sorted_export_keys demo_exports) (ex_hash demo_exports) (''/'' @ ''home'') (False, False))"
    "fst (path_is_mapped (sorted_export_keys demo_exports) (ex_hash demo_exports) ''/home/l'' (False, False))" by code_simp+
  have h: "host_fd demo_exports < 0" by (simp add: demo_exports_def flatpak_exports_new_def)
  have d: "\<not> S_ISLNK (st_mode \<lparr> st_dev = 1, st_ino = 1, st_mode = mem_mode Dir, st_size = 0 \<rparr>)"
    "S_ISLNK (st_mode \<lparr> st_dev = 1, st_ino = 1, st_mode = mem_mode (Lnk ''/home/l''), st_size = 0 \<rparr>)"
    by (simp_all add: S_ISLNK_def S_IFMT_def mem_mode_def)
  show ?thesis by (rule flatpak_exports_path_get_mode_link_loop [OF n(1) c n(2,3) m h k(1) d(1) k(2) d(2) k(3)])
qed

end
