(* ===== verification/ExportsSafe.thy ===== *)
theory ExportsSafe imports ExportsMapped begin

text \<open>
  Exporting paths keeps the table well-formed, never touches what the container framework
  reserves, changes nothing when it fails, and asks of the host only what cannot block or leak.
\<close>

section \<open>Well-formed tables\<close>

definition below_reserved :: "string \<Rightarrow> bool" where
  "below_reserved k = list_ex (flatpak_has_path_prefix k) (pv_get_reserved_paths @ flatpak_abs_usrmerged_dirs)"

definition above_reserved :: "string \<Rightarrow> bool" where
  "above_reserved k = list_ex (\<lambda>r. flatpak_has_path_prefix r k) pv_get_reserved_paths"

text \<open>A name as \<open>g_file_get_path\<close> returns it, or the root: one or two slashes, and elements without \<open>.\<close> and \<open>..\<close>.\<close>

definition canonical_name :: "string \<Rightarrow> bool" where
  "canonical_name k = (list_all canonical_seg (segs k) \<and> (k = ''/'' @ join_segs (segs k) \<or> k = ''//'' @ join_segs (segs k)))"

text \<open>The keys are canonical, the modes are valid, nothing at or below a reserved path is exported, and
  nothing above one unless it is a symbolic link.\<close>

definition export_ok :: "string \<Rightarrow> int \<Rightarrow> bool" where
  "export_ok k m = (canonical_name k \<and> is_export_mode m \<and> \<not> below_reserved k \<and> (m \<noteq> FAKE_MODE_SYMLINK \<longrightarrow> \<not> above_reserved k))"

definition exports_ok :: "exports \<Rightarrow> bool" where
  "exports_ok ex = (ht_valid (ex_hash ex) \<and> (\<forall>k m. map_of (ex_hash ex) k = Some m \<longrightarrow> export_ok k m))"

text \<open>Modes only grow, and the rest of the state stays.\<close>

definition exports_grow :: "exports \<Rightarrow> exports \<Rightarrow> bool" where
  "exports_grow ex ex' = (ex' = ex\<lparr> ex_hash := ex_hash ex' \<rparr> \<and>
     (\<forall>k m. map_of (ex_hash ex) k = Some m \<longrightarrow> (\<exists>m'. map_of (ex_hash ex') k = Some m' \<and> m \<le> m')))"

lemma exports_grow_refl [simp]: "exports_grow ex ex"
  by (simp add: exports_grow_def)

lemma exports_grow_trans: "exports_grow a b \<Longrightarrow> exports_grow b c \<Longrightarrow> exports_grow a c"
  unfolding exports_grow_def by (metis (no_types, lifting) exports.surjective exports.update_convs(1) order_trans)

lemma do_export_path_map:
  "is_export_mode m \<Longrightarrow> map_of (ex_hash (do_export_path ex p m)) k =
    (if k = p then Some (case map_of (ex_hash ex) p of Some old \<Rightarrow> max old m | None \<Rightarrow> m) else map_of (ex_hash ex) k)"
  by (auto simp: do_export_path_def ht.lookup_replace max_def split: option.split)

lemma do_export_path_grow: "exports_grow ex (do_export_path ex p m)"
proof (cases "is_export_mode m")
  case True
  have "do_export_path ex p m = ex\<lparr> ex_hash := ex_hash (do_export_path ex p m) \<rparr>"
    using True by (simp add: do_export_path_def)
  then show ?thesis using True by (auto simp: exports_grow_def do_export_path_map)
qed (simp add: do_export_path_def)

text \<open>Reaching the mode of a link never makes an existing key less restricted: the mode of a link
  is the greatest one.\<close>

lemma do_export_path_ok:
  assumes "exports_ok ex" "export_ok p m"
  shows "exports_ok (do_export_path ex p m)"
proof -
  have m: "is_export_mode m" using assms(2) by (simp add: export_ok_def)
  have "ht_valid (ex_hash (do_export_path ex p m))"
    using assms(1) m by (simp add: exports_ok_def do_export_path_def ht.valid_replace)
  moreover have "export_ok k n" if "map_of (ex_hash (do_export_path ex p m)) k = Some n" for k n
  proof (cases "k = p")
    case True
    have old: "export_ok p o'" if "map_of (ex_hash ex) p = Some o'" for o'
      using assms(1) that by (simp add: exports_ok_def)
    show ?thesis using that True assms(2) old
      by (auto simp: do_export_path_map [OF m] max_def split: option.splits if_splits)
  next
    case False
    then show ?thesis using that assms(1) by (simp add: do_export_path_map [OF m] exports_ok_def)
  qed
  ultimately show ?thesis by (simp add: exports_ok_def)
qed

section \<open>Prefixes of a canonical path\<close>

lemma append_slash_eq:
  assumes "q @ CHR ''/'' # b = x @ CHR ''/'' # r" "CHR ''/'' \<notin> set x"
  shows "(q = x \<and> b = r) \<or> (\<exists>q'. q = x @ CHR ''/'' # q' \<and> r = q' @ CHR ''/'' # b)"
proof -
  obtain us where "q = x @ us \<and> us @ CHR ''/'' # b = CHR ''/'' # r \<or> x = q @ us \<and> CHR ''/'' # b = us @ CHR ''/'' # r"
    using assms(1) by (auto simp: append_eq_append_conv2)
  then show ?thesis using assms(2) by (cases us) auto
qed

lemma join_segs_slash:
  "list_all seg_ok xs \<Longrightarrow> join_segs xs = q @ CHR ''/'' # b \<Longrightarrow>
   \<exists>n. 0 < n \<and> n < length xs \<and> q = join_segs (take n xs) \<and> b = join_segs (drop n xs)"
proof (induction xs arbitrary: q rule: join_segs.induct)
  case (2 x)
  then show ?case by (auto simp: seg_ok_def)
next
  case (3 x y ys)
  have "CHR ''/'' \<notin> set x" using 3 by (simp add: seg_ok_def)
  moreover have "q @ CHR ''/'' # b = x @ CHR ''/'' # join_segs (y # ys)" using 3 by simp
  ultimately consider "q = x" "b = join_segs (y # ys)" | q' where "q = x @ CHR ''/'' # q'" "join_segs (y # ys) = q' @ CHR ''/'' # b"
    using append_slash_eq by blast
  then show ?case
  proof cases
    case 1
    then show ?thesis by (intro exI [of _ 1]) simp
  next
    case 2
    then obtain n where n: "0 < n" "n < length (y # ys)" "q' = join_segs (take n (y # ys))" "b = join_segs (drop n (y # ys))"
      using 3 by auto
    obtain m where "n = Suc m" using n(1) by (cases n) auto
    then have "q = join_segs (take (Suc n) (x # y # ys))" using n 2 by simp
    then show ?thesis using n by (intro exI [of _ "Suc n"]) simp
  qed
qed simp

lemma canonical_segs_ok: "list_all canonical_seg xs \<Longrightarrow> list_all seg_ok xs"
  by (auto simp: list_all_iff canonical_seg_def)

lemma segs_rooted: "list_all canonical_seg xs \<Longrightarrow> root \<in> {''/'', ''//''} \<Longrightarrow> segs (root @ join_segs xs) = xs"
  using segs_join [OF canonical_segs_ok] by auto

lemma canonical_name_rooted: "list_all canonical_seg xs \<Longrightarrow> root \<in> {''/'', ''//''} \<Longrightarrow> canonical_name (root @ join_segs xs)"
  by (auto simp: canonical_name_def segs_rooted)

lemma slash_prefix:
  assumes "list_all canonical_seg xs" "''/'' @ join_segs xs = q @ s" "s = [] \<or> (\<exists>b. s = CHR ''/'' # b)" "q \<noteq> []"
  shows "\<exists>n. q = ''/'' @ join_segs (take n xs)"
proof (cases "s = []")
  case True
  then show ?thesis using assms by (intro exI [of _ "length xs"]) auto
next
  case False
  obtain q' where q: "q = CHR ''/'' # q'" using assms(2,4) by (cases q) auto
  then obtain b where "join_segs xs = q' @ CHR ''/'' # b" using assms(2,3) False by auto
  from join_segs_slash [OF canonical_segs_ok [OF assms(1)] this] show ?thesis by (auto simp: q)
qed

lemma rooted_prefix:
  assumes "list_all canonical_seg xs" "root \<in> {''/'', ''//''}" "root @ join_segs xs = q @ s"
    "s = [] \<or> (\<exists>b. s = CHR ''/'' # b)" "q \<noteq> []"
  shows "\<exists>r n. r \<in> {''/'', ''//''} \<and> q = r @ join_segs (take n xs)"
proof (cases "root = ''/''")
  case True
  then show ?thesis using slash_prefix [OF assms(1) _ assms(4,5)] assms(3) by blast
next
  case False
  then have "root = ''//''" using assms(2) by simp
  then obtain q' where q: "q = CHR ''/'' # q'" and q': "''/'' @ join_segs xs = q' @ s" using assms(3,5) by (cases q) auto
  show ?thesis
  proof (cases "q' = []")
    case True
    then show ?thesis using q by (intro exI [of _ "''/''"] exI [of _ 0]) simp
  next
    case False
    from slash_prefix [OF assms(1) q' assms(4) this] show ?thesis using q by (auto intro!: exI [of _ "''//''"])
  qed
qed

lemma not_reserved:
  assumes "\<not> is_reserved k"
  shows "\<not> below_reserved k" "\<not> above_reserved k"
  using assms by (auto simp: is_reserved_def below_reserved_def above_reserved_def list_ex_iff)

lemma not_below_prefix: "\<not> below_reserved p \<Longrightarrow> prefix (segs q) (segs p) \<Longrightarrow> \<not> below_reserved q"
  by (auto simp: below_reserved_def list_ex_iff has_path_prefix_iff intro: prefix_order.trans)

lemma root_reserved: "is_reserved ''/''"
  by (simp add: is_reserved_def pv_get_reserved_paths_def has_path_prefix_iff)

text \<open>Every prefix that the loop looks at may be exported as a link.\<close>

lemma prefix_export_ok:
  assumes "list_all canonical_seg xs" "root \<in> {''/'', ''//''}" "\<not> is_reserved (root @ join_segs xs)"
    "root @ join_segs xs = q @ s" "s = [] \<or> (\<exists>b. s = CHR ''/'' # b)" "q \<noteq> []"
  shows "export_ok q FAKE_MODE_SYMLINK" "prefix (segs q) (segs (root @ join_segs xs))"
proof -
  obtain r n where r: "r \<in> {''/'', ''//''}" and n: "q = r @ join_segs (take n xs)"
    using rooted_prefix [OF assms(1,2,4,5,6)] by blast
  have ok: "list_all canonical_seg (take n xs)" using assms(1) by (auto simp: list_all_iff dest: in_set_takeD)
  show p: "prefix (segs q) (segs (root @ join_segs xs))"
    unfolding n segs_rooted [OF ok r] segs_rooted [OF assms(1,2)] by (rule take_is_prefix)
  have "\<not> below_reserved q" using p not_below_prefix not_reserved(1) [OF assms(3)] by blast
  moreover have "canonical_name q" unfolding n by (rule canonical_name_rooted [OF ok r])
  ultimately show "export_ok q FAKE_MODE_SYMLINK" by (simp add: export_ok_def is_export_mode_def)
qed

section \<open>The table after exporting a path\<close>

definition expose_good :: "exports \<Rightarrow> exports \<times> (gerror + unit) \<Rightarrow> bool" where
  "expose_good ex r = ((exports_ok ex \<longrightarrow> exports_ok (fst r)) \<and> exports_grow ex (fst r) \<and>
     (\<forall>e. snd r = Inl e \<longrightarrow> fst r = ex))"

lemma expose_good_fail [simp]: "expose_good ex (ex, Inl e)"
  by (simp add: expose_good_def)

lemma expose_good_same: "expose_good ex (ex, Inr ())"
  by (simp add: expose_good_def)

lemma expose_good_export:
  assumes "expose_good ex (ex', Inr ())" "export_ok p m"
  shows "expose_good ex (do_export_path ex' p m, Inr ())"
  using assms do_export_path_ok [OF _ assms(2), of ex'] exports_grow_trans [OF _ do_export_path_grow]
  by (auto simp: expose_good_def)

text \<open>What a success means: the path is in the table with at least the mode that was asked for, or a link on the way to it is.\<close>

definition covers :: "exports \<Rightarrow> string \<Rightarrow> int \<Rightarrow> bool" where
  "covers ex canonical mode = (\<exists>k m. map_of (ex_hash ex) k = Some m \<and>
     (k = canonical \<and> mode \<le> m \<or> FAKE_MODE_SYMLINK \<le> m \<and> prefix (segs k) (segs canonical)))"

definition exposed :: "string \<Rightarrow> int \<Rightarrow> exports \<Rightarrow> exports \<times> (gerror + unit) \<Rightarrow> bool" where
  "exposed canonical mode ex r = (expose_good ex r \<and> (snd r = Inr () \<longrightarrow> covers (fst r) canonical mode))"

lemma exposed_fail [simp]: "exposed canonical mode ex (ex, Inl e)"
  by (simp add: exposed_def)

lemma exposed_good: "exposed canonical mode ex r \<Longrightarrow> expose_good ex r"
  by (simp add: exposed_def)

lemma covers_self: "is_export_mode mode \<Longrightarrow> covers (do_export_path ex p mode) p mode"
  unfolding covers_def by (intro exI [of _ p]) (auto simp: do_export_path_map split: option.split)

lemma covers_link:
  assumes "prefix (segs k) (segs p)"
  shows "covers (do_export_path ex k FAKE_MODE_SYMLINK) p mode"
proof -
  have "is_export_mode FAKE_MODE_SYMLINK" by (simp add: is_export_mode_def)
  then show ?thesis unfolding covers_def using assms
    by (intro exI [of _ k]) (auto simp: do_export_path_map split: option.split)
qed

lemma hoare_prod: "(\<And>x y. r = (x, y) \<Longrightarrow> hoare P (f x y) Q) \<Longrightarrow> hoare P (case r of (x, y) \<Rightarrow> f x y) Q"
  by (cases r) auto

lemma hoare_any: "hoare P m (\<lambda>_ _. True)"
  by (simp add: hoare_def split: prod.split)

definition links_good :: "string \<Rightarrow> int \<Rightarrow> exports \<Rightarrow> exports \<times> (gerror + unit) option \<Rightarrow> bool" where
  "links_good p mode ex r = (case snd r of None \<Rightarrow> fst r = ex
     | Some e \<Rightarrow> exposed p mode ex (fst r, e))"

lemma expose_links_good:
  assumes rec: "\<And>t ex'. hoare (\<lambda>_. True) (expose t ex') (\<lambda>r _. expose_good ex' r)"
    and xs: "list_all canonical_seg xs" "root \<in> {''/'', ''//''}" "\<not> is_reserved (root @ join_segs xs)"
  shows "root @ join_segs xs = p @ rest \<Longrightarrow> p \<noteq> [] \<Longrightarrow>
    hoare (\<lambda>_. True) (expose_links G K expose ex p rest) (\<lambda>r _. links_good (root @ join_segs xs) mode ex r)"
proof (induction "length rest" arbitrary: p rest rule: less_induct)
  case less
  obtain path slash where ps: "(case strchr rest CHR ''/'' of None \<Rightarrow> (p @ rest, None) | Some (a, b) \<Rightarrow> (p @ a, Some b)) = (path, slash)"
    by fastforce
  have split: "root @ join_segs xs = path @ (case slash of None \<Rightarrow> [] | Some b \<Rightarrow> CHR ''/'' # b)" "path \<noteq> []"
    using ps less.prems by (auto simp: strchr_Some_iff split: option.splits)
  have exp: "export_ok path FAKE_MODE_SYMLINK" and pre: "prefix (segs path) (segs (root @ join_segs xs))"
    by (rule prefix_export_ok [OF xs split(1) _ split(2)], cases slash, auto)+
  have next_link: "hoare (\<lambda>_. True) (expose_links G K expose ex (path @ ''/'') b) (\<lambda>r _. links_good (root @ join_segs xs) mode ex r)" if "slash = Some b" for b
  proof (rule less.hyps)
    show "length b < length rest" using that ps by (auto simp: strchr_Some_iff split: option.splits)
  qed (use that split in auto)
  have target: "hoare (\<lambda>_. True) (do { (ex', e) \<leftarrow> expose t ex; State_Monad.return (case e of
        Inr _ \<Rightarrow> (do_export_path ex' path FAKE_MODE_SYMLINK, Some (Inr ())) | Inl err \<Rightarrow> (ex', Some (Inl err))) })
      (\<lambda>r _. links_good (root @ join_segs xs) mode ex r)" for t
  proof (rule hoare_bind [OF rec], rule hoare_prod, rule hoare_return)
    fix r ex' e s
    assume "expose_good ex r" "r = (ex', e)"
    then show "links_good (root @ join_segs xs) mode ex (case e of Inr _ \<Rightarrow> (do_export_path ex' path FAKE_MODE_SYMLINK, Some (Inr ())) | Inl err \<Rightarrow> (ex', Some (Inl err)))"
      using expose_good_export [OF _ exp] covers_link [OF pre] by (auto simp: links_good_def exposed_def split: sum.split)
  qed
  have found: "hoare (\<lambda>_. True) (case r of
        Inl _ \<Rightarrow> State_Monad.return (ex, Some (Inl (G_IO_ERROR IO_NOT_FOUND)))
      | Inr resolved \<Rightarrow> (let new_target = (case slash of Some b \<Rightarrow> g_build_filename G [resolved, b] | None \<Rightarrow> resolved) in do {
            (ex', e) \<leftarrow> expose new_target ex;
            State_Monad.return (case e of
                Inr _ \<Rightarrow> (do_export_path ex' path FAKE_MODE_SYMLINK, Some (Inr ()))
              | Inl err \<Rightarrow> (ex', Some (Inl err))) })) (\<lambda>r _. links_good (root @ join_segs xs) mode ex r)" for r
    unfolding Let_def by (rule hoare_sum, rule hoare_return, simp add: links_good_def, rule target)
  show ?case
    unfolding expose_links.simps [of G K expose ex p rest] ps Let_def prod.case
    by (rule hoare_bind [OF hoare_any], rule hoare_if, rule hoare_option, rule hoare_return, simp add: links_good_def,
        rule next_link, assumption, rule hoare_bind [OF hoare_any], rule found [unfolded Let_def])
qed

lemma canonical_parts:
  assumes "canonicalizer (g_file_path G)" "g_path_is_absolute path"
  obtains root xs where "list_all canonical_seg xs" "root \<in> {''/'', ''//''}" "flatpak_canonicalize_filename G path = root @ join_segs xs"
proof -
  have "absolute path" using assms(2) by (simp add: absolute_def g_path_is_absolute_def)
  then obtain xs where "list_all canonical_seg xs" "flatpak_canonicalize_filename G path = canonical_root path @ join_segs xs"
    using canonicalizer.canon_form [OF assms(1)] by (metis flatpak_canonicalize_filename_def)
  then show ?thesis using that [of xs "canonical_root path"] by (simp add: canonical_root_def)
qed

lemma exports_path_expose_good:
  assumes "canonicalizer (g_file_path G)"
  shows "hoare (\<lambda>_. True) (exports_path_expose G H left mode path ex)
    (\<lambda>r _. exposed (flatpak_canonicalize_filename G path) mode ex r)"
proof (induction left arbitrary: path ex)
  case 0
  show ?case by (simp add: hoare_return)
next
  case (Suc left)
  let ?canonical = "flatpak_canonicalize_filename G path"
  have inner: "hoare (\<lambda>_. True)
      (do { (ex', ret) \<leftarrow> expose_links G (kern H) (exports_path_expose G H left mode) ex (take 1 ?canonical) (drop 1 ?canonical);
            State_Monad.return (case ret of Some e \<Rightarrow> (ex', e) | None \<Rightarrow> (do_export_path ex' ?canonical mode, Inr ())) })
      (\<lambda>r _. exposed ?canonical mode ex r)"
    if res: "\<not> is_reserved ?canonical" and m: "is_export_mode mode" and a: "g_path_is_absolute path"
  proof -
    obtain root xs where xs: "list_all canonical_seg xs" "root \<in> {''/'', ''//''}" "?canonical = root @ join_segs xs"
      using canonical_parts [OF assms a] by blast
    have "canonical_name ?canonical" unfolding xs(3) by (rule canonical_name_rooted [OF xs(1,2)])
    then have ok: "export_ok ?canonical mode" using m not_reserved [OF res] by (simp add: export_ok_def)
    have l: "hoare (\<lambda>_. True) (expose_links G (kern H) (exports_path_expose G H left mode) ex (take 1 ?canonical) (drop 1 ?canonical))
        (\<lambda>r _. links_good (root @ join_segs xs) mode ex r)"
      by (rule expose_links_good [OF hoare_weaken [OF Suc.IH _ exposed_good] xs(1,2)]) (use res xs(2,3) in auto)
    show ?thesis
    proof (rule hoare_bind [OF l], rule hoare_prod, rule hoare_return)
      fix r ex' ret s
      assume "links_good (root @ join_segs xs) mode ex r" "r = (ex', ret)"
      then show "exposed ?canonical mode ex (case ret of Some e \<Rightarrow> (ex', e) | None \<Rightarrow> (do_export_path ex' ?canonical mode, Inr ()))"
        using expose_good_export [OF expose_good_same ok] covers_self [OF m]
        by (auto simp: links_good_def exposed_def xs(3) split: option.splits)
    qed
  qed
  have checked: "hoare (\<lambda>_. True) (do { r \<leftarrow> (case c of
          Inl e \<Rightarrow> State_Monad.return (ex, Inl e)
        | Inr _ \<Rightarrow> (let canonical = ?canonical in
            if is_reserved canonical then State_Monad.return (ex, Inl (G_IO_ERROR IO_NOT_MOUNTABLE_FILE))
            else do { (ex', ret) \<leftarrow> expose_links G (kern H) (exports_path_expose G H left mode) ex (take 1 canonical) (drop 1 canonical);
              State_Monad.return (case ret of Some e \<Rightarrow> (ex', e) | None \<Rightarrow> (do_export_path ex' canonical mode, Inr ())) }));
        glnx_close_fd (kern H) fd; State_Monad.return r }) (\<lambda>r _. exposed ?canonical mode ex r)"
    if "is_export_mode mode" "g_path_is_absolute path" for c fd
  proof (rule hoare_bind [where R = "\<lambda>r _. exposed ?canonical mode ex r"])
    show "hoare (\<lambda>_. True) (case c of
          Inl e \<Rightarrow> State_Monad.return (ex, Inl e)
        | Inr _ \<Rightarrow> (let canonical = ?canonical in
            if is_reserved canonical then State_Monad.return (ex, Inl (G_IO_ERROR IO_NOT_MOUNTABLE_FILE))
            else do { (ex', ret) \<leftarrow> expose_links G (kern H) (exports_path_expose G H left mode) ex (take 1 canonical) (drop 1 canonical);
              State_Monad.return (case ret of Some e \<Rightarrow> (ex', e) | None \<Rightarrow> (do_export_path ex' canonical mode, Inr ())) }))
        (\<lambda>r _. exposed ?canonical mode ex r)"
      unfolding Let_def using that
      by (intro hoare_sum hoare_if inner) (auto intro: hoare_return)
  next
    fix r
    show "hoare (\<lambda>_. exposed ?canonical mode ex r) (do { glnx_close_fd (kern H) fd; State_Monad.return r }) (\<lambda>r _. exposed ?canonical mode ex r)"
      by (rule hoare_bind [where R = "\<lambda>_ _. exposed ?canonical mode ex r"]) (auto intro: hoare_return hoare_anyI simp: hoare_def split: prod.split)
  qed
  show ?case
    unfolding exports_path_expose.simps
    by (intro hoare_if, rule hoare_return, simp, rule hoare_return, simp, rule hoare_bind [OF hoare_any],
        rule hoare_sum, rule hoare_return, simp, rule hoare_bind [OF hoare_any], rule checked) auto
qed

text \<open>The modes that an operation may give to a path.\<close>

definition new_modes :: "int set \<Rightarrow> exports \<Rightarrow> exports \<Rightarrow> bool" where
  "new_modes S ex ex' = (\<forall>k m. map_of (ex_hash ex') k = Some m \<longrightarrow> map_of (ex_hash ex) k = Some m \<or> m \<in> S)"

lemma new_modes_refl [simp]: "new_modes S ex ex"
  by (simp add: new_modes_def)

lemma new_modes_trans: "new_modes S a b \<Longrightarrow> new_modes S b c \<Longrightarrow> new_modes S a c"
  unfolding new_modes_def by blast

lemma new_modes_mono: "new_modes S a b \<Longrightarrow> S \<subseteq> T \<Longrightarrow> new_modes T a b"
  unfolding new_modes_def by blast

lemma new_modes_export: "new_modes S ex ex' \<Longrightarrow> m \<in> S \<Longrightarrow> new_modes S ex (do_export_path ex' p m)"
proof (cases "is_export_mode m")
  case True
  then show "new_modes S ex ex' \<Longrightarrow> m \<in> S \<Longrightarrow> ?thesis"
    by (auto simp: new_modes_def do_export_path_map max_def split: if_splits option.splits)
qed (simp add: do_export_path_def)

lemma expose_links_modes:
  assumes rec: "\<And>t ex'. hoare (\<lambda>_. True) (expose t ex') (\<lambda>r _. new_modes S ex' (fst r))" and S: "FAKE_MODE_SYMLINK \<in> S"
  shows "hoare (\<lambda>_. True) (expose_links G K expose ex p rest) (\<lambda>r _. new_modes S ex (fst r))"
proof (induction "length rest" arbitrary: p rest rule: less_induct)
  case less
  obtain path slash where ps: "(case strchr rest CHR ''/'' of None \<Rightarrow> (p @ rest, None) | Some (a, b) \<Rightarrow> (p @ a, Some b)) = (path, slash)"
    by fastforce
  have next_link: "hoare (\<lambda>_. True) (expose_links G K expose ex (path @ ''/'') b) (\<lambda>r _. new_modes S ex (fst r))" if "slash = Some b" for b
  proof (rule less.hyps)
    show "length b < length rest" using that ps by (auto simp: strchr_Some_iff split: option.splits)
  qed
  have target: "hoare (\<lambda>_. True) (do { (ex', e) \<leftarrow> expose t ex; State_Monad.return (case e of
        Inr _ \<Rightarrow> (do_export_path ex' path FAKE_MODE_SYMLINK, Some (Inr ())) | Inl err \<Rightarrow> (ex', Some (Inl err))) })
      (\<lambda>r _. new_modes S ex (fst r))" for t
    by (rule hoare_bind [OF rec], rule hoare_prod, rule hoare_return) (auto intro: new_modes_export S split: sum.split)
  show ?case
    unfolding expose_links.simps [of G K expose ex p rest] ps Let_def prod.case
    by (intro hoare_bind [OF hoare_any] hoare_if hoare_option hoare_sum next_link target) (auto intro: hoare_return)
qed

lemma exports_path_expose_modes:
  "hoare (\<lambda>_. True) (exports_path_expose G H left mode path ex) (\<lambda>r _. new_modes {mode, FAKE_MODE_SYMLINK} ex (fst r))"
proof (induction left arbitrary: path ex)
  case 0
  show ?case by (simp add: hoare_return)
next
  case (Suc left)
  have links: "hoare (\<lambda>_. True) (expose_links G K (exports_path_expose G H left mode) ex p rest)
      (\<lambda>r _. new_modes {mode, FAKE_MODE_SYMLINK} ex (fst r))" for K p rest
    by (rule expose_links_modes [OF Suc.IH]) simp
  have closing: "hoare (\<lambda>_. new_modes S ex (fst r)) (do { glnx_close_fd K fd; State_Monad.return r }) (\<lambda>r _. new_modes S ex (fst r))"
    for S K fd and r :: "exports \<times> (gerror + unit)"
    by (rule hoare_bind [where R = "\<lambda>_ _. new_modes S ex (fst r)"]) (auto intro: hoare_return simp: hoare_def split: prod.split)
  have inner: "hoare (\<lambda>_. True) (do { (ex', ret) \<leftarrow> expose_links G K (exports_path_expose G H left mode) ex p rest;
        State_Monad.return (case ret of Some e \<Rightarrow> (ex', e) | None \<Rightarrow> (do_export_path ex' canonical mode, Inr ())) })
      (\<lambda>r _. new_modes {mode, FAKE_MODE_SYMLINK} ex (fst r))" for K p rest canonical
    by (rule hoare_bind [OF links], rule hoare_prod, rule hoare_return) (auto intro: new_modes_export split: option.split)
  show ?case
    unfolding exports_path_expose.simps Let_def
    by (intro hoare_if, rule hoare_return, simp, rule hoare_return, simp, rule hoare_bind [OF hoare_any],
        rule hoare_sum, rule hoare_return, simp, rule hoare_bind [OF hoare_any], rule hoare_bind [OF _ closing],
        intro hoare_sum hoare_if inner) (auto intro: hoare_return)
qed

lemma exports_ok_new: "exports_ok flatpak_exports_new"
  by (simp add: exports_ok_def flatpak_exports_new_def ht_valid_def)

text \<open>C6: Exporting, hiding or creating a path keeps the table well-formed, whatever the host looks
  like: every key is canonical and has a valid mode (so the assertions in the code cannot fail),
  nothing at or below a path that the container framework reserves is exported, and nothing above
  one except as a symbolic link on the way to an exported path (which the comment on \<open>pv_get_reserved_paths\<close> rules
  out). The modes of paths that were exported already only grow, and only to the mode that was
  asked for or that of a link; after a success the path is in the table with at least the
  mode that was asked for, or a link on the way to it is; and a failure changes nothing at all.\<close>

theorem flatpak_exports_add_path_safe:
  assumes "canonicalizer (g_file_path G)"
    and "(act, m) \<in> {(flatpak_exports_add_path_expose_or_hide G H mode path ex, mode), (flatpak_exports_add_path_dir G H path ex, FAKE_MODE_DIR)}"
    and "run_state act w = ((ex', r), w')" and "exports_ok ex"
  shows "exports_ok ex' \<and> (r \<noteq> Inr () \<longrightarrow> ex' = ex) \<and> (r = Inr () \<longrightarrow> covers ex' (flatpak_canonicalize_filename G path) m) \<and>
    (\<forall>k n. map_of (ex_hash ex') k = Some n \<longrightarrow> map_of (ex_hash ex) k = Some n \<or> n \<in> {m, FAKE_MODE_SYMLINK}) \<and>
    (\<forall>k m. map_of (ex_hash ex) k = Some m \<longrightarrow> (\<exists>m'. map_of (ex_hash ex') k = Some m' \<and> m \<le> m'))"
proof -
  let ?good = "exposed (flatpak_canonicalize_filename G path) m ex"
  have "hoare (\<lambda>_. True) (State_Monad.return (ex, Inl PRECONDITION_FAILED)) (\<lambda>r _. ?good r)"
    by (simp add: hoare_return)
  then have "hoare (\<lambda>_. True) act (\<lambda>r _. ?good r)"
    using assms(2) exports_path_expose_good [OF assms(1), of H]
    by (auto simp: flatpak_exports_add_path_expose_or_hide_def flatpak_exports_add_path_expose_def
        flatpak_exports_add_path_tmpfs_def flatpak_exports_add_path_dir_def FAKE_MODE_TMPFS_def)
  from hoareD [OF this TrueI assms(3)] have good: "?good (ex', r)" .
  have "hoare (\<lambda>_. True) (State_Monad.return (ex, Inl PRECONDITION_FAILED)) (\<lambda>r _. new_modes {m, FAKE_MODE_SYMLINK} ex (fst r))"
    by (simp add: hoare_return)
  then have "hoare (\<lambda>_. True) act (\<lambda>r _. new_modes {m, FAKE_MODE_SYMLINK} ex (fst r))"
    using assms(2) exports_path_expose_modes [of G H]
    by (auto simp: flatpak_exports_add_path_expose_or_hide_def flatpak_exports_add_path_expose_def
        flatpak_exports_add_path_tmpfs_def flatpak_exports_add_path_dir_def FAKE_MODE_TMPFS_def)
  from hoareD [OF this TrueI assms(3)] have modes: "new_modes {m, FAKE_MODE_SYMLINK} ex ex'" by simp
  show ?thesis using assms(4) good modes by (cases r) (auto simp: exposed_def expose_good_def exports_grow_def new_modes_def)
qed

text \<open>A host whose paths can be opened, with nothing automounted.\<close>

definition path_host :: "(string \<times> node) list \<Rightarrow> mem_world host" where
  "path_host t = \<lparr> kern = (path_kernel t)\<lparr>
       sys_openat := (\<lambda>fd p fl. State (\<lambda>w. (if map_of t p = None then Inl ENOENT else Inr 9, w))),
       sys_fstatat := (\<lambda>fd p fl. State (\<lambda>w. (case map_of (([], Dir) # t) p of None \<Rightarrow> Inl ENOENT
          | Some n \<Rightarrow> Inr \<lparr> st_dev = 1, st_ino = 1, st_mode = mem_mode n, st_size = 0 \<rparr>, w))) \<rparr>,
     h_memfd = (\<lambda>s. State (Pair (Inr 9))), h_pipe2 = State (Pair (Inr (9, 10))), h_lseek_start = (\<lambda>fd. State (Pair ())),
     h_set_inherit = (\<lambda>fd. State (Pair ())), h_fdwalk_set_cloexec = (\<lambda>fd. State (Pair ())),
     h_fstatfs_autofs = (\<lambda>fd. State (Pair (Inr False))), 
     h_set_nonblock = (\<lambda>fd. State (Pair ())), h_fork = (\<lambda>c. State (Pair (Inr 77))), h_select_read = (\<lambda>fd t. State (Pair 1)),
     h_sigkill = (\<lambda>pid. State (Pair ())), h_waitpid = (\<lambda>pid. State (Pair (int pid, Some 0))),
     h_readdir = (\<lambda>fd. State (Pair (Inr []))), h_unlinkat = (\<lambda>fd p. State (Pair (Inl EPERM))), h_getuid = 1000, h_environ = [], h_home_dir = None, g_path_get_basename = glnx_basename \<rparr>"

definition demo_tree :: "(string \<times> node) list" where
  "demo_tree = [(''/srv'', Lnk ''data''), (''/srv/x'', Dir), (''/data'', Dir), (''/data/x'', Dir),
     (''/var'', Lnk ''/data''), (''/var/x'', Dir), (''/l'', Lnk ''/l'')]"

theorem flatpak_exports_add_path_safe_witness:
  "\<exists>ex' w'. run_state (flatpak_exports_add_path_expose_or_hide glib_ref (path_host demo_tree) 2 ''/srv/x'' flatpak_exports_new) demo_world
     = ((ex', Inr ()), w') \<and> ex_hash ex' = [(''/data/x'', 2), (''/srv'', FAKE_MODE_SYMLINK)] \<and> exports_ok ex'"
proof -
  let ?ex = "flatpak_exports_new\<lparr> ex_hash := [(''/data/x'', 2), (''/srv'', FAKE_MODE_SYMLINK)] \<rparr>"
  let ?m = "flatpak_exports_add_path_expose_or_hide glib_ref (path_host demo_tree) 2 ''/srv/x'' flatpak_exports_new"
  have r: "run_state ?m demo_world = ((?ex, Inr ()), snd (run_state ?m demo_world))" by code_simp
  from flatpak_exports_add_path_safe [OF canonicalizer_ref insertI1 this exports_ok_new]
  have "exports_ok ?ex" by blast
  then show ?thesis using r by (intro exI [of _ ?ex] exI [of _ "snd (run_state ?m demo_world)"]) simp
qed

text \<open>A link above a reserved path is exported all the same: \<open>/var\<close> has to be a directory of the
  container, with \<open>/var/cache/ldconfig\<close> and others in it.\<close>

theorem flatpak_exports_symlink_above_reserved:
  "fst (run_state (flatpak_exports_add_path_expose_or_hide glib_ref (path_host demo_tree) 2 ''/var/x'' flatpak_exports_new) demo_world)
     = (flatpak_exports_new\<lparr> ex_hash := [(''/data/x'', 2), (''/var'', FAKE_MODE_SYMLINK)] \<rparr>, Inr ()) \<and> above_reserved ''/var''"
  by (intro conjI) code_simp+

section \<open>What is asked of the host\<close>

text \<open>The host with a log of the calls to its kernel.\<close>

definition lift_log :: "('w, 'a) state \<Rightarrow> ('w \<times> call list, 'a) state" where
  "lift_log m = State (\<lambda>(w, l). case run_state m w of (r, w') \<Rightarrow> (r, (w', l)))"

definition logged_host :: "'w host \<Rightarrow> ('w \<times> call list) host" where
  "logged_host H = \<lparr> kern = logged (kern H), h_memfd = (\<lambda>s. lift_log (h_memfd H s)), h_pipe2 = log_call (h_pipe2 H) C_pipe2,
     h_lseek_start = (\<lambda>fd. lift_log (h_lseek_start H fd)), h_set_inherit = (\<lambda>fd. lift_log (h_set_inherit H fd)),
     h_fdwalk_set_cloexec = (\<lambda>fd. lift_log (h_fdwalk_set_cloexec H fd)), h_fstatfs_autofs = (\<lambda>fd. lift_log (h_fstatfs_autofs H fd)),
     h_set_nonblock = (\<lambda>fd. log_call (h_set_nonblock H fd) (\<lambda>_. C_set_nonblock fd)),
     h_fork = (\<lambda>c. log_call (h_fork H c) (C_fork c)),
     h_select_read = (\<lambda>fd t. log_call (h_select_read H fd t) (C_select_read fd t)),
     h_sigkill = (\<lambda>pid. log_call (h_sigkill H pid) (\<lambda>_. C_sigkill pid)),
     h_waitpid = (\<lambda>pid. log_call (h_waitpid H pid) (\<lambda>r. C_waitpid pid (fst r))),
     h_readdir = (\<lambda>fd. lift_log (h_readdir H fd)), h_unlinkat = (\<lambda>fd p. lift_log (h_unlinkat H fd p)),
     h_getuid = h_getuid H, h_environ = h_environ H, h_home_dir = h_home_dir H,
     g_path_get_basename = g_path_get_basename H \<rparr>"

text \<open>Nothing is opened but as a mere reference, which neither blocks nor mounts anything. Only a child may open an automount
  point, and the time that is spent on waiting for it is limited.\<close>

fun child_call :: "child_step \<Rightarrow> bool" where
  "child_call (Child_close fd) = True"
| "child_call (Child_exit_after_open fd p fl) = (fl = {O_CLOEXEC, O_RDONLY, O_NONBLOCK, O_DIRECTORY})"

fun expose_call :: "call \<Rightarrow> bool" where
  "expose_call (C_openat fd p fl r) = (fl = {O_PATH, O_NOFOLLOW, O_CLOEXEC})"
| "expose_call (C_fstatat fd p r) = True"
| "expose_call (C_readlinkat fd p r) = True"
| "expose_call (C_close fd) = True"
| "expose_call (C_pipe2 r) = True"
| "expose_call (C_set_nonblock fd) = True"
| "expose_call (C_fork c r) = list_all child_call c"
| "expose_call (C_select_read fd t r) = (t = 200000)"
| "expose_call (C_sigkill pid) = True"
| "expose_call (C_waitpid pid r) = True"
| "expose_call c = False"

fun is_openat :: "call \<Rightarrow> bool" where
  "is_openat (C_openat fd p fl r) = True"
| "is_openat c = False"

text \<open>Children started, and children waited for; a child is only killed to wait for it next.\<close>

fun forked :: "call list \<Rightarrow> nat list" where
  "forked [] = []"
| "forked (C_fork c (Inr pid) # l) = pid # forked l"
| "forked (_ # l) = forked l"

fun waited :: "call list \<Rightarrow> nat list" where
  "waited [] = []"
| "waited (C_waitpid pid r # l) = pid # waited l"
| "waited (_ # l) = waited l"

fun killed_before_wait :: "call list \<Rightarrow> bool" where
  "killed_before_wait [] = True"
| "killed_before_wait (C_sigkill pid # l) = ((\<exists>r l'. l = C_waitpid pid r # l') \<and> killed_before_wait l)"
| "killed_before_wait (_ # l) = killed_before_wait l"

lemma forked_append: "forked (l @ m) = forked l @ forked m"
  by (induction l rule: forked.induct) auto

lemma waited_append: "waited (l @ m) = waited l @ waited m"
  by (induction l rule: waited.induct) auto

lemma killed_append: "killed_before_wait l \<Longrightarrow> killed_before_wait m \<Longrightarrow> killed_before_wait (l @ m)"
  by (induction l rule: killed_before_wait.induct) auto

definition expose_inv :: "fd multiset \<Rightarrow> nat \<Rightarrow> 'w \<times> call list \<Rightarrow> bool" where
  "expose_inv F n s = (list_all expose_call (snd s) \<and> opened (snd s) = closed (snd s) + F \<and>
     length (filter is_openat (snd s)) \<le> n \<and> (\<forall>f \<in># F. 0 \<le> f) \<and> forked (snd s) = waited (snd s) \<and> killed_before_wait (snd s))"

text \<open>Calls that belong together.\<close>

lemma expose_inv_append:
  assumes "expose_inv F n (w, l)" "list_all expose_call m" "opened m + G = closed m + H" "F = F0 + G" "\<forall>f \<in># H. 0 \<le> f"
    "length (filter is_openat m) \<le> k" "forked m = waited m" "killed_before_wait m"
  shows "expose_inv (F0 + H) (n + k) (w', l @ m)"
proof -
  have "opened l + opened m = closed l + closed m + (F0 + H)"
    using assms(1,3,4) by (simp add: expose_inv_def) (metis (no_types, lifting) add.assoc add.commute)
  then show ?thesis using assms by (auto simp: expose_inv_def forked_append waited_append killed_append)
qed

lemma expose_inv_quiet:
  "expose_inv F n (w, l) \<Longrightarrow> list_all expose_call m \<Longrightarrow> opened m = closed m \<Longrightarrow> filter is_openat m = [] \<Longrightarrow>
   forked m = waited m \<Longrightarrow> killed_before_wait m \<Longrightarrow> expose_inv F n (w', l @ m)"
  using expose_inv_append [where F = F and n = n and w = w and l = l and G = "{#}" and H = "{#}" and k = 0 and m = m and ?F0.0 = F] by simp

lemma expose_inv_mono: "expose_inv F n s \<Longrightarrow> n \<le> m \<Longrightarrow> expose_inv F m s"
  by (auto simp: expose_inv_def)

lemma hoare_lift_log: "hoare (expose_inv F n) (lift_log m) (\<lambda>_. expose_inv F n)"
  by (auto simp: hoare_def lift_log_def expose_inv_def split: prod.splits)

lemma hoare_quiet:
  assumes "\<And>r. list_all expose_call [c r] \<and> opened [c r] = closed [c r] \<and> filter is_openat [c r] = [] \<and> forked [c r] = waited [c r] \<and> killed_before_wait [c r]"
  shows "hoare (expose_inv F n) (log_call m c) (\<lambda>_. expose_inv F n)"
  by (rule hoare_log_call, rule expose_inv_quiet) (use assms in \<open>blast+\<close>)

lemma quiet_calls:
  "hoare (expose_inv F n) (sys_fstatat (logged K) fd p fl) (\<lambda>_. expose_inv F n)"
  "hoare (expose_inv F n) (sys_readlinkat (logged K) fd p) (\<lambda>_. expose_inv F n)"
  by (simp_all add: logged_def hoare_quiet)

lemma stat_quiet: "hoare (expose_inv F n) (flatpak_exports_stat_in_host (logged K) ex p fl) (\<lambda>_. expose_inv F n)"
  unfolding flatpak_exports_stat_in_host_def glnx_fstatat_def
  by (intro hoare_if hoare_bind [OF quiet_calls(1)] hoare_return)

lemma symlink_quiet: "hoare (expose_inv F n) (path_is_symlink (logged K) ex p) (\<lambda>_. expose_inv F n)"
  unfolding path_is_symlink_def by (intro hoare_bind [OF stat_quiet] hoare_return)

lemma resolve_quiet: "hoare (expose_inv F n) (flatpak_exports_resolve_link_in_host G (logged K) ex p) (\<lambda>_. expose_inv F n)"
proof -
  have "hoare (expose_inv F n) (flatpak_resolve_link G (logged K) q) (\<lambda>_. expose_inv F n)" for q
    unfolding flatpak_resolve_link_def flatpak_readlink_def glnx_readlinkat_malloc_def
    by (intro hoare_bind [where R = "\<lambda>_. expose_inv F n"] quiet_calls hoare_return)
  then show ?thesis
    unfolding flatpak_exports_resolve_link_in_host_def Let_def
    by (intro hoare_if hoare_bind [where R = "\<lambda>_. expose_inv F n"] hoare_return)
qed

text \<open>The probe of an automount point leaves no descriptor and no child behind.\<close>

lemma probe_run:
  "\<exists>r w' m. run_state (check_if_autofs_works (logged_host H) ex p) (w, l) = (r, (w', l @ m)) \<and> list_all expose_call m \<and>
     opened m = closed m \<and> filter is_openat m = [] \<and> forked m = waited m \<and> killed_before_wait m"
proof (cases "g_path_is_absolute p")
  case False
  then show ?thesis by (intro exI [of _ False] exI [of _ w] exI [of _ "[]"]) (simp add: check_if_autofs_works_def)
next
  case True
  obtain r w1 where pipe: "run_state (h_pipe2 H) w = (r, w1)" by fastforce
  show ?thesis
  proof (cases r)
    case (Inl e)
    then show ?thesis using True pipe
      by (intro exI [of _ False] exI [of _ w1] exI [of _ "[C_pipe2 r]"])
        (simp add: check_if_autofs_works_def logged_host_def log_call_def run_state_bind)
  next
    case (Inr q)
    obtain rd wr where q: "q = (rd, wr)" by (cases q)
    obtain w2 where s1: "run_state (h_set_nonblock H (int rd)) w1 = ((), w2)" by (metis old.unit.exhaust surj_pair)
    obtain w3 where s2: "run_state (h_set_nonblock H (int wr)) w2 = ((), w3)" by (metis old.unit.exhaust surj_pair)
    obtain f w4 where f: "run_state (h_fork H (autofs_child ex p (int rd))) w3 = (f, w4)" by fastforce
    have child: "list_all child_call (autofs_child ex p (int rd))" by (simp add: autofs_child_def)
    note defs = check_if_autofs_works_def wait_for_autofs_child_def logged_host_def logged_def log_call_def run_state_bind opened_def closed_def
    show ?thesis
    proof (cases f)
      case (Inl e)
      then show ?thesis using True pipe Inr q s1 s2 f child
        by (auto simp: defs split: prod.splits)
    next
      case (Inr pid)
      note run = True pipe \<open>r = Inr q\<close> q s1 s2 f Inr child
      obtain w5 where c1: "run_state (sys_close (kern H) (int wr)) w4 = ((), w5)" by (metis old.unit.exhaust surj_pair)
      obtain res w6 where sel: "run_state (h_select_read H (int rd) 200000) w5 = (res, w6)" by fastforce
      obtain w7 where c2: "run_state (sys_close (kern H) (int rd)) w6 = ((), w7)" by (metis old.unit.exhaust surj_pair)
      obtain w8 where k: "run_state (h_sigkill H pid) w7 = ((), w8)" by (metis old.unit.exhaust surj_pair)
      show ?thesis using run c1 sel c2 k by (auto simp: defs split: prod.splits)
    qed
  qed
qed

lemma checks_quiet: "hoare (expose_inv F n) (expose_checks (logged_host H) ex p fd) (\<lambda>_. expose_inv F n)" for H :: "'w host"
proof -
  have k: "kern (logged_host H) = logged (kern H)"
    "\<And>fd. h_fstatfs_autofs (logged_host H) fd = lift_log (h_fstatfs_autofs H fd)" by (simp_all add: logged_host_def)
  have p: "hoare (expose_inv F n) (check_if_autofs_works (logged_host H) ex p) (\<lambda>_. expose_inv F n)"
    unfolding hoare_def
  proof (intro allI impI)
    fix s :: "'w \<times> call list" assume "expose_inv F n s"
    moreover obtain w l where "s = (w, l)" by (cases s)
    ultimately show "case run_state (check_if_autofs_works (logged_host H) ex p) s of (r, s') \<Rightarrow> expose_inv F n s'"
      using probe_run [of H ex p w l] by (auto intro: expose_inv_quiet)
  qed
  show ?thesis unfolding expose_checks_def k
    by (intro hoare_bind [OF quiet_calls(1)] hoare_sum hoare_return hoare_if hoare_bind [OF hoare_lift_log] hoare_bind [OF p])
qed

lemma open_counts:
  "hoare (expose_inv F n) (flatpak_exports_open_in_host (logged K) ex p {O_PATH, O_NOFOLLOW})
    (\<lambda>r. case r of Inl _ \<Rightarrow> expose_inv F (Suc n) | Inr fd \<Rightarrow> expose_inv (F + {#fd#}) (Suc n))"
proof -
  have "hoare (expose_inv F n) (k_openat (logged K) d q (insert O_CLOEXEC {O_PATH, O_NOFOLLOW}))
    (\<lambda>r. case r of Inl _ \<Rightarrow> expose_inv F (Suc n) | Inr fd \<Rightarrow> expose_inv (F + {#fd#}) (Suc n))" for d q
    unfolding k_openat_def logged_def kernel.simps
  proof (rule hoare_wrap [where R = "\<lambda>r. case r of Inl _ \<Rightarrow> expose_inv F (Suc n) | Inr m \<Rightarrow> expose_inv (F + {#int m#}) (Suc n)"])
    show "hoare (expose_inv F n) (log_call (sys_openat K d q (insert O_CLOEXEC {O_PATH, O_NOFOLLOW})) (C_openat d q (insert O_CLOEXEC {O_PATH, O_NOFOLLOW})))
      (\<lambda>r. case r of Inl _ \<Rightarrow> expose_inv F (Suc n) | Inr m \<Rightarrow> expose_inv (F + {#int m#}) (Suc n))"
      by (rule hoare_log_call) (auto simp: expose_inv_def forked_append waited_append intro: killed_append split: sum.split)
  qed (auto split: sum.splits)
  then show ?thesis
    unfolding flatpak_exports_open_in_host_def flatpak_exports_open_in_host_async_signal_safe_def
    by (intro hoare_if hoare_return) (auto intro: expose_inv_mono)
qed

lemma close_counts: "hoare (expose_inv (F + {#fd#}) n) (glnx_close_fd (logged K) fd) (\<lambda>_. expose_inv F n)"
proof (cases "0 \<le> fd")
  case True
  then show ?thesis unfolding glnx_close_fd_def logged_def kernel.simps
    by (simp, intro hoare_log_call) (auto simp: expose_inv_def forked_append waited_append intro: killed_append)
next
  case False
  then show ?thesis by (intro hoare_false) (auto simp: expose_inv_def)
qed

lemma expose_links_log:
  assumes rec: "\<And>t ex n. hoare (expose_inv F n) (expose t ex) (\<lambda>_. expose_inv F (n + k))"
  shows "hoare (expose_inv F n) (expose_links G (logged K) expose ex p rest) (\<lambda>_. expose_inv F (n + k))"
proof (induction "length rest" arbitrary: p rest rule: less_induct)
  case less
  obtain path slash where ps: "(case strchr rest CHR ''/'' of None \<Rightarrow> (p @ rest, None) | Some (a, b) \<Rightarrow> (p @ a, Some b)) = (path, slash)"
    by fastforce
  have next_link: "hoare (expose_inv F n) (expose_links G (logged K) expose ex (path @ ''/'') b) (\<lambda>_. expose_inv F (n + k))" if "slash = Some b" for b
  proof (rule less.hyps)
    show "length b < length rest" using that ps by (auto simp: strchr_Some_iff split: option.splits)
  qed
  have weak: "hoare (expose_inv F n) (State_Monad.return x) (\<lambda>_. expose_inv F (n + k))" for x
    by (rule hoare_return) (auto intro: expose_inv_mono)
  show ?case
    unfolding expose_links.simps [of G "logged K" expose ex p rest] ps Let_def prod.case
    by (intro hoare_bind [OF symlink_quiet] hoare_if hoare_option weak next_link hoare_bind [OF resolve_quiet] hoare_sum
        hoare_bind [OF rec] hoare_prod hoare_return) (simp_all)
qed

lemma exports_path_expose_log:
  "hoare (expose_inv F n) (exports_path_expose G (logged_host H) left mode path ex) (\<lambda>_. expose_inv F (n + left))"
proof (induction left arbitrary: path ex F n)
  case 0
  show ?case by (simp add: hoare_return)
next
  case (Suc left)
  have weak: "hoare (expose_inv F n) (State_Monad.return x) (\<lambda>_. expose_inv F (n + Suc left))" for x F
    by (rule hoare_return) (auto intro: expose_inv_mono)
  have kern: "kern (logged_host H) = logged (kern H)" by (simp add: logged_host_def)
  have links: "hoare (expose_inv F' (Suc n)) (expose_links G (logged (kern H)) (exports_path_expose G (logged_host H) left mode) ex p rest)
      (\<lambda>_. expose_inv F' (n + Suc left))" for p rest F'
    using expose_links_log [OF Suc.IH, where n = "Suc n"] by simp
  have weak': "hoare (expose_inv F' (Suc n)) (State_Monad.return x) (\<lambda>_. expose_inv F' (n + Suc left))" for x F'
    by (rule hoare_return) (auto intro: expose_inv_mono)
  have body: "hoare (expose_inv (F + {#fd#}) (Suc n)) (do {
        c \<leftarrow> expose_checks (logged_host H) ex path fd;
        r \<leftarrow> (case c of
            Inl e \<Rightarrow> State_Monad.return (ex, Inl e)
          | Inr _ \<Rightarrow>
              if is_reserved canonical then State_Monad.return (ex, Inl (G_IO_ERROR IO_NOT_MOUNTABLE_FILE))
              else do {
                (ex', ret) \<leftarrow> expose_links G (logged (kern H)) (exports_path_expose G (logged_host H) left mode) ex
                  (take 1 canonical) (drop 1 canonical);
                State_Monad.return (case ret of Some e \<Rightarrow> (ex', e) | None \<Rightarrow> (do_export_path ex' canonical mode, Inr ())) });
        glnx_close_fd (logged (kern H)) fd;
        State_Monad.return r }) (\<lambda>_. expose_inv F (n + Suc left))" for fd canonical
    by (rule hoare_bind [OF checks_quiet], rule hoare_bind [where R = "\<lambda>_. expose_inv (F + {#fd#}) (n + Suc left)"],
        intro hoare_sum hoare_if weak' hoare_bind [OF links] hoare_prod, rule hoare_return, assumption,
        rule hoare_bind [OF close_counts], rule hoare_return)
  show ?case
    unfolding exports_path_expose.simps kern Let_def
    by (intro hoare_if weak, rule hoare_bind [OF open_counts], rule hoare_sum,
        simp_all only: sum.case, rule hoare_return, rule expose_inv_mono, assumption, simp, rule body)
qed



end
