(* ===== verification/PvUtils.thy ===== *)
theory PvUtils imports Host HashTable PathPrefix Qsort begin

text \<open>
  \<open>pressure-vessel/utils.c\<close>: workaround flags, search paths, unique file names, and the translation
  of paths in a Flatpak container to paths of the host.
\<close>

section \<open>Workarounds\<close>

text \<open>An \<open>enum\<close> of bits, an \<open>unsigned int\<close> of the C code.\<close>

definition PV_WORKAROUND_FLAGS_NONE :: "32 word" where "PV_WORKAROUND_FLAGS_NONE = 0"
definition PV_WORKAROUND_FLAGS_BWRAP_NO_PERMS :: "32 word" where "PV_WORKAROUND_FLAGS_BWRAP_NO_PERMS = 1"
definition PV_WORKAROUND_FLAGS_STEAMSNAP_356 :: "32 word" where "PV_WORKAROUND_FLAGS_STEAMSNAP_356 = 2"
definition PV_WORKAROUND_FLAGS_STEAMSNAP_369 :: "32 word" where "PV_WORKAROUND_FLAGS_STEAMSNAP_369 = 4"
definition PV_WORKAROUND_FLAGS_STEAMSNAP_370 :: "32 word" where "PV_WORKAROUND_FLAGS_STEAMSNAP_370 = 8"
definition PV_WORKAROUND_FLAGS_STEAMSNAP_359 :: "32 word" where "PV_WORKAROUND_FLAGS_STEAMSNAP_359 = 16"
definition PV_WORKAROUND_FLAGS_BWRAP_SETUID :: "32 word" where "PV_WORKAROUND_FLAGS_BWRAP_SETUID = 32"
definition PV_WORKAROUND_FLAGS_STEAMSNAP_397 :: "32 word" where "PV_WORKAROUND_FLAGS_STEAMSNAP_397 = 64"

definition PV_WORKAROUND_FLAGS_ALL :: "32 word" where
  "PV_WORKAROUND_FLAGS_ALL =
     (PV_WORKAROUND_FLAGS_BWRAP_NO_PERMS OR PV_WORKAROUND_FLAGS_BWRAP_SETUID OR PV_WORKAROUND_FLAGS_STEAMSNAP_356
      OR PV_WORKAROUND_FLAGS_STEAMSNAP_359 OR PV_WORKAROUND_FLAGS_STEAMSNAP_369 OR PV_WORKAROUND_FLAGS_STEAMSNAP_370
      OR PV_WORKAROUND_FLAGS_STEAMSNAP_397 OR PV_WORKAROUND_FLAGS_NONE)"

definition workarounds_table :: "(32 word \<times> string list) list" where
  "workarounds_table =
    [(PV_WORKAROUND_FLAGS_ALL, [''all'']),
     (PV_WORKAROUND_FLAGS_BWRAP_NO_PERMS, [''bwrap-no-perms'', ''old-bwrap'']),
     (PV_WORKAROUND_FLAGS_STEAMSNAP_356, [''steam-snap#356'', ''steamsnap356'']),
     (PV_WORKAROUND_FLAGS_STEAMSNAP_359, [''steam-snap#359'', ''steamsnap359'']),
     (PV_WORKAROUND_FLAGS_STEAMSNAP_369, [''steam-snap#369'', ''steamsnap369'']),
     (PV_WORKAROUND_FLAGS_STEAMSNAP_370, [''steam-snap#370'', ''steamsnap370'']),
     (PV_WORKAROUND_FLAGS_STEAMSNAP_397, [''steam-snap#397'', ''steamsnap397'']),
     (PV_WORKAROUND_FLAGS_BWRAP_SETUID, [''bwrap-setuid''])]"

text \<open>The sign of a token, and the name in it.\<close>

definition token_parts :: "string \<Rightarrow> bool \<times> string" where
  "token_parts token =
     (if token = ''none'' then (True, ''all'')
      else case token of
        c # cs \<Rightarrow> if c = CHR ''+'' then (False, cs) else if c = CHR ''-'' \<or> c = CHR ''!'' then (True, cs) else (False, token)
      | [] \<Rightarrow> (False, token))"

fun match_names :: "bool \<Rightarrow> string \<Rightarrow> 32 word \<Rightarrow> string list \<Rightarrow> bool \<times> 32 word \<Rightarrow> bool \<times> 32 word" where
  "match_names negative token flag [] (found, flags) = (found, flags)"
| "match_names negative token flag (name # names) (found, flags) =
     match_names negative token flag names
       (if name = token then (True, if negative then flags AND NOT flag else flags OR flag) else (found, flags))"

fun match_table :: "bool \<Rightarrow> string \<Rightarrow> (32 word \<times> string list) list \<Rightarrow> bool \<times> 32 word \<Rightarrow> bool \<times> 32 word" where
  "match_table negative token [] r = r"
| "match_table negative token ((flag, names) # rows) r = match_table negative token rows (match_names negative token flag names r)"

text \<open>The tokens that are not understood cause a warning each.\<close>

fun parse_workarounds :: "string list \<Rightarrow> 32 word \<Rightarrow> 32 word \<times> string list" where
  "parse_workarounds [] flags = (flags, [])"
| "parse_workarounds (t # ts) flags =
     (let (negative, token) = token_parts t;
          (found, flags') = match_table negative token workarounds_table (False, flags);
          (r, warnings) = parse_workarounds ts flags'
      in (r, if found then warnings else t # warnings))"

definition SRT_BWRAP_FLAGS_SETUID :: "32 word" where "SRT_BWRAP_FLAGS_SETUID = 2"
definition SRT_BWRAP_FLAGS_HAS_PERMS :: "32 word" where "SRT_BWRAP_FLAGS_HAS_PERMS = 4"

definition default_workarounds :: "glib \<Rightarrow> 32 word \<Rightarrow> string list \<Rightarrow> 32 word" where
  "default_workarounds G bwrap_flags envp =
     (let f0 = PV_WORKAROUND_FLAGS_NONE;
          f1 = (if bwrap_flags AND SRT_BWRAP_FLAGS_HAS_PERMS = 0 then f0 OR PV_WORKAROUND_FLAGS_BWRAP_NO_PERMS else f0);
          f2 = (if bwrap_flags AND SRT_BWRAP_FLAGS_SETUID \<noteq> 0 then f1 OR PV_WORKAROUND_FLAGS_BWRAP_SETUID else f1)
      in if g_environ_getenv G envp ''SNAP'' \<noteq> None \<and> g_environ_getenv G envp ''SNAP_NAME'' \<noteq> None
            \<and> g_environ_getenv G envp ''SNAP_REVISION'' \<noteq> None
         then f2 OR PV_WORKAROUND_FLAGS_STEAMSNAP_397 else f2)"

definition pv_get_workarounds :: "glib \<Rightarrow> 32 word \<Rightarrow> string list \<Rightarrow> 32 word \<times> string list" where
  "pv_get_workarounds G bwrap_flags envp =
     (let flags = default_workarounds G bwrap_flags envp
      in case g_environ_getenv G envp ''PRESSURE_VESSEL_WORKAROUNDS'' of
           None \<Rightarrow> (flags, [])
         | Some value \<Rightarrow> parse_workarounds (g_strsplit_set value [CHR '' '', CHR 0x09, CHR '','']) flags)"

section \<open>Search paths and tables\<close>

definition pv_search_path_append :: "string \<Rightarrow> string option \<Rightarrow> string" where
  "pv_search_path_append search_path item =
     (case item of
        None \<Rightarrow> search_path
      | Some i \<Rightarrow> if i = [] then search_path
                 else (if search_path \<noteq> [] then search_path @ '':'' else search_path) @ i)"

definition pv_hash_table_get_first_key :: "(string, 'v) hash_table \<Rightarrow> (string \<Rightarrow> string \<Rightarrow> int) option \<Rightarrow> string option" where
  "pv_hash_table_get_first_key t cmp =
     (case cmp of
        Some c \<Rightarrow> (case qsort_by c (ht_keys t) of k # _ \<Rightarrow> Some k | [] \<Rightarrow> None)
      | None \<Rightarrow> (case t of (k, _) # _ \<Rightarrow> Some k | [] \<Rightarrow> None))"

section \<open>Paths of the host\<close>

definition g_file_test_is_regular :: "'w kernel \<Rightarrow> string \<Rightarrow> ('w, bool) state" where
  "g_file_test_is_regular K path = do {
     r \<leftarrow> sys_fstatat K AT_FDCWD path {};
     State_Monad.return (case r of Inl _ \<Rightarrow> False | Inr st \<Rightarrow> S_ISREG (st_mode st)) }"

text \<open>The candidate below \<open>~/.var/app\<close>: it must exist and be the same object. If \<open>FLATPAK_ID\<close> is not set,
  its null pointer ends the arguments of \<open>g_build_filename\<close>.\<close>

definition persist_path :: "glib \<Rightarrow> 'w host \<Rightarrow> string \<Rightarrow> string \<Rightarrow> string \<Rightarrow> ('w, string option) state" where
  "persist_path G H current_env_path home after =
     (let path_on_host = g_build_filename G ([home, ''.var'', ''app''] @
            (case g_environ_getenv G (h_environ H) ''FLATPAK_ID'' of None \<Rightarrow> [] | Some app \<Rightarrow> [app, after])) in do {
        p \<leftarrow> sys_fstatat (kern H) AT_FDCWD path_on_host {AT_SYMLINK_NOFOLLOW};
        (case p of
           Inl _ \<Rightarrow> State_Monad.return None
         | Inr via_persist_stat \<Rightarrow> do {
             c \<leftarrow> sys_fstatat (kern H) AT_FDCWD current_env_path {AT_SYMLINK_NOFOLLOW};
             State_Monad.return (case c of
                 Inr via_current_env_stat \<Rightarrow>
                   if st_dev via_persist_stat \<noteq> st_dev via_current_env_stat \<or> st_ino via_persist_stat \<noteq> st_ino via_current_env_stat
                   then None else Some path_on_host
               | Inl _ \<Rightarrow> Some path_on_host) }) })"

definition pv_current_namespace_path_to_host_path :: "glib \<Rightarrow> 'w host \<Rightarrow> string \<Rightarrow> ('w, string) state" where
  "pv_current_namespace_path_to_host_path G H current_env_path =
     (if \<not> g_path_is_absolute current_env_path then State_Monad.return current_env_path
      else do {
        flatpak \<leftarrow> g_file_test_is_regular (kern H) ''/.flatpak-info'';
        (if \<not> flatpak then State_Monad.return current_env_path
         else do {
           path_on_host \<leftarrow>
             (case (case g_environ_getenv G (h_environ H) ''HOME'' of Some h \<Rightarrow> Some h | None \<Rightarrow> h_home_dir H) of
                None \<Rightarrow> State_Monad.return None
              | Some home \<Rightarrow>
                  (case srt_get_path_after current_env_path home of
                     None \<Rightarrow> State_Monad.return None
                   | Some after \<Rightarrow> persist_path G H current_env_path home after));
           State_Monad.return (case path_on_host of
               Some p \<Rightarrow> p
             | None \<Rightarrow> (case srt_get_path_after current_env_path ''/run/host'' of
                   Some after \<Rightarrow> g_build_filename G [''/'', after]
                 | None \<Rightarrow> current_env_path)) }) })"

text \<open>Whether the precondition holds and, if so, whether the link was to be deleted.\<close>

definition pv_delete_dangling_symlink :: "'w host \<Rightarrow> fd \<Rightarrow> string \<Rightarrow> ('w, unit) state" where
  "pv_delete_dangling_symlink H dirfd name =
     (if \<not> (dirfd \<ge> 0 \<and> name \<noteq> [] \<and> name \<noteq> ''.'' \<and> name \<noteq> ''..'') then State_Monad.return ()
      else do {
        l \<leftarrow> sys_fstatat (kern H) dirfd name {AT_SYMLINK_NOFOLLOW};
        (case l of
           Inl _ \<Rightarrow> State_Monad.return ()
         | Inr lstat_buf \<Rightarrow>
             if \<not> S_ISLNK (st_mode lstat_buf) then State_Monad.return ()
             else do {
               s \<leftarrow> sys_fstatat (kern H) dirfd name {};
               (if s \<noteq> Inl ENOENT then State_Monad.return ()
                else do { _ \<leftarrow> h_unlinkat H dirfd name; State_Monad.return () }) }) })"

section \<open>Unique file names\<close>

text \<open>The loop keeps its variables in 64-bit words; it stops before the power of ten would overflow.\<close>

definition G_MAXSIZE :: "64 word" where "G_MAXSIZE = - 1"

partial_function (option) count_digits_loop :: "64 word \<Rightarrow> 64 word \<Rightarrow> int \<Rightarrow> int option" where
  [code]: "count_digits_loop n next_power_of_10 required =
     (if n \<ge> next_power_of_10 then
        (if next_power_of_10 > G_MAXSIZE div 10 then Some (required + 1)
         else count_digits_loop n (next_power_of_10 * 10) (required + 1))
      else Some required)"

definition pv_count_decimal_digits :: "64 word \<Rightarrow> int option" where
  "pv_count_decimal_digits n = count_digits_loop n 10 1"

text \<open>\<open>printf\<close> with \<open>%.*zu\<close>: at least so many digits.\<close>

definition padded :: "nat \<Rightarrow> nat \<Rightarrow> string" where
  "padded digits n = (let s = print_nat 10 n in replicate (digits - length s) CHR ''0'' @ s)"

definition pv_generate_unique_filepath :: "glib \<Rightarrow> string \<Rightarrow> nat \<Rightarrow> nat \<Rightarrow> string \<Rightarrow> string option \<Rightarrow> string list \<Rightarrow> string \<times> string list" where
  "pv_generate_unique_filepath G sub_dir digits seq file multiarch_tuple files_set =
     (let relative_to_overrides = g_build_filename G [sub_dir, file];
          relative_to_overrides =
            (if relative_to_overrides \<in> set files_set then
               (let dedup_dir_basename = (case multiarch_tuple of
                      Some t \<Rightarrow> padded digits seq @ ''-'' @ t
                    | None \<Rightarrow> padded digits seq)
                in g_build_filename G [sub_dir, dedup_dir_basename, file])
             else relative_to_overrides)
      in (relative_to_overrides, List.insert relative_to_overrides files_set))"

section \<open>Counting digits\<close>

lemma length_print_nat:
  "0 < k \<Longrightarrow> k = 1 \<or> 10 ^ (k - 1) \<le> m \<Longrightarrow> m < 10 ^ k \<Longrightarrow> length (print_nat 10 m) = k"
proof (induction k arbitrary: m)
  case (Suc k)
  show ?case
  proof (cases "m < 10")
    case True
    have "k = 0"
    proof (rule ccontr)
      assume "k \<noteq> 0"
      then have "10 ^ 1 \<le> (10 :: nat) ^ k" by (intro power_increasing) auto
      then show False using Suc.prems True \<open>k \<noteq> 0\<close> by simp
    qed
    then show ?thesis using True by (subst print_nat.simps) simp
  next
    case False
    then have k: "k \<noteq> 0" using Suc.prems by (cases k) auto
    have "m div 10 < 10 ^ k" using Suc.prems by (simp add: div_less_iff_less_mult mult.commute)
    moreover have "k = 1 \<or> 10 ^ (k - 1) \<le> m div 10"
      using Suc.prems k by (cases k) (auto simp: less_eq_div_iff_mult_less_eq mult.commute)
    ultimately have "length (print_nat 10 (m div 10)) = k" using Suc.IH k by simp
    then show ?thesis using False by (subst print_nat.simps) simp
  qed
qed simp

lemma count_digits_loop_spec:
  "0 < k \<Longrightarrow> k \<le> 19 \<Longrightarrow> k = 1 \<or> 10 ^ (k - 1) \<le> unat n \<Longrightarrow>
   count_digits_loop n (word_of_nat (10 ^ k)) (int k) = Some (int (length (print_nat 10 (unat n))))"
proof (induction "19 - k" arbitrary: k)
  case 0
  then have k: "k = 19" by simp
  have u: "unat (word_of_nat (10 ^ 19) :: 64 word) = 10 ^ 19" by (simp add: unat_of_nat)
  show ?case
  proof (cases "word_of_nat (10 ^ 19) \<le> n")
    case True
    then have "10 ^ 19 \<le> unat n" using u by (metis word_le_nat_alt)
    moreover have "unat n < 10 ^ 20" using unsigned_less [of n, where ?'a = nat] by simp
    ultimately have "length (print_nat 10 (unat n)) = 20" by (intro length_print_nat) auto
    then show ?thesis using True by (subst count_digits_loop.simps) (simp add: k G_MAXSIZE_def)
  next
    case False
    then have "unat n < 10 ^ 19" using u by (metis not_le word_le_nat_alt)
    then have "length (print_nat 10 (unat n)) = 19" using 0 k by (intro length_print_nat) auto
    then show ?thesis using False by (subst count_digits_loop.simps) (simp add: k)
  qed
next
  case (Suc d)
  then have k: "k \<le> 18" by simp
  have p: "10 ^ k \<le> (10 :: nat) ^ 18" using k by (intro power_increasing) auto
  have "unat (word_of_nat (10 ^ k) :: 64 word) = 10 ^ k mod 2 ^ LENGTH(64)" by (rule unat_of_nat)
  moreover have "(10 :: nat) ^ k mod 2 ^ LENGTH(64) = 10 ^ k" using p by (intro mod_less) simp
  ultimately have u: "unat (word_of_nat (10 ^ k) :: 64 word) = 10 ^ k" by (rule trans)
  show ?case
  proof (cases "word_of_nat (10 ^ k) \<le> n")
    case True
    then have n: "10 ^ k \<le> unat n" using u by (metis word_le_nat_alt)
    have "\<not> G_MAXSIZE div 10 < word_of_nat (10 ^ k)" using p u by (simp add: G_MAXSIZE_def word_less_nat_alt)
    moreover have "word_of_nat (10 ^ k) * 10 = (word_of_nat (10 ^ Suc k) :: 64 word)" by (simp add: mult.commute)
    moreover have "count_digits_loop n (word_of_nat (10 ^ Suc k)) (int (Suc k)) = Some (int (length (print_nat 10 (unat n))))"
      by (rule Suc.hyps(1)) (use Suc.hyps(2) k n in auto)
    ultimately show ?thesis using True by (subst count_digits_loop.simps) (simp add: ac_simps)
  next
    case False
    then have "unat n < 10 ^ k" using u by (metis not_le word_le_nat_alt)
    then have "length (print_nat 10 (unat n)) = k" using Suc.prems by (intro length_print_nat) auto
    then show ?thesis using False by (subst count_digits_loop.simps) simp
  qed
qed

text \<open>The loop that counts decimal digits returns for every 64-bit number, with the number of digits
  that printing it takes: the test before the multiplication is enough to avoid a wrap-around,
  which would be wrong from ten to the nineteenth on.\<close>

theorem pv_count_decimal_digits_correct:
  "pv_count_decimal_digits n = Some (int (length (print_nat 10 (unat n))))"
  using count_digits_loop_spec [of 1 n] by (simp add: pv_count_decimal_digits_def)

section \<open>What the tokens mean\<close>

text \<open>The effect of one token on one bit of the flags, if it has any.\<close>

definition token_effect :: "nat \<Rightarrow> string \<Rightarrow> bool option" where
  "token_effect i t =
     (case token_parts t of (negative, token) \<Rightarrow>
        if list_ex (\<lambda>(flag, names). token \<in> set names \<and> bit flag i) workarounds_table then Some (\<not> negative) else None)"

lemma match_names_bit:
  "bit (snd (match_names negative token flag names (found, flags))) i \<longleftrightarrow>
    (if token \<in> set names \<and> bit flag i then \<not> negative else bit flags i)"
proof (induction names arbitrary: found flags)
  case (Cons n ns)
  have "bit (flags AND NOT flag) i \<longleftrightarrow> bit flags i \<and> \<not> bit flag i"
    by (auto simp: bit_simps dest: bit_imp_le_length)
  then show ?case using Cons by (auto simp: bit_or_iff)
qed simp

lemma match_table_bit:
  "bit (snd (match_table negative token rows (found, flags))) i \<longleftrightarrow>
    (if list_ex (\<lambda>(flag, names). token \<in> set names \<and> bit flag i) rows then \<not> negative else bit flags i)"
proof (induction rows arbitrary: found flags)
  case (Cons row rows)
  obtain flag names where row: "row = (flag, names)" by (cases row)
  obtain found' flags' where m: "match_names negative token flag names (found, flags) = (found', flags')" by fastforce
  then have "bit flags' i \<longleftrightarrow> (if token \<in> set names \<and> bit flag i then \<not> negative else bit flags i)"
    using match_names_bit [of negative token flag names found flags i] by simp
  then show ?case using Cons [of found' flags'] by (simp add: row m)
qed simp

lemma parse_workarounds_bit:
  "bit (fst (parse_workarounds ts flags)) i \<longleftrightarrow>
    (case rev (List.map_filter (token_effect i) ts) of e # _ \<Rightarrow> e | [] \<Rightarrow> bit flags i)"
proof (induction ts arbitrary: flags)
  case (Cons t ts)
  obtain negative token where t: "token_parts t = (negative, token)" by fastforce
  obtain found flags' where m: "match_table negative token workarounds_table (False, flags) = (found, flags')" by fastforce
  have b: "bit flags' i \<longleftrightarrow> (case token_effect i t of Some e \<Rightarrow> e | None \<Rightarrow> bit flags i)"
    using match_table_bit [of negative token workarounds_table False flags i] m by (simp add: token_effect_def t)
  have "bit (fst (parse_workarounds (t # ts) flags)) i \<longleftrightarrow> bit (fst (parse_workarounds ts flags')) i"
    by (simp add: t m case_prod_beta)
  then show ?case
    using Cons [of flags'] b
    by (cases "token_effect i t"; cases "rev (List.map_filter (token_effect i) ts)") (auto simp: List.map_filter_simps)
qed (simp add: List.map_filter_simps)

definition workaround_tokens :: "glib \<Rightarrow> string list \<Rightarrow> string list" where
  "workaround_tokens G envp =
     (case g_environ_getenv G envp ''PRESSURE_VESSEL_WORKAROUNDS'' of
        None \<Rightarrow> [] | Some value \<Rightarrow> g_strsplit_set value [CHR '' '', CHR 0x09, CHR '',''])"

text \<open>The environment variable for workarounds: each workaround is on or off as the last token that
  mentions it says (by one of its names, by \<open>all\<close> or by \<open>none\<close>), and otherwise as detected.\<close>

theorem pv_get_workarounds_last_token:
  "bit (fst (pv_get_workarounds G bwrap_flags envp)) i \<longleftrightarrow>
    (case rev (List.map_filter (token_effect i) (workaround_tokens G envp)) of
       e # _ \<Rightarrow> e
     | [] \<Rightarrow> bit (default_workarounds G bwrap_flags envp) i)"
  using parse_workarounds_bit [of "workaround_tokens G envp" "default_workarounds G bwrap_flags envp" i]
  by (auto simp: pv_get_workarounds_def workaround_tokens_def Let_def List.map_filter_simps split: option.splits)

end
