(* ===== verification/PvBwrap.thy ===== *)
theory PvBwrap imports ExportsSafe PvUtils EnvOverlay SysrootOpen begin

text \<open>
  \<open>pressure-vessel/bwrap.c\<close>: command lines of bubblewrap made from exported paths, directory trees
  and environment overlays. Starting the process is not modelled.
\<close>

section \<open>Command lines\<close>

definition pv_bwrap_was_finished :: "bwrap \<Rightarrow> bool" where
  "pv_bwrap_was_finished b = (argv b \<noteq> [] \<and> last (argv b) = None)"

text \<open>\<^const>\<open>None\<close>: a precondition failed.\<close>

definition pv_bwrap_copy :: "'w host \<Rightarrow> glib \<Rightarrow> bwrap \<Rightarrow> (bwrap \<times> bwrap) option" where
  "pv_bwrap_copy H G b =
     (if pv_bwrap_was_finished b \<or> bw_fds b \<noteq> [] then None
      else Some (flatpak_bwrap_append_bwrap G (flatpak_bwrap_new H (Some [])) b))"

definition pv_bwrap_steal_envp :: "bwrap \<Rightarrow> string list \<times> bwrap" where
  "pv_bwrap_steal_envp b = (envp b, b\<lparr> envp := [] \<rparr>)"

text \<open>\<open>flatpak_bwrap_add_args\<close> with arguments that may be null pointers: the first one ends the list.\<close>

definition add_args_until_null :: "bwrap \<Rightarrow> string option list \<Rightarrow> bwrap" where
  "add_args_until_null b args = flatpak_bwrap_add_args b (map the (takeWhile (\<lambda>a. a \<noteq> None) args))"

section \<open>Binding \<open>/usr\<close>\<close>

definition usr_member :: "string \<Rightarrow> bool" where
  "usr_member m =
     (g_str_has_prefix m ''lib'' \<and> m \<noteq> ''libexec'' \<or> m = ''bin'' \<or> m = ''sbin'' \<or> m = ''.ref'')"

fun bind_usr_members :: "glib \<Rightarrow> 'w kernel \<Rightarrow> string \<Rightarrow> fd \<Rightarrow> string \<Rightarrow> bool \<Rightarrow> string list \<Rightarrow> bwrap \<Rightarrow> ('w, bwrap) state" where
  "bind_usr_members G K provider_in_host provider_fd provider_in_container host_path_is_usr [] b = State_Monad.return b"
| "bind_usr_members G K provider_in_host provider_fd provider_in_container host_path_is_usr (m # ms) b =
     (if \<not> usr_member m then bind_usr_members G K provider_in_host provider_fd provider_in_container host_path_is_usr ms b
      else (let dest = g_build_filename G [provider_in_container, m] in
        if host_path_is_usr
        then bind_usr_members G K provider_in_host provider_fd provider_in_container host_path_is_usr ms
               (flatpak_bwrap_add_args b [''--symlink'', g_build_filename G [''usr'', m], dest])
        else do {
          t \<leftarrow> glnx_readlinkat_malloc K provider_fd m;
          bind_usr_members G K provider_in_host provider_fd provider_in_container host_path_is_usr ms
            (case t of
               Inr target \<Rightarrow> flatpak_bwrap_add_args b [''--symlink'', target, dest]
             | Inl _ \<Rightarrow> flatpak_bwrap_add_args b [''--ro-bind'', g_build_filename G [provider_in_host, m], dest]) }))"

text \<open>The result: whether it succeeded (\<^const>\<open>None\<close> if the resolver runs out of fuel), and the command line.\<close>

definition pv_bwrap_bind_usr :: "nat \<Rightarrow> glib \<Rightarrow> 'w host \<Rightarrow> string \<Rightarrow> fd \<Rightarrow> string \<Rightarrow> bwrap \<Rightarrow>
    ('w, (gerror + unit) option \<times> bwrap) state" where
  "pv_bwrap_bind_usr fuel G H provider_in_host provider_fd provider_in_container b =
     (if pv_bwrap_was_finished b \<or> \<not> g_path_is_absolute provider_in_host \<or> provider_fd < 0 \<or> \<not> g_path_is_absolute provider_in_container
      then State_Monad.return (Some (Inl PRECONDITION_FAILED), b)
      else do {
        u \<leftarrow> srt_resolve_in_sysroot fuel G (kern H) provider_fd ''usr'' {MUST_BE_DIRECTORY};
        (case u of
           None \<Rightarrow> State_Monad.return (None, b)
         | Some usr_fd \<Rightarrow>
             (let dest = g_build_filename G [provider_in_container, ''usr''];
                  b1 = (case usr_fd of
                      Inr _ \<Rightarrow> flatpak_bwrap_add_args b [''--ro-bind'', g_build_filename G [provider_in_host, ''usr''], dest]
                    | Inl _ \<Rightarrow> flatpak_bwrap_add_args b [''--ro-bind'', provider_in_host, dest])
              in do {
                d \<leftarrow> h_readdir H provider_fd;
                r \<leftarrow> (case d of
                    Inl e \<Rightarrow> State_Monad.return (Some (Inl e), b1)
                  | Inr names \<Rightarrow> do {
                      b2 \<leftarrow> bind_usr_members G (kern H) provider_in_host provider_fd provider_in_container
                        (case usr_fd of Inr _ \<Rightarrow> False | Inl _ \<Rightarrow> True) (qsort_by strcmp names) b1;
                      State_Monad.return (Some (Inr ()), b2) });
                (case usr_fd of Inr (fd, _) \<Rightarrow> glnx_close_fd (kern H) fd | Inl _ \<Rightarrow> State_Monad.return ());
                State_Monad.return r })) })"

section \<open>Copying a tree\<close>

text \<open>The callback of \<open>nftw\<close>; after a warning about a file that cannot be opened, its descriptor -1 is
  used all the same. The result is whether the walk stops.\<close>

definition copy_tree_helper :: "'w kernel \<Rightarrow> string \<Rightarrow> string \<Rightarrow> string \<Rightarrow> ftw_type \<Rightarrow> bwrap \<Rightarrow> ('w, bwrap \<times> bool) state" where
  "copy_tree_helper K source dest fpath typeflag b =
     (if \<not> g_str_has_prefix fpath source \<or> \<not> g_str_has_suffix source dest then State_Monad.return (b, True)
      else (let path_in_container = drop (length source - length dest) fpath in
        if typeflag = FTW_D then State_Monad.return (flatpak_bwrap_add_args b [''--dir'', path_in_container], False)
        else if typeflag = FTW_SL then do {
          t \<leftarrow> glnx_readlinkat_malloc K (- 1) fpath;
          State_Monad.return (add_args_until_null b
            [Some ''--symlink'', (case t of Inr target \<Rightarrow> Some target | Inl _ \<Rightarrow> None), Some path_in_container], False) }
        else if typeflag = FTW_F then do {
          r \<leftarrow> glnx_openat_rdonly K AT_FDCWD fpath False;
          State_Monad.return (flatpak_bwrap_add_args_data_fd b ''--ro-bind-data''
            (case r of Inr fd \<Rightarrow> fd | Inl _ \<Rightarrow> - 1) (Some path_in_container), False) }
        else State_Monad.return (b, False)))"

fun copy_tree :: "'w kernel \<Rightarrow> string \<Rightarrow> string \<Rightarrow> ftw_tree \<Rightarrow> bwrap \<Rightarrow> ('w, bwrap \<times> bool) state"
  and copy_trees :: "'w kernel \<Rightarrow> string \<Rightarrow> string \<Rightarrow> ftw_tree list \<Rightarrow> bwrap \<Rightarrow> ('w, bwrap \<times> bool) state" where
  "copy_tree K source dest (FTW fpath typeflag children) b = do {
     (b', stop) \<leftarrow> copy_tree_helper K source dest fpath typeflag b;
     (if stop then State_Monad.return (b', True) else copy_trees K source dest children b') }"
| "copy_trees K source dest [] b = State_Monad.return (b, False)"
| "copy_trees K source dest (t # ts) b = do {
     (b', stop) \<leftarrow> copy_tree K source dest t b;
     (if stop then State_Monad.return (b', True) else copy_trees K source dest ts b') }"

definition pv_bwrap_copy_tree :: "'w kernel \<Rightarrow> bwrap \<Rightarrow> string \<Rightarrow> string \<Rightarrow> ('w, bwrap) state" where
  "pv_bwrap_copy_tree K b source dest =
     (if \<not> g_path_is_absolute dest \<or> \<not> g_str_has_suffix source dest then State_Monad.return b
      else do {
        t \<leftarrow> sys_ftw K source;
        (case t of
           Inl _ \<Rightarrow> State_Monad.return b
         | Inr ftw \<Rightarrow> do { (b', _) \<leftarrow> copy_tree K source dest ftw b; State_Monad.return b' }) })"

section \<open>API file systems\<close>

definition SRT_STEAM_COMPAT_FLAGS_SYSTEM_TRACING :: "32 word" where "SRT_STEAM_COMPAT_FLAGS_SYSTEM_TRACING = 4"

definition add_tracing :: "'w kernel \<Rightarrow> bwrap \<Rightarrow> ('w, bwrap) state" where
  "add_tracing K b =
     (let path = ''/sys/kernel/tracing'' in do {
        r \<leftarrow> glnx_opendirat K AT_FDCWD path True;
        (case r of
           Inl _ \<Rightarrow> State_Monad.return b
         | Inr fd \<Rightarrow> do {
             glnx_close_fd K fd;
             State_Monad.return (flatpak_bwrap_add_args b [''--bind'', path, path]) }) })"

definition pv_bwrap_add_api_filesystems :: "'w kernel \<Rightarrow> bwrap \<Rightarrow> int \<Rightarrow> 32 word \<Rightarrow> ('w, bwrap) state" where
  "pv_bwrap_add_api_filesystems K b sysfs_mode compat_flags =
     (if \<not> sysfs_mode \<ge> FLATPAK_FILESYSTEM_MODE_READ_ONLY then State_Monad.return b
      else (let b1 = flatpak_bwrap_add_args b [''--dev-bind'', ''/dev'', ''/dev'', ''--proc'', ''/proc''];
                b2 = flatpak_bwrap_add_args b1
                  [if sysfs_mode \<ge> FLATPAK_FILESYSTEM_MODE_READ_WRITE then ''--bind'' else ''--ro-bind'', ''/sys'', ''/sys'']
      in do {
        b3 \<leftarrow> (if compat_flags AND SRT_STEAM_COMPAT_FLAGS_SYSTEM_TRACING \<noteq> 0 then add_tracing K b2 else State_Monad.return b2);
        link \<leftarrow> glnx_readlinkat_malloc K AT_FDCWD ''/dev/shm'';
        (if link = Inr ''/run/shm'' then do {
           st \<leftarrow> sys_fstatat K AT_FDCWD ''/proc/self/root/run/shm'' {};
           State_Monad.return
             (if (case st of Inr s \<Rightarrow> S_ISDIR (st_mode s) | Inl _ \<Rightarrow> False)
              then flatpak_bwrap_add_args b3 [''--bind'', ''/run/shm'', ''/run/shm'']
              else flatpak_bwrap_add_args b3 [''--dir'', ''/run/shm'']) }
         else State_Monad.return b3) }))"

section \<open>Adjusting exports\<close>

definition PV_RUNTIME_PATH_INTERPRETER_ROOT :: string where
  "PV_RUNTIME_PATH_INTERPRETER_ROOT = ''/run/pressure-vessel/interpreter-root''"

text \<open>\<open>pv_runtime_path_belongs_in_interpreter_root\<close> (pressure-vessel/runtime.c) without a runtime.\<close>

definition pv_runtime_path_belongs_in_interpreter_root :: "string \<Rightarrow> bool" where
  "pv_runtime_path_belongs_in_interpreter_root path =
     (let p = dropWhile is_slash path
      in list_ex (\<lambda>y. srt_get_path_after p y \<noteq> None) [''etc'', ''overrides'', ''usr'', ''var''])"

datatype adjust_result = Adjusted bwrap | Adjust_failed bwrap | Adjust_abort | Adjust_out_of_fuel

definition three_args :: "string list" where
  "three_args = [''--bind-data'', ''--chmod'', ''--ro-bind-data'', ''--file'', ''--symlink'']"

definition two_args :: "string list" where
  "two_args = [''--dev'', ''--dir'', ''--mqueue'', ''--proc'', ''--remount-ro'', ''--tmpfs'']"

definition bind_args :: "string list" where
  "bind_args = [''--bind'', ''--bind-try'', ''--dev-bind'', ''--dev-bind-try'', ''--ro-bind'', ''--ro-bind-try'']"

text \<open>Whether a path exists in a sysroot; \<^const>\<open>None\<close> if the resolver runs out of fuel.\<close>

definition exists_in :: "nat \<Rightarrow> glib \<Rightarrow> 'w kernel \<Rightarrow> sysroot \<Rightarrow> string \<Rightarrow> ('w, bool option) state" where
  "exists_in fuel G K sr path = do {
     r \<leftarrow> srt_sysroot_test fuel G K sr path {};
     State_Monad.return (map_option (\<lambda>r. case r of Inr _ \<Rightarrow> True | Inl _ \<Rightarrow> False) r) }"

text \<open>One bind mount: for the interpreter root, and for the real root. The pair of sysroots is only
  there if there is an interpreter root.\<close>

definition adjust_bind :: "nat \<Rightarrow> glib \<Rightarrow> 'w host \<Rightarrow> (sysroot \<times> sysroot) option \<Rightarrow> string \<Rightarrow> string \<Rightarrow> string \<Rightarrow> string \<Rightarrow>
    bwrap \<Rightarrow> ('w, bwrap option) state" where
  "adjust_bind fuel G H roots home opt from_src from_dest to' = do {
     in_interpreter \<leftarrow> (case roots of None \<Rightarrow> State_Monad.return (Some False) | Some (ir, _) \<Rightarrow> exists_in fuel G (kern H) ir from_src);
     (case in_interpreter of
        None \<Rightarrow> State_Monad.return None
      | Some t \<Rightarrow>
          (let inter_src = (case roots of None \<Rightarrow> [] | Some (ir, _) \<Rightarrow> g_build_filename G [sr_path ir, from_src]);
               belongs = pv_runtime_path_belongs_in_interpreter_root from_dest;
               inter_dest = (if belongs then g_build_filename G [PV_RUNTIME_PATH_INTERPRETER_ROOT, from_dest] else from_dest);
               to1 = (if t then flatpak_bwrap_add_args to' [opt, inter_src, inter_dest] else to');
               skip_real_root = (t \<and> \<not> belongs)
           in do {
             in_root \<leftarrow> (case roots of None \<Rightarrow> State_Monad.return (Some True) | Some (_, root) \<Rightarrow> exists_in fuel G (kern H) root from_src);
             (case in_root of
                None \<Rightarrow> State_Monad.return None
              | Some r \<Rightarrow>
                  if r \<and> \<not> skip_real_root then do {
                    src \<leftarrow> (if flatpak_has_path_prefix from_src home
                            then pv_current_namespace_path_to_host_path G H from_src else State_Monad.return from_src);
                    State_Monad.return (Some (flatpak_bwrap_add_args to1 [opt, src, from_dest])) }
                  else State_Monad.return (Some to1)) })) }"

text \<open>The loop over the arguments. A failed assertion, or a null pointer where a path is compared,
  is the result \<^const>\<open>Adjust_abort\<close>.\<close>

function adjust_args :: "nat \<Rightarrow> glib \<Rightarrow> 'w host \<Rightarrow> (sysroot \<times> sysroot) option \<Rightarrow> string \<Rightarrow> 32 word \<Rightarrow> string option list \<Rightarrow>
    bwrap \<Rightarrow> ('w, adjust_result) state" where
  "adjust_args fuel G H roots home workarounds [] to' = State_Monad.return (Adjusted to')"
| "adjust_args fuel G H roots home workarounds (None # args) to' = State_Monad.return Adjust_abort"
| "adjust_args fuel G H roots home workarounds (Some opt # args) to' =
     (if opt \<in> set three_args then
        (if length args < 2 then State_Monad.return Adjust_abort
         else adjust_args fuel G H roots home workarounds (drop 2 args)
                (add_args_until_null to' (Some opt # take 2 args)))
      else if opt \<in> set two_args then
        (if length args < 1 then State_Monad.return Adjust_abort
         else if workarounds AND PV_WORKAROUND_FLAGS_STEAMSNAP_370 \<noteq> 0 \<and> opt = ''--tmpfs''
                 \<and> (case hd args of Some p \<Rightarrow> g_str_has_prefix p ''/snap/steam'' | None \<Rightarrow> False)
         then adjust_args fuel G H roots home workarounds (drop 1 args) to'
         else adjust_args fuel G H roots home workarounds (drop 1 args) (add_args_until_null to' (Some opt # take 1 args)))
      else if opt \<in> set bind_args then
        (case args of
           Some from_src # Some from_dest # args' \<Rightarrow>
             if workarounds AND PV_WORKAROUND_FLAGS_STEAMSNAP_369 \<noteq> 0 \<and> from_src = ''/var/lib/snapd/desktop''
             then adjust_args fuel G H roots home workarounds (drop 2 args) to'
             else do {
               r \<leftarrow> adjust_bind fuel G H roots home opt from_src from_dest to';
               (case r of
                  None \<Rightarrow> State_Monad.return Adjust_out_of_fuel
                | Some to1 \<Rightarrow> adjust_args fuel G H roots home workarounds (drop 2 args) to1) }
         | _ \<Rightarrow> State_Monad.return Adjust_abort)
      else if opt = ''--perms'' then
        (if length args < 1 then State_Monad.return Adjust_abort
         else adjust_args fuel G H roots home workarounds (drop 1 args)
                (if workarounds AND PV_WORKAROUND_FLAGS_BWRAP_NO_PERMS = 0
                 then add_args_until_null to' (Some opt # take 1 args) else to'))
      else State_Monad.return (Adjust_failed to'))"
  by pat_completeness auto
termination
  by (relation "measure (\<lambda>(fuel, G, H, roots, home, workarounds, args, to'). length args)") auto

declare adjust_args.simps(3) [simp del]

text \<open>The pair of the result and \<open>from\<close> without its descriptors.\<close>

definition pv_bwrap_append_adjusted_exports :: "nat \<Rightarrow> glib \<Rightarrow> 'w host \<Rightarrow> bwrap \<Rightarrow> bwrap \<Rightarrow> string \<Rightarrow> sysroot option \<Rightarrow> 32 word \<Rightarrow>
    ('w, adjust_result \<times> bwrap) state" where
  "pv_bwrap_append_adjusted_exports fuel G H to' from' home interpreter_root workarounds =
     (let (stolen, from1) = flatpak_bwrap_steal_fds from';
          to1 = foldl flatpak_bwrap_add_fd to' stolen
      in case interpreter_root of
           None \<Rightarrow> do {
             r \<leftarrow> adjust_args fuel G H None home workarounds (argv from1) to1;
             State_Monad.return (r, from1) }
         | Some ir \<Rightarrow> do {
             s \<leftarrow> srt_sysroot_new_real_root (kern H);
             (case s of
                Inl _ \<Rightarrow> State_Monad.return (Adjust_failed to1, from1)
              | Inr root \<Rightarrow>
                  if srt_sysroot_is_direct ir \<or> srt_sysroot_is_direct root then State_Monad.return (Adjust_abort, from1)
                  else do {
                    r \<leftarrow> adjust_args fuel G H (Some (ir, root)) home workarounds (argv from1) to1;
                    srt_sysroot_finalize (kern H) root;
                    State_Monad.return (r, from1) }) })"

section \<open>The environment of the container\<close>

definition pv_bwrap_container_env_to_env_fd :: "'w host \<Rightarrow> bwrap \<Rightarrow> env_overlay \<Rightarrow> ('w, gerror + bwrap) state" where
  "pv_bwrap_container_env_to_env_fd H b container_env =
     (let content = srt_env_overlay_to_env0 container_env in
      if content = [] then State_Monad.return (Inr b)
      else do {
        r \<leftarrow> h_memfd H content;
        State_Monad.return (case r of
            Inl e \<Rightarrow> Inl e
          | Inr fd \<Rightarrow> Inr (flatpak_bwrap_add_args_data_fd b ''--env-fd'' (int fd) None)) })"

fun add_unset_env :: "env_overlay \<Rightarrow> string list \<Rightarrow> bwrap \<Rightarrow> bwrap" where
  "add_unset_env container_env [] b = b"
| "add_unset_env container_env (var # vars) b =
     add_unset_env container_env vars
       (case srt_env_overlay_get container_env var of
          None \<Rightarrow> flatpak_bwrap_add_args b [''--unset-env'', var]
        | Some _ \<Rightarrow> b)"

definition pv_bwrap_container_env_to_subsandbox_argv :: "'w host \<Rightarrow> bwrap \<Rightarrow> env_overlay \<Rightarrow> ('w, gerror + bwrap) state" where
  "pv_bwrap_container_env_to_subsandbox_argv H flatpak_subsandbox container_env = do {
     r \<leftarrow> pv_bwrap_container_env_to_env_fd H flatpak_subsandbox container_env;
     State_Monad.return (case r of
         Inl e \<Rightarrow> Inl e
       | Inr b \<Rightarrow> Inr (add_unset_env container_env (srt_env_overlay_get_vars container_env) b)) }"

definition pv_bwrap_container_env_to_envp :: "glib \<Rightarrow> bwrap \<Rightarrow> env_overlay \<Rightarrow> bwrap" where
  "pv_bwrap_container_env_to_envp G b container_env = b\<lparr> envp := srt_env_overlay_apply G container_env (envp b) \<rparr>"

section \<open>Exports, as they arrive\<close>

text \<open>The options that \<open>flatpak_exports_append_bwrap_args\<close> writes.\<close>

definition export_group :: "string list \<Rightarrow> bool" where
  "export_group g =
     ((\<exists>opt p. g = [opt, p] \<and> opt \<in> {''--dir'', ''--tmpfs''}) \<or>
      (\<exists>opt p q. g = [opt, p, q] \<and> opt \<in> {''--symlink'', ''--bind'', ''--ro-bind''}))"

definition extends :: "bwrap \<Rightarrow> bwrap \<Rightarrow> bool" where
  "extends b b' = (\<exists>gs. list_all export_group gs \<and> argv b' = argv b @ map Some (concat gs) \<and> bw_fds b' = bw_fds b)"

lemma extends_refl [simp, intro]: "extends b b"
  unfolding extends_def by (intro exI [of _ "[]"]) simp

lemma extends_trans: "extends a b \<Longrightarrow> extends b c \<Longrightarrow> extends a c"
  unfolding extends_def by (elim exE, rule_tac x = "gs @ gsa" in exI) simp

lemma add_args_fields:
  "argv (flatpak_bwrap_add_args b args) = argv b @ map Some args" "bw_fds (flatpak_bwrap_add_args b args) = bw_fds b"
  unfolding flatpak_bwrap_add_args_def
  by (induction args arbitrary: b) (simp_all add: flatpak_bwrap_add_arg_def)

lemma extends_group: "export_group g \<Longrightarrow> extends b (flatpak_bwrap_add_args b g)"
  unfolding extends_def by (intro exI [of _ "[g]"]) (simp add: add_args_fields)

lemma extends_group2 [intro]:
  "opt \<in> {''--dir'', ''--tmpfs''} \<Longrightarrow> extends b (flatpak_bwrap_add_args b [opt, p])"
  by (rule extends_group) (auto simp: export_group_def)

lemma extends_group3 [intro]:
  "opt \<in> {''--symlink'', ''--bind'', ''--ro-bind''} \<Longrightarrow> extends b (flatpak_bwrap_add_args b [opt, p, q])"
  by (rule extends_group) (auto simp: export_group_def)

abbreviation appends :: "('w, bwrap) state \<Rightarrow> bwrap \<Rightarrow> bool" where
  "appends m b \<equiv> hoare (\<lambda>_. True) m (\<lambda>b' _. extends b b')"

lemma appends_bind: "appends m b \<Longrightarrow> (\<And>b'. appends (f b') b') \<Longrightarrow> appends (State_Monad.bind m f) b"
proof (rule hoare_bind, assumption, rule hoareI)
  fix b' s r s'
  assume "\<And>b'. appends (f b') b'" "extends b b'" "run_state (f b') s = (r, s')"
  then show "extends b r" using hoareD [of "\<lambda>_. True" "f b'"] extends_trans by blast
qed

lemma appends_after: "(\<And>x. appends (f x) b) \<Longrightarrow> appends (State_Monad.bind m f) b"
  by (rule hoare_bind [OF hoare_any])

lemma appends_return: "extends b b' \<Longrightarrow> appends (State_Monad.return b') b"
  by (rule hoare_return)

lemma appends_step: "extends b b' \<Longrightarrow> appends m b' \<Longrightarrow> appends m b"
  by (auto simp: hoare_def split: prod.splits intro: extends_trans)

lemma appends_if_dir: "opt \<in> {''--bind'', ''--ro-bind''} \<Longrightarrow> appends (append_if_dir K ex opt p q b) b"
  unfolding append_if_dir_def by (rule appends_after, rule appends_return) (auto split: sum.split)

lemma appends_export: "appends (append_export G K ex keys ep b) b"
proof -
  have "appends (append_symlink G K ex keys p b) b" for p
    unfolding append_symlink_def Let_def
    by (intro hoare_if appends_return appends_after) (auto split: sum.split)
  then show ?thesis unfolding append_export_def
    by (intro hoare_prod hoare_if appends_return appends_after) (auto split: if_splits)
qed

lemma appends_exports: "appends (append_exports G K ex keys eps b) b"
  by (induction eps arbitrary: b) (auto intro: appends_return appends_bind [OF appends_export])

lemma appends_usrmerged:
  "opt \<in> {''--bind'', ''--ro-bind''} \<Longrightarrow> appends (append_usrmerged K ex opt dirs b) b"
proof (induction dirs arbitrary: b)
  case (Cons d ds)
  have "appends (case t of
            Inr t \<Rightarrow>
              if g_str_has_prefix t ''usr/''
              then State_Monad.return (flatpak_bwrap_add_args b [''--symlink'', t, ''/run/host'' @ d])
              else if g_str_has_prefix t ''/usr/''
              then State_Monad.return (flatpak_bwrap_add_args b [''--symlink'', tl t, ''/run/host'' @ d])
              else append_if_dir K ex opt d (''/run/host'' @ d) b
          | Inl _ \<Rightarrow> append_if_dir K ex opt d (''/run/host'' @ d) b) b" for t
    by (intro hoare_sum hoare_if appends_return appends_if_dir [OF Cons.prems]) auto
  then show ?case unfolding append_usrmerged.simps Let_def
    by (intro appends_after appends_bind) (use Cons in auto)
qed (simp add: appends_return)

lemma appends_libs:
  "opt \<in> {''--bind'', ''--ro-bind''} \<Longrightarrow> appends (append_libs_need_etc K ex opt items b) b"
proof (induction items arbitrary: b)
  case (Cons item items)
  obtain name ifmt where item: "item = (name, ifmt)" by (cases item)
  show ?case unfolding item append_libs_need_etc.simps Let_def
    by (intro appends_after, rule appends_step [OF _ Cons.IH [OF Cons.prems]]) (use Cons.prems in \<open>auto split: sum.split\<close>)
qed (simp add: appends_return)

lemma appends_host_os: "appends (append_host_os K ex b) b"
  unfolding append_host_os_def Let_def
  by (intro hoare_if appends_return appends_bind appends_if_dir appends_usrmerged appends_libs) auto

lemma appends_all: "appends (flatpak_exports_append_bwrap_args G K ex b) b"
proof -
  have "appends (append_host_etc K ex b) b" for b
    unfolding append_host_etc_def by (intro hoare_if appends_return appends_if_dir) auto
  moreover have "appends (append_os_release K ex b) b" for b
    unfolding append_os_release_def
    by (intro appends_after hoare_sum appends_return) (auto split: sum.split)
  ultimately show ?thesis unfolding flatpak_exports_append_bwrap_args_def
    by (intro appends_bind appends_exports appends_host_os)
qed

text \<open>What becomes of an option: it is left out by a workaround, or its source is translated.\<close>

definition left_out :: "32 word \<Rightarrow> string list \<Rightarrow> bool" where
  "left_out workarounds g =
     (workarounds AND PV_WORKAROUND_FLAGS_STEAMSNAP_370 \<noteq> 0 \<and> hd g = ''--tmpfs'' \<and> g_str_has_prefix (g ! 1) ''/snap/steam''
      \<or> workarounds AND PV_WORKAROUND_FLAGS_STEAMSNAP_369 \<noteq> 0 \<and> hd g \<in> {''--bind'', ''--ro-bind''} \<and> g ! 1 = ''/var/lib/snapd/desktop'')"

definition same_but_source :: "string \<Rightarrow> string list \<Rightarrow> string list \<Rightarrow> bool" where
  "same_but_source home g g' =
     (g' = g \<or> (\<exists>opt s s' d. opt \<in> {''--bind'', ''--ro-bind''} \<and> g = [opt, s, d] \<and> g' = [opt, s', d] \<and> flatpak_has_path_prefix s home))"

definition adjusted_to :: "string \<Rightarrow> 32 word \<Rightarrow> string list list \<Rightarrow> bwrap \<Rightarrow> adjust_result \<Rightarrow> bool" where
  "adjusted_to home workarounds gs b r =
     (\<exists>b' gs'. r = Adjusted b' \<and> argv b' = argv b @ map Some (concat gs') \<and> bw_fds b' = bw_fds b \<and>
        list_all2 (same_but_source home) (filter (\<lambda>g. \<not> left_out workarounds g) gs) gs')"

lemma adjusted_to_Cons:
  assumes "adjusted_to home workarounds gs b1 r" "argv b1 = argv b @ map Some g'" "bw_fds b1 = bw_fds b"
    "same_but_source home g g'" "\<not> left_out workarounds g"
  shows "adjusted_to home workarounds (g # gs) b r"
proof -
  obtain b' gs' where "r = Adjusted b'" "argv b' = argv b1 @ map Some (concat gs')" "bw_fds b' = bw_fds b1"
    "list_all2 (same_but_source home) (filter (\<lambda>g. \<not> left_out workarounds g) gs) gs'"
    using assms(1) unfolding adjusted_to_def by blast
  then show ?thesis unfolding adjusted_to_def using assms(2-5)
    by (intro exI [of _ b'] exI [of _ "g' # gs'"]) simp
qed

lemma adjusted_to_left_out:
  "adjusted_to home workarounds gs b r \<Longrightarrow> left_out workarounds g \<Longrightarrow> adjusted_to home workarounds (g # gs) b r"
  by (simp add: adjusted_to_def)

lemma adjust_bind_real:
  "hoare (\<lambda>_. True) (adjust_bind fuel G H None home opt s d b)
    (\<lambda>r _. \<exists>s'. r = Some (flatpak_bwrap_add_args b [opt, s', d]) \<and> (s' = s \<or> flatpak_has_path_prefix s home))"
  unfolding adjust_bind_def Let_def
  by (auto simp: hoare_def run_state_bind split: prod.split)

lemma adjust_groups:
  "list_all export_group gs \<Longrightarrow>
   hoare (\<lambda>_. True) (adjust_args fuel G H None home workarounds (map Some (concat gs)) b)
     (\<lambda>r _. adjusted_to home workarounds gs b r)"
proof (induction gs arbitrary: b)
  case Nil
  show ?case by (auto simp: adjusted_to_def intro!: hoare_return)
next
  case (Cons g gs)
  have IH: "hoare (\<lambda>_. True) (adjust_args fuel G H None home workarounds (map Some (concat gs)) b1)
      (\<lambda>r _. adjusted_to home workarounds (g # gs) b r)"
    if "argv b1 = argv b @ map Some g'" "bw_fds b1 = bw_fds b" "same_but_source home g g'" "\<not> left_out workarounds g" for b1 g'
    using Cons that by (auto intro: hoare_weaken [OF Cons.IH] adjusted_to_Cons)
  have out: "hoare (\<lambda>_. True) (adjust_args fuel G H None home workarounds (map Some (concat gs)) b)
      (\<lambda>r _. adjusted_to home workarounds (g # gs) b r)" if "left_out workarounds g"
    using Cons that by (auto intro: hoare_weaken [OF Cons.IH] adjusted_to_left_out)
  note fields = add_args_until_null_def add_args_fields three_args_def two_args_def bind_args_def
  have "export_group g" using Cons.prems by simp
  then consider p where "g = [''--dir'', p]" | p where "g = [''--tmpfs'', p]" | p q where "g = [''--symlink'', p, q]"
    | opt p q where "g = [opt, p, q]" "opt \<in> {''--bind'', ''--ro-bind''}"
    by (auto simp: export_group_def)
  then show ?case
  proof cases
    case 1
    then have "\<not> left_out workarounds g" by (simp add: left_out_def)
    then show ?thesis using 1 IH [of _ g] by (simp add: adjust_args.simps(3) fields same_but_source_def)
  next
    case 2
    show ?thesis
    proof (cases "left_out workarounds g")
      case True
      then show ?thesis using 2 out by (simp add: adjust_args.simps(3) fields left_out_def)
    next
      case False
      then have "\<not> (workarounds AND PV_WORKAROUND_FLAGS_STEAMSNAP_370 \<noteq> 0 \<and> g_str_has_prefix p ''/snap/steam'')"
        using 2 by (simp add: left_out_def)
      then have "adjust_args fuel G H None home workarounds (map Some (concat (g # gs))) b =
          adjust_args fuel G H None home workarounds (map Some (concat gs)) (flatpak_bwrap_add_args b g)"
        unfolding 2 by (auto simp: adjust_args.simps(3) fields)
      then show ?thesis using IH [of "flatpak_bwrap_add_args b g" g] False by (simp add: add_args_fields same_but_source_def)
    qed
  next
    case 3
    then have "\<not> left_out workarounds g" by (simp add: left_out_def)
    then show ?thesis using 3 IH [of _ g] by (simp add: adjust_args.simps(3) fields same_but_source_def)
  next
    case 4
    have run: "adjust_args fuel G H None home workarounds (map Some (concat (g # gs))) b =
        (if left_out workarounds g then adjust_args fuel G H None home workarounds (map Some (concat gs)) b
         else do {
           r \<leftarrow> adjust_bind fuel G H None home opt p q b;
           (case r of None \<Rightarrow> State_Monad.return Adjust_out_of_fuel
            | Some to1 \<Rightarrow> adjust_args fuel G H None home workarounds (map Some (concat gs)) to1) })"
      using 4(2) unfolding 4(1) by (elim insertE) (simp_all add: adjust_args.simps(3) fields left_out_def)
    show ?thesis
    proof (cases "left_out workarounds g")
      case True
      then show ?thesis using out unfolding run by simp
    next
      case False
      have "hoare (\<lambda>s. \<exists>s'. r = Some (flatpak_bwrap_add_args b [opt, s', q]) \<and> (s' = p \<or> flatpak_has_path_prefix p home))
          (case r of None \<Rightarrow> State_Monad.return Adjust_out_of_fuel
            | Some to1 \<Rightarrow> adjust_args fuel G H None home workarounds (map Some (concat gs)) to1)
          (\<lambda>r _. adjusted_to home workarounds (g # gs) b r)" for r
      proof (cases "\<exists>s'. r = Some (flatpak_bwrap_add_args b [opt, s', q]) \<and> (s' = p \<or> flatpak_has_path_prefix p home)")
        case True
        then obtain s' where r: "r = Some (flatpak_bwrap_add_args b [opt, s', q])" "s' = p \<or> flatpak_has_path_prefix p home"
          by blast
        have "same_but_source home g [opt, s', q]" using 4 r(2) by (auto simp: same_but_source_def)
        then show ?thesis using IH [of "flatpak_bwrap_add_args b [opt, s', q]" "[opt, s', q]"] False r(1)
          by (auto simp: add_args_fields intro: hoare_pre)
      qed (auto intro: hoare_false)
      then show ?thesis unfolding run using False by (auto intro: hoare_bind [OF adjust_bind_real])
    qed
  qed
qed

text \<open>C8: The arguments for the exported paths, as \<open>flatpak_exports_append_bwrap_args\<close> writes them, are all
  understood by \<open>pv_bwrap_append_adjusted_exports\<close>: without an interpreter root it neither fails nor
  aborts, and it keeps every option in its order, except for those that a workaround leaves out
  and for the sources below the home directory, which may be translated to paths of the host; and
  all descriptors are moved.\<close>

theorem pv_bwrap_append_adjusted_exports_total:
  assumes "argv b = []" and "run_state (flatpak_exports_append_bwrap_args G K ex b) w = (b1, w1)"
    and "run_state (pv_bwrap_append_adjusted_exports fuel G H to' b1 home None workarounds) w2 = ((r, b2), w3)"
  shows "\<exists>to1 gs gs'. r = Adjusted to1 \<and> argv b1 = map Some (concat gs) \<and> argv to1 = argv to' @ map Some (concat gs') \<and>
    list_all2 (same_but_source home) (filter (\<lambda>g. \<not> left_out workarounds g) gs) gs' \<and>
    bw_fds to1 = bw_fds to' @ bw_fds b \<and> bw_fds b2 = []"
proof -
  have "extends b b1" using hoareD [OF appends_all TrueI assms(2)] .
  then obtain gs where gs: "list_all export_group gs" "argv b1 = map Some (concat gs)" "bw_fds b1 = bw_fds b"
    using assms(1) by (auto simp: extends_def)
  have r: "run_state (adjust_args fuel G H None home workarounds (argv b1) (foldl flatpak_bwrap_add_fd to' (bw_fds b1))) w2 = (r, w3)"
    "bw_fds b2 = []"
    using assms(3) by (auto simp: pv_bwrap_append_adjusted_exports_def flatpak_bwrap_steal_fds_def run_state_bind split: prod.splits)
  have "adjusted_to home workarounds gs (foldl flatpak_bwrap_add_fd to' (bw_fds b1)) r"
    using hoareD [OF adjust_groups [OF gs(1)] TrueI r(1) [unfolded gs(2)]] .
  then show ?thesis using gs(2,3) r(2) by (auto simp: adjusted_to_def add_fd_foldl)
qed

theorem pv_bwrap_append_adjusted_exports_total_witness:
  "\<exists>to1 w. fst (fst (run_state (pv_bwrap_append_adjusted_exports 9 glib_ref (path_host demo_tree) demo_bwrap
      (fst (run_state (flatpak_exports_append_bwrap_args glib_ref (kern (path_host demo_tree))
         (flatpak_exports_new\<lparr> ex_hash := [(''/data/x'', 2), (''/srv'', FAKE_MODE_SYMLINK)] \<rparr>) (flatpak_bwrap_new (path_host []) (Some []))) w))
      ''/home'' None 0) w)) = Adjusted to1 \<and>
    argv to1 = map Some [''bwrap'', ''--bind'', ''/data/x'', ''/data/x'', ''--symlink'', ''data'', ''/srv'']"
proof -
  let ?ex = "flatpak_exports_new\<lparr> ex_hash := [(''/data/x'', 2), (''/srv'', FAKE_MODE_SYMLINK)] \<rparr>"
  let ?m1 = "flatpak_exports_append_bwrap_args glib_ref (kern (path_host demo_tree)) ?ex (flatpak_bwrap_new (path_host []) (Some []))"
  obtain b1 w1 where m1: "run_state ?m1 demo_world = (b1, w1)" by fastforce
  let ?m2 = "pv_bwrap_append_adjusted_exports 9 glib_ref (path_host demo_tree) demo_bwrap b1 ''/home'' None 0"
  obtain r b2 w3 where m2: "run_state ?m2 demo_world = ((r, b2), w3)" by (metis prod.exhaust)
  have "argv (flatpak_bwrap_new (path_host []) (Some [])) = []" by (simp add: flatpak_bwrap_new_def)
  from pv_bwrap_append_adjusted_exports_total [OF this m1 m2]
  obtain to1 gs gs' where t: "r = Adjusted to1" "argv b1 = map Some (concat gs)" "argv to1 = argv demo_bwrap @ map Some (concat gs')"
    "list_all2 (same_but_source ''/home'') (filter (\<lambda>g. \<not> left_out 0 g) gs) gs'" by blast
  have b1: "b1 = fst (run_state ?m1 demo_world)" using m1 by simp
  have "argv (fst (run_state ?m1 demo_world)) = map Some [''--bind'', ''/data/x'', ''/data/x'', ''--symlink'', ''data'', ''/srv'']"
    by code_simp
  have "(case fst (fst (run_state (pv_bwrap_append_adjusted_exports 9 glib_ref (path_host demo_tree) demo_bwrap
        (fst (run_state ?m1 demo_world)) ''/home'' None 0) demo_world)) of
      Adjusted t \<Rightarrow> argv t = map Some [''bwrap'', ''--bind'', ''/data/x'', ''/data/x'', ''--symlink'', ''data'', ''/srv''] | _ \<Rightarrow> False)"
    by code_simp
  then have "argv to1 = map Some [''bwrap'', ''--bind'', ''/data/x'', ''/data/x'', ''--symlink'', ''data'', ''/srv'']"
    using m2 t(1) unfolding b1 by simp
  then show ?thesis using t(1) m2 unfolding b1 by (intro exI [of _ to1] exI [of _ demo_world]) simp
qed

section \<open>The environment, as it arrives\<close>

text \<open>What the program that gets the arguments does: it reads the block from \<open>--env-fd\<close>, if there is
  one, and then unsets the variables of \<open>--unset-env\<close>.\<close>

fun unset_all :: "string list \<Rightarrow> env_overlay \<Rightarrow> gerror + env_overlay" where
  "unset_all [] self = Inr self"
| "unset_all (v # vs) self = (case srt_env_overlay_unset_cli self v of Inl e \<Rightarrow> Inl e | Inr self' \<Rightarrow> unset_all vs self')"

definition unset_vars :: "env_overlay \<Rightarrow> string list" where
  "unset_vars self = filter (\<lambda>v. srt_env_overlay_get self v = None) (srt_env_overlay_get_vars self)"

lemma add_unset_env_argv:
  "add_unset_env self vars b = flatpak_bwrap_add_args b (concat (map (\<lambda>v. [''--unset-env'', v])
     (filter (\<lambda>v. srt_env_overlay_get self v = None) vars)))"
  by (induction vars arbitrary: b) (auto simp: flatpak_bwrap_add_args_def split: option.split)

lemma unset_all_map:
  "(\<And>v. v \<in> set vs \<Longrightarrow> v \<noteq> []) \<Longrightarrow>
   \<exists>self'. unset_all vs self = Inr self' \<and> (\<forall>w. overlay_map self' w = (if w \<in> set vs then Some None else overlay_map self w))"
proof (induction vs arbitrary: self)
  case (Cons v vs)
  have "srt_env_overlay_unset_cli self v = Inr (srt_env_overlay_take self v None)"
    using Cons.prems by (simp add: srt_env_overlay_unset_cli_def srt_env_overlay_set_def)
  moreover obtain self' where "unset_all vs (srt_env_overlay_take self v None) = Inr self'"
    "\<forall>w. overlay_map self' w = (if w \<in> set vs then Some None else overlay_map (srt_env_overlay_take self v None) w)"
    using Cons by (metis list.set_intros(2))
  ultimately show ?case by auto
qed simp

text \<open>C9: An environment overlay survives the way into a subsandbox: the arguments are the descriptor of
  the serialised settings, unless there are none, and one \<open>--unset-env\<close> for each variable to be
  unset; reading them back into an empty overlay gives the same overlay.\<close>

theorem pv_bwrap_container_env_roundtrip:
  assumes "ht_valid (env_values self)"
    and "\<forall>(v, x) \<in> set (env_values self). env0_name_ok v \<and> (\<forall>y. x = Some y \<longrightarrow> NUL \<notin> set y)"
    and "run_state (pv_bwrap_container_env_to_subsandbox_argv H b self) w = (Inr b', w')"
  shows "(\<exists>fd_args. argv b' = argv b @ map Some (fd_args @ concat (map (\<lambda>v. [''--unset-env'', v]) (unset_vars self))) \<and>
      (fd_args = [] \<and> srt_env_overlay_to_env0 self = [] \<or> (\<exists>fd. fd_args = [''--env-fd'', decimal (int fd)] \<and>
         run_state (h_memfd H (srt_env_overlay_to_env0 self)) w = (Inr fd, w')))) \<and>
    (\<exists>o1 o2. parse_env0 srt_env_overlay_new (srt_env_overlay_to_env0 self) = (o1, Inr ()) \<and>
      unset_all (unset_vars self) o1 = Inr o2 \<and> map_of (env_values o2) = map_of (env_values self))"
proof
  show "\<exists>fd_args. argv b' = argv b @ map Some (fd_args @ concat (map (\<lambda>v. [''--unset-env'', v]) (unset_vars self))) \<and>
      (fd_args = [] \<and> srt_env_overlay_to_env0 self = [] \<or> (\<exists>fd. fd_args = [''--env-fd'', decimal (int fd)] \<and>
         run_state (h_memfd H (srt_env_overlay_to_env0 self)) w = (Inr fd, w')))"
  proof (cases "srt_env_overlay_to_env0 self = []")
    case True
    then show ?thesis using assms(3)
      by (auto simp: pv_bwrap_container_env_to_subsandbox_argv_def pv_bwrap_container_env_to_env_fd_def run_state_bind
          add_unset_env_argv add_args_fields unset_vars_def)
  next
    case False
    obtain r v where m: "run_state (h_memfd H (srt_env_overlay_to_env0 self)) w = (r, v)" by fastforce
    obtain fd where r: "r = Inr fd" "v = w'"
      "b' = add_unset_env self (srt_env_overlay_get_vars self) (flatpak_bwrap_add_args_data_fd b ''--env-fd'' (int fd) None)"
      using assms(3) False m
      by (cases r) (auto simp: pv_bwrap_container_env_to_subsandbox_argv_def pv_bwrap_container_env_to_env_fd_def run_state_bind)
    have "argv b' = argv b @ map Some ([''--env-fd'', decimal (int fd)] @ concat (map (\<lambda>v. [''--unset-env'', v]) (unset_vars self)))"
      by (simp add: r(3) add_unset_env_argv add_args_fields unset_vars_def flatpak_bwrap_add_args_data_fd_def flatpak_bwrap_add_fd_def)
    then show ?thesis using m r(1,2) by blast
  qed
next
  obtain o1 where o1: "parse_env0 srt_env_overlay_new (srt_env_overlay_to_env0 self) = (o1, Inr ())"
    "\<And>w. overlay_map o1 w = (case overlay_map self w of Some (Some x) \<Rightarrow> Some (Some x) | _ \<Rightarrow> overlay_map srt_env_overlay_new w)"
    using env0_parse_back [OF assms(1,2), of srt_env_overlay_new] by blast
  have vars: "set (srt_env_overlay_get_vars self) = dom (overlay_map self)" by (rule get_vars_set [OF assms(1)])
  have "v \<noteq> []" if "v \<in> set (unset_vars self)" for v
  proof -
    have "v \<in> dom (overlay_map self)" using that unfolding vars [symmetric] by (simp add: unset_vars_def)
    then obtain x where "overlay_map self v = Some x" by blast
    then show ?thesis using assms(2) by (force dest: map_of_SomeD simp: env0_name_ok_def env_name_ok_def)
  qed
  then obtain o2 where o2: "unset_all (unset_vars self) o1 = Inr o2"
    "\<And>w. overlay_map o2 w = (if w \<in> set (unset_vars self) then Some None else overlay_map o1 w)"
    using unset_all_map [of "unset_vars self" o1] by blast
  have "overlay_map o2 w = overlay_map self w" for w
    using vars by (auto simp: o2(2) o1(2) unset_vars_def srt_env_overlay_get_def srt_env_overlay_new_def split: option.splits)
  then show "\<exists>o1 o2. parse_env0 srt_env_overlay_new (srt_env_overlay_to_env0 self) = (o1, Inr ()) \<and>
      unset_all (unset_vars self) o1 = Inr o2 \<and> map_of (env_values o2) = map_of (env_values self)"
    using o1(1) o2(1) by blast
qed

theorem pv_bwrap_container_env_roundtrip_witness:
  "\<exists>o1 o2. parse_env0 srt_env_overlay_new (srt_env_overlay_to_env0 demo_overlay) = (o1, Inr ()) \<and>
    unset_all [''B''] o1 = Inr o2 \<and> map_of (env_values o2) = map_of (env_values demo_overlay)"
proof -
  have v: "ht_valid (env_values demo_overlay)" by (simp add: demo_overlay_def ht_valid_def)
  have n: "\<forall>(v, x) \<in> set (env_values demo_overlay). env0_name_ok v \<and> (\<forall>y. x = Some y \<longrightarrow> NUL \<notin> set y)"
    by (simp add: demo_overlay_def env0_name_ok_def env_name_ok_def NUL_def)
  have "\<exists>b' w'. run_state (pv_bwrap_container_env_to_subsandbox_argv (path_host []) demo_bwrap demo_overlay) demo_world = (Inr b', w')"
    by (simp add: pv_bwrap_container_env_to_subsandbox_argv_def pv_bwrap_container_env_to_env_fd_def run_state_bind path_host_def Let_def)
  then obtain b' w' where "run_state (pv_bwrap_container_env_to_subsandbox_argv (path_host []) demo_bwrap demo_overlay) demo_world = (Inr b', w')"
    by blast
  from pv_bwrap_container_env_roundtrip [OF v n this]
  have "\<exists>o1 o2. parse_env0 srt_env_overlay_new (srt_env_overlay_to_env0 demo_overlay) = (o1, Inr ()) \<and>
    unset_all (unset_vars demo_overlay) o1 = Inr o2 \<and> map_of (env_values o2) = map_of (env_values demo_overlay)" by blast
  moreover have "unset_vars demo_overlay = [''B'']" by code_simp
  ultimately show ?thesis by simp
qed

end
