(* ===== verification/OsRelease.thy ===== *)
theory OsRelease imports SysrootOpen HashTable begin

text \<open>
  \<open>steam-runtime-tools/os.c\<close>: what os-release(5) says about an operating system. Diagnostic messages
  are values of a data type instead of texts, one for each line of \<open>messages\<close>.
\<close>

section \<open>The object\<close>

datatype os_message =
    Previous string
  | Load_failed gerror
  | No_equals string
  | Bad_quoting string
  | Repeated string
  | Os_release_not_found

record os_info =
  os_fields :: "(string, string) hash_table"
  os_messages :: "os_message list option"
  os_source_path :: "string option"
  os_source_path_resolved :: "string option"
  os_build_id :: "string option"
  os_id :: "string option"
  os_name :: "string option"
  os_pretty_name :: "string option"
  os_variant :: "string option"
  os_variant_id :: "string option"
  os_version_codename :: "string option"
  os_version_id :: "string option"
  os_id_like :: "string list option"

definition WHITESPACE :: string where "WHITESPACE = [CHR '' '', CHR 0x09, CHR 0x0A, CHR 0x0D]"

fun copy_str_str_hash :: "(string, string) hash_table \<Rightarrow> (string, string) hash_table \<Rightarrow> (string, string) hash_table" where
  "copy_str_str_hash [] ret = ret"
| "copy_str_str_hash ((k, v) # other) ret = copy_str_str_hash other (AList.update k v ret)"

text \<open>\<open>_srt_os_info_new\<close> with the construct-only properties and \<open>srt_os_info_constructed\<close>. No fields (a null
  pointer) are copied as an empty table; no messages become a null pointer.\<close>

definition srt_os_info_new :: "(string, string) hash_table option \<Rightarrow> os_message list \<Rightarrow> string option \<Rightarrow> string option \<Rightarrow> os_info" where
  "srt_os_info_new ftab messages source_path source_path_resolved =
     (let f = (case ftab of None \<Rightarrow> [] | Some other \<Rightarrow> copy_str_str_hash other []) in
      \<lparr> os_fields = f,
        os_messages = (if messages = [] then None else Some messages),
        os_source_path = source_path,
        os_source_path_resolved = source_path_resolved,
        os_build_id = map_of f ''BUILD_ID'',
        os_id = map_of f ''ID'',
        os_name = map_of f ''NAME'',
        os_pretty_name = map_of f ''PRETTY_NAME'',
        os_variant = map_of f ''VARIANT'',
        os_variant_id = map_of f ''VARIANT_ID'',
        os_version_codename = map_of f ''VERSION_CODENAME'',
        os_version_id = map_of f ''VERSION_ID'',
        os_id_like = map_option (\<lambda>s. g_strsplit_set s WHITESPACE) (map_of f ''ID_LIKE'') \<rparr>)"

definition srt_os_info_dup_fields :: "os_info \<Rightarrow> (string, string) hash_table" where
  "srt_os_info_dup_fields self = copy_str_str_hash (os_fields self) []"

section \<open>Parsing\<close>

text \<open>One line: the table, the message of a repeated key, and whether the line was accepted.\<close>

definition do_line :: "glib \<Rightarrow> (string, string) hash_table \<Rightarrow> string \<Rightarrow>
    (string, string) hash_table \<times> os_message option \<times> (os_message + unit)" where
  "do_line G ftab line0 =
     (let line = g_strstrip line0 in
      if line = [] \<or> hd line = CHR ''#'' then (ftab, None, Inr ())
      else (case strchr line CHR ''='' of
          None \<Rightarrow> (ftab, None, Inl (No_equals line))
        | Some (key, val) \<Rightarrow>
            (case g_shell_unquote G val of
               Inl _ \<Rightarrow> (ftab, None, Inl (Bad_quoting line))
             | Inr unquoted \<Rightarrow>
                 (AList.update key unquoted ftab,
                  if map_of ftab key \<noteq> None then Some (Repeated key) else None,
                  Inr ()))))"

definition line_messages :: "os_message option \<Rightarrow> os_message + unit \<Rightarrow> os_message list" where
  "line_messages message r =
     (case r of Inl e \<Rightarrow> [e] | Inr _ \<Rightarrow> (case message of Some m \<Rightarrow> [m] | None \<Rightarrow> []))"

fun do_lines :: "glib \<Rightarrow> string list \<Rightarrow> (string, string) hash_table \<Rightarrow> os_message list \<Rightarrow>
    (string, string) hash_table \<times> os_message list" where
  "do_lines G [] ftab messages = (ftab, messages)"
| "do_lines G (line # lines) ftab messages =
     (case do_line G ftab line of (ftab', message, r) \<Rightarrow>
        do_lines G lines ftab' (messages @ line_messages message r))"

text \<open>The pieces between newlines, each up to an embedded NUL (\<open>g_strndup\<close>); an empty last piece is
  left out.\<close>

definition os_release_lines :: "string \<Rightarrow> string list" where
  "os_release_lines contents =
     (let pieces = split_on (\<lambda>c. c = CHR 0x0A) contents;
          used = (if last pieces = [] then butlast pieces else pieces)
      in map (takeWhile (\<lambda>c. c \<noteq> CHR 0x00)) used)"

definition special_cases :: "(string, string) hash_table \<Rightarrow> (string, string) hash_table" where
  "special_cases ftab =
     (let f1 = (if map_of ftab ''VERSION_CODENAME'' = None \<and> map_of ftab ''ID'' = Some ''steamrt''
                  \<and> map_of ftab ''VERSION_ID'' = Some ''1''
                then AList.update ''VERSION_CODENAME'' ''scout'' ftab else ftab)
      in if map_of f1 ''ID_LIKE'' = Some ''ubuntu'' then AList.update ''ID_LIKE'' ''ubuntu debian'' f1 else f1)"

definition srt_os_info_new_from_data :: "glib \<Rightarrow> string \<Rightarrow> string option \<Rightarrow> string \<Rightarrow> os_message list \<Rightarrow> os_info" where
  "srt_os_info_new_from_data G path path_resolved contents previous_messages =
     (case do_lines G (os_release_lines contents) [] previous_messages of (ftab, messages) \<Rightarrow>
        srt_os_info_new (Some (special_cases ftab)) messages (Some path) path_resolved)"

definition os_release_paths :: "(string \<times> bool) list" where
  "os_release_paths = [(''/etc/os-release'', False), (''/usr/lib/os-release'', False), (''/os-release'', True)]"

fun os_info_from_paths :: "nat \<Rightarrow> glib \<Rightarrow> 'w kernel \<Rightarrow> sysroot \<Rightarrow> (string \<times> bool) list \<Rightarrow> os_message list \<Rightarrow> ('w, os_info option) state" where
  "os_info_from_paths fuel G K sr [] messages =
     State_Monad.return (Some (srt_os_info_new None (messages @ [Os_release_not_found]) None None))"
| "os_info_from_paths fuel G K sr ((path, only_in_run_host) # paths) messages =
     (if only_in_run_host \<and> \<not> g_str_has_suffix (sr_path sr) ''/run/host''
      then os_info_from_paths fuel G K sr paths messages
      else do {
        r \<leftarrow> srt_sysroot_load fuel G K sr path {RETURN_ABSOLUTE} True True;
        (case r of
           None \<Rightarrow> State_Monad.return None
         | Some (Inl e) \<Rightarrow> os_info_from_paths fuel G K sr paths
             (if e \<noteq> G_IO_ERROR IO_NOT_FOUND then messages @ [Load_failed e] else messages)
         | Some (Inr (resolved, contents)) \<Rightarrow>
             State_Monad.return (Some (srt_os_info_new_from_data G path resolved (the contents) messages))) })"

text \<open>\<^const>\<open>None\<close> if the resolver runs out of fuel.\<close>

definition srt_os_info_new_from_sysroot :: "nat \<Rightarrow> glib \<Rightarrow> 'w kernel \<Rightarrow> sysroot \<Rightarrow> ('w, os_info option) state" where
  "srt_os_info_new_from_sysroot fuel G K sr = os_info_from_paths fuel G K sr os_release_paths []"

section \<open>What parsing computes\<close>

text \<open>The specification: each line alone, and then the last binding of each key.\<close>

datatype os_line = Ignored | Invalid os_message | Binding string string

definition classify :: "glib \<Rightarrow> string \<Rightarrow> os_line" where
  "classify G line0 =
     (let line = g_strstrip line0 in
      if line = [] \<or> hd line = CHR ''#'' then Ignored
      else (case strchr line CHR ''='' of
          None \<Rightarrow> Invalid (No_equals line)
        | Some (key, val) \<Rightarrow>
            (case g_shell_unquote G val of Inl _ \<Rightarrow> Invalid (Bad_quoting line) | Inr v \<Rightarrow> Binding key v)))"

definition bindings :: "glib \<Rightarrow> string list \<Rightarrow> (string \<times> string) list" where
  "bindings G lines = concat (map (\<lambda>l. case classify G l of Binding k v \<Rightarrow> [(k, v)] | _ \<Rightarrow> []) lines)"

definition invalid_lines :: "glib \<Rightarrow> string list \<Rightarrow> string list" where
  "invalid_lines G lines = filter (\<lambda>l. case classify G l of Invalid _ \<Rightarrow> True | _ \<Rightarrow> False) lines"

lemma do_line_classify:
  "do_line G ftab line = (case classify G line of
     Ignored \<Rightarrow> (ftab, None, Inr ())
   | Invalid m \<Rightarrow> (ftab, None, Inl m)
   | Binding k v \<Rightarrow> (AList.update k v ftab, if map_of ftab k \<noteq> None then Some (Repeated k) else None, Inr ()))"
  by (auto simp: do_line_def classify_def Let_def split: option.split sum.split)

lemma do_lines_fields:
  "do_lines G lines ftab messages = (f, ms) \<Longrightarrow>
   map_of f = map_of ftab ++ map_of (rev (bindings G lines)) \<and> (ht_valid ftab \<longrightarrow> ht_valid f)"
proof (induction lines arbitrary: ftab messages)
  case (Cons line lines)
  show ?case
  proof (cases "classify G line")
    case (Binding k v)
    have step: "do_lines G lines (AList.update k v ftab)
        (messages @ line_messages (if map_of ftab k \<noteq> None then Some (Repeated k) else None) (Inr ())) = (f, ms)"
      using Cons.prems Binding by (simp add: do_line_classify)
    have "map_of (AList.update k v ftab) = (map_of ftab)(k \<mapsto> v)"
      by (auto simp: fun_eq_iff ht.lookup_replace)
    moreover have "ht_valid ftab \<longrightarrow> ht_valid (AList.update k v ftab)" by (simp add: ht.valid_replace)
    moreover have "bindings G (line # lines) = (k, v) # bindings G lines" using Binding by (simp add: bindings_def)
    ultimately show ?thesis using Cons.IH [OF step] by (simp add: map_add_upd_left map_add_def fun_eq_iff split: option.split)
  qed (use Cons in \<open>auto simp: do_line_classify bindings_def\<close>)
qed (simp add: bindings_def map_add_def)

lemma do_lines_grow: "do_lines G lines ftab messages = (f, ms) \<Longrightarrow> \<exists>xs. ms = messages @ xs"
proof (induction lines arbitrary: ftab messages)
  case (Cons l ls)
  obtain g m r where "do_line G ftab l = (g, m, r)" using prod_cases3 by blast
  then show ?case using Cons.IH [of g "messages @ line_messages m r"] Cons.prems by auto
qed auto

lemma lines_Cons:
  "bindings G (l # ls) = (case classify G l of Binding k v \<Rightarrow> (k, v) # bindings G ls | _ \<Rightarrow> bindings G ls)"
  "invalid_lines G (l # ls) = (case classify G l of Invalid _ \<Rightarrow> l # invalid_lines G ls | _ \<Rightarrow> invalid_lines G ls)"
  by (simp_all add: bindings_def invalid_lines_def split: os_line.split)

lemma do_lines_messages:
  "do_lines G lines ftab messages = (f, ms) \<Longrightarrow>
   ms = messages \<longleftrightarrow> invalid_lines G lines = [] \<and> distinct (map fst (bindings G lines)) \<and>
     (\<forall>k \<in> set (map fst (bindings G lines)). map_of ftab k = None)"
proof (induction lines arbitrary: ftab messages)
  case (Cons line lines)
  obtain f' m r where d: "do_line G ftab line = (f', m, r)" using prod_cases3 by blast
  have step: "do_lines G lines f' (messages @ line_messages m r) = (f, ms)" using Cons.prems d by simp
  have grow: "\<exists>xs. ms = messages @ line_messages m r @ xs" using do_lines_grow [OF step] by simp
  show ?case
  proof (cases "line_messages m r = []")
    case False
    then have "ms \<noteq> messages" using grow by auto
    moreover have "(\<exists>msg. classify G line = Invalid msg) \<or> (\<exists>k v. classify G line = Binding k v \<and> map_of ftab k \<noteq> None)"
      using False d by (auto simp: do_line_classify line_messages_def split: os_line.splits if_splits)
    ultimately show ?thesis by (elim disjE conjE exE) (auto simp: lines_Cons)
  next
    case True
    then have "ms = messages \<longleftrightarrow> invalid_lines G lines = [] \<and> distinct (map fst (bindings G lines)) \<and>
        (\<forall>k \<in> set (map fst (bindings G lines)). map_of f' k = None)"
      using Cons.IH [OF step] by simp
    moreover have "classify G line = Ignored \<and> f' = ftab \<or>
        (\<exists>k v. classify G line = Binding k v \<and> map_of ftab k = None \<and> f' = AList.update k v ftab)"
      using True d by (auto simp: do_line_classify line_messages_def split: os_line.splits if_splits)
    ultimately show ?thesis by (elim disjE conjE exE) (auto simp: lines_Cons ht.lookup_replace)
  qed
qed (simp add: invalid_lines_def bindings_def)

lemma copy_str_str_hash_map: "map_of (copy_str_str_hash other ret) = map_of ret ++ map_of (rev other)"
proof (induction other arbitrary: ret)
  case (Cons p other)
  obtain k v where p: "p = (k, v)" by (cases p)
  have "map_of (AList.update k v ret) = (map_of ret)(k \<mapsto> v)" by (auto simp: fun_eq_iff ht.lookup_replace)
  then show ?case using Cons p by (simp add: map_add_def fun_eq_iff split: option.split)
qed (simp add: map_add_def)

lemma map_of_rev_valid: "ht_valid t \<Longrightarrow> map_of (rev t) = map_of t"
  by (intro map_of_eqI) (auto simp: ht_valid_def rev_map [symmetric] map_of_eq_Some_iff distinct_rev)

definition with_special :: "(string \<rightharpoonup> string) \<Rightarrow> string \<rightharpoonup> string" where
  "with_special f k =
     (if k = ''VERSION_CODENAME'' \<and> f k = None \<and> f ''ID'' = Some ''steamrt'' \<and> f ''VERSION_ID'' = Some ''1'' then Some ''scout''
      else if k = ''ID_LIKE'' \<and> f k = Some ''ubuntu'' then Some ''ubuntu debian''
      else f k)"

lemma special_cases_map:
  "map_of (special_cases f) k = with_special (map_of f) k" "ht_valid f \<Longrightarrow> ht_valid (special_cases f)"
  by (auto simp: special_cases_def with_special_def Let_def ht.lookup_replace intro!: ht.valid_replace)

lemma new_from_data_parts:
  assumes "do_lines G (os_release_lines contents) [] prev = (f, ms)"
  shows "map_of (os_fields (srt_os_info_new_from_data G path res contents prev)) k = with_special (map_of (rev (bindings G (os_release_lines contents)))) k"
    "os_messages (srt_os_info_new_from_data G path res contents prev) = (if ms = [] then None else Some ms)"
proof -
  have f: "map_of f = map_of (rev (bindings G (os_release_lines contents)))" "ht_valid f"
    using do_lines_fields [OF assms] by (simp_all add: ht_valid_def)
  have "map_of (os_fields (srt_os_info_new_from_data G path res contents prev)) k = map_of (special_cases f) k"
    using map_of_rev_valid [OF special_cases_map(2) [OF f(2)]]
    by (simp add: srt_os_info_new_from_data_def assms srt_os_info_new_def Let_def copy_str_str_hash_map)
  then show "map_of (os_fields (srt_os_info_new_from_data G path res contents prev)) k = with_special (map_of (rev (bindings G (os_release_lines contents)))) k"
    by (simp add: special_cases_map f(1))
  show "os_messages (srt_os_info_new_from_data G path res contents prev) = (if ms = [] then None else Some ms)"
    by (simp add: srt_os_info_new_from_data_def assms srt_os_info_new_def Let_def)
qed

text \<open>C38: What reading os-release yields, for any contents: each key has the value of the last line that
  assigns it, except for the two corrections for the Steam Runtime; and there are no diagnostic
  messages exactly if every line is blank, a comment or a valid assignment, no key is assigned
  twice, and there were no messages before.\<close>

theorem srt_os_info_new_from_data_spec:
  "map_of (os_fields (srt_os_info_new_from_data G path res contents prev)) k
     = with_special (map_of (rev (bindings G (os_release_lines contents)))) k \<and>
   (os_messages (srt_os_info_new_from_data G path res contents prev) = None \<longleftrightarrow>
     prev = [] \<and> invalid_lines G (os_release_lines contents) = [] \<and> distinct (map fst (bindings G (os_release_lines contents))))"
proof -
  obtain f ms where d: "do_lines G (os_release_lines contents) [] prev = (f, ms)" by fastforce
  have "\<exists>xs. ms = prev @ xs" by (rule do_lines_grow [OF d])
  then have "ms = [] \<longleftrightarrow> prev = [] \<and> ms = prev" by auto
  then show ?thesis using new_from_data_parts [OF d] do_lines_messages [OF d] by auto
qed

section \<open>Writing and reading\<close>

definition print_os_release :: "glib \<Rightarrow> (string \<times> string) list \<Rightarrow> string" where
  "print_os_release G ps = concat (map (\<lambda>(k, v). k @ ''='' @ g_shell_quote G v @ [CHR 0x0A]) ps)"

definition os_key_ok :: "string \<Rightarrow> bool" where
  "os_key_ok k = (k \<noteq> [] \<and> hd k \<noteq> CHR ''#'' \<and> \<not> g_ascii_isspace (hd k) \<and>
     CHR ''='' \<notin> set k \<and> CHR 0x0A \<notin> set k \<and> CHR 0x00 \<notin> set k)"

definition os_quoted_ok :: "string \<Rightarrow> bool" where
  "os_quoted_ok q = (q \<noteq> [] \<and> \<not> g_ascii_isspace (last q) \<and> CHR 0x0A \<notin> set q \<and> CHR 0x00 \<notin> set q)"

lemma os_release_lines_print:
  "(\<And>l. l \<in> set ls \<Longrightarrow> CHR 0x0A \<notin> set l \<and> CHR 0x00 \<notin> set l) \<Longrightarrow>
   os_release_lines (concat (map (\<lambda>l. l @ [CHR 0x0A]) ls)) = ls"
proof -
  assume ok: "\<And>l. l \<in> set ls \<Longrightarrow> CHR 0x0A \<notin> set l \<and> CHR 0x00 \<notin> set l"
  have "split_on (\<lambda>c. c = CHR 0x0A) (concat (map (\<lambda>l. l @ [CHR 0x0A]) ls)) = ls @ [[]]"
    using ok
  proof (induction ls)
    case (Cons l ls)
    then have "split_on (\<lambda>c. c = CHR 0x0A) (l @ CHR 0x0A # concat (map (\<lambda>l. l @ [CHR 0x0A]) ls)) = l # ls @ [[]]"
      by (subst split_on_append_delim) auto
    then show ?case by simp
  qed simp
  moreover have "map (takeWhile (\<lambda>c. c \<noteq> CHR 0x00)) ls = ls"
    using ok by (intro map_idI takeWhile_eq_all_conv [THEN iffD2]) blast
  ultimately show ?thesis by (simp add: os_release_lines_def)
qed

lemma g_strstrip_id: "s \<noteq> [] \<Longrightarrow> \<not> g_ascii_isspace (hd s) \<Longrightarrow> \<not> g_ascii_isspace (last s) \<Longrightarrow> g_strstrip s = s"
proof -
  assume s: "s \<noteq> []" "\<not> g_ascii_isspace (hd s)" "\<not> g_ascii_isspace (last s)"
  have "dropWhile g_ascii_isspace s = s" using s by (cases s) auto
  moreover have "dropWhile g_ascii_isspace (rev s) = rev s"
    using s by (cases s rule: rev_cases) auto
  ultimately show ?thesis by (simp add: g_strstrip_def g_strchug_def g_strchomp_def)
qed

lemma classify_printed:
  assumes "shell_quoting (g_shell_quote G) (g_shell_unquote G)" "os_key_ok k" "os_quoted_ok (g_shell_quote G v)"
  shows "classify G (k @ ''='' @ g_shell_quote G v) = Binding k v"
proof -
  let ?l = "k @ ''='' @ g_shell_quote G v"
  have "g_strstrip ?l = ?l"
    by (rule g_strstrip_id) (use assms(2,3) in \<open>auto simp: os_key_ok_def os_quoted_ok_def\<close>)
  moreover have "strchr ?l CHR ''='' = Some (k, g_shell_quote G v)"
    using assms(2) by (simp add: strchr_Some_iff os_key_ok_def)
  moreover have "g_shell_unquote G (g_shell_quote G v) = Inr v" by (rule shell_quoting.unquote_quote [OF assms(1)])
  ultimately show ?thesis using assms(2) by (simp add: classify_def os_key_ok_def)
qed

text \<open>Writing an os-release file with shell-quoted values and reading it gives back the values of all keys
  (up to the two corrections for the Steam Runtime), without any diagnostic message.\<close>

theorem srt_os_info_new_from_data_roundtrip:
  assumes "shell_quoting (g_shell_quote G) (g_shell_unquote G)" and "distinct (map fst ps)"
    and "\<forall>(k, v) \<in> set ps. os_key_ok k \<and> os_quoted_ok (g_shell_quote G v)"
    and "info = srt_os_info_new_from_data G path res (print_os_release G ps) []"
  shows "map_of (os_fields info) k = with_special (map_of ps) k \<and> os_messages info = None"
proof -
  define ls where "ls = map (\<lambda>(k, v). k @ ''='' @ g_shell_quote G v) ps"
  have "print_os_release G ps = concat (map (\<lambda>l. l @ [CHR 0x0A]) ls)"
    unfolding print_os_release_def ls_def by (induction ps) auto
  moreover have "CHR 0x0A \<notin> set l \<and> CHR 0x00 \<notin> set l" if "l \<in> set ls" for l
    using that assms(3) by (auto simp: ls_def os_key_ok_def os_quoted_ok_def)
  ultimately have lines: "os_release_lines (print_os_release G ps) = ls" by (simp add: os_release_lines_print)
  have "bindings G ls = ps \<and> invalid_lines G ls = []"
    using assms(3) unfolding ls_def
    by (induction ps) (auto simp: lines_Cons classify_printed [OF assms(1), simplified] bindings_def [of _ "[]"] invalid_lines_def [of _ "[]"])
  moreover have "map_of (rev ps) = map_of ps" using map_of_rev_valid [of ps] assms(2) by (simp add: ht_valid_def)
  moreover obtain f ms where d: "do_lines G (os_release_lines (print_os_release G ps)) [] [] = (f, ms)" by fastforce
  ultimately show ?thesis
    using new_from_data_parts [OF d] do_lines_messages [OF d] assms(2) lines unfolding assms(4) by auto
qed

theorem srt_os_info_new_from_data_roundtrip_witness:
  "os_version_codename (srt_os_info_new_from_data glib_ref ''/etc/os-release'' None ''ID='' []) = None \<and>
   map_of (os_fields (srt_os_info_new_from_data glib_ref ''/etc/os-release'' None
     (print_os_release glib_ref [(''ID'', ''steamrt''), (''VERSION_ID'', ''1'')]) [])) ''VERSION_CODENAME'' = Some ''scout''"
proof -
  have ok: "\<forall>(k, v) \<in> set [(''ID'', ''steamrt''), (''VERSION_ID'', ''1'')]. os_key_ok k \<and> os_quoted_ok (g_shell_quote glib_ref v)"
    by code_simp
  have "distinct (map fst [(''ID'', ''steamrt''), (''VERSION_ID'', ''1'')])" by simp
  from srt_os_info_new_from_data_roundtrip [OF ref_shell.shell_quoting_axioms this ok refl]
  have "map_of (os_fields (srt_os_info_new_from_data glib_ref ''/etc/os-release'' None
     (print_os_release glib_ref [(''ID'', ''steamrt''), (''VERSION_ID'', ''1'')]) [])) ''VERSION_CODENAME'' = Some ''scout''"
    by (simp add: with_special_def)
  moreover have "os_version_codename (srt_os_info_new_from_data glib_ref ''/etc/os-release'' None ''ID='' []) = None" by code_simp
  ultimately show ?thesis by blast
qed

end
