(* ===== verification/Prog.thy ===== *)
theory Prog imports Kernel begin

text \<open>
  Programs as trees of system calls, for the code whose calls are interleaved with those of other
  processes (the logger). A program returns a value, aborts (a failed \<open>g_assert\<close>), or makes a call
  and continues with its answer. The tree does not fix what the calls do: \<open>runs\<close> gives the runs with
  any answers of the right type, so a property of all runs holds for every kernel.
\<close>

section \<open>Calls\<close>

text \<open>The calls of steam-runtime-tools/logger.c. \<open>C_open\<close> has the flags \<open>OPEN_FLAGS\<close>, for reading and
  appending, and creates the file; its flag adds \<open>O_EXCL\<close>. The lock of \<open>C_lock\<close> is on the whole file.
  \<open>C_strftime\<close> formats a time as \<open>[%F %T]\<close> and a space, if it can be converted to local time.\<close>

datatype call =
    C_open string bool
  | C_openat fd string
  | C_open_terminal string
  | C_opendir string
  | C_close fd
  | C_stat string
  | C_fstat fd
  | C_lock fd lock_cmd lock_type
  | C_unlink string
  | C_link string string
  | C_rename string string
  | C_write fd string
  | C_time
  | C_strftime int
  | C_log_opened
  | C_is_dir string
  | C_chdir string
  | C_set_cloexec fd bool
  | C_journal_stream string
  | C_is_journald fd
  | C_isatty fd
  | C_ttyname fd
  | C_same_file fd fd
  | C_getpid

datatype answer =
    A_unit "errno + unit"
  | A_fd "errno + nat"
  | A_stat "errno + stat"
  | A_count "errno + nat"
  | A_num int
  | A_text "string option"
  | A_bool bool

text \<open>A \<open>write\<close> never takes more than it is given.\<close>

fun answers :: "call \<Rightarrow> answer \<Rightarrow> bool" where
  "answers (C_open p x) a = (\<exists>r. a = A_fd r)"
| "answers (C_openat d p) a = (\<exists>r. a = A_fd r)"
| "answers (C_open_terminal p) a = (\<exists>r. a = A_fd r)"
| "answers (C_opendir p) a = (\<exists>r. a = A_fd r)"
| "answers (C_journal_stream p) a = (\<exists>r. a = A_fd r)"
| "answers (C_stat p) a = (\<exists>r. a = A_stat r)"
| "answers (C_fstat fd) a = (\<exists>r. a = A_stat r)"
| "answers (C_write fd s) a = (\<exists>r. a = A_count r \<and> (\<forall>n. r = Inr n \<longrightarrow> n \<le> length s))"
| "answers C_time a = (\<exists>n. a = A_num n)"
| "answers C_getpid a = (\<exists>n. a = A_num n)"
| "answers (C_strftime t) a = (\<exists>r. a = A_text r)"
| "answers C_log_opened a = (\<exists>s. a = A_text (Some s))"
| "answers (C_ttyname fd) a = (\<exists>r. a = A_text r)"
| "answers (C_is_dir p) a = (\<exists>b. a = A_bool b)"
| "answers (C_is_journald fd) a = (\<exists>b. a = A_bool b)"
| "answers (C_isatty fd) a = (\<exists>b. a = A_bool b)"
| "answers (C_same_file f g) a = (\<exists>b. a = A_bool b)"
| "answers c a = (\<exists>r. a = A_unit r)"

section \<open>Programs\<close>

datatype 'a prog = Ret 'a | Abort | Call call "answer \<Rightarrow> 'a prog"

primrec pbind :: "'a prog \<Rightarrow> ('a \<Rightarrow> 'b prog) \<Rightarrow> 'b prog" where
  "pbind (Ret a) f = f a"
| "pbind Abort f = Abort"
| "pbind (Call c k) f = Call c (\<lambda>a. pbind (k a) f)"

lemma pbind_Ret [simp]: "pbind p Ret = p"
  by (induction p) (auto simp: fun_eq_iff)

lemma pbind_assoc: "pbind (pbind p f) g = pbind p (\<lambda>a. pbind (f a) g)"
  by (induction p) auto

text \<open>The calls with their types. An answer of another type is not among those of the call.\<close>

definition call_unit :: "call \<Rightarrow> (errno + unit) prog" where
  "call_unit c = Call c (\<lambda>a. case a of A_unit r \<Rightarrow> Ret r | _ \<Rightarrow> Abort)"

definition call_fd :: "call \<Rightarrow> (errno + fd) prog" where
  "call_fd c = Call c (\<lambda>a. case a of A_fd (Inr n) \<Rightarrow> Ret (Inr (int n)) | A_fd (Inl e) \<Rightarrow> Ret (Inl e) | _ \<Rightarrow> Abort)"

definition call_stat :: "call \<Rightarrow> (errno + stat) prog" where
  "call_stat c = Call c (\<lambda>a. case a of A_stat r \<Rightarrow> Ret r | _ \<Rightarrow> Abort)"

definition call_num :: "call \<Rightarrow> int prog" where
  "call_num c = Call c (\<lambda>a. case a of A_num n \<Rightarrow> Ret n | _ \<Rightarrow> Abort)"

definition call_text :: "call \<Rightarrow> string option prog" where
  "call_text c = Call c (\<lambda>a. case a of A_text r \<Rightarrow> Ret r | _ \<Rightarrow> Abort)"

definition call_bool :: "call \<Rightarrow> bool prog" where
  "call_bool c = Call c (\<lambda>a. case a of A_bool b \<Rightarrow> Ret b | _ \<Rightarrow> Abort)"

text \<open>\<open>glnx_close_fd\<close> and \<open>glnx_loop_write\<close> of libglnx; \<open>write\<close> is retried after \<open>EINTR\<close>.\<close>

definition close_fd :: "fd \<Rightarrow> unit prog" where
  "close_fd fd = (if fd \<ge> 0 then pbind (call_unit (C_close fd)) (\<lambda>_. Ret ()) else Ret ())"

function loop_write :: "fd \<Rightarrow> string \<Rightarrow> bool prog" where
  "loop_write fd buf =
     (if fd < 0 then Ret False
      else if buf = [] then Ret True
      else Call (C_write fd buf) (\<lambda>a. case a of
          A_count (Inr k) \<Rightarrow> if k = 0 then Ret False else loop_write fd (drop k buf)
        | A_count (Inl _) \<Rightarrow> Ret False
        | _ \<Rightarrow> Abort))"
  by pat_completeness auto
termination
  by (relation "measure (\<lambda>(fd, buf). length buf)") auto

declare loop_write.simps [simp del]

section \<open>Runs\<close>

type_synonym trace = "(call \<times> answer) list"

primrec runs :: "'a prog \<Rightarrow> trace \<Rightarrow> 'a \<Rightarrow> bool" where
  "runs (Ret a) tr r = (tr = [] \<and> r = a)"
| "runs Abort tr r = False"
| "runs (Call c k) tr r = (\<exists>a tr'. tr = (c, a) # tr' \<and> answers c a \<and> runs (k a) tr' r)"

text \<open>No assertion fails, whatever the answers.\<close>

primrec no_abort :: "'a prog \<Rightarrow> bool" where
  "no_abort (Ret a) = True"
| "no_abort Abort = False"
| "no_abort (Call c k) = (\<forall>a. answers c a \<longrightarrow> no_abort (k a))"

text \<open>Every value that the program may return has a property.\<close>

primrec leaves :: "('a \<Rightarrow> bool) \<Rightarrow> 'a prog \<Rightarrow> bool" where
  "leaves P (Ret a) = P a"
| "leaves P Abort = True"
| "leaves P (Call c k) = (\<forall>a. leaves P (k a))"

lemma leaves_mono: "leaves P p \<Longrightarrow> (\<And>x. P x \<Longrightarrow> Q x) \<Longrightarrow> leaves Q p"
  by (induction p) auto

lemma leaves_bind: "leaves P (pbind p f) = leaves (\<lambda>x. leaves P (f x)) p"
  by (induction p) auto

lemma leaves_True [simp]: "leaves (\<lambda>_. True) p"
  by (induction p) auto

lemma leaves_bindI: "leaves P p \<Longrightarrow> (\<And>x. P x \<Longrightarrow> leaves Q (f x)) \<Longrightarrow> leaves Q (pbind p f)"
  by (induction p) auto

lemma pbind_cong_leaves: "leaves (\<lambda>x. f x = g x) p \<Longrightarrow> pbind p f = pbind p g"
  by (induction p) (auto simp: fun_eq_iff)

text \<open>Every call that the program may make has a property.\<close>

primrec calls :: "(call \<Rightarrow> bool) \<Rightarrow> 'a prog \<Rightarrow> bool" where
  "calls P (Ret a) = True"
| "calls P Abort = True"
| "calls P (Call c k) = (P c \<and> (\<forall>a. calls P (k a)))"

lemma calls_bind: "calls P p \<Longrightarrow> leaves (\<lambda>x. calls P (f x)) p \<Longrightarrow> calls P (pbind p f)"
  by (induction p) auto

lemma calls_mono: "calls P p \<Longrightarrow> (\<And>c. P c \<Longrightarrow> Q c) \<Longrightarrow> calls Q p"
  by (induction p) auto

lemma calls_runs: "calls P p \<Longrightarrow> runs p tr x \<Longrightarrow> (c, a) \<in> set tr \<Longrightarrow> P c"
proof (induction p arbitrary: tr)
  case (Call d k)
  then obtain b tr' where "tr = (d, b) # tr'" "runs (k b) tr' x" by auto
  then show ?case using Call.prems Call.IH [of "k b" tr'] by auto
qed auto

lemma leaves_runs: "leaves P p \<Longrightarrow> runs p tr x \<Longrightarrow> P x"
  by (induction p arbitrary: tr) auto

lemma runs_bind: "runs (pbind p f) tr r = (\<exists>tr1 tr2 x. tr = tr1 @ tr2 \<and> runs p tr1 x \<and> runs (f x) tr2 r)"
proof (induction p arbitrary: tr)
  case (Call c k)
  show ?case
  proof
    assume "runs (pbind (Call c k) f) tr r"
    then obtain a tr' where "tr = (c, a) # tr'" "answers c a" "runs (pbind (k a) f) tr' r" by auto
    then show "\<exists>tr1 tr2 x. tr = tr1 @ tr2 \<and> runs (Call c k) tr1 x \<and> runs (f x) tr2 r"
      using Call.IH [of "k a" tr'] by (force intro: exI [of _ "(c, a) # _"])
  next
    assume "\<exists>tr1 tr2 x. tr = tr1 @ tr2 \<and> runs (Call c k) tr1 x \<and> runs (f x) tr2 r"
    then show "runs (pbind (Call c k) f) tr r" using Call.IH by fastforce
  qed
qed auto

lemma no_abort_bind: "no_abort p \<Longrightarrow> (\<And>tr x. runs p tr x \<Longrightarrow> no_abort (f x)) \<Longrightarrow> no_abort (pbind p f)"
proof (induction p)
  case (Call c k)
  have "no_abort (pbind (k a) f)" if "answers c a" for a
  proof (rule Call.IH)
    show "no_abort (k a)" using Call.prems(1) that by simp
    show "no_abort (f x)" if "runs (k a) tr x" for tr x
      using Call.prems(2) [of "(c, a) # tr" x] that \<open>answers c a\<close> by simp
  qed simp
  then show ?case by simp
qed auto

text \<open>A program without abort has a run with any answers.\<close>

lemma no_abort_runs: "no_abort p \<Longrightarrow> \<exists>tr r. runs p tr r"
proof (induction p)
  case (Call c k)
  have "\<exists>a. answers c a" by (cases c) (auto intro: exI [of _ "A_count (Inr 0)"])
  then obtain a where a: "answers c a" ..
  then obtain tr r where "runs (k a) tr r" using Call by force
  then have "runs (Call c k) ((c, a) # tr) r" using a by simp
  then show ?case by blast
next
  case (Ret a)
  have "runs (Ret a) [] a" by simp
  then show ?case by blast
qed simp

lemma runs_call_unit: "runs (call_unit c) tr r = (answers c (A_unit r) \<and> tr = [(c, A_unit r)])"
proof -
  have "runs (case a of A_unit x \<Rightarrow> Ret x | _ \<Rightarrow> Abort) t r = (a = A_unit r \<and> t = [])" for a t
    by (cases a) auto
  then show ?thesis by (auto simp: call_unit_def)
qed

lemma runs_call_stat: "runs (call_stat c) tr r = (answers c (A_stat r) \<and> tr = [(c, A_stat r)])"
proof -
  have "runs (case a of A_stat x \<Rightarrow> Ret x | _ \<Rightarrow> Abort) t r = (a = A_stat r \<and> t = [])" for a t
    by (cases a) auto
  then show ?thesis by (auto simp: call_stat_def)
qed

lemma runs_call_num: "runs (call_num c) tr r = (answers c (A_num r) \<and> tr = [(c, A_num r)])"
proof -
  have "runs (case a of A_num x \<Rightarrow> Ret x | _ \<Rightarrow> Abort) t r = (a = A_num r \<and> t = [])" for a t
    by (cases a) auto
  then show ?thesis by (auto simp: call_num_def)
qed

lemma runs_call_text: "runs (call_text c) tr r = (answers c (A_text r) \<and> tr = [(c, A_text r)])"
proof -
  have "runs (case a of A_text x \<Rightarrow> Ret x | _ \<Rightarrow> Abort) t r = (a = A_text r \<and> t = [])" for a t
    by (cases a) auto
  then show ?thesis by (auto simp: call_text_def)
qed

lemma runs_call_bool: "runs (call_bool c) tr r = (answers c (A_bool r) \<and> tr = [(c, A_bool r)])"
proof -
  have "runs (case a of A_bool x \<Rightarrow> Ret x | _ \<Rightarrow> Abort) t r = (a = A_bool r \<and> t = [])" for a t
    by (cases a) auto
  then show ?thesis by (auto simp: call_bool_def)
qed

lemma runs_call_fd: "runs (call_fd c) tr r = (case r of
    Inl e \<Rightarrow> answers c (A_fd (Inl e)) \<and> tr = [(c, A_fd (Inl e))]
  | Inr fd \<Rightarrow> (\<exists>n. fd = int n \<and> answers c (A_fd (Inr n)) \<and> tr = [(c, A_fd (Inr n))]))"
proof -
  have l: "runs (case a of A_fd (Inr n) \<Rightarrow> Ret (Inr (int n)) | A_fd (Inl e) \<Rightarrow> Ret (Inl e) | _ \<Rightarrow> Abort) t (Inl e) =
      (t = [] \<and> a = A_fd (Inl e))" for a t e
    by (cases a) (auto split: sum.splits)
  have r: "runs (case a of A_fd (Inr n) \<Rightarrow> Ret (Inr (int n)) | A_fd (Inl e) \<Rightarrow> Ret (Inl e) | _ \<Rightarrow> Abort) t (Inr fd) =
      (t = [] \<and> (\<exists>n. fd = int n \<and> a = A_fd (Inr n)))" for a t fd
    by (cases a) (auto split: sum.splits)
  show ?thesis by (cases r) (auto simp: call_fd_def l r)
qed

lemma leaves_call_unit [simp]: "leaves P (call_unit c) = (\<forall>r. P r)"
proof -
  have "leaves P (case a of A_unit x \<Rightarrow> Ret x | _ \<Rightarrow> Abort) = (\<forall>x. a = A_unit x \<longrightarrow> P x)" for a by (cases a) auto
  then show ?thesis by (auto simp: call_unit_def)
qed

lemma leaves_call_stat [simp]: "leaves P (call_stat c) = (\<forall>r. P r)"
proof -
  have "leaves P (case a of A_stat x \<Rightarrow> Ret x | _ \<Rightarrow> Abort) = (\<forall>x. a = A_stat x \<longrightarrow> P x)" for a by (cases a) auto
  then show ?thesis by (auto simp: call_stat_def)
qed

lemma leaves_call_num [simp]: "leaves P (call_num c) = (\<forall>r. P r)"
proof -
  have "leaves P (case a of A_num x \<Rightarrow> Ret x | _ \<Rightarrow> Abort) = (\<forall>x. a = A_num x \<longrightarrow> P x)" for a by (cases a) auto
  then show ?thesis by (auto simp: call_num_def)
qed

lemma leaves_call_text [simp]: "leaves P (call_text c) = (\<forall>r. P r)"
proof -
  have "leaves P (case a of A_text x \<Rightarrow> Ret x | _ \<Rightarrow> Abort) = (\<forall>x. a = A_text x \<longrightarrow> P x)" for a by (cases a) auto
  then show ?thesis by (auto simp: call_text_def)
qed

lemma leaves_call_fd [simp]: "leaves P (call_fd c) = ((\<forall>e. P (Inl e)) \<and> (\<forall>n. P (Inr (int n))))"
proof -
  have "leaves P (case a of A_fd (Inr n) \<Rightarrow> Ret (Inr (int n)) | A_fd (Inl e) \<Rightarrow> Ret (Inl e) | _ \<Rightarrow> Abort) =
      ((\<forall>e. a = A_fd (Inl e) \<longrightarrow> P (Inl e)) \<and> (\<forall>n. a = A_fd (Inr n) \<longrightarrow> P (Inr (int n))))" for a
    by (cases a) (auto split: sum.splits)
  then show ?thesis by (auto simp: call_fd_def)
qed

lemma calls_call [simp]: "calls P (call_unit c) = P c" "calls P (call_stat c) = P c" "calls P (call_num c) = P c"
  "calls P (call_text c) = P c" "calls P (call_fd c) = P c" "calls P (call_bool c) = P c"
  by (auto simp: call_unit_def call_stat_def call_num_def call_text_def call_fd_def call_bool_def split: answer.splits sum.splits)

lemmas runs_calls = runs_call_unit runs_call_stat runs_call_num runs_call_text runs_call_bool runs_call_fd

section \<open>What is written\<close>

text \<open>The bytes that a set of descriptors took, in order, and whether a write to one of them failed.\<close>

fun sent :: "fd set \<Rightarrow> trace \<Rightarrow> string" where
  "sent F [] = []"
| "sent F ((C_write f s, A_count (Inr n)) # tr) = (if f \<in> F then take n s else []) @ sent F tr"
| "sent F (_ # tr) = sent F tr"

fun write_failed :: "fd set \<Rightarrow> trace \<Rightarrow> bool" where
  "write_failed F [] = False"
| "write_failed F ((C_write f s, A_count r) # tr) = (f \<in> F \<and> (case r of Inl _ \<Rightarrow> True | Inr k \<Rightarrow> k = 0 \<and> s \<noteq> []) \<or> write_failed F tr)"
| "write_failed F (_ # tr) = write_failed F tr"

lemma sent_append [simp]: "sent F (tr @ tr') = sent F tr @ sent F tr'"
  by (induction F tr rule: sent.induct) auto

lemma write_failed_append [simp]: "write_failed F (tr @ tr') = (write_failed F tr \<or> write_failed F tr')"
  by (induction F tr rule: write_failed.induct) auto

definition is_write :: "call \<Rightarrow> bool" where
  "is_write c = (case c of C_write _ _ \<Rightarrow> True | _ \<Rightarrow> False)"

lemma no_write_sent: "\<forall>(c, a) \<in> set tr. \<not> is_write c \<Longrightarrow> sent F tr = [] \<and> \<not> write_failed F tr"
proof (induction tr)
  case (Cons x tr)
  then show ?case by (cases x; cases "fst x"; cases "snd x") (auto simp: is_write_def)
qed simp

text \<open>Only writes to the descriptor take place, and if none fails everything arrives.\<close>

lemma loop_write_calls: "runs (loop_write fd buf) tr r \<Longrightarrow> (c, a) \<in> set tr \<Longrightarrow> \<exists>s. c = C_write fd s"
proof (induction fd buf arbitrary: tr rule: loop_write.induct)
  case (1 fd buf)
  show ?case using "1.prems" "1.IH"
    by (subst (asm) loop_write.simps) (fastforce split: if_splits sum.splits)
qed

lemma loop_write_sent:
  "runs (loop_write fd buf) tr r \<Longrightarrow> \<not> write_failed F tr \<Longrightarrow> 0 \<le> fd \<Longrightarrow> sent F tr = (if fd \<in> F then buf else [])"
proof (induction fd buf arbitrary: tr rule: loop_write.induct)
  case (1 fd buf)
  show ?case
  proof (cases "buf = []")
    case True
    then have "tr = []" using "1.prems" by (simp add: loop_write.simps [of fd "[]"])
    then show ?thesis using True by simp
  next
    case False
    then obtain q tr' where tr: "tr = (C_write fd buf, A_count q) # tr'" "\<forall>n. q = Inr n \<longrightarrow> n \<le> length buf"
      "runs (case q of Inr k \<Rightarrow> if k = 0 then Ret False else loop_write fd (drop k buf) | Inl _ \<Rightarrow> Ret False) tr' r"
      using "1.prems" by (auto simp: loop_write.simps [of fd buf] split: sum.splits)
    show ?thesis
    proof (cases q)
      case (Inl e)
      then show ?thesis using tr "1.prems"(2) by auto
    next
      case (Inr k)
      show ?thesis
      proof (cases "k = 0")
        case True
        then show ?thesis using tr Inr "1.prems"(2) by auto
      next
        case k: False
        have "runs (loop_write fd (drop k buf)) tr' r" using tr(3) Inr k by simp
        then show ?thesis using "1.IH" [of k tr'] False Inr k tr(1,2) "1.prems"(2,3) by auto
      qed
    qed
  qed
qed

lemma loop_write_other: "runs (loop_write fd buf) tr r \<Longrightarrow> fd \<notin> F \<Longrightarrow> sent F tr = [] \<and> \<not> write_failed F tr"
proof (induction fd buf arbitrary: tr rule: loop_write.induct)
  case (1 fd buf)
  show ?case using "1.prems" "1.IH"
    by (subst (asm) loop_write.simps) (fastforce split: if_splits sum.splits)
qed

lemma leaves_close_fd [simp]: "leaves P (close_fd fd) = P ()"
  by (simp add: close_fd_def leaves_bind)

lemma calls_close_fd [intro]: "(0 \<le> fd \<Longrightarrow> P (C_close fd)) \<Longrightarrow> calls P (close_fd fd)"
  by (auto simp: close_fd_def intro!: calls_bind)

lemma no_abort_loop_write [simp]: "no_abort (loop_write fd buf)"
proof (induction fd buf rule: loop_write.induct)
  case (1 fd buf)
  then show ?case by (subst loop_write.simps) (auto split: sum.splits)
qed

section \<open>An example of a kernel\<close>

text \<open>It answers every call with success, opens descriptor 9, and records the calls.\<close>

definition demo_answer :: "call \<Rightarrow> answer" where
  "demo_answer c = (case c of
      C_open _ _ \<Rightarrow> A_fd (Inr 9) | C_openat _ _ \<Rightarrow> A_fd (Inr 9) | C_open_terminal _ \<Rightarrow> A_fd (Inr 9) | C_opendir _ \<Rightarrow> A_fd (Inr 9)
    | C_journal_stream _ \<Rightarrow> A_fd (Inr 9)
    | C_stat _ \<Rightarrow> A_stat (Inr \<lparr> st_dev = 1, st_ino = 7, st_mode = 0x81A4, st_size = 10 \<rparr>)
    | C_fstat _ \<Rightarrow> A_stat (Inr \<lparr> st_dev = 1, st_ino = 7, st_mode = 0x81A4, st_size = 10 \<rparr>)
    | C_write _ s \<Rightarrow> A_count (Inr (length s))
    | C_time \<Rightarrow> A_num 5 | C_getpid \<Rightarrow> A_num 5
    | C_strftime _ \<Rightarrow> A_text (Some ''[5] '') | C_log_opened \<Rightarrow> A_text (Some ''Log opened'') | C_ttyname _ \<Rightarrow> A_text (Some ''/dev/pts/5'')
    | C_is_dir _ \<Rightarrow> A_bool True | C_is_journald _ \<Rightarrow> A_bool True | C_isatty _ \<Rightarrow> A_bool True | C_same_file _ _ \<Rightarrow> A_bool True
    | _ \<Rightarrow> A_unit (Inr ()))"

lemma demo_answers: "answers c (demo_answer c)"
  by (cases c) (auto simp: demo_answer_def)

definition demo_trace :: "trace \<Rightarrow> bool" where
  "demo_trace tr = (\<forall>(c, a) \<in> set tr. a = demo_answer c)"

lemma demo_runs: "no_abort p \<Longrightarrow> \<exists>tr r. runs p tr r \<and> demo_trace tr"
proof (induction p)
  case (Call c k)
  then obtain tr r where "runs (k (demo_answer c)) tr r" "demo_trace tr" using demo_answers [of c] by (meson no_abort.simps(3) rangeI)
  then have "runs (Call c k) ((c, demo_answer c) # tr) r" "demo_trace ((c, demo_answer c) # tr)"
    using demo_answers [of c] by (auto simp: demo_trace_def)
  then show ?case by blast
next
  case (Ret a)
  have "runs (Ret a) [] a" "demo_trace []" by (auto simp: demo_trace_def)
  then show ?case by blast
qed simp

lemma demo_writes: "demo_trace tr \<Longrightarrow> \<not> write_failed F tr"
proof (induction tr)
  case (Cons x tr)
  then have IH: "\<not> write_failed F tr" by (simp add: demo_trace_def)
  have "x = (fst x, demo_answer (fst x))" using Cons.prems by (cases x) (simp add: demo_trace_def)
  moreover have "\<not> write_failed F ((c, demo_answer c) # tr)" for c using IH by (cases c) (auto simp: demo_answer_def)
  ultimately show ?case by metis
qed simp

end
