(* ===== verification/Logger.thy ===== *)
theory Logger imports Prog EnvOverlay begin

text \<open>
  \<open>steam-runtime-tools/logger.c\<close> and the option parser of \<open>bin/logger.c\<close>: the logger reads lines from
  its standard input, finds out their level, and writes them to a log file that it rotates, to the
  Journal and to a terminal. Everything after the start of the process is modelled, as programs
  over the calls of \<open>Prog\<close>; debugging messages of the logger itself are left out.
\<close>

section \<open>Levels\<close>

definition LOG_ERR :: nat where "LOG_ERR = 3"
definition LOG_WARNING :: nat where "LOG_WARNING = 4"
definition LOG_NOTICE :: nat where "LOG_NOTICE = 5"
definition LOG_INFO :: nat where "LOG_INFO = 6"
definition LOG_DEBUG :: nat where "LOG_DEBUG = 7"

definition SRT_SYSLOG_LEVEL_DEFAULT_FILE :: nat where "SRT_SYSLOG_LEVEL_DEFAULT_FILE = LOG_DEBUG"
definition SRT_SYSLOG_LEVEL_DEFAULT_JOURNAL :: nat where "SRT_SYSLOG_LEVEL_DEFAULT_JOURNAL = LOG_DEBUG"
definition SRT_SYSLOG_LEVEL_DEFAULT_TERMINAL :: nat where "SRT_SYSLOG_LEVEL_DEFAULT_TERMINAL = LOG_INFO"
definition SRT_SYSLOG_LEVEL_DEFAULT_LINE :: nat where "SRT_SYSLOG_LEVEL_DEFAULT_LINE = LOG_INFO"

definition syslog_level_names :: "string list list" where
  "syslog_level_names =
    [[''emerg'', ''emergency''], [''alert''], [''crit'', ''critical''], [''err'', ''error'', ''e''],
     [''warning'', ''warn'', ''w''], [''notice'', ''n''], [''info'', ''i''], [''debug'', ''d'']]"

definition g_ascii_tolower :: "char \<Rightarrow> char" where
  "g_ascii_tolower c = (let n = of_char c :: nat in if 65 \<le> n \<and> n \<le> 90 then char_of (n + 32) else c)"

text \<open>\<open>g_ascii_strcasecmp (a, b) == 0\<close> and \<open>g_ascii_string_to_unsigned\<close> in base 10 from 0.\<close>

definition g_ascii_strcaseeq :: "string \<Rightarrow> string \<Rightarrow> bool" where
  "g_ascii_strcaseeq a b = (map g_ascii_tolower a = map g_ascii_tolower b)"

definition g_ascii_string_to_unsigned :: "string \<Rightarrow> nat \<Rightarrow> nat option" where
  "g_ascii_string_to_unsigned s m =
     (if s \<noteq> [] \<and> list_all g_ascii_isdigit s \<and> digits_value 10 s \<le> m then Some (digits_value 10 s) else None)"

fun find_level :: "string \<Rightarrow> nat \<Rightarrow> string list list \<Rightarrow> nat option" where
  "find_level s level [] = None"
| "find_level s level (names # rest) =
     (if list_ex (\<lambda>n. g_ascii_strcaseeq n s) names then Some level else find_level s (level + 1) rest)"

definition srt_syslog_level_parse :: "string \<Rightarrow> gerror + nat" where
  "srt_syslog_level_parse s =
     (if s \<noteq> [] \<and> g_ascii_isdigit (hd s) then
        (case g_ascii_string_to_unsigned s (length syslog_level_names - 1) of
           None \<Rightarrow> Inl G_NUMBER_PARSER_ERROR
         | Some level \<Rightarrow> Inr level)
      else case find_level s 0 syslog_level_names of
        Some level \<Rightarrow> Inr level
      | None \<Rightarrow> Inl G_OPTION_ERROR_BAD_VALUE)"

text \<open>\<open>opt_rotate_cb\<close>: the limit in bytes.\<close>

definition opt_rotate_cb :: "string \<Rightarrow> gerror + int" where
  "opt_rotate_cb value =
     (let (i64, endptr) = strtoll value 10;
          unit = srt_byte_suffix_to_multiplier endptr
      in if i64 < 0 \<or> endptr = value \<or> unit = 0 \<or> i64 \<ge> (2 ^ 63 - 1) div unit then Inl G_OPTION_ERROR_BAD_VALUE
         else Inr (i64 * unit))"

section \<open>The object\<close>

text \<open>Levels are not negative.\<close>

record logger =
  lg_prgname :: "string option"
  lg_argv0 :: "string option"
  lg_identifier :: "string option"
  lg_filename :: "string option"
  lg_previous_filename :: "string option"
  lg_new_filename :: "string option"
  lg_log_dir :: "string option"
  lg_terminal :: "string option"
  lg_file_stat :: stat
  lg_child_ready_to_parent :: fd
  lg_pipe_from_parent :: fd
  lg_original_stderr :: fd
  lg_file_fd :: fd
  lg_journal_fd :: fd
  lg_terminal_fd :: fd
  lg_max_bytes :: int
  lg_default_level :: nat
  lg_file_level :: nat
  lg_journal_level :: nat
  lg_terminal_level :: nat
  lg_background :: bool
  lg_sh_syntax :: bool
  lg_timestamps :: bool
  lg_use_file :: bool
  lg_use_journal :: bool
  lg_use_stderr :: bool
  lg_use_terminal :: bool
  lg_use_terminal_colors :: bool
  lg_parse_level_prefix :: bool

definition no_stat :: stat where "no_stat = \<lparr> st_dev = 0, st_ino = 0, st_mode = 0, st_size = 0 \<rparr>"

definition srt_logger_init :: logger where
  "srt_logger_init =
     \<lparr> lg_prgname = None, lg_argv0 = None, lg_identifier = None, lg_filename = None, lg_previous_filename = None, lg_new_filename = None,
       lg_log_dir = None, lg_terminal = None, lg_file_stat = no_stat, lg_child_ready_to_parent = - 1,
       lg_pipe_from_parent = - 1, lg_original_stderr = - 1, lg_file_fd = - 1, lg_journal_fd = - 1, lg_terminal_fd = - 1,
       lg_max_bytes = - 1, lg_default_level = SRT_SYSLOG_LEVEL_DEFAULT_LINE, lg_file_level = SRT_SYSLOG_LEVEL_DEFAULT_FILE,
       lg_journal_level = SRT_SYSLOG_LEVEL_DEFAULT_JOURNAL, lg_terminal_level = SRT_SYSLOG_LEVEL_DEFAULT_TERMINAL,
       lg_background = False, lg_sh_syntax = False, lg_timestamps = True, lg_use_file = False, lg_use_journal = False,
       lg_use_stderr = False, lg_use_terminal = False, lg_use_terminal_colors = False, lg_parse_level_prefix = False \<rparr>"

definition srt_logger_new_take :: "string option \<Rightarrow> bool \<Rightarrow> nat \<Rightarrow> string option \<Rightarrow> fd \<Rightarrow> nat \<Rightarrow> string option \<Rightarrow> bool \<Rightarrow> fd \<Rightarrow>
    nat \<Rightarrow> string option \<Rightarrow> int \<Rightarrow> fd \<Rightarrow> bool \<Rightarrow> bool \<Rightarrow> bool \<Rightarrow> fd \<Rightarrow> nat \<Rightarrow> bool \<Rightarrow> logger" where
  "srt_logger_new_take argv0 background default_line_level filename file_fd file_level identifier journal journal_fd
     journal_level log_dir max_bytes original_stderr parse_level_prefix sh_syntax terminal terminal_fd terminal_level timestamps =
   srt_logger_init
     \<lparr> lg_argv0 := argv0, lg_background := background, lg_default_level := default_line_level, lg_filename := filename,
       lg_file_fd := file_fd, lg_file_level := file_level, lg_identifier := identifier, lg_journal_fd := journal_fd,
       lg_journal_level := journal_level, lg_log_dir := log_dir, lg_max_bytes := max_bytes, lg_use_file := True,
       lg_use_journal := journal, lg_original_stderr := original_stderr, lg_parse_level_prefix := parse_level_prefix,
       lg_sh_syntax := sh_syntax, lg_use_terminal := terminal, lg_terminal_fd := terminal_fd,
       lg_terminal_level := terminal_level, lg_timestamps := timestamps \<rparr>"

definition STDERR_FILENO :: fd where "STDERR_FILENO = 2"

definition srt_logger_finalize :: "logger \<Rightarrow> unit prog" where
  "srt_logger_finalize self =
     pbind (close_fd (lg_child_ready_to_parent self)) (\<lambda>_.
     pbind (close_fd (lg_pipe_from_parent self)) (\<lambda>_.
     pbind (close_fd (lg_file_fd self)) (\<lambda>_.
     pbind (if lg_journal_fd self > STDERR_FILENO then close_fd (lg_journal_fd self) else Ret ()) (\<lambda>_.
     if lg_terminal_fd self > STDERR_FILENO then close_fd (lg_terminal_fd self) else Ret ()))))"

section \<open>Setting up\<close>

text \<open>Each step returns whether it failed, and the object. The environment and the home directory of
  the process are arguments.\<close>

type_synonym setup_step = "((gerror + unit) \<times> logger) prog"

definition and_then :: "setup_step \<Rightarrow> (logger \<Rightarrow> setup_step) \<Rightarrow> setup_step" where
  "and_then p f = pbind p (\<lambda>(r, self). case r of Inl e \<Rightarrow> Ret (Inl e, self) | Inr _ \<Rightarrow> f self)"

definition failed :: "gerror \<Rightarrow> logger \<Rightarrow> setup_step" where "failed e self = Ret (Inl e, self)"
definition succeeded :: "logger \<Rightarrow> setup_step" where "succeeded self = Ret (Inr (), self)"

definition setup_identifier :: "logger \<Rightarrow> logger" where
  "setup_identifier self =
     (let s1 = (if lg_identifier self = None \<and> lg_filename self = None \<and> lg_argv0 self \<noteq> None
                then self\<lparr> lg_identifier := lg_argv0 self \<rparr> else self);
          s2 = (case (lg_identifier s1, lg_filename s1) of
                  (None, Some f) \<Rightarrow> if f \<noteq> [] then
                      s1\<lparr> lg_identifier := Some (case strrchr f CHR ''.'' of Some (a, _) \<Rightarrow> if a \<noteq> [] then a else f | None \<Rightarrow> f) \<rparr>
                    else s1
                | _ \<Rightarrow> s1)
      in case (lg_identifier s2, lg_filename s2) of
           (Some i, None) \<Rightarrow> if i \<noteq> [] then s2\<lparr> lg_filename := Some (i @ ''.txt'') \<rparr> else s2
         | _ \<Rightarrow> s2)"

definition INT_MAX :: nat where "INT_MAX = 2 ^ 31 - 1"

definition setup_filenames :: "logger \<Rightarrow> (gerror + unit) \<times> logger" where
  "setup_filenames self =
     (case lg_filename self of
        Some f \<Rightarrow>
          if lg_use_file self \<and> f \<noteq> [] then
            if CHR ''/'' \<in> set f then (Inl (G_IO_ERROR IO_FAILED), self)
            else if hd f = CHR ''.'' then (Inl (G_IO_ERROR IO_FAILED), self)
            else if length f > INT_MAX then (Inl (G_IO_ERROR IO_FAILED), self)
            else (Inr (), case strrchr f CHR ''.'' of
                None \<Rightarrow> self\<lparr> lg_previous_filename := Some (f @ ''.previous''), lg_new_filename := Some (''.'' @ f @ ''.new'') \<rparr>
              | Some (a, b) \<Rightarrow> self\<lparr> lg_previous_filename := Some (a @ ''.previous.'' @ b),
                                    lg_new_filename := Some (''.'' @ a @ ''.new.'' @ b) \<rparr>)
          else (Inr (), self\<lparr> lg_use_file := False, lg_filename := None \<rparr>)
      | None \<Rightarrow> (Inr (), self\<lparr> lg_use_file := False \<rparr>))"

text \<open>The flags: whether standard error is the Journal, and whether output is redirected.\<close>

definition setup_journal :: "bool \<Rightarrow> logger \<Rightarrow> ((gerror + bool) \<times> logger) prog" where
  "setup_journal stderr_is_journal self =
     (let s1 = (if stderr_is_journal then self\<lparr> lg_use_journal := True \<rparr> else self) in
      if lg_journal_fd s1 \<ge> 0 then
        (let s2 = s1\<lparr> lg_use_journal := True \<rparr> in
         pbind (call_unit (C_set_cloexec (lg_journal_fd s2) (lg_journal_fd s2 > STDERR_FILENO))) (\<lambda>r.
         Ret (case r of Inl e \<Rightarrow> Inl (throw_errno e) | Inr _ \<Rightarrow> Inr False, s2)))
      else if (case lg_identifier s1 of Some i \<Rightarrow> i \<noteq> [] | None \<Rightarrow> False) \<and> lg_use_journal s1 then
        pbind (call_fd (C_journal_stream (the (lg_identifier s1)))) (\<lambda>r.
        Ret (case r of
            Inr fd \<Rightarrow> (Inr True, s1\<lparr> lg_journal_fd := fd \<rparr>)
          | Inl _ \<Rightarrow> (Inr False, if stderr_is_journal then s1\<lparr> lg_journal_fd := STDERR_FILENO \<rparr>
                                 else s1\<lparr> lg_journal_fd := - 1, lg_use_journal := False \<rparr>)))
      else if stderr_is_journal then
        (if lg_use_journal s1 then Ret (Inr False, s1\<lparr> lg_journal_fd := STDERR_FILENO \<rparr>) else Abort)
      else Ret (Inr False, s1))"

definition setup_log_dir :: "glib \<Rightarrow> string list \<Rightarrow> string \<Rightarrow> logger \<Rightarrow> setup_step" where
  "setup_log_dir G envp home self =
     (let s1 = (if lg_log_dir self = None \<and> lg_use_file self then
                  self\<lparr> lg_log_dir := Some (case g_environ_getenv G envp ''SRT_LOG_DIR'' of
                      Some dir \<Rightarrow> dir
                    | None \<Rightarrow> g_build_filename G [home, ''.steam'', ''steam'',
                        (case g_environ_getenv G envp ''STEAM_CLIENT_LOG_FOLDER'' of Some dir \<Rightarrow> dir | None \<Rightarrow> ''logs'')]) \<rparr>
                else self)
      in if lg_use_file s1 then
           pbind (call_bool (C_is_dir (the (lg_log_dir s1)))) (\<lambda>b.
           if b then succeeded s1 else failed (G_IO_ERROR IO_FAILED) s1)
         else succeeded s1)"

text \<open>The log file; the result says whether output is redirected.\<close>

definition setup_new_file :: "logger \<Rightarrow> ((gerror + bool) \<times> logger) prog" where
  "setup_new_file self =
     pbind (call_fd (C_opendir (the (lg_log_dir self)))) (\<lambda>d.
     case d of
       Inl e \<Rightarrow> Ret (Inl (throw_errno e), self)
     | Inr dir_fd \<Rightarrow>
         pbind
           (pbind (call_fd (C_openat dir_fd (the (lg_filename self)))) (\<lambda>r.
            case r of
              Inl e \<Rightarrow> Ret (Inl (throw_errno e), self\<lparr> lg_file_fd := - 1 \<rparr>)
            | Inr fd \<Rightarrow>
                (let s1 = self\<lparr> lg_file_fd := fd \<rparr> in
                 pbind (call_stat (C_fstat fd)) (\<lambda>st.
                 case st of
                   Inl e \<Rightarrow> Ret (Inl (throw_errno e), s1)
                 | Inr st' \<Rightarrow>
                     (let s2 = s1\<lparr> lg_file_stat := st' \<rparr> in
                      pbind (call_text C_log_opened) (\<lambda>m.
                      pbind (loop_write fd (the m)) (\<lambda>_. Ret (Inr True, s2))))))))
           (\<lambda>r. pbind (close_fd dir_fd) (\<lambda>_. Ret r)))"

definition setup_file :: "logger \<Rightarrow> ((gerror + bool) \<times> logger) prog" where
  "setup_file self =
     (if lg_file_fd self \<ge> 0 then
        (let s1 = self\<lparr> lg_use_file := True \<rparr> in
         pbind (call_unit (C_set_cloexec (lg_file_fd s1) True)) (\<lambda>r.
         case r of
           Inl e \<Rightarrow> Ret (Inl (throw_errno e), s1)
         | Inr _ \<Rightarrow>
             if lg_filename s1 = None then Ret (Inl (G_IO_ERROR IO_FAILED), s1)
             else pbind (call_stat (C_fstat (lg_file_fd s1))) (\<lambda>st.
               case st of
                 Inl e \<Rightarrow> Ret (Inl (throw_errno e), s1)
               | Inr st' \<Rightarrow> Ret (Inr False, s1\<lparr> lg_file_stat := st' \<rparr>))))
      else if lg_use_file self then
        (if lg_log_dir self = None \<or> lg_filename self = None then Abort else setup_new_file self)
      else Ret (Inr False, self))"

definition setup_terminal_fd :: "glib \<Rightarrow> string list \<Rightarrow> logger \<Rightarrow> logger prog" where
  "setup_terminal_fd G envp self =
     (if lg_terminal_fd self \<ge> 0 then Ret (self\<lparr> lg_use_terminal := True \<rparr>)
      else if \<not> lg_use_terminal self then Ret self
      else case g_environ_getenv G envp ''SRT_LOG_TERMINAL'' of
        Some terminal \<Rightarrow>
          if terminal \<noteq> [] then
            pbind (call_fd (C_open_terminal terminal)) (\<lambda>r. Ret (case r of
                Inl _ \<Rightarrow> self\<lparr> lg_terminal_fd := - 1, lg_use_terminal := False \<rparr>
              | Inr fd \<Rightarrow> self\<lparr> lg_terminal_fd := fd \<rparr>))
          else Ret self
      | None \<Rightarrow>
          pbind (call_bool (C_isatty STDERR_FILENO)) (\<lambda>tty.
          if tty then Ret (self\<lparr> lg_terminal_fd := STDERR_FILENO \<rparr>)
          else pbind (call_bool (C_isatty (lg_original_stderr self))) (\<lambda>tty'.
            Ret (if tty' then self\<lparr> lg_terminal_fd := lg_original_stderr self, lg_original_stderr := - 1 \<rparr>
                 else self\<lparr> lg_use_terminal := False \<rparr>))))"

definition setup_terminal :: "glib \<Rightarrow> string list \<Rightarrow> logger \<Rightarrow> logger prog" where
  "setup_terminal G envp self =
     pbind (setup_terminal_fd G envp self) (\<lambda>s1.
     (let s2 = (if lg_use_terminal s1 \<and> (case g_environ_getenv G envp ''NO_COLOR'' of None \<Rightarrow> True | Some v \<Rightarrow> v = [])
                then s1\<lparr> lg_use_terminal_colors := True \<rparr> else s1)
      in if lg_terminal_fd s2 \<ge> 0 \<and> lg_terminal s2 = None then
           pbind (call_text (C_ttyname (lg_terminal_fd s2))) (\<lambda>t.
           Ret (case t of Some name \<Rightarrow> s2\<lparr> lg_terminal := Some name \<rparr> | None \<Rightarrow> s2))
         else Ret s2))"

definition setup_stderr :: "bool \<Rightarrow> bool \<Rightarrow> logger \<Rightarrow> setup_step" where
  "setup_stderr stderr_is_journal redirecting self =
     pbind (if lg_file_fd self < 0 \<and> lg_journal_fd self < 0 then
              (if lg_terminal_fd self < 0 then Ret True
               else pbind (call_bool (C_same_file (lg_terminal_fd self) STDERR_FILENO)) (\<lambda>same. Ret (\<not> same)))
            else Ret False) (\<lambda>to_stderr.
     if to_stderr then succeeded (self\<lparr> lg_use_stderr := True \<rparr>)
     else if stderr_is_journal \<and> lg_journal_fd self \<ge> 0 \<and> lg_file_fd self < 0 \<and> lg_terminal_fd self < 0 then succeeded self
     else if redirecting \<and> lg_file_fd self < 0 \<and> lg_journal_fd self < 0 \<and> lg_terminal_fd self < 0 then Abort
     else succeeded self)"

definition srt_logger_setup :: "glib \<Rightarrow> string list \<Rightarrow> string \<Rightarrow> logger \<Rightarrow> setup_step" where
  "srt_logger_setup G envp home self =
     (if lg_prgname self \<noteq> None \<or> lg_previous_filename self \<noteq> None \<or> lg_new_filename self \<noteq> None \<or> lg_pipe_from_parent self \<ge> 0 \<or> lg_terminal self \<noteq> None
      then failed PRECONDITION_FAILED self
      else and_then (Ret (setup_filenames (setup_identifier (self\<lparr> lg_use_stderr := False \<rparr>)))) (\<lambda>s1.
        pbind (call_bool (C_is_journald STDERR_FILENO)) (\<lambda>stderr_is_journal.
        pbind (setup_journal stderr_is_journal s1) (\<lambda>(r, s2).
        case r of
          Inl e \<Rightarrow> failed e s2
        | Inr redirecting \<Rightarrow>
            and_then (setup_log_dir G envp home s2) (\<lambda>s3.
            pbind (setup_file s3) (\<lambda>(r', s4).
            case r' of
              Inl e \<Rightarrow> failed e s4
            | Inr redirecting' \<Rightarrow>
                pbind (setup_terminal G envp s4) (\<lambda>s5.
                setup_stderr stderr_is_journal (redirecting \<or> redirecting') s5)))))))"

section \<open>Arguments for the logging process\<close>

definition level_arg :: "string \<Rightarrow> nat \<Rightarrow> string" where
  "level_arg option level = option @ ''='' @ hd (syslog_level_names ! level)"

definition logger_args :: "glib \<Rightarrow> string list \<Rightarrow> bool \<Rightarrow> bool \<Rightarrow> logger \<Rightarrow> string list" where
  "logger_args G envp verbose debugging self =
     [''--sh-syntax'']
        @ (if lg_max_bytes self > 0 \<and> srt_boolean_environment G envp ''SRT_LOG_ROTATION'' True
           then [''--rotate='' @ decimal (lg_max_bytes self)] else [])
        @ (if lg_file_fd self \<ge> 0
           then [''--log-directory'', the (lg_log_dir self), ''--filename'', the (lg_filename self), ''--log-fd='' @ decimal (lg_file_fd self)]
           else [])
        @ (if lg_journal_fd self \<ge> 0 then [''--journal-fd='' @ decimal (lg_journal_fd self)] else [])
        @ (if lg_terminal_fd self \<ge> 0 then [''--terminal-fd='' @ decimal (lg_terminal_fd self)] else [])
        @ (if \<not> lg_timestamps self then [''--no-timestamps''] else [])
        @ (if lg_parse_level_prefix self then [''--parse-level-prefix''] else [])
        @ (if lg_default_level self \<noteq> SRT_SYSLOG_LEVEL_DEFAULT_LINE then [level_arg ''--default-level'' (lg_default_level self)] else [])
        @ (if lg_file_level self \<noteq> SRT_SYSLOG_LEVEL_DEFAULT_FILE then [level_arg ''--file-level'' (lg_file_level self)] else [])
        @ (if lg_journal_level self \<noteq> SRT_SYSLOG_LEVEL_DEFAULT_JOURNAL then [level_arg ''--journal-level'' (lg_journal_level self)] else [])
        @ (if lg_terminal_level self \<noteq> SRT_SYSLOG_LEVEL_DEFAULT_TERMINAL then [level_arg ''--terminal-level'' (lg_terminal_level self)] else [])
        @ (if verbose then [''-v''] else []) @ (if debugging then [''-v''] else [])"

definition srt_logger_argv :: "glib \<Rightarrow> string list \<Rightarrow> bool \<Rightarrow> bool \<Rightarrow> string \<Rightarrow> logger \<Rightarrow> string list option" where
  "srt_logger_argv G envp verbose debugging exe self =
     (if lg_file_fd self \<ge> 0 \<and> (lg_filename self = None \<or> lg_log_dir self = None) then None
      else Some (exe # logger_args G envp verbose debugging self))"

section \<open>Locking and rotating the log file\<close>

definition lock_output_file :: "fd \<Rightarrow> (gerror + unit) prog" where
  "lock_output_file fd =
     (if fd < 0 then Ret (Inl PRECONDITION_FAILED)
      else pbind (call_unit (C_lock fd F_OFD_SETLKW F_RDLCK)) (\<lambda>r.
      case r of
        Inr _ \<Rightarrow> Ret (Inr ())
      | Inl e \<Rightarrow>
          if e \<noteq> EINVAL then Ret (Inl (throw_errno e))
          else pbind (call_unit (C_lock fd F_SETLKW F_RDLCK)) (\<lambda>r'.
          Ret (case r' of Inr _ \<Rightarrow> Inr () | Inl e' \<Rightarrow> Inl (throw_errno e')))))"

text \<open>From the label \<open>out\<close> on: the new file is only still open if it was not taken over.\<close>

definition rotate_out :: "string \<Rightarrow> fd \<Rightarrow> gerror + unit \<Rightarrow> logger \<Rightarrow> setup_step" where
  "rotate_out new_filename new_fd ret self =
     pbind (if new_fd \<ge> 0 then pbind (call_unit (C_unlink new_filename)) (\<lambda>_. Ret ()) else Ret ()) (\<lambda>_.
     pbind (call_unit (C_lock (lg_file_fd self) F_OFD_SETLK F_RDLCK)) (\<lambda>_.
     pbind (close_fd new_fd) (\<lambda>_.
     Ret (ret, self))))"

definition rotate_replace :: "string \<Rightarrow> string \<Rightarrow> fd \<Rightarrow> logger \<Rightarrow> setup_step" where
  "rotate_replace filename new_filename new_fd self =
     (let out = (\<lambda>e. rotate_out new_filename new_fd (Inl (throw_errno e)) self) in
      pbind (call_unit (C_lock new_fd F_OFD_SETLK F_WRLCK)) (\<lambda>r1.
      case r1 of
        Inl e \<Rightarrow> out e
      | Inr _ \<Rightarrow>
          pbind (call_stat (C_fstat new_fd)) (\<lambda>r2.
          case r2 of
            Inl e \<Rightarrow> out e
          | Inr new_stat \<Rightarrow>
              pbind (call_unit (C_rename new_filename filename)) (\<lambda>r3.
              case r3 of
                Inl e \<Rightarrow> out e
              | Inr _ \<Rightarrow>
                  pbind (close_fd (lg_file_fd self)) (\<lambda>_.
                  rotate_out new_filename (- 1) (Inr ()) (self\<lparr> lg_file_fd := new_fd, lg_file_stat := new_stat \<rparr>))))))"

definition rotate_link :: "string \<Rightarrow> string \<Rightarrow> string \<Rightarrow> logger \<Rightarrow> setup_step" where
  "rotate_link filename previous_filename new_filename self =
     pbind (call_unit (C_link filename previous_filename)) (\<lambda>r1.
     case r1 of
       Inl e \<Rightarrow> rotate_out new_filename (- 1) (Inl (throw_errno e)) self
     | Inr _ \<Rightarrow>
         pbind (call_fd (C_open new_filename True)) (\<lambda>r2.
         case r2 of
           Inl e \<Rightarrow> rotate_out new_filename (- 1) (Inl (throw_errno e)) self
         | Inr new_fd \<Rightarrow> rotate_replace filename new_filename new_fd self))"

definition srt_logger_try_rotate :: "logger \<Rightarrow> setup_step" where
  "srt_logger_try_rotate self =
     (case (lg_filename self, lg_previous_filename self, lg_new_filename self) of
        (Some filename, Some previous_filename, Some new_filename) \<Rightarrow>
          pbind (call_unit (C_lock (lg_file_fd self) F_OFD_SETLK F_WRLCK)) (\<lambda>r1.
          case r1 of
            Inl e \<Rightarrow> failed (throw_errno e) self
          | Inr _ \<Rightarrow>
              pbind (call_unit (C_unlink previous_filename)) (\<lambda>r2.
              case r2 of
                Inl e \<Rightarrow> if e \<noteq> ENOENT then failed (throw_errno e) self
                         else rotate_link filename previous_filename new_filename self
              | Inr _ \<Rightarrow> rotate_link filename previous_filename new_filename self))
      | _ \<Rightarrow> failed PRECONDITION_FAILED self)"

section \<open>Writing to the sinks\<close>

definition esc_seq :: "string \<Rightarrow> string" where "esc_seq s = CHR 0x1B # s"

definition level_color :: "nat \<Rightarrow> string option" where
  "level_color level =
     (if level = LOG_DEBUG then Some (esc_seq ''[2m'')
      else if level = LOG_INFO then None
      else if level = LOG_NOTICE then Some (esc_seq ''[1m'')
      else if level = LOG_WARNING then Some (esc_seq ''[1;35m'')
      else if level \<le> LOG_ERR then Some (esc_seq ''[1;31m'')
      else None)"

definition newline :: char where "newline = CHR 0x0A"

definition write_formatted_line :: "fd \<Rightarrow> nat \<Rightarrow> string \<Rightarrow> unit prog" where
  "write_formatted_line fd level line =
     pbind (loop_write fd (esc_seq ''[0m'')) (\<lambda>_.
     pbind (case level_color level of Some c \<Rightarrow> loop_write fd c | None \<Rightarrow> Ret True) (\<lambda>_.
     if line \<noteq> [] \<and> last line = newline then
       pbind (loop_write fd (butlast line)) (\<lambda>_.
       pbind (loop_write fd (esc_seq ''[0m'')) (\<lambda>_.
       pbind (loop_write fd [newline]) (\<lambda>_. Ret ())))
     else
       pbind (loop_write fd line) (\<lambda>_.
       pbind (loop_write fd (esc_seq ''[0m'')) (\<lambda>_. Ret ()))))"

definition logger_process_partial_line :: "logger \<Rightarrow> nat \<Rightarrow> string \<Rightarrow> unit prog" where
  "logger_process_partial_line self level line =
     pbind (if lg_use_stderr self \<and> level \<le> lg_terminal_level self then loop_write STDERR_FILENO line else Ret True) (\<lambda>_.
     if lg_terminal_fd self \<ge> 0 \<and> level \<le> lg_terminal_level self then
       (if lg_use_terminal_colors self then write_formatted_line (lg_terminal_fd self) level line
        else pbind (loop_write (lg_terminal_fd self) line) (\<lambda>_. Ret ()))
     else Ret ())"

text \<open>The log file was deleted or replaced; if it cannot be opened again, the old one is kept.\<close>

definition reopen_file :: "string \<Rightarrow> logger \<Rightarrow> logger prog" where
  "reopen_file filename self =
     pbind (call_fd (C_open filename False)) (\<lambda>r.
     case r of
       Inl _ \<Rightarrow> Ret self
     | Inr new_fd \<Rightarrow>
         pbind (call_stat (C_fstat new_fd)) (\<lambda>st.
         case st of
           Inl _ \<Rightarrow> pbind (close_fd new_fd) (\<lambda>_. Ret self)
         | Inr current_stat \<Rightarrow>
             pbind (lock_output_file new_fd) (\<lambda>l.
             case l of
               Inl _ \<Rightarrow> pbind (close_fd new_fd) (\<lambda>_. Ret self)
             | Inr _ \<Rightarrow> Ret (self\<lparr> lg_file_fd := new_fd, lg_file_stat := current_stat \<rparr>))))"

text \<open>The sum is one of unsigned 64-bit numbers. A failed precondition of the rotation leaves no
  error, whose message would then be read from a null pointer.\<close>

definition check_file :: "string \<Rightarrow> nat \<Rightarrow> logger \<Rightarrow> logger prog" where
  "check_file filename len self =
     pbind (call_stat (C_stat filename)) (\<lambda>st.
     case st of
       Inl _ \<Rightarrow> reopen_file filename self
     | Inr current_stat \<Rightarrow>
         if \<not> srt_is_same_stat current_stat (lg_file_stat self) then reopen_file filename self
         else if lg_max_bytes self > 0
                 \<and> uint (word_of_int (st_size current_stat) + of_nat len :: 64 word) > lg_max_bytes self
         then pbind (srt_logger_try_rotate self) (\<lambda>(r, s1).
           case r of
             Inr _ \<Rightarrow> Ret s1
           | Inl e \<Rightarrow> if e = PRECONDITION_FAILED then Abort else Ret (s1\<lparr> lg_max_bytes := 0 \<rparr>))
         else Ret self)"

definition write_file_line :: "int \<Rightarrow> string \<Rightarrow> logger \<Rightarrow> logger prog" where
  "write_file_line line_start_time line self =
     pbind (if line_start_time \<noteq> 0 then
              pbind (call_text (C_strftime line_start_time)) (\<lambda>t.
              case t of Some s \<Rightarrow> loop_write (lg_file_fd self) s | None \<Rightarrow> Ret True)
            else Ret True) (\<lambda>_.
     pbind (loop_write (lg_file_fd self) line) (\<lambda>_. Ret self))"

definition journal_prefix :: "nat \<Rightarrow> string" where
  "journal_prefix level = [CHR ''<'', char_of (48 + level), CHR ''>'']"

definition logger_process_complete_line :: "logger \<Rightarrow> nat \<Rightarrow> int \<Rightarrow> string \<Rightarrow> logger prog" where
  "logger_process_complete_line self level line_start_time line =
     pbind (if lg_journal_fd self \<ge> 0 \<and> level \<le> lg_journal_level self then
              pbind (loop_write (lg_journal_fd self) (journal_prefix level)) (\<lambda>_. loop_write (lg_journal_fd self) line)
            else Ret True) (\<lambda>_.
     if lg_file_fd self \<ge> 0 \<and> level \<le> lg_file_level self then
       pbind (case lg_filename self of Some filename \<Rightarrow> check_file filename (length line) self | None \<Rightarrow> Ret self)
         (write_file_line line_start_time line)
     else Ret self)"

section \<open>Finding the level of a line\<close>

definition remaining_lines_prefix :: string where "remaining_lines_prefix = ''remaining-lines-assume-level=''"

text \<open>The result: the length of the prefix and the level, or \<^const>\<open>None\<close> if there is not enough data.
  \<open>parse_level_digit\<close> is the part after the directive, with what is left to read.\<close>

definition parse_level_digit :: "bool \<Rightarrow> string \<Rightarrow> string \<Rightarrow> logger \<Rightarrow> (nat \<times> nat) option \<times> logger" where
  "parse_level_digit stop_parsing_prefix whole buf self =
     (let unprefixed = (Some (0, lg_default_level self), self) in
      case buf of
        [] \<Rightarrow> (None, self)
      | d # buf1 \<Rightarrow>
          if \<not> g_ascii_isdigit d then unprefixed
          else let level = digit_value d in
            if level \<ge> length syslog_level_names then unprefixed
            else case buf1 of
              [] \<Rightarrow> (None, self)
            | c # buf2 \<Rightarrow>
                if c \<noteq> CHR ''>'' then unprefixed
                else if stop_parsing_prefix then
                  (case buf2 of
                     [] \<Rightarrow> (None, self)
                   | nl # buf3 \<Rightarrow>
                       if nl \<noteq> newline then unprefixed
                       else (Some (length whole - length buf3, level),
                             self\<lparr> lg_default_level := level, lg_parse_level_prefix := False \<rparr>))
                else (Some (length whole - length buf2, level), self))"

definition logger_parse_level_prefix :: "logger \<Rightarrow> string \<Rightarrow> (nat \<times> nat) option \<times> logger" where
  "logger_parse_level_prefix self buf =
     (if \<not> lg_parse_level_prefix self then (Some (0, lg_default_level self), self)
      else case buf of
        [] \<Rightarrow> (None, self)
      | c # buf1 \<Rightarrow>
          if c \<noteq> CHR ''<'' then (Some (0, lg_default_level self), self)
          else let n = length remaining_lines_prefix; m = min n (length buf1) in
            if take m buf1 = take m remaining_lines_prefix then
              (if length buf1 < n then (None, self) else parse_level_digit True buf (drop n buf1) self)
            else parse_level_digit False buf buf1 self)"

section \<open>The main loop\<close>

definition LINE_MAX :: nat where "LINE_MAX = 2048"

text \<open>The state of the loop: the filled part of the buffer, how much of it has been given to
  \<open>logger_process_partial_line\<close>, the size of the prefix of the current line if it is known, its
  level, and its start time.\<close>

record line_state =
  ls_buf :: string
  ls_already :: nat
  ls_prefix :: "nat option"
  ls_level :: nat
  ls_start :: int

definition line_state_init :: line_state where
  "line_state_init = \<lparr> ls_buf = [], ls_already = 0, ls_prefix = None, ls_level = 0, ls_start = 0 \<rparr>"

text \<open>The first logical line of the buffer, with its newline, and whether it overflowed the buffer or
  was cut by the end of the input.\<close>

definition next_line :: "bool \<Rightarrow> line_state \<Rightarrow> (string \<times> bool) option" where
  "next_line at_eof ls =
     (let rest = drop (ls_already ls) (ls_buf ls) in
      if newline \<in> set rest then
        Some (take (ls_already ls) (ls_buf ls) @ takeWhile (\<lambda>c. c \<noteq> newline) rest @ [newline], False)
      else if at_eof \<or> length (ls_buf ls) = LINE_MAX then Some (ls_buf ls @ [newline], True)
      else None)"

text \<open>One line of the inner loop: what goes to the terminal, then what goes to the other sinks.\<close>

definition process_line :: "string \<Rightarrow> logger \<Rightarrow> line_state \<Rightarrow> (logger \<times> nat \<times> nat) prog" where
  "process_line line self ls =
     pbind
       (if ls_already ls > 0 then
          (case ls_prefix ls of
             None \<Rightarrow> Abort
           | Some plen \<Rightarrow>
               if \<not> ls_already ls < length line then Abort
               else pbind (logger_process_partial_line self (ls_level ls) (drop (ls_already ls) line)) (\<lambda>_.
                 Ret (self, plen, ls_level ls)))
        else
          (case (case ls_prefix ls of
                   Some plen \<Rightarrow> (Some (plen, ls_level ls), self)
                 | None \<Rightarrow> logger_parse_level_prefix self line) of
             (None, _) \<Rightarrow> Abort
           | (Some (plen, level), s1) \<Rightarrow>
               if plen < length line then
                 pbind (logger_process_partial_line s1 level (drop plen line)) (\<lambda>_. Ret (s1, plen, level))
               else Ret (s1, plen, level)))
       (\<lambda>(s1, plen, level).
          if plen < length line then
            pbind (logger_process_complete_line s1 level (ls_start ls) (drop plen line)) (\<lambda>s2. Ret (s2, plen, level))
          else Ret (s1, plen, level))"

function process_lines :: "bool \<Rightarrow> logger \<Rightarrow> line_state \<Rightarrow> (logger \<times> line_state) prog" where
  "process_lines at_eof self ls =
     (if ls_buf ls = [] then Ret (self, ls)
      else if \<not> ls_already ls \<le> length (ls_buf ls) then Abort
      else case next_line at_eof ls of
        None \<Rightarrow> Ret (self, ls)
      | Some (line, overflowed) \<Rightarrow>
          pbind (process_line line self ls) (\<lambda>(s1, plen, level).
          process_lines at_eof s1
            (ls\<lparr> ls_buf := drop (length line) (ls_buf ls), ls_already := 0,
                ls_prefix := if overflowed then Some 0 else None, ls_level := level \<rparr>)))"
  by pat_completeness auto
termination
  by (relation "measure (\<lambda>(at_eof, self, ls). length (ls_buf ls))") (auto simp: next_line_def Let_def LINE_MAX_def split: if_splits)

declare process_lines.simps [simp del]

text \<open>What is left in the buffer is shown as soon as its level is known.\<close>

definition process_rest :: "logger \<Rightarrow> line_state \<Rightarrow> (logger \<times> line_state) prog" where
  "process_rest self ls =
     (if \<not> length (ls_buf ls) > ls_already ls then Ret (self, ls)
      else if ls_prefix ls = None \<and> ls_already ls \<noteq> 0 then Abort
      else (let (s1, ls1) = (case ls_prefix ls of
                    Some _ \<Rightarrow> (self, ls)
                  | None \<Rightarrow> (case logger_parse_level_prefix self (ls_buf ls) of
                        (None, s1) \<Rightarrow> (s1, ls)
                      | (Some (plen, level), s1) \<Rightarrow>
                          (s1, ls\<lparr> ls_prefix := Some plen, ls_level := level, ls_already := ls_already ls + plen \<rparr>)))
            in if ls_prefix ls1 \<noteq> None \<and> length (ls_buf ls1) > ls_already ls1 then
                 pbind (logger_process_partial_line s1 (ls_level ls1) (drop (ls_already ls1) (ls_buf ls1))) (\<lambda>_.
                 Ret (s1, ls1\<lparr> ls_already := length (ls_buf ls1) \<rparr>))
               else Ret (s1, ls1)))"

text \<open>Standard input is the text that will arrive and, for each call of \<open>read\<close>, an error or how many
  bytes more than one it delivers, at most; it never delivers more than it is asked for, and
  nothing only at the end of the text. The result is \<^const>\<open>None\<close> if the given calls are not enough.\<close>

definition read_stdin :: "string \<Rightarrow> nat \<Rightarrow> nat \<Rightarrow> string" where
  "read_stdin input k room = take (min (k + 1) room) input"

fun process_loop :: "logger \<Rightarrow> line_state \<Rightarrow> string \<Rightarrow> (errno + nat) list \<Rightarrow> ((gerror + unit) option \<times> logger) prog" where
  "process_loop self ls input [] = Ret (None, self)"
| "process_loop self ls input (Inl e # reads) = Ret (Some (Inl (throw_errno e)), self)"
| "process_loop self ls input (Inr k # reads) =
     (let bytes = read_stdin input k (LINE_MAX - length (ls_buf ls)) in
      pbind (if lg_timestamps self \<and> ls_buf ls = [] then call_num C_time else Ret (ls_start ls)) (\<lambda>start.
      let ls1 = ls\<lparr> ls_buf := ls_buf ls @ bytes, ls_start := start \<rparr> in
      if \<not> length (ls_buf ls1) < LINE_MAX + 1 then Abort
      else
        pbind (process_lines (bytes = []) self ls1) (\<lambda>(s2, ls2).
        pbind (process_rest s2 ls2) (\<lambda>(s3, ls3).
        if bytes \<noteq> [] then process_loop s3 ls3 (drop (length bytes) input) reads
        else Ret (Some (Inr ()), s3)))))"

section \<open>The whole process\<close>

definition srt_logger_get_environ :: "logger \<Rightarrow> env_overlay" where
  "srt_logger_get_environ self =
     (let o0 = srt_env_overlay_new;
          o1 = (case lg_terminal self of
                  Some t \<Rightarrow> if newline \<notin> set t then srt_env_overlay_set o0 ''SRT_LOG_TERMINAL'' (Some t) else o0
                | None \<Rightarrow> o0);
          o2 = (if lg_file_fd self < 0 \<and> lg_journal_fd self \<ge> 0 \<and> lg_terminal_fd self < 0 \<and> \<not> lg_use_stderr self
                then srt_env_overlay_set o1 ''SRT_LOG_TO_JOURNAL'' (Some ''1'')
                else if lg_journal_fd self \<ge> 0
                then srt_env_overlay_set (srt_env_overlay_set o1 ''SRT_LOG_TO_JOURNAL'' (Some ''0'')) ''SRT_LOGGER_USE_JOURNAL'' (Some ''1'')
                else o1)
      in srt_env_overlay_set o2 ''SRT_LOG_LEVEL_PREFIX'' (Some (if lg_parse_level_prefix self then ''1'' else ''0'')))"

definition READY_MESSAGE :: string where "READY_MESSAGE = ''SRT_LOGGER_READY=1'' @ [newline]"

definition report_ready :: "glib \<Rightarrow> fd \<Rightarrow> logger \<Rightarrow> bool prog" where
  "report_ready G original_stdout self =
     pbind (call_num C_getpid) (\<lambda>pid.
     pbind (loop_write original_stdout (srt_env_overlay_to_shell G (srt_logger_get_environ self))) (\<lambda>ok1.
     if \<not> ok1 then Ret False
     else pbind (loop_write original_stdout (''SRT_LOGGER_PID='' @ decimal pid @ [newline])) (\<lambda>ok2.
       if \<not> ok2 then Ret False else loop_write original_stdout READY_MESSAGE)))"

definition enter_log_dir :: "logger \<Rightarrow> setup_step" where
  "enter_log_dir self =
     (if lg_filename self \<noteq> None \<and> lg_use_file self then
        if lg_file_fd self < 0 then Abort
        else pbind (call_unit (C_chdir (the (lg_log_dir self)))) (\<lambda>r.
          case r of
            Inl e \<Rightarrow> failed (throw_errno e) self
          | Inr _ \<Rightarrow> pbind (lock_output_file (lg_file_fd self)) (\<lambda>l. Ret (l, self)))
      else succeeded self)"

text \<open>What follows the set-up, and the whole.\<close>

definition srt_logger_serve :: "glib \<Rightarrow> string \<Rightarrow> (errno + nat) list \<Rightarrow> fd \<Rightarrow> logger \<Rightarrow> ((gerror + unit) option \<times> logger) prog" where
  "srt_logger_serve G input reads original_stdout self =
     pbind (enter_log_dir self) (\<lambda>(r, s1).
     case r of
       Inl e \<Rightarrow> Ret (Some (Inl e), s1)
     | Inr _ \<Rightarrow>
         pbind (if lg_sh_syntax s1 then report_ready G original_stdout s1 else Ret True) (\<lambda>ok.
         if \<not> ok then Ret (Some (Inl (G_IO_ERROR IO_FAILED)), s1)
         else pbind (close_fd original_stdout) (\<lambda>_. process_loop s1 line_state_init input reads)))"

definition srt_logger_process :: "glib \<Rightarrow> string list \<Rightarrow> string \<Rightarrow> string \<Rightarrow> (errno + nat) list \<Rightarrow> fd \<Rightarrow> logger \<Rightarrow>
    ((gerror + unit) option \<times> logger) prog" where
  "srt_logger_process G envp home input reads original_stdout self =
     pbind (srt_logger_setup G envp home self) (\<lambda>(r, s1).
     case r of
       Inl e \<Rightarrow> Ret (Some (Inl e), s1)
     | Inr _ \<Rightarrow> srt_logger_serve G input reads original_stdout s1)"

end
