(* ===== verification/LoggerLines.thy ===== *)
theory LoggerLines imports Logger begin

text \<open>
  What the logger does to its input: a pure machine that yields the events of the main loop, the
  specification of the lines of a log (\<open>log_lines\<close>, which knows nothing of buffers and reads), the proof
  that the machine meets it however the input is cut into reads, and the consequences for what
  each sink receives.
\<close>

section \<open>Levels of lines\<close>

text \<open>What parsing depends on: whether prefixes are parsed, and the default level.\<close>

type_synonym cfg = "bool \<times> nat"

definition cfg :: "logger \<Rightarrow> cfg" where
  "cfg self = (lg_parse_level_prefix self, lg_default_level self)"

definition set_cfg :: "cfg \<Rightarrow> logger \<Rightarrow> logger" where
  "set_cfg c self = self\<lparr> lg_parse_level_prefix := fst c, lg_default_level := snd c \<rparr>"

lemma cfg_set_cfg [simp]: "cfg (set_cfg c self) = c"
  by (simp add: cfg_def set_cfg_def)

lemma set_cfg_cfg [simp]: "set_cfg (cfg self) self = self"
  by (simp add: cfg_def set_cfg_def)

definition parse_prefix :: "cfg \<Rightarrow> string \<Rightarrow> (nat \<times> nat) option \<times> cfg" where
  "parse_prefix c buf = (case logger_parse_level_prefix (set_cfg c srt_logger_init) buf of (r, s) \<Rightarrow> (r, cfg s))"

lemma logger_parse_level_prefix_cfg:
  "logger_parse_level_prefix self buf = (case parse_prefix (cfg self) buf of (r, c) \<Rightarrow> (r, set_cfg c self))"
  by (auto simp: parse_prefix_def logger_parse_level_prefix_def parse_level_digit_def set_cfg_def cfg_def Let_def
      split: list.splits)

text \<open>The specification: the text of a line, its level, and what holds for the lines after it.\<close>

definition directive :: "nat \<Rightarrow> string" where
  "directive d = ''<remaining-lines-assume-level='' @ [char_of (48 + d), CHR ''>'', newline]"

lemma directive_alt: "directive d = CHR ''<'' # remaining_lines_prefix @ [char_of (48 + d), CHR ''>'', newline]"
  by (simp add: directive_def remaining_lines_prefix_def)

definition line_level :: "cfg \<Rightarrow> string \<Rightarrow> string \<times> nat \<times> cfg" where
  "line_level c line =
     (if \<not> fst c then (line, snd c, c)
      else case find (\<lambda>d. g_str_has_prefix line (journal_prefix d)) [0..<8] of
        Some d \<Rightarrow> (drop 3 line, d, c)
      | None \<Rightarrow>
          (case find (\<lambda>d. line = directive d) [0..<8] of
             Some d \<Rightarrow> ([], d, (False, d))
           | None \<Rightarrow> (line, snd c, c)))"

lemma digit_value_inverse: "g_ascii_isdigit c \<Longrightarrow> char_of (48 + digit_value c) = c"
proof -
  assume "g_ascii_isdigit c"
  then have "48 \<le> (of_char c :: nat)" by (simp add: g_ascii_isdigit_def less_eq_char_def)
  then show ?thesis by (simp add: digit_value_def)
qed

lemma isdigit_char: "(d :: nat) < 10 \<Longrightarrow> g_ascii_isdigit (char_of (48 + d))"
  by (simp add: g_ascii_isdigit_def less_eq_char_def)

lemma digit_not_newline: "g_ascii_isdigit c \<Longrightarrow> c \<noteq> newline"
  by (auto simp: g_ascii_isdigit_def less_eq_char_def newline_def)

lemma newline_not_digit [simp]: "\<not> g_ascii_isdigit newline"
  by (simp add: g_ascii_isdigit_def less_eq_char_def newline_def)

lemma newline_not_in_prefix: "newline \<notin> set remaining_lines_prefix"
  by (simp add: newline_def remaining_lines_prefix_def)

lemma length_levels [simp]: "length syslog_level_names = 8"
  by (simp add: syslog_level_names_def)

lemmas parse_defs = parse_prefix_def logger_parse_level_prefix_def parse_level_digit_def set_cfg_def cfg_def Let_def

lemma parse_off: "\<not> fst c \<Longrightarrow> parse_prefix c buf = (Some (0, snd c), c)"
  by (cases c) (simp add: parse_defs)

lemma parse_no_bracket: "fst c \<Longrightarrow> x \<noteq> CHR ''<'' \<Longrightarrow> parse_prefix c (x # buf) = (Some (0, snd c), c)"
  by (cases c) (simp add: parse_defs)

text \<open>The part of the parser after the opening bracket and, perhaps, the directive.\<close>

definition parse_digit :: "bool \<Rightarrow> cfg \<Rightarrow> string \<Rightarrow> string \<Rightarrow> (nat \<times> nat) option \<times> cfg" where
  "parse_digit stop c whole buf = (case parse_level_digit stop whole buf (set_cfg c srt_logger_init) of (r, s) \<Rightarrow> (r, cfg s))"

lemma parse_bracket:
  assumes "fst c"
  shows "parse_prefix c (CHR ''<'' # buf) =
    (if take (length remaining_lines_prefix) buf = take (length buf) remaining_lines_prefix
     then (if length buf < length remaining_lines_prefix then (None, c)
           else parse_digit True c (CHR ''<'' # buf) (drop (length remaining_lines_prefix) buf))
     else parse_digit False c (CHR ''<'' # buf) buf)"
proof -
  have "(take (min n (length buf)) buf = take (min n (length buf)) r) = (take n buf = take (length buf) r)"
    if "n = length r" for n and r :: string
    using that by (cases "n \<le> length buf") (auto simp: min_def)
  then show ?thesis using assms
    by (simp add: parse_prefix_def logger_parse_level_prefix_def parse_digit_def Let_def set_cfg_def cfg_def prod_eq_iff)
qed

lemma parse_digit_eq:
  "parse_digit stop c whole buf =
     (case buf of
        [] \<Rightarrow> (None, c)
      | d # buf1 \<Rightarrow>
          if \<not> g_ascii_isdigit d \<or> digit_value d \<ge> 8 then (Some (0, snd c), c)
          else (case buf1 of
              [] \<Rightarrow> (None, c)
            | x # buf2 \<Rightarrow>
                if x \<noteq> CHR ''>'' then (Some (0, snd c), c)
                else if stop then
                  (case buf2 of
                     [] \<Rightarrow> (None, c)
                   | nl # buf3 \<Rightarrow>
                       if nl \<noteq> newline then (Some (0, snd c), c)
                       else (Some (length whole - length buf3, digit_value d), (False, digit_value d)))
                else (Some (length whole - length buf2, digit_value d), c)))"
  by (auto simp: parse_digit_def parse_level_digit_def Let_def set_cfg_def cfg_def split: list.splits)

lemma not_directive_digit: "g_ascii_isdigit d \<Longrightarrow> take (length remaining_lines_prefix) (d # buf) \<noteq> take (length (d # buf)) remaining_lines_prefix"
  by (auto simp: remaining_lines_prefix_def g_ascii_isdigit_def less_eq_char_def)

text \<open>A complete line is parsed as specified.\<close>

lemma parse_journal_prefix:
  "fst c \<Longrightarrow> d < 8 \<Longrightarrow> parse_prefix c (journal_prefix d @ text) = (Some (3, d), c)"
proof -
  assume a: "fst c" "d < 8"
  let ?b = "char_of (48 + d) # CHR ''>'' # text"
  have dig: "g_ascii_isdigit (char_of (48 + d))" using a(2) by (simp add: isdigit_char)
  have "parse_prefix c (CHR ''<'' # ?b) = parse_digit False c (CHR ''<'' # ?b) ?b"
    using not_directive_digit [OF dig, of "CHR ''>'' # text"] by (simp only: parse_bracket [OF a(1)] if_False)
  then show ?thesis using a dig by (simp add: journal_prefix_def parse_digit_eq digit_value_char)
qed

lemma parse_directive: "fst c \<Longrightarrow> d < 8 \<Longrightarrow> parse_prefix c (directive d) = (Some (length (directive d), d), (False, d))"
  by (simp add: directive_alt parse_bracket parse_digit_eq isdigit_char digit_value_char)

lemma parse_other:
  assumes "fst c" and "newline \<notin> set w" and "line = w @ [newline]"
    and j: "\<And>d t. d < 8 \<Longrightarrow> line \<noteq> journal_prefix d @ t" and "\<And>d. d < 8 \<Longrightarrow> line \<noteq> directive d"
  shows "parse_prefix c line = (Some (0, snd c), c)"
proof (cases w)
  case Nil
  then show ?thesis using assms(1,3) by (simp add: parse_no_bracket newline_def)
next
  case (Cons x v)
  show ?thesis
  proof (cases "x = CHR ''<''")
    case False
    then show ?thesis using assms(1,3) Cons by (simp add: parse_no_bracket)
  next
    case True
    let ?b = "v @ [newline]"
    have line: "line = CHR ''<'' # ?b" using assms(3) Cons True by simp
    have no_j: "\<not> (g_ascii_isdigit d \<and> digit_value d < 8 \<and> ?b = d # CHR ''>'' # t)" for d t
      using j [of "digit_value d" t] line by (auto simp: journal_prefix_def digit_value_inverse)
    show ?thesis
    proof (cases "take (length remaining_lines_prefix) ?b = take (length ?b) remaining_lines_prefix")
      case False
      have "parse_digit False c line ?b = (Some (0, snd c), c)"
        using no_j by (auto simp: parse_digit_eq digit_not_newline split: list.splits)
      then show ?thesis using False assms(1) by (simp add: line parse_bracket)
    next
      case True
      have "\<not> length ?b < length remaining_lines_prefix"
      proof
        assume "length ?b < length remaining_lines_prefix"
        then have "?b = take (length ?b) remaining_lines_prefix" using True by simp
        then have "newline \<in> set remaining_lines_prefix" by (metis in_set_conv_decomp set_take_subset subsetD)
        then show False using newline_not_in_prefix by simp
      qed
      then obtain t where t: "?b = remaining_lines_prefix @ t" using True
        by (metis append_take_drop_id not_less take_all)
      have "t \<noteq> []" using t newline_not_in_prefix by (metis append_Nil2 in_set_conv_decomp)
      then obtain u where u: "t = u @ [newline]" "newline \<notin> set u"
        using t assms(2) Cons by (metis (no_types, opaque_lifting) Un_iff append_assoc append_butlast_last_id butlast_append butlast_snoc last_appendR last_snoc list.set_intros(2) set_append)
      have no_d: "\<not> (g_ascii_isdigit d \<and> digit_value d < 8 \<and> t = [d, CHR ''>'', newline])" for d
        using assms(5) [of "digit_value d"] line t by (auto simp: directive_alt digit_value_inverse)
      have tail: "y = []" if "t = x # CHR ''>'' # newline # y" for x y
      proof (rule ccontr)
        assume "y \<noteq> []"
        then obtain y' z where "y = y' @ [z]" by (cases y rule: rev_cases) auto
        then show False using that u by auto
      qed
      have "parse_digit True c line t = (Some (0, snd c), c)"
        using u no_d tail by (auto simp: parse_digit_eq digit_not_newline Cons_eq_append_conv split: list.splits) (auto simp: newline_def)
      then show ?thesis using assms(1) True t by (simp add: line parse_bracket)
    qed
  qed
qed

lemma find_SomeD: "find P xs = Some x \<Longrightarrow> x \<in> set xs \<and> P x"
  by (induction xs) (auto split: if_splits)

lemma parse_line:
  assumes "newline \<notin> set w" and "line = w @ [newline]" and "line_level c line = (text, level, c')"
  shows "parse_prefix c line = (Some (length line - length text, level), c') \<and> (\<exists>u. line = u @ text)"
proof (cases "fst c")
  case False
  then show ?thesis using assms(3) by (auto simp: line_level_def parse_off)
next
  case on: True
  show ?thesis
  proof (cases "find (\<lambda>d. g_str_has_prefix line (journal_prefix d)) [0..<8]")
    case (Some d)
    then have "d < 8" "g_str_has_prefix line (journal_prefix d)" using find_SomeD [OF Some] by auto
    then obtain t where t: "line = journal_prefix d @ t" "d < 8" by (auto simp: g_str_has_prefix_iff)
    have "(text, level, c') = (t, d, c)" using assms(3) on Some t(1) by (simp add: line_level_def journal_prefix_def)
    moreover have "length (journal_prefix d) = 3" by (simp add: journal_prefix_def)
    ultimately show ?thesis using t on by (auto simp: parse_journal_prefix)
  next
    case no_j: None
    show ?thesis
    proof (cases "find (\<lambda>d. line = directive d) [0..<8]")
      case (Some d)
      then have "d < 8" "line = directive d" using find_SomeD [OF Some] by auto
      then show ?thesis using assms(3) on no_j Some by (auto simp: line_level_def parse_directive)
    next
      case None
      have "parse_prefix c line = (Some (0, snd c), c)"
      proof (rule parse_other [OF on assms(1,2)])
        show "line \<noteq> journal_prefix d @ t" if "d < 8" for d t
          using no_j that by (auto simp: find_None_iff g_str_has_prefix_iff)
        show "line \<noteq> directive d" if "d < 8" for d using None that by (auto simp: find_None_iff)
      qed
      then show ?thesis using assms(3) on no_j None by (auto simp: line_level_def)
    qed
  qed
qed

text \<open>What is found out about a part of a line stays true when the rest arrives.\<close>

lemma parse_digit_mono:
  assumes "parse_digit stop c whole buf = (Some r, c')" and "newline \<notin> set buf" and "\<exists>u. whole = u @ buf"
  shows "c' = c \<and> parse_digit stop c (whole @ v) (buf @ v) = (Some r, c) \<and> fst r \<le> length whole"
  using assms by (auto simp: parse_digit_eq split: list.splits if_splits)

lemma parse_mono:
  assumes "parse_prefix c u = (Some r, c')" and "newline \<notin> set u"
  shows "c' = c \<and> parse_prefix c (u @ v) = (Some r, c) \<and> fst r \<le> length u"
proof (cases "fst c")
  case False
  then show ?thesis using assms(1) by (auto simp: parse_off)
next
  case on: True
  have "u \<noteq> []" using assms(1) on by (auto simp: parse_defs)
  then obtain x b where u: "u = x # b" by (cases u) auto
  show ?thesis
  proof (cases "x = CHR ''<''")
    case False
    then show ?thesis using assms(1) on by (auto simp: u parse_no_bracket)
  next
    case True
    let ?n = "length remaining_lines_prefix"
    show ?thesis
    proof (cases "take ?n b = take (length b) remaining_lines_prefix")
      case eq: True
      then have "\<not> length b < ?n" using assms(1) on True by (auto simp: u parse_bracket)
      then have p: "take ?n (b @ v) = take (length (b @ v)) remaining_lines_prefix" "\<not> length (b @ v) < ?n"
        "drop ?n (b @ v) = drop ?n b @ v" using eq by auto
      have d: "parse_digit True c u (drop ?n b) = (Some r, c')"
        using assms(1) on True eq \<open>\<not> length b < ?n\<close> by (simp add: u parse_bracket)
      have "newline \<notin> set (drop ?n b)" using assms(2) u by (auto dest: in_set_dropD)
      moreover have "u = (x # take ?n b) @ drop ?n b" by (simp add: u)
      ultimately have "c' = c \<and> parse_digit True c (u @ v) (drop ?n b @ v) = (Some r, c) \<and> fst r \<le> length u"
        using parse_digit_mono [OF d] by blast
      then show ?thesis using on True p by (simp add: u parse_bracket)
    next
      case neq: False
      then have d: "parse_digit False c u b = (Some r, c')" using assms(1) on True by (simp add: u parse_bracket)
      have ne: "take ?n (b @ v) \<noteq> take (length (b @ v)) remaining_lines_prefix"
      proof
        assume eq: "take ?n (b @ v) = take (length (b @ v)) remaining_lines_prefix"
        have "take ?n b = take (length b) (take ?n (b @ v))" by (simp add: min_def)
        also have "\<dots> = take (length b) remaining_lines_prefix" unfolding eq by (simp add: min_def)
        finally show False using neq by simp
      qed
      have "c' = c \<and> parse_digit False c (u @ v) (b @ v) = (Some r, c) \<and> fst r \<le> length u"
        using parse_digit_mono [OF d] assms(2) u by (metis append_Cons append_Nil set_subset_Cons subset_code(1))
      then show ?thesis using on True ne by (simp add: u parse_bracket)
    qed
  qed
qed

section \<open>The specification of the lines\<close>

text \<open>A line ends with a newline, which is added if it is missing at the end of the input or if the line
  is longer than the buffer; the rest of a long line keeps its level.\<close>

definition logical_line :: "cfg \<Rightarrow> nat option \<Rightarrow> string \<Rightarrow> string \<times> nat \<times> cfg" where
  "logical_line c continued line = (case continued of Some level \<Rightarrow> (line, level, c) | None \<Rightarrow> line_level c line)"

function log_lines :: "cfg \<Rightarrow> nat option \<Rightarrow> string \<Rightarrow> (nat \<times> string) list" where
  "log_lines c continued s =
     (if s = [] then []
      else let a = takeWhile (\<lambda>x. x \<noteq> newline) s;
               too_long = (LINE_MAX \<le> length a);
               (text, level, c') = logical_line c continued ((if too_long then take LINE_MAX a else a) @ [newline])
           in (if text = [] then [] else [(level, text)])
              @ log_lines c' (if too_long then Some level else None) (drop (if too_long then LINE_MAX else length a + 1) s))"
  by pat_completeness auto
termination
  by (relation "measure (\<lambda>(c, continued, s). length s)") (auto simp: LINE_MAX_def)

declare log_lines.simps [simp del]

lemma log_lines_Nil [simp]: "log_lines c k [] = []"
  by (subst log_lines.simps) simp

section \<open>The events of the main loop\<close>

text \<open>\<open>Config\<close>: a directive may have changed how lines are parsed. \<open>Shown\<close> and \<open>Logged\<close> are the calls of
  \<open>logger_process_partial_line\<close> and \<open>logger_process_complete_line\<close>.\<close>

datatype event = Config cfg | Shown nat string | Logged nat string

definition line_events :: "string \<Rightarrow> cfg \<Rightarrow> line_state \<Rightarrow> event list \<times> cfg \<times> nat \<times> nat" where
  "line_events line c ls =
     (let (shown, c1, plen, level) =
        (if ls_already ls > 0 then
           ([Shown (ls_level ls) (drop (ls_already ls) line)], c, the (ls_prefix ls), ls_level ls)
         else let (r, c1) = (case ls_prefix ls of Some plen \<Rightarrow> (Some (plen, ls_level ls), c) | None \<Rightarrow> parse_prefix c line);
                  (plen, level) = the r
              in (Config c1 # (if plen < length line then [Shown level (drop plen line)] else []), c1, plen, level))
      in (shown @ (if plen < length line then [Logged level (drop plen line)] else []), c1, plen, level))"

function lines_events :: "bool \<Rightarrow> cfg \<Rightarrow> line_state \<Rightarrow> event list \<times> cfg \<times> line_state" where
  "lines_events at_eof c ls =
     (if ls_buf ls = [] then ([], c, ls)
      else case next_line at_eof ls of
        None \<Rightarrow> ([], c, ls)
      | Some (line, overflowed) \<Rightarrow>
          (let (evs, c1, plen, level) = line_events line c ls;
               (evs', r) = lines_events at_eof c1
                 (ls\<lparr> ls_buf := drop (length line) (ls_buf ls), ls_already := 0,
                     ls_prefix := if overflowed then Some 0 else None, ls_level := level \<rparr>)
           in (evs @ evs', r)))"
  by pat_completeness auto
termination
  by (relation "measure (\<lambda>(at_eof, c, ls). length (ls_buf ls))") (auto simp: next_line_def Let_def LINE_MAX_def split: if_splits)

declare lines_events.simps [simp del]

definition rest_events :: "cfg \<Rightarrow> line_state \<Rightarrow> event list \<times> cfg \<times> line_state" where
  "rest_events c ls =
     (if \<not> length (ls_buf ls) > ls_already ls then ([], c, ls)
      else (let (c1, ls1) = (case ls_prefix ls of
                    Some _ \<Rightarrow> (c, ls)
                  | None \<Rightarrow> (case parse_prefix c (ls_buf ls) of
                        (None, c1) \<Rightarrow> (c1, ls)
                      | (Some (plen, level), c1) \<Rightarrow>
                          (c1, ls\<lparr> ls_prefix := Some plen, ls_level := level, ls_already := ls_already ls + plen \<rparr>)))
            in if ls_prefix ls1 \<noteq> None \<and> length (ls_buf ls1) > ls_already ls1 then
                 ([Config c1, Shown (ls_level ls1) (drop (ls_already ls1) (ls_buf ls1))], c1,
                  ls1\<lparr> ls_already := length (ls_buf ls1) \<rparr>)
               else ([Config c1], c1, ls1)))"

fun feed :: "cfg \<Rightarrow> line_state \<Rightarrow> string \<Rightarrow> (errno + nat) list \<Rightarrow> event list" where
  "feed c ls input [] = []"
| "feed c ls input (Inl e # reads) = []"
| "feed c ls input (Inr k # reads) =
     (let bytes = read_stdin input k (LINE_MAX - length (ls_buf ls));
          (evs1, c1, ls1) = lines_events (bytes = []) c (ls\<lparr> ls_buf := ls_buf ls @ bytes \<rparr>);
          (evs2, c2, ls2) = rest_events c1 ls1
      in evs1 @ evs2 @ (if bytes \<noteq> [] then feed c2 ls2 (drop (length bytes) input) reads else []))"

fun logged :: "event list \<Rightarrow> (nat \<times> string) list" where
  "logged [] = []"
| "logged (Logged level text # evs) = (level, text) # logged evs"
| "logged (_ # evs) = logged evs"

lemma logged_append [simp]: "logged (evs @ evs') = logged evs @ logged evs'"
  by (induction evs rule: logged.induct) auto

text \<open>What a terminal with a given level shows, and what a sink gets of a list of lines.\<close>

definition texts :: "(nat \<Rightarrow> bool) \<Rightarrow> (nat \<times> string) list \<Rightarrow> string" where
  "texts Q ls = concat (map snd (filter (\<lambda>(level, text). Q level) ls))"

lemma texts_Nil [simp]: "texts Q [] = []"
  by (simp add: texts_def)

lemma texts_append [simp]: "texts Q (a @ b) = texts Q a @ texts Q b"
  by (simp add: texts_def)

fun shown :: "event list \<Rightarrow> (nat \<times> string) list" where
  "shown [] = []"
| "shown (Shown level text # evs) = (level, text) # shown evs"
| "shown (_ # evs) = shown evs"

lemma shown_append [simp]: "shown (evs @ evs') = shown evs @ shown evs'"
  by (induction evs rule: shown.induct) auto

section \<open>The machine meets the specification\<close>

text \<open>The invariant of the loop. The parameter \<open>k\<close> is the level of a line that is being continued.\<close>

definition mid :: "cfg \<Rightarrow> nat option \<Rightarrow> line_state \<Rightarrow> bool" where
  "mid c k ls =
     (ls_already ls \<le> length (ls_buf ls) \<and> newline \<notin> set (take (ls_already ls) (ls_buf ls)) \<and> length (ls_buf ls) \<le> LINE_MAX \<and>
      (case ls_prefix ls of
         None \<Rightarrow> ls_already ls = 0 \<and> k = None
       | Some plen \<Rightarrow>
           (case k of
              Some level \<Rightarrow> plen = 0 \<and> ls_level ls = level
            | None \<Rightarrow> ls_already ls > 0 \<and>
                parse_prefix c (take (ls_already ls) (ls_buf ls)) = (Some (plen, ls_level ls), c))))"

text \<open>The text of the current line that has been shown already.\<close>

definition pending :: "line_state \<Rightarrow> (nat \<times> string) list" where
  "pending ls = (if ls_already ls > 0 then [(ls_level ls, drop (the (ls_prefix ls)) (take (ls_already ls) (ls_buf ls)))] else [])"

lemma next_lineD:
  assumes "next_line at_eof ls = Some (line, over)" and "mid c k ls"
  shows "\<exists>w. line = w @ [newline] \<and> newline \<notin> set w \<and> take (ls_already ls) line = take (ls_already ls) (ls_buf ls) \<and>
    ls_already ls < length line"
proof -
  have m: "ls_already ls \<le> length (ls_buf ls)" "newline \<notin> set (take (ls_already ls) (ls_buf ls))"
    using assms(2) by (auto simp: mid_def)
  show ?thesis
  proof (cases "newline \<in> set (drop (ls_already ls) (ls_buf ls))")
    case True
    then have "line = (take (ls_already ls) (ls_buf ls) @ takeWhile (\<lambda>c. c \<noteq> newline) (drop (ls_already ls) (ls_buf ls))) @ [newline]"
      using assms(1) by (simp add: next_line_def)
    moreover have "newline \<notin> set (takeWhile (\<lambda>c. c \<noteq> newline) xs)" for xs by (auto dest: set_takeWhileD)
    ultimately show ?thesis using m by auto
  next
    case False
    then have "line = ls_buf ls @ [newline]" using assms(1) by (auto simp: next_line_def Let_def split: if_splits)
    moreover have "newline \<notin> set (ls_buf ls)" using False m(2) by (metis Un_iff append_take_drop_id set_append)
    ultimately show ?thesis using m(1) by auto
  qed
qed

lemma line_events_mid:
  assumes "next_line at_eof ls = Some (line, over)" and "mid c k ls" and "line_events line c ls = (evs, c', plen, level)"
    and "logical_line c k line = (text, level', c2)"
  shows "level = level' \<and> c' = c2 \<and> drop plen line = text \<and> (ls_already ls > 0 \<longrightarrow> plen \<le> ls_already ls)
    \<and> (ls_already ls = 0 \<longrightarrow> ls_prefix ls = None \<longrightarrow> parse_prefix c line = (Some (plen, level), c'))
    \<and> (\<forall>n. ls_prefix ls = Some n \<longrightarrow> plen = n)
    \<and> logged evs = (if text = [] then [] else [(level, text)])
    \<and> texts Q (pending ls) @ texts Q (shown evs) = texts Q [(level, text)]"
proof -
  obtain w where line: "line = w @ [newline]" "newline \<notin> set w" "take (ls_already ls) line = take (ls_already ls) (ls_buf ls)"
    "ls_already ls < length line" using next_lineD [OF assms(1,2)] by blast
  have whole: "take (ls_already ls) (ls_buf ls) @ drop (ls_already ls) line = line"
    using line(3) by (metis append_take_drop_id)
  have split_at: "drop n (take (ls_already ls) (ls_buf ls)) @ drop (ls_already ls) line = drop n line" if "n \<le> ls_already ls" for n
  proof -
    have "drop n (take (ls_already ls) (ls_buf ls) @ drop (ls_already ls) line) =
        drop n (take (ls_already ls) (ls_buf ls)) @ drop (ls_already ls) line"
      using that assms(2) by (simp add: mid_def)
    then show ?thesis by (simp only: whole)
  qed
  have prefix: "(plen0, l0) = (length line - length text, level') \<and> c0 = c2 \<and> drop plen0 line = text"
    if "parse_prefix c line = (Some (plen0, l0), c0)" "k = None" for plen0 l0 c0
  proof -
    have "line_level c line = (text, level', c2)" using assms(4) that(2) by (simp add: logical_line_def)
    from parse_line [OF line(2,1) this] that(1) show ?thesis by auto
  qed
  show ?thesis
  proof (cases "ls_already ls > 0")
    case True
    then obtain n where n: "ls_prefix ls = Some n" using assms(2) by (auto simp: mid_def split: option.splits)
    have e: "evs = Shown (ls_level ls) (drop (ls_already ls) line) # (if n < length line then [Logged (ls_level ls) (drop n line)] else [])"
      "c' = c" "plen = n" "level = ls_level ls" using assms(3) True n by (auto simp: line_events_def)
    have "n \<le> ls_already ls \<and> level' = ls_level ls \<and> c2 = c \<and> drop n line = text"
    proof (cases k)
      case None
      then have p: "parse_prefix c (take (ls_already ls) (ls_buf ls)) = (Some (n, ls_level ls), c)"
        "newline \<notin> set (take (ls_already ls) (ls_buf ls))" using assms(2) n by (auto simp: mid_def)
      from parse_mono [OF p, of "drop (ls_already ls) line"] have "parse_prefix c line = (Some (n, ls_level ls), c)" "n \<le> ls_already ls"
        using whole by auto
      then show ?thesis using prefix [OF _ None] by blast
    next
      case (Some l)
      then show ?thesis using assms(2,4) n by (simp add: mid_def logical_line_def)
    qed
    then show ?thesis using e n True split_at [of n] line(4) by (auto simp: pending_def texts_def)
  next
    case False
    show ?thesis
    proof (cases "ls_prefix ls")
      case None
      then have k: "k = None" using assms(2) by (simp add: mid_def)
      obtain t l0 c0 where "line_level c line = (t, l0, c0)" by (cases "line_level c line") auto
      then obtain n where p: "parse_prefix c line = (Some (n, l0), c0)" using parse_line [OF line(2,1)] by blast
      have pre: "l0 = level'" "c0 = c2" "drop n line = text" using prefix [OF p k] by auto
      then have "n < length line \<longleftrightarrow> text \<noteq> []" by auto
      then show ?thesis using assms(3) False None p pre by (auto simp: line_events_def pending_def texts_def)
    next
      case (Some n)
      then have "k = Some (ls_level ls)" "n = 0" using assms(2) False by (auto simp: mid_def split: option.splits)
      then show ?thesis using assms(3,4) False Some line(1) by (auto simp: line_events_def logical_line_def pending_def texts_def)
    qed
  qed
qed

lemma takeWhile_newline: "newline \<in> set a \<Longrightarrow> takeWhile (\<lambda>x. x \<noteq> newline) (a @ b) = takeWhile (\<lambda>x. x \<noteq> newline) a"
  by (rule takeWhile_append1) auto

lemma next_line_log_lines:
  assumes "next_line at_eof ls = Some (line, over)" and "mid c k ls" and "at_eof \<longrightarrow> R = []" and "ls_buf ls \<noteq> []"
    and "logical_line c k line = (text, level, c')"
  shows "log_lines c k (ls_buf ls @ R) = (if text = [] then [] else [(level, text)])
     @ log_lines c' (if over then Some level else None) (drop (length line) (ls_buf ls) @ R)"
proof -
  let ?n = "ls_already ls" and ?b = "ls_buf ls"
  have m: "?n \<le> length ?b" "newline \<notin> set (take ?n ?b)" "length ?b \<le> LINE_MAX" using assms(2) by (auto simp: mid_def)
  let ?a = "takeWhile (\<lambda>x. x \<noteq> newline) (?b @ R)"
  show ?thesis
  proof (cases "newline \<in> set (drop ?n ?b)")
    case True
    then have nl: "newline \<in> set ?b" by (auto dest: in_set_dropD)
    have "takeWhile (\<lambda>x. x \<noteq> newline) (take ?n ?b @ drop ?n ?b) = take ?n ?b @ takeWhile (\<lambda>x. x \<noteq> newline) (drop ?n ?b)"
      using m(2) by (intro takeWhile_append2) auto
    then have a: "?a = take ?n ?b @ takeWhile (\<lambda>x. x \<noteq> newline) (drop ?n ?b)" using takeWhile_newline [OF nl] by simp
    then have line: "line = ?a @ [newline]" "\<not> over" using assms(1) True by (auto simp: next_line_def)
    have "length (takeWhile (\<lambda>x. x \<noteq> newline) ?b) < length ?b"
    proof (rule ccontr)
      assume "\<not> ?thesis"
      then have "takeWhile (\<lambda>x. x \<noteq> newline) ?b = ?b" using length_takeWhile_le [of "\<lambda>x. x \<noteq> newline" ?b] by (metis le_neq_implies_less takeWhile_eq_take take_all_iff linorder_le_less_linear)
      then show False using nl by (metis (mono_tags) set_takeWhileD)
    qed
    then have len: "length ?a < length ?b" using takeWhile_newline [OF nl] by simp
    show ?thesis by (subst log_lines.simps) (use line len m(3) assms(4,5) in \<open>simp add: Let_def\<close>)
  next
    case False
    then have no: "newline \<notin> set ?b" using m(2) by (metis Un_iff append_take_drop_id set_append)
    then have a: "?a = ?b @ takeWhile (\<lambda>x. x \<noteq> newline) R" by (intro takeWhile_append2) auto
    have line: "line = ?b @ [newline]" "over" "at_eof \<or> length ?b = LINE_MAX"
      using assms(1) False by (auto simp: next_line_def Let_def split: if_splits)
    show ?thesis
    proof (cases "length ?b = LINE_MAX")
      case True
      then show ?thesis by (subst log_lines.simps) (use line a assms(4,5) in \<open>simp add: Let_def\<close>)
    next
      case short: False
      then have R: "R = []" using line(3) assms(3) by simp
      have tw: "takeWhile (\<lambda>x. x \<noteq> newline) ?b = ?b" using no by (simp add: takeWhile_eq_all_conv) auto
      then show ?thesis using short m(3) R by (subst log_lines.simps) (use line assms(4,5) in \<open>simp add: Let_def tw\<close>)
    qed
  qed
qed

lemma lines_events_spec:
  "mid c k ls \<Longrightarrow> at_eof \<longrightarrow> R = [] \<Longrightarrow> lines_events at_eof c ls = (evs, c', ls') \<Longrightarrow>
   \<exists>k'. mid c' k' ls' \<and> log_lines c k (ls_buf ls @ R) = logged evs @ log_lines c' k' (ls_buf ls' @ R)
     \<and> texts Q (pending ls) @ texts Q (shown evs) = texts Q (logged evs) @ texts Q (pending ls')
     \<and> (ls_buf ls' = [] \<or> next_line at_eof ls' = None)"
proof (induction at_eof c ls arbitrary: k evs rule: lines_events.induct)
  case (1 at_eof c ls)
  show ?case
  proof (cases "ls_buf ls = [] \<or> next_line at_eof ls = None")
    case True
    then have "lines_events at_eof c ls = ([], c, ls)" by (subst lines_events.simps) auto
    then have "evs = []" "c' = c" "ls' = ls" using "1.prems"(3) by auto
    then show ?thesis using "1.prems"(1) True by (auto simp: texts_def)
  next
    case False
    then obtain line over where nl: "next_line at_eof ls = Some (line, over)" by auto
    obtain evs1 c1 plen level where le: "line_events line c ls = (evs1, c1, plen, level)" by (cases "line_events line c ls") auto
    let ?ls1 = "ls\<lparr> ls_buf := drop (length line) (ls_buf ls), ls_already := 0,
        ls_prefix := if over then Some 0 else None, ls_level := level \<rparr>"
    obtain evs2 where rec: "lines_events at_eof c1 ?ls1 = (evs2, c', ls')" and evs: "evs = evs1 @ evs2"
      using "1.prems"(3) False nl le by (auto simp: lines_events.simps [of at_eof c ls] split: prod.splits)
    obtain body level' c2 where ll: "logical_line c k line = (body, level', c2)" by (cases "logical_line c k line") auto
    have e: "level = level'" "c1 = c2" "logged evs1 = (if body = [] then [] else [(level, body)])"
      "texts Q (pending ls) @ texts Q (shown evs1) = texts Q [(level, body)]"
      using line_events_mid [OF nl "1.prems"(1) le ll] by auto
    have m: "mid c1 (if over then Some level else None) ?ls1" using "1.prems"(1) by (auto simp: mid_def)
    obtain k' where k': "mid c' k' ls'"
      "log_lines c1 (if over then Some level else None) (drop (length line) (ls_buf ls) @ R) = logged evs2 @ log_lines c' k' (ls_buf ls' @ R)"
      "texts Q (pending ?ls1) @ texts Q (shown evs2) = texts Q (logged evs2) @ texts Q (pending ls')"
      "ls_buf ls' = [] \<or> next_line at_eof ls' = None"
      using "1.IH" [OF _ nl refl le [symmetric] refl refl refl m "1.prems"(2) rec] False by auto
    have "log_lines c k (ls_buf ls @ R) = logged evs @ log_lines c' k' (ls_buf ls' @ R)"
      using next_line_log_lines [OF nl "1.prems"(1,2) _ ll] False k'(2) e evs by auto
    moreover have "texts Q (pending ls) @ texts Q (shown evs) = texts Q (logged evs) @ texts Q (pending ls')"
    proof -
      have "pending ?ls1 = []" by (simp add: pending_def)
      moreover have "texts Q [(level, body)] = texts Q (logged evs1)" using e(3) by (auto simp: texts_def)
      ultimately show ?thesis using k'(3) e(4) evs by (simp add: texts_def)
    qed
    ultimately show ?thesis using k'(1,4) by blast
  qed
qed

lemma rest_events_spec:
  assumes "mid c k ls" and "ls_buf ls = [] \<or> next_line False ls = None" and "rest_events c ls = (evs, c', ls')"
  shows "mid c' k ls' \<and> c' = c \<and> ls_buf ls' = ls_buf ls \<and> logged evs = [] \<and> length (ls_buf ls') < LINE_MAX
    \<and> texts Q (pending ls) @ texts Q (shown evs) = texts Q (pending ls')"
proof -
  let ?b = "ls_buf ls"
  have m: "ls_already ls \<le> length ?b" "newline \<notin> set (take (ls_already ls) ?b)" "length ?b \<le> LINE_MAX" using assms(1) by (auto simp: mid_def)
  have no: "newline \<notin> set ?b" "length ?b < LINE_MAX"
    using assms(2) m by (auto simp: next_line_def Let_def LINE_MAX_def split: if_splits) (metis Un_iff append_take_drop_id set_append)
  show ?thesis
  proof (cases "length ?b > ls_already ls")
    case False
    then show ?thesis using assms(1,3) no by (auto simp: rest_events_def texts_def)
  next
    case True
    show ?thesis
    proof (cases "ls_prefix ls")
      case (Some n)
      have e: "evs = [Config c, Shown (ls_level ls) (drop (ls_already ls) ?b)]" "c' = c" "ls' = ls\<lparr> ls_already := length ?b \<rparr>"
        using assms(3) True Some by (auto simp: rest_events_def)
      show ?thesis
      proof (cases k)
        case None
        then have p: "parse_prefix c (take (ls_already ls) ?b) = (Some (n, ls_level ls), c)" "ls_already ls > 0"
          using assms(1) Some by (auto simp: mid_def)
        from parse_mono [OF p(1) m(2), of "drop (ls_already ls) ?b"] m(1)
        have q: "parse_prefix c ?b = (Some (n, ls_level ls), c)" "n \<le> ls_already ls" by auto
        have "drop n (take (ls_already ls) ?b @ drop (ls_already ls) ?b) = drop n (take (ls_already ls) ?b) @ drop (ls_already ls) ?b"
          unfolding drop_append using q(2) m(1) by simp
        then have "drop n ?b = drop n (take (ls_already ls) ?b) @ drop (ls_already ls) ?b" by simp
        then show ?thesis using e Some None no p q True by (auto simp: mid_def pending_def texts_def)
      next
        case k: (Some l)
        then have n: "n = 0" "ls_level ls = l" using assms(1) Some by (auto simp: mid_def)
        then show ?thesis using e Some k no True by (auto simp: mid_def pending_def texts_def)
      qed
    next
      case None
      then have k: "k = None" "ls_already ls = 0" using assms(1) by (auto simp: mid_def)
      obtain r c1 where r: "parse_prefix c ?b = (r, c1)" by (cases "parse_prefix c ?b") auto
      show ?thesis
      proof (cases r)
        case None': None
        have "c1 = c" using r None' by (cases c) (auto simp: parse_defs split: list.splits if_splits)
        then show ?thesis using assms(1,3) True None None' r no k by (auto simp: rest_events_def texts_def)
      next
        case (Some q)
        obtain n l where q: "q = (n, l)" by (cases q)
        from parse_mono [OF r [unfolded Some q] no(1), of "[]"] have c1: "c1 = c" "n \<le> length ?b" by auto
        show ?thesis
        proof (cases "length ?b > n")
          case lt: True
          have e: "evs = [Config c, Shown l (drop n ?b)]" "c' = c"
            "ls' = ls\<lparr> ls_prefix := Some n, ls_level := l, ls_already := length ?b \<rparr>"
            using assms(3) True None r k c1 lt by (auto simp: rest_events_def Some q)
          then show ?thesis using k no True r c1 by (auto simp: mid_def pending_def texts_def Some q)
        next
          case ge: False
          have e: "evs = [Config c]" "c' = c" "ls' = ls\<lparr> ls_prefix := Some n, ls_level := l, ls_already := n \<rparr>"
            using assms(3) True None r k c1 ge by (auto simp: rest_events_def Some q)
          then show ?thesis using k no True r c1 ge by (auto simp: mid_def pending_def texts_def Some q)
        qed
      qed
    qed
  qed
qed

text \<open>Enough reads without an error, and the end of the input is reached.\<close>

definition enough_reads :: "string \<Rightarrow> (errno + nat) list \<Rightarrow> bool" where
  "enough_reads input reads = (length input < length reads \<and> (\<forall>r \<in> set reads. \<exists>n. r = Inr n))"

lemma read_stdin_pos: "0 < room \<Longrightarrow> input \<noteq> [] \<Longrightarrow> read_stdin input k room \<noteq> []"
  by (simp add: read_stdin_def)

lemma read_stdin_drop: "read_stdin input k room @ drop (length (read_stdin input k room)) input = input"
  by (auto simp: read_stdin_def min_def)

lemma feed_spec:
  "mid c k ls \<Longrightarrow> length (ls_buf ls) < LINE_MAX \<Longrightarrow> enough_reads input reads \<Longrightarrow>
   log_lines c k (ls_buf ls @ input) = logged (feed c ls input reads)
   \<and> texts Q (pending ls) @ texts Q (shown (feed c ls input reads)) = texts Q (logged (feed c ls input reads))"
proof (induction c ls input reads arbitrary: k rule: feed.induct)
  case (3 c ls input n reads)
  let ?bytes = "read_stdin input n (LINE_MAX - length (ls_buf ls))"
  let ?rest = "drop (length ?bytes) input"
  let ?ls0 = "ls\<lparr> ls_buf := ls_buf ls @ ?bytes \<rparr>"
  obtain evs1 c1 ls1 where e1: "lines_events (?bytes = []) c ?ls0 = (evs1, c1, ls1)" by (cases "lines_events (?bytes = []) c ?ls0") auto
  obtain evs2 c2 ls2 where e2: "rest_events c1 ls1 = (evs2, c2, ls2)" by (cases "rest_events c1 ls1") auto
  have f: "feed c ls input (Inr n # reads) = evs1 @ evs2 @ (if ?bytes \<noteq> [] then feed c2 ls2 ?rest reads else [])"
    using e1 e2 by (simp add: Let_def)
  have m: "mid c k ?ls0" using "3.prems"(1,2) by (auto simp: mid_def read_stdin_def split: option.splits)
  have eof: "?bytes = [] \<longrightarrow> input = []" using read_stdin_pos [of "LINE_MAX - length (ls_buf ls)" input n] "3.prems"(2) by auto
  have p: "pending ?ls0 = pending ls" using "3.prems"(1) by (auto simp: pending_def mid_def)
  have "?bytes = [] \<longrightarrow> ?rest = []" using eof by simp
  from lines_events_spec [OF m this e1, of Q] obtain k1 where k1: "mid c1 k1 ls1"
    "log_lines c k ((ls_buf ls @ ?bytes) @ ?rest) = logged evs1 @ log_lines c1 k1 (ls_buf ls1 @ ?rest)"
    "texts Q (pending ls) @ texts Q (shown evs1) = texts Q (logged evs1) @ texts Q (pending ls1)"
    "ls_buf ls1 = [] \<or> next_line (?bytes = []) ls1 = None" using p by auto
  have nl: "ls_buf ls1 = [] \<or> next_line False ls1 = None" using k1(4) by (auto simp: next_line_def Let_def split: if_splits)
  have r: "mid c2 k1 ls2" "c2 = c1" "ls_buf ls2 = ls_buf ls1" "logged evs2 = []" "length (ls_buf ls2) < LINE_MAX"
    "texts Q (pending ls1) @ texts Q (shown evs2) = texts Q (pending ls2)" using rest_events_spec [OF k1(1) nl e2, of Q] by auto
  have whole: "log_lines c k (ls_buf ls @ input) = logged evs1 @ log_lines c2 k1 (ls_buf ls2 @ ?rest)"
    using k1(2) r(2,3) read_stdin_drop [of input n] by simp
  show ?case
  proof (cases "?bytes = []")
    case True
    then have "input = []" using eof by simp
    have "ls_buf ls1 = []" using k1(4) True by (auto simp: next_line_def Let_def split: if_splits)
    then have "ls_buf ls2 = []" "pending ls2 = []" using r(1,3) by (auto simp: pending_def mid_def)
    then show ?thesis using True whole f k1(3) r(4,6) \<open>input = []\<close> by auto
  next
    case False
    have "enough_reads ?rest reads" using "3.prems"(3) False by (cases input) (auto simp: enough_reads_def read_stdin_def)
    from "3.IH" [OF refl e1 [symmetric] refl refl e2 [symmetric] refl refl False r(1,5) this]
    show ?thesis using False whole f k1(3) r(4,6) by (auto simp: texts_def) (metis append.assoc)
  qed
qed (auto simp: enough_reads_def)

end
