(* ===== verification/LoggerSinks.thy ===== *)
theory LoggerSinks imports LoggerLines begin

text \<open>
  What the sinks of the logger receive. The code of the main loop performs the events of the machine
  in \<open>LoggerLines\<close>; from that follow the contents of the Journal, of the terminal and of the
  log files, for every way in which the input arrives and for every kernel.
\<close>

section \<open>Performing events\<close>

fun perform :: "int \<Rightarrow> event list \<Rightarrow> logger \<Rightarrow> logger prog" where
  "perform start [] s = Ret s"
| "perform start (Config c # evs) s = perform start evs (set_cfg c s)"
| "perform start (Shown level t # evs) s = pbind (logger_process_partial_line s level t) (\<lambda>_. perform start evs s)"
| "perform start (Logged level t # evs) s = pbind (logger_process_complete_line s level start t) (perform start evs)"

lemma perform_append: "perform start (evs @ evs') s = pbind (perform start evs s) (perform start evs')"
proof (induction start evs s rule: perform.induct)
  case (4 start level t evs s)
  then have "perform start (evs @ evs') = (\<lambda>x. pbind (perform start evs x) (perform start evs'))" by auto
  then show ?case by (simp add: pbind_assoc)
qed (auto simp: pbind_assoc)

text \<open>What writing a line may change in the object: nothing but this.\<close>

definition but_file :: "logger \<Rightarrow> logger" where
  "but_file s = s\<lparr> lg_file_fd := 0, lg_file_stat := no_stat, lg_max_bytes := 0 \<rparr>"

definition keeps :: "logger \<Rightarrow> logger \<Rightarrow> bool" where
  "keeps s s' = (but_file s' = but_file s \<and> (0 \<le> lg_file_fd s' \<longleftrightarrow> 0 \<le> lg_file_fd s))"

lemma keeps_refl [simp, intro]: "keeps s s"
  by (simp add: keeps_def)

lemma keeps_trans: "keeps a b \<Longrightarrow> keeps b c \<Longrightarrow> keeps a c"
  by (simp add: keeps_def)

lemma keeps_file: "0 \<le> lg_file_fd s \<Longrightarrow> 0 \<le> fd \<Longrightarrow> keeps s (s\<lparr> lg_file_fd := fd, lg_file_stat := st \<rparr>)"
  by (simp add: keeps_def but_file_def)

lemma keeps_max_bytes: "keeps s s' \<Longrightarrow> keeps s (s'\<lparr> lg_max_bytes := n \<rparr>)"
  by (simp add: keeps_def but_file_def)

lemma cfg_but_file: "cfg (but_file s) = cfg s"
  by (simp add: cfg_def but_file_def)

lemma keeps_cfg: "keeps s s' \<Longrightarrow> cfg s' = cfg s"
  by (metis keeps_def cfg_but_file)

lemma leaves_try_rotate: "0 \<le> lg_file_fd s \<Longrightarrow> leaves (\<lambda>(r, s'). keeps s s') (srt_logger_try_rotate s)"
  by (auto simp: srt_logger_try_rotate_def failed_def rotate_link_def rotate_replace_def rotate_out_def Let_def leaves_bind keeps_file
      split: option.split sum.split)

lemma leaves_reopen_file: "0 \<le> lg_file_fd s \<Longrightarrow> leaves (keeps s) (reopen_file f s)"
  by (auto simp: reopen_file_def leaves_bind keeps_file lock_output_file_def split: sum.split intro: leaves_mono [OF leaves_True])

lemma leaves_check_file:
  assumes "0 \<le> lg_file_fd s"
  shows "leaves (keeps s) (check_file f len s)"
proof -
  have "leaves (keeps s) (pbind (srt_logger_try_rotate s) (\<lambda>(r, s1). case r of
      Inr _ \<Rightarrow> Ret s1 | Inl e \<Rightarrow> if e = PRECONDITION_FAILED then Abort else Ret (s1\<lparr> lg_max_bytes := 0 \<rparr>)))"
    by (rule leaves_bindI [OF leaves_try_rotate [OF assms]]) (auto intro: keeps_max_bytes split: sum.split)
  then show ?thesis using assms
    by (auto simp: check_file_def leaves_bind leaves_reopen_file split: sum.split)
qed

lemma leaves_write_file_line: "leaves (\<lambda>s'. s' = s) (write_file_line start t s)"
  unfolding write_file_line_def by (intro leaves_bindI [OF leaves_True]) simp

lemma leaves_complete_line: "leaves (keeps s) (logger_process_complete_line s level start t)"
  unfolding logger_process_complete_line_def
proof (intro leaves_bindI [OF leaves_True], simp, intro impI)
  assume fd: "0 \<le> lg_file_fd s \<and> level \<le> lg_file_level s"
  have "leaves (keeps s) (case lg_filename s of Some f \<Rightarrow> check_file f (length t) s | None \<Rightarrow> Ret s)"
    using fd by (auto simp: leaves_check_file split: option.split)
  then show "leaves (keeps s) (pbind (case lg_filename s of Some f \<Rightarrow> check_file f (length t) s | None \<Rightarrow> Ret s) (write_file_line start t))"
    by (rule leaves_bindI) (auto intro: leaves_mono [OF leaves_write_file_line])
qed

section \<open>The main loop performs the events\<close>

lemma pbind_cong_prop: "leaves P p \<Longrightarrow> (\<And>x. P x \<Longrightarrow> f x = g x) \<Longrightarrow> pbind p f = pbind p g"
  by (rule pbind_cong_leaves) (auto intro: leaves_mono)

lemma process_line_eq:
  assumes "next_line at_eof ls = Some (line, over)" and "mid (cfg s) k ls"
    and "line_events line (cfg s) ls = (evs, c', plen, level)"
  shows "process_line line s ls = pbind (perform (ls_start ls) evs s) (\<lambda>s'. Ret (s', plen, level))
    \<and> leaves (\<lambda>s'. cfg s' = c') (perform (ls_start ls) evs s)"
proof -
  have already: "ls_already ls < length line" using next_lineD [OF assms(1,2)] by blast
  obtain body level' c2 where "logical_line (cfg s) k line = (body, level', c2)" by (cases "logical_line (cfg s) k line") auto
  note le = line_events_mid [OF assms(1-3) this, of "\<lambda>_. True"]
  have complete: "leaves (\<lambda>s'. cfg s' = cfg a) (logger_process_complete_line a l start t)" for a l start t
    by (rule leaves_mono [OF leaves_complete_line keeps_cfg])
  show ?thesis
  proof (cases "ls_already ls > 0")
    case True
    then obtain n where "ls_prefix ls = Some n" using assms(2) by (auto simp: mid_def split: option.splits)
    then show ?thesis using assms(3) True already complete
      by (auto simp: process_line_def line_events_def Let_def pbind_assoc leaves_bind
          intro: leaves_bindI [OF leaves_True] leaves_mono [OF leaves_True])
  next
    case False
    show ?thesis
    proof (cases "ls_prefix ls")
      case None
      then have p: "parse_prefix (cfg s) line = (Some (plen, level), c')" using le False by simp
      then show ?thesis using assms(3) False None complete [of "set_cfg c' s"]
        by (auto simp: process_line_def line_events_def Let_def pbind_assoc leaves_bind logger_parse_level_prefix_cfg
            intro: leaves_bindI [OF leaves_True] leaves_mono [OF leaves_True])
    next
      case (Some n)
      then show ?thesis using assms(3) False complete [of s]
        by (auto simp: process_line_def line_events_def Let_def pbind_assoc leaves_bind
            intro: leaves_bindI [OF leaves_True] leaves_mono [OF leaves_True])
    qed
  qed
qed

lemma process_lines_eq:
  "mid c k ls \<Longrightarrow> lines_events at_eof c ls = (evs, c', ls') \<Longrightarrow> cfg s = c \<Longrightarrow>
   process_lines at_eof s ls = pbind (perform (ls_start ls) evs s) (\<lambda>s'. Ret (s', ls'))
   \<and> leaves (\<lambda>s'. cfg s' = c') (perform (ls_start ls) evs s)"
proof (induction at_eof c ls arbitrary: s k evs rule: lines_events.induct)
  case (1 at_eof c ls)
  have le: "ls_already ls \<le> length (ls_buf ls)" using "1.prems"(1) by (simp add: mid_def)
  show ?case
  proof (cases "ls_buf ls = [] \<or> next_line at_eof ls = None")
    case True
    then have "lines_events at_eof c ls = ([], c, ls)" by (subst lines_events.simps) auto
    moreover have "process_lines at_eof s ls = Ret (s, ls)" using True le by (subst process_lines.simps) auto
    ultimately show ?thesis using "1.prems"(2,3) by auto
  next
    case False
    then obtain line over where nl: "next_line at_eof ls = Some (line, over)" by auto
    obtain evs1 c1 plen level where e1: "line_events line c ls = (evs1, c1, plen, level)" by (cases "line_events line c ls") auto
    let ?ls1 = "ls\<lparr> ls_buf := drop (length line) (ls_buf ls), ls_already := 0,
        ls_prefix := if over then Some 0 else None, ls_level := level \<rparr>"
    obtain evs2 where e2: "lines_events at_eof c1 ?ls1 = (evs2, c', ls')" and evs: "evs = evs1 @ evs2"
      using "1.prems"(2) False nl e1 by (auto simp: lines_events.simps [of at_eof c ls] split: prod.splits)
    have m: "mid c1 (if over then Some level else None) ?ls1" using "1.prems"(1) by (auto simp: mid_def)
    note first = process_line_eq [OF nl, of s k, unfolded "1.prems"(3), OF "1.prems"(1) e1]
    have rest: "process_lines at_eof s1 ?ls1 = pbind (perform (ls_start ls) evs2 s1) (\<lambda>s'. Ret (s', ls'))
        \<and> leaves (\<lambda>s'. cfg s' = c') (perform (ls_start ls) evs2 s1)" if "cfg s1 = c1" for s1
      using "1.IH" [OF _ nl refl e1 [symmetric] refl refl refl m e2 that] False by simp
    have "process_lines at_eof s ls = pbind (perform (ls_start ls) evs1 s) (\<lambda>s1. process_lines at_eof s1 ?ls1)"
      using False nl le first by (subst process_lines.simps) (simp add: pbind_assoc)
    also have "\<dots> = pbind (perform (ls_start ls) evs1 s) (\<lambda>s1. pbind (perform (ls_start ls) evs2 s1) (\<lambda>s'. Ret (s', ls')))"
      by (rule pbind_cong_prop [OF conjunct2 [OF first]]) (use rest in blast)
    finally have "process_lines at_eof s ls = pbind (perform (ls_start ls) evs s) (\<lambda>s'. Ret (s', ls'))"
      by (simp add: evs perform_append pbind_assoc)
    moreover have "leaves (\<lambda>s'. cfg s' = c') (perform (ls_start ls) evs s)"
      unfolding evs perform_append by (rule leaves_bindI [OF conjunct2 [OF first]]) (use rest in blast)
    ultimately show ?thesis by blast
  qed
qed

lemma process_rest_eq:
  assumes "mid (cfg s) k ls" and "rest_events (cfg s) ls = (evs, c', ls')"
  shows "process_rest s ls = pbind (perform start evs s) (\<lambda>s'. Ret (s', ls'))
    \<and> leaves (\<lambda>s'. cfg s' = c') (perform start evs s)"
proof (cases "length (ls_buf ls) > ls_already ls")
  case False
  then show ?thesis using assms(2) by (auto simp: process_rest_def rest_events_def)
next
  case True
  show ?thesis
  proof (cases "ls_prefix ls")
    case (Some n)
    then show ?thesis using assms(2) True
      by (auto simp: process_rest_def rest_events_def Let_def pbind_assoc leaves_bind intro: leaves_mono [OF leaves_True])
  next
    case None
    have a: "ls_already ls = 0" using assms(1) None by (simp add: mid_def)
    obtain r c1 where r: "parse_prefix (cfg s) (ls_buf ls) = (r, c1)" by (cases "parse_prefix (cfg s) (ls_buf ls)") auto
    show ?thesis using assms(2) True None a r
      by (cases r) (auto simp: process_rest_def rest_events_def Let_def pbind_assoc leaves_bind logger_parse_level_prefix_cfg
          intro: leaves_mono [OF leaves_True] split: if_splits)
  qed
qed

lemma rest_events_mid: "mid c k ls \<Longrightarrow> ls_buf ls = [] \<or> next_line False ls = None \<Longrightarrow> rest_events c ls = (evs, c', ls') \<Longrightarrow>
   mid c' k ls' \<and> length (ls_buf ls') < LINE_MAX"
  using rest_events_spec [of c k ls evs c' ls' "\<lambda>_. True"] by blast

section \<open>What the calls send\<close>

definition opens_only :: "fd set \<Rightarrow> trace \<Rightarrow> bool" where
  "opens_only F tr = (\<forall>(c, a) \<in> set tr. \<forall>p x n. c = C_open p x \<longrightarrow> a = A_fd (Inr n) \<longrightarrow> int n \<in> F)"

lemma opens_only_append [simp]: "opens_only F (a @ b) = (opens_only F a \<and> opens_only F b)"
  unfolding opens_only_def set_append ball_Un by simp

definition formatted :: "nat \<Rightarrow> string \<Rightarrow> string" where
  "formatted level t =
     esc_seq ''[0m'' @ (case level_color level of Some c \<Rightarrow> c | None \<Rightarrow> [])
     @ (if t \<noteq> [] \<and> last t = newline then butlast t @ esc_seq ''[0m'' @ [newline] else t @ esc_seq ''[0m'')"

definition shown_out :: "logger \<Rightarrow> fd set \<Rightarrow> nat \<Rightarrow> string \<Rightarrow> string" where
  "shown_out s F level t =
     (if lg_use_stderr s \<and> level \<le> lg_terminal_level s \<and> STDERR_FILENO \<in> F then t else [])
     @ (if lg_terminal_fd s \<ge> 0 \<and> level \<le> lg_terminal_level s \<and> lg_terminal_fd s \<in> F
        then (if lg_use_terminal_colors s then formatted level t else t) else [])"

lemma runs_if: "runs (if b then p else q) tr x = (if b then runs p tr x else runs q tr x)"
  by simp

lemma write_formatted_line_sent:
  "runs (write_formatted_line fd level t) tr x \<Longrightarrow> \<not> write_failed F tr \<Longrightarrow> 0 \<le> fd \<Longrightarrow>
   sent F tr = (if fd \<in> F then formatted level t else [])"
  by (auto simp: write_formatted_line_def runs_bind formatted_def loop_write_sent split: if_splits option.splits)

lemma partial_line_sent:
  "runs (logger_process_partial_line s level t) tr x \<Longrightarrow> \<not> write_failed F tr \<Longrightarrow> sent F tr = shown_out s F level t"
  by (auto simp: logger_process_partial_line_def runs_bind shown_out_def loop_write_sent write_formatted_line_sent STDERR_FILENO_def
      split: if_splits)

definition logged_out :: "logger \<Rightarrow> fd set \<Rightarrow> bool \<Rightarrow> string \<Rightarrow> nat \<Rightarrow> string \<Rightarrow> string" where
  "logged_out s F files stamp level t =
     (if lg_journal_fd s \<ge> 0 \<and> level \<le> lg_journal_level s \<and> lg_journal_fd s \<in> F then journal_prefix level @ t else [])
     @ (if lg_file_fd s \<ge> 0 \<and> level \<le> lg_file_level s \<and> files then stamp @ t else [])"

lemma calls_lock_output_file: "P (C_lock fd F_OFD_SETLKW F_RDLCK) \<Longrightarrow> P (C_lock fd F_SETLKW F_RDLCK) \<Longrightarrow> calls P (lock_output_file fd)"
  by (auto simp: lock_output_file_def intro!: calls_bind split: sum.split)

text \<open>The calls of a rotation and of opening the log file again.\<close>

definition rotation_call :: "call \<Rightarrow> bool" where
  "rotation_call c = (case c of
      C_open _ _ \<Rightarrow> True | C_close _ \<Rightarrow> True | C_stat _ \<Rightarrow> True | C_fstat _ \<Rightarrow> True | C_lock _ _ _ \<Rightarrow> True
    | C_unlink _ \<Rightarrow> True | C_link _ _ \<Rightarrow> True | C_rename _ _ \<Rightarrow> True | _ \<Rightarrow> False)"

lemma rotation_call_simps [simp]:
  "rotation_call (C_open p x)" "rotation_call (C_close fd)" "rotation_call (C_stat p)" "rotation_call (C_fstat fd)"
  "rotation_call (C_lock fd l t)" "rotation_call (C_unlink p)" "rotation_call (C_link p q)" "rotation_call (C_rename p q)"
  by (auto simp: rotation_call_def)

lemma calls_rotate_out: "calls rotation_call (rotate_out n fd ret s)"
  by (auto simp: rotate_out_def intro!: calls_bind calls_close_fd leaves_mono [OF leaves_True])

lemma calls_try_rotate: "calls rotation_call (srt_logger_try_rotate s)"
  by (auto simp: srt_logger_try_rotate_def failed_def rotate_link_def rotate_replace_def Let_def
      intro!: calls_bind calls_close_fd calls_rotate_out split: sum.split option.split)

lemma calls_reopen_file: "calls rotation_call (reopen_file f s)"
  by (auto simp: reopen_file_def intro!: calls_bind calls_close_fd calls_lock_output_file leaves_mono [OF leaves_True] split: sum.split)

lemma calls_check_file: "calls rotation_call (check_file f len s)"
  by (auto simp: check_file_def intro!: calls_bind calls_reopen_file calls_try_rotate leaves_mono [OF leaves_True] split: sum.split)

lemma rotation_no_write: "rotation_call c \<Longrightarrow> \<not> is_write c"
  by (cases c) (auto simp: rotation_call_def is_write_def)

lemma check_file_sent: "runs (check_file f len s) tr s' \<Longrightarrow> sent F tr = [] \<and> \<not> write_failed F tr"
  by (rule no_write_sent) (auto dest: calls_runs [OF calls_check_file] rotation_no_write)

text \<open>The log file is always one that was opened.\<close>

definition fd_from :: "logger \<Rightarrow> trace \<Rightarrow> logger \<Rightarrow> bool" where
  "fd_from s tr s' = (\<forall>F. opens_only F tr \<longrightarrow> lg_file_fd s \<in> F \<longrightarrow> lg_file_fd s' \<in> F)"

lemma fd_from_same: "lg_file_fd s' = lg_file_fd s \<Longrightarrow> fd_from s tr s'"
  by (simp add: fd_from_def)

lemma fd_from_trans: "fd_from a tr b \<Longrightarrow> fd_from b tr' c \<Longrightarrow> fd_from a (tr @ tr') c"
  by (simp add: fd_from_def)

lemma fd_from_open: "(C_open p x, A_fd (Inr n)) \<in> set tr \<Longrightarrow> lg_file_fd s' = int n \<Longrightarrow> fd_from s tr s'"
  by (force simp: fd_from_def opens_only_def)

lemma rotate_out_runs: "runs (rotate_out n fd ret s) tr (r, s') \<Longrightarrow> r = ret \<and> s' = s"
  using leaves_runs [of "\<lambda>(r, s'). r = ret \<and> s' = s" "rotate_out n fd ret s"] by (auto simp: rotate_out_def leaves_bind)

lemma leaves_rotate_replace: "leaves (\<lambda>(r, s'). lg_file_fd s' = lg_file_fd s \<or> lg_file_fd s' = fd) (rotate_replace f n fd s)"
  by (auto simp: rotate_replace_def rotate_out_def Let_def leaves_bind split: sum.split)

lemma rotate_replace_fd:
  "runs (rotate_replace f n fd s) tr (r, s') \<Longrightarrow> lg_file_fd s' = lg_file_fd s \<or> lg_file_fd s' = fd"
  using leaves_runs [OF leaves_rotate_replace] by fastforce

lemma rotate_link_fd:
  assumes "runs (rotate_link f p n s) tr (r, s')"
  shows "fd_from s tr s'"
proof -
  obtain r1 tr2 where 1: "tr = (C_link f p, A_unit r1) # tr2" "runs (case r1 of
       Inl e \<Rightarrow> rotate_out n (- 1) (Inl (throw_errno e)) s
     | Inr _ \<Rightarrow> pbind (call_fd (C_open n True)) (\<lambda>r2. case r2 of
           Inl e \<Rightarrow> rotate_out n (- 1) (Inl (throw_errno e)) s
         | Inr new_fd \<Rightarrow> rotate_replace f n new_fd s)) tr2 (r, s')"
    using assms by (auto simp: rotate_link_def runs_bind runs_calls)
  show ?thesis
  proof (cases r1)
    case (Inl e)
    then have "s' = s" using 1(2) rotate_out_runs by auto
    then show ?thesis by (simp add: fd_from_same)
  next
    case (Inr u)
    then obtain q tr3 tr4 where 2: "tr2 = tr3 @ tr4" "runs (call_fd (C_open n True)) tr3 q"
      "runs (case q of Inl e \<Rightarrow> rotate_out n (- 1) (Inl (throw_errno e)) s | Inr new_fd \<Rightarrow> rotate_replace f n new_fd s) tr4 (r, s')"
      using 1(2) by (auto simp: runs_bind)
    show ?thesis
    proof (cases q)
      case (Inl e)
      then have "s' = s" using 2(3) rotate_out_runs by auto
      then show ?thesis by (simp add: fd_from_same)
    next
      case (Inr fd)
      then obtain k where k: "fd = int k" "tr3 = [(C_open n True, A_fd (Inr k))]" using 2(2) by (auto simp: runs_calls)
      have "lg_file_fd s' = lg_file_fd s \<or> lg_file_fd s' = int k" using rotate_replace_fd 2(3) Inr k(1) by auto
      then show ?thesis using 1(1) 2(1) k(2) by (auto intro: fd_from_same fd_from_open [of n True k])
    qed
  qed
qed

lemma try_rotate_fd: "runs (srt_logger_try_rotate s) tr (r, s') \<Longrightarrow> fd_from s tr s'"
  by (auto simp: srt_logger_try_rotate_def failed_def runs_bind runs_calls split_sum_ex fd_from_same
      split: option.splits if_splits dest!: rotate_link_fd)
    (auto simp: fd_from_def opens_only_def)

lemma reopen_file_fd: "runs (reopen_file f s) tr s' \<Longrightarrow> fd_from s tr s'"
  by (auto simp: reopen_file_def runs_bind runs_calls split_sum_ex fd_from_same intro: fd_from_open)

lemma check_file_fd: "runs (check_file f len s) tr s' \<Longrightarrow> fd_from s tr s'"
  by (auto simp: check_file_def runs_bind runs_calls split_sum_ex fd_from_same split: if_splits
      dest!: try_rotate_fd reopen_file_fd)
    (auto simp: fd_from_def opens_only_def)

text \<open>The formatted times in a run, and whether each of them is the time that was taken last.\<close>

fun strftimes :: "trace \<Rightarrow> string list" where
  "strftimes [] = []"
| "strftimes ((c, a) # tr) =
     (case c of C_strftime t \<Rightarrow> [case a of A_text (Some x) \<Rightarrow> x | _ \<Rightarrow> []] | _ \<Rightarrow> []) @ strftimes tr"

fun latest_times :: "int \<Rightarrow> trace \<Rightarrow> bool" where
  "latest_times t [] = True"
| "latest_times t ((c, a) # tr) =
     (case c of
        C_time \<Rightarrow> (case a of A_num n \<Rightarrow> latest_times n tr | _ \<Rightarrow> False)
      | C_strftime t' \<Rightarrow> t' = t \<and> latest_times t tr
      | _ \<Rightarrow> latest_times t tr)"

definition no_clock :: "call \<Rightarrow> bool" where
  "no_clock c = (c \<noteq> C_time \<and> (\<forall>t. c \<noteq> C_strftime t))"

definition formats :: "int \<Rightarrow> string list \<Rightarrow> trace \<Rightarrow> bool" where
  "formats t stamps tr = ((\<forall>a. (C_time, a) \<notin> set tr) \<and> latest_times t tr \<and> strftimes tr = stamps)"

lemma strftimes_append [simp]: "strftimes (a @ b) = strftimes a @ strftimes b"
  by (induction a rule: strftimes.induct) auto

lemma formats_then: "formats t stamps a \<Longrightarrow> latest_times t (a @ b) = latest_times t b"
proof -
  have "(\<forall>x. (C_time, x) \<notin> set a) \<Longrightarrow> latest_times t (a @ b) = (latest_times t a \<and> latest_times t b)"
    by (induction t a rule: latest_times.induct) (auto split: call.split)
  then show "formats t stamps a \<Longrightarrow> latest_times t (a @ b) = latest_times t b" by (simp add: formats_def)
qed

lemma formats_append: "formats t x a \<Longrightarrow> formats t y b \<Longrightarrow> formats t (x @ y) (a @ b)"
  using formats_then [of t x a b] by (simp add: formats_def)

lemma formats_none:
  assumes "calls no_clock p" "runs p tr x"
  shows "formats t [] tr"
proof -
  have "formats t [] tr" if "\<forall>(c, a) \<in> set tr. no_clock c" for tr
    using that
  proof (induction tr)
    case (Cons e tr)
    obtain c a where e: "e = (c, a)" by (cases e)
    then have "formats t [] [(c, a)]" using Cons.prems by (cases c) (auto simp: formats_def no_clock_def)
    from formats_append [OF this Cons.IH] show ?case using Cons.prems e by simp
  qed (simp add: formats_def)
  then show ?thesis using calls_runs [OF assms] by blast
qed

lemma no_clock_loop_write: "calls no_clock (loop_write fd buf)"
proof (induction fd buf rule: loop_write.induct)
  case (1 fd buf)
  have "no_clock (C_write fd buf)" by (simp add: no_clock_def)
  then show ?case using 1 by (subst loop_write.simps) (auto split: answer.split sum.split)
qed

lemma no_clock_check_file: "calls no_clock (check_file f len s)"
  by (rule calls_mono [OF calls_check_file]) (auto simp: rotation_call_def no_clock_def split: call.splits)

lemma no_clock_partial_line: "calls no_clock (logger_process_partial_line s level t)"
  by (auto simp: logger_process_partial_line_def write_formatted_line_def no_clock_loop_write
      intro!: calls_bind leaves_mono [OF leaves_True] split: option.split)

lemma write_file_line_sent:
  assumes "runs (write_file_line start t s) tr s'" and "\<not> write_failed F tr" and "0 \<le> lg_file_fd s"
  shows "s' = s \<and> (\<exists>stamp. (start = 0 \<longrightarrow> stamp = []) \<and> sent F tr = (if lg_file_fd s \<in> F then stamp @ t else [])
    \<and> formats start (if start = 0 then [] else [stamp]) tr)"
proof -
  let ?stamp = "if start \<noteq> 0 then
      pbind (call_text (C_strftime start)) (\<lambda>t. case t of Some x \<Rightarrow> loop_write (lg_file_fd s) x | None \<Rightarrow> Ret True)
    else Ret True"
  obtain tr1 tr2 r b where 1: "tr = tr1 @ tr2" "runs (loop_write (lg_file_fd s) t) tr2 r" "s' = s" "runs ?stamp tr1 b"
    using assms(1) unfolding write_file_line_def runs_bind by auto
  have nowrite: "\<not> write_failed F tr1" using assms(2) 1(1) by simp
  have one: "formats start [case q of None \<Rightarrow> [] | Some x \<Rightarrow> x] [(C_strftime start, A_text q)]" for q
    by (simp add: formats_def split: option.split)
  have "\<exists>stamp. (start = 0 \<longrightarrow> stamp = []) \<and> sent F tr1 = (if lg_file_fd s \<in> F then stamp else [])
      \<and> formats start (if start = 0 then [] else [stamp]) tr1"
  proof (cases "start = 0")
    case True
    then have "tr1 = []" using 1(4) by simp
    then show ?thesis by (simp add: formats_def True)
  next
    case False
    then obtain q tr3 where q: "tr1 = (C_strftime start, A_text q) # tr3"
      "runs (case q of Some x \<Rightarrow> loop_write (lg_file_fd s) x | None \<Rightarrow> Ret True) tr3 b"
      using 1(4) by (auto simp: runs_bind runs_calls)
    show ?thesis
    proof (cases q)
      case None
      then show ?thesis using q one [of q] False by (intro exI [of _ "[]"]) simp
    next
      case (Some x)
      have "formats start [x] ([(C_strftime start, A_text q)] @ tr3)"
        using formats_append [OF one [of q] formats_none [OF no_clock_loop_write, of "lg_file_fd s" x tr3]] q(2) Some by simp
      moreover have "sent F tr3 = (if lg_file_fd s \<in> F then x else [])"
        using q Some nowrite assms(3) by (simp add: loop_write_sent)
      ultimately show ?thesis using q(1) False by (intro exI [of _ x]) simp
    qed
  qed
  then obtain stamp where stamp: "start = 0 \<longrightarrow> stamp = []" "sent F tr1 = (if lg_file_fd s \<in> F then stamp else [])"
    "formats start (if start = 0 then [] else [stamp]) tr1" by blast
  have "sent F tr2 = (if lg_file_fd s \<in> F then t else [])" using loop_write_sent [OF 1(2)] 1(1) assms(2,3) by simp
  moreover have "formats start ((if start = 0 then [] else [stamp]) @ []) tr"
    unfolding 1(1) by (rule formats_append [OF stamp(3) formats_none [OF no_clock_loop_write 1(2)]])
  ultimately show ?thesis using 1(1,3) stamp(1,2) by (intro conjI exI [of _ stamp]) simp_all
qed

definition to_file :: "logger \<Rightarrow> nat \<Rightarrow> bool" where
  "to_file s level = (0 \<le> lg_file_fd s \<and> level \<le> lg_file_level s)"

lemma complete_line_sent:
  assumes "runs (logger_process_complete_line s level start t) tr s'" and "\<not> write_failed F tr"
  shows "fd_from s tr s' \<and> (\<exists>stamp. (start = 0 \<longrightarrow> stamp = []) \<and> sent F tr = logged_out s F (lg_file_fd s' \<in> F) stamp level t
    \<and> formats start (if start \<noteq> 0 \<and> to_file s level then [stamp] else []) tr)"
proof -
  let ?j = "if lg_journal_fd s \<ge> 0 \<and> level \<le> lg_journal_level s then
      pbind (loop_write (lg_journal_fd s) (journal_prefix level)) (\<lambda>_. loop_write (lg_journal_fd s) t) else Ret True"
  let ?f = "if lg_file_fd s \<ge> 0 \<and> level \<le> lg_file_level s then
      pbind (case lg_filename s of Some filename \<Rightarrow> check_file filename (length t) s | None \<Rightarrow> Ret s) (write_file_line start t)
    else Ret s"
  obtain tr1 tr2 r where 1: "tr = tr1 @ tr2" "runs ?j tr1 r" "runs ?f tr2 s'"
    using assms(1) unfolding logger_process_complete_line_def runs_bind by blast
  have j: "sent F tr1 = (if lg_journal_fd s \<ge> 0 \<and> level \<le> lg_journal_level s \<and> lg_journal_fd s \<in> F then journal_prefix level @ t else [])"
    using 1(1,2) assms(2) by (auto simp: runs_bind loop_write_sent split: if_splits)
  have "calls no_clock ?j" by (auto simp: no_clock_loop_write intro!: calls_bind leaves_mono [OF leaves_True])
  from formats_none [OF this 1(2)] have fj: "formats start [] tr1" .
  show ?thesis
  proof (cases "lg_file_fd s \<ge> 0 \<and> level \<le> lg_file_level s")
    case False
    then have "tr2 = []" "s' = s" using 1(3) by auto
    then show ?thesis using 1(1) j False fj by (auto simp: fd_from_same logged_out_def to_file_def)
  next
    case True
    let ?c = "case lg_filename s of Some filename \<Rightarrow> check_file filename (length t) s | None \<Rightarrow> Ret s"
    obtain tr3 tr4 s1 where 2: "tr2 = tr3 @ tr4" "runs (write_file_line start t s1) tr4 s'" "runs ?c tr3 s1"
      using 1(3) True by (auto simp: runs_bind)
    have c: "sent F tr3 = []" "fd_from s tr3 s1" "0 \<le> lg_file_fd s1"
      using 2(3) True check_file_sent check_file_fd leaves_runs [OF leaves_check_file]
      by (fastforce split: option.splits simp: fd_from_same keeps_def)+
    have "calls no_clock ?c" by (simp add: no_clock_check_file split: option.split)
    from formats_none [OF this 2(3)] have fc: "formats start [] tr3" .
    from write_file_line_sent [OF 2(2) _ c(3), of F] assms(2) 1(1) 2(1)
    obtain stamp where st: "s' = s1" "start = 0 \<longrightarrow> stamp = []" "sent F tr4 = (if lg_file_fd s1 \<in> F then stamp @ t else [])"
      "formats start (if start = 0 then [] else [stamp]) tr4" by auto
    have "fd_from s tr s'" using 1(1) 2(1) c(2) st(1) by (auto simp: fd_from_def)
    moreover have "sent F tr = logged_out s F (lg_file_fd s' \<in> F) stamp level t"
      using 1(1) 2(1) c(1) j st(1,3) True by (auto simp: logged_out_def)
    moreover have "formats start (if start \<noteq> 0 \<and> to_file s level then [stamp] else []) tr"
      using formats_append [OF fj formats_append [OF fc st(4)]] True 1(1) 2(1) by (auto simp: to_file_def split: if_splits)
    ultimately show ?thesis using st(2) by blast
  qed
qed

text \<open>The sinks of two states of the logger are the same.\<close>

definition sink_eq :: "logger \<Rightarrow> logger \<Rightarrow> bool" where
  "sink_eq s s' = keeps (set_cfg (False, 0) s) (set_cfg (False, 0) s')"

lemma sink_eq_refl [simp]: "sink_eq s s"
  by (simp add: sink_eq_def)

lemma sink_eq_trans: "sink_eq a b \<Longrightarrow> sink_eq b c \<Longrightarrow> sink_eq a c"
  unfolding sink_eq_def by (rule keeps_trans)

lemma keeps_sink_eq: "keeps s s' \<Longrightarrow> sink_eq s s'"
  by (cases s; cases s') (simp add: sink_eq_def keeps_def but_file_def set_cfg_def)

lemma sink_eq_set_cfg: "sink_eq s (set_cfg c s)"
  by (simp add: sink_eq_def set_cfg_def)

lemma sink_eq_fields:
  "sink_eq s s' \<Longrightarrow> lg_journal_fd s' = lg_journal_fd s \<and> lg_journal_level s' = lg_journal_level s \<and> lg_file_level s' = lg_file_level s
     \<and> lg_terminal_fd s' = lg_terminal_fd s \<and> lg_terminal_level s' = lg_terminal_level s \<and> lg_use_stderr s' = lg_use_stderr s
     \<and> lg_use_terminal_colors s' = lg_use_terminal_colors s \<and> lg_timestamps s' = lg_timestamps s \<and> (0 \<le> lg_file_fd s' \<longleftrightarrow> 0 \<le> lg_file_fd s)"
  by (cases s; cases s') (simp add: sink_eq_def keeps_def but_file_def set_cfg_def)

lemma sink_eq_shown: "sink_eq s s' \<Longrightarrow> shown_out s' = shown_out s"
proof (intro ext)
  fix F level t
  assume "sink_eq s s'"
  note f = sink_eq_fields [OF this]
  show "shown_out s' F level t = shown_out s F level t" by (simp only: shown_out_def f)
qed

lemma sink_eq_logged: "sink_eq s s' \<Longrightarrow> logged_out s' = logged_out s"
proof (intro ext)
  fix F files stamp level t
  assume "sink_eq s s'"
  note f = sink_eq_fields [OF this]
  show "logged_out s' F files stamp level t = logged_out s F files stamp level t" by (simp only: logged_out_def f)
qed

text \<open>What the events send; each logged line has a time stamp, which may be empty.\<close>

fun sink_output :: "logger \<Rightarrow> fd set \<Rightarrow> bool \<Rightarrow> string list \<Rightarrow> event list \<Rightarrow> string" where
  "sink_output s F files (stamp # stamps) (Logged level t # evs) = logged_out s F files stamp level t @ sink_output s F files stamps evs"
| "sink_output s F files stamps (Shown level t # evs) = shown_out s F level t @ sink_output s F files stamps evs"
| "sink_output s F files stamps (Config c # evs) = sink_output s F files stamps evs"
| "sink_output s F files stamps _ = []"

text \<open>The time stamps of the lines that go to the log file.\<close>

fun written_stamps :: "(nat \<Rightarrow> bool) \<Rightarrow> string list \<Rightarrow> event list \<Rightarrow> string list" where
  "written_stamps P (stamp # stamps) (Logged level t # evs) = (if P level then [stamp] else []) @ written_stamps P stamps evs"
| "written_stamps P stamps (Shown level t # evs) = written_stamps P stamps evs"
| "written_stamps P stamps (Config c # evs) = written_stamps P stamps evs"
| "written_stamps P stamps _ = []"

lemma written_stamps_append:
  "length st1 = length (logged evs1) \<Longrightarrow> written_stamps P (st1 @ st2) (evs1 @ evs2) = written_stamps P st1 evs1 @ written_stamps P st2 evs2"
  by (induction P st1 evs1 rule: written_stamps.induct) auto

lemma written_stamps_zip:
  "length stamps = length (logged evs) \<Longrightarrow> written_stamps P stamps evs = map fst (filter (\<lambda>(stamp, level, t). P level) (zip stamps (logged evs)))"
  by (induction P stamps evs rule: written_stamps.induct) auto

lemma sink_eq_to_file: "sink_eq s s' \<Longrightarrow> to_file s' = to_file s"
  using sink_eq_fields by (intro ext) (simp add: to_file_def)

lemma sink_output_append:
  "length st1 = length (logged evs1) \<Longrightarrow> sink_output s F files (st1 @ st2) (evs1 @ evs2) = sink_output s F files st1 evs1 @ sink_output s F files st2 evs2"
  by (induction s F files st1 evs1 rule: sink_output.induct) auto

lemma sink_output_eq: "sink_eq s s' \<Longrightarrow> sink_output s' = sink_output s"
proof (intro ext)
  fix F files stamps evs
  assume "sink_eq s s'"
  then show "sink_output s' F files stamps evs = sink_output s F files stamps evs"
    by (induction s F files stamps evs rule: sink_output.induct) (simp_all add: sink_eq_shown sink_eq_logged)
qed

text \<open>The log files are all in the set, or all outside it.\<close>

definition all_files :: "bool \<Rightarrow> fd set \<Rightarrow> fd set \<Rightarrow> bool" where
  "all_files files G F = (if files then G \<subseteq> F else G \<inter> F = {})"

lemma perform_sent:
  "runs (perform start evs s) tr s' \<Longrightarrow> \<not> write_failed F tr \<Longrightarrow> opens_only G tr \<Longrightarrow> lg_file_fd s \<in> G \<Longrightarrow> all_files files G F \<Longrightarrow>
   sink_eq s s' \<and> lg_file_fd s' \<in> G \<and>
   (\<exists>stamps. length stamps = length (logged evs) \<and> (start = 0 \<longrightarrow> set stamps \<subseteq> {[]}) \<and> sent F tr = sink_output s F files stamps evs
     \<and> formats start (if start = 0 then [] else written_stamps (to_file s) stamps evs) tr)"
proof (induction start evs s arbitrary: tr rule: perform.induct)
  case (2 start c evs s)
  from "2.IH" [OF _ "2.prems"(2,3) _ "2.prems"(5)] "2.prems"(1,4)
  have "sink_eq (set_cfg c s) s' \<and> lg_file_fd s' \<in> G \<and>
     (\<exists>stamps. length stamps = length (logged evs) \<and> (start = 0 \<longrightarrow> set stamps \<subseteq> {[]}) \<and> sent F tr = sink_output (set_cfg c s) F files stamps evs
       \<and> formats start (if start = 0 then [] else written_stamps (to_file (set_cfg c s)) stamps evs) tr)"
    by (simp add: set_cfg_def)
  then show ?case using sink_eq_trans [OF sink_eq_set_cfg [where s = s and c = c]] sink_output_eq [OF sink_eq_set_cfg [where s = s and c = c]]
      sink_eq_to_file [OF sink_eq_set_cfg [where s = s and c = c]] by auto
next
  case (3 start level t evs s)
  obtain tr1 tr2 u where 1: "tr = tr1 @ tr2" "runs (logger_process_partial_line s level t) tr1 u" "runs (perform start evs s) tr2 s'"
    using "3.prems"(1) by (auto simp: runs_bind)
  from "3.IH" [OF 1(3)] "3.prems" 1(1) obtain stamps where "sink_eq s s'" "lg_file_fd s' \<in> G" "length stamps = length (logged evs)"
    "start = 0 \<longrightarrow> set stamps \<subseteq> {[]}" "sent F tr2 = sink_output s F files stamps evs"
    "formats start (if start = 0 then [] else written_stamps (to_file s) stamps evs) tr2" by auto
  moreover have "formats start [] tr1" by (rule formats_none [OF no_clock_partial_line 1(2)])
  moreover have "sent F tr1 = shown_out s F level t" using partial_line_sent [OF 1(2)] "3.prems"(2) 1(1) by simp
  ultimately show ?case using 1(1) formats_append [of start "[]" tr1 _ tr2] by (auto intro!: exI [of _ stamps])
next
  case (4 start level t evs s)
  obtain tr1 tr2 s1 where 1: "tr = tr1 @ tr2" "runs (logger_process_complete_line s level start t) tr1 s1" "runs (perform start evs s1) tr2 s'"
    using "4.prems"(1) by (auto simp: runs_bind)
  from complete_line_sent [OF 1(2), of F] "4.prems"(2) 1(1) obtain stamp where
    c: "fd_from s tr1 s1" "start = 0 \<longrightarrow> stamp = []" "sent F tr1 = logged_out s F (lg_file_fd s1 \<in> F) stamp level t"
      "formats start (if start \<noteq> 0 \<and> to_file s level then [stamp] else []) tr1" by auto
  have k: "sink_eq s s1" using leaves_runs [OF leaves_complete_line 1(2)] by (rule keeps_sink_eq)
  have G: "lg_file_fd s1 \<in> G" using c(1) "4.prems"(3,4) 1(1) by (simp add: fd_from_def)
  then have files: "lg_file_fd s1 \<in> F \<longleftrightarrow> files" using "4.prems"(5) by (auto simp: all_files_def split: if_splits)
  from "4.IH" [OF 1(3)] "4.prems" 1(1) G have ih: "sink_eq s1 s' \<and> lg_file_fd s' \<in> G \<and>
     (\<exists>stamps. length stamps = length (logged evs) \<and> (start = 0 \<longrightarrow> set stamps \<subseteq> {[]}) \<and> sent F tr2 = sink_output s1 F files stamps evs
       \<and> formats start (if start = 0 then [] else written_stamps (to_file s1) stamps evs) tr2)" by simp
  obtain stamps where r: "sink_eq s1 s'" "lg_file_fd s' \<in> G"
    "length stamps = length (logged evs)" "start = 0 \<longrightarrow> set stamps \<subseteq> {[]}" "sent F tr2 = sink_output s1 F files stamps evs"
      "formats start (if start = 0 then [] else written_stamps (to_file s) stamps evs) tr2"
    using ih unfolding sink_eq_to_file [OF k] by blast
  have "formats start (if start = 0 then [] else written_stamps (to_file s) (stamp # stamps) (Logged level t # evs)) tr"
    using formats_append [OF c(4) r(6)] 1(1) by (auto split: if_splits)
  then show ?case using 1(1) c(2,3) files r(1-5) sink_eq_trans [OF k r(1)] sink_output_eq [OF k]
    by (intro conjI exI [of _ "stamp # stamps"]) auto
qed (auto simp: formats_def)

lemma runs_start:
  "runs (if b then call_num C_time else Ret t) tr start \<Longrightarrow> sent F tr = [] \<and> \<not> write_failed F tr \<and>
    (if b then tr = [(C_time, A_num start)] else tr = [] \<and> start = t)"
  by (auto simp: runs_calls split: if_splits)

text \<open>The machine does not look at the start time.\<close>

lemma next_line_start [simp]: "next_line at_eof (ls\<lparr> ls_start := t \<rparr>) = next_line at_eof ls"
  by (simp add: next_line_def Let_def)

lemma line_events_start [simp]: "line_events line c (ls\<lparr> ls_start := t \<rparr>) = line_events line c ls"
  by (cases "ls_prefix ls") (simp_all add: line_events_def Let_def)

lemma mid_start [simp]: "mid c k (ls\<lparr> ls_start := t \<rparr>) = mid c k ls"
  by (cases "ls_prefix ls"; cases k) (simp_all add: mid_def)

lemma lines_events_start:
  "lines_events at_eof c ls = (evs, c', ls') \<Longrightarrow> lines_events at_eof c (ls\<lparr> ls_start := t \<rparr>) = (evs, c', ls'\<lparr> ls_start := t \<rparr>)"
proof (induction at_eof c ls arbitrary: evs rule: lines_events.induct)
  case (1 at_eof c ls)
  show ?case
  proof (cases "ls_buf ls = [] \<or> next_line at_eof ls = None")
    case True
    then have "lines_events at_eof c ls = ([], c, ls)" "lines_events at_eof c (ls\<lparr> ls_start := t \<rparr>) = ([], c, ls\<lparr> ls_start := t \<rparr>)"
      by (subst lines_events.simps, auto)+
    then show ?thesis using "1.prems" by auto
  next
    case False
    then obtain line over where nl: "next_line at_eof ls = Some (line, over)" by auto
    obtain evs1 c1 plen level where e1: "line_events line c ls = (evs1, c1, plen, level)" by (cases "line_events line c ls") auto
    let ?ls1 = "ls\<lparr> ls_buf := drop (length line) (ls_buf ls), ls_already := 0,
        ls_prefix := if over then Some 0 else None, ls_level := level \<rparr>"
    obtain evs2 where e2: "lines_events at_eof c1 ?ls1 = (evs2, c', ls')" and evs: "evs = evs1 @ evs2"
      using "1.prems" False nl e1 by (auto simp: lines_events.simps [of at_eof c ls] split: prod.splits)
    have "lines_events at_eof c1 (?ls1\<lparr> ls_start := t \<rparr>) = (evs2, c', ls'\<lparr> ls_start := t \<rparr>)"
      using "1.IH" [OF _ nl refl e1 [symmetric] refl refl refl e2] False by simp
    moreover have eq: "?ls1\<lparr> ls_start := t \<rparr> = ls\<lparr> ls_start := t, ls_buf := drop (length line) (ls_buf ls), ls_already := 0,
        ls_prefix := if over then Some 0 else None, ls_level := level \<rparr>" by simp
    ultimately have "lines_events at_eof c1 (ls\<lparr> ls_start := t, ls_buf := drop (length line) (ls_buf ls), ls_already := 0,
        ls_prefix := if over then Some 0 else None, ls_level := level \<rparr>) = (evs2, c', ls'\<lparr> ls_start := t \<rparr>)" by (simp only: eq)
    then show ?thesis using False nl e1 evs by (subst lines_events.simps) (simp split del: if_split)
  qed
qed

lemma rest_events_start:
  "rest_events c ls = (evs, c', ls') \<Longrightarrow> rest_events c (ls\<lparr> ls_start := t \<rparr>) = (evs, c', ls'\<lparr> ls_start := t \<rparr>)"
  by (auto simp: rest_events_def Let_def split: if_splits option.splits prod.splits)

lemma feed_start [simp]: "feed c (ls\<lparr> ls_start := t \<rparr>) input reads = feed c ls input reads"
proof (induction c ls input reads rule: feed.induct)
  case (3 c ls input n reads)
  let ?bytes = "read_stdin input n (LINE_MAX - length (ls_buf ls))"
  let ?ls0 = "ls\<lparr> ls_buf := ls_buf ls @ ?bytes \<rparr>"
  obtain evs1 c1 ls1 where e1: "lines_events (?bytes = []) c ?ls0 = (evs1, c1, ls1)" by (cases "lines_events (?bytes = []) c ?ls0") auto
  obtain evs2 c2 ls2 where e2: "rest_events c1 ls1 = (evs2, c2, ls2)" by (cases "rest_events c1 ls1") auto
  from "3.IH" [OF refl e1 [symmetric] refl refl e2 [symmetric] refl refl]
  moreover have eq: "?ls0\<lparr> ls_start := t \<rparr> = ls\<lparr> ls_start := t, ls_buf := ls_buf ls @ ?bytes \<rparr>" by simp
  moreover have "lines_events (?bytes = []) c (ls\<lparr> ls_start := t, ls_buf := ls_buf ls @ ?bytes \<rparr>) = (evs1, c1, ls1\<lparr> ls_start := t \<rparr>)"
    using lines_events_start [OF e1, of t] by (simp only: eq)
  ultimately show ?case using e1 e2 rest_events_start [OF e2, of t] by (simp add: Let_def split del: if_split cong: if_cong)
qed auto

text \<open>One pass of the main loop.\<close>

lemma process_loop_pass:
  assumes "mid (cfg s) k ls" and "length (ls_buf ls) < LINE_MAX"
    and "bytes = read_stdin input n (LINE_MAX - length (ls_buf ls))"
    and "lines_events (bytes = []) (cfg s) (ls\<lparr> ls_buf := ls_buf ls @ bytes \<rparr>) = (evs1, c1, ls1)"
    and "rest_events c1 ls1 = (evs2, c2, ls2)"
  shows "process_loop s ls input (Inr n # reads) =
    pbind (if lg_timestamps s \<and> ls_buf ls = [] then call_num C_time else Ret (ls_start ls)) (\<lambda>start.
    pbind (perform start (evs1 @ evs2) s) (\<lambda>s'.
      if bytes \<noteq> [] then process_loop s' (ls2\<lparr> ls_start := start \<rparr>) (drop (length bytes) input) reads
      else Ret (Some (Inr ()), s')))"
    and "leaves (\<lambda>s'. cfg s' = c2) (perform start (evs1 @ evs2) s)"
    and "\<exists>k2. mid c2 k2 ls2 \<and> length (ls_buf ls2) < LINE_MAX"
proof -
  let ?ls0 = "ls\<lparr> ls_buf := ls_buf ls @ bytes \<rparr>"
  have m: "mid (cfg s) k ?ls0" using assms(1-3) by (auto simp: mid_def read_stdin_def split: option.splits)
  have small: "length (ls_buf ls @ bytes) < LINE_MAX + 1" using assms(2,3) by (simp add: read_stdin_def)
  have "bytes = [] \<longrightarrow> [] = ([] :: string)" by simp
  from lines_events_spec [OF m this assms(4), of "\<lambda>_. True"] obtain k1 where k1: "mid c1 k1 ls1"
    "ls_buf ls1 = [] \<or> next_line (bytes = []) ls1 = None" by blast
  have nl: "ls_buf ls1 = [] \<or> next_line False ls1 = None" using k1(2) by (auto simp: next_line_def Let_def split: if_splits)
  then show "\<exists>k2. mid c2 k2 ls2 \<and> length (ls_buf ls2) < LINE_MAX" using rest_events_mid [OF k1(1) _ assms(5)] by blast
  have lines: "process_lines (bytes = []) s (?ls0\<lparr> ls_start := start \<rparr>) = pbind (perform start evs1 s) (\<lambda>s'. Ret (s', ls1\<lparr> ls_start := start \<rparr>))
      \<and> leaves (\<lambda>s'. cfg s' = c1) (perform start evs1 s)" for start
    using process_lines_eq [OF _ lines_events_start [OF assms(4), of start] refl, where k = k] m by simp
  have rest: "process_rest s' (ls1\<lparr> ls_start := start \<rparr>) = pbind (perform start evs2 s') (\<lambda>s'. Ret (s', ls2\<lparr> ls_start := start \<rparr>))
      \<and> leaves (\<lambda>s'. cfg s' = c2) (perform start evs2 s')" if "cfg s' = c1" for s' start
    using process_rest_eq [of s' k1, unfolded that, OF _ rest_events_start [OF assms(5), of start]] k1(1) by simp
  show "leaves (\<lambda>s'. cfg s' = c2) (perform start (evs1 @ evs2) s)"
    unfolding perform_append by (rule leaves_bindI [OF conjunct2 [OF lines]]) (use rest in blast)
  let ?next = "\<lambda>start s' :: logger. if bytes \<noteq> [] then process_loop s' (ls2\<lparr> ls_start := start \<rparr>) (drop (length bytes) input) reads
      else Ret (Some (Inr ()), s')"
  have body: "pbind (process_lines (bytes = []) s (?ls0\<lparr> ls_start := start \<rparr>)) (\<lambda>(s2, ls2). pbind (process_rest s2 ls2) (\<lambda>(s3, ls3).
        if bytes \<noteq> [] then process_loop s3 ls3 (drop (length bytes) input) reads else Ret (Some (Inr ()), s3)))
      = pbind (perform start (evs1 @ evs2) s) (?next start)" for start
  proof -
    have "pbind (perform start evs1 s) (\<lambda>s1. pbind (process_rest s1 (ls1\<lparr> ls_start := start \<rparr>)) (\<lambda>(s3, ls3).
        if bytes \<noteq> [] then process_loop s3 ls3 (drop (length bytes) input) reads else Ret (Some (Inr ()), s3)))
      = pbind (perform start evs1 s) (\<lambda>s1. pbind (perform start evs2 s1) (?next start))"
      by (rule pbind_cong_prop [OF conjunct2 [OF lines]]) (simp add: conjunct1 [OF rest] pbind_assoc)
    then show ?thesis by (simp add: conjunct1 [OF lines] pbind_assoc perform_append)
  qed
  show "process_loop s ls input (Inr n # reads) =
    pbind (if lg_timestamps s \<and> ls_buf ls = [] then call_num C_time else Ret (ls_start ls)) (\<lambda>start.
    pbind (perform start (evs1 @ evs2) s) (?next start))"
    using small by (simp add: Let_def assms(3) [symmetric] body [symmetric])
qed

text \<open>What the whole loop sends.\<close>

lemma process_loop_sent:
  "runs (process_loop s ls input reads) tr (r, s') \<Longrightarrow> mid (cfg s) k ls \<Longrightarrow> length (ls_buf ls) < LINE_MAX \<Longrightarrow>
   enough_reads input reads \<Longrightarrow> \<not> write_failed F tr \<Longrightarrow> opens_only G tr \<Longrightarrow> lg_file_fd s \<in> G \<Longrightarrow> all_files files G F \<Longrightarrow>
   r = Some (Inr ()) \<and>
   (\<exists>stamps. length stamps = length (logged (feed (cfg s) ls input reads)) \<and>
      (\<not> lg_timestamps s \<longrightarrow> ls_start ls = 0 \<longrightarrow> set stamps \<subseteq> {[]} \<and> strftimes tr = []) \<and>
      (lg_timestamps s \<longrightarrow> ls_start ls \<noteq> 0 \<or> ls_buf ls = [] \<longrightarrow> (C_time, A_num 0) \<notin> set tr \<longrightarrow>
        strftimes tr = written_stamps (to_file s) stamps (feed (cfg s) ls input reads)) \<and>
      latest_times (ls_start ls) tr \<and>
      sent F tr = sink_output s F files stamps (feed (cfg s) ls input reads))"
proof (induction reads arbitrary: s ls input tr k)
  case Nil
  then show ?case by (simp add: enough_reads_def)
next
  case (Cons rd reads)
  obtain n where n: "rd = Inr n" using Cons.prems(4) by (auto simp: enough_reads_def)
  define bytes where "bytes = read_stdin input n (LINE_MAX - length (ls_buf ls))"
  let ?rest = "drop (length bytes) input"
  obtain evs1 c1 ls1 where e1: "lines_events (bytes = []) (cfg s) (ls\<lparr> ls_buf := ls_buf ls @ bytes \<rparr>) = (evs1, c1, ls1)"
    by (cases "lines_events (bytes = []) (cfg s) (ls\<lparr> ls_buf := ls_buf ls @ bytes \<rparr>)") auto
  obtain evs2 c2 ls2 where e2: "rest_events c1 ls1 = (evs2, c2, ls2)" by (cases "rest_events c1 ls1") auto
  note pass = process_loop_pass [OF Cons.prems(2,3) bytes_def e1 e2]
  have f: "feed (cfg s) ls input (Inr n # reads) = (evs1 @ evs2) @ (if bytes \<noteq> [] then feed c2 ls2 ?rest reads else [])"
    using e1 e2 by (simp add: Let_def bytes_def [symmetric])
  obtain tr1 tr2 tr3 start s1 where r: "tr = tr1 @ tr2 @ tr3"
    "runs (if lg_timestamps s \<and> ls_buf ls = [] then call_num C_time else Ret (ls_start ls)) tr1 start"
    "runs (perform start (evs1 @ evs2) s) tr2 s1"
    "runs (if bytes \<noteq> [] then process_loop s1 (ls2\<lparr> ls_start := start \<rparr>) ?rest reads else Ret (Some (Inr ()), s1)) tr3 (r, s')"
    using Cons.prems(1) unfolding n pass(1) runs_bind by blast
  have t: "sent F tr1 = []" "\<not> lg_timestamps s \<longrightarrow> start = ls_start ls" "strftimes tr1 = []"
    "latest_times (ls_start ls) (tr1 @ tr') = latest_times start tr'"
    "lg_timestamps s \<Longrightarrow> ls_start ls \<noteq> 0 \<or> ls_buf ls = [] \<Longrightarrow> (C_time, A_num 0) \<notin> set tr \<Longrightarrow> start \<noteq> 0" for tr'
    using runs_start [OF r(2), of F] r(1) by (auto split: if_splits)
  from perform_sent [OF r(3) _ _ Cons.prems(7,8)] Cons.prems(5,6) r(1) obtain st1 where
    p: "sink_eq s s1" "lg_file_fd s1 \<in> G" "length st1 = length (logged (evs1 @ evs2))" "start = 0 \<longrightarrow> set st1 \<subseteq> {[]}"
      "sent F tr2 = sink_output s F files st1 (evs1 @ evs2)"
      "formats start (if start = 0 then [] else written_stamps (to_file s) st1 (evs1 @ evs2)) tr2" by auto
  have f1: "strftimes tr2 = (if start = 0 then [] else written_stamps (to_file s) st1 (evs1 @ evs2))"
    "latest_times start (tr2 @ tr') = latest_times start tr'" for tr'
    using p(6) formats_then [OF p(6)] by (auto simp: formats_def)
  have c: "cfg s1 = c2" by (rule leaves_runs [OF pass(2) r(3)])
  show ?case
  proof (cases "bytes = []")
    case True
    then have tr: "tr = tr1 @ tr2" "r = Some (Inr ())" "feed (cfg s) ls input (rd # reads) = evs1 @ evs2" using r(1,4) f by (auto simp: n)
    have "latest_times (ls_start ls) tr" using t(4) f1(2) [of "[]"] tr(1) by simp
    then show ?thesis unfolding tr(2,3) using t(1-3,5) p(3-5) f1(1) tr(1)
      by (intro conjI exI [of _ st1]) auto
  next
    case False
    obtain k2 where k2: "mid c2 k2 ls2" "length (ls_buf ls2) < LINE_MAX" using pass(3) by blast
    have er: "enough_reads ?rest reads" using Cons.prems(4) False by (cases input) (auto simp: n enough_reads_def bytes_def read_stdin_def)
    have run: "runs (process_loop s1 (ls2\<lparr> ls_start := start \<rparr>) ?rest reads) tr3 (r, s')" using r(4) False by simp
    have ts: "lg_timestamps s1 = lg_timestamps s" using sink_eq_fields [OF p(1)] by simp
    from Cons.IH [OF run, of k2] k2 c er Cons.prems(5,6,8) p(2) r(1) obtain st2 where
      q: "r = Some (Inr ())" "length st2 = length (logged (feed c2 ls2 ?rest reads))"
        "\<not> lg_timestamps s \<longrightarrow> start = 0 \<longrightarrow> set st2 \<subseteq> {[]} \<and> strftimes tr3 = []" "sent F tr3 = sink_output s1 F files st2 (feed c2 ls2 ?rest reads)"
        "lg_timestamps s \<longrightarrow> start \<noteq> 0 \<longrightarrow> (C_time, A_num 0) \<notin> set tr3 \<longrightarrow> strftimes tr3 = written_stamps (to_file s) st2 (feed c2 ls2 ?rest reads)"
        "latest_times start tr3"
      by (auto simp: ts sink_eq_to_file [OF p(1)])
    have wapp: "written_stamps (to_file s) (st1 @ st2) (feed (cfg s) ls input (rd # reads)) =
        written_stamps (to_file s) st1 (evs1 @ evs2) @ written_stamps (to_file s) st2 (feed c2 ls2 ?rest reads)"
      using written_stamps_append [OF p(3)] f False by (simp only: n not_False_eq_True if_True)
    have late: "latest_times (ls_start ls) tr" using t(4) f1(2) q(6) r(1) by simp
    have stamped: "strftimes tr = written_stamps (to_file s) (st1 @ st2) (feed (cfg s) ls input (rd # reads))"
      if "lg_timestamps s" "ls_start ls \<noteq> 0 \<or> ls_buf ls = []" "(C_time, A_num 0) \<notin> set tr"
      using that t(3,5) f1(1) q(5) r(1) by (simp add: wapp)
    have app: "sink_output s F files (st1 @ st2) (feed (cfg s) ls input (rd # reads)) =
        sink_output s F files st1 (evs1 @ evs2) @ sink_output s F files st2 (feed c2 ls2 ?rest reads)"
      using sink_output_append [OF p(3)] f False by (simp only: n not_False_eq_True if_True)
    have len: "length (st1 @ st2) = length (logged (feed (cfg s) ls input (rd # reads)))"
      using f False p(3) q(2) by (simp only: n not_False_eq_True if_True logged_append length_append)
    have "sent F tr = sink_output s F files st1 (evs1 @ evs2) @ sink_output s F files st2 (feed c2 ls2 ?rest reads)"
      using r(1) t(1) p(5) q(4) by (simp add: sink_output_eq [OF p(1)])
    moreover have "\<not> lg_timestamps s \<longrightarrow> ls_start ls = 0 \<longrightarrow> set (st1 @ st2) \<subseteq> {[]} \<and> strftimes tr = []"
      using p(4) q(3) t(2,3) f1(1) r(1) by auto
    ultimately show ?thesis using q(1) app len late stamped by (intro conjI exI [of _ "st1 @ st2"]) (simp_all del: length_append)
  qed
qed

lemma mid_init: "mid c None line_state_init" "pending line_state_init = []" "length (ls_buf line_state_init) < LINE_MAX"
    "ls_start line_state_init = 0" "ls_buf line_state_init = []"
  by (auto simp: mid_def pending_def line_state_init_def LINE_MAX_def)

lemma feed_init:
  "enough_reads input reads \<Longrightarrow> logged (feed c line_state_init input reads) = log_lines c None input
   \<and> texts Q (shown (feed c line_state_init input reads)) = texts Q (log_lines c None input)"
  using feed_spec [OF mid_init(1,3), of input reads c Q] by (simp add: mid_init)

section \<open>The sinks\<close>

definition journal_text :: "nat \<Rightarrow> (nat \<times> string) list \<Rightarrow> string" where
  "journal_text max_level ls = concat (map (\<lambda>(level, t). journal_prefix level @ t) (filter (\<lambda>(level, t). level \<le> max_level) ls))"

lemma sink_output_journal:
  assumes "0 \<le> lg_journal_fd s" and "lg_terminal_fd s \<noteq> lg_journal_fd s" and "lg_use_stderr s \<Longrightarrow> lg_journal_fd s \<noteq> STDERR_FILENO"
  shows "length stamps = length (logged evs) \<Longrightarrow>
    sink_output s {lg_journal_fd s} False stamps evs = journal_text (lg_journal_level s) (logged evs)"
proof (induction evs arbitrary: stamps)
  case (Cons e evs)
  have "shown_out s {lg_journal_fd s} level t = []" for level t using assms by (auto simp: shown_out_def)
  then show ?case using Cons assms(1) by (cases e; cases stamps) (auto simp: logged_out_def journal_text_def)
qed (simp add: journal_text_def)

lemma sink_output_terminal:
  assumes "0 \<le> lg_terminal_fd s" and "lg_terminal_fd s \<noteq> lg_journal_fd s" and "\<not> lg_use_stderr s" and "\<not> lg_use_terminal_colors s"
  shows "length stamps = length (logged evs) \<Longrightarrow>
    sink_output s {lg_terminal_fd s} False stamps evs = texts (\<lambda>level. level \<le> lg_terminal_level s) (shown evs)"
proof (induction evs arbitrary: stamps)
  case (Cons e evs)
  have "logged_out s {lg_terminal_fd s} False stamp level t = []" for stamp level t using assms by (auto simp: logged_out_def)
  moreover have "shown_out s {lg_terminal_fd s} level t = (if level \<le> lg_terminal_level s then t else [])" for level t
    using assms by (auto simp: shown_out_def)
  ultimately show ?case using Cons by (cases e; cases stamps) (auto simp: texts_def)
qed simp

text \<open>The lines in the log files, each with its time stamp.\<close>

definition file_text :: "nat \<Rightarrow> string list \<Rightarrow> (nat \<times> string) list \<Rightarrow> string" where
  "file_text max_level stamps ls =
     concat (map (\<lambda>(stamp, level, t). stamp @ t) (filter (\<lambda>(stamp, level, t). level \<le> max_level) (zip stamps ls)))"

lemma sink_output_files:
  assumes "0 \<le> lg_file_fd s"
  shows "length stamps = length (logged evs) \<Longrightarrow>
    sink_output s (- {lg_journal_fd s, lg_terminal_fd s, STDERR_FILENO}) True stamps evs = file_text (lg_file_level s) stamps (logged evs)"
proof (induction evs arbitrary: stamps)
  case (Cons e evs)
  then show ?case using assms by (cases e; cases stamps) (auto simp: logged_out_def shown_out_def file_text_def)
qed (simp add: file_text_def)

text \<open>C14: However the input arrives, and whatever the kernel answers, if no write to the Journal fails, it receives exactly
  the lines of the input at the levels it wants, each with its level, in their order: the lines (\<open>log_lines\<close>) depend on
  the input alone, and not on the sizes of the reads. After a line \<open><remaining-lines-assume-level=N>\<close> all lines have
  that level, whatever they start with (\<open>remaining_lines_level\<close> in the example below), as the prose of
  \<open>bin/logger.md\<close> says, although an example there gives \<open><3>jkl\<close> the level 3.\<close>

theorem process_loop_journal:
  assumes "runs (process_loop self line_state_init input reads) tr (r, self')" and "enough_reads input reads"
    and "0 \<le> lg_journal_fd self" and "lg_journal_fd self \<notin> {lg_terminal_fd self, lg_file_fd self}"
    and "lg_use_stderr self \<longrightarrow> lg_journal_fd self \<noteq> STDERR_FILENO"
    and "opens_only (- {lg_journal_fd self}) tr" and "\<not> write_failed {lg_journal_fd self} tr"
  shows "r = Some (Inr ()) \<and>
    sent {lg_journal_fd self} tr = journal_text (lg_journal_level self) (log_lines (cfg self) None input)"
proof -
  have G: "lg_file_fd self \<in> - {lg_journal_fd self}" "all_files False (- {lg_journal_fd self}) {lg_journal_fd self}"
    using assms(4) by (auto simp: all_files_def)
  obtain stamps where s: "r = Some (Inr ())" "length stamps = length (logged (feed (cfg self) line_state_init input reads))"
    "sent {lg_journal_fd self} tr = sink_output self {lg_journal_fd self} False stamps (feed (cfg self) line_state_init input reads)"
    using process_loop_sent [OF assms(1) mid_init(1,3) assms(2,7,6) G] by blast
  show ?thesis using sink_output_journal [OF assms(3) _ _ s(2)] assms(4,5) s(1,3) feed_init [OF assms(2), of "cfg self"] by auto
qed

text \<open>C13: Over all rotations and reopenings, if no write to a log file fails, the log files together receive exactly the lines of
  the input at the levels they want, in their order, each after its time stamp: no line is lost or repeated by a
  rotation. Without time stamps these are empty. With them, and a clock that is never at 0, the times that are formatted in
  the run are exactly the stamps of the lines that are written, in order; each is the time that was taken last. \<close>

theorem process_loop_files:
  assumes "runs (process_loop self line_state_init input reads) tr (r, self')" and "enough_reads input reads"
    and "0 \<le> lg_file_fd self" and "F = - {lg_journal_fd self, lg_terminal_fd self, STDERR_FILENO}"
    and "lg_file_fd self \<in> F" and "opens_only F tr" and "\<not> write_failed F tr"
  shows "\<exists>stamps. length stamps = length (log_lines (cfg self) None input) \<and>
    sent F tr = file_text (lg_file_level self) stamps (log_lines (cfg self) None input) \<and>
    (\<not> lg_timestamps self \<longrightarrow> set stamps \<subseteq> {[]} \<and> strftimes tr = []) \<and>
    (lg_timestamps self \<longrightarrow> (C_time, A_num 0) \<notin> set tr \<longrightarrow> strftimes tr =
      map fst (filter (\<lambda>(stamp, level, t). level \<le> lg_file_level self) (zip stamps (log_lines (cfg self) None input)))) \<and>
    latest_times 0 tr"
proof -
  have G: "all_files True F F" by (simp add: all_files_def)
  let ?evs = "feed (cfg self) line_state_init input reads"
  obtain stamps where s: "length stamps = length (logged ?evs)"
    "\<not> lg_timestamps self \<longrightarrow> set stamps \<subseteq> {[]} \<and> strftimes tr = []"
    "lg_timestamps self \<longrightarrow> (C_time, A_num 0) \<notin> set tr \<longrightarrow> strftimes tr = written_stamps (to_file self) stamps ?evs"
    "latest_times 0 tr" "sent F tr = sink_output self F True stamps ?evs"
    using process_loop_sent [OF assms(1) mid_init(1,3) assms(2,7,6,5) G] unfolding mid_init(4,5) by blast
  have l: "logged ?evs = log_lines (cfg self) None input" using feed_init [OF assms(2)] by blast
  have "to_file self level \<longleftrightarrow> level \<le> lg_file_level self" for level using assms(3) by (simp add: to_file_def)
  then have "written_stamps (to_file self) stamps ?evs =
      map fst (filter (\<lambda>(stamp, level, t). level \<le> lg_file_level self) (zip stamps (logged ?evs)))"
    using written_stamps_zip [OF s(1)] by simp
  then show ?thesis using sink_output_files [OF assms(3) s(1)] assms(4) s unfolding l by auto
qed

text \<open>C15: However the input arrives, and whatever the kernel answers: a terminal other than the standard error stream, without
  colours and without a failed write, receives in pieces exactly the text of the lines of the input at its levels, the
  same lines as the other sinks (\<open>log_lines\<close>).\<close>

theorem process_loop_terminal:
  assumes "runs (process_loop self line_state_init input reads) tr (r, self')" and "enough_reads input reads"
    and "0 \<le> lg_terminal_fd self" and "lg_terminal_fd self \<notin> {lg_journal_fd self, lg_file_fd self}"
    and "\<not> lg_use_stderr self" and "\<not> lg_use_terminal_colors self"
    and "opens_only (- {lg_terminal_fd self}) tr" and "\<not> write_failed {lg_terminal_fd self} tr"
  shows "sent {lg_terminal_fd self} tr = texts (\<lambda>level. level \<le> lg_terminal_level self) (log_lines (cfg self) None input)"
proof -
  have G: "lg_file_fd self \<in> - {lg_terminal_fd self}" "all_files False (- {lg_terminal_fd self}) {lg_terminal_fd self}"
    using assms(4) by (auto simp: all_files_def)
  obtain stamps where s: "length stamps = length (logged (feed (cfg self) line_state_init input reads))"
    "sent {lg_terminal_fd self} tr = sink_output self {lg_terminal_fd self} False stamps (feed (cfg self) line_state_init input reads)"
    using process_loop_sent [OF assms(1) mid_init(1,3) assms(2,8,7) G] by blast
  show ?thesis using sink_output_terminal [OF assms(3) _ assms(5,6) s(1)] assms(4) s(2) feed_init [OF assms(2), of "cfg self"] by auto
qed

section \<open>The loop returns\<close>

lemma no_abort_bindI: "no_abort p \<Longrightarrow> leaves P p \<Longrightarrow> (\<And>x. P x \<Longrightarrow> no_abort (f x)) \<Longrightarrow> no_abort (pbind p f)"
  by (rule no_abort_bind) (auto dest: leaves_runs)

lemma no_abort_then: "no_abort p \<Longrightarrow> (\<And>x. no_abort (f x)) \<Longrightarrow> no_abort (pbind p f)"
  by (rule no_abort_bind)

lemma no_abort_calls [simp]:
  "no_abort (call_unit (C_lock fd l t))" "no_abort (call_unit (C_unlink p))" "no_abort (call_unit (C_link p q))"
  "no_abort (call_unit (C_rename p q))" "no_abort (call_unit (C_close fd))" "no_abort (call_fd (C_open p x))"
  "no_abort (call_stat (C_stat p))" "no_abort (call_stat (C_fstat fd))" "no_abort (call_num C_time)"
  "no_abort (call_text (C_strftime n))"
  by (auto simp: call_unit_def call_fd_def call_stat_def call_num_def call_text_def split: sum.split)

lemma no_abort_close_fd [simp]: "no_abort (close_fd fd)"
  by (auto simp: close_fd_def intro!: no_abort_then)

lemma no_abort_lock_output_file [simp]: "no_abort (lock_output_file fd)"
  by (auto simp: lock_output_file_def intro!: no_abort_then split: sum.split)

lemma no_abort_try_rotate [simp]: "no_abort (srt_logger_try_rotate s)"
  by (auto simp: srt_logger_try_rotate_def failed_def rotate_link_def rotate_replace_def rotate_out_def Let_def
      intro!: no_abort_then split: option.split sum.split)

text \<open>The names for a rotation are there; then no precondition fails.\<close>

definition filenames_ok :: "logger \<Rightarrow> bool" where
  "filenames_ok s = (lg_filename s \<noteq> None \<longrightarrow> lg_previous_filename s \<noteq> None \<and> lg_new_filename s \<noteq> None)"

lemma throw_errno_not_precondition: "throw_errno e \<noteq> PRECONDITION_FAILED"
  by (simp add: throw_errno_def)

lemma leaves_rotate_error:
  "lg_filename s \<noteq> None \<Longrightarrow> filenames_ok s \<Longrightarrow> leaves (\<lambda>(r, s'). r \<noteq> Inl PRECONDITION_FAILED) (srt_logger_try_rotate s)"
  by (auto simp: filenames_ok_def srt_logger_try_rotate_def failed_def rotate_link_def rotate_replace_def rotate_out_def Let_def leaves_bind
      throw_errno_not_precondition split: option.split sum.split)

lemma no_abort_check_file: "lg_filename s \<noteq> None \<Longrightarrow> filenames_ok s \<Longrightarrow> no_abort (check_file f len s)"
proof -
  assume a: "lg_filename s \<noteq> None" "filenames_ok s"
  have "no_abort (pbind (srt_logger_try_rotate s) (\<lambda>(r, s1). case r of
      Inr _ \<Rightarrow> Ret s1 | Inl e \<Rightarrow> if e = PRECONDITION_FAILED then Abort else Ret (s1\<lparr> lg_max_bytes := 0 \<rparr>)))"
    by (rule no_abort_bindI [OF no_abort_try_rotate leaves_rotate_error [OF a]]) (auto split: sum.split)
  then show ?thesis by (auto simp: check_file_def reopen_file_def intro!: no_abort_then split: sum.split)
qed

lemma no_abort_partial_line [simp]: "no_abort (logger_process_partial_line s level t)"
  by (auto simp: logger_process_partial_line_def write_formatted_line_def intro!: no_abort_then split: option.split)

lemma no_abort_complete_line: "filenames_ok s \<Longrightarrow> no_abort (logger_process_complete_line s level start t)"
  by (auto simp: logger_process_complete_line_def write_file_line_def no_abort_check_file intro!: no_abort_then split: option.split)

lemma keeps_filenames: "keeps s s' \<Longrightarrow> filenames_ok s' = filenames_ok s"
  by (cases s; cases s') (simp add: keeps_def but_file_def filenames_ok_def)

lemma no_abort_perform:
  "filenames_ok s \<Longrightarrow> no_abort (perform start evs s) \<and> leaves filenames_ok (perform start evs s)"
proof (induction start evs s rule: perform.induct)
  case (2 start c evs s)
  then show ?case by (simp add: filenames_ok_def set_cfg_def)
next
  case (3 start level t evs s)
  then show ?case by (auto intro!: no_abort_then leaves_bindI [OF leaves_True])
next
  case (4 start level t evs s)
  have k: "leaves filenames_ok (logger_process_complete_line s level start t)"
    by (rule leaves_mono [OF leaves_complete_line]) (use 4 keeps_filenames in blast)
  then show ?case using 4 by (auto intro!: no_abort_bindI [OF no_abort_complete_line k] leaves_bindI [OF k])
qed auto

lemma no_abort_process_loop:
  "filenames_ok s \<Longrightarrow> mid (cfg s) k ls \<Longrightarrow> length (ls_buf ls) < LINE_MAX \<Longrightarrow> no_abort (process_loop s ls input reads)"
proof (induction reads arbitrary: s ls input k)
  case (Cons rd reads)
  show ?case
  proof (cases rd)
    case (Inr n)
    define bytes where "bytes = read_stdin input n (LINE_MAX - length (ls_buf ls))"
    obtain evs1 c1 ls1 where e1: "lines_events (bytes = []) (cfg s) (ls\<lparr> ls_buf := ls_buf ls @ bytes \<rparr>) = (evs1, c1, ls1)"
      by (cases "lines_events (bytes = []) (cfg s) (ls\<lparr> ls_buf := ls_buf ls @ bytes \<rparr>)") auto
    obtain evs2 c2 ls2 where e2: "rest_events c1 ls1 = (evs2, c2, ls2)" by (cases "rest_events c1 ls1") auto
    note pass = process_loop_pass [OF Cons.prems(2,3) bytes_def e1 e2]
    obtain k2 where k2: "mid c2 k2 ls2" "length (ls_buf ls2) < LINE_MAX" using pass(3) by blast
    show ?thesis unfolding Inr pass(1)
    proof (rule no_abort_then)
      show "no_abort (if lg_timestamps s \<and> ls_buf ls = [] then call_num C_time else Ret (ls_start ls))" by simp
      fix start
      have p: "no_abort (perform start (evs1 @ evs2) s)" "leaves filenames_ok (perform start (evs1 @ evs2) s)"
        using no_abort_perform [OF Cons.prems(1)] by auto
      show "no_abort (pbind (perform start (evs1 @ evs2) s) (\<lambda>s'. if bytes \<noteq> []
          then process_loop s' (ls2\<lparr> ls_start := start \<rparr>) (drop (length bytes) input) reads else Ret (Some (Inr ()), s')))"
      proof (rule no_abort_bind [OF p(1)])
        fix tr s'
        assume r: "runs (perform start (evs1 @ evs2) s) tr s'"
        have "filenames_ok s'" "cfg s' = c2" using leaves_runs [OF p(2) r] leaves_runs [OF pass(2) r] by auto
        then show "no_abort (if bytes \<noteq> [] then process_loop s' (ls2\<lparr> ls_start := start \<rparr>) (drop (length bytes) input) reads
            else Ret (Some (Inr ()), s'))" using Cons.IH [of s' k2 "ls2\<lparr> ls_start := start \<rparr>"] k2 by auto
      qed
    qed
  qed simp
qed simp

lemma write_failed_none: "\<not> write_failed {} tr"
proof (induction tr)
  case (Cons x tr)
  then show ?case by (cases x; cases "fst x"; cases "snd x") auto
qed simp

text \<open>C16: The main loop never fails an assertion and always reaches the end of its input, after at most one
  call of \<open>read\<close> for each byte and one more, whatever the other calls answer.\<close>

theorem process_loop_returns:
  assumes "filenames_ok self" and "enough_reads input reads"
  shows "no_abort (process_loop self line_state_init input reads) \<and>
    (\<forall>tr r self'. runs (process_loop self line_state_init input reads) tr (r, self') \<longrightarrow> r = Some (Inr ()))"
proof (intro conjI allI impI)
  show "no_abort (process_loop self line_state_init input reads)" by (rule no_abort_process_loop [OF assms(1) mid_init(1,3)])
  fix tr r self'
  assume r: "runs (process_loop self line_state_init input reads) tr (r, self')"
  have "opens_only UNIV tr" "lg_file_fd self \<in> UNIV" "all_files False UNIV {}" by (auto simp: opens_only_def all_files_def)
  then show "r = Some (Inr ())" using process_loop_sent [OF r mid_init(1,3) assms(2) write_failed_none] by blast
qed

section \<open>An example\<close>

text \<open>An example: a logger that writes to a file, the Journal and a terminal.\<close>

definition demo_logger :: logger where
  "demo_logger = srt_logger_init\<lparr> lg_filename := Some ''a.txt'', lg_previous_filename := Some ''a.previous.txt'',
     lg_new_filename := Some ''.a.new.txt'', lg_file_fd := 4, lg_journal_fd := 3, lg_terminal_fd := 5, lg_parse_level_prefix := True,
     lg_file_stat := \<lparr> st_dev = 1, st_ino = 7, st_mode = 0x81A4, st_size = 10 \<rparr>, lg_max_bytes := 12, lg_journal_level := 5 \<rparr>"

definition demo_input :: string where "demo_input = ''<3>x'' @ [newline] @ ''y''"

definition demo_reads :: "(errno + nat) list" where "demo_reads = map Inr [1, 1, 8, 8, 8, 8, 8, 8]"

lemma demo_opens: "demo_trace tr \<Longrightarrow> 9 \<in> F \<Longrightarrow> opens_only F tr"
  by (fastforce simp: demo_trace_def opens_only_def demo_answer_def)

lemma demo_runs_loop:
  obtains tr r self' where "runs (process_loop demo_logger line_state_init demo_input demo_reads) tr (r, self')" and "demo_trace tr"
proof -
  have "filenames_ok demo_logger" by (simp add: filenames_ok_def demo_logger_def srt_logger_init_def)
  then have "no_abort (process_loop demo_logger line_state_init demo_input demo_reads)"
    by (rule no_abort_process_loop [OF _ mid_init(1,3)])
  then show thesis using demo_runs that by fast
qed

lemma demo_enough: "enough_reads demo_input demo_reads"
  by (simp add: enough_reads_def demo_input_def demo_reads_def)

lemma demo_lines: "log_lines (cfg demo_logger) None demo_input = [(3, [CHR ''x'', newline]), (6, [CHR ''y'', newline])]"
  by (simp add: demo_logger_def demo_input_def cfg_def srt_logger_init_def log_lines.simps logical_line_def line_level_def
      LINE_MAX_def newline_def journal_prefix_def directive_def upt_rec g_str_has_prefix_def Let_def
      SRT_SYSLOG_LEVEL_DEFAULT_LINE_def LOG_INFO_def char_of_def bit_0)

lemmas demo_fields = demo_logger_def srt_logger_init_def STDERR_FILENO_def

text \<open>The example of \<open>bin/logger.md\<close>: its last line has the level 4, not 3.\<close>

lemma remaining_lines_level:
  "log_lines (True, 6) None (''<5>abc'' @ [newline] @ ''def'' @ [newline] @ ''<remaining-lines-assume-level=4>'' @ [newline]
       @ ''ghi'' @ [newline] @ ''<3>jkl'' @ [newline]) =
     [(5, ''abc'' @ [newline]), (6, ''def'' @ [newline]), (4, ''ghi'' @ [newline]), (4, ''<3>jkl'' @ [newline])]"
  by code_simp

theorem process_loop_journal_witness:
  "\<exists>tr self'. runs (process_loop demo_logger line_state_init demo_input demo_reads) tr (Some (Inr ()), self') \<and>
    sent {3} tr = ''<3>x'' @ [newline]"
proof -
  obtain tr r self' where R: "runs (process_loop demo_logger line_state_init demo_input demo_reads) tr (r, self')" "demo_trace tr"
    by (rule demo_runs_loop)
  have j: "lg_journal_fd demo_logger = 3" "lg_journal_level demo_logger = 5" "lg_terminal_fd demo_logger = 5" "lg_file_fd demo_logger = 4"
    "\<not> lg_use_stderr demo_logger" by (simp_all add: demo_fields)
  have c: "char_of (51 :: nat) = CHR ''3''" by (simp add: char_of_def bit_0)
  have "opens_only (- {3}) tr" using demo_opens [OF R(2), of "- {3}"] by simp
  then have "r = Some (Inr ())" "sent {3} tr = ''<3>x'' @ [newline]"
    using process_loop_journal [OF R(1) demo_enough] demo_writes [OF R(2), of "{3}"]
    by (simp_all add: j demo_lines journal_text_def journal_prefix_def c)
  then show ?thesis using R(1) by blast
qed

lemma demo_stamps: "demo_trace tr \<Longrightarrow> set (strftimes tr) \<subseteq> {''[5] ''} \<and> (C_time, A_num 0) \<notin> set tr"
proof (induction tr)
  case (Cons e tr)
  obtain c a where e: "e = (c, a)" by (cases e)
  then show ?case using Cons by (cases c) (auto simp: demo_trace_def demo_answer_def)
qed simp

theorem process_loop_files_witness:
  "\<exists>tr r self'. runs (process_loop demo_logger line_state_init demo_input demo_reads) tr (r, self') \<and>
    sent (- {3, 5, 2}) tr = ''[5] x'' @ [newline] @ ''[5] y'' @ [newline]"
proof -
  obtain tr r self' where R: "runs (process_loop demo_logger line_state_init demo_input demo_reads) tr (r, self')" "demo_trace tr"
    by (rule demo_runs_loop)
  let ?F = "- {3, 5, 2} :: int set"
  let ?lines = "[(3 :: nat, [CHR ''x'', newline]), (6, [CHR ''y'', newline])]"
  have j: "lg_journal_fd demo_logger = 3" "lg_file_level demo_logger = 7" "lg_terminal_fd demo_logger = 5" "lg_file_fd demo_logger = 4"
    "STDERR_FILENO = 2" "lg_timestamps demo_logger" by (simp_all add: demo_fields SRT_SYSLOG_LEVEL_DEFAULT_FILE_def LOG_DEBUG_def)
  have o1: "opens_only ?F tr" using demo_opens [OF R(2), of ?F] by simp
  note stamped = demo_stamps [OF R(2)]
  obtain stamps where s: "length stamps = 2" "sent ?F tr = file_text 7 stamps ?lines"
    "strftimes tr = map fst (filter (\<lambda>(stamp, level, t). level \<le> 7) (zip stamps ?lines))"
    using process_loop_files [OF R(1) demo_enough, of ?F] o1 demo_writes [OF R(2), of ?F] stamped
    by (auto simp only: j demo_lines list.size numeral_2_eq_2) auto
  obtain stamp1 stamp2 where st: "stamps = [stamp1, stamp2]" using s(1) by (auto simp: numeral_2_eq_2 length_Suc_conv)
  have "stamp1 = ''[5] ''" "stamp2 = ''[5] ''" using s(3) stamped by (simp_all add: st)
  then have "sent ?F tr = ''[5] x'' @ [newline] @ ''[5] y'' @ [newline]" using s(2) st by (simp add: file_text_def)
  then show ?thesis using R(1) by blast
qed

theorem process_loop_terminal_witness:
  "\<exists>tr r self'. runs (process_loop demo_logger line_state_init demo_input demo_reads) tr (r, self') \<and>
    sent {5} tr = ''x'' @ [newline] @ ''y'' @ [newline]"
proof -
  obtain tr r self' where R: "runs (process_loop demo_logger line_state_init demo_input demo_reads) tr (r, self')" "demo_trace tr"
    by (rule demo_runs_loop)
  have j: "lg_journal_fd demo_logger = 3" "lg_terminal_level demo_logger = 6" "lg_terminal_fd demo_logger = 5" "lg_file_fd demo_logger = 4"
    "\<not> lg_use_stderr demo_logger" "\<not> lg_use_terminal_colors demo_logger"
    by (simp_all add: demo_fields SRT_SYSLOG_LEVEL_DEFAULT_TERMINAL_def LOG_INFO_def)
  have "opens_only (- {5}) tr" using demo_opens [OF R(2), of "- {5}"] by simp
  then have "sent {5} tr = ''x'' @ [newline] @ ''y'' @ [newline]"
    using process_loop_terminal [OF R(1) demo_enough] demo_writes [OF R(2), of "{5}"]
    by (simp add: j demo_lines texts_def)
  then show ?thesis using R(1) by blast
qed

theorem process_loop_returns_witness:
  "no_abort (process_loop demo_logger line_state_init demo_input demo_reads)"
proof -
  have "filenames_ok demo_logger" by (simp add: filenames_ok_def demo_logger_def srt_logger_init_def)
  then show ?thesis using process_loop_returns [OF _ demo_enough] by blast
qed

end
