(* ===== verification/LoggerProtocol.thy ===== *)
theory LoggerProtocol imports LoggerSinks begin

text \<open>
  The order in which a logger makes its calls on the log files, as a protocol: a phase says what the
  logger has found out and which locks it has, each call is allowed in some phases, and its answer leads to
  the next phase. The programs of Logger follow the protocol, whatever the answers; LoggerRotate uses
  this for the interleaving of loggers.
\<close>

section \<open>Phases\<close>

text \<open>The identity of a file is its device and inode number. The first two arguments of a phase are the
  descriptor of the log file and the identity of that file. \<open>Opened\<close>: not locked yet; \<open>Calm\<close>: locked;
  \<open>Same\<close>: it was the file with the name of the log; \<open>Alone\<close>: exclusively locked; \<open>Linked\<close>: it has the
  previous name, too; \<open>Fresh\<close>: a new file is open, whether it is locked, and its identity; \<open>Removing\<close>: the
  name of the new file was removed; \<open>Swapped\<close>: the new file has the name of the log; \<open>Reopen\<close>
  and \<open>ReopenId\<close>: the name of the log was opened again. The flags of \<open>Opened\<close> and \<open>ReopenId\<close> tell that the
  kernel does not know open file description locks.\<close>

type_synonym ident = "nat \<times> nat"

datatype phase =
    Opened fd ident bool
  | Calm fd ident
  | Same fd ident
  | Alone fd ident
  | Linked fd ident
  | Fresh fd ident fd bool "ident option"
  | Removing fd ident fd
  | Swapped fd fd ident
  | Reopen fd ident fd
  | ReopenId fd ident fd ident bool

definition ident :: "stat \<Rightarrow> ident" where "ident st = (st_dev st, st_ino st)"

text \<open>Calls that have nothing to do with the log files.\<close>

fun neutral :: "call \<Rightarrow> bool" where
  "neutral (C_write f t) = True"
| "neutral C_time = True"
| "neutral (C_strftime t) = True"
| "neutral (C_chdir d) = True"
| "neutral C_getpid = True"
| "neutral c = False"

text \<open>Names: of the log, of the previous log, and the temporary one.\<close>

definition allowed :: "string \<Rightarrow> string \<Rightarrow> string \<Rightarrow> phase \<Rightarrow> call \<Rightarrow> bool" where
  "allowed l p n ph c = (neutral c \<or>
     (case c of
        C_stat q \<Rightarrow> q = l \<and> (case ph of Calm _ _ \<Rightarrow> True | Same _ _ \<Rightarrow> True | Alone _ _ \<Rightarrow> True | _ \<Rightarrow> False)
      | C_open q excl \<Rightarrow> (case ph of Calm _ _ \<Rightarrow> q = l \<and> \<not> excl | Linked _ _ \<Rightarrow> q = n \<and> excl | _ \<Rightarrow> False)
      | C_fstat f \<Rightarrow> (case ph of Reopen _ _ nfd \<Rightarrow> f = nfd | Fresh _ _ nfd lk _ \<Rightarrow> f = nfd \<and> lk | _ \<Rightarrow> False)
      | C_lock f cmd t \<Rightarrow> (case ph of
            Opened fd _ old \<Rightarrow> f = fd \<and> t = F_RDLCK \<and> cmd = (if old then F_SETLKW else F_OFD_SETLKW)
          | Same fd _ \<Rightarrow> f = fd \<and> cmd = F_OFD_SETLK
          | Alone fd _ \<Rightarrow> f = fd \<and> t = F_RDLCK \<and> cmd = F_OFD_SETLK
          | Linked fd _ \<Rightarrow> f = fd \<and> t = F_RDLCK \<and> cmd = F_OFD_SETLK
          | Fresh _ _ nfd _ _ \<Rightarrow> f = nfd \<and> t = F_WRLCK \<and> cmd = F_OFD_SETLK
          | Removing fd _ _ \<Rightarrow> f = fd \<and> t = F_RDLCK \<and> cmd = F_OFD_SETLK
          | ReopenId _ _ nfd _ old \<Rightarrow> f = nfd \<and> t = F_RDLCK \<and> cmd = (if old then F_SETLKW else F_OFD_SETLKW)
          | _ \<Rightarrow> False)
      | C_unlink q \<Rightarrow> (case ph of Alone _ _ \<Rightarrow> q = p | Fresh _ _ _ _ _ \<Rightarrow> q = n | _ \<Rightarrow> False)
      | C_link q r \<Rightarrow> (case ph of Alone _ _ \<Rightarrow> q = l \<and> r = p | _ \<Rightarrow> False)
      | C_rename q r \<Rightarrow> (case ph of Fresh _ _ _ lk nid \<Rightarrow> lk \<and> nid \<noteq> None \<and> q = n \<and> r = l | _ \<Rightarrow> False)
      | C_close f \<Rightarrow> (case ph of
            Calm fd _ \<Rightarrow> f \<noteq> fd | Removing _ _ nfd \<Rightarrow> f = nfd | Swapped fd _ _ \<Rightarrow> f = fd
          | Reopen _ _ nfd \<Rightarrow> f = nfd | ReopenId _ _ nfd _ _ \<Rightarrow> f = nfd | _ \<Rightarrow> False)
      | _ \<Rightarrow> False))"

text \<open>The answer of a call on a descriptor or a name, as success.\<close>

definition ok :: "answer \<Rightarrow> bool" where "ok a = (a = A_unit (Inr ()))"

definition advance :: "phase \<Rightarrow> call \<Rightarrow> answer \<Rightarrow> phase" where
  "advance ph c a =
     (case c of
        C_stat _ \<Rightarrow> (case ph of
            Calm fd x \<Rightarrow> (case a of A_stat (Inr st) \<Rightarrow> if ident st = x then Same fd x else Calm fd x | _ \<Rightarrow> Calm fd x)
          | Same fd x \<Rightarrow> (case a of A_stat (Inr st) \<Rightarrow> if ident st = x then Same fd x else Calm fd x | _ \<Rightarrow> Calm fd x)
          | Alone fd x \<Rightarrow> (case a of A_stat (Inr st) \<Rightarrow> if ident st = x then Same fd x else Calm fd x | _ \<Rightarrow> Calm fd x)
          | _ \<Rightarrow> ph)
      | C_open _ _ \<Rightarrow> (case a of
            A_fd (Inr k) \<Rightarrow> (case ph of
                Calm fd x \<Rightarrow> Reopen fd x (int k)
              | Linked fd x \<Rightarrow> Fresh fd x (int k) False None
              | _ \<Rightarrow> ph)
          | _ \<Rightarrow> ph)
      | C_fstat _ \<Rightarrow> (case a of
            A_stat (Inr st) \<Rightarrow> (case ph of
                Reopen fd x nfd \<Rightarrow> ReopenId fd x nfd (ident st) False
              | Fresh fd x nfd lk _ \<Rightarrow> Fresh fd x nfd lk (Some (ident st))
              | _ \<Rightarrow> ph)
          | _ \<Rightarrow> ph)
      | C_lock _ cmd t \<Rightarrow> (case ph of
            Opened fd x old \<Rightarrow> if ok a then Calm fd x else Opened fd x (old \<or> a = A_unit (Inl EINVAL))
          | Same fd x \<Rightarrow> if t = F_WRLCK \<and> ok a then Alone fd x else Same fd x
          | Alone fd x \<Rightarrow> Same fd x
          | Linked fd x \<Rightarrow> Same fd x
          | Fresh fd x nfd lk nid \<Rightarrow> Fresh fd x nfd (lk \<or> ok a) nid
          | ReopenId fd x nfd nid old \<Rightarrow> if ok a then Calm nfd nid else ReopenId fd x nfd nid (old \<or> a = A_unit (Inl EINVAL))
          | _ \<Rightarrow> ph)
      | C_unlink _ \<Rightarrow> (case ph of Fresh fd x nfd _ _ \<Rightarrow> Removing fd x nfd | _ \<Rightarrow> ph)
      | C_link _ _ \<Rightarrow> (case ph of Alone fd x \<Rightarrow> if ok a then Linked fd x else Alone fd x | _ \<Rightarrow> ph)
      | C_rename _ _ \<Rightarrow> (case ph of Fresh fd x nfd _ (Some nid) \<Rightarrow> if ok a then Swapped fd nfd nid else ph | _ \<Rightarrow> ph)
      | C_close _ \<Rightarrow> (case ph of
            Removing fd x _ \<Rightarrow> Same fd x | Swapped _ nfd nid \<Rightarrow> Same nfd nid
          | Reopen fd x _ \<Rightarrow> Calm fd x | ReopenId fd x _ _ _ \<Rightarrow> Calm fd x | _ \<Rightarrow> ph)
      | _ \<Rightarrow> ph)"

lemma neutral_allowed: "neutral c \<Longrightarrow> allowed l p n ph c" "neutral c \<Longrightarrow> advance ph c a = ph"
  by (auto simp: allowed_def) (cases c; auto simp: advance_def)

text \<open>A program follows the protocol from a phase on, and ends in a phase that fits its result.\<close>

primrec follows :: "string \<Rightarrow> string \<Rightarrow> string \<Rightarrow> (phase \<Rightarrow> 'a \<Rightarrow> bool) \<Rightarrow> phase \<Rightarrow> 'a prog \<Rightarrow> bool" where
  "follows l p n Q ph (Ret x) = Q ph x"
| "follows l p n Q ph Abort = True"
| "follows l p n Q ph (Call c k) = (allowed l p n ph c \<and> (\<forall>a. answers c a \<longrightarrow> follows l p n Q (advance ph c a) (k a)))"

lemma follows_mono: "follows l p n Q ph r \<Longrightarrow> (\<And>ph x. Q ph x \<Longrightarrow> R ph x) \<Longrightarrow> follows l p n R ph r"
  by (induction r arbitrary: ph) auto

lemma follows_bind:
  "follows l p n R ph r \<Longrightarrow> (\<And>ph x. R ph x \<Longrightarrow> follows l p n Q ph (f x)) \<Longrightarrow> follows l p n Q ph (pbind r f)"
  by (induction r arbitrary: ph) auto

lemma follows_neutral: "calls neutral r \<Longrightarrow> leaves P r \<Longrightarrow> (\<And>x. P x \<Longrightarrow> Q ph x) \<Longrightarrow> follows l p n Q ph r"
  by (induction r) (auto simp: neutral_allowed)

lemma follows_neutral_bind:
  "calls neutral r \<Longrightarrow> leaves P r \<Longrightarrow> (\<And>x. P x \<Longrightarrow> follows l p n Q ph (f x)) \<Longrightarrow> follows l p n Q ph (pbind r f)"
  by (rule follows_bind [of l p n "\<lambda>ph' x. ph' = ph \<and> P x"]) (auto intro: follows_neutral)

lemma follows_bind_bind: "follows l p n Q ph (pbind (pbind r f) g) = follows l p n Q ph (pbind r (\<lambda>x. pbind (f x) g))"
  by (simp add: pbind_assoc)

text \<open>Symbolic execution of a call, by the type of its answer.\<close>

lemma follows_call_unit: "follows l p n Q ph (pbind (call_unit c) f) =
    (allowed l p n ph c \<and> (\<forall>r. answers c (A_unit r) \<longrightarrow> follows l p n Q (advance ph c (A_unit r)) (f r)))"
proof -
  have "follows l p n Q ph' (pbind (case a of A_unit r \<Rightarrow> Ret r | _ \<Rightarrow> Abort) f) =
      (\<forall>r. a = A_unit r \<longrightarrow> follows l p n Q ph' (f r))" for ph' a by (cases a) auto
  then show ?thesis by (auto simp: call_unit_def)
qed

lemma follows_call_stat: "follows l p n Q ph (pbind (call_stat c) f) =
    (allowed l p n ph c \<and> (\<forall>r. answers c (A_stat r) \<longrightarrow> follows l p n Q (advance ph c (A_stat r)) (f r)))"
proof -
  have "follows l p n Q ph' (pbind (case a of A_stat r \<Rightarrow> Ret r | _ \<Rightarrow> Abort) f) =
      (\<forall>r. a = A_stat r \<longrightarrow> follows l p n Q ph' (f r))" for ph' a by (cases a) auto
  then show ?thesis by (auto simp: call_stat_def)
qed

lemma follows_call_fd: "follows l p n Q ph (pbind (call_fd c) f) =
    (allowed l p n ph c \<and> (\<forall>e. answers c (A_fd (Inl e)) \<longrightarrow> follows l p n Q (advance ph c (A_fd (Inl e))) (f (Inl e)))
     \<and> (\<forall>k. answers c (A_fd (Inr k)) \<longrightarrow> follows l p n Q (advance ph c (A_fd (Inr k))) (f (Inr (int k)))))"
proof -
  have "follows l p n Q ph' (pbind (case a of A_fd (Inr n) \<Rightarrow> Ret (Inr (int n)) | A_fd (Inl e) \<Rightarrow> Ret (Inl e) | _ \<Rightarrow> Abort) f) =
      ((\<forall>e. a = A_fd (Inl e) \<longrightarrow> follows l p n Q ph' (f (Inl e))) \<and> (\<forall>k. a = A_fd (Inr k) \<longrightarrow> follows l p n Q ph' (f (Inr (int k)))))" for ph' a
    by (cases a) (auto split: sum.splits)
  then show ?thesis by (auto simp: call_fd_def)
qed

lemma follows_close_fd: "follows l p n Q ph (pbind (close_fd f) g) =
    (if f \<ge> 0 then allowed l p n ph (C_close f) \<and> follows l p n Q (advance ph (C_close f) (A_unit (Inr ()))) (g ())
     else follows l p n Q ph (g ()))"
proof -
  have e: "advance ph (C_close f) a = advance ph (C_close f) b" for a b by (simp add: advance_def)
  show ?thesis by (auto simp: close_fd_def follows_bind_bind follows_call_unit) (metis e)
qed

lemmas follows_steps = follows_bind_bind follows_call_unit follows_call_stat follows_call_fd follows_close_fd

section \<open>The programs follow it\<close>

text \<open>Between its lines, a logger knows the identity of its log file.\<close>

definition named :: "string \<Rightarrow> string \<Rightarrow> string \<Rightarrow> logger \<Rightarrow> bool" where
  "named l p n s = (lg_filename s = Some l \<and> lg_previous_filename s = Some p \<and> lg_new_filename s = Some n \<and> 0 \<le> lg_file_fd s)"

definition between :: "string \<Rightarrow> string \<Rightarrow> string \<Rightarrow> phase \<Rightarrow> logger \<Rightarrow> bool" where
  "between l p n ph s = (named l p n s \<and>
     (let fd = lg_file_fd s; x = ident (lg_file_stat s) in ph = Calm fd x \<or> ph = Same fd x \<or> ph = Alone fd x))"

lemma calls_loop_write [simp]: "calls neutral (loop_write fd buf)"
proof (induction fd buf rule: loop_write.induct)
  case (1 fd buf)
  then show ?case by (subst loop_write.simps) (auto split: answer.split sum.split)
qed

definition log_phases :: "logger \<Rightarrow> phase set" where
  "log_phases s = (let fd = lg_file_fd s; x = ident (lg_file_stat s) in {Same fd x, Alone fd x, Linked fd x})"

definition settled :: "string \<Rightarrow> string \<Rightarrow> string \<Rightarrow> phase \<Rightarrow> (gerror + unit) \<times> logger \<Rightarrow> bool" where
  "settled l p n ph x = between l p n ph (snd x)"

lemma rotate_out_old:
  "named l p n s \<Longrightarrow> ph \<in> log_phases s \<Longrightarrow> follows l p n (settled l p n) ph (rotate_out m (- 1) r s)"
  by (auto simp: rotate_out_def between_def settled_def log_phases_def Let_def follows_steps allowed_def advance_def)

lemma rotate_out_new:
  "named l p n s \<Longrightarrow> 0 \<le> nfd \<Longrightarrow>
   follows l p n (settled l p n) (Fresh (lg_file_fd s) (ident (lg_file_stat s)) nfd lk nid) (rotate_out n nfd r s)"
  by (auto simp: rotate_out_def between_def settled_def Let_def follows_steps allowed_def advance_def)

lemma rotate_replace_follows:
  assumes "named l p n s" and "0 \<le> nfd"
  shows "follows l p n (settled l p n) (Fresh (lg_file_fd s) (ident (lg_file_stat s)) nfd False None) (rotate_replace l n nfd s)"
proof -
  have out: "follows l p n (settled l p n) (Fresh (lg_file_fd s) (ident (lg_file_stat s)) nfd lk nid) (rotate_out n nfd r s)" for lk nid r
    by (rule rotate_out_new [OF assms])
  have swapped: "follows l p n (settled l p n) (Same nfd (ident st)) (rotate_out n (- 1) r (s\<lparr> lg_file_fd := nfd, lg_file_stat := st \<rparr>))" for st r
    by (rule rotate_out_old) (use assms in \<open>auto simp: named_def log_phases_def Let_def\<close>)
  have fd: "0 \<le> lg_file_fd s" using assms(1) by (simp add: named_def)
  show ?thesis unfolding rotate_replace_def Let_def
    by (auto simp: follows_steps allowed_def advance_def ok_def fd out swapped split: sum.split)
qed

lemma rotate_link_follows:
  assumes "named l p n s"
  shows "follows l p n (settled l p n) (Alone (lg_file_fd s) (ident (lg_file_stat s))) (rotate_link l p n s)"
proof -
  have out: "follows l p n (settled l p n) ph (rotate_out m (- 1) r s)" if "ph \<in> log_phases s" for ph m r
    by (rule rotate_out_old [OF assms that])
  show ?thesis unfolding rotate_link_def
    by (auto simp: follows_steps allowed_def advance_def ok_def log_phases_def Let_def rotate_replace_follows [OF assms]
        intro!: out split: sum.split)
qed

lemma try_rotate_follows:
  assumes "named l p n s"
  shows "follows l p n (settled l p n) (Same (lg_file_fd s) (ident (lg_file_stat s))) (srt_logger_try_rotate s)"
  using assms rotate_link_follows [OF assms]
  by (auto simp: srt_logger_try_rotate_def failed_def settled_def between_def named_def follows_steps allowed_def advance_def ok_def Let_def
      split: sum.split)

text \<open>After a lock was taken, the file is locked; otherwise the phase is the one before, or the kernel does not know
  the locks.\<close>

lemma lock_opened:
  "0 \<le> fd \<Longrightarrow> follows l p n Q (Opened fd x False) (pbind (lock_output_file fd) f) =
   (follows l p n Q (Calm fd x) (f (Inr ())) \<and>
    (\<forall>e. e \<noteq> EINVAL \<longrightarrow> follows l p n Q (Opened fd x False) (f (Inl (throw_errno e)))) \<and>
    (\<forall>e. follows l p n Q (Opened fd x True) (f (Inl (throw_errno e)))))"
  by (auto simp: lock_output_file_def follows_steps allowed_def advance_def ok_def split: sum.split)

lemma lock_reopened:
  "0 \<le> nfd \<Longrightarrow> follows l p n Q (ReopenId fd x nfd y False) (pbind (lock_output_file nfd) f) =
   (follows l p n Q (Calm nfd y) (f (Inr ())) \<and>
    (\<forall>e. e \<noteq> EINVAL \<longrightarrow> follows l p n Q (ReopenId fd x nfd y False) (f (Inl (throw_errno e)))) \<and>
    (\<forall>e. follows l p n Q (ReopenId fd x nfd y True) (f (Inl (throw_errno e)))))"
  by (auto simp: lock_output_file_def follows_steps allowed_def advance_def ok_def split: sum.split)

lemma reopen_file_follows:
  "named l p n s \<Longrightarrow> follows l p n (between l p n) (Calm (lg_file_fd s) (ident (lg_file_stat s))) (reopen_file l s)"
  by (auto simp: reopen_file_def follows_steps allowed_def advance_def lock_reopened between_def named_def Let_def split: sum.split)

lemma between_max_bytes: "between l p n ph s \<Longrightarrow> between l p n ph (s\<lparr> lg_max_bytes := m \<rparr>)"
  by (simp add: between_def named_def Let_def)

lemma check_file_follows:
  assumes "between l p n ph s"
  shows "follows l p n (between l p n) ph (check_file l len s)"
proof -
  let ?fd = "lg_file_fd s" and ?x = "ident (lg_file_stat s)"
  have s: "named l p n s" "ph = Calm ?fd ?x \<or> ph = Same ?fd ?x \<or> ph = Alone ?fd ?x" using assms by (auto simp: between_def Let_def)
  have stat: "allowed l p n ph (C_stat l)" "advance ph (C_stat l) (A_stat (Inl e)) = Calm ?fd ?x"
    "advance ph (C_stat l) (A_stat (Inr st)) = (if srt_is_same_stat st (lg_file_stat s) then Same ?fd ?x else Calm ?fd ?x)" for e st
    using s(2) by (auto simp: allowed_def advance_def ident_def srt_is_same_stat_def)
  have rotated: "follows l p n (between l p n) (Same ?fd ?x) (pbind (srt_logger_try_rotate s) (\<lambda>(r, s1).
      case r of Inr _ \<Rightarrow> Ret s1 | Inl e \<Rightarrow> if e = PRECONDITION_FAILED then Abort else Ret (s1\<lparr> lg_max_bytes := 0 \<rparr>)))"
    by (rule follows_bind [OF try_rotate_follows [OF s(1)]]) (auto simp: settled_def between_max_bytes split: sum.split)
  have same: "between l p n (Same ?fd ?x) s" using s(1) by (simp add: between_def Let_def)
  show ?thesis unfolding check_file_def
    by (auto simp: follows_steps stat reopen_file_follows [OF s(1)] rotated same split: sum.split)
qed

lemma calls_write_formatted [simp]: "calls neutral (write_formatted_line f level t)"
  by (auto simp: write_formatted_line_def intro!: calls_bind leaves_mono [OF leaves_True] split: option.split)

lemma calls_partial_line [simp]: "calls neutral (logger_process_partial_line s level t)"
  by (auto simp: logger_process_partial_line_def intro!: calls_bind leaves_mono [OF leaves_True])

lemma write_file_line_follows: "between l p n ph s \<Longrightarrow> follows l p n (between l p n) ph (write_file_line start t s)"
  by (rule follows_neutral [where P = "\<lambda>s'. s' = s", OF _ leaves_write_file_line])
    (auto simp: write_file_line_def intro!: calls_bind leaves_mono [OF leaves_True] split: option.split)

lemma complete_line_follows:
  assumes "between l p n ph s"
  shows "follows l p n (between l p n) ph (logger_process_complete_line s level start t)"
proof -
  have f: "lg_filename s = Some l" using assms by (simp add: between_def named_def)
  have "follows l p n (between l p n) ph (pbind (check_file l (length t) s) (write_file_line start t))"
    by (rule follows_bind [OF check_file_follows [OF assms]]) (rule write_file_line_follows)
  then show ?thesis unfolding logger_process_complete_line_def
    by (intro follows_neutral_bind [where P = "\<lambda>_. True"]) (auto simp: f assms intro!: calls_bind leaves_mono [OF leaves_True])
qed

lemma between_set_cfg: "between l p n ph (set_cfg c s) = between l p n ph s"
  by (simp add: between_def named_def set_cfg_def)

lemma between_parse: "logger_parse_level_prefix s t = (r, s') \<Longrightarrow> between l p n ph s \<Longrightarrow> between l p n ph s'"
  by (auto simp: logger_parse_level_prefix_cfg between_set_cfg split: prod.splits)

lemma process_line_follows:
  assumes "between l p n ph s"
  shows "follows l p n (\<lambda>ph (s', x). between l p n ph s') ph (process_line line s ls)"
proof -
  have rest: "follows l p n (\<lambda>ph (s', x). between l p n ph s') ph' (case x of (s1, plen, level) \<Rightarrow>
      if plen < length line then pbind (logger_process_complete_line s1 level (ls_start ls) (drop plen line)) (\<lambda>s2. Ret (s2, plen, level))
      else Ret (s1, plen, level))" if "between l p n ph' (fst x)" for ph' x
    using that by (cases x) (auto intro!: follows_bind [OF complete_line_follows])
  show ?thesis unfolding process_line_def
    by (rule follows_bind [where R = "\<lambda>ph x. between l p n ph (fst x)"])
      (use assms rest between_parse in \<open>auto intro!: follows_neutral_bind [where P = "\<lambda>_. True"] split: option.split prod.split\<close>)
qed

lemma process_lines_follows:
  "between l p n ph s \<Longrightarrow> follows l p n (\<lambda>ph (s', x). between l p n ph s') ph (process_lines at_eof s ls)"
proof (induction at_eof s ls arbitrary: ph rule: process_lines.induct)
  case (1 at_eof s ls)
  show ?case
    by (subst process_lines.simps)
      (use 1 in \<open>auto intro!: follows_bind [OF process_line_follows] split: option.split prod.split\<close>)
qed

lemma process_rest_follows:
  "between l p n ph s \<Longrightarrow> follows l p n (\<lambda>ph (s', x). between l p n ph s') ph (process_rest s ls)"
  unfolding process_rest_def
  by (auto intro!: follows_neutral_bind [where P = "\<lambda>_. True"] dest: between_parse split: option.split prod.split)

lemma process_loop_follows:
  "between l p n ph s \<Longrightarrow> follows l p n (\<lambda>_ _. True) ph (process_loop s ls input reads)"
proof (induction reads arbitrary: s ls input ph)
  case (Cons rd reads)
  have lines: "follows l p n (\<lambda>_ _. True) ph (pbind (process_lines at_eof s ls1) (\<lambda>(s2, ls2).
      pbind (process_rest s2 ls2) (\<lambda>(s3, ls3). if more then process_loop s3 ls3 rest reads else Ret (Some (Inr ()), s3))))"
    for at_eof ls1 more rest
    by (rule follows_bind [OF process_lines_follows [OF Cons.prems]]) (auto intro!: follows_bind [OF process_rest_follows] Cons.IH)
  show ?case
  proof (cases rd)
    case (Inr k)
    show ?thesis unfolding Inr process_loop.simps Let_def
      by (rule follows_bind [where R = "\<lambda>ph' _. ph' = ph"]) (auto simp: call_num_def neutral_allowed lines split: answer.split)
  qed simp
qed simp

text \<open>A logger that has opened its log file and not locked it yet.\<close>

definition set_up :: "string \<Rightarrow> string \<Rightarrow> string \<Rightarrow> logger \<Rightarrow> bool" where
  "set_up l p n s = (named l p n s \<and> lg_use_file s)"

lemma serve_follows:
  assumes "set_up l p n s" and "original_stdout \<noteq> lg_file_fd s"
  shows "follows l p n (\<lambda>_ _. True) (Opened (lg_file_fd s) (ident (lg_file_stat s)) False) (srt_logger_serve G input reads original_stdout s)"
proof -
  let ?calm = "Calm (lg_file_fd s) (ident (lg_file_stat s))"
  have s: "lg_filename s \<noteq> None" "lg_use_file s" "0 \<le> lg_file_fd s" and b: "between l p n ?calm s"
    using assms(1) by (auto simp: set_up_def named_def between_def Let_def)
  have ready: "calls neutral (if lg_sh_syntax s then report_ready G original_stdout s else Ret True)"
    by (auto simp: report_ready_def intro!: calls_bind leaves_mono [OF leaves_True])
  have loop: "follows l p n (\<lambda>_ _. True) ?calm (pbind (close_fd original_stdout) (\<lambda>_. process_loop s line_state_init input reads))"
    using assms(2) process_loop_follows [OF b] by (auto simp: follows_close_fd allowed_def advance_def)
  have report: "follows l p n (\<lambda>_ _. True) ?calm
     (pbind (if lg_sh_syntax s then report_ready G original_stdout s else Ret True) (\<lambda>good.
      if \<not> good then Ret (Some (Inl (G_IO_ERROR IO_FAILED)), s)
      else pbind (close_fd original_stdout) (\<lambda>_. process_loop s line_state_init input reads)))"
    by (rule follows_neutral_bind [where P = "\<lambda>_. True", OF ready]) (auto simp: loop)
  show ?thesis unfolding srt_logger_serve_def enter_log_dir_def
    using s report by (auto simp: follows_steps lock_opened failed_def neutral_allowed split: sum.split)
qed

end
