(* ===== verification/LoggerRotate.thy ===== *)
theory LoggerRotate imports LoggerProtocol begin

text \<open>
  Several loggers with the same log file, whose calls are interleaved in any order; each may fail, block
  or be killed at any time. The kernel has the names in the log directory, the open files of the
  processes and their locks. Because the loggers follow the protocol of LoggerProtocol, no two of them change
  names at the same time, the log always has its name, and a rotation leaves the old log under the
  previous name.
\<close>

section \<open>The kernel\<close>

text \<open>Names of inodes, and the inodes and locks of the descriptors of each process.\<close>

record log_fs =
  fs_dev :: nat
  fs_names :: "string \<rightharpoonup> nat"
  fs_files :: "nat \<times> fd \<rightharpoonup> nat"
  fs_locks :: "nat \<times> fd \<rightharpoonup> lock_type"

definition is_error :: "answer \<Rightarrow> bool" where
  "is_error a = (case a of A_unit (Inl _) \<Rightarrow> True | A_fd (Inl _) \<Rightarrow> True | A_stat (Inl _) \<Rightarrow> True | _ \<Rightarrow> False)"

definition is_ofd_lock :: "call \<Rightarrow> bool" where
  "is_ofd_lock c = (case c of C_lock _ cmd _ \<Rightarrow> cmd = F_OFD_SETLK \<or> cmd = F_OFD_SETLKW | _ \<Rightarrow> False)"

text \<open>A lock is compatible with those of all other descriptors for the file.\<close>

definition grantable :: "log_fs \<Rightarrow> nat \<times> fd \<Rightarrow> nat \<Rightarrow> lock_type \<Rightarrow> bool" where
  "grantable s d x t = (\<forall>e u. e \<noteq> d \<longrightarrow> fs_files s e = Some x \<longrightarrow> fs_locks s e = Some u \<longrightarrow> t = F_RDLCK \<and> u = F_RDLCK)"

text \<open>The calls of process \<open>i\<close>. The flag tells whether the kernel has open file description locks; without them
  these calls fail with \<open>EINVAL\<close>, and otherwise never do. A new file has an inode that is not in use.
  The other kind of lock has no effect here.\<close>

inductive fs_step :: "bool \<Rightarrow> nat \<Rightarrow> log_fs \<Rightarrow> call \<Rightarrow> answer \<Rightarrow> log_fs \<Rightarrow> bool" for ofd i where
  fs_fail: "answers c a \<Longrightarrow> is_error a \<Longrightarrow> \<not> (ofd \<and> is_ofd_lock c \<and> a = A_unit (Inl EINVAL)) \<Longrightarrow> fs_step ofd i s c a s"
| fs_neutral: "neutral c \<Longrightarrow> answers c a \<Longrightarrow> fs_step ofd i s c a s"
| fs_stat: "fs_names s q = Some x \<Longrightarrow> ident st = (fs_dev s, x) \<Longrightarrow> fs_step ofd i s (C_stat q) (A_stat (Inr st)) s"
| fs_fstat: "fs_files s (i, f) = Some x \<Longrightarrow> ident st = (fs_dev s, x) \<Longrightarrow> fs_step ofd i s (C_fstat f) (A_stat (Inr st)) s"
| fs_open: "fs_names s q = Some x \<Longrightarrow> fs_files s (i, int k) = None \<Longrightarrow>
    fs_step ofd i s (C_open q False) (A_fd (Inr k))
      (s\<lparr> fs_files := (fs_files s)((i, int k) \<mapsto> x), fs_locks := (fs_locks s)((i, int k) := None) \<rparr>)"
| fs_create: "fs_names s q = None \<Longrightarrow> fs_files s (i, int k) = None \<Longrightarrow> x \<notin> ran (fs_names s) \<union> ran (fs_files s) \<Longrightarrow>
    fs_step ofd i s (C_open q excl) (A_fd (Inr k))
      (s\<lparr> fs_names := (fs_names s)(q \<mapsto> x), fs_files := (fs_files s)((i, int k) \<mapsto> x), fs_locks := (fs_locks s)((i, int k) := None) \<rparr>)"
| fs_lock: "ofd \<Longrightarrow> cmd = F_OFD_SETLK \<or> cmd = F_OFD_SETLKW \<Longrightarrow> fs_files s (i, f) = Some x \<Longrightarrow> grantable s (i, f) x t \<Longrightarrow>
    fs_step ofd i s (C_lock f cmd t) (A_unit (Inr ())) (s\<lparr> fs_locks := (fs_locks s)((i, f) \<mapsto> t) \<rparr>)"
| fs_setlkw: "fs_step ofd i s (C_lock f F_SETLKW t) (A_unit (Inr ())) s"
| fs_unlink: "fs_names s q \<noteq> None \<Longrightarrow> fs_step ofd i s (C_unlink q) (A_unit (Inr ())) (s\<lparr> fs_names := (fs_names s)(q := None) \<rparr>)"
| fs_link: "fs_names s q = Some x \<Longrightarrow> fs_names s r = None \<Longrightarrow>
    fs_step ofd i s (C_link q r) (A_unit (Inr ())) (s\<lparr> fs_names := (fs_names s)(r \<mapsto> x) \<rparr>)"
| fs_rename: "fs_names s q = Some x \<Longrightarrow> fs_names s r \<noteq> Some x \<Longrightarrow>
    fs_step ofd i s (C_rename q r) (A_unit (Inr ())) (s\<lparr> fs_names := (fs_names s)(q := None, r \<mapsto> x) \<rparr>)"
| fs_rename_same: "fs_names s q = Some x \<Longrightarrow> fs_names s r = Some x \<Longrightarrow> fs_step ofd i s (C_rename q r) (A_unit (Inr ())) s"
| fs_close: "fs_step ofd i s (C_close f) (A_unit (Inr ()))
      (s\<lparr> fs_files := (fs_files s)((i, f) := None), fs_locks := (fs_locks s)((i, f) := None) \<rparr>)"

section \<open>The loggers\<close>

type_synonym process = "((gerror + unit) option \<times> logger) prog"

text \<open>A logger starts when it has opened the log; it makes one call at a time; it ends, or is killed, and all
  its files are closed.\<close>

inductive system_step :: "string \<Rightarrow> string \<Rightarrow> string \<Rightarrow> bool \<Rightarrow> log_fs \<times> (nat \<rightharpoonup> process) \<Rightarrow> log_fs \<times> (nat \<rightharpoonup> process) \<Rightarrow> bool"
  for l p n ofd where
  starts: "run i = None \<Longrightarrow> fs_names s l = Some x \<Longrightarrow> set_up l p n self \<Longrightarrow> ident (lg_file_stat self) = (fs_dev s, x) \<Longrightarrow>
    original_stdout \<noteq> lg_file_fd self \<Longrightarrow>
    system_step l p n ofd (s, run)
      (s\<lparr> fs_files := (fs_files s)((i, lg_file_fd self) \<mapsto> x), fs_locks := (fs_locks s)((i, lg_file_fd self) := None) \<rparr>,
       run(i \<mapsto> srt_logger_serve G input reads original_stdout self))"
| calls_next: "run i = Some (Call c k) \<Longrightarrow> fs_step ofd i s c a s' \<Longrightarrow> answers c a \<Longrightarrow> system_step l p n ofd (s, run) (s', run(i \<mapsto> k a))"
| ends: "system_step l p n ofd (s, run)
      (s\<lparr> fs_files := (\<lambda>(j, f). if j = i then None else fs_files s (j, f)), fs_locks := (\<lambda>(j, f). if j = i then None else fs_locks s (j, f)) \<rparr>,
       run(i := None))"

text \<open>At first the log exists, and no logger is running.\<close>

definition initial :: "string \<Rightarrow> log_fs \<times> (nat \<rightharpoonup> process) \<Rightarrow> bool" where
  "initial l S = (fs_names (fst S) l \<noteq> None \<and> fs_files (fst S) = Map.empty \<and> fs_locks (fst S) = Map.empty \<and> snd S = Map.empty)"

inductive reachable :: "string \<Rightarrow> string \<Rightarrow> string \<Rightarrow> bool \<Rightarrow> log_fs \<times> (nat \<rightharpoonup> process) \<Rightarrow> bool" for l p n ofd where
  reachable_init: "initial l S \<Longrightarrow> reachable l p n ofd S"
| reachable_step: "reachable l p n ofd S \<Longrightarrow> system_step l p n ofd S T \<Longrightarrow> reachable l p n ofd T"

section \<open>The invariant\<close>

definition locks_ok :: "log_fs \<Rightarrow> bool" where
  "locks_ok s = (\<forall>d e x t u. d \<noteq> e \<longrightarrow> fs_files s d = Some x \<longrightarrow> fs_files s e = Some x \<longrightarrow>
     fs_locks s d = Some t \<longrightarrow> fs_locks s e = Some u \<longrightarrow> t = F_RDLCK \<and> u = F_RDLCK)"

text \<open>What a phase of process \<open>i\<close> says about the kernel.\<close>

definition has_file :: "log_fs \<Rightarrow> nat \<Rightarrow> fd \<Rightarrow> ident \<Rightarrow> bool" where
  "has_file s i fd x = (fst x = fs_dev s \<and> fs_files s (i, fd) = Some (snd x))"

definition calm :: "bool \<Rightarrow> log_fs \<Rightarrow> nat \<Rightarrow> fd \<Rightarrow> ident \<Rightarrow> bool" where
  "calm ofd s i fd x = (has_file s i fd x \<and> (ofd \<longrightarrow> fs_locks s (i, fd) \<noteq> None))"

definition same :: "bool \<Rightarrow> string \<Rightarrow> log_fs \<Rightarrow> nat \<Rightarrow> fd \<Rightarrow> ident \<Rightarrow> bool" where
  "same ofd l s i fd x = (calm ofd s i fd x \<and> fs_names s l = Some (snd x))"

definition alone :: "bool \<Rightarrow> string \<Rightarrow> log_fs \<Rightarrow> nat \<Rightarrow> fd \<Rightarrow> ident \<Rightarrow> bool" where
  "alone ofd l s i fd x = (same ofd l s i fd x \<and> ofd \<and> fs_locks s (i, fd) = Some F_WRLCK)"

fun at_phase :: "bool \<Rightarrow> string \<Rightarrow> string \<Rightarrow> string \<Rightarrow> log_fs \<Rightarrow> nat \<Rightarrow> phase \<Rightarrow> bool" where
  "at_phase ofd l p n s i (Opened fd x old) = (has_file s i fd x \<and> (old \<longrightarrow> \<not> ofd))"
| "at_phase ofd l p n s i (Calm fd x) = calm ofd s i fd x"
| "at_phase ofd l p n s i (Same fd x) = same ofd l s i fd x"
| "at_phase ofd l p n s i (Alone fd x) = alone ofd l s i fd x"
| "at_phase ofd l p n s i (Linked fd x) = (alone ofd l s i fd x \<and> fs_names s p = Some (snd x))"
| "at_phase ofd l p n s i (Fresh fd x nfd lk nid) = (alone ofd l s i fd x \<and> fs_names s p = Some (snd x) \<and> nfd \<noteq> fd \<and>
     (\<exists>y. fs_files s (i, nfd) = Some y \<and> fs_names s n = Some y \<and> (lk \<longrightarrow> fs_locks s (i, nfd) = Some F_WRLCK) \<and>
       (\<forall>z. nid = Some z \<longrightarrow> z = (fs_dev s, y))))"
| "at_phase ofd l p n s i (Removing fd x nfd) = (same ofd l s i fd x \<and> nfd \<noteq> fd)"
| "at_phase ofd l p n s i (Swapped fd nfd y) = (alone ofd l s i nfd y \<and> nfd \<noteq> fd)"
| "at_phase ofd l p n s i (Reopen fd x nfd) = (calm ofd s i fd x \<and> nfd \<noteq> fd)"
| "at_phase ofd l p n s i (ReopenId fd x nfd y old) = (calm ofd s i fd x \<and> nfd \<noteq> fd \<and> has_file s i nfd y \<and> (old \<longrightarrow> \<not> ofd))"

lemmas at_defs = has_file_def calm_def same_def alone_def

text \<open>Phases with an exclusive lock, and phases in which the log is known to be the file.\<close>

fun exclusive :: "phase \<Rightarrow> fd option" where
  "exclusive (Alone fd x) = Some fd"
| "exclusive (Linked fd x) = Some fd"
| "exclusive (Fresh fd x nfd lk nid) = Some fd"
| "exclusive _ = None"

fun sure :: "phase \<Rightarrow> fd option" where
  "sure (Same fd x) = Some fd"
| "sure (Removing fd x nfd) = Some fd"
| "sure (Swapped fd nfd y) = Some nfd"
| "sure ph = exclusive ph"

lemma exclusive_at:
  "at_phase ofd l p n s i ph \<Longrightarrow> exclusive ph = Some fd \<Longrightarrow>
   ofd \<and> (\<exists>x. fs_files s (i, fd) = Some x \<and> fs_names s l = Some x \<and> fs_locks s (i, fd) = Some F_WRLCK)"
  by (cases ph) (auto simp: at_defs)

lemma sure_at:
  "at_phase ofd l p n s i ph \<Longrightarrow> sure ph = Some fd \<Longrightarrow>
   \<exists>x. fs_files s (i, fd) = Some x \<and> fs_names s l = Some x \<and> (ofd \<longrightarrow> fs_locks s (i, fd) \<noteq> None)"
  by (cases ph) (auto simp: at_defs)

text \<open>If one logger has the exclusive lock, no other one knows the log.\<close>

lemma exclusive_excludes:
  assumes "locks_ok s" and "at_phase ofd l p n s i ph" and "exclusive ph = Some fd"
    and "at_phase ofd l p n s j ph'" and "sure ph' = Some fd'"
  shows "i = j"
proof (rule ccontr)
  assume ij: "i \<noteq> j"
  obtain x where x: "ofd" "fs_files s (i, fd) = Some x" "fs_names s l = Some x" "fs_locks s (i, fd) = Some F_WRLCK"
    using exclusive_at [OF assms(2,3)] by auto
  obtain u where "fs_files s (j, fd') = Some x" "fs_locks s (j, fd') = Some u" using sure_at [OF assms(4,5)] x(1,3) by auto
  moreover have "(i, fd) \<noteq> (j, fd')" using ij by simp
  ultimately show False using assms(1) x(2,4) unfolding locks_ok_def by blast
qed

text \<open>What another process can do to a phase.\<close>

lemma at_phase_cong:
  assumes "at_phase ofd l p n s i ph" and "fs_dev s' = fs_dev s" and "\<And>f. fs_files s' (i, f) = fs_files s (i, f)"
    and "\<And>f. fs_locks s' (i, f) = fs_locks s (i, f)" and "fs_names s' = fs_names s \<or> sure ph = None"
  shows "at_phase ofd l p n s' i ph"
  using assms by (cases ph) (auto simp: at_defs)

lemma fs_step_frame:
  "fs_step ofd i s c a s' \<Longrightarrow> fs_dev s' = fs_dev s \<and> (\<forall>j f. j \<noteq> i \<longrightarrow> fs_files s' (j, f) = fs_files s (j, f) \<and> fs_locks s' (j, f) = fs_locks s (j, f))"
  by (induction rule: fs_step.induct) auto

text \<open>Names change in an exclusive phase only.\<close>

lemma names_change:
  assumes "fs_step ofd i s c a s'" and "allowed l p n ph c" and "fs_names s l \<noteq> None"
  shows "fs_names s' = fs_names s \<or> exclusive ph \<noteq> None"
  using assms by (cases rule: fs_step.cases) (auto simp: allowed_def split: phase.splits)

lemma fs_step_locks:
  assumes "fs_step ofd i s c a s'" and "locks_ok s"
  shows "locks_ok s'"
  using assms(1)
proof cases
  case (fs_lock cmd f x t)
  have g: "t = F_RDLCK \<and> u = F_RDLCK" if "e \<noteq> (i, f)" "fs_files s e = Some x" "fs_locks s e = Some u" for e u
    using fs_lock that unfolding grantable_def by metis
  show ?thesis unfolding locks_ok_def
  proof (intro allI impI)
    fix d e y u v
    assume a: "d \<noteq> e" "fs_files s' d = Some y" "fs_files s' e = Some y" "fs_locks s' d = Some u" "fs_locks s' e = Some v"
    have other: "fs_files s' b = fs_files s b" "b \<noteq> (i, f) \<Longrightarrow> fs_locks s' b = fs_locks s b" for b using fs_lock by auto
    have new: "fs_files s' (i, f) = Some x" "fs_locks s' (i, f) = Some t" using fs_lock by auto
    consider "d = (i, f)" | "e = (i, f)" | "d \<noteq> (i, f)" "e \<noteq> (i, f)" by blast
    then show "u = F_RDLCK \<and> v = F_RDLCK"
    proof cases
      case 1
      then have "e \<noteq> (i, f)" "u = t" "y = x" using a new by auto
      then show ?thesis using g [of e v] a other by simp
    next
      case 2
      then have "d \<noteq> (i, f)" "v = t" "y = x" using a new by auto
      then show ?thesis using g [of d u] a other by simp
    next
      case 3
      then have "fs_files s d = Some y" "fs_files s e = Some y" "fs_locks s d = Some u" "fs_locks s e = Some v" using a other by auto
      then show ?thesis using assms(2) a(1) unfolding locks_ok_def by blast
    qed
  qed
qed (use assms(2) in \<open>auto simp: locks_ok_def split: if_splits\<close>)

text \<open>A logger that follows the protocol is afterwards in the next phase.\<close>

lemma own_step:
  assumes "fs_step ofd i s c a s'" and "allowed l p n ph c" and "at_phase ofd l p n s i ph"
    and "fs_names s l \<noteq> None" and "distinct [l, p, n]"
  shows "at_phase ofd l p n s' i (advance ph c a) \<and> fs_names s' l \<noteq> None"
  using assms(1)
proof cases
  case fs_fail
  then show ?thesis using assms(2-5)
    by (cases c; cases ph) (auto simp: allowed_def advance_def ok_def is_error_def is_ofd_lock_def at_defs split: answer.splits sum.splits if_splits)
next
  case fs_neutral
  then show ?thesis using assms(3,4) by (simp add: neutral_allowed)
next
  case (fs_stat q x st)
  then show ?thesis using assms(2-5) by (cases ph) (auto simp: allowed_def advance_def at_defs)
next
  case (fs_fstat f x st)
  then show ?thesis using assms(2-5) by (cases ph) (auto simp: allowed_def advance_def at_defs)
next
  case (fs_open q x k)
  then show ?thesis using assms(2-5) by (cases ph) (auto simp: allowed_def advance_def at_defs)
next
  case (fs_create q k x excl)
  then show ?thesis using assms(2-5) by (cases ph) (auto simp: allowed_def advance_def at_defs)
next
  case (fs_lock cmd f x t)
  then show ?thesis using assms(2-5) by (cases ph) (auto simp: allowed_def advance_def ok_def at_defs)
next
  case (fs_setlkw f t)
  then show ?thesis using assms(2-5) by (cases ph) (auto simp: allowed_def advance_def ok_def at_defs split: if_splits)
next
  case (fs_unlink q)
  then show ?thesis using assms(2-5) by (cases ph) (auto simp: allowed_def advance_def at_defs)
next
  case (fs_link q x r)
  then show ?thesis using assms(2-5) by (cases ph) (auto simp: allowed_def advance_def ok_def at_defs)
next
  case (fs_rename q x r)
  then show ?thesis using assms(2-5) by (cases ph) (auto simp: allowed_def advance_def ok_def at_defs)
next
  case (fs_rename_same q x r)
  then show ?thesis using assms(2-5) by (cases ph) (auto simp: allowed_def advance_def ok_def at_defs)
next
  case (fs_close f)
  then show ?thesis using assms(2-5) by (cases ph) (auto simp: allowed_def advance_def at_defs)
qed

text \<open>Every running logger is in some phase of the protocol.\<close>

definition invariant :: "string \<Rightarrow> string \<Rightarrow> string \<Rightarrow> bool \<Rightarrow> log_fs \<times> (nat \<rightharpoonup> process) \<Rightarrow> bool" where
  "invariant l p n ofd S = (fs_names (fst S) l \<noteq> None \<and> locks_ok (fst S) \<and>
     (\<exists>phases. \<forall>i q. snd S i = Some q \<longrightarrow> at_phase ofd l p n (fst S) i (phases i) \<and> follows l p n (\<lambda>_ _. True) (phases i) q))"

lemma invariantI:
  assumes "\<And>j q. run j = Some q \<Longrightarrow> at_phase ofd l p n s j (phases j) \<and> follows l p n (\<lambda>_ _. True) (phases j) q"
    and "fs_names s l \<noteq> None" and "locks_ok s"
  shows "invariant l p n ofd (s, run)"
  unfolding invariant_def using assms by (intro conjI exI [of _ phases]) auto

lemma invariant_init: "initial l S \<Longrightarrow> invariant l p n ofd S"
  by (simp add: initial_def invariant_def locks_ok_def)

lemma invariant_next:
  assumes "invariant l p n ofd (s, run)" and "run i = Some (Call c k)" and "fs_step ofd i s c a s'" and "answers c a" and "distinct [l, p, n]"
  shows "invariant l p n ofd (s', run(i \<mapsto> k a))"
proof -
  obtain phases where ph: "\<And>j q. run j = Some q \<Longrightarrow> at_phase ofd l p n s j (phases j) \<and> follows l p n (\<lambda>_ _. True) (phases j) q"
    and s: "fs_names s l \<noteq> None" "locks_ok s" using assms(1) by (auto simp: invariant_def)
  have i: "at_phase ofd l p n s i (phases i)" "allowed l p n (phases i) c" "follows l p n (\<lambda>_ _. True) (advance (phases i) c a) (k a)"
    using ph [OF assms(2)] assms(4) by auto
  note own = own_step [OF assms(3) i(2,1) s(1) assms(5)]
  let ?ph = "phases(i := advance (phases i) c a)"
  have "at_phase ofd l p n s' j (?ph j) \<and> follows l p n (\<lambda>_ _. True) (?ph j) q" if q: "(run(i \<mapsto> k a)) j = Some q" for j q
  proof (cases "j = i")
    case True
    then show ?thesis using own i(3) q by simp
  next
    case False
    then have j: "at_phase ofd l p n s j (phases j)" "follows l p n (\<lambda>_ _. True) (phases j) q" using ph q by auto
    have "fs_names s' = fs_names s \<or> sure (phases j) = None"
      using names_change [OF assms(3) i(2) s(1)] exclusive_excludes [OF s(2) i(1) _ j(1)] False by fastforce
    then have "at_phase ofd l p n s' j (phases j)"
      using fs_step_frame [OF assms(3)] False by (intro at_phase_cong [OF j(1)]) auto
    then show ?thesis using j(2) False by simp
  qed
  then show ?thesis using own fs_step_locks [OF assms(3) s(2)] by (intro invariantI [where phases = ?ph]) auto
qed

lemma invariant_others:
  assumes "invariant l p n ofd (s, run)" and "fs_names s' = fs_names s" and "fs_dev s' = fs_dev s" and "locks_ok s'"
    and "\<And>j f. j \<noteq> i \<Longrightarrow> fs_files s' (j, f) = fs_files s (j, f) \<and> fs_locks s' (j, f) = fs_locks s (j, f)"
    and "\<And>q. run' i = Some q \<Longrightarrow> \<exists>ph. at_phase ofd l p n s' i ph \<and> follows l p n (\<lambda>_ _. True) ph q"
    and "\<And>j. j \<noteq> i \<Longrightarrow> run' j = run j"
  shows "invariant l p n ofd (s', run')"
proof -
  obtain phases where ph: "\<And>j q. run j = Some q \<Longrightarrow> at_phase ofd l p n s j (phases j) \<and> follows l p n (\<lambda>_ _. True) (phases j) q"
    and s: "fs_names s l \<noteq> None" using assms(1) by (auto simp: invariant_def)
  have "\<exists>x. \<forall>q. run' i = Some q \<longrightarrow> at_phase ofd l p n s' i x \<and> follows l p n (\<lambda>_ _. True) x q"
    using assms(6) by (cases "run' i") auto
  then obtain x where x: "\<And>q. run' i = Some q \<Longrightarrow> at_phase ofd l p n s' i x \<and> follows l p n (\<lambda>_ _. True) x q" by blast
  have "at_phase ofd l p n s' j ((phases(i := x)) j) \<and> follows l p n (\<lambda>_ _. True) ((phases(i := x)) j) q" if "run' j = Some q" for j q
    using x that ph [of j q] assms(2,3,5,7) at_phase_cong [of ofd l p n s j "phases j" s'] by (cases "j = i") auto
  then show ?thesis using s assms(2,4) by (intro invariantI [where phases = "phases(i := x)"]) auto
qed

lemma invariant_step:
  assumes "system_step l p n ofd S T" and "invariant l p n ofd S" and "distinct [l, p, n]"
  shows "invariant l p n ofd T"
  using assms(1)
proof cases
  case (starts run i s x self original_stdout G input reads)
  let ?fd = "lg_file_fd self"
  let ?s = "s\<lparr> fs_files := (fs_files s)((i, ?fd) \<mapsto> x), fs_locks := (fs_locks s)((i, ?fd) := None) \<rparr>"
  have inv: "invariant l p n ofd (s, run)" using assms(2) starts(1) by simp
  have l: "locks_ok ?s" using inv by (auto simp: invariant_def locks_ok_def split: if_splits)
  have "follows l p n (\<lambda>_ _. True) (Opened ?fd (ident (lg_file_stat self)) False) (srt_logger_serve G input reads original_stdout self)"
    by (rule serve_follows [OF starts(5,7)])
  moreover have "at_phase ofd l p n ?s i (Opened ?fd (ident (lg_file_stat self)) False)" using starts(6) by (simp add: has_file_def)
  ultimately have phase: "\<exists>ph. at_phase ofd l p n ?s i ph \<and> follows l p n (\<lambda>_ _. True) ph (srt_logger_serve G input reads original_stdout self)"
    by blast
  have "invariant l p n ofd (?s, run(i \<mapsto> srt_logger_serve G input reads original_stdout self))"
    by (rule invariant_others [OF inv _ _ l, of i]) (use phase in auto)
  then show ?thesis using starts(2) by simp
next
  case (calls_next run i c k s a s')
  then show ?thesis using assms(2,3) invariant_next by blast
next
  case (ends s run i)
  have inv: "invariant l p n ofd (s, run)" using assms(2) ends(1) by simp
  have "locks_ok (fst T)" using inv ends(2) by (auto simp: invariant_def locks_ok_def split: if_splits prod.splits)
  then show ?thesis unfolding ends(2) by (intro invariant_others [OF inv, of _ i]) auto
qed

lemma invariant_reachable: "reachable l p n ofd S \<Longrightarrow> distinct [l, p, n] \<Longrightarrow> invariant l p n ofd S"
  by (induction rule: reachable.induct) (auto intro: invariant_init invariant_step)

section \<open>Rotations are safe\<close>

text \<open>The next call of a logger changes names.\<close>

fun changes_names :: "call \<Rightarrow> bool" where
  "changes_names (C_unlink q) = True"
| "changes_names (C_link q r) = True"
| "changes_names (C_rename q r) = True"
| "changes_names (C_open q excl) = excl"
| "changes_names c = False"

lemma changes_names_exclusive: "allowed l p n ph c \<Longrightarrow> changes_names c \<Longrightarrow> exclusive ph \<noteq> None"
  by (cases c; cases ph) (auto simp: allowed_def)

lemma exclusive_sure: "exclusive ph \<noteq> None \<Longrightarrow> sure ph = exclusive ph"
  by (cases ph) auto

text \<open>C12: However many loggers share a log, in whatever order their calls are made, whichever calls fail and
  whoever is killed: the log always has its name, and at most one logger is about to change names, and while
  it is, no other process has a lock on the log.\<close>

theorem loggers_exclude_each_other:
  assumes "reachable l p n ofd (s, run)" and "distinct [l, p, n]"
  shows "fs_names s l \<noteq> None \<and>
    (\<forall>i c k. run i = Some (Call c k) \<longrightarrow> changes_names c \<longrightarrow>
       (\<forall>j d k'. run j = Some (Call d k') \<longrightarrow> changes_names d \<longrightarrow> i = j) \<and>
       (\<forall>j f. j \<noteq> i \<longrightarrow> fs_files s (j, f) = fs_names s l \<longrightarrow> fs_locks s (j, f) = None))"
proof -
  have inv: "invariant l p n ofd (s, run)" by (rule invariant_reachable [OF assms])
  then obtain phases where ph: "\<And>j q. run j = Some q \<Longrightarrow> at_phase ofd l p n s j (phases j) \<and> follows l p n (\<lambda>_ _. True) (phases j) q"
    and s: "fs_names s l \<noteq> None" "locks_ok s" by (auto simp: invariant_def)
  have ex: "\<exists>fd. exclusive (phases i) = Some fd" if "run i = Some (Call c k)" "changes_names c" for i c k
    using ph [OF that(1)] changes_names_exclusive [OF _ that(2)] by fastforce
  have "i = j" if i: "run i = Some (Call c k)" "changes_names c" and j: "run j = Some (Call d k')" "changes_names d" for i c k j d k'
  proof -
    obtain fd fd' where e: "exclusive (phases i) = Some fd" "exclusive (phases j) = Some fd'" using ex [OF i] ex [OF j] by blast
    have "sure (phases j) = Some fd'" using exclusive_sure [of "phases j"] e(2) by simp
    then show ?thesis using exclusive_excludes [OF s(2) _ e(1)] ph [OF i(1)] ph [OF j(1)] by blast
  qed
  moreover have "fs_locks s (j, f) = None"
    if i: "run i = Some (Call c k)" "changes_names c" and j: "j \<noteq> i" "fs_files s (j, f) = fs_names s l" for i c k j f
  proof (rule ccontr)
    assume "fs_locks s (j, f) \<noteq> None"
    then obtain u where u: "fs_locks s (j, f) = Some u" by auto
    obtain fd where e: "exclusive (phases i) = Some fd" using ex [OF i] by blast
    have "at_phase ofd l p n s i (phases i)" using ph [OF i(1)] by blast
    from exclusive_at [OF this e] obtain x where "fs_files s (i, fd) = Some x" "fs_names s l = Some x" "fs_locks s (i, fd) = Some F_WRLCK" by auto
    moreover have "(i, fd) \<noteq> (j, f)" using j(1) by simp
    ultimately show False using s(2) j(2) u unfolding locks_ok_def by (metis lock_type.distinct(1))
  qed
  ultimately show ?thesis using s(1) by blast
qed

lemma rotation_phase:
  assumes "fs_step ofd i s c a s'" and "allowed l p n ph c" and "at_phase ofd l p n s i ph" and "fs_names s l \<noteq> None" and "distinct [l, p, n]"
  shows "fs_names s' l = fs_names s l \<or> fs_names s' p = fs_names s l"
  using assms(1)
proof cases
  case (fs_create q k x excl)
  then show ?thesis using assms(2-5) by (auto simp: allowed_def split: phase.splits)
next
  case (fs_unlink q)
  then show ?thesis using assms(2-5) by (auto simp: allowed_def split: phase.splits)
next
  case (fs_link q x r)
  then show ?thesis using assms(2-5) by (auto simp: allowed_def split: phase.splits)
next
  case (fs_rename q x r)
  then show ?thesis using assms(2-5) by (cases ph) (auto simp: allowed_def at_defs)
qed auto

text \<open>C11: No step of any logger takes the file with the name of the log away: either it keeps the name, or the
  step is the rename of a rotation, and the file has the previous name afterwards.\<close>

theorem rotation_keeps_the_old_log:
  assumes "reachable l p n ofd (s, run)" and "system_step l p n ofd (s, run) (s', run')" and "distinct [l, p, n]"
  shows "fs_names s' l = fs_names s l \<or> fs_names s' p = fs_names s l"
proof -
  have inv: "invariant l p n ofd (s, run)" by (rule invariant_reachable [OF assms(1,3)])
  then obtain phases where ph: "\<And>j q. run j = Some q \<Longrightarrow> at_phase ofd l p n s j (phases j) \<and> follows l p n (\<lambda>_ _. True) (phases j) q"
    and s: "fs_names s l \<noteq> None" by (auto simp: invariant_def)
  show ?thesis using assms(2)
  proof cases
    case (calls_next i c k a)
    then show ?thesis using ph [OF calls_next(2)] rotation_phase [OF calls_next(3) _ _ s assms(3)] by auto
  qed auto
qed

section \<open>A rotation\<close>

text \<open>What is left of a program after some calls.\<close>

fun after :: "trace \<Rightarrow> 'a prog \<Rightarrow> 'a prog option" where
  "after [] r = Some r"
| "after ((c, a) # tr) (Call d k) = (if c = d then after tr (k a) else None)"
| "after (_ # tr) r = None"

lemma after_bind: "after tr r = Some q \<Longrightarrow> after tr (pbind r f) = Some (pbind q f)"
  by (induction tr r rule: after.induct) (auto split: if_splits)

lemma after_append: "after tr r = Some q \<Longrightarrow> after (tr @ tr') r = after tr' q"
  by (induction tr r rule: after.induct) (auto split: if_splits)

fun fs_run :: "bool \<Rightarrow> nat \<Rightarrow> log_fs \<Rightarrow> trace \<Rightarrow> log_fs \<Rightarrow> bool" where
  "fs_run ofd i s [] s' = (s' = s)"
| "fs_run ofd i s ((c, a) # tr) s' = (\<exists>t. fs_step ofd i s c a t \<and> answers c a \<and> fs_run ofd i t tr s')"

lemma reachable_run:
  "reachable l p n ofd (s, run) \<Longrightarrow> run i = Some r \<Longrightarrow> after tr r = Some q \<Longrightarrow> fs_run ofd i s tr s' \<Longrightarrow>
   reachable l p n ofd (s', run(i \<mapsto> q))"
proof (induction tr r arbitrary: s run rule: after.induct)
  case (1 r)
  then have "run(i \<mapsto> q) = run" by auto
  then show ?case using 1 by simp
next
  case (2 c a tr d k)
  then obtain t where t: "c = d" "fs_step ofd i s d a t" "answers d a" "fs_run ofd i t tr s'" "after tr (k a) = Some q"
    by (auto split: if_splits)
  have "reachable l p n ofd (t, run(i \<mapsto> k a))"
    by (rule reachable_step [OF "2.prems"(1)], rule calls_next [OF _ t(2,3)]) (use "2.prems"(2) in simp)
  from "2.IH" [OF t(1) this _ t(5,4)] show ?case by (simp only: fun_upd_same fun_upd_upd)
qed auto

text \<open>One logger, a log of 10 bytes and a limit of 11, and a line of two bytes.\<close>

definition demo_rotating :: logger where
  "demo_rotating = srt_logger_init\<lparr> lg_filename := Some ''a.txt'', lg_previous_filename := Some ''a.previous.txt'',
     lg_new_filename := Some ''.a.new.txt'', lg_log_dir := Some ''/l'', lg_file_fd := 4, lg_file_stat := no_stat\<lparr> st_ino := 7 \<rparr>, lg_max_bytes := 11,
     lg_use_file := True, lg_timestamps := False \<rparr>"

definition demo_fs :: log_fs where
  "demo_fs = \<lparr> fs_dev = 0, fs_names = [''a.txt'' \<mapsto> 7], fs_files = Map.empty, fs_locks = Map.empty \<rparr>"

lemma demo_loop: "\<exists>g. process_loop demo_rotating line_state_init [CHR ''x'', newline] [Inr 1] = pbind (check_file ''a.txt'' 2 demo_rotating) g"
proof -
  let ?ls = "line_state_init\<lparr> ls_buf := [CHR ''x'', newline], ls_start := 0 \<rparr>"
  have line: "process_line [CHR ''x'', newline] demo_rotating ?ls =
      pbind (check_file ''a.txt'' 2 demo_rotating) (\<lambda>s. pbind (write_file_line 0 [CHR ''x'', newline] s) (\<lambda>s2. Ret (s2, 0, LOG_INFO)))"
    by (simp add: process_line_def line_state_init_def demo_rotating_def srt_logger_init_def logger_parse_level_prefix_def
        logger_process_partial_line_def logger_process_complete_line_def SRT_SYSLOG_LEVEL_DEFAULT_LINE_def
        SRT_SYSLOG_LEVEL_DEFAULT_FILE_def LOG_INFO_def LOG_DEBUG_def pbind_assoc numeral_2_eq_2)
  have n: "next_line False ?ls = Some ([CHR ''x'', newline], False)"
    by (simp add: next_line_def line_state_init_def newline_def)
  have lines: "\<exists>g. process_lines False demo_rotating ?ls = pbind (check_file ''a.txt'' 2 demo_rotating) g"
    by (subst process_lines.simps) (use n line in \<open>auto simp: line_state_init_def pbind_assoc\<close>)
  then obtain g where g: "process_lines False demo_rotating ?ls = pbind (check_file ''a.txt'' 2 demo_rotating) g" ..
  have "read_stdin [CHR ''x'', newline] 1 (LINE_MAX - 0) = [CHR ''x'', newline]" by (simp add: read_stdin_def LINE_MAX_def)
  moreover have "ls_buf line_state_init = []" "ls_start line_state_init = 0" by (simp_all add: line_state_init_def)
  ultimately have "\<exists>h. process_loop demo_rotating line_state_init [CHR ''x'', newline] [Inr 1] = pbind (process_lines False demo_rotating ?ls) h"
    by (auto simp: demo_rotating_def srt_logger_init_def Let_def LINE_MAX_def)
  then show ?thesis unfolding g by (auto simp: pbind_assoc)
qed

definition demo_program :: process where
  "demo_program = srt_logger_serve glib_ref [CHR ''x'', newline] [Inr 1] (- 1) demo_rotating"

definition inode_stat :: "nat \<Rightarrow> stat" where "inode_stat x = no_stat\<lparr> st_ino := x, st_size := 10 \<rparr>"

definition demo_start :: trace where
  "demo_start = [(C_chdir ''/l'', A_unit (Inr ())), (C_lock 4 F_OFD_SETLKW F_RDLCK, A_unit (Inr ()))]"

definition demo_rotation :: trace where
  "demo_rotation = [(C_stat ''a.txt'', A_stat (Inr (inode_stat 7))), (C_lock 4 F_OFD_SETLK F_WRLCK, A_unit (Inr ())),
     (C_unlink ''a.previous.txt'', A_unit (Inl ENOENT)), (C_link ''a.txt'' ''a.previous.txt'', A_unit (Inr ())),
     (C_open ''.a.new.txt'' True, A_fd (Inr 5)), (C_lock 5 F_OFD_SETLK F_WRLCK, A_unit (Inr ())), (C_fstat 5, A_stat (Inr (inode_stat 8)))]"

lemma demo_starts: "after demo_start demo_program = Some (process_loop demo_rotating line_state_init [CHR ''x'', newline] [Inr 1])"
  by (simp add: demo_start_def demo_program_def srt_logger_serve_def enter_log_dir_def lock_output_file_def call_unit_def close_fd_def
      demo_rotating_def srt_logger_init_def del: process_loop.simps)

lemma demo_rotates: "\<exists>k. after demo_rotation (check_file ''a.txt'' 2 demo_rotating) = Some (Call (C_rename ''.a.new.txt'' ''a.txt'') k)"
proof -
  have s: "lg_file_fd demo_rotating = 4" "lg_max_bytes demo_rotating = 11" "lg_filename demo_rotating = Some ''a.txt''"
    "lg_previous_filename demo_rotating = Some ''a.previous.txt''" "lg_new_filename demo_rotating = Some ''.a.new.txt''"
    "srt_is_same_stat (inode_stat 7) (lg_file_stat demo_rotating)" "st_size (inode_stat 7) = 10"
    by (simp_all add: demo_rotating_def srt_logger_init_def srt_is_same_stat_def inode_stat_def no_stat_def)
  show ?thesis
    by (simp add: demo_rotation_def check_file_def srt_logger_try_rotate_def rotate_link_def rotate_replace_def Let_def
        call_unit_def call_stat_def call_fd_def s)
qed

text \<open>The kernel after each call of the example.\<close>

definition demo_files :: "(nat \<times> fd \<rightharpoonup> lock_type) \<Rightarrow> (string \<rightharpoonup> nat) \<Rightarrow> (nat \<times> fd \<rightharpoonup> nat) \<Rightarrow> log_fs" where
  "demo_files locks names files = \<lparr> fs_dev = 0, fs_names = names, fs_files = files, fs_locks = locks \<rparr>"

lemma demo_fs_run:
  "fs_run True 0 (demo_files [(0, 4) \<mapsto> F_RDLCK] [''a.txt'' \<mapsto> 7] [(0, 4) \<mapsto> 7]) demo_rotation
     (demo_files [(0, 4) \<mapsto> F_WRLCK, (0, 5) \<mapsto> F_WRLCK] [''a.txt'' \<mapsto> 7, ''a.previous.txt'' \<mapsto> 7, ''.a.new.txt'' \<mapsto> 8]
        [(0, 4) \<mapsto> 7, (0, 5) \<mapsto> 8])"
proof -
  let ?n1 = "[''a.txt'' \<mapsto> 7]" and ?f1 = "[(0, 4) \<mapsto> 7] :: nat \<times> fd \<rightharpoonup> nat"
  let ?n2 = "[''a.txt'' \<mapsto> 7, ''a.previous.txt'' \<mapsto> 7]" and ?n3 = "[''a.txt'' \<mapsto> 7, ''a.previous.txt'' \<mapsto> 7, ''.a.new.txt'' \<mapsto> 8]"
  let ?f2 = "[(0, 4) \<mapsto> 7, (0, 5) \<mapsto> 8] :: nat \<times> fd \<rightharpoonup> nat"
  let ?l1 = "[(0, 4) \<mapsto> F_RDLCK] :: nat \<times> fd \<rightharpoonup> lock_type" and ?l2 = "[(0, 4) \<mapsto> F_WRLCK] :: nat \<times> fd \<rightharpoonup> lock_type"
  let ?l3 = "[(0, 4) \<mapsto> F_WRLCK, (0, 5) \<mapsto> F_WRLCK] :: nat \<times> fd \<rightharpoonup> lock_type"
  have "fs_step True 0 (demo_files ?l1 ?n1 ?f1) (C_stat ''a.txt'') (A_stat (Inr (inode_stat 7))) (demo_files ?l1 ?n1 ?f1)"
    by (rule fs_stat [where x = 7]) (simp_all add: demo_files_def inode_stat_def no_stat_def ident_def)
  moreover have "fs_step True 0 (demo_files ?l1 ?n1 ?f1) (C_lock 4 F_OFD_SETLK F_WRLCK) (A_unit (Inr ())) (demo_files ?l2 ?n1 ?f1)"
    using fs_lock [of True F_OFD_SETLK "demo_files ?l1 ?n1 ?f1" 0 4 7 F_WRLCK] by (simp add: demo_files_def grantable_def)
  moreover have "fs_step True 0 (demo_files ?l2 ?n1 ?f1) (C_unlink ''a.previous.txt'') (A_unit (Inl ENOENT)) (demo_files ?l2 ?n1 ?f1)"
    by (rule fs_fail) (simp_all add: is_error_def is_ofd_lock_def)
  moreover have "fs_step True 0 (demo_files ?l2 ?n1 ?f1) (C_link ''a.txt'' ''a.previous.txt'') (A_unit (Inr ())) (demo_files ?l2 ?n2 ?f1)"
    using fs_link [of "demo_files ?l2 ?n1 ?f1" "''a.txt''" 7 "''a.previous.txt''" True 0] by (simp add: demo_files_def)
  moreover have "fs_step True 0 (demo_files ?l2 ?n2 ?f1) (C_open ''.a.new.txt'' True) (A_fd (Inr 5)) (demo_files ?l2 ?n3 ?f2)"
    using fs_create [of "demo_files ?l2 ?n2 ?f1" "''.a.new.txt''" 0 5 8 True True] by (simp add: demo_files_def fun_upd_idem)
  moreover have "fs_step True 0 (demo_files ?l2 ?n3 ?f2) (C_lock 5 F_OFD_SETLK F_WRLCK) (A_unit (Inr ())) (demo_files ?l3 ?n3 ?f2)"
    using fs_lock [of True F_OFD_SETLK "demo_files ?l2 ?n3 ?f2" 0 5 8 F_WRLCK] by (simp add: demo_files_def grantable_def)
  moreover have "fs_step True 0 (demo_files ?l3 ?n3 ?f2) (C_fstat 5) (A_stat (Inr (inode_stat 8))) (demo_files ?l3 ?n3 ?f2)"
    by (rule fs_fstat [where x = 8]) (simp_all add: demo_files_def inode_stat_def no_stat_def ident_def)
  ultimately show ?thesis unfolding demo_rotation_def fs_run.simps by (intro exI conjI) (assumption | simp)+
qed

abbreviation demo_names :: "string \<rightharpoonup> nat" where
  "demo_names \<equiv> [''a.txt'' \<mapsto> 7, ''a.previous.txt'' \<mapsto> 7, ''.a.new.txt'' \<mapsto> 8]"

abbreviation demo_ready :: log_fs where
  "demo_ready \<equiv> demo_files [(0, 4) \<mapsto> F_WRLCK, (0, 5) \<mapsto> F_WRLCK] demo_names [(0, 4) \<mapsto> 7, (0, 5) \<mapsto> 8]"

text \<open>The logger gets as far as the rename of a rotation.\<close>

lemma demo_reachable:
  "\<exists>k. reachable ''a.txt'' ''a.previous.txt'' ''.a.new.txt'' True (demo_ready, [0 \<mapsto> Call (C_rename ''.a.new.txt'' ''a.txt'') k])"
proof -
  let ?R = "reachable ''a.txt'' ''a.previous.txt'' ''.a.new.txt'' True"
  let ?n1 = "[''a.txt'' \<mapsto> 7]" and ?f1 = "[(0, 4) \<mapsto> 7] :: nat \<times> fd \<rightharpoonup> nat"
  obtain g where g: "process_loop demo_rotating line_state_init [CHR ''x'', newline] [Inr 1] = pbind (check_file ''a.txt'' 2 demo_rotating) g"
    using demo_loop by blast
  obtain k where k: "after demo_rotation (check_file ''a.txt'' 2 demo_rotating) = Some (Call (C_rename ''.a.new.txt'' ''a.txt'') k)"
    using demo_rotates by blast
  have "?R (demo_files Map.empty ?n1 Map.empty, Map.empty)"
    by (rule reachable_init) (simp add: initial_def demo_files_def)
  moreover have "system_step ''a.txt'' ''a.previous.txt'' ''.a.new.txt'' True (demo_files Map.empty ?n1 Map.empty, Map.empty)
      (demo_files Map.empty ?n1 ?f1, [0 \<mapsto> demo_program])"
    using starts [of Map.empty 0 "demo_files Map.empty ?n1 Map.empty" "''a.txt''" 7 "''a.previous.txt''" "''.a.new.txt''" demo_rotating "- 1"
        True glib_ref "[CHR ''x'', newline]" "[Inr 1]"]
    by (simp add: demo_files_def set_up_def named_def demo_rotating_def srt_logger_init_def ident_def no_stat_def demo_program_def)
  ultimately have started: "?R (demo_files Map.empty ?n1 ?f1, [0 \<mapsto> demo_program])" by (rule reachable_step)
  have "fs_step True 0 (demo_files Map.empty ?n1 ?f1) (C_chdir ''/l'') (A_unit (Inr ())) (demo_files Map.empty ?n1 ?f1)"
    by (rule fs_neutral) simp_all
  moreover have "fs_step True 0 (demo_files Map.empty ?n1 ?f1) (C_lock 4 F_OFD_SETLKW F_RDLCK) (A_unit (Inr ())) (demo_files [(0, 4) \<mapsto> F_RDLCK] ?n1 ?f1)"
    using fs_lock [of True F_OFD_SETLKW "demo_files Map.empty ?n1 ?f1" 0 4 7 F_RDLCK] by (simp add: demo_files_def grantable_def)
  ultimately have "fs_run True 0 (demo_files Map.empty ?n1 ?f1) demo_start (demo_files [(0, 4) \<mapsto> F_RDLCK] ?n1 ?f1)"
    unfolding demo_start_def fs_run.simps by (intro exI conjI) (assumption | simp)+
  from reachable_run [OF started _ demo_starts [unfolded g] this]
  have locked: "?R (demo_files [(0, 4) \<mapsto> F_RDLCK] ?n1 ?f1, [0 \<mapsto> pbind (check_file ''a.txt'' 2 demo_rotating) g])" by simp
  from reachable_run [OF this _ after_bind [OF k] demo_fs_run]
  have "?R (demo_ready, [0 \<mapsto> pbind (Call (C_rename ''.a.new.txt'' ''a.txt'') k) g])" by simp
  then show ?thesis by auto
qed

theorem loggers_exclude_each_other_witness:
  "\<exists>k. fs_names demo_ready ''a.txt'' \<noteq> None \<and>
     reachable ''a.txt'' ''a.previous.txt'' ''.a.new.txt'' True (demo_ready, [0 \<mapsto> Call (C_rename ''.a.new.txt'' ''a.txt'') k]) \<and>
     fs_locks demo_ready (1, 4) = None"
proof -
  obtain k where k: "reachable ''a.txt'' ''a.previous.txt'' ''.a.new.txt'' True (demo_ready, [0 \<mapsto> Call (C_rename ''.a.new.txt'' ''a.txt'') k])"
    using demo_reachable by blast
  have d: "distinct [''a.txt'', ''a.previous.txt'', ''.a.new.txt'']" by simp
  show ?thesis using loggers_exclude_each_other [OF k d] k by (auto simp: demo_files_def)
qed

theorem rotation_keeps_the_old_log_witness:
  "\<exists>s' run k. reachable ''a.txt'' ''a.previous.txt'' ''.a.new.txt'' True (demo_ready, [0 \<mapsto> Call (C_rename ''.a.new.txt'' ''a.txt'') k]) \<and>
     system_step ''a.txt'' ''a.previous.txt'' ''.a.new.txt'' True (demo_ready, [0 \<mapsto> Call (C_rename ''.a.new.txt'' ''a.txt'') k]) (s', run) \<and>
     fs_names s' ''a.txt'' = Some 8 \<and> fs_names s' ''a.previous.txt'' = Some 7"
proof -
  obtain k where k: "reachable ''a.txt'' ''a.previous.txt'' ''.a.new.txt'' True (demo_ready, [0 \<mapsto> Call (C_rename ''.a.new.txt'' ''a.txt'') k])"
    using demo_reachable by blast
  have d: "distinct [''a.txt'', ''a.previous.txt'', ''.a.new.txt'']" by simp
  let ?s = "demo_ready\<lparr> fs_names := demo_names(''.a.new.txt'' := None, ''a.txt'' \<mapsto> 8) \<rparr>"
  have "fs_step True 0 demo_ready (C_rename ''.a.new.txt'' ''a.txt'') (A_unit (Inr ())) ?s"
    using fs_rename [of demo_ready "''.a.new.txt''" 8 "''a.txt''" True 0] by (simp add: demo_files_def)
  then have step: "system_step ''a.txt'' ''a.previous.txt'' ''.a.new.txt'' True (demo_ready, [0 \<mapsto> Call (C_rename ''.a.new.txt'' ''a.txt'') k])
      (?s, [0 \<mapsto> k (A_unit (Inr ()))])"
    using calls_next [of "[0 \<mapsto> Call (C_rename ''.a.new.txt'' ''a.txt'') k]" 0 "C_rename ''.a.new.txt'' ''a.txt''" k True demo_ready "A_unit (Inr ())" ?s]
    by simp
  have "fs_names ?s ''a.txt'' = Some 8" by simp
  moreover have "fs_names ?s ''a.previous.txt'' = Some 7" using rotation_keeps_the_old_log [OF k step d] by (simp add: demo_files_def)
  ultimately show ?thesis using k step by blast
qed

end
