(* ===== verification/LoggerOptions.thy ===== *)
theory LoggerOptions imports Logger begin

text \<open>
  The command line of srt-logger (bin/logger.c), which is also how a logger hands its configuration
  to the process that it starts: file names for rotation, levels, size limits, and what of the
  configuration survives. How GLib splits a command line into options is a parameter, with its
  documented behaviour as a locale.
\<close>

section \<open>Options\<close>

text \<open>The entries of the table: long name, short name, and whether there is a value.\<close>

type_synonym option_entry = "string \<times> char option \<times> bool"

definition option_entries :: "option_entry list" where
  "option_entries =
     [(''background'', None, False), (''exec-fallback'', None, False), (''filename'', None, True),
      (''identifier'', Some CHR ''t'', True), (''journal-fd'', None, True), (''log-directory'', Some CHR ''d'', True),
      (''log-fd'', None, True), (''mkfifo'', None, False), (''no-auto-terminal'', None, False), (''rotate'', None, True),
      (''sh-syntax'', None, False), (''terminal-fd'', None, True), (''timestamps'', None, False),
      (''no-timestamps'', None, False), (''use-journal'', None, False), (''parse-level-prefix'', None, False),
      (''default-level'', None, True), (''file-level'', None, True), (''journal-level'', None, True),
      (''terminal-level'', None, True), (''verbose'', Some CHR ''v'', False), (''version'', None, False)]"

text \<open>GLib's parser: the options in order, each with its value (empty for a flag), and the other arguments;
  and the conversion of a number.\<close>

record option_parser =
  g_option_split :: "option_entry list \<Rightarrow> string list \<Rightarrow> gerror + (string \<times> string) list \<times> string list"
  g_option_int :: "string \<Rightarrow> gerror + int"

record options =
  opt_auto_terminal :: bool
  opt_background :: bool
  opt_exec_fallback :: bool
  opt_filename :: "string option"
  opt_identifier :: "string option"
  opt_journal_fd :: int
  opt_log_directory :: "string option"
  opt_log_fd :: int
  opt_max_bytes :: int
  opt_mkfifo :: bool
  opt_sh_syntax :: bool
  opt_terminal_fd :: int
  opt_timestamps :: bool
  opt_use_journal :: bool
  opt_parse_level_prefix :: bool
  opt_file_level :: nat
  opt_journal_level :: nat
  opt_terminal_level :: nat
  opt_default_line_level :: nat
  opt_verbose :: nat
  opt_version :: bool

definition MEBIBYTE :: int where "MEBIBYTE = 1024 * 1024"

definition options_init :: options where
  "options_init =
     \<lparr> opt_auto_terminal = True, opt_background = False, opt_exec_fallback = False, opt_filename = None, opt_identifier = None,
       opt_journal_fd = - 1, opt_log_directory = None, opt_log_fd = - 1, opt_max_bytes = 8 * MEBIBYTE, opt_mkfifo = False,
       opt_sh_syntax = False, opt_terminal_fd = - 1, opt_timestamps = True, opt_use_journal = False,
       opt_parse_level_prefix = False, opt_file_level = SRT_SYSLOG_LEVEL_DEFAULT_FILE,
       opt_journal_level = SRT_SYSLOG_LEVEL_DEFAULT_JOURNAL, opt_terminal_level = SRT_SYSLOG_LEVEL_DEFAULT_TERMINAL,
       opt_default_line_level = SRT_SYSLOG_LEVEL_DEFAULT_LINE, opt_verbose = 0, opt_version = False \<rparr>"

text \<open>\<open>opt_level_cb\<close>; \<^const>\<open>None\<close>: \<open>g_error\<close>, for an option that is not one of its four.\<close>

definition opt_level_cb :: "string \<Rightarrow> string \<Rightarrow> options \<Rightarrow> (gerror + options) option" where
  "opt_level_cb name value opts =
     (let set_level = (if name = ''file-level'' then Some (\<lambda>l. opts\<lparr> opt_file_level := l \<rparr>)
                       else if name = ''journal-level'' then Some (\<lambda>l. opts\<lparr> opt_journal_level := l \<rparr>)
                       else if name = ''terminal-level'' then Some (\<lambda>l. opts\<lparr> opt_terminal_level := l \<rparr>)
                       else if name = ''default-level'' then Some (\<lambda>l. opts\<lparr> opt_default_line_level := l \<rparr>)
                       else None)
      in map_option (\<lambda>set_to. case srt_syslog_level_parse value of
             Inl _ \<Rightarrow> Inl G_OPTION_ERROR_BAD_VALUE
           | Inr level \<Rightarrow> Inr (set_to level)) set_level)"

definition opt_verbose_cb :: "options \<Rightarrow> options" where
  "opt_verbose_cb opts = (if opt_verbose opts < 2 then opts\<lparr> opt_verbose := opt_verbose opts + 1 \<rparr> else opts)"

text \<open>What the table does for one option.\<close>

definition set_option :: "option_parser \<Rightarrow> string \<Rightarrow> string \<Rightarrow> options \<Rightarrow> (gerror + options) option" where
  "set_option P name value opts =
     (let num = (\<lambda>set_to. Some (case g_option_int P value of Inl e \<Rightarrow> Inl e | Inr n \<Rightarrow> Inr (set_to n))) in
      if name = ''background'' then Some (Inr (opts\<lparr> opt_background := True \<rparr>))
      else if name = ''exec-fallback'' then Some (Inr (opts\<lparr> opt_exec_fallback := True \<rparr>))
      else if name = ''filename'' then Some (Inr (opts\<lparr> opt_filename := Some value \<rparr>))
      else if name = ''identifier'' then Some (Inr (opts\<lparr> opt_identifier := Some value \<rparr>))
      else if name = ''journal-fd'' then num (\<lambda>n. opts\<lparr> opt_journal_fd := n \<rparr>)
      else if name = ''log-directory'' then Some (Inr (opts\<lparr> opt_log_directory := Some value \<rparr>))
      else if name = ''log-fd'' then num (\<lambda>n. opts\<lparr> opt_log_fd := n \<rparr>)
      else if name = ''mkfifo'' then Some (Inr (opts\<lparr> opt_mkfifo := True \<rparr>))
      else if name = ''no-auto-terminal'' then Some (Inr (opts\<lparr> opt_auto_terminal := False \<rparr>))
      else if name = ''rotate'' then
        Some (case opt_rotate_cb value of Inl e \<Rightarrow> Inl e | Inr n \<Rightarrow> Inr (opts\<lparr> opt_max_bytes := n \<rparr>))
      else if name = ''sh-syntax'' then Some (Inr (opts\<lparr> opt_sh_syntax := True \<rparr>))
      else if name = ''terminal-fd'' then num (\<lambda>n. opts\<lparr> opt_terminal_fd := n \<rparr>)
      else if name = ''timestamps'' then Some (Inr (opts\<lparr> opt_timestamps := True \<rparr>))
      else if name = ''no-timestamps'' then Some (Inr (opts\<lparr> opt_timestamps := False \<rparr>))
      else if name = ''use-journal'' then Some (Inr (opts\<lparr> opt_use_journal := True \<rparr>))
      else if name = ''parse-level-prefix'' then Some (Inr (opts\<lparr> opt_parse_level_prefix := True \<rparr>))
      else if name = ''verbose'' then Some (Inr (opt_verbose_cb opts))
      else if name = ''version'' then Some (Inr (opts\<lparr> opt_version := True \<rparr>))
      else opt_level_cb name value opts)"

fun set_options :: "option_parser \<Rightarrow> (string \<times> string) list \<Rightarrow> options \<Rightarrow> (gerror + options) option" where
  "set_options P [] opts = Some (Inr opts)"
| "set_options P ((name, value) # rest) opts =
     (case set_option P name value opts of
        None \<Rightarrow> None
      | Some (Inl e) \<Rightarrow> Some (Inl e)
      | Some (Inr opts') \<Rightarrow> set_options P rest opts')"

text \<open>From the defaults and the environment to the options and the remaining arguments.\<close>

definition env_options :: "glib \<Rightarrow> string list \<Rightarrow> options" where
  "env_options G envp =
     (let opts = options_init\<lparr> opt_timestamps := srt_boolean_environment G envp ''SRT_LOGGER_TIMESTAMPS'' True \<rparr>
      in if srt_boolean_environment G envp ''SRT_LOGGER_USE_JOURNAL'' False then opts\<lparr> opt_use_journal := True \<rparr> else opts)"

definition run_options :: "option_parser \<Rightarrow> glib \<Rightarrow> string list \<Rightarrow> string list \<Rightarrow> (gerror + options \<times> string list) option" where
  "run_options P G envp args =
     (case g_option_split P option_entries args of
        Inl e \<Rightarrow> Some (Inl e)
      | Inr (given, rest) \<Rightarrow>
          map_option (\<lambda>r. case r of
              Inl e \<Rightarrow> Inl e
            | Inr opts \<Rightarrow> Inr (if \<not> srt_boolean_environment G envp ''SRT_LOG_ROTATION'' True then opts\<lparr> opt_max_bytes := 0 \<rparr> else opts,
                             rest)) (set_options P given (env_options G envp)))"

text \<open>The logger of \<open>run\<close>: a first argument \<open>--\<close> is skipped.\<close>

definition run_logger :: "options \<Rightarrow> string list \<Rightarrow> fd \<Rightarrow> logger" where
  "run_logger opts rest original_stderr =
     (let args = (case rest of a # as \<Rightarrow> if a = ''--'' then as else rest | [] \<Rightarrow> []);
          argv0 = (case args of a # _ \<Rightarrow> Some a | [] \<Rightarrow> None)
      in srt_logger_new_take argv0 (opt_background opts) (opt_default_line_level opts) (opt_filename opts) (opt_log_fd opts)
           (opt_file_level opts) (opt_identifier opts) (opt_use_journal opts) (opt_journal_fd opts) (opt_journal_level opts)
           (opt_log_directory opts) (opt_max_bytes opts) original_stderr (opt_parse_level_prefix opts) (opt_sh_syntax opts)
           (opt_auto_terminal opts) (opt_terminal_fd opts) (opt_terminal_level opts) (opt_timestamps opts))"

section \<open>The interface to GLib\<close>

definition plain_entries :: "option_entry list \<Rightarrow> bool" where
  "plain_entries es = (distinct (map fst es) \<and> list_all (\<lambda>(n, c, v). n \<noteq> [] \<and> CHR ''='' \<notin> set n) es \<and>
     distinct (List.map_filter (\<lambda>(n, c, v). c) es))"

definition add_given :: "(string \<times> string) list \<Rightarrow> gerror + (string \<times> string) list \<times> string list \<Rightarrow>
    gerror + (string \<times> string) list \<times> string list" where
  "add_given xs r = (case r of Inl e \<Rightarrow> Inl e | Inr (given, rest) \<Rightarrow> Inr (xs @ given, rest))"

lemma add_given_add [simp]: "add_given xs (add_given ys r) = add_given (xs @ ys) r"
  by (auto simp: add_given_def split: sum.split)

lemma add_given_Nil [simp]: "add_given [] r = r"
  by (auto simp: add_given_def split: sum.split)

locale option_context =
  fixes split :: "option_entry list \<Rightarrow> string list \<Rightarrow> gerror + (string \<times> string) list \<times> string list"
    and to_int :: "string \<Rightarrow> gerror + int"
  assumes split_none: "split es [] = Inr ([], [])"
    and split_joined: "plain_entries es \<Longrightarrow> (n, c, True) \<in> set es \<Longrightarrow>
      split es ((''--'' @ n @ ''='' @ v) # args) = add_given [(n, v)] (split es args)"
    and split_apart: "plain_entries es \<Longrightarrow> (n, c, True) \<in> set es \<Longrightarrow>
      split es ((''--'' @ n) # v # args) = add_given [(n, v)] (split es args)"
    and split_flag: "plain_entries es \<Longrightarrow> (n, c, False) \<in> set es \<Longrightarrow>
      split es ((''--'' @ n) # args) = add_given [(n, [])] (split es args)"
    and split_short: "plain_entries es \<Longrightarrow> (n, Some x, False) \<in> set es \<Longrightarrow> x \<noteq> CHR ''-'' \<Longrightarrow>
      split es ([CHR ''-'', x] # args) = add_given [(n, [])] (split es args)"
    and to_int_decimal: "0 \<le> i \<Longrightarrow> i < 2 ^ 31 \<Longrightarrow> to_int (decimal i) = Inr i"
begin

text \<open>Some arguments are read as some options, whatever follows.\<close>

definition reads :: "option_entry list \<Rightarrow> string list \<Rightarrow> (string \<times> string) list \<Rightarrow> bool" where
  "reads es args given = (\<forall>rest. split es (args @ rest) = add_given given (split es rest))"

lemma reads_none: "reads es [] []"
  by (simp add: reads_def)

lemma reads_append: "reads es a g \<Longrightarrow> reads es b h \<Longrightarrow> reads es (a @ b) (g @ h)"
  by (simp add: reads_def)

lemma reads_if: "(b \<Longrightarrow> reads es a g) \<Longrightarrow> reads es (if b then a else []) (if b then g else [])"
  by (simp add: reads_none)

lemma reads_all: "reads es args given \<Longrightarrow> split es args = Inr (given, [])"
  using split_none by (auto simp: reads_def add_given_def dest: spec [of _ "[]"])

lemma reads_joined: "plain_entries es \<Longrightarrow> (n, c, True) \<in> set es \<Longrightarrow> reads es [''--'' @ n @ ''='' @ v] [(n, v)]"
  by (simp add: reads_def split_joined [simplified])

lemma reads_apart: "plain_entries es \<Longrightarrow> (n, c, True) \<in> set es \<Longrightarrow> reads es [''--'' @ n, v] [(n, v)]"
  by (simp add: reads_def split_apart [simplified])

lemma reads_flag: "plain_entries es \<Longrightarrow> (n, c, False) \<in> set es \<Longrightarrow> reads es [''--'' @ n] [(n, [])]"
  by (simp add: reads_def split_flag [simplified])

lemma reads_short: "plain_entries es \<Longrightarrow> (n, Some x, False) \<in> set es \<Longrightarrow> x \<noteq> CHR ''-'' \<Longrightarrow> reads es [[CHR ''-'', x]] [(n, [])]"
  by (simp add: reads_def split_short)

end

text \<open>A parser that meets it.\<close>

definition find_entry :: "option_entry list \<Rightarrow> string \<Rightarrow> option_entry option" where
  "find_entry es n = find (\<lambda>(m, c, v). m = n) es"

fun split_ref :: "option_entry list \<Rightarrow> string list \<Rightarrow> gerror + (string \<times> string) list \<times> string list" where
  "split_ref es [] = Inr ([], [])"
| "split_ref es (a # args) =
     (if a = ''--'' then Inr ([], args)
      else if take 2 a = ''--'' then
        (let n = takeWhile (\<lambda>x. x \<noteq> CHR ''='') (drop 2 a); r = dropWhile (\<lambda>x. x \<noteq> CHR ''='') (drop 2 a)
         in case find_entry es n of
              None \<Rightarrow> Inl G_OPTION_ERROR_BAD_VALUE
            | Some (_, _, has_value) \<Rightarrow>
                if r \<noteq> [] then (if has_value then add_given [(n, tl r)] (split_ref es args) else Inl G_OPTION_ERROR_BAD_VALUE)
                else if \<not> has_value then add_given [(n, [])] (split_ref es args)
                else case args of [] \<Rightarrow> Inl G_OPTION_ERROR_BAD_VALUE | v # args' \<Rightarrow> add_given [(n, v)] (split_ref es args'))
      else if length a = 2 \<and> hd a = CHR ''-'' then
        (case find (\<lambda>(m, c, v). c = Some (a ! 1)) es of
           Some (n, _, False) \<Rightarrow> add_given [(n, [])] (split_ref es args)
         | _ \<Rightarrow> Inl G_OPTION_ERROR_BAD_VALUE)
      else Inr ([], a # args))"

definition option_parser_ref :: option_parser where
  "option_parser_ref = \<lparr> g_option_split = split_ref,
     g_option_int = (\<lambda>s. case strtoll s 10 of (n, rest) \<Rightarrow>
       if s = [] \<or> rest \<noteq> [] \<or> n < - (2 ^ 31) \<or> 2 ^ 31 \<le> n then Inl G_OPTION_ERROR_BAD_VALUE else Inr n) \<rparr>"

lemma find_first: "distinct (map f xs) \<Longrightarrow> x \<in> set xs \<Longrightarrow> find (\<lambda>y. f y = f x) xs = Some x"
  by (induction xs) (auto simp: image_iff)

lemma find_entry_eq: "plain_entries es \<Longrightarrow> (n, c, v) \<in> set es \<Longrightarrow> find_entry es n = Some (n, c, v)"
  using find_first [of fst es "(n, c, v)"] by (simp add: plain_entries_def find_entry_def case_prod_unfold)

lemma find_first_some:
  "distinct (List.map_filter f xs) \<Longrightarrow> x \<in> set xs \<Longrightarrow> f x = Some k \<Longrightarrow> find (\<lambda>y. f y = Some k) xs = Some x"
proof (induction xs)
  case (Cons a xs)
  show ?case
  proof (cases "f a = Some k")
    case True
    have "k \<notin> set (List.map_filter f xs)" using Cons.prems(1) True by (simp add: List.map_filter_simps)
    then have "x \<notin> set xs" using Cons.prems(3) by (force simp: List.map_filter_def image_iff)
    then show ?thesis using Cons.prems(2) True by simp
  next
    case False
    have "distinct (List.map_filter f xs)" using Cons.prems(1) by (simp add: List.map_filter_simps split: option.splits)
    then show ?thesis using Cons False by auto
  qed
qed simp

lemma find_short_eq: "plain_entries es \<Longrightarrow> (n, Some x, v) \<in> set es \<Longrightarrow> find (\<lambda>(m, c, v). c = Some x) es = Some (n, Some x, v)"
  using find_first_some [of "\<lambda>(m, c, v). c" es "(n, Some x, v)" x] by (simp add: plain_entries_def case_prod_unfold)

lemma entry_name: "plain_entries es \<Longrightarrow> (n, c, v) \<in> set es \<Longrightarrow> n \<noteq> [] \<and> CHR ''='' \<notin> set n"
  by (force simp: plain_entries_def list_all_iff)

lemma takeWhile_name: "x \<notin> set n \<Longrightarrow> takeWhile (\<lambda>y. y \<noteq> x) n = n" "x \<notin> set n \<Longrightarrow> dropWhile (\<lambda>y. y \<noteq> x) n = []"
  by (auto simp: takeWhile_eq_all_conv dropWhile_eq_Nil_conv)

lemma split_value: "x \<notin> set n \<Longrightarrow> takeWhile (\<lambda>y. y \<noteq> x) (n @ x # v) = n \<and> dropWhile (\<lambda>y. y \<noteq> x) (n @ x # v) = x # v"
  by (induction n) auto

interpretation ref_options: option_context "g_option_split option_parser_ref" "g_option_int option_parser_ref"
proof
  show "g_option_split option_parser_ref es [] = Inr ([], [])" for es by (simp add: option_parser_ref_def)
  show "g_option_split option_parser_ref es ((''--'' @ n @ ''='' @ v) # args) =
      add_given [(n, v)] (g_option_split option_parser_ref es args)"
    if "plain_entries es" "(n, c, True) \<in> set es" for es n c v args
    using find_entry_eq [OF that] entry_name [OF that] split_value [of "CHR ''=''" n v] by (simp add: option_parser_ref_def Let_def)
  show "g_option_split option_parser_ref es ((''--'' @ n) # v # args) = add_given [(n, v)] (g_option_split option_parser_ref es args)"
    if "plain_entries es" "(n, c, True) \<in> set es" for es n c v args
    using find_entry_eq [OF that] entry_name [OF that] by (simp add: option_parser_ref_def takeWhile_name)
  show "g_option_split option_parser_ref es ((''--'' @ n) # args) = add_given [(n, [])] (g_option_split option_parser_ref es args)"
    if "plain_entries es" "(n, c, False) \<in> set es" for es n c args
    using find_entry_eq [OF that] entry_name [OF that] by (simp add: option_parser_ref_def takeWhile_name)
  show "g_option_split option_parser_ref es ([CHR ''-'', x] # args) = add_given [(n, [])] (g_option_split option_parser_ref es args)"
    if "plain_entries es" "(n, Some x, False) \<in> set es" "x \<noteq> CHR ''-''" for es n x args
    using find_short_eq [OF that(1,2)] that(3) by (simp add: option_parser_ref_def)
  show "g_option_int option_parser_ref (decimal i) = Inr i" if "0 \<le> i" "i < 2 ^ 31" for i
    using that strtoll_print [of 10 "nat i"] by (simp add: option_parser_ref_def decimal_def print_nat_nonempty)
qed

section \<open>The configuration of the process that is started\<close>

text \<open>The options that the arguments of the logger stand for.\<close>

definition level_given :: "string \<Rightarrow> nat \<Rightarrow> nat \<Rightarrow> (string \<times> string) list" where
  "level_given n level default_level = (if level \<noteq> default_level then [(n, hd (syslog_level_names ! level))] else [])"

definition fd_given :: "string \<Rightarrow> fd \<Rightarrow> (string \<times> string) list" where
  "fd_given n fd = (if fd \<ge> 0 then [(n, decimal fd)] else [])"

definition flag_given :: "string \<Rightarrow> bool \<Rightarrow> (string \<times> string) list" where
  "flag_given n b = (if b then [(n, [])] else [])"

definition rotate_given :: "bool \<Rightarrow> int \<Rightarrow> (string \<times> string) list" where
  "rotate_given b n = (if n > 0 \<and> b then [(''rotate'', decimal n)] else [])"

definition file_given :: "logger \<Rightarrow> (string \<times> string) list" where
  "file_given s = (if lg_file_fd s \<ge> 0 then [(''log-directory'', the (lg_log_dir s)), (''filename'', the (lg_filename s)),
     (''log-fd'', decimal (lg_file_fd s))] else [])"

definition logger_given :: "bool \<Rightarrow> bool \<Rightarrow> bool \<Rightarrow> logger \<Rightarrow> (string \<times> string) list" where
  "logger_given rotation verbose debugging s =
     flag_given ''sh-syntax'' True @ rotate_given rotation (lg_max_bytes s) @ file_given s
     @ fd_given ''journal-fd'' (lg_journal_fd s) @ fd_given ''terminal-fd'' (lg_terminal_fd s)
     @ flag_given ''no-timestamps'' (\<not> lg_timestamps s) @ flag_given ''parse-level-prefix'' (lg_parse_level_prefix s)
     @ level_given ''default-level'' (lg_default_level s) SRT_SYSLOG_LEVEL_DEFAULT_LINE
     @ level_given ''file-level'' (lg_file_level s) SRT_SYSLOG_LEVEL_DEFAULT_FILE
     @ level_given ''journal-level'' (lg_journal_level s) SRT_SYSLOG_LEVEL_DEFAULT_JOURNAL
     @ level_given ''terminal-level'' (lg_terminal_level s) SRT_SYSLOG_LEVEL_DEFAULT_TERMINAL
     @ flag_given ''verbose'' verbose @ flag_given ''verbose'' debugging"

lemma plain_option_entries [simp]: "plain_entries option_entries"
  by (simp add: plain_entries_def option_entries_def List.map_filter_simps)

lemma option_entry [simp]:
  "(''rotate'', None, True) \<in> set option_entries" "(''filename'', None, True) \<in> set option_entries"
  "(''log-directory'', Some CHR ''d'', True) \<in> set option_entries" "(''log-fd'', None, True) \<in> set option_entries"
  "(''journal-fd'', None, True) \<in> set option_entries" "(''terminal-fd'', None, True) \<in> set option_entries"
  "(''sh-syntax'', None, False) \<in> set option_entries" "(''no-timestamps'', None, False) \<in> set option_entries"
  "(''parse-level-prefix'', None, False) \<in> set option_entries" "(''default-level'', None, True) \<in> set option_entries"
  "(''file-level'', None, True) \<in> set option_entries" "(''journal-level'', None, True) \<in> set option_entries"
  "(''terminal-level'', None, True) \<in> set option_entries" "(''verbose'', Some CHR ''v'', False) \<in> set option_entries"
  by (simp_all add: option_entries_def)

context option_context
begin

lemma reads_fd: "(n, None, True) \<in> set option_entries \<Longrightarrow>
    reads option_entries (if fd \<ge> 0 then [''--'' @ n @ ''='' @ decimal fd] else []) (fd_given n fd)"
  unfolding fd_given_def by (rule reads_if, rule reads_joined) auto

lemma reads_flag_if: "(n, c, False) \<in> set option_entries \<Longrightarrow>
    reads option_entries (if b then [''--'' @ n] else []) (flag_given n b)"
  unfolding flag_given_def by (rule reads_if, rule reads_flag) auto

lemma reads_level: "(n, None, True) \<in> set option_entries \<Longrightarrow>
    reads option_entries (if l \<noteq> d then [level_arg (''--'' @ n) l] else []) (level_given n l d)"
  unfolding level_given_def by (rule reads_if, use reads_joined [of option_entries n None] in \<open>simp add: level_arg_def\<close>)

lemma reads_verbose: "reads option_entries (if b then [''-v''] else []) (flag_given ''verbose'' b)"
  unfolding flag_given_def by (rule reads_if, rule reads_short [OF plain_option_entries]) auto

lemma reads_rotate: "reads option_entries (if n > 0 \<and> b then [''--rotate='' @ decimal n] else []) (rotate_given b n)"
  unfolding rotate_given_def
  by (rule reads_if, use reads_joined [of option_entries "''rotate''" None "decimal n"] in \<open>simp\<close>)

lemma reads_file:
  "reads option_entries
    (if lg_file_fd s \<ge> 0 then [''--log-directory'', the (lg_log_dir s), ''--filename'', the (lg_filename s), ''--log-fd='' @ decimal (lg_file_fd s)] else [])
    (file_given s)"
proof (cases "lg_file_fd s \<ge> 0")
  case True
  note r = reads_append [OF reads_apart [OF plain_option_entries option_entry(3), of "the (lg_log_dir s)"]
    reads_append [OF reads_apart [OF plain_option_entries option_entry(2), of "the (lg_filename s)"]
      reads_joined [OF plain_option_entries option_entry(4), of "decimal (lg_file_fd s)"]]]
  show ?thesis using r True by (simp add: file_given_def)
qed (simp add: reads_none file_given_def fd_given_def)

lemma split_logger_args:
  "split option_entries (logger_args G envp verbose debugging s) =
    Inr (logger_given (srt_boolean_environment G envp ''SRT_LOG_ROTATION'' True) verbose debugging s, [])"
proof -
  have fd: "reads option_entries (if fd \<ge> 0 then [''--journal-fd='' @ decimal fd] else []) (fd_given ''journal-fd'' fd)"
    "reads option_entries (if fd \<ge> 0 then [''--terminal-fd='' @ decimal fd] else []) (fd_given ''terminal-fd'' fd)" for fd
    using reads_fd [of "''journal-fd''" fd] reads_fd [of "''terminal-fd''" fd] by (simp_all cong: if_cong split del: if_split)
  have flag: "reads option_entries [''--sh-syntax''] (flag_given ''sh-syntax'' True)"
    "reads option_entries (if b then [''--no-timestamps''] else []) (flag_given ''no-timestamps'' b)"
    "reads option_entries (if b then [''--parse-level-prefix''] else []) (flag_given ''parse-level-prefix'' b)" for b
    using reads_flag_if [of "''sh-syntax''" None True] reads_flag_if [of "''no-timestamps''" None b] reads_flag_if [of "''parse-level-prefix''" None b]
    by (simp_all cong: if_cong split del: if_split)
  have level: "reads option_entries (if l \<noteq> d then [level_arg ''--default-level'' l] else []) (level_given ''default-level'' l d)"
    "reads option_entries (if l \<noteq> d then [level_arg ''--file-level'' l] else []) (level_given ''file-level'' l d)"
    "reads option_entries (if l \<noteq> d then [level_arg ''--journal-level'' l] else []) (level_given ''journal-level'' l d)"
    "reads option_entries (if l \<noteq> d then [level_arg ''--terminal-level'' l] else []) (level_given ''terminal-level'' l d)" for l d
    using reads_level [of "''default-level''" l d] reads_level [of "''file-level''" l d] reads_level [of "''journal-level''" l d]
      reads_level [of "''terminal-level''" l d] by (simp_all cong: if_cong split del: if_split)
  note r = reads_append [OF flag(1) reads_append [OF reads_rotate reads_append [OF reads_file reads_append [OF fd(1) reads_append [OF fd(2)
    reads_append [OF flag(2) reads_append [OF flag(3) reads_append [OF level(1) reads_append [OF level(2) reads_append [OF level(3)
    reads_append [OF level(4) reads_append [OF reads_verbose reads_verbose]]]]]]]]]]]]
  show ?thesis unfolding logger_args_def logger_given_def by (rule reads_all, rule r)
qed

end

lemma set_options_append:
  "set_options P (xs @ ys) opts = (case set_options P xs opts of Some (Inr opts') \<Rightarrow> set_options P ys opts' | r \<Rightarrow> r)"
  by (induction xs arbitrary: opts) (auto split: option.splits sum.splits)

text \<open>Each group of options sets one field.\<close>

definition more_verbose :: "bool \<Rightarrow> nat \<Rightarrow> nat" where
  "more_verbose b n = (if b \<and> n < 2 then n + 1 else n)"

lemma set_flags:
  "set_options P (flag_given ''sh-syntax'' b) opts = Some (Inr (opts\<lparr> opt_sh_syntax := b \<or> opt_sh_syntax opts \<rparr>))"
  "set_options P (flag_given ''no-timestamps'' b) opts = Some (Inr (opts\<lparr> opt_timestamps := \<not> b \<and> opt_timestamps opts \<rparr>))"
  "set_options P (flag_given ''parse-level-prefix'' b) opts = Some (Inr (opts\<lparr> opt_parse_level_prefix := b \<or> opt_parse_level_prefix opts \<rparr>))"
  "set_options P (flag_given ''verbose'' b) opts = Some (Inr (opts\<lparr> opt_verbose := more_verbose b (opt_verbose opts) \<rparr>))"
  by (auto simp: flag_given_def set_option_def opt_verbose_cb_def more_verbose_def)

definition fd_or :: "int \<Rightarrow> int \<Rightarrow> int" where "fd_or fd old = (if fd \<ge> 0 then fd else old)"

lemma set_fds:
  assumes "\<And>i. 0 \<le> i \<Longrightarrow> i < 2 ^ 31 \<Longrightarrow> g_option_int P (decimal i) = Inr i" and "fd < 2 ^ 31"
  shows "set_options P (fd_given ''journal-fd'' fd) opts = Some (Inr (opts\<lparr> opt_journal_fd := fd_or fd (opt_journal_fd opts) \<rparr>))"
    and "set_options P (fd_given ''terminal-fd'' fd) opts = Some (Inr (opts\<lparr> opt_terminal_fd := fd_or fd (opt_terminal_fd opts) \<rparr>))"
  using assms by (auto simp: fd_given_def set_option_def fd_or_def)

lemma set_file:
  assumes "\<And>i. 0 \<le> i \<Longrightarrow> i < 2 ^ 31 \<Longrightarrow> g_option_int P (decimal i) = Inr i" and "lg_file_fd s < 2 ^ 31"
  shows "set_options P (file_given s) opts = Some (Inr (opts
    \<lparr> opt_log_directory := (if lg_file_fd s \<ge> 0 then Some (the (lg_log_dir s)) else opt_log_directory opts),
      opt_filename := (if lg_file_fd s \<ge> 0 then Some (the (lg_filename s)) else opt_filename opts),
      opt_log_fd := fd_or (lg_file_fd s) (opt_log_fd opts) \<rparr>))"
  using assms by (auto simp: file_given_def set_option_def fd_or_def)

lemma byte_suffix_none [simp]: "srt_byte_suffix_to_multiplier [] = 1"
  by (simp add: srt_byte_suffix_to_multiplier_def byte_suffixes_def)

lemma opt_rotate_decimal: "0 \<le> n \<Longrightarrow> n < 2 ^ 63 - 1 \<Longrightarrow> opt_rotate_cb (decimal n) = Inr n"
  using strtoll_print [of 10 "nat n"] print_nat_nonempty [of 10 "nat n"] by (auto simp: opt_rotate_cb_def decimal_def)

definition max_or :: "bool \<Rightarrow> int \<Rightarrow> int \<Rightarrow> int" where "max_or b n old = (if n > 0 \<and> b then n else old)"

lemma set_rotate: "n < 2 ^ 63 - 1 \<Longrightarrow>
    set_options P (rotate_given b n) opts = Some (Inr (opts\<lparr> opt_max_bytes := max_or b n (opt_max_bytes opts) \<rparr>))"
  by (auto simp: rotate_given_def set_option_def opt_rotate_decimal max_or_def)

text \<open>The first name of a level is the name of that level.\<close>

lemma level_name_parse: "l < 8 \<Longrightarrow> srt_syslog_level_parse (hd (syslog_level_names ! l)) = Inr l"
proof -
  assume "l < 8"
  then have "l = 0 \<or> l = 1 \<or> l = 2 \<or> l = 3 \<or> l = 4 \<or> l = 5 \<or> l = 6 \<or> l = 7" by auto
  then show ?thesis
    by (elim disjE) (simp_all, code_simp+)
qed

definition level_or :: "nat \<Rightarrow> nat \<Rightarrow> nat \<Rightarrow> nat" where "level_or l d old = (if l \<noteq> d then l else old)"

lemma set_levels:
  assumes "l < 8"
  shows "set_options P (level_given ''default-level'' l d) opts = Some (Inr (opts\<lparr> opt_default_line_level := level_or l d (opt_default_line_level opts) \<rparr>))"
    and "set_options P (level_given ''file-level'' l d) opts = Some (Inr (opts\<lparr> opt_file_level := level_or l d (opt_file_level opts) \<rparr>))"
    and "set_options P (level_given ''journal-level'' l d) opts = Some (Inr (opts\<lparr> opt_journal_level := level_or l d (opt_journal_level opts) \<rparr>))"
    and "set_options P (level_given ''terminal-level'' l d) opts = Some (Inr (opts\<lparr> opt_terminal_level := level_or l d (opt_terminal_level opts) \<rparr>))"
  using level_name_parse [OF assms] by (auto simp: level_given_def set_option_def opt_level_cb_def level_or_def)

lemmas set_given = set_flags set_fds set_file set_rotate set_levels

text \<open>The fields of a logger fit into their C types.\<close>

definition logger_ok :: "logger \<Rightarrow> bool" where
  "logger_ok s = (lg_file_fd s < 2 ^ 31 \<and> lg_journal_fd s < 2 ^ 31 \<and> lg_terminal_fd s < 2 ^ 31 \<and> lg_max_bytes s < 2 ^ 63 - 1 \<and>
     lg_default_level s < 8 \<and> lg_file_level s < 8 \<and> lg_journal_level s < 8 \<and> lg_terminal_level s < 8)"

definition given_options :: "bool \<Rightarrow> bool \<Rightarrow> bool \<Rightarrow> logger \<Rightarrow> options \<Rightarrow> options" where
  "given_options rotation verbose debugging s opts =
    opts
    \<lparr> opt_sh_syntax := True, opt_max_bytes := max_or rotation (lg_max_bytes s) (opt_max_bytes opts),
      opt_log_directory := (if lg_file_fd s \<ge> 0 then Some (the (lg_log_dir s)) else opt_log_directory opts),
      opt_filename := (if lg_file_fd s \<ge> 0 then Some (the (lg_filename s)) else opt_filename opts),
      opt_log_fd := fd_or (lg_file_fd s) (opt_log_fd opts), opt_journal_fd := fd_or (lg_journal_fd s) (opt_journal_fd opts),
      opt_terminal_fd := fd_or (lg_terminal_fd s) (opt_terminal_fd opts), opt_timestamps := lg_timestamps s \<and> opt_timestamps opts,
      opt_parse_level_prefix := lg_parse_level_prefix s \<or> opt_parse_level_prefix opts,
      opt_default_line_level := level_or (lg_default_level s) SRT_SYSLOG_LEVEL_DEFAULT_LINE (opt_default_line_level opts),
      opt_file_level := level_or (lg_file_level s) SRT_SYSLOG_LEVEL_DEFAULT_FILE (opt_file_level opts),
      opt_journal_level := level_or (lg_journal_level s) SRT_SYSLOG_LEVEL_DEFAULT_JOURNAL (opt_journal_level opts),
      opt_terminal_level := level_or (lg_terminal_level s) SRT_SYSLOG_LEVEL_DEFAULT_TERMINAL (opt_terminal_level opts),
      opt_verbose := more_verbose debugging (more_verbose verbose (opt_verbose opts)) \<rparr>"

lemma set_logger_given:
  assumes "\<And>i. 0 \<le> i \<Longrightarrow> i < 2 ^ 31 \<Longrightarrow> g_option_int P (decimal i) = Inr i" and "logger_ok s"
  shows "set_options P (logger_given rotation verbose debugging s) opts = Some (Inr (given_options rotation verbose debugging s opts))"
proof -
  have ok: "lg_file_fd s < 2 ^ 31" "lg_journal_fd s < 2 ^ 31" "lg_terminal_fd s < 2 ^ 31" "lg_max_bytes s < 2 ^ 63 - 1"
    "lg_default_level s < 8" "lg_file_level s < 8" "lg_journal_level s < 8" "lg_terminal_level s < 8"
    using assms(2) by (auto simp: logger_ok_def)
  note given = set_flags set_fds(1) [OF assms(1) ok(2)] set_fds(2) [OF assms(1) ok(3)] set_file [OF assms(1) ok(1)] set_rotate [OF ok(4)]
    set_levels(1) [OF ok(5)] set_levels(2) [OF ok(6)] set_levels(3) [OF ok(7)] set_levels(4) [OF ok(8)]
  show ?thesis
    by (simp only: logger_given_def set_options_append given option.case sum.case) (simp add: given_options_def)
qed

text \<open>C17: A logger that is started by another one gets its log file, file descriptors, levels and parsing from the
  command line unchanged. The size limit arrives only if it is positive, otherwise the limit
  is the default one; time stamps are switched off by the environment whatever the first logger
  had been told.\<close>

theorem logger_args_roundtrip:
  assumes "option_context (g_option_split P) (g_option_int P)" and "logger_ok s"
    and "srt_logger_argv G envp verbose debugging exe s = Some argv"
  shows "\<exists>opts. run_options P G envp (tl argv) = Some (Inr (opts, [])) \<and> opt_sh_syntax opts \<and>
    (let child = run_logger opts [] original_stderr; rotation = srt_boolean_environment G envp ''SRT_LOG_ROTATION'' True in
       lg_file_fd child = (if lg_file_fd s \<ge> 0 then lg_file_fd s else - 1) \<and>
       lg_journal_fd child = (if lg_journal_fd s \<ge> 0 then lg_journal_fd s else - 1) \<and>
       lg_terminal_fd child = (if lg_terminal_fd s \<ge> 0 then lg_terminal_fd s else - 1) \<and>
       lg_log_dir child = (if lg_file_fd s \<ge> 0 then lg_log_dir s else None) \<and>
       lg_filename child = (if lg_file_fd s \<ge> 0 then lg_filename s else None) \<and>
       lg_default_level child = lg_default_level s \<and> lg_file_level child = lg_file_level s \<and>
       lg_journal_level child = lg_journal_level s \<and> lg_terminal_level child = lg_terminal_level s \<and>
       lg_parse_level_prefix child = lg_parse_level_prefix s \<and>
       lg_timestamps child = (lg_timestamps s \<and> srt_boolean_environment G envp ''SRT_LOGGER_TIMESTAMPS'' True) \<and>
       lg_max_bytes child = (if \<not> rotation then 0 else if lg_max_bytes s > 0 then lg_max_bytes s else 8 * MEBIBYTE))"
proof -
  let ?rotation = "srt_boolean_environment G envp ''SRT_LOG_ROTATION'' True"
  have log: "lg_file_fd s \<ge> 0 \<longrightarrow> lg_filename s \<noteq> None \<and> lg_log_dir s \<noteq> None" and argv: "tl argv = logger_args G envp verbose debugging s"
    using assms(3) by (auto simp: srt_logger_argv_def split: if_splits)
  have split: "g_option_split P option_entries (tl argv) = Inr (logger_given ?rotation verbose debugging s, [])"
    unfolding argv by (rule option_context.split_logger_args [OF assms(1)])
  have int: "g_option_int P (decimal i) = Inr i" if "0 \<le> i" "i < 2 ^ 31" for i
    by (rule option_context.to_int_decimal [OF assms(1) that])
  have given: "set_options P (logger_given b v d s) opts = Some (Inr (given_options b v d s opts))" for b v d opts
    by (rule set_logger_given [OF _ assms(2)]) (rule int)
  let ?o3 = "given_options ?rotation verbose debugging s (env_options G envp)"
  have "run_options P G envp (tl argv) = Some (Inr (if \<not> ?rotation then ?o3\<lparr> opt_max_bytes := 0 \<rparr> else ?o3, []))"
    by (simp add: run_options_def split given)
  moreover have env: "opt_log_fd (env_options G envp) = - 1" "opt_journal_fd (env_options G envp) = - 1"
    "opt_terminal_fd (env_options G envp) = - 1" "opt_log_directory (env_options G envp) = None" "opt_filename (env_options G envp) = None"
    "opt_default_line_level (env_options G envp) = SRT_SYSLOG_LEVEL_DEFAULT_LINE"
    "opt_file_level (env_options G envp) = SRT_SYSLOG_LEVEL_DEFAULT_FILE"
    "opt_journal_level (env_options G envp) = SRT_SYSLOG_LEVEL_DEFAULT_JOURNAL"
    "opt_terminal_level (env_options G envp) = SRT_SYSLOG_LEVEL_DEFAULT_TERMINAL" "\<not> opt_parse_level_prefix (env_options G envp)"
    "opt_timestamps (env_options G envp) = srt_boolean_environment G envp ''SRT_LOGGER_TIMESTAMPS'' True"
    "opt_max_bytes (env_options G envp) = 8 * MEBIBYTE"
    by (simp_all add: env_options_def options_init_def Let_def)
  ultimately show ?thesis
    using log by (auto simp: given_options_def run_logger_def srt_logger_new_take_def srt_logger_init_def fd_or_def max_or_def level_or_def env)
qed

text \<open>With \<open>--rotate=0\<close> the first logger does not rotate; the one it starts does, from 8 MiB on.\<close>

definition demo_parent :: logger where
  "demo_parent = run_logger (options_init\<lparr> opt_max_bytes := 0, opt_filename := Some ''a.txt'', opt_log_directory := Some ''/l'',
     opt_log_fd := 4 \<rparr>) [''true''] (- 1)"

theorem logger_args_roundtrip_witness:
  "opt_rotate_cb ''0'' = Inr 0 \<and>
   (\<exists>argv opts. srt_logger_argv glib_ref [] False False ''srt-logger'' demo_parent = Some argv \<and>
     run_options option_parser_ref glib_ref [] (tl argv) = Some (Inr (opts, [])) \<and>
     lg_max_bytes demo_parent = 0 \<and> lg_max_bytes (run_logger opts [] (- 1)) = 8388608)"
proof -
  have r: "opt_rotate_cb ''0'' = Inr 0" using opt_rotate_decimal [of 0] by (simp add: decimal_def print_nat.simps char_of_def bit_0)
  have ok: "logger_ok demo_parent"
    by (simp add: logger_ok_def demo_parent_def run_logger_def srt_logger_new_take_def srt_logger_init_def options_init_def
        SRT_SYSLOG_LEVEL_DEFAULT_LINE_def SRT_SYSLOG_LEVEL_DEFAULT_FILE_def SRT_SYSLOG_LEVEL_DEFAULT_JOURNAL_def
        SRT_SYSLOG_LEVEL_DEFAULT_TERMINAL_def LOG_INFO_def LOG_DEBUG_def)
  have m: "lg_max_bytes demo_parent = 0"
    by (simp add: demo_parent_def run_logger_def srt_logger_new_take_def srt_logger_init_def options_init_def)
  have "\<exists>argv. srt_logger_argv glib_ref [] False False ''srt-logger'' demo_parent = Some argv"
    by (simp add: srt_logger_argv_def demo_parent_def run_logger_def srt_logger_new_take_def srt_logger_init_def options_init_def)
  then obtain argv where a: "srt_logger_argv glib_ref [] False False ''srt-logger'' demo_parent = Some argv" ..
  have "srt_boolean_environment glib_ref [] n b = b" for n b
    by (simp add: srt_boolean_environment_def srt_environ_get_boolean_def glib_ref_def)
  then show ?thesis using logger_args_roundtrip [OF ref_options.option_context_axioms ok a, of "- 1"] a m r
    by (auto simp: Let_def MEBIBYTE_def)
qed

section \<open>The names for a rotation\<close>

definition previous_name :: "string \<Rightarrow> string" where
  "previous_name f = (case strrchr f CHR ''.'' of None \<Rightarrow> f @ ''.previous'' | Some (a, b) \<Rightarrow> a @ ''.previous.'' @ b)"

definition new_name :: "string \<Rightarrow> string" where
  "new_name f = CHR ''.'' # (case strrchr f CHR ''.'' of None \<Rightarrow> f @ ''.new'' | Some (a, b) \<Rightarrow> a @ ''.new.'' @ b)"

lemma setup_filenames_names:
  assumes "setup_filenames s = (Inr (), s')" and "lg_use_file s'"
  shows "\<exists>f. lg_filename s' = Some f \<and> lg_previous_filename s' = Some (previous_name f) \<and> lg_new_filename s' = Some (new_name f) \<and>
    f \<noteq> [] \<and> CHR ''/'' \<notin> set f \<and> hd f \<noteq> CHR ''.''"
  using assms by (auto simp: setup_filenames_def previous_name_def new_name_def split: option.splits if_splits)

text \<open>A word before the extension: the names have the form \<open>a @ w @ e\<close> for \<open>f = a @ e\<close>, where the extension is
  empty or has its only dot in front.\<close>

definition extension :: "string \<Rightarrow> bool" where
  "extension e = (e = [] \<or> (\<exists>b. e = CHR ''.'' # b \<and> CHR ''.'' \<notin> set b))"

lemma names_form: "\<exists>a e. f = a @ e \<and> previous_name f = a @ ''.previous'' @ e \<and> new_name f = CHR ''.'' # a @ ''.new'' @ e \<and>
    extension e \<and> (e = [] \<longrightarrow> CHR ''.'' \<notin> set a)"
proof (cases "strrchr f CHR ''.''")
  case None
  then have "CHR ''.'' \<notin> set f" by (simp add: strrchr_None)
  then show ?thesis by - (rule exI [of _ f], rule exI [of _ "[]"], simp add: previous_name_def new_name_def extension_def None)
next
  case (Some p)
  obtain a b where "p = (a, b)" by (cases p) auto
  then have r: "strrchr f CHR ''.'' = Some (a, b)" using Some by simp
  then have "f = a @ CHR ''.'' # b \<and> CHR ''.'' \<notin> set b" using strrchr_Some_iff [of f "CHR ''.''" a b] by simp
  moreover have "previous_name f = a @ ''.previous.'' @ b" "new_name f = CHR ''.'' # a @ ''.new.'' @ b"
    by (simp_all add: previous_name_def new_name_def r)
  ultimately show ?thesis by - (rule exI [of _ a], rule exI [of _ "CHR ''.'' # b"], auto simp: extension_def)
qed

text \<open>The extension of a name that contains a dot is determined by the name.\<close>

lemma last_dot: "a @ CHR ''.'' # b = c @ CHR ''.'' # d \<Longrightarrow> CHR ''.'' \<notin> set b \<Longrightarrow> CHR ''.'' \<notin> set d \<Longrightarrow> a = c \<and> b = d"
  using strrchr_Some_iff [of "a @ CHR ''.'' # b" "CHR ''.''" a b] strrchr_Some_iff [of "c @ CHR ''.'' # d" "CHR ''.''" c d] by simp

lemma word_before_extension:
  assumes eq: "a @ (CHR ''.'' # w) @ e = c @ (CHR ''.'' # w) @ e'" and w: "CHR ''.'' \<notin> set w"
    and e: "extension e" "extension e'" "e = [] \<longrightarrow> CHR ''.'' \<notin> set a" "e' = [] \<longrightarrow> CHR ''.'' \<notin> set c"
  shows "a = c \<and> e = e'"
proof (cases e)
  case Nil
  show ?thesis
  proof (cases e')
    case Nil
    then show ?thesis using eq \<open>e = []\<close> by simp
  next
    case (Cons x b)
    then have b: "e' = CHR ''.'' # b" "CHR ''.'' \<notin> set b" using e(2) by (auto simp: extension_def)
    have "a = c @ CHR ''.'' # w" using last_dot [of a w "c @ CHR ''.'' # w" b] eq b w \<open>e = []\<close> by simp
    then show ?thesis using e(3) \<open>e = []\<close> by simp
  qed
next
  case (Cons x b)
  then have b: "e = CHR ''.'' # b" "CHR ''.'' \<notin> set b" using e(1) by (auto simp: extension_def)
  show ?thesis
  proof (cases e')
    case Nil
    have "a @ CHR ''.'' # w = c" using last_dot [of "a @ CHR ''.'' # w" b c w] eq b w Nil by simp
    then show ?thesis using e(4) Nil by auto
  next
    case (Cons y d)
    then have d: "e' = CHR ''.'' # d" "CHR ''.'' \<notin> set d" using e(2) by (auto simp: extension_def)
    show ?thesis using last_dot [of "a @ CHR ''.'' # w" b "c @ CHR ''.'' # w" d] eq b d by simp
  qed
qed

lemma names_inj:
  assumes "previous_name f = previous_name g \<or> new_name f = new_name g"
  shows "f = g"
proof -
  obtain a e where f: "f = a @ e" "previous_name f = a @ ''.previous'' @ e" "new_name f = CHR ''.'' # a @ ''.new'' @ e"
    "extension e" "e = [] \<longrightarrow> CHR ''.'' \<notin> set a" using names_form [of f] by blast
  obtain c e' where g: "g = c @ e'" "previous_name g = c @ ''.previous'' @ e'" "new_name g = CHR ''.'' # c @ ''.new'' @ e'"
    "extension e'" "e' = [] \<longrightarrow> CHR ''.'' \<notin> set c" using names_form [of g] by blast
  from assms have "a = c \<and> e = e'"
  proof
    assume "previous_name f = previous_name g"
    then show ?thesis using word_before_extension [of a "''previous''" e c e'] f g by simp
  next
    assume "new_name f = new_name g"
    then show ?thesis using word_before_extension [of a "''new''" e c e'] f g by simp
  qed
  then show ?thesis using f(1) g(1) by simp
qed

definition single_name :: "string \<Rightarrow> bool" where
  "single_name x = (x \<noteq> [] \<and> CHR ''/'' \<notin> set x \<and> x \<noteq> ''.'' \<and> x \<noteq> ''..'')"

lemma names_single:
  assumes "f \<noteq> []" "CHR ''/'' \<notin> set f" "hd f \<noteq> CHR ''.''"
  shows "single_name f \<and> single_name (previous_name f) \<and> single_name (new_name f) \<and> hd (previous_name f) = hd f \<and>
    hd (new_name f) = CHR ''.'' \<and> length f < length (previous_name f)"
proof -
  obtain a e where f: "f = a @ e" "previous_name f = a @ ''.previous'' @ e" "new_name f = CHR ''.'' # a @ ''.new'' @ e"
    "extension e" "e = [] \<longrightarrow> CHR ''.'' \<notin> set a" using names_form [of f] by blast
  then have "a \<noteq> []" using assms(1,3) by (auto simp: extension_def)
  then show ?thesis using assms f by (cases a) (auto simp: single_name_def)
qed

text \<open>The names that a logger uses for its log, the previous log and the new one are single path elements and
  all different; loggers with different logs use different names for them, and the temporary
  name of one is never the log or the previous log of another.\<close>

theorem setup_filenames_apart:
  assumes "setup_filenames s = (Inr (), s')" and "lg_use_file s'" and "setup_filenames t = (Inr (), t')" and "lg_use_file t'"
  shows "\<exists>f p n f' p' n'. lg_filename s' = Some f \<and> lg_previous_filename s' = Some p \<and> lg_new_filename s' = Some n \<and>
    lg_filename t' = Some f' \<and> lg_previous_filename t' = Some p' \<and> lg_new_filename t' = Some n' \<and>
    list_all single_name [f, p, n] \<and> distinct [f, p, n] \<and> n \<notin> {f', p'} \<and> (f \<noteq> f' \<longrightarrow> p \<noteq> p' \<and> n \<noteq> n')"
proof -
  obtain f where f: "lg_filename s' = Some f" "lg_previous_filename s' = Some (previous_name f)" "lg_new_filename s' = Some (new_name f)"
    "f \<noteq> []" "CHR ''/'' \<notin> set f" "hd f \<noteq> CHR ''.''" using setup_filenames_names [OF assms(1,2)] by blast
  obtain g where g: "lg_filename t' = Some g" "lg_previous_filename t' = Some (previous_name g)" "lg_new_filename t' = Some (new_name g)"
    "g \<noteq> []" "CHR ''/'' \<notin> set g" "hd g \<noteq> CHR ''.''" using setup_filenames_names [OF assms(3,4)] by blast
  have F: "single_name f" "single_name (previous_name f)" "single_name (new_name f)" "hd (previous_name f) = hd f" "hd (new_name f) = CHR ''.''"
    "length f < length (previous_name f)" using names_single [OF f(4,5,6)] by auto
  have G: "hd (previous_name g) = hd g" using names_single [OF g(4,5,6)] by auto
  have "distinct [f, previous_name f, new_name f]" using F f(6) by auto
  moreover have "new_name f \<noteq> g" "new_name f \<noteq> previous_name g" using F(5) G g(6) by auto
  ultimately show ?thesis using f(1,2,3) g(1,2,3) F(1,2,3) names_inj [of f g] by auto
qed

definition demo_named :: "string \<Rightarrow> logger" where
  "demo_named f = srt_logger_init\<lparr> lg_filename := Some f, lg_use_file := True \<rparr>"

theorem setup_filenames_apart_witness:
  "\<exists>p p' n n'. lg_previous_filename (snd (setup_filenames (demo_named ''a.txt''))) = Some p \<and>
     lg_previous_filename (snd (setup_filenames (demo_named ''a.previous''))) = Some p' \<and> p \<noteq> p' \<and>
     lg_new_filename (snd (setup_filenames (demo_named ''a.txt''))) = Some n \<and>
     lg_new_filename (snd (setup_filenames (demo_named ''a.previous''))) = Some n' \<and> n \<noteq> n'"
proof -
  have a: "setup_filenames (demo_named f) = (Inr (), snd (setup_filenames (demo_named f)))" "lg_use_file (snd (setup_filenames (demo_named f)))"
    "lg_filename (snd (setup_filenames (demo_named f))) = Some f"
    if "f = ''a.txt'' \<or> f = ''a.previous''" for f
    using that by (auto simp: setup_filenames_def demo_named_def INT_MAX_def split: option.split)
  show ?thesis using setup_filenames_apart [OF a(1,2) a(1,2), of "''a.txt''" "''a.previous''"] a(3) by auto
qed

section \<open>Size limits\<close>

text \<open>A size limit is accepted only if the product of number and unit is below the largest 64-bit number, so it
  never wraps around; the limit is exactly the product.\<close>

theorem opt_rotate_cb_exact:
  assumes "opt_rotate_cb value = Inr n"
  shows "\<exists>i rest. strtoll value 10 = (i, rest) \<and> 0 \<le> i \<and> rest \<noteq> value \<and> n = i * srt_byte_suffix_to_multiplier rest \<and>
    srt_byte_suffix_to_multiplier rest \<in> {1, 1000, 1024, 1000000, 1048576} \<and> 0 \<le> n \<and> n < 2 ^ 63 - 1 \<and>
    sint (word_of_int i * word_of_int (srt_byte_suffix_to_multiplier rest) :: 64 word) = n"
proof -
  obtain i rest where s: "strtoll value 10 = (i, rest)" by (cases "strtoll value 10") auto
  let ?u = "srt_byte_suffix_to_multiplier rest"
  have r: "0 \<le> i" "rest \<noteq> value" "?u \<noteq> 0" "i < (2 ^ 63 - 1) div ?u" "n = i * ?u"
    using assms s by (auto simp: opt_rotate_cb_def Let_def split: if_splits)
  have u: "?u \<in> {1, 1000, 1024, 1000000, 1048576}" using r(3)
    by (auto simp: srt_byte_suffix_to_multiplier_def byte_suffixes_def split: option.splits if_splits)
  then have pos: "0 < ?u" by auto
  have "i * ?u + ?u \<le> 2 ^ 63 - 1"
  proof -
    have "(i + 1) * ?u \<le> ((2 ^ 63 - 1) div ?u) * ?u" using r(4) pos by (intro mult_right_mono) auto
    also have "\<dots> \<le> 2 ^ 63 - 1" using pos div_mult_mod_eq [of "2 ^ 63 - 1" ?u] pos_mod_sign [OF pos, of "2 ^ 63 - 1"] by linarith
    finally show ?thesis by (simp add: algebra_simps)
  qed
  then have n: "0 \<le> n" "n < 2 ^ 63 - 1" using r(1,5) pos by auto
  have "sint (word_of_int (i * ?u) :: 64 word) = i * ?u"
    unfolding sint_sbintrunc' using n r(5) by (simp add: signed_take_bit_int_eq_self)
  then show ?thesis using s r n u by auto
qed

theorem opt_rotate_cb_exact_witness: "opt_rotate_cb ''0'' = Inr 0 \<and> (0 :: int) < 2 ^ 63 - 1"
  using opt_rotate_cb_exact [of "''0''" 0] opt_rotate_decimal [of 0] by (simp add: decimal_def print_nat.simps char_of_def bit_0)

end
