(* ===== verification/Preload.thy ===== *)
theory Preload imports PvUtils Exports begin

text \<open>
  Preloadable modules (\<open>LD_PRELOAD\<close> and \<open>LD_AUDIT\<close>) as \<open>pv-adverb\<close> handles them: the tables of
  architectures (\<open>pressure-vessel/supported-architectures.c\<close>), the command line form of a module and the
  search paths made from the modules (\<open>adverb-preload.c\<close>), and the directories with one member for each
  architecture (\<open>per-arch-dirs.c\<close>). The build is the one for x86, with two architectures.
\<close>

section \<open>Architectures\<close>

datatype machine_type = SRT_MACHINE_TYPE_UNKNOWN | SRT_MACHINE_TYPE_386 | SRT_MACHINE_TYPE_X86_64 | SRT_MACHINE_TYPE_AARCH64

record multiarch_details =
  ma_tuple :: string
  ma_machine_type :: machine_type
  ma_multilib :: "string list"
  ma_other_ld_so_cache :: "string list"
  ma_platforms :: "string list"
  ma_gameoverlayrenderer_dir :: string

definition PV_N_SUPPORTED_ARCHITECTURES :: nat where "PV_N_SUPPORTED_ARCHITECTURES = 2"

definition pv_multiarch_tuples :: "string list" where
  "pv_multiarch_tuples = [''x86_64-linux-gnu'', ''i386-linux-gnu'']"

definition pv_multiarch_details :: "multiarch_details list" where
  "pv_multiarch_details =
    [\<lparr> ma_tuple = ''x86_64-linux-gnu'',
       ma_machine_type = SRT_MACHINE_TYPE_X86_64,
       ma_multilib = [''x86_64-pc-linux-gnu/lib'', ''lib64''],
       ma_other_ld_so_cache = [''ld-x86_64-pc-linux-gnu.cache''],
       ma_platforms = [''xeon_phi'', ''haswell'', ''x86_64''],
       ma_gameoverlayrenderer_dir = ''ubuntu12_64'' \<rparr>,
     \<lparr> ma_tuple = ''i386-linux-gnu'',
       ma_machine_type = SRT_MACHINE_TYPE_386,
       ma_multilib = [''i686-pc-linux-gnu/lib'', ''lib32''],
       ma_other_ld_so_cache = [''ld-i686-pc-linux-gnu.cache''],
       ma_platforms = [''i686'', ''i586'', ''i486'', ''i386''],
       ma_gameoverlayrenderer_dir = ''ubuntu12_32'' \<rparr>]"

definition pv_multiarch_details_get_libdirs :: "glib \<Rightarrow> multiarch_details \<Rightarrow> bool \<Rightarrow> string list" where
  "pv_multiarch_details_get_libdirs G self remove_overridden =
     [g_build_filename G [''/lib'', ma_tuple self], g_build_filename G [''/usr'', ''lib'', ma_tuple self]]
     @ (if remove_overridden then [g_build_filename G [''/usr'', ''lib'', ma_tuple self, ''mesa'']] else [])
     @ concat (map (\<lambda>d. [g_build_filename G [''/'', d], g_build_filename G [''/usr'', d]]) (ma_multilib self))
     @ [''/lib'', ''/usr/lib'']"

definition pv_supported_architectures_include_machine_type :: "machine_type \<Rightarrow> bool" where
  "pv_supported_architectures_include_machine_type machine =
     (if machine = SRT_MACHINE_TYPE_UNKNOWN then False
      else list_ex (\<lambda>d. machine = ma_machine_type d) pv_multiarch_details)"

section \<open>Modules and their command line form\<close>

datatype preload_variable_index = PV_PRELOAD_VARIABLE_INDEX_LD_AUDIT | PV_PRELOAD_VARIABLE_INDEX_LD_PRELOAD

record preload_variable =
  pv_variable :: string
  pv_adverb_option :: string
  pv_separators :: string

fun pv_preload_variables :: "preload_variable_index \<Rightarrow> preload_variable" where
  "pv_preload_variables PV_PRELOAD_VARIABLE_INDEX_LD_AUDIT =
     \<lparr> pv_variable = ''LD_AUDIT'', pv_adverb_option = ''--ld-audit'', pv_separators = '':'' \<rparr>"
| "pv_preload_variables PV_PRELOAD_VARIABLE_INDEX_LD_PRELOAD =
     \<lparr> pv_variable = ''LD_PRELOAD'', pv_adverb_option = ''--ld-preload'', pv_separators = '': '' \<rparr>"

text \<open>\<open>PV_UNSPECIFIED_ABI\<close> is \<^const>\<open>None\<close>, any other index \<^const>\<open>Some\<close>; the name is a null pointer in
  \<open>PV_ADVERB_PRELOAD_MODULE_INIT\<close>.\<close>

record preload_module =
  pm_name :: "string option"
  pm_index :: preload_variable_index
  pm_abi :: "nat option"

definition PV_ADVERB_PRELOAD_MODULE_INIT :: preload_module where
  "PV_ADVERB_PRELOAD_MODULE_INIT = \<lparr> pm_name = None, pm_index = PV_PRELOAD_VARIABLE_INDEX_LD_AUDIT, pm_abi = None \<rparr>"

text \<open>The options after the first colon. An ABI that is not known is an error only if none was set before.\<close>

definition abi_of_tuple :: "string \<Rightarrow> nat option" where
  "abi_of_tuple architecture = find (\<lambda>abi. architecture = pv_multiarch_tuples ! abi) [0..<PV_N_SUPPORTED_ARCHITECTURES]"

fun parse_module_parts :: "string list \<Rightarrow> nat option \<Rightarrow> gerror + nat option" where
  "parse_module_parts [] abi_index = Inr abi_index"
| "parse_module_parts (part # parts) abi_index =
     (if g_str_has_prefix part ''abi='' then
        (let architecture = drop (length ''abi='') part;
             abi_index = (case abi_of_tuple architecture of Some abi \<Rightarrow> Some abi | None \<Rightarrow> abi_index)
         in if abi_index = None then Inl G_OPTION_ERROR_BAD_VALUE else parse_module_parts parts abi_index)
      else Inl G_OPTION_ERROR_BAD_VALUE)"

definition pv_adverb_preload_module_parse_adverb_cli ::
    "preload_module \<Rightarrow> preload_variable_index \<Rightarrow> string \<Rightarrow> gerror + preload_module" where
  "pv_adverb_preload_module_parse_adverb_cli self which value =
     (if \<not> (pm_name self = None \<and> pm_abi self = None) then Inl PRECONDITION_FAILED
      else (case g_strsplit value CHR '':'' of
          [] \<Rightarrow> Inr (self\<lparr> pm_index := which, pm_name := Some value, pm_abi := None \<rparr>)
        | value # parts \<Rightarrow> (case parse_module_parts parts None of
              Inl e \<Rightarrow> Inl e
            | Inr abi_index \<Rightarrow> Inr (self\<lparr> pm_index := which, pm_name := Some value, pm_abi := abi_index \<rparr>))))"

text \<open>\<^const>\<open>None\<close> is the null pointer that a failed precondition returns.\<close>

definition pv_adverb_preload_module_to_adverb_cli :: "preload_module \<Rightarrow> string option" where
  "pv_adverb_preload_module_to_adverb_cli self =
     (case pm_name self of
        None \<Rightarrow> None
      | Some name \<Rightarrow>
          if \<not> (case pm_abi self of None \<Rightarrow> True | Some abi \<Rightarrow> abi < PV_N_SUPPORTED_ARCHITECTURES) then None
          else Some (pv_adverb_option (pv_preload_variables (pm_index self)) @ ''='' @ name
            @ (case pm_abi self of None \<Rightarrow> [] | Some abi \<Rightarrow> '':abi='' @ pv_multiarch_tuples ! abi)))"

text \<open>The option callbacks of \<open>pv-adverb\<close> (\<open>adverb.c\<close>): the list is a null pointer until the first module.\<close>

definition adverb_opt_ld_something ::
    "preload_variable_index \<Rightarrow> string \<Rightarrow> preload_module list option \<Rightarrow> (gerror + unit) \<times> preload_module list option" where
  "adverb_opt_ld_something index value opt_preload_modules =
     (case pv_adverb_preload_module_parse_adverb_cli PV_ADVERB_PRELOAD_MODULE_INIT index value of
        Inl e \<Rightarrow> (Inl e, opt_preload_modules)
      | Inr module \<Rightarrow> (Inr (), Some ((case opt_preload_modules of None \<Rightarrow> [] | Some ms \<Rightarrow> ms) @ [module])))"

section \<open>Directories with a member for each architecture\<close>

text \<open>
  What the code learns from elsewhere: the expansions of \<open>$LIB\<close> and \<open>$PLATFORM\<close> for an architecture,
  which a helper process of that architecture reports, and the operations on temporary directories.
\<close>

record 'w dirs_host =
  dh_host :: "'w host"
  dh_libdl_lib :: "string \<Rightarrow> gerror + string"
  dh_libdl_platform :: "string \<Rightarrow> gerror + string"
  dh_dir_make_tmp :: "string \<Rightarrow> ('w, string) io"
  dh_mkdir_with_parents :: "string \<Rightarrow> nat \<Rightarrow> ('w, unit) sys"
  dh_rm_rf :: "string \<Rightarrow> ('w, unit) state"

record per_arch_dirs =
  pd_root_path :: string
  pd_libdl_token_path :: string
  pd_abi_paths :: "string list"

definition standardize_platform :: "glib \<Rightarrow> 'w dirs_host \<Rightarrow> bool" where
  "standardize_platform G D =
     (g_environ_getenv G (h_environ (dh_host D)) ''PRESSURE_VESSEL_TEST_STANDARDIZE_PLATFORM'' \<noteq> None)"

definition get_libdl_lib_or_mock :: "glib \<Rightarrow> 'w dirs_host \<Rightarrow> nat \<Rightarrow> gerror + string" where
  "get_libdl_lib_or_mock G D abi =
     (if standardize_platform G D then Inl (G_IO_ERROR IO_FAILED)
      else dh_libdl_lib D (ma_tuple (pv_multiarch_details ! abi)))"

definition get_libdl_platform_or_mock :: "glib \<Rightarrow> 'w dirs_host \<Rightarrow> nat \<Rightarrow> gerror + string" where
  "get_libdl_platform_or_mock G D abi =
     (if standardize_platform G D then Inr (hd (ma_platforms (pv_multiarch_details ! abi)))
      else dh_libdl_platform D (ma_tuple (pv_multiarch_details ! abi)))"

datatype dirs_scheme = PV_PER_ARCH_DIRS_SCHEME_NONE | PV_PER_ARCH_DIRS_SCHEME_MULTIARCH
  | PV_PER_ARCH_DIRS_SCHEME_UBUNTU_1204 | PV_PER_ARCH_DIRS_SCHEME_FHS | PV_PER_ARCH_DIRS_SCHEME_ARCH
  | PV_PER_ARCH_DIRS_SCHEME_LIBQUAL | PV_PER_ARCH_DIRS_SCHEME_PLATFORM

definition multiarch_libs :: "string list" where "multiarch_libs = [''lib/x86_64-linux-gnu'', ''lib/i386-linux-gnu'']"
definition fhs_libs :: "string list" where "fhs_libs = [''lib64'', ''lib'']"
definition arch_libs :: "string list" where "arch_libs = [''lib'', ''lib32'']"
definition libqual_libs :: "string list" where "libqual_libs = [''lib64'', ''lib32'']"

fun scheme_supports_abi :: "glib \<Rightarrow> 'w dirs_host \<Rightarrow> dirs_scheme \<Rightarrow> nat \<Rightarrow> bool" where
  "scheme_supports_abi G D PV_PER_ARCH_DIRS_SCHEME_MULTIARCH abi =
     (g_str_has_prefix (multiarch_libs ! abi) ''lib/''
      \<and> drop 4 (multiarch_libs ! abi) = ma_tuple (pv_multiarch_details ! abi)
      \<and> get_libdl_lib_or_mock G D abi = Inr (multiarch_libs ! abi))"
| "scheme_supports_abi G D PV_PER_ARCH_DIRS_SCHEME_UBUNTU_1204 abi =
     (get_libdl_lib_or_mock G D abi = Inr (ma_tuple (pv_multiarch_details ! abi)))"
| "scheme_supports_abi G D PV_PER_ARCH_DIRS_SCHEME_FHS abi = (get_libdl_lib_or_mock G D abi = Inr (fhs_libs ! abi))"
| "scheme_supports_abi G D PV_PER_ARCH_DIRS_SCHEME_ARCH abi = (get_libdl_lib_or_mock G D abi = Inr (arch_libs ! abi))"
| "scheme_supports_abi G D PV_PER_ARCH_DIRS_SCHEME_LIBQUAL abi = (get_libdl_lib_or_mock G D abi = Inr (libqual_libs ! abi))"
| "scheme_supports_abi G D PV_PER_ARCH_DIRS_SCHEME_PLATFORM abi = (\<not> isl (get_libdl_platform_or_mock G D abi))"
| "scheme_supports_abi G D PV_PER_ARCH_DIRS_SCHEME_NONE abi = False"

definition pv_per_arch_dirs_supports_scheme :: "glib \<Rightarrow> 'w dirs_host \<Rightarrow> dirs_scheme \<Rightarrow> bool" where
  "pv_per_arch_dirs_supports_scheme G D scheme =
     list_all (scheme_supports_abi G D scheme) [0..<PV_N_SUPPORTED_ARCHITECTURES]"

definition pv_per_arch_dirs_free :: "'w dirs_host \<Rightarrow> per_arch_dirs \<Rightarrow> ('w, unit) state" where
  "pv_per_arch_dirs_free D self = dh_rm_rf D (pd_root_path self)"

fun platform_paths :: "glib \<Rightarrow> 'w dirs_host \<Rightarrow> string \<Rightarrow> nat list \<Rightarrow> gerror + string list" where
  "platform_paths G D root [] = Inr []"
| "platform_paths G D root (abi # abis) =
     (case get_libdl_platform_or_mock G D abi of
        Inl e \<Rightarrow> Inl e
      | Inr libdl_platform \<Rightarrow> (case platform_paths G D root abis of
            Inl e \<Rightarrow> Inl e
          | Inr ps \<Rightarrow> Inr (g_build_filename G [root, libdl_platform] # ps)))"

text \<open>The choice of the token and of the directories, below the temporary directory.\<close>

definition choose_dirs :: "glib \<Rightarrow> 'w dirs_host \<Rightarrow> string \<Rightarrow> gerror + per_arch_dirs" where
  "choose_dirs G D root =
     (let dirs = (\<lambda>token libs. Inr \<lparr> pd_root_path = root, pd_libdl_token_path = g_build_filename G [root, token],
                                     pd_abi_paths = map (\<lambda>l. g_build_filename G [root, l]) libs \<rparr>)
      in if pv_per_arch_dirs_supports_scheme G D PV_PER_ARCH_DIRS_SCHEME_MULTIARCH then dirs ''${LIB}'' multiarch_libs
         else if pv_per_arch_dirs_supports_scheme G D PV_PER_ARCH_DIRS_SCHEME_UBUNTU_1204 then dirs ''lib/${LIB}'' multiarch_libs
         else if pv_per_arch_dirs_supports_scheme G D PV_PER_ARCH_DIRS_SCHEME_FHS then dirs ''${LIB}'' fhs_libs
         else if pv_per_arch_dirs_supports_scheme G D PV_PER_ARCH_DIRS_SCHEME_ARCH then dirs ''${LIB}'' arch_libs
         else if pv_per_arch_dirs_supports_scheme G D PV_PER_ARCH_DIRS_SCHEME_LIBQUAL then dirs ''${LIB}'' libqual_libs
         else (case platform_paths G D root [0..<PV_N_SUPPORTED_ARCHITECTURES] of
             Inl e \<Rightarrow> Inl e
           | Inr paths \<Rightarrow> Inr \<lparr> pd_root_path = root, pd_libdl_token_path = g_build_filename G [root, ''${PLATFORM}''],
                              pd_abi_paths = paths \<rparr>))"

fun make_abi_dirs :: "'w dirs_host \<Rightarrow> string list \<Rightarrow> ('w, errno + unit) state" where
  "make_abi_dirs D [] = State_Monad.return (Inr ())"
| "make_abi_dirs D (p # ps) = do {
     r \<leftarrow> dh_mkdir_with_parents D p 448;
     (case r of Inl e \<Rightarrow> State_Monad.return (Inl e) | Inr _ \<Rightarrow> make_abi_dirs D ps) }"

text \<open>On failure the temporary directory is removed again.\<close>

definition pv_per_arch_dirs_new :: "glib \<Rightarrow> 'w dirs_host \<Rightarrow> ('w, per_arch_dirs) io" where
  "pv_per_arch_dirs_new G D = do {
     r \<leftarrow> dh_dir_make_tmp D ''pressure-vessel-libs-XXXXXX'';
     (case r of
        Inl e \<Rightarrow> State_Monad.return (Inl e)
      | Inr root \<Rightarrow> (case choose_dirs G D root of
            Inl e \<Rightarrow> do { dh_rm_rf D root; State_Monad.return (Inl e) }
          | Inr self \<Rightarrow> do {
              m \<leftarrow> make_abi_dirs D (pd_abi_paths self);
              (case m of
                 Inl e \<Rightarrow> do { pv_per_arch_dirs_free D self; State_Monad.return (Inl (throw_errno e)) }
               | Inr _ \<Rightarrow> State_Monad.return (Inr self)) })) }"

definition g_file_test_is_dir :: "'w kernel \<Rightarrow> string \<Rightarrow> ('w, bool) state" where
  "g_file_test_is_dir K path = do {
     r \<leftarrow> sys_fstatat K AT_FDCWD path {};
     State_Monad.return (case r of Inl _ \<Rightarrow> False | Inr st \<Rightarrow> S_ISDIR (st_mode st)) }"

fun link_overrides :: "glib \<Rightarrow> 'w kernel \<Rightarrow> string \<Rightarrow> per_arch_dirs \<Rightarrow> nat list \<Rightarrow> ('w, errno + unit) state" where
  "link_overrides G K overrides dirs [] = State_Monad.return (Inr ())"
| "link_overrides G K overrides dirs (abi # abis) =
     (let abi_path = g_build_filename G [pd_abi_paths dirs ! abi, ''vdpau''];
          target = g_build_filename G [overrides, ''lib'', ma_tuple (pv_multiarch_details ! abi), ''vdpau'']
      in do {
        d \<leftarrow> g_file_test_is_dir K target;
        (if \<not> d then link_overrides G K overrides dirs abis
         else do {
           r \<leftarrow> sys_symlinkat K target AT_FDCWD abi_path;
           (case r of
              Inl e \<Rightarrow> State_Monad.return (Inl e)
            | Inr _ \<Rightarrow> link_overrides G K overrides dirs abis) }) })"

definition pv_adverb_set_up_overrides ::
    "glib \<Rightarrow> 'w kernel \<Rightarrow> bwrap \<Rightarrow> per_arch_dirs option \<Rightarrow> string \<Rightarrow> ('w, gerror + bwrap) state" where
  "pv_adverb_set_up_overrides G K wrapped_command lib_temp_dirs overrides =
     (case lib_temp_dirs of
        None \<Rightarrow> State_Monad.return (Inl (G_IO_ERROR IO_FAILED))
      | Some dirs \<Rightarrow> do {
          r \<leftarrow> link_overrides G K overrides dirs [0..<PV_N_SUPPORTED_ARCHITECTURES];
          State_Monad.return (case r of
              Inl e \<Rightarrow> Inl (throw_errno e)
            | Inr _ \<Rightarrow> Inr (flatpak_bwrap_set_env G wrapped_command ''VDPAU_DRIVER_PATH''
                            (g_build_filename G [pd_libdl_token_path dirs, ''vdpau'']) True)) })"

section \<open>The search paths\<close>

definition ptr_array_add_unique :: "string list \<Rightarrow> string \<Rightarrow> string list" where
  "ptr_array_add_unique arr item = (if item \<in> set arr then arr else arr @ [item])"

text \<open>The architecture of a module: the Steam overlay is recognised by its directory.\<close>

definition overlay_abi :: "string \<Rightarrow> nat option" where
  "overlay_abi preload =
     find (\<lambda>abi. g_str_has_suffix preload (''/'' @ ma_gameoverlayrenderer_dir (pv_multiarch_details ! abi) @ ''/gameoverlayrenderer.so''))
       [0..<PV_N_SUPPORTED_ARCHITECTURES]"

definition module_abi :: "preload_module \<Rightarrow> string \<Rightarrow> nat option" where
  "module_abi module preload =
     (if pm_abi module = None \<and> pm_index module = PV_PRELOAD_VARIABLE_INDEX_LD_PRELOAD
         \<and> glnx_basename preload = ''gameoverlayrenderer.so''
      then overlay_abi preload else pm_abi module)"

text \<open>\<^const>\<open>None\<close>: the assertion that there is a name fails.\<close>

definition do_one_preload_module :: "glib \<Rightarrow> 'w kernel \<Rightarrow> preload_module \<Rightarrow> string list \<Rightarrow> per_arch_dirs option \<Rightarrow>
    ('w, string list option) state" where
  "do_one_preload_module G K module search_path lib_temp_dirs =
     (case pm_name module of
        None \<Rightarrow> State_Monad.return None
      | Some preload \<Rightarrow>
          if preload = [] then State_Monad.return (Some search_path)
          else (case lib_temp_dirs of
              None \<Rightarrow> State_Monad.return (Some (search_path @ [preload]))
            | Some dirs \<Rightarrow> (case module_abi module preload of
                  None \<Rightarrow> State_Monad.return (Some (search_path @ [preload]))
                | Some abi_index \<Rightarrow>
                    (let base = glnx_basename preload;
                         platform_path = g_build_filename G [pd_libdl_token_path dirs, base];
                         link = g_build_filename G [pd_abi_paths dirs ! abi_index, base]
                     in do {
                       r \<leftarrow> sys_symlinkat K preload AT_FDCWD link;
                       (case r of
                          Inr _ \<Rightarrow> State_Monad.return (Some (ptr_array_add_unique search_path platform_path))
                        | Inl e \<Rightarrow>
                            if e = EEXIST then do {
                              found \<leftarrow> glnx_readlinkat_malloc K (- 1) link;
                              State_Monad.return (Some (if found = Inr preload
                                then ptr_array_add_unique search_path platform_path
                                else search_path @ [preload])) }
                            else State_Monad.return (Some (search_path @ [preload]))) }))))"

fun preload_loop :: "glib \<Rightarrow> 'w kernel \<Rightarrow> per_arch_dirs option \<Rightarrow> preload_module list \<Rightarrow>
    (preload_variable_index \<Rightarrow> string list option) \<Rightarrow> ('w, (preload_variable_index \<Rightarrow> string list option) option) state" where
  "preload_loop G K lib_temp_dirs [] paths = State_Monad.return (Some paths)"
| "preload_loop G K lib_temp_dirs (module # modules) paths =
     (let search_path = (case paths (pm_index module) of None \<Rightarrow> [] | Some p \<Rightarrow> p) in do {
        r \<leftarrow> do_one_preload_module G K module search_path lib_temp_dirs;
        (case r of
           None \<Rightarrow> State_Monad.return None
         | Some search_path \<Rightarrow> preload_loop G K lib_temp_dirs modules (paths(pm_index module := Some search_path))) })"

definition search_path_buffer :: "string list option \<Rightarrow> string" where
  "search_path_buffer search_path =
     (case search_path of None \<Rightarrow> [] | Some items \<Rightarrow> foldl (\<lambda>buffer item. pv_search_path_append buffer (Some item)) [] items)"

definition set_preload_variable :: "glib \<Rightarrow> preload_variable_index \<Rightarrow> string list option \<Rightarrow> bwrap \<Rightarrow> bwrap" where
  "set_preload_variable G i search_path wrapped_command =
     (let buffer = search_path_buffer search_path
      in if buffer \<noteq> [] then flatpak_bwrap_set_env G wrapped_command (pv_variable (pv_preload_variables i)) buffer True
         else wrapped_command)"

definition pv_adverb_set_up_preload_modules :: "glib \<Rightarrow> 'w kernel \<Rightarrow> bwrap \<Rightarrow> per_arch_dirs option \<Rightarrow> preload_module list \<Rightarrow>
    ('w, bwrap option) state" where
  "pv_adverb_set_up_preload_modules G K wrapped_command lib_temp_dirs preload_modules = do {
     r \<leftarrow> preload_loop G K lib_temp_dirs preload_modules (\<lambda>_. None);
     State_Monad.return (case r of
         None \<Rightarrow> None
       | Some paths \<Rightarrow>
           Some (set_preload_variable G PV_PRELOAD_VARIABLE_INDEX_LD_PRELOAD (paths PV_PRELOAD_VARIABLE_INDEX_LD_PRELOAD)
                  (set_preload_variable G PV_PRELOAD_VARIABLE_INDEX_LD_AUDIT (paths PV_PRELOAD_VARIABLE_INDEX_LD_AUDIT)
                    wrapped_command))) }"

end
