(* ===== verification/PreloadLoad.thy ===== *)
theory PreloadLoad imports Preload ExportsSafe begin

text \<open>
  What the dynamic linker makes of the search paths of \<open>Preload\<close>. The linker and \<open>g_build_filename\<close> are
  parameters with their documented behaviour (\<open>dl_tokens\<close>, \<open>file_joiner\<close>); \<open>private_dirs\<close> is the contract of
  the directories that \<open>pv_per_arch_dirs_new\<close> makes, on which the lemmas about modules rest.
\<close>

section \<open>Clean paths\<close>

definition relative_clean :: "string \<Rightarrow> bool" where
  "relative_clean p = (segs p \<noteq> [] \<and> p = join_segs (segs p))"

definition clean :: "string \<Rightarrow> bool" where
  "clean p = (segs p \<noteq> [] \<and> (p = join_segs (segs p) \<or> p = CHR ''/'' # join_segs (segs p)))"

definition plain_text :: "string \<Rightarrow> bool" where
  "plain_text p = (CHR ''$'' \<notin> set p \<and> CHR '':'' \<notin> set p \<and> CHR '' '' \<notin> set p)"

definition base_ok :: "string \<Rightarrow> bool" where
  "base_ok b = (seg_ok b \<and> plain_text b)"

lemma join_segs_append:
  "xs \<noteq> [] \<Longrightarrow> ys \<noteq> [] \<Longrightarrow> join_segs (xs @ ys) = join_segs xs @ CHR ''/'' # join_segs ys"
  by (induction xs rule: join_segs.induct) (auto simp: neq_Nil_conv)

lemma clean_append:
  assumes "clean a" "relative_clean b"
  shows "clean (a @ CHR ''/'' # b)" "segs (a @ CHR ''/'' # b) = segs a @ segs b"
proof -
  show s: "segs (a @ CHR ''/'' # b) = segs a @ segs b" by (simp add: segs_append_slash)
  show "clean (a @ CHR ''/'' # b)"
    using assms unfolding clean_def relative_clean_def s by (auto simp: join_segs_append)
qed

lemma relative_clean_seg: "seg_ok b \<Longrightarrow> relative_clean b"
  by (auto simp: relative_clean_def seg_ok_def segs_single)

section \<open>Contracts\<close>

text \<open>Joining two parts without superfluous slashes puts one slash between them.\<close>

locale file_joiner =
  fixes build :: "string list \<Rightarrow> string"
  assumes build_exact: "clean a \<Longrightarrow> relative_clean b \<Longrightarrow> build [a, b] = a @ CHR ''/'' # b"

text \<open>The dynamic string tokens of \<open>ld.so\<close>, for the linker of each architecture.\<close>

locale dl_tokens =
  fixes expand :: "nat \<Rightarrow> string \<Rightarrow> string" and lib platform :: "nat \<Rightarrow> string"
  assumes expand_plain: "CHR ''$'' \<notin> set p \<Longrightarrow> expand abi p = p"
    and expand_lib: "CHR ''$'' \<notin> set p \<Longrightarrow> expand abi (p @ ''${LIB}'' @ s) = p @ lib abi @ expand abi s"
    and expand_platform: "CHR ''$'' \<notin> set p \<Longrightarrow> expand abi (p @ ''${PLATFORM}'' @ s) = p @ platform abi @ expand abi s"

text \<open>Private directories: the token path leads the linker of each architecture into its own one.\<close>

locale private_dirs =
  fixes build :: "string list \<Rightarrow> string" and expand :: "nat \<Rightarrow> string \<Rightarrow> string" and dirs :: per_arch_dirs
  assumes token_expands: "abi < PV_N_SUPPORTED_ARCHITECTURES \<Longrightarrow> base_ok b \<Longrightarrow>
      expand abi (build [pd_libdl_token_path dirs, b]) = build [pd_abi_paths dirs ! abi, b]"
    and plain_expands: "plain_text p \<Longrightarrow> expand abi p = p"
    and token_item: "base_ok b \<Longrightarrow> build [pd_libdl_token_path dirs, b] \<noteq> []
      \<and> CHR '':'' \<notin> set (build [pd_libdl_token_path dirs, b]) \<and> CHR '' '' \<notin> set (build [pd_libdl_token_path dirs, b])"
    and members_apart: "abi < PV_N_SUPPORTED_ARCHITECTURES \<Longrightarrow> abi' < PV_N_SUPPORTED_ARCHITECTURES \<Longrightarrow> base_ok b \<Longrightarrow> base_ok b' \<Longrightarrow>
      build [pd_abi_paths dirs ! abi, b] = build [pd_abi_paths dirs ! abi', b'] \<Longrightarrow> abi = abi' \<and> b = b'"

section \<open>Reference instances\<close>

lemma ref_build_exact: "clean a \<Longrightarrow> relative_clean b \<Longrightarrow> ref_build [a, b] = a @ CHR ''/'' # b"
proof -
  assume a: "clean a" and b: "relative_clean b"
  have ne: "a \<noteq> []" "b \<noteq> []" using a b by (auto simp: clean_def relative_clean_def)
  have r: "\<not> absolute (join_segs (segs a))"
    using a hd_join_segs [OF list_all_segs] by (auto simp: clean_def)
  obtain x where x: "join_segs (segs a) = x" by blast
  have "a = x \<or> a = CHR ''/'' # x" using a x by (auto simp: clean_def)
  moreover have "\<not> absolute x" using r x by simp
  ultimately have "(if absolute a then ''/'' else []) @ x = a" by (auto simp: absolute_def)
  moreover have "join_segs (segs a @ segs b) = x @ CHR ''/'' # b"
    using a b x by (auto simp: clean_def relative_clean_def join_segs_append)
  ultimately show ?thesis using ne by (simp add: ref_build_def)
qed

interpretation ref_joiner: file_joiner "g_build_filename glib_ref"
  by unfold_locales (simp add: glib_ref_def ref_build_exact)

function ref_expand :: "string \<Rightarrow> string \<Rightarrow> string \<Rightarrow> string" where
  "ref_expand l p s =
     (if g_str_has_prefix s ''${LIB}'' then l @ ref_expand l p (drop 6 s)
      else if g_str_has_prefix s ''${PLATFORM}'' then p @ ref_expand l p (drop 11 s)
      else (case s of [] \<Rightarrow> [] | c # cs \<Rightarrow> c # ref_expand l p cs))"
  by pat_completeness auto
termination
  by (relation "measure (\<lambda>(l, p, s). length s)") (auto simp: g_str_has_prefix_iff)

declare ref_expand.simps [simp del]

lemma ref_expand_Nil [simp]: "ref_expand l p [] = []"
  by (simp add: ref_expand.simps [of _ _ "[]"] g_str_has_prefix_def)

lemma ref_expand_plain_append: "CHR ''$'' \<notin> set q \<Longrightarrow> ref_expand l p (q @ s) = q @ ref_expand l p s"
proof (induction q)
  case (Cons c q)
  then have "c \<noteq> CHR ''$''" by auto
  with Cons show ?case by (simp add: ref_expand.simps [of l p "c # q @ s"] g_str_has_prefix_def)
qed simp

lemma ref_expand_tokens:
  "ref_expand l p (''${LIB}'' @ s) = l @ ref_expand l p s"
  "ref_expand l p (''${PLATFORM}'' @ s) = p @ ref_expand l p s"
  by (simp_all add: ref_expand.simps [of _ _ "_ # _"] g_str_has_prefix_def)

definition demo_lib :: "nat \<Rightarrow> string" where "demo_lib abi = multiarch_libs ! abi"
definition demo_platform :: "nat \<Rightarrow> string" where "demo_platform abi = hd (ma_platforms (pv_multiarch_details ! abi))"
definition demo_expand :: "nat \<Rightarrow> string \<Rightarrow> string" where "demo_expand abi s = ref_expand (demo_lib abi) (demo_platform abi) s"

interpretation ref_tokens: dl_tokens demo_expand demo_lib demo_platform
proof
  fix p s :: string and abi
  assume p: "CHR ''$'' \<notin> set p"
  show "demo_expand abi p = p" using ref_expand_plain_append [OF p, of _ _ "[]"] by (simp add: demo_expand_def)
  show "demo_expand abi (p @ ''${LIB}'' @ s) = p @ demo_lib abi @ demo_expand abi s"
    unfolding demo_expand_def ref_expand_plain_append [OF p] ref_expand_tokens by simp
  show "demo_expand abi (p @ ''${PLATFORM}'' @ s) = p @ demo_platform abi @ demo_expand abi s"
    unfolding demo_expand_def ref_expand_plain_append [OF p] ref_expand_tokens by simp
qed

section \<open>The directories of \<open>pv_per_arch_dirs_new\<close>\<close>

lemma abi_less: "abi < PV_N_SUPPORTED_ARCHITECTURES \<longleftrightarrow> abi = 0 \<or> abi = 1"
  by (auto simp: PV_N_SUPPORTED_ARCHITECTURES_def)

lemma upt_abi: "[0..<PV_N_SUPPORTED_ARCHITECTURES] = [0, 1]"
  by (simp add: PV_N_SUPPORTED_ARCHITECTURES_def upt_rec)

lemma last_slash_eq:
  assumes "a @ CHR ''/'' # b = a' @ CHR ''/'' # b'" "seg_ok b" "seg_ok b'"
  shows "a = a' \<and> b = b'"
proof -
  have "strrchr (a @ CHR ''/'' # b) CHR ''/'' = Some (a, b)" "strrchr (a' @ CHR ''/'' # b') CHR ''/'' = Some (a', b')"
    using assms(2,3) by (simp_all add: strrchr_Some_iff seg_ok_def)
  then show ?thesis using assms(1) by (metis option.inject prod.inject)
qed

text \<open>A choice of a token and of one directory for each architecture below a temporary directory.\<close>

definition dirs_below :: "(string list \<Rightarrow> string) \<Rightarrow> string \<Rightarrow> string \<Rightarrow> string list \<Rightarrow> per_arch_dirs" where
  "dirs_below build root token libs = \<lparr> pd_root_path = root, pd_libdl_token_path = build [root, token],
     pd_abi_paths = map (\<lambda>l. build [root, l]) libs \<rparr>"

definition token_ok :: "(nat \<Rightarrow> string \<Rightarrow> string) \<Rightarrow> string \<Rightarrow> string list \<Rightarrow> bool" where
  "token_ok expand token libs =
     (relative_clean token \<and> CHR '':'' \<notin> set token \<and> CHR '' '' \<notin> set token
      \<and> length libs = PV_N_SUPPORTED_ARCHITECTURES \<and> (\<forall>l \<in> set libs. relative_clean l)
      \<and> (\<forall>abi < PV_N_SUPPORTED_ARCHITECTURES. \<forall>p s. CHR ''$'' \<notin> set p \<longrightarrow>
           expand abi (p @ token @ s) = p @ libs ! abi @ expand abi s))"

context file_joiner begin

lemma build_members:
  assumes "clean root" "relative_clean t" "base_ok b"
  shows "build [build [root, t], b] = root @ CHR ''/'' # t @ CHR ''/'' # b"
  using build_exact [OF assms(1,2)] build_exact [OF clean_append(1) [OF assms(1,2)] relative_clean_seg, of b] assms(3)
  by (simp add: base_ok_def)

lemma dirs_below_token:
  assumes root: "clean root" "plain_text root" and tok: "token_ok expand token libs"
    and tokens: "dl_tokens expand lib platform" and b: "base_ok b"
  shows "abi < PV_N_SUPPORTED_ARCHITECTURES \<Longrightarrow>
      expand abi (build [pd_libdl_token_path (dirs_below build root token libs), b]) =
      build [pd_abi_paths (dirs_below build root token libs) ! abi, b]"
    and "build [pd_libdl_token_path (dirs_below build root token libs), b] = root @ CHR ''/'' # token @ CHR ''/'' # b"
    and "abi < PV_N_SUPPORTED_ARCHITECTURES \<Longrightarrow>
      build [pd_abi_paths (dirs_below build root token libs) ! abi, b] = (root @ CHR ''/'' # libs ! abi) @ CHR ''/'' # b"
proof -
  have len: "length libs = PV_N_SUPPORTED_ARCHITECTURES" and t: "relative_clean token"
    and l: "abi < PV_N_SUPPORTED_ARCHITECTURES \<Longrightarrow> relative_clean (libs ! abi)"
    using tok by (auto simp: token_ok_def)
  note members = build_members [OF root(1) _ b]
  show item: "build [pd_libdl_token_path (dirs_below build root token libs), b] = root @ CHR ''/'' # token @ CHR ''/'' # b"
    using members [OF t] by (simp add: dirs_below_def)
  assume abi: "abi < PV_N_SUPPORTED_ARCHITECTURES"
  then show member: "build [pd_abi_paths (dirs_below build root token libs) ! abi, b] = (root @ CHR ''/'' # libs ! abi) @ CHR ''/'' # b"
    using members [OF l] len by (simp add: dirs_below_def)
  have "CHR ''$'' \<notin> set (root @ ''/'')" using root(2) by (auto simp: plain_text_def)
  then have "expand abi ((root @ ''/'') @ token @ CHR ''/'' # b) = (root @ ''/'') @ libs ! abi @ expand abi (CHR ''/'' # b)"
    using tok abi unfolding token_ok_def by blast
  also have "expand abi (CHR ''/'' # b) = CHR ''/'' # b"
    using dl_tokens.expand_plain [OF tokens, of "CHR ''/'' # b" abi] b by (simp add: base_ok_def plain_text_def)
  finally show "expand abi (build [pd_libdl_token_path (dirs_below build root token libs), b]) =
      build [pd_abi_paths (dirs_below build root token libs) ! abi, b]"
    unfolding item member by simp
qed

lemma dirs_below_private:
  assumes root: "clean root" "plain_text root" and tok: "token_ok expand token libs"
    and tokens: "dl_tokens expand lib platform" and dist: "distinct libs"
  shows "private_dirs build expand (dirs_below build root token libs)"
proof
  note below = dirs_below_token [OF root tok tokens]
  fix abi abi' b b' p
  show "abi < PV_N_SUPPORTED_ARCHITECTURES \<Longrightarrow> base_ok b \<Longrightarrow>
      expand abi (build [pd_libdl_token_path (dirs_below build root token libs), b]) =
      build [pd_abi_paths (dirs_below build root token libs) ! abi, b]"
    by (rule below(1))
  show "plain_text p \<Longrightarrow> expand abi p = p"
    using dl_tokens.expand_plain [OF tokens, of p abi] by (simp add: plain_text_def)
  show "build [pd_libdl_token_path (dirs_below build root token libs), b] \<noteq> []
      \<and> CHR '':'' \<notin> set (build [pd_libdl_token_path (dirs_below build root token libs), b])
      \<and> CHR '' '' \<notin> set (build [pd_libdl_token_path (dirs_below build root token libs), b])" if "base_ok b"
    using that root tok unfolding below(2) [OF that] by (auto simp: plain_text_def base_ok_def token_ok_def)
  assume abi: "abi < PV_N_SUPPORTED_ARCHITECTURES" "abi' < PV_N_SUPPORTED_ARCHITECTURES" and b: "base_ok b" "base_ok b'"
    and "build [pd_abi_paths (dirs_below build root token libs) ! abi, b] =
      build [pd_abi_paths (dirs_below build root token libs) ! abi', b']"
  then have "libs ! abi = libs ! abi' \<and> b = b'"
    unfolding below(3) [OF b(1) abi(1)] below(3) [OF b(2) abi(2)] by (auto simp: base_ok_def dest!: last_slash_eq)
  then show "abi = abi' \<and> b = b'" using dist abi tok by (simp add: token_ok_def nth_eq_iff_index_eq)
qed

end

text \<open>What the helper processes report is what the linkers do, or nothing.\<close>

definition helpers_truthful :: "'w dirs_host \<Rightarrow> (nat \<Rightarrow> string) \<Rightarrow> (nat \<Rightarrow> string) \<Rightarrow> bool" where
  "helpers_truthful D lib platform =
     (\<forall>abi < PV_N_SUPPORTED_ARCHITECTURES. let tuple = ma_tuple (pv_multiarch_details ! abi) in
        (\<forall>l. dh_libdl_lib D tuple = Inr l \<longrightarrow> l = lib abi) \<and> (\<forall>p. dh_libdl_platform D tuple = Inr p \<longrightarrow> p = platform abi)
        \<and> relative_clean (platform abi))"

lemma static_libs_clean:
  "\<forall>l \<in> set (multiarch_libs @ fhs_libs @ arch_libs @ libqual_libs). relative_clean l"
  "relative_clean ''${LIB}''" "relative_clean ''lib/${LIB}''" "relative_clean ''${PLATFORM}''"
  by code_simp+

lemma static_libs_distinct: "distinct multiarch_libs" "distinct fhs_libs" "distinct arch_libs" "distinct libqual_libs"
  by (simp_all add: multiarch_libs_def fhs_libs_def arch_libs_def libqual_libs_def)

lemma static_libs_length: "length multiarch_libs = 2" "length fhs_libs = 2" "length arch_libs = 2" "length libqual_libs = 2"
  by (simp_all add: multiarch_libs_def fhs_libs_def arch_libs_def libqual_libs_def)

lemma multiarch_libs_nth: "abi = 0 \<or> abi = 1 \<Longrightarrow> multiarch_libs ! abi = ''lib/'' @ ma_tuple (pv_multiarch_details ! abi)"
  by (auto simp: multiarch_libs_def pv_multiarch_details_def)

context dl_tokens begin

lemma token_ok_LIB:
  assumes "length libs = 2" "\<forall>l \<in> set libs. relative_clean l" "lib 0 = libs ! 0" "lib 1 = libs ! 1"
  shows "token_ok expand ''${LIB}'' libs"
  using assms static_libs_clean(2) expand_lib unfolding token_ok_def abi_less
  by (auto simp: PV_N_SUPPORTED_ARCHITECTURES_def)

lemma token_ok_lib_LIB:
  assumes l: "lib 0 = ma_tuple (pv_multiarch_details ! 0)" "lib 1 = ma_tuple (pv_multiarch_details ! 1)"
  shows "token_ok expand ''lib/${LIB}'' multiarch_libs"
proof -
  have "expand abi (p @ ''lib/${LIB}'' @ s) = p @ multiarch_libs ! abi @ expand abi s"
    if "abi < PV_N_SUPPORTED_ARCHITECTURES" "CHR ''$'' \<notin> set p" for abi p s
    using expand_lib [of "p @ ''lib/''" abi s] that l multiarch_libs_nth [of abi] by (auto simp: abi_less)
  then show ?thesis
    using static_libs_clean(1,3) static_libs_length
    unfolding token_ok_def by (auto simp: PV_N_SUPPORTED_ARCHITECTURES_def)
qed

lemma token_ok_PLATFORM:
  assumes "relative_clean (platform 0)" "relative_clean (platform 1)"
  shows "token_ok expand ''${PLATFORM}'' [platform 0, platform 1]"
  using assms static_libs_clean(4) expand_platform unfolding token_ok_def abi_less
  by (auto simp: PV_N_SUPPORTED_ARCHITECTURES_def)

lemma choose_dirs_token_ok:
  assumes D: "helpers_truthful D lib platform" "\<not> standardize_platform G D"
    and r: "choose_dirs G D root = Inr dirs"
  shows "\<exists>token libs. dirs = dirs_below (g_build_filename G) root token libs \<and> token_ok expand token libs
    \<and> (platform 0 \<noteq> platform 1 \<longrightarrow> distinct libs)"
proof -
  define sup where "sup = pv_per_arch_dirs_supports_scheme G D"
  let ?b = "dirs_below (g_build_filename G) root"
  have truth: "\<And>l. get_libdl_lib_or_mock G D 0 = Inr l \<Longrightarrow> l = lib 0" "\<And>l. get_libdl_lib_or_mock G D 1 = Inr l \<Longrightarrow> l = lib 1"
    "\<And>l. get_libdl_platform_or_mock G D 0 = Inr l \<Longrightarrow> l = platform 0" "\<And>l. get_libdl_platform_or_mock G D 1 = Inr l \<Longrightarrow> l = platform 1"
    "relative_clean (platform 0)" "relative_clean (platform 1)"
    using D by (auto simp: helpers_truthful_def get_libdl_lib_or_mock_def get_libdl_platform_or_mock_def abi_less Let_def)
  note sup = sup_def pv_per_arch_dirs_supports_scheme_def upt_abi
  consider (m) "sup PV_PER_ARCH_DIRS_SCHEME_MULTIARCH" "dirs = ?b ''${LIB}'' multiarch_libs"
    | (u) "sup PV_PER_ARCH_DIRS_SCHEME_UBUNTU_1204" "dirs = ?b ''lib/${LIB}'' multiarch_libs"
    | (f) "sup PV_PER_ARCH_DIRS_SCHEME_FHS" "dirs = ?b ''${LIB}'' fhs_libs"
    | (a) "sup PV_PER_ARCH_DIRS_SCHEME_ARCH" "dirs = ?b ''${LIB}'' arch_libs"
    | (l) "sup PV_PER_ARCH_DIRS_SCHEME_LIBQUAL" "dirs = ?b ''${LIB}'' libqual_libs"
    | (p) paths where "platform_paths G D root [0, 1] = Inr paths"
        "dirs = \<lparr> pd_root_path = root, pd_libdl_token_path = g_build_filename G [root, ''${PLATFORM}''], pd_abi_paths = paths \<rparr>"
    using r unfolding choose_dirs_def Let_def sup_def dirs_below_def upt_abi
    by (auto split: if_splits sum.splits)
  then show ?thesis
  proof cases
    case m
    then have "lib 0 = multiarch_libs ! 0" "lib 1 = multiarch_libs ! 1" using truth(1,2) by (auto simp: sup)
    then show ?thesis using token_ok_LIB [of multiarch_libs] static_libs_clean(1) static_libs_length static_libs_distinct m(2) by auto
  next
    case u
    then have "lib 0 = ma_tuple (pv_multiarch_details ! 0)" "lib 1 = ma_tuple (pv_multiarch_details ! 1)"
      using truth(1,2) by (auto simp: sup)
    then show ?thesis using token_ok_lib_LIB static_libs_distinct u(2) by auto
  next
    case f
    then have "lib 0 = fhs_libs ! 0" "lib 1 = fhs_libs ! 1" using truth(1,2) by (auto simp: sup)
    then show ?thesis using token_ok_LIB [of fhs_libs] static_libs_clean(1) static_libs_length static_libs_distinct f(2) by auto
  next
    case a
    then have "lib 0 = arch_libs ! 0" "lib 1 = arch_libs ! 1" using truth(1,2) by (auto simp: sup)
    then show ?thesis using token_ok_LIB [of arch_libs] static_libs_clean(1) static_libs_length static_libs_distinct a(2) by auto
  next
    case l
    then have "lib 0 = libqual_libs ! 0" "lib 1 = libqual_libs ! 1" using truth(1,2) by (auto simp: sup)
    then show ?thesis using token_ok_LIB [of libqual_libs] static_libs_clean(1) static_libs_length static_libs_distinct l(2) by auto
  next
    case p
    then have "paths = map (\<lambda>l. g_build_filename G [root, l]) [platform 0, platform 1]"
      using truth(3,4) by (auto split: sum.splits)
    then have "dirs = ?b ''${PLATFORM}'' [platform 0, platform 1]" by (simp add: p(2) dirs_below_def)
    with token_ok_PLATFORM [OF truth(5,6)] show ?thesis
      by (intro exI [of _ "''${PLATFORM}''"] exI [of _ "[platform 0, platform 1]"]) simp
  qed
qed

end

lemma pv_per_arch_dirs_new_Inr:
  assumes "run_state (dh_dir_make_tmp D ''pressure-vessel-libs-XXXXXX'') w = (Inr root, w1)"
    and "run_state (pv_per_arch_dirs_new G D) w = (Inr dirs, w')"
  shows "choose_dirs G D root = Inr dirs"
proof (cases "choose_dirs G D root")
  case (Inl e)
  then show ?thesis using assms by (simp add: pv_per_arch_dirs_new_def run_state_bind split: prod.splits)
next
  case (Inr self)
  obtain m w2 where m: "run_state (make_abi_dirs D (pd_abi_paths self)) w1 = (m, w2)" by (cases "run_state (make_abi_dirs D (pd_abi_paths self)) w1")
  show ?thesis using assms Inr m
    by (cases m) (auto simp: pv_per_arch_dirs_new_def run_state_bind split: prod.splits)
qed

text \<open>C22: The temporary directories are those that the dynamic string token leads to: if the helper processes
  report what the linkers do, then for each architecture a file reached through the token path is the
  one in the directory of that architecture, whichever of the six schemes is used; and the directories are
  different unless both linkers expand \<open>${PLATFORM}\<close> alike.\<close>

theorem pv_per_arch_dirs_new_tokens:
  assumes "file_joiner (g_build_filename G)" and "dl_tokens expand lib platform"
    and "helpers_truthful D lib platform" and "\<not> standardize_platform G D"
    and "run_state (dh_dir_make_tmp D ''pressure-vessel-libs-XXXXXX'') w = (Inr root, w1)" and "clean root" and "plain_text root"
    and "run_state (pv_per_arch_dirs_new G D) w = (Inr dirs, w')"
  shows "(\<forall>abi < PV_N_SUPPORTED_ARCHITECTURES. \<forall>base. base_ok base \<longrightarrow>
      expand abi (g_build_filename G [pd_libdl_token_path dirs, base]) = g_build_filename G [pd_abi_paths dirs ! abi, base])
    \<and> (platform 0 \<noteq> platform 1 \<longrightarrow> private_dirs (g_build_filename G) expand dirs)"
proof -
  from dl_tokens.choose_dirs_token_ok [OF assms(2-4) pv_per_arch_dirs_new_Inr [OF assms(5,8)]] obtain token libs
    where dirs: "dirs = dirs_below (g_build_filename G) root token libs" and tok: "token_ok expand token libs"
      and dist: "platform 0 \<noteq> platform 1 \<longrightarrow> distinct libs" by blast
  note joiner = file_joiner.dirs_below_token(1) [OF assms(1,6,7) tok assms(2)]
    file_joiner.dirs_below_private [OF assms(1,6,7) tok assms(2)]
  show ?thesis using joiner dist unfolding dirs by blast
qed

text \<open>A host whose linkers expand \<open>${LIB}\<close> as on Debian.\<close>

definition demo_dirs_host :: "mem_world dirs_host" where
  "demo_dirs_host = \<lparr> dh_host = path_host [], dh_libdl_lib = (\<lambda>t. Inr (''lib/'' @ t)),
     dh_libdl_platform = (\<lambda>t. Inl (G_IO_ERROR IO_FAILED)), dh_dir_make_tmp = (\<lambda>t. State (Pair (Inr ''/tmp/libs''))),
     dh_mkdir_with_parents = (\<lambda>p m. State (Pair (Inr ()))), dh_rm_rf = (\<lambda>p. State (Pair ())) \<rparr>"

definition demo_dirs :: per_arch_dirs where
  "demo_dirs = \<lparr> pd_root_path = ''/tmp/libs'', pd_libdl_token_path = ''/tmp/libs/${LIB}'',
     pd_abi_paths = [''/tmp/libs/lib/x86_64-linux-gnu'', ''/tmp/libs/lib/i386-linux-gnu''] \<rparr>"

lemma demo_dirs_new: "run_state (pv_per_arch_dirs_new glib_ref demo_dirs_host) demo_world = (Inr demo_dirs, demo_world)"
  by code_simp

lemma demo_dirs_facts:
  "helpers_truthful demo_dirs_host demo_lib demo_platform" "\<not> standardize_platform glib_ref demo_dirs_host"
  "clean ''/tmp/libs''" "plain_text ''/tmp/libs''"
  "run_state (dh_dir_make_tmp demo_dirs_host ''pressure-vessel-libs-XXXXXX'') demo_world = (Inr ''/tmp/libs'', demo_world)"
proof -
  have "relative_clean (demo_platform 0)" "relative_clean (demo_platform 1)" by code_simp+
  then show "helpers_truthful demo_dirs_host demo_lib demo_platform"
    unfolding helpers_truthful_def abi_less
    by (auto simp: demo_dirs_host_def demo_lib_def multiarch_libs_nth [simplified] Let_def)
  show "\<not> standardize_platform glib_ref demo_dirs_host" "clean ''/tmp/libs''" "plain_text ''/tmp/libs''" by code_simp+
qed (simp add: demo_dirs_host_def)

theorem pv_per_arch_dirs_new_tokens_witness:
  "demo_expand 1 (g_build_filename glib_ref [pd_libdl_token_path demo_dirs, ''a.so'']) = ''/tmp/libs/lib/i386-linux-gnu/a.so''"
proof -
  note inst = pv_per_arch_dirs_new_tokens [OF ref_joiner.file_joiner_axioms ref_tokens.dl_tokens_axioms demo_dirs_facts(1,2,5,3,4) demo_dirs_new]
  have "base_ok ''a.so''" by code_simp
  with inst have "demo_expand 1 (g_build_filename glib_ref [pd_libdl_token_path demo_dirs, ''a.so'']) =
      g_build_filename glib_ref [pd_abi_paths demo_dirs ! 1, ''a.so'']" by (simp add: PV_N_SUPPORTED_ARCHITECTURES_def)
  also have "\<dots> = ''/tmp/libs/lib/i386-linux-gnu/a.so''" by code_simp
  finally show ?thesis .
qed

interpretation demo_dirs: private_dirs "g_build_filename glib_ref" demo_expand demo_dirs
proof -
  from ref_tokens.choose_dirs_token_ok [OF demo_dirs_facts(1,2) pv_per_arch_dirs_new_Inr [OF demo_dirs_facts(5) demo_dirs_new]]
  obtain token libs where dirs: "demo_dirs = dirs_below (g_build_filename glib_ref) ''/tmp/libs'' token libs"
    "token_ok demo_expand token libs" "demo_platform 0 \<noteq> demo_platform 1 \<longrightarrow> distinct libs" by blast
  have "demo_platform 0 \<noteq> demo_platform 1" by code_simp
  with dirs have "distinct libs" by blast
  from ref_joiner.dirs_below_private [OF demo_dirs_facts(3,4) dirs(2) ref_tokens.dl_tokens_axioms this]
  show "private_dirs (g_build_filename glib_ref) demo_expand demo_dirs" unfolding dirs(1) .
qed

end
