(* ===== verification/PreloadModules.thy ===== *)
theory PreloadModules imports PreloadLoad begin

text \<open>
  Preloaded modules from the command line of \<open>pv-adverb\<close> to the dynamic linker: the command line form
  can be read back; whatever fails, no module is lost; and if the links can be made, each architecture
  loads exactly the modules that are meant for it.
\<close>

section \<open>The command line\<close>

lemma split_on_no: "c \<notin> set s \<Longrightarrow> split_on (\<lambda>x. x = c) s = [s]"
  by (rule split_on_id) auto

lemma g_strsplit_colon:
  "CHR '':'' \<notin> set name \<Longrightarrow> CHR '':'' \<notin> set p \<Longrightarrow> g_strsplit (name @ CHR '':'' # p) CHR '':'' = [name, p]"
  by (subst g_strsplit_def, subst split_on_append_delim) (auto simp: split_on_no)

lemma abi_of_tuple_nth: "abi < PV_N_SUPPORTED_ARCHITECTURES \<Longrightarrow> abi_of_tuple (pv_multiarch_tuples ! abi) = Some abi"
  unfolding abi_less abi_of_tuple_def upt_abi by (auto simp: pv_multiarch_tuples_def)

lemma tuple_no_colon: "abi < PV_N_SUPPORTED_ARCHITECTURES \<Longrightarrow> CHR '':'' \<notin> set (pv_multiarch_tuples ! abi)"
  unfolding abi_less by (auto simp: pv_multiarch_tuples_def)

text \<open>The part of an option after its equals sign.\<close>

definition cli_value :: "preload_module \<Rightarrow> string" where
  "cli_value m = the (pm_name m) @ (case pm_abi m of None \<Rightarrow> [] | Some abi \<Rightarrow> '':abi='' @ pv_multiarch_tuples ! abi)"

definition cli_module :: "preload_module \<Rightarrow> bool" where
  "cli_module m = (pm_name m \<noteq> None \<and> (\<forall>abi. pm_abi m = Some abi \<longrightarrow> abi < PV_N_SUPPORTED_ARCHITECTURES))"

lemma to_adverb_cli: "cli_module m \<Longrightarrow>
   pv_adverb_preload_module_to_adverb_cli m = Some (pv_adverb_option (pv_preload_variables (pm_index m)) @ ''='' @ cli_value m)"
  by (auto simp: cli_module_def pv_adverb_preload_module_to_adverb_cli_def cli_value_def split: option.splits)

lemma parse_cli_value:
  assumes m: "cli_module m" "CHR '':'' \<notin> set (the (pm_name m))"
  shows "pv_adverb_preload_module_parse_adverb_cli PV_ADVERB_PRELOAD_MODULE_INIT (pm_index m) (cli_value m) = Inr m"
proof -
  obtain name index abi where [simp]: "m = \<lparr> pm_name = Some name, pm_index = index, pm_abi = abi \<rparr>"
    using m by (cases m) (auto simp: cli_module_def)
  show ?thesis
  proof (cases abi)
    case None
    have "g_strsplit name CHR '':'' = (if name = [] then [] else [name])"
      using m(2) by (simp add: g_strsplit_def split_on_no)
    then show ?thesis using None
      by (auto simp: pv_adverb_preload_module_parse_adverb_cli_def PV_ADVERB_PRELOAD_MODULE_INIT_def cli_value_def)
  next
    case (Some a)
    then have a: "a < PV_N_SUPPORTED_ARCHITECTURES" using m(1) by (simp add: cli_module_def)
    have "CHR '':'' \<notin> set (''abi='' @ pv_multiarch_tuples ! a)" using tuple_no_colon [OF a] by simp
    from g_strsplit_colon [OF _ this, of name] m(2)
    have "g_strsplit (cli_value m) CHR '':'' = [name, ''abi='' @ pv_multiarch_tuples ! a]" by (simp add: cli_value_def Some)
    then show ?thesis using Some abi_of_tuple_nth [OF a]
      by (simp add: pv_adverb_preload_module_parse_adverb_cli_def PV_ADVERB_PRELOAD_MODULE_INIT_def g_str_has_prefix_def)
  qed
qed

lemma parse_cli_name:
  assumes "pv_adverb_preload_module_parse_adverb_cli self which v = Inr m"
  shows "CHR '':'' \<notin> set (the (pm_name m))"
proof (cases "g_strsplit v CHR '':''")
  case Nil
  then have "v = []" by (simp add: g_strsplit_def split: if_splits)
  with assms Nil show ?thesis
    by (auto simp: pv_adverb_preload_module_parse_adverb_cli_def split: if_splits)
next
  case (Cons t ts)
  then have "t \<in> set (split_on (\<lambda>x. x = CHR '':'') v)" by (auto simp: g_strsplit_def split: if_splits)
  then have "CHR '':'' \<notin> set t" using split_on_no_delim by fastforce
  with assms Cons show ?thesis
    by (auto simp: pv_adverb_preload_module_parse_adverb_cli_def split: if_splits sum.splits)
qed

text \<open>The options of a command line, one after the other.\<close>

fun adverb_options :: "(preload_variable_index \<times> string) list \<Rightarrow> preload_module list option \<Rightarrow> (gerror + unit) \<times> preload_module list option" where
  "adverb_options [] ms = (Inr (), ms)"
| "adverb_options ((i, v) # opts) ms =
     (case adverb_opt_ld_something i v ms of (Inl e, ms) \<Rightarrow> (Inl e, ms) | (Inr _, ms) \<Rightarrow> adverb_options opts ms)"

lemma adverb_options_modules:
  assumes "\<forall>m \<in> set ms. cli_module m \<and> CHR '':'' \<notin> set (the (pm_name m))"
  shows "adverb_options (map (\<lambda>m. (pm_index m, cli_value m)) ms) acc =
    (Inr (), if ms = [] then acc else Some ((case acc of None \<Rightarrow> [] | Some as \<Rightarrow> as) @ ms))"
  using assms
proof (induction ms arbitrary: acc)
  case (Cons m ms)
  then show ?case using parse_cli_value [of m] by (simp add: adverb_opt_ld_something_def)
qed simp

lemma adverb_options_names:
  assumes "adverb_options opts acc = (Inr (), Some ms)" "\<forall>m \<in> set (case acc of None \<Rightarrow> [] | Some as \<Rightarrow> as). CHR '':'' \<notin> set (the (pm_name m))"
  shows "\<forall>m \<in> set ms. CHR '':'' \<notin> set (the (pm_name m))"
  using assms
proof (induction opts acc rule: adverb_options.induct)
  case (2 i v opts acc)
  show ?case
  proof (cases "pv_adverb_preload_module_parse_adverb_cli PV_ADVERB_PRELOAD_MODULE_INIT i v")
    case (Inr m)
    have step: "adverb_opt_ld_something i v acc = (Inr (), Some ((case acc of None \<Rightarrow> [] | Some as \<Rightarrow> as) @ [m]))"
      using Inr by (simp add: adverb_opt_ld_something_def)
    show ?thesis by (rule 2(1) [OF step [symmetric]]) (use 2(2,3) step parse_cli_name [OF Inr] in auto)
  qed (use 2(2) in \<open>simp add: adverb_opt_ld_something_def\<close>)
qed auto

text \<open>C21: \<open>pv-adverb\<close> reads back the modules that were written for it, in order, with names, variables and
  architectures, exactly if no name has a colon.\<close>

theorem preload_modules_cli_roundtrip:
  assumes "ms \<noteq> []" and "\<forall>m \<in> set ms. cli_module m"
  shows "map pv_adverb_preload_module_to_adverb_cli ms =
      map (\<lambda>m. Some (pv_adverb_option (pv_preload_variables (pm_index m)) @ ''='' @ cli_value m)) ms
    \<and> (adverb_options (map (\<lambda>m. (pm_index m, cli_value m)) ms) None = (Inr (), Some ms) \<longleftrightarrow>
       (\<forall>m \<in> set ms. CHR '':'' \<notin> set (the (pm_name m))))"
proof (intro conjI iffI)
  show "map pv_adverb_preload_module_to_adverb_cli ms =
      map (\<lambda>m. Some (pv_adverb_option (pv_preload_variables (pm_index m)) @ ''='' @ cli_value m)) ms"
    using assms(2) to_adverb_cli by simp
  show "\<forall>m \<in> set ms. CHR '':'' \<notin> set (the (pm_name m))"
    if "adverb_options (map (\<lambda>m. (pm_index m, cli_value m)) ms) None = (Inr (), Some ms)"
    using adverb_options_names [OF that] by simp
  show "adverb_options (map (\<lambda>m. (pm_index m, cli_value m)) ms) None = (Inr (), Some ms)"
    if "\<forall>m \<in> set ms. CHR '':'' \<notin> set (the (pm_name m))"
    using adverb_options_modules [of ms None] that assms by simp
qed

definition demo_modules :: "preload_module list" where
  "demo_modules =
    [\<lparr> pm_name = Some ''/opt/x64/a.so'', pm_index = PV_PRELOAD_VARIABLE_INDEX_LD_PRELOAD, pm_abi = Some 0 \<rparr>,
     \<lparr> pm_name = Some ''libb.so'', pm_index = PV_PRELOAD_VARIABLE_INDEX_LD_PRELOAD, pm_abi = None \<rparr>,
     \<lparr> pm_name = Some ''/opt/x86/a.so'', pm_index = PV_PRELOAD_VARIABLE_INDEX_LD_PRELOAD, pm_abi = Some 1 \<rparr>]"

theorem preload_modules_cli_roundtrip_witness:
  "adverb_options [(PV_PRELOAD_VARIABLE_INDEX_LD_PRELOAD, ''/opt/x64/a.so:abi=x86_64-linux-gnu''),
     (PV_PRELOAD_VARIABLE_INDEX_LD_PRELOAD, ''libb.so''), (PV_PRELOAD_VARIABLE_INDEX_LD_PRELOAD, ''/opt/x86/a.so:abi=i386-linux-gnu'')] None
   = (Inr (), Some demo_modules)"
proof -
  have "demo_modules \<noteq> []" "\<forall>m \<in> set demo_modules. cli_module m"
    by (simp_all add: demo_modules_def cli_module_def PV_N_SUPPORTED_ARCHITECTURES_def)
  note inst = preload_modules_cli_roundtrip [OF this]
  have "\<forall>m \<in> set demo_modules. CHR '':'' \<notin> set (the (pm_name m))" by (simp add: demo_modules_def)
  with inst have "adverb_options (map (\<lambda>m. (pm_index m, cli_value m)) demo_modules) None = (Inr (), Some demo_modules)" by blast
  then show ?thesis by (simp add: demo_modules_def cli_value_def pv_multiarch_tuples_def del: adverb_options.simps)
qed

section \<open>What is loaded\<close>

text \<open>The value of a variable and the items that the linker finds in it.\<close>

definition item_ok :: "string \<Rightarrow> bool" where
  "item_ok e = (e \<noteq> [] \<and> CHR '':'' \<notin> set e \<and> CHR '' '' \<notin> set e)"

definition value_items :: "preload_variable_index \<Rightarrow> string \<Rightarrow> string list" where
  "value_items i v = filter (\<lambda>e. e \<noteq> []) (g_strsplit_set v (pv_separators (pv_preload_variables i)))"

lemma split_on_append: "p c \<Longrightarrow> split_on p (a @ c # b) = split_on p a @ split_on p b"
  by (induction a) (auto split: list.split)

lemma colon_separates: "CHR '':'' \<in> set (pv_separators (pv_preload_variables i))"
  by (cases i) auto

lemma item_no_separator: "item_ok e \<Longrightarrow> x \<in> set e \<Longrightarrow> x \<notin> set (pv_separators (pv_preload_variables i))"
  by (cases i) (auto simp: item_ok_def)

lemma value_items_buffer:
  "\<forall>e \<in> set items. item_ok e \<Longrightarrow>
   value_items i (search_path_buffer (Some items)) = items \<and> (search_path_buffer (Some items) = [] \<longleftrightarrow> items = [])"
proof (induction items rule: rev_induct)
  case (snoc x xs)
  let ?p = "\<lambda>c. c \<in> set (pv_separators (pv_preload_variables i))"
  let ?b = "search_path_buffer (Some xs)"
  have x: "x \<noteq> []" "split_on ?p x = [x]"
    using snoc.prems item_no_separator [of x _ i] by (auto simp: item_ok_def intro: split_on_id)
  have b: "search_path_buffer (Some (xs @ [x])) = (if ?b = [] then x else ?b @ CHR '':'' # x)"
    using x by (simp add: search_path_buffer_def pv_search_path_append_def)
  show ?case
  proof (cases "xs = []")
    case True
    then show ?thesis using x b by (simp add: value_items_def g_strsplit_set_def search_path_buffer_def)
  next
    case False
    with snoc have "?b \<noteq> []" "value_items i ?b = xs" by auto
    then show ?thesis using b x split_on_append [of ?p "CHR '':''" ?b x] colon_separates [of i]
      by (simp add: value_items_def g_strsplit_set_def)
  qed
qed (simp add: search_path_buffer_def value_items_def g_strsplit_set_def)

text \<open>Opening an item: a path in a private directory is the link there, if any; other paths are the objects
  themselves.\<close>

definition in_private :: "(string list \<Rightarrow> string) \<Rightarrow> per_arch_dirs \<Rightarrow> string \<Rightarrow> bool" where
  "in_private build dirs p = (\<exists>abi < PV_N_SUPPORTED_ARCHITECTURES. \<exists>b. base_ok b \<and> p = build [pd_abi_paths dirs ! abi, b])"

definition object_at :: "(string list \<Rightarrow> string) \<Rightarrow> per_arch_dirs \<Rightarrow> (string \<Rightarrow> string option) \<Rightarrow> string \<Rightarrow> string option" where
  "object_at build dirs links p = (if in_private build dirs p then links p else Some p)"

definition loaded :: "(string list \<Rightarrow> string) \<Rightarrow> (nat \<Rightarrow> string \<Rightarrow> string) \<Rightarrow> per_arch_dirs \<Rightarrow> (string \<Rightarrow> string option) \<Rightarrow>
    nat \<Rightarrow> string list \<Rightarrow> string set" where
  "loaded build expand dirs links abi items = {t. \<exists>e \<in> set items. object_at build dirs links (expand abi e) = Some t}"

text \<open>The kernel: a link is only made where there is none, a failure makes none, and reading tells the truth.\<close>

locale link_store =
  fixes K :: "'w kernel" and links :: "'w \<Rightarrow> string \<Rightarrow> string option"
  assumes symlink_made: "run_state (sys_symlinkat K t AT_FDCWD p) w = (Inr u, w') \<Longrightarrow> links w p = None \<and> links w' = (links w)(p \<mapsto> t)"
    and symlink_failed: "run_state (sys_symlinkat K t AT_FDCWD p) w = (Inl e, w') \<Longrightarrow> links w' = links w"
    and readlink_keeps: "run_state (sys_readlinkat K AT_FDCWD p) w = (r, w') \<Longrightarrow> links w' = links w"
    and readlink_true: "run_state (sys_readlinkat K AT_FDCWD p) w = (Inr t, w') \<Longrightarrow> links w p = Some t"

text \<open>Modules as they come from \<open>pv-wrap\<close>: names that the linker takes literally.\<close>

definition module_ok :: "(string list \<Rightarrow> string) \<Rightarrow> per_arch_dirs \<Rightarrow> preload_module \<Rightarrow> bool" where
  "module_ok build dirs m = (case pm_name m of None \<Rightarrow> False
     | Some name \<Rightarrow> name = [] \<or> plain_text name \<and> base_ok (glnx_basename name) \<and> \<not> in_private build dirs name
         \<and> (\<forall>abi. pm_abi m = Some abi \<longrightarrow> abi < PV_N_SUPPORTED_ARCHITECTURES))"

definition meant_for :: "nat \<Rightarrow> preload_module \<Rightarrow> bool" where
  "meant_for abi m = (module_abi m (the (pm_name m)) = None \<or> module_abi m (the (pm_name m)) = Some abi)"

lemma overlay_abi_less: "overlay_abi p = Some abi \<Longrightarrow> abi < PV_N_SUPPORTED_ARCHITECTURES"
  by (auto simp: overlay_abi_def find_Some_iff)

lemma module_abi_less:
  "module_ok build dirs m \<Longrightarrow> pm_name m = Some name \<Longrightarrow> name \<noteq> [] \<Longrightarrow> module_abi m name = Some abi \<Longrightarrow> abi < PV_N_SUPPORTED_ARCHITECTURES"
  by (auto simp: module_ok_def module_abi_def overlay_abi_less split: if_splits)

locale preload_setting = private_dirs "g_build_filename G" expand dirs + link_store K links
  for G :: glib and expand dirs K links
begin

definition link_of :: "nat \<Rightarrow> string \<Rightarrow> string" where
  "link_of abi name = g_build_filename G [pd_abi_paths dirs ! abi, glnx_basename name]"

definition token_of :: "string \<Rightarrow> string" where
  "token_of name = g_build_filename G [pd_libdl_token_path dirs, glnx_basename name]"

text \<open>A module is covered if it is listed itself, or if the token path is and the link is its own.\<close>

definition covered :: "(string \<Rightarrow> string option) \<Rightarrow> string list \<Rightarrow> preload_module \<Rightarrow> bool" where
  "covered ls items m = (\<exists>name. pm_name m = Some name \<and>
     (name = [] \<or> name \<in> set items \<or>
      (\<exists>abi. module_abi m name = Some abi \<and> token_of name \<in> set items \<and> ls (link_of abi name) = Some name)))"

lemma covered_mono: "covered ls items m \<Longrightarrow> set items \<subseteq> set items' \<Longrightarrow> ls \<subseteq>\<^sub>m ls' \<Longrightarrow> covered ls' items' m"
  by (force simp: covered_def map_le_def dom_def)

lemma do_one_preload_module_linked:
  assumes "pm_name m = Some name" "name \<noteq> []" "module_abi m name = Some abi"
  shows "do_one_preload_module G K m items (Some dirs) = do {
      r \<leftarrow> sys_symlinkat K name AT_FDCWD (link_of abi name);
      (case r of
         Inr _ \<Rightarrow> State_Monad.return (Some (ptr_array_add_unique items (token_of name)))
       | Inl e \<Rightarrow> if e = EEXIST then do {
             found \<leftarrow> glnx_readlinkat_malloc K (- 1) (link_of abi name);
             State_Monad.return (Some (if found = Inr name then ptr_array_add_unique items (token_of name) else items @ [name])) }
           else State_Monad.return (Some (items @ [name]))) }"
  unfolding do_one_preload_module_def assms(1) option.case if_not_P [OF assms(2)] assms(3) Let_def link_of_def token_of_def ..

lemma do_one_preload_module_covered:
  assumes m: "module_ok (g_build_filename G) dirs m" and ok: "\<forall>e \<in> set items. item_ok e"
    and r: "run_state (do_one_preload_module G K m items (Some dirs)) w = (r, w')"
  shows "\<exists>items'. r = Some items' \<and> set items \<subseteq> set items' \<and> (\<forall>e \<in> set items'. item_ok e)
    \<and> links w \<subseteq>\<^sub>m links w' \<and> covered (links w') items' m"
proof -
  obtain name where name: "pm_name m = Some name" using m by (auto simp: module_ok_def split: option.splits)
  show ?thesis
  proof (cases "name = []")
    case True
    then show ?thesis using r name ok by (auto simp: do_one_preload_module_def covered_def)
  next
    case ne: False
    then have b: "base_ok (glnx_basename name)" and n: "plain_text name" using m name by (auto simp: module_ok_def)
    have items: "item_ok name" "item_ok (token_of name)"
      using n ne token_item [OF b] by (auto simp: item_ok_def plain_text_def token_of_def)
    show ?thesis
    proof (cases "module_abi m name")
      case None
      then show ?thesis using r name ne ok items by (auto simp: do_one_preload_module_def covered_def)
    next
      case (Some abi)
      obtain s w1 where s: "run_state (sys_symlinkat K name AT_FDCWD (link_of abi name)) w = (s, w1)" by fastforce
      show ?thesis
      proof (cases s)
        case (Inr u)
        have "links w (link_of abi name) = None" "links w1 = (links w)(link_of abi name \<mapsto> name)"
          using symlink_made s Inr by blast+
        then show ?thesis using r s Inr Some name ne ok items
          by (auto simp: do_one_preload_module_linked run_state_bind ptr_array_add_unique_def covered_def map_le_def)
      next
        case (Inl e)
        have l1: "links w1 = links w" using symlink_failed s Inl by blast
        obtain t w2 where t: "run_state (sys_readlinkat K AT_FDCWD (link_of abi name)) w1 = (t, w2)" by fastforce
        have l2: "links w2 = links w" using readlink_keeps [OF t] l1 by simp
        have found: "t = Inr name \<Longrightarrow> links w (link_of abi name) = Some name" 
          using readlink_true [of "link_of abi name" w1 name w2] t l1 by simp
        have g: "run_state (glnx_readlinkat_malloc K (- 1) (link_of abi name)) w1 =
            (case t of Inl e \<Rightarrow> Inl (throw_errno e) | Inr t \<Rightarrow> Inr t, w2)"
          using t by (simp add: glnx_readlinkat_malloc_def glnx_dirfd_canonicalize_def run_state_bind)
        show ?thesis using r s g Inl Some name ne ok items l1 l2 found
          by (cases t) (auto simp: do_one_preload_module_linked run_state_bind ptr_array_add_unique_def covered_def split: if_splits)
      qed
    qed
  qed
qed

definition items_of :: "string list option \<Rightarrow> string list" where
  "items_of p = (case p of None \<Rightarrow> [] | Some items \<Rightarrow> items)"

lemma preload_loop_covered:
  assumes "\<forall>m \<in> set ms. module_ok (g_build_filename G) dirs m"
    and "\<forall>i. \<forall>e \<in> set (items_of (paths i)). item_ok e"
    and "run_state (preload_loop G K (Some dirs) ms paths) w = (r, w')"
  shows "\<exists>paths'. r = Some paths' \<and> (\<forall>i. set (items_of (paths i)) \<subseteq> set (items_of (paths' i)))
    \<and> (\<forall>i. \<forall>e \<in> set (items_of (paths' i)). item_ok e) \<and> links w \<subseteq>\<^sub>m links w'
    \<and> (\<forall>m \<in> set ms. covered (links w') (items_of (paths' (pm_index m))) m)"
  using assms
proof (induction ms arbitrary: paths w)
  case (Cons m ms)
  let ?items = "items_of (paths (pm_index m))"
  obtain r1 w1 where r1: "run_state (do_one_preload_module G K m ?items (Some dirs)) w = (r1, w1)" by fastforce
  have "module_ok (g_build_filename G) dirs m" "\<forall>e \<in> set ?items. item_ok e" using Cons.prems(1,2) by auto
  from do_one_preload_module_covered [OF this r1] obtain items'
    where i: "r1 = Some items'" "set ?items \<subseteq> set items'" "\<forall>e \<in> set items'. item_ok e"
      "links w \<subseteq>\<^sub>m links w1" "covered (links w1) items' m" by blast
  let ?paths = "paths(pm_index m := Some items')"
  have step: "run_state (preload_loop G K (Some dirs) ms ?paths) w1 = (r, w')"
    using Cons.prems(3) r1 i(1) by (simp add: run_state_bind items_of_def Let_def)
  have "\<forall>i. \<forall>e \<in> set (items_of (?paths i)). item_ok e" using Cons.prems(2) i(3) by (auto simp: items_of_def)
  from Cons.IH [OF _ this step] Cons.prems(1) obtain paths'
    where p: "r = Some paths'" "\<forall>i. set (items_of (?paths i)) \<subseteq> set (items_of (paths' i))"
      "\<forall>i. \<forall>e \<in> set (items_of (paths' i)). item_ok e" "links w1 \<subseteq>\<^sub>m links w'"
      "\<forall>m \<in> set ms. covered (links w') (items_of (paths' (pm_index m))) m" by auto
  have "set items' \<subseteq> set (items_of (paths' (pm_index m)))" using p(2) by (metis fun_upd_same items_of_def option.simps(5))
  then have "covered (links w') (items_of (paths' (pm_index m))) m" using covered_mono [OF i(5)] p(4) by blast
  moreover have "set (items_of (paths i)) \<subseteq> set (items_of (paths' i))" for i
  proof (cases "i = pm_index m")
    case True
    then show ?thesis using i(2) \<open>set items' \<subseteq> _\<close> by auto
  next
    case False
    then show ?thesis using p(2) by (metis fun_upd_other)
  qed
  ultimately show ?case using p i(4) map_le_trans by auto
qed auto

lemma covered_loaded:
  assumes m: "module_ok (g_build_filename G) dirs m" "pm_name m = Some name" "name \<noteq> []"
    and c: "covered ls items m" and abi: "abi < PV_N_SUPPORTED_ARCHITECTURES" "meant_for abi m"
  shows "name \<in> loaded (g_build_filename G) expand dirs ls abi items"
proof -
  have n: "plain_text name" "base_ok (glnx_basename name)" "\<not> in_private (g_build_filename G) dirs name"
    using m by (auto simp: module_ok_def)
  consider "name \<in> set items" | "module_abi m name = Some abi" "token_of name \<in> set items" "ls (link_of abi name) = Some name"
    using c abi(2) m by (auto simp: covered_def meant_for_def)
  then show ?thesis
  proof cases
    case 1
    then show ?thesis using plain_expands [OF n(1)] n(3) by (force simp: loaded_def object_at_def)
  next
    case 2
    have "expand abi (token_of name) = link_of abi name"
      using token_expands [OF abi(1) n(2)] by (simp add: token_of_def link_of_def)
    moreover have "in_private (g_build_filename G) dirs (link_of abi name)"
      using abi(1) n(2) by (auto simp: in_private_def link_of_def)
    ultimately show ?thesis using 2 by (force simp: loaded_def object_at_def)
  qed
qed

text \<open>The variable that a search path is put into.\<close>

lemma getenv_set_preload_variable:
  assumes "environ_block (g_environ_getenv G) (g_environ_setenv G) (g_environ_unsetenv G)"
    and "\<forall>e \<in> set (items_of p). item_ok e"
  shows "g_environ_getenv G (envp (set_preload_variable G i p b)) (pv_variable (pv_preload_variables j)) =
    (if i = j \<and> items_of p \<noteq> [] then Some (search_path_buffer p)
     else g_environ_getenv G (envp b) (pv_variable (pv_preload_variables j)))"
proof -
  have n: "env_name_ok (pv_variable (pv_preload_variables k))" for k by (cases k) (simp_all add: env_name_ok_def)
  have d: "pv_variable (pv_preload_variables i) = pv_variable (pv_preload_variables j) \<longleftrightarrow> i = j"
    by (cases i; cases j) simp_all
  have "search_path_buffer p \<noteq> [] \<longleftrightarrow> items_of p \<noteq> []"
  proof (cases p)
    case (Some items)
    then show ?thesis using value_items_buffer [of items i] assms(2) by (simp add: items_of_def)
  qed (simp add: search_path_buffer_def items_of_def)
  then show ?thesis using environ_block.get_set [OF assms(1) n n] d
    by (auto simp: set_preload_variable_def Let_def flatpak_bwrap_set_env_def)
qed

lemma getenv_set_up_preload_modules:
  assumes env: "environ_block (g_environ_getenv G) (g_environ_setenv G) (g_environ_unsetenv G)"
    and ok: "\<forall>i. \<forall>e \<in> set (items_of (paths i)). item_ok e"
    and loop: "run_state (preload_loop G K (Some dirs) ms (\<lambda>_. None)) w = (Some paths, w')"
  shows "\<exists>b'. run_state (pv_adverb_set_up_preload_modules G K b (Some dirs) ms) w = (Some b', w') \<and>
    (\<forall>i. items_of (paths i) \<noteq> [] \<longrightarrow>
      (\<exists>v. g_environ_getenv G (envp b') (pv_variable (pv_preload_variables i)) = Some v \<and> value_items i v = items_of (paths i)))"
proof -
  have ok': "\<forall>e \<in> set (items_of (paths i)). item_ok e" for i using ok by simp
  have buffer: "value_items i (search_path_buffer (paths i)) = items_of (paths i)" if "items_of (paths i) \<noteq> []" for i
    using that value_items_buffer [OF ok' [of i], of i] by (cases "paths i") (auto simp: items_of_def)
  let ?b = "set_preload_variable G PV_PRELOAD_VARIABLE_INDEX_LD_PRELOAD (paths PV_PRELOAD_VARIABLE_INDEX_LD_PRELOAD)
      (set_preload_variable G PV_PRELOAD_VARIABLE_INDEX_LD_AUDIT (paths PV_PRELOAD_VARIABLE_INDEX_LD_AUDIT) b)"
  have "run_state (pv_adverb_set_up_preload_modules G K b (Some dirs) ms) w = (Some ?b, w')"
    by (simp add: pv_adverb_set_up_preload_modules_def run_state_bind loop)
  moreover have "g_environ_getenv G (envp ?b) (pv_variable (pv_preload_variables i)) = Some (search_path_buffer (paths i))"
    if "items_of (paths i) \<noteq> []" for i
    using that by (cases i) (simp_all add: getenv_set_preload_variable [OF env ok'] del: pv_preload_variables.simps)
  ultimately show ?thesis using buffer by blast
qed

lemma none_lost:
  assumes env: "environ_block (g_environ_getenv G) (g_environ_setenv G) (g_environ_unsetenv G)"
    and ms: "\<forall>m \<in> set ms. module_ok (g_build_filename G) dirs m"
    and run: "run_state (pv_adverb_set_up_preload_modules G K b (Some dirs) ms) w = (r, w')"
    and m: "m \<in> set ms" "pm_name m = Some name" "name \<noteq> []" and abi: "abi < PV_N_SUPPORTED_ARCHITECTURES" "meant_for abi m"
  shows "\<exists>b' v. r = Some b' \<and> g_environ_getenv G (envp b') (pv_variable (pv_preload_variables (pm_index m))) = Some v
    \<and> name \<in> loaded (g_build_filename G) expand dirs (links w') abi (value_items (pm_index m) v)"
proof -
  obtain r1 w1 where loop: "run_state (preload_loop G K (Some dirs) ms (\<lambda>_. None)) w = (r1, w1)" by fastforce
  have none: "\<forall>i. \<forall>e \<in> set (items_of ((\<lambda>_. None) i)). item_ok e" by (simp add: items_of_def)
  from preload_loop_covered [OF ms none loop] obtain paths
    where p: "r1 = Some paths" "\<forall>i. \<forall>e \<in> set (items_of (paths i)). item_ok e"
      "\<forall>m \<in> set ms. covered (links w1) (items_of (paths (pm_index m))) m" by blast
  from getenv_set_up_preload_modules [OF env p(2) loop [unfolded p(1)], of b] obtain b'
    where b': "run_state (pv_adverb_set_up_preload_modules G K b (Some dirs) ms) w = (Some b', w1)"
      "\<And>i. items_of (paths i) \<noteq> [] \<Longrightarrow>
        \<exists>v. g_environ_getenv G (envp b') (pv_variable (pv_preload_variables i)) = Some v \<and> value_items i v = items_of (paths i)" by blast
  have "name \<in> loaded (g_build_filename G) expand dirs (links w1) abi (items_of (paths (pm_index m)))"
    using covered_loaded [OF _ m(2,3) _ abi] ms m(1) p(3) by blast
  moreover from this have "items_of (paths (pm_index m)) \<noteq> []" by (auto simp: loaded_def)
  ultimately show ?thesis using b'(2) [of "pm_index m"] b'(1) run by auto
qed

end

text \<open>C19: No module is lost, whatever the kernel answers when the links are made: each architecture loads every
  module that is meant for it, if names are free of colons, spaces and dollar signs.\<close>

theorem preload_modules_none_lost:
  assumes "environ_block (g_environ_getenv G) (g_environ_setenv G) (g_environ_unsetenv G)"
    and "private_dirs (g_build_filename G) expand dirs" and "link_store K links"
    and "\<forall>m \<in> set ms. module_ok (g_build_filename G) dirs m"
    and "run_state (pv_adverb_set_up_preload_modules G K b (Some dirs) ms) w = (r, w')"
    and "m \<in> set ms" and "pm_name m = Some name" and "name \<noteq> []"
    and "abi < PV_N_SUPPORTED_ARCHITECTURES" and "meant_for abi m"
  shows "\<exists>b' v. r = Some b' \<and> g_environ_getenv G (envp b') (pv_variable (pv_preload_variables (pm_index m))) = Some v
    \<and> name \<in> loaded (g_build_filename G) expand dirs (links w') abi (value_items (pm_index m) v)"
  by (rule preload_setting.none_lost [OF preload_setting.intro [OF assms(2,3)] assms(1,4-10)])

section \<open>Exactly the modules that are meant\<close>

text \<open>The kernel as it is when the private directories can be used: a link that is not there can be made, one
  that is there is reported.\<close>

locale working_links = link_store K links for K :: "'w kernel" and links +
  fixes area :: "string \<Rightarrow> bool"
  assumes symlink_free: "area p \<Longrightarrow> links w p = None \<Longrightarrow> \<exists>w'. run_state (sys_symlinkat K t AT_FDCWD p) w = (Inr (), w')"
    and symlink_exists: "area p \<Longrightarrow> links w p = Some s \<Longrightarrow> \<exists>w'. run_state (sys_symlinkat K t AT_FDCWD p) w = (Inl EEXIST, w')"
    and readlink_exists: "area p \<Longrightarrow> links w p = Some s \<Longrightarrow> \<exists>w'. run_state (sys_readlinkat K AT_FDCWD p) w = (Inr s, w')"

text \<open>The items in the order of the modules: the token path stands where the first module with its file name does.\<close>

definition add_item :: "(string list \<Rightarrow> string) \<Rightarrow> per_arch_dirs \<Rightarrow> preload_variable_index \<Rightarrow> string list \<Rightarrow> preload_module \<Rightarrow> string list" where
  "add_item build dirs i items m =
     (let name = the (pm_name m)
      in if pm_index m \<noteq> i \<or> name = [] then items
         else (case module_abi m name of
             None \<Rightarrow> items @ [name]
           | Some _ \<Rightarrow> ptr_array_add_unique items (build [pd_libdl_token_path dirs, glnx_basename name])))"

definition has_link :: "preload_module \<Rightarrow> nat \<Rightarrow> string \<Rightarrow> bool" where
  "has_link m abi name = (pm_name m = Some name \<and> name \<noteq> [] \<and> module_abi m name = Some abi)"

text \<open>No two modules need the same link for different files, and none that is for one variable has the file
  name of one that is for the other.\<close>

definition conflict_free :: "preload_module list \<Rightarrow> bool" where
  "conflict_free ms = (\<forall>m \<in> set ms. \<forall>m' \<in> set ms. \<forall>abi abi' name name'.
     has_link m abi name \<and> has_link m' abi' name' \<and> glnx_basename name = glnx_basename name' \<longrightarrow>
     pm_index m = pm_index m' \<and> (abi = abi' \<longrightarrow> name = name'))"

lemma set_expected_items:
  "e \<in> set (foldl (add_item build dirs i) items ms) \<longleftrightarrow> e \<in> set items \<or>
    (\<exists>m \<in> set ms. pm_index m = i \<and> the (pm_name m) \<noteq> [] \<and>
       e = (case module_abi m (the (pm_name m)) of None \<Rightarrow> the (pm_name m)
            | Some _ \<Rightarrow> build [pd_libdl_token_path dirs, glnx_basename (the (pm_name m))]))"
proof (induction ms arbitrary: items)
  case (Cons m ms)
  show ?case unfolding foldl_Cons Cons.IH
    by (auto simp: add_item_def ptr_array_add_unique_def Let_def split: option.splits)
qed simp

locale exact_setting = preload_setting G expand dirs K links + working_links K links "in_private (g_build_filename G) dirs"
  for G :: glib and expand dirs and K :: "'w kernel" and links
begin

definition links_known :: "preload_module list \<Rightarrow> (string \<Rightarrow> string option) \<Rightarrow> bool" where
  "links_known ms ls = (\<forall>abi < PV_N_SUPPORTED_ARCHITECTURES. \<forall>base t. base_ok base \<longrightarrow>
     ls (g_build_filename G [pd_abi_paths dirs ! abi, base]) = Some t \<longrightarrow> (\<exists>m \<in> set ms. has_link m abi t \<and> glnx_basename t = base))"

lemma links_known_step:
  assumes known: "links_known ms ls" and ls: "ls' = ls(link_of abi name \<mapsto> name)"
    and m: "m \<in> set ms" "has_link m abi name" and abi: "abi < PV_N_SUPPORTED_ARCHITECTURES" and b: "base_ok (glnx_basename name)"
  shows "links_known ms ls'"
  unfolding links_known_def
proof (intro allI impI)
  fix abi' base t
  assume a: "abi' < PV_N_SUPPORTED_ARCHITECTURES" "base_ok base" "ls' (g_build_filename G [pd_abi_paths dirs ! abi', base]) = Some t"
  show "\<exists>m \<in> set ms. has_link m abi' t \<and> glnx_basename t = base"
  proof (cases "g_build_filename G [pd_abi_paths dirs ! abi', base] = link_of abi name")
    case True
    then have "abi' = abi \<and> base = glnx_basename name" unfolding link_of_def by (rule members_apart [OF a(1) abi a(2) b])
    then show ?thesis using a(3) True ls m by auto
  next
    case False
    then have "ls (g_build_filename G [pd_abi_paths dirs ! abi', base]) = Some t" using a(3) ls by simp
    then show ?thesis using known a(1,2) unfolding links_known_def by blast
  qed
qed

lemma do_one_preload_module_exact:
  assumes m: "module_ok (g_build_filename G) dirs m" "m \<in> set ms" and known: "links_known ms (links w)" and cf: "conflict_free ms"
  shows "\<exists>w'. run_state (do_one_preload_module G K m items (Some dirs)) w =
      (Some (add_item (g_build_filename G) dirs (pm_index m) items m), w') \<and> links_known ms (links w')"
proof -
  obtain name where name: "pm_name m = Some name" using m by (auto simp: module_ok_def split: option.splits)
  consider "name = []" | "name \<noteq> []" "module_abi m name = None" | abi where "name \<noteq> []" "module_abi m name = Some abi" by blast
  then show ?thesis
  proof cases
    case (3 abi)
    have has: "has_link m abi name" using name 3 by (simp add: has_link_def)
    have b: "base_ok (glnx_basename name)" using m(1) name 3 by (simp add: module_ok_def)
    have abi: "abi < PV_N_SUPPORTED_ARCHITECTURES" by (rule module_abi_less [OF m(1) name 3])
    have area: "in_private (g_build_filename G) dirs (link_of abi name)"
      using abi b by (auto simp: in_private_def link_of_def)
    have goal: "add_item (g_build_filename G) dirs (pm_index m) items m = ptr_array_add_unique items (token_of name)"
      using name 3 by (simp add: add_item_def token_of_def)
    show ?thesis
    proof (cases "links w (link_of abi name)")
      case None
      obtain w' where w': "run_state (sys_symlinkat K name AT_FDCWD (link_of abi name)) w = (Inr (), w')"
        using symlink_free [OF area None] by blast
      have "links w' = (links w)(link_of abi name \<mapsto> name)" using symlink_made w' by blast
      then have "links_known ms (links w')" by (rule links_known_step [OF known _ m(2) has abi b])
      then show ?thesis
        using w' do_one_preload_module_linked [OF name 3] goal by (simp add: run_state_bind)
    next
      case (Some t)
      then obtain m' where "m' \<in> set ms" "has_link m' abi t" "glnx_basename t = glnx_basename name"
        using known abi b unfolding links_known_def link_of_def by blast
      then have t: "t = name" using cf m(2) has unfolding conflict_free_def by metis
      obtain w1 where w1: "run_state (sys_symlinkat K name AT_FDCWD (link_of abi name)) w = (Inl EEXIST, w1)"
        using symlink_exists [OF area Some] by blast
      have l1: "links w1 = links w" using symlink_failed w1 by blast
      then obtain w2 where w2: "run_state (sys_readlinkat K AT_FDCWD (link_of abi name)) w1 = (Inr name, w2)"
        using readlink_exists [OF area, of w1] Some t by auto
      have "links w2 = links w" using readlink_keeps [OF w2] l1 by simp
      then show ?thesis
        using w1 w2 do_one_preload_module_linked [OF name 3] goal known
        by (simp add: run_state_bind glnx_readlinkat_malloc_def glnx_dirfd_canonicalize_def)
    qed
  qed (use name known in \<open>simp_all add: do_one_preload_module_def add_item_def\<close>)
qed

lemma preload_loop_exact:
  assumes "\<forall>m \<in> set ms. module_ok (g_build_filename G) dirs m" "set ms \<subseteq> set all" "links_known all (links w)" "conflict_free all"
  shows "\<exists>paths' w'. run_state (preload_loop G K (Some dirs) ms paths) w = (Some paths', w') \<and> links_known all (links w')
    \<and> (\<forall>i. items_of (paths' i) = foldl (add_item (g_build_filename G) dirs i) (items_of (paths i)) ms)"
  using assms
proof (induction ms arbitrary: paths w)
  case (Cons m ms)
  let ?items = "items_of (paths (pm_index m))"
  let ?paths = "paths(pm_index m := Some (add_item (g_build_filename G) dirs (pm_index m) ?items m))"
  from Cons.prems do_one_preload_module_exact [of m all w ?items] obtain w1
    where w1: "run_state (do_one_preload_module G K m ?items (Some dirs)) w =
      (Some (add_item (g_build_filename G) dirs (pm_index m) ?items m), w1)" "links_known all (links w1)" by auto
  have items: "items_of (?paths i) = add_item (g_build_filename G) dirs i (items_of (paths i)) m" for i
    by (cases "pm_index m = i") (auto simp: items_of_def add_item_def)
  have step: "run_state (preload_loop G K (Some dirs) (m # ms) paths) w = run_state (preload_loop G K (Some dirs) ms ?paths) w1"
    using w1(1) by (simp add: run_state_bind items_of_def Let_def)
  have "\<forall>m \<in> set ms. module_ok (g_build_filename G) dirs m" "set ms \<subseteq> set all" using Cons.prems(1,2) by auto
  from Cons.IH [OF this w1(2) Cons.prems(4), of ?paths] obtain paths' w'
    where p: "run_state (preload_loop G K (Some dirs) ms ?paths) w1 = (Some paths', w')" "links_known all (links w')"
      "\<forall>i. items_of (paths' i) = foldl (add_item (g_build_filename G) dirs i) (items_of (?paths i)) ms" by blast
  have "items_of (paths' i) = foldl (add_item (g_build_filename G) dirs i) (items_of (paths i)) (m # ms)" for i
    using p(3) items by (metis foldl_Cons)
  then show ?case unfolding step using p(1,2) by blast
qed auto

lemma exact_loaded:
  assumes ms: "\<forall>m \<in> set ms. module_ok (g_build_filename G) dirs m" and known: "links_known ms (links w')" and cf: "conflict_free ms"
    and abi: "abi < PV_N_SUPPORTED_ARCHITECTURES"
    and t: "t \<in> loaded (g_build_filename G) expand dirs (links w') abi (foldl (add_item (g_build_filename G) dirs i) [] ms)"
  shows "\<exists>m \<in> set ms. pm_index m = i \<and> pm_name m = Some t \<and> t \<noteq> [] \<and> meant_for abi m"
proof -
  obtain e where e: "e \<in> set (foldl (add_item (g_build_filename G) dirs i) [] ms)"
    "object_at (g_build_filename G) dirs (links w') (expand abi e) = Some t" using t by (auto simp: loaded_def)
  then obtain m name where m: "m \<in> set ms" "pm_index m = i" "pm_name m = Some name" "name \<noteq> []"
    "e = (case module_abi m name of None \<Rightarrow> name | Some _ \<Rightarrow> token_of name)"
    using ms unfolding set_expected_items token_of_def by (fastforce simp: module_ok_def split: option.splits)
  then have ok: "plain_text name" "base_ok (glnx_basename name)" "\<not> in_private (g_build_filename G) dirs name"
    using ms by (auto simp: module_ok_def)
  show ?thesis
  proof (cases "module_abi m name")
    case None
    then have "name = t" using e(2) m(5) ok plain_expands [OF ok(1)] by (simp add: object_at_def)
    then show ?thesis using m None by (auto simp: meant_for_def)
  next
    case (Some a)
    have x: "expand abi e = link_of abi name"
      using token_expands [OF abi ok(2)] m(5) Some by (simp add: token_of_def link_of_def)
    have "in_private (g_build_filename G) dirs (link_of abi name)"
      using abi ok(2) by (auto simp: in_private_def link_of_def)
    then have "links w' (link_of abi name) = Some t" using e(2) x by (simp add: object_at_def)
    then obtain m' where m': "m' \<in> set ms" "has_link m' abi t" "glnx_basename t = glnx_basename name"
      using known abi ok(2) unfolding links_known_def link_of_def by blast
    have "has_link m a name" using m Some by (simp add: has_link_def)
    then have "pm_index m' = i" using cf m m' unfolding conflict_free_def by metis
    then show ?thesis using m' by (auto simp: has_link_def meant_for_def)
  qed
qed

lemma exactly_loaded:
  assumes env: "environ_block (g_environ_getenv G) (g_environ_setenv G) (g_environ_unsetenv G)"
    and ms: "\<forall>m \<in> set ms. module_ok (g_build_filename G) dirs m" and cf: "conflict_free ms"
    and empty: "\<forall>p. in_private (g_build_filename G) dirs p \<longrightarrow> links w p = None"
    and active: "\<exists>m \<in> set ms. pm_index m = i \<and> pm_name m \<noteq> Some []"
  shows "\<exists>b' w' v. run_state (pv_adverb_set_up_preload_modules G K b (Some dirs) ms) w = (Some b', w')
    \<and> g_environ_getenv G (envp b') (pv_variable (pv_preload_variables i)) = Some v
    \<and> value_items i v = foldl (add_item (g_build_filename G) dirs i) [] ms
    \<and> (\<forall>abi < PV_N_SUPPORTED_ARCHITECTURES. loaded (g_build_filename G) expand dirs (links w') abi (value_items i v) =
        {name. \<exists>m \<in> set ms. pm_index m = i \<and> pm_name m = Some name \<and> name \<noteq> [] \<and> meant_for abi m})"
proof -
  have known: "links_known ms (links w)" using empty unfolding links_known_def in_private_def by (metis option.distinct(1))
  from preload_loop_exact [OF ms order_refl known cf, of "\<lambda>_. None"] obtain paths w'
    where loop: "run_state (preload_loop G K (Some dirs) ms (\<lambda>_. None)) w = (Some paths, w')" and known': "links_known ms (links w')"
      and items: "\<And>i. items_of (paths i) = foldl (add_item (g_build_filename G) dirs i) [] ms"
    by (auto simp: items_of_def)
  have none: "\<forall>i. \<forall>e \<in> set (items_of ((\<lambda>_. None) i)). item_ok e" by (simp add: items_of_def)
  have ok: "\<forall>i. \<forall>e \<in> set (items_of (paths i)). item_ok e"
    and cov: "\<forall>m \<in> set ms. covered (links w') (items_of (paths (pm_index m))) m"
    using preload_loop_covered [OF ms none loop] by auto
  from getenv_set_up_preload_modules [OF env ok loop, of b] obtain b'
    where b': "run_state (pv_adverb_set_up_preload_modules G K b (Some dirs) ms) w = (Some b', w')"
      "\<And>i. items_of (paths i) \<noteq> [] \<Longrightarrow>
        \<exists>v. g_environ_getenv G (envp b') (pv_variable (pv_preload_variables i)) = Some v \<and> value_items i v = items_of (paths i)" by blast
  obtain m name where m: "m \<in> set ms" "pm_index m = i" "pm_name m = Some name" "name \<noteq> []"
    using active ms by (auto simp: module_ok_def split: option.splits)
  have "items_of (paths i) \<noteq> []"
    using set_expected_items [of _ "g_build_filename G" dirs i "[]" ms] m unfolding items by fastforce
  from b'(2) [OF this] obtain v where v: "g_environ_getenv G (envp b') (pv_variable (pv_preload_variables i)) = Some v"
    "value_items i v = foldl (add_item (g_build_filename G) dirs i) [] ms" unfolding items by blast
  have "loaded (g_build_filename G) expand dirs (links w') abi (value_items i v) =
        {name. \<exists>m \<in> set ms. pm_index m = i \<and> pm_name m = Some name \<and> name \<noteq> [] \<and> meant_for abi m}"
    if abi: "abi < PV_N_SUPPORTED_ARCHITECTURES" for abi
  proof (intro equalityI subsetI)
    fix t
    assume "t \<in> loaded (g_build_filename G) expand dirs (links w') abi (value_items i v)"
    from exact_loaded [OF ms known' cf abi this [unfolded v(2)]] show
      "t \<in> {name. \<exists>m \<in> set ms. pm_index m = i \<and> pm_name m = Some name \<and> name \<noteq> [] \<and> meant_for abi m}" by blast
  next
    fix t
    assume "t \<in> {name. \<exists>m \<in> set ms. pm_index m = i \<and> pm_name m = Some name \<and> name \<noteq> [] \<and> meant_for abi m}"
    then obtain m where "m \<in> set ms" "pm_index m = i" "pm_name m = Some t" "t \<noteq> []" "meant_for abi m" by blast
    then show "t \<in> loaded (g_build_filename G) expand dirs (links w') abi (value_items i v)"
      using covered_loaded [of m t "links w'" "items_of (paths i)" abi] ms cov abi items v(2) by auto
  qed
  then show ?thesis using b'(1) v by blast
qed

end


section \<open>An instance\<close>

text \<open>A kernel that keeps links in its tree, under their whole paths.\<close>

definition store_links :: "mem_world \<Rightarrow> string \<Rightarrow> string option" where
  "store_links w p = (case map_of (tree w) [p] of Some (Lnk t) \<Rightarrow> Some t | _ \<Rightarrow> None)"

definition store_kernel :: "mem_world kernel" where
  "store_kernel = mem_kernel\<lparr>
     sys_symlinkat := (\<lambda>t fd p. State (\<lambda>w. if store_links w p = None then (Inr (), w\<lparr> tree := ([p], Lnk t) # tree w \<rparr>) else (Inl EEXIST, w))),
     sys_readlinkat := (\<lambda>fd p. State (\<lambda>w. (case store_links w p of Some t \<Rightarrow> Inr t | None \<Rightarrow> Inl EINVAL, w))) \<rparr>"

interpretation demo_store: link_store store_kernel store_links
  by unfold_locales
    (auto simp: store_kernel_def store_links_def fun_eq_iff split: if_splits option.splits)

interpretation demo_working: working_links store_kernel store_links "in_private (g_build_filename glib_ref) demo_dirs"
  by unfold_locales (simp_all add: store_kernel_def)

interpretation demo_setting: exact_setting glib_ref demo_expand demo_dirs store_kernel store_links
  by unfold_locales

definition demo_store_world :: mem_world where
  "demo_store_world = \<lparr> tree = [], table = [], next_fd = 3 \<rparr>"

lemma demo_private_below:
  assumes "in_private (g_build_filename glib_ref) demo_dirs p"
  shows "g_str_has_prefix p ''/tmp/libs/lib/''"
proof -
  obtain abi b where b: "abi < PV_N_SUPPORTED_ARCHITECTURES" "base_ok b" "p = g_build_filename glib_ref [pd_abi_paths demo_dirs ! abi, b]"
    using assms by (auto simp: in_private_def)
  have c: "clean (pd_abi_paths demo_dirs ! 0)" "clean (pd_abi_paths demo_dirs ! 1)" by code_simp+
  have "relative_clean b" using b(2) by (auto simp: base_ok_def intro: relative_clean_seg)
  with c b(1) have "p = pd_abi_paths demo_dirs ! abi @ CHR ''/'' # b"
    unfolding b(3) by (auto simp: abi_less intro: ref_joiner.build_exact)
  then show ?thesis using b(1) by (auto simp: abi_less demo_dirs_def g_str_has_prefix_def)
qed

lemma demo_modules_ok: "\<forall>m \<in> set demo_modules. module_ok (g_build_filename glib_ref) demo_dirs m"
proof -
  have ok: "plain_text n \<and> base_ok (glnx_basename n)" if "n \<in> {''/opt/x64/a.so'', ''libb.so'', ''/opt/x86/a.so''}" for n
  proof -
    have "list_all (\<lambda>n. plain_text n \<and> base_ok (glnx_basename n)) [''/opt/x64/a.so'', ''libb.so'', ''/opt/x86/a.so'']" by code_simp
    then show ?thesis using that by auto
  qed
  have "\<not> in_private (g_build_filename glib_ref) demo_dirs n" if "n \<in> {''/opt/x64/a.so'', ''libb.so'', ''/opt/x86/a.so''}" for n
    using demo_private_below [of n] that by (auto simp: g_str_has_prefix_def)
  with ok show ?thesis by (simp add: demo_modules_def module_ok_def PV_N_SUPPORTED_ARCHITECTURES_def)
qed

lemma demo_conflict_free: "conflict_free demo_modules"
proof -
  have "glnx_basename ''/opt/x64/a.so'' = ''a.so''" "glnx_basename ''libb.so'' = ''libb.so''" by code_simp+
  then show ?thesis by (auto simp: conflict_free_def demo_modules_def has_link_def module_abi_def split: if_splits)
qed

definition demo_command :: bwrap where "demo_command = flatpak_bwrap_new (path_host []) (Some [])"

theorem preload_modules_none_lost_witness:
  "\<exists>b' v w'. run_state (pv_adverb_set_up_preload_modules glib_ref store_kernel demo_command (Some demo_dirs) demo_modules)
      (demo_store_world\<lparr> tree := [([''/tmp/libs/lib/x86_64-linux-gnu/a.so''], Lnk ''/other'')] \<rparr>) = (Some b', w')
    \<and> g_environ_getenv glib_ref (envp b') ''LD_PRELOAD'' = Some v
    \<and> ''/opt/x64/a.so'' \<in> loaded (g_build_filename glib_ref) demo_expand demo_dirs (store_links w') 0
        (value_items PV_PRELOAD_VARIABLE_INDEX_LD_PRELOAD v)"
proof -
  let ?w = "demo_store_world\<lparr> tree := [([''/tmp/libs/lib/x86_64-linux-gnu/a.so''], Lnk ''/other'')] \<rparr>"
  obtain r w' where r: "run_state (pv_adverb_set_up_preload_modules glib_ref store_kernel demo_command (Some demo_dirs) demo_modules) ?w = (r, w')"
    by fastforce
  have m: "hd demo_modules \<in> set demo_modules" "pm_name (hd demo_modules) = Some ''/opt/x64/a.so''" "''/opt/x64/a.so'' \<noteq> []"
    "0 < PV_N_SUPPORTED_ARCHITECTURES" "meant_for 0 (hd demo_modules)"
    by (simp_all add: demo_modules_def PV_N_SUPPORTED_ARCHITECTURES_def meant_for_def module_abi_def)
  show ?thesis
    using preload_modules_none_lost [OF ref_env.environ_block_axioms demo_dirs.private_dirs_axioms demo_store.link_store_axioms demo_modules_ok r m] r
    by (auto simp: demo_modules_def)
qed


end
