(* ===== verification/WrapPreload.thy ===== *)
theory WrapPreload imports PreloadModules SysrootConfine Utils begin

text \<open>
  Preloadable modules on their way from the command line of \<open>pv-wrap\<close> to that of \<open>pv-adverb\<close>
  (\<open>pressure-vessel/wrap-setup.c\<close>, \<open>wrap-context.c\<close>): the classification of a module
  (\<open>steam-runtime-tools/libdl.c\<close>), its rewriting for the container, and the directories that have to be
  exported for it (\<open>pressure-vessel/exports.c\<close>). A result of \<^const>\<open>None\<close> means that following symbolic links ran
  out of fuel.
\<close>

section \<open>What a module is\<close>

datatype loadable_kind = SRT_LOADABLE_KIND_ERROR | SRT_LOADABLE_KIND_BASENAME | SRT_LOADABLE_KIND_PATH

datatype loadable_flag = SRT_LOADABLE_FLAGS_DYNAMIC_TOKENS | SRT_LOADABLE_FLAGS_ABI_DEPENDENT
  | SRT_LOADABLE_FLAGS_ORIGIN | SRT_LOADABLE_FLAGS_UNKNOWN_TOKENS

text \<open>The token after a dollar sign: up to the closing brace, or the longest word.\<close>

definition token_name :: "string \<Rightarrow> string" where
  "token_name token =
     (case token of
        c # cs \<Rightarrow> if c = CHR ''{'' then takeWhile (\<lambda>x. x \<noteq> CHR ''}'') cs
                  else takeWhile (\<lambda>x. g_ascii_isalnum x \<or> x = CHR ''_'') token
      | [] \<Rightarrow> [])"

definition token_flag :: "string \<Rightarrow> loadable_flag" where
  "token_flag name =
     (if name = ''LIB'' then SRT_LOADABLE_FLAGS_ABI_DEPENDENT
      else if name = ''ORIGIN'' then SRT_LOADABLE_FLAGS_ORIGIN
      else if name = ''PLATFORM'' then SRT_LOADABLE_FLAGS_ABI_DEPENDENT
      else SRT_LOADABLE_FLAGS_UNKNOWN_TOKENS)"

fun classify_tokens :: "string \<Rightarrow> loadable_flag set \<Rightarrow> loadable_flag set" where
  "classify_tokens [] flags = flags"
| "classify_tokens (c # cs) flags =
     classify_tokens cs
       (if c = CHR ''$'' then flags \<union> {SRT_LOADABLE_FLAGS_DYNAMIC_TOKENS, token_flag (token_name cs)} else flags)"

definition srt_loadable_classify :: "string \<Rightarrow> loadable_kind \<times> loadable_flag set" where
  "srt_loadable_classify loadable =
     (if loadable = [] then (SRT_LOADABLE_KIND_ERROR, {})
      else if CHR ''/'' \<in> set loadable then (SRT_LOADABLE_KIND_PATH, classify_tokens loadable {})
      else (SRT_LOADABLE_KIND_BASENAME, {}))"

section \<open>Exports, with failures logged\<close>

text \<open>These only differ in the message if a path cannot be exported.\<close>

definition pv_exports_expose_or_log :: "glib \<Rightarrow> 'w host \<Rightarrow> exports \<Rightarrow> int \<Rightarrow> string \<Rightarrow> ('w, exports) state" where
  "pv_exports_expose_or_log G H ex mode path = do {
     (ex', _) \<leftarrow> flatpak_exports_add_path_expose G H mode path ex;
     State_Monad.return ex' }"

definition pv_exports_expose_or_warn :: "glib \<Rightarrow> 'w host \<Rightarrow> exports \<Rightarrow> int \<Rightarrow> string \<Rightarrow> ('w, exports) state" where
  "pv_exports_expose_or_warn G H ex mode path = do {
     (ex', _) \<leftarrow> flatpak_exports_add_path_expose G H mode path ex;
     State_Monad.return ex' }"

definition pv_exports_expose_quietly :: "glib \<Rightarrow> 'w host \<Rightarrow> exports \<Rightarrow> int \<Rightarrow> string \<Rightarrow> ('w, exports) state" where
  "pv_exports_expose_quietly G H ex mode path = do {
     (ex', _) \<leftarrow> flatpak_exports_add_path_expose G H mode path ex;
     State_Monad.return ex' }"

definition pv_exports_mask_or_log :: "glib \<Rightarrow> 'w host \<Rightarrow> exports \<Rightarrow> string \<Rightarrow> ('w, exports) state" where
  "pv_exports_mask_or_log G H ex path = do {
     (ex', _) \<leftarrow> flatpak_exports_add_path_tmpfs G H path ex;
     State_Monad.return ex' }"

definition pv_exports_ensure_dir_or_warn :: "glib \<Rightarrow> 'w host \<Rightarrow> exports \<Rightarrow> string \<Rightarrow> ('w, exports) state" where
  "pv_exports_ensure_dir_or_warn G H ex path = do {
     (ex', _) \<leftarrow> flatpak_exports_add_path_dir G H path ex;
     State_Monad.return ex' }"

section \<open>The context\<close>

record runtime_dirs =
  rt_mutable_sysroot :: "sysroot option"
  rt_source_files :: string
  rt_provider :: "sysroot option"    \<comment> \<open>\<open>provider->in_current_ns\<close>\<close>

record wrap_context =
  wc_exports :: "exports option"
  wc_runtime :: "runtime_dirs option"
  wc_current_root :: sysroot
  wc_current_home_fd :: fd
  wc_original_environ :: "string list"
  wc_remove_game_overlay :: bool
  wc_paths_not_exported :: "string list"   \<comment> \<open>the keys of the table of paths that were warned about\<close>

datatype append_preload_flag = PV_APPEND_PRELOAD_FLAGS_FLATPAK_SUBSANDBOX | PV_APPEND_PRELOAD_FLAGS_IN_UNIT_TESTS
  | PV_APPEND_PRELOAD_FLAGS_ONE_ARCHITECTURE

section \<open>Whether the runtime has a library\<close>

text \<open>The paths to look at; the directory with the source files is opened when it is first needed. The result is
  \<^const>\<open>None\<close> without fuel, otherwise whether the library was found and the descriptor of that directory.\<close>

definition test_runtime_path :: "nat \<Rightarrow> glib \<Rightarrow> 'w kernel \<Rightarrow> runtime_dirs \<Rightarrow> string \<Rightarrow> fd \<Rightarrow> ('w, (bool \<times> bool \<times> fd) option) state" where
  "test_runtime_path fuel G K rt path source_files_fd =
     (case rt_mutable_sysroot rt of
        Some root \<Rightarrow> do {
          r \<leftarrow> srt_sysroot_test fuel G K root path {};
          State_Monad.return (map_option (\<lambda>q. (True, \<not> isl q, source_files_fd)) r) }
      | None \<Rightarrow> do {
          d \<leftarrow> (if source_files_fd < 0 then glnx_opendirat K AT_FDCWD (rt_source_files rt) True
                else State_Monad.return (Inr source_files_fd));
          (case d of
             Inl _ \<Rightarrow> State_Monad.return (Some (False, False, source_files_fd))
           | Inr dfd \<Rightarrow> do {
               r \<leftarrow> srt_resolve_in_sysroot fuel G K dfd path {};
               (case r of
                  None \<Rightarrow> State_Monad.return None
                | Some (Inl _) \<Rightarrow> State_Monad.return (Some (True, False, dfd))
                | Some (Inr (fd, _)) \<Rightarrow> do { glnx_close_fd K fd; State_Monad.return (Some (True, True, dfd)) }) }) })"

text \<open>The provider is only looked at if the rest of the iteration is not skipped (\<open>continue\<close>).\<close>

definition test_provider_path :: "nat \<Rightarrow> glib \<Rightarrow> 'w kernel \<Rightarrow> runtime_dirs \<Rightarrow> string \<Rightarrow> ('w, bool option) state" where
  "test_provider_path fuel G K rt path =
     (case rt_provider rt of
        None \<Rightarrow> State_Monad.return (Some False)
      | Some provider \<Rightarrow>
          if srt_sysroot_is_direct provider then do {
            p \<leftarrow> srt_sysroot_test fuel G K provider path {};
            State_Monad.return (map_option (\<lambda>q. \<not> isl q) p) }
          else State_Monad.return (Some False))"

definition test_library_path :: "nat \<Rightarrow> glib \<Rightarrow> 'w kernel \<Rightarrow> runtime_dirs \<Rightarrow> string \<Rightarrow> fd \<Rightarrow> ('w, (bool \<times> fd) option) state" where
  "test_library_path fuel G K rt path source_files_fd = do {
     r \<leftarrow> test_runtime_path fuel G K rt path source_files_fd;
     (case r of
        None \<Rightarrow> State_Monad.return None
      | Some (go_on, found, dfd) \<Rightarrow>
          if found \<or> \<not> go_on then State_Monad.return (Some (found, dfd))
          else do {
            p \<leftarrow> test_provider_path fuel G K rt path;
            State_Monad.return (map_option (\<lambda>q. (q, dfd)) p) }) }"

fun test_runtime_paths :: "nat \<Rightarrow> glib \<Rightarrow> 'w kernel \<Rightarrow> runtime_dirs \<Rightarrow> string list \<Rightarrow> fd \<Rightarrow> ('w, (bool \<times> fd) option) state" where
  "test_runtime_paths fuel G K rt [] source_files_fd = State_Monad.return (Some (False, source_files_fd))"
| "test_runtime_paths fuel G K rt (path # paths) source_files_fd = do {
     r \<leftarrow> test_library_path fuel G K rt path source_files_fd;
     (case r of
        None \<Rightarrow> State_Monad.return None
      | Some (found, dfd) \<Rightarrow>
          if found then State_Monad.return (Some (True, dfd)) else test_runtime_paths fuel G K rt paths dfd) }"

definition pv_runtime_has_library :: "nat \<Rightarrow> glib \<Rightarrow> 'w kernel \<Rightarrow> runtime_dirs \<Rightarrow> string \<Rightarrow> ('w, bool option) state" where
  "pv_runtime_has_library fuel G K rt library =
     (let paths = concat (map (\<lambda>details. map (\<lambda>libdir. g_build_filename G [libdir, library])
                                           (pv_multiarch_details_get_libdirs G details False)) pv_multiarch_details)
      in do {
        r \<leftarrow> test_runtime_paths fuel G K rt paths (- 1);
        (case r of
           None \<Rightarrow> State_Monad.return None
         | Some (found, source_files_fd) \<Rightarrow> do {
             glnx_close_fd K source_files_fd;
             State_Monad.return (Some found) }) })"

section \<open>Adding a module to the command line\<close>

definition export_path_for_preload :: "nat \<Rightarrow> glib \<Rightarrow> 'w kernel \<Rightarrow> wrap_context \<Rightarrow> string \<Rightarrow> ('w, string option option) state" where
  "export_path_for_preload fuel G K context path =
     (if wc_exports context = None then State_Monad.return (Some None)
      else (let parent = g_path_get_dirname G path in do {
        r \<leftarrow> srt_sysroot_open fuel G K (wc_current_root context) parent {MUST_BE_DIRECTORY} False;
        (case r of
           None \<Rightarrow> State_Monad.return None
         | Some q \<Rightarrow>
             (let parent_fd = (case q of Inl _ \<Rightarrow> - 1 | Inr (fd, _) \<Rightarrow> fd) in do {
                is_home \<leftarrow> (if wc_current_home_fd context \<ge> 0 \<and> parent_fd \<ge> 0
                           then srt_fstatat_is_same_file K (wc_current_home_fd context) [] parent_fd []
                           else State_Monad.return False);
                glnx_close_fd K parent_fd;
                State_Monad.return (Some (Some (if is_home then path else parent))) })) }))"

text \<open>The name of a module in the container.\<close>

definition module_moves :: "wrap_context \<Rightarrow> append_preload_flag set \<Rightarrow> string \<Rightarrow> bool" where
  "module_moves context flags original_path =
     (wc_runtime context \<noteq> None
      \<and> (g_str_has_prefix original_path ''/usr/'' \<or> g_str_has_prefix original_path ''/lib''
         \<or> PV_APPEND_PRELOAD_FLAGS_FLATPAK_SUBSANDBOX \<in> flags \<and> g_str_has_prefix original_path ''/app/''))"

definition container_name :: "glib \<Rightarrow> wrap_context \<Rightarrow> append_preload_flag set \<Rightarrow> string \<Rightarrow> string" where
  "container_name G context flags original_path =
     (if module_moves context flags original_path
      then g_build_filename G [if PV_APPEND_PRELOAD_FLAGS_FLATPAK_SUBSANDBOX \<in> flags then ''/run/parent'' else ''/run/host'', original_path]
      else original_path)"

definition append_preload_internal :: "glib \<Rightarrow> 'w host \<Rightarrow> wrap_context \<Rightarrow> string list \<Rightarrow> preload_variable_index \<Rightarrow> nat option \<Rightarrow>
    string option \<Rightarrow> string \<Rightarrow> append_preload_flag set \<Rightarrow> ('w, wrap_context \<times> string list) state" where
  "append_preload_internal G H context args which abi_index export_path original_path flags =
     (let module = PV_ADVERB_PRELOAD_MODULE_INIT\<lparr> pm_index := which, pm_abi := abi_index,
            pm_name := Some (container_name G context flags original_path) \<rparr>
      in do {
        context \<leftarrow>
          (if module_moves context flags original_path then State_Monad.return context
           else (case (wc_exports context, export_path) of
               (Some ex, Some path) \<Rightarrow>
                 if path \<noteq> [] \<and> hd path = CHR ''/''
                    \<and> \<not> (case g_environ_getenv G (wc_original_environ context) ''STEAM_COMPAT_CLIENT_INSTALL_PATH'' of
                           None \<Rightarrow> False | Some steam_path \<Rightarrow> flatpak_has_path_prefix path steam_path)
                 then do {
                   ex' \<leftarrow> pv_exports_expose_or_log G H ex FLATPAK_FILESYSTEM_MODE_READ_ONLY path;
                   State_Monad.return (context\<lparr> wc_exports := Some ex' \<rparr>) }
                 else State_Monad.return context
             | _ \<Rightarrow> State_Monad.return context));
        State_Monad.return (context, args @ (case pv_adverb_preload_module_to_adverb_cli module of None \<Rightarrow> [] | Some arg \<Rightarrow> [arg])) })"

text \<open>The part of an absolute path before the slash that precedes the first dollar sign, unless it is empty. (That there
  is a dollar sign and a slash before it is asserted; both hold for an absolute path with a token.)\<close>

definition token_export_path :: "string \<Rightarrow> string option" where
  "token_export_path preload =
     (if preload \<noteq> [] \<and> hd preload = CHR ''/'' then
        (case strchr preload CHR ''$'' of
           None \<Rightarrow> None
         | Some (before, _) \<Rightarrow> (case strrchr before CHR ''/'' of
               None \<Rightarrow> None
             | Some (export_path, _) \<Rightarrow> if export_path \<noteq> [] \<and> hd export_path = CHR ''/'' then Some export_path else None))
      else None)"

definition append_preload_unsupported_token :: "glib \<Rightarrow> 'w host \<Rightarrow> wrap_context \<Rightarrow> string list \<Rightarrow> preload_variable_index \<Rightarrow>
    string \<Rightarrow> append_preload_flag set \<Rightarrow> ('w, wrap_context \<times> string list) state" where
  "append_preload_unsupported_token G H context args which preload flags =
     append_preload_internal G H context args which None (token_export_path preload) preload flags"

text \<open>\<open>g_string_replace\<close> without a limit, and \<open>strstr\<close>.\<close>

function g_string_replace :: "string \<Rightarrow> string \<Rightarrow> string \<Rightarrow> string" where
  "g_string_replace s find_text replace_text =
     (if find_text \<noteq> [] \<and> g_str_has_prefix s find_text
      then replace_text @ g_string_replace (drop (length find_text) s) find_text replace_text
      else (case s of [] \<Rightarrow> [] | c # cs \<Rightarrow> c # g_string_replace cs find_text replace_text))"
  by pat_completeness auto
termination
  by (relation "measure (\<lambda>(s, f, r). length s)") (auto simp: g_str_has_prefix_iff)

declare g_string_replace.simps [simp del]

definition str_contains :: "string \<Rightarrow> string \<Rightarrow> bool" where
  "str_contains s needle = list_ex (\<lambda>t. g_str_has_prefix t needle) (suffixes s)"

text \<open>The absolute path of the version of a module for an architecture: what a helper process of that architecture
  found (\<open>check_library\<close>), or the mock of the unit tests.\<close>

definition mock_path :: "nat \<Rightarrow> string \<Rightarrow> string" where
  "mock_path abi preload =
     (let lib = ''lib/'' @ ma_tuple (pv_multiarch_details ! abi);
          platform = hd (ma_platforms (pv_multiarch_details ! abi))
      in if CHR ''/'' \<notin> set preload then ''/path/to/'' @ lib @ ''/'' @ preload
         else g_string_replace (g_string_replace (g_string_replace (g_string_replace preload
                ''$LIB'' lib) ''${LIB}'' lib) ''$PLATFORM'' platform) ''${PLATFORM}'' platform)"

definition library_path :: "(nat \<Rightarrow> string \<Rightarrow> string option) \<Rightarrow> append_preload_flag set \<Rightarrow> nat \<Rightarrow> string \<Rightarrow> string option" where
  "library_path check_library flags abi preload =
     (if PV_APPEND_PRELOAD_FLAGS_IN_UNIT_TESTS \<notin> flags then check_library abi preload
      else (let path = mock_path abi preload
            in if str_contains path ''only-32-bit'' \<and> ma_tuple (pv_multiarch_details ! abi) \<noteq> ''i386-linux-gnu'' then None else Some path))"

fun append_architectures :: "nat \<Rightarrow> glib \<Rightarrow> 'w host \<Rightarrow> (nat \<Rightarrow> string \<Rightarrow> string option) \<Rightarrow> wrap_context \<Rightarrow> string list \<Rightarrow>
    preload_variable_index \<Rightarrow> string \<Rightarrow> append_preload_flag set \<Rightarrow> nat list \<Rightarrow> ('w, (wrap_context \<times> string list) option) state" where
  "append_architectures fuel G H check_library context args which preload flags [] = State_Monad.return (Some (context, args))"
| "append_architectures fuel G H check_library context args which preload flags (abi # abis) =
     (case library_path check_library flags abi preload of
        None \<Rightarrow> append_architectures fuel G H check_library context args which preload flags abis
      | Some path \<Rightarrow> do {
          e \<leftarrow> export_path_for_preload fuel G (kern H) context path;
          (case e of
             None \<Rightarrow> State_Monad.return None
           | Some export_path \<Rightarrow> do {
               (context, args) \<leftarrow> append_preload_internal G H context args which (Some abi) export_path path flags;
               append_architectures fuel G H check_library context args which preload flags abis }) })"

definition preload_architectures :: "append_preload_flag set \<Rightarrow> nat list" where
  "preload_architectures flags =
     [0..<(if PV_APPEND_PRELOAD_FLAGS_ONE_ARCHITECTURE \<in> flags then 1 else PV_N_SUPPORTED_ARCHITECTURES)]"

definition append_preload_per_architecture :: "nat \<Rightarrow> glib \<Rightarrow> 'w host \<Rightarrow> (nat \<Rightarrow> string \<Rightarrow> string option) \<Rightarrow> wrap_context \<Rightarrow> string list \<Rightarrow>
    preload_variable_index \<Rightarrow> string \<Rightarrow> append_preload_flag set \<Rightarrow> ('w, (wrap_context \<times> string list) option) state" where
  "append_preload_per_architecture fuel G H check_library context args which preload flags =
     append_architectures fuel G H check_library context args which preload flags (preload_architectures flags)"

definition append_preload_basename :: "nat \<Rightarrow> glib \<Rightarrow> 'w host \<Rightarrow> (nat \<Rightarrow> string \<Rightarrow> string option) \<Rightarrow> wrap_context \<Rightarrow> string list \<Rightarrow>
    preload_variable_index \<Rightarrow> string \<Rightarrow> append_preload_flag set \<Rightarrow> ('w, (wrap_context \<times> string list) option) state" where
  "append_preload_basename fuel G H check_library context args which preload flags = do {
     r \<leftarrow> (case wc_runtime context of
         None \<Rightarrow> State_Monad.return (Some False)
       | Some rt \<Rightarrow> pv_runtime_has_library fuel G (kern H) rt preload);
     (case r of
        None \<Rightarrow> State_Monad.return None
      | Some has \<Rightarrow>
          if (if PV_APPEND_PRELOAD_FLAGS_IN_UNIT_TESTS \<in> flags then \<not> g_str_has_prefix preload ''libfake'' else has)
          then do {
            r \<leftarrow> append_preload_internal G H context args which None None preload flags;
            State_Monad.return (Some r) }
          else append_preload_per_architecture fuel G H check_library context args which preload flags) }"

definition pv_wrap_append_preload :: "nat \<Rightarrow> glib \<Rightarrow> 'w host \<Rightarrow> (nat \<Rightarrow> string \<Rightarrow> string option) \<Rightarrow> wrap_context \<Rightarrow> string list \<Rightarrow>
    preload_variable_index \<Rightarrow> string \<Rightarrow> append_preload_flag set \<Rightarrow> ('w, (wrap_context \<times> string list) option) state" where
  "pv_wrap_append_preload fuel G H check_library context args which preload flags =
     (if str_contains preload ''gtk3-nocsd'' then State_Monad.return (Some (context, args))
      else if wc_remove_game_overlay context \<and> g_str_has_suffix preload ''/gameoverlayrenderer.so''
      then State_Monad.return (Some (context, args))
      else (case srt_loadable_classify preload of
          (SRT_LOADABLE_KIND_BASENAME, _) \<Rightarrow> append_preload_basename fuel G H check_library context args which preload flags
        | (SRT_LOADABLE_KIND_PATH, loadable_flags) \<Rightarrow>
            if SRT_LOADABLE_FLAGS_ORIGIN \<in> loadable_flags \<or> SRT_LOADABLE_FLAGS_UNKNOWN_TOKENS \<in> loadable_flags then do {
              r \<leftarrow> append_preload_unsupported_token G H context args which preload flags;
              State_Monad.return (Some r) }
            else if SRT_LOADABLE_FLAGS_ABI_DEPENDENT \<in> loadable_flags
            then append_preload_per_architecture fuel G H check_library context args which preload flags
            else do {
              e \<leftarrow> export_path_for_preload fuel G (kern H) context preload;
              (case e of
                 None \<Rightarrow> State_Monad.return None
               | Some export_path \<Rightarrow> do {
                   r \<leftarrow> append_preload_internal G H context args which None export_path preload flags;
                   State_Monad.return (Some r) }) }
        | (SRT_LOADABLE_KIND_ERROR, _) \<Rightarrow> State_Monad.return (Some (context, args))))"

text \<open>The options of \<open>pv-wrap\<close> and the loop over all modules (\<open>wrap.c\<close>).\<close>

definition wrap_opt_ld_something :: "preload_variable_index \<Rightarrow> string \<Rightarrow> bool \<Rightarrow> (preload_variable_index \<times> string) list \<Rightarrow>
    (preload_variable_index \<times> string) list" where
  "wrap_opt_ld_something which value split preload_modules =
     (let tokens = (if split then g_strsplit_set value (pv_separators (pv_preload_variables which)) else [value])
      in preload_modules @ map (Pair which) (filter (\<lambda>t. t \<noteq> []) tokens))"

fun append_preloads :: "nat \<Rightarrow> glib \<Rightarrow> 'w host \<Rightarrow> (nat \<Rightarrow> string \<Rightarrow> string option) \<Rightarrow> wrap_context \<Rightarrow> string list \<Rightarrow>
    append_preload_flag set \<Rightarrow> (preload_variable_index \<times> string) list \<Rightarrow> ('w, (wrap_context \<times> string list) option) state" where
  "append_preloads fuel G H check_library context args flags [] = State_Monad.return (Some (context, args))"
| "append_preloads fuel G H check_library context args flags ((which, preload) # modules) = do {
     r \<leftarrow> pv_wrap_append_preload fuel G H check_library context args which preload flags;
     (case r of
        None \<Rightarrow> State_Monad.return None
      | Some (context, args) \<Rightarrow> append_preloads fuel G H check_library context args flags modules) }"

section \<open>Classification\<close>

lemma classify_tokens_iff:
  "f \<in> classify_tokens s flags \<longleftrightarrow>
    f \<in> flags \<or> (\<exists>a t. s = a @ CHR ''$'' # t \<and> f \<in> {SRT_LOADABLE_FLAGS_DYNAMIC_TOKENS, token_flag (token_name t)})"
proof (induction s arbitrary: flags)
  case (Cons c cs)
  have "(\<exists>a t. c # cs = a @ CHR ''$'' # t \<and> P t) \<longleftrightarrow> (c = CHR ''$'' \<and> P cs) \<or> (\<exists>a t. cs = a @ CHR ''$'' # t \<and> P t)" for P
    by (auto simp: Cons_eq_append_conv)
  then show ?case by (auto simp: Cons.IH)
qed simp

lemma classified_token:
  assumes "srt_loadable_classify preload = (kind, flags)" "f \<in> flags"
  shows "kind = SRT_LOADABLE_KIND_PATH \<and> CHR ''/'' \<in> set preload \<and> CHR ''$'' \<in> set preload"
  using assms classify_tokens_iff [of f preload "{}"] by (auto simp: srt_loadable_classify_def split: if_splits)

text \<open>For an absolute module with a token that cannot be predicted, the assertions on the dollar sign and on
  the slash before it hold; what is exported is an absolute directory other than the root, above the
  module and without any token; if nothing is exported, the element with the token is at the root.\<close>

theorem token_export_path_safe:
  assumes "srt_loadable_classify preload = (kind, flags)"
    and "SRT_LOADABLE_FLAGS_ORIGIN \<in> flags \<or> SRT_LOADABLE_FLAGS_UNKNOWN_TOKENS \<in> flags"
    and "preload \<noteq> []" and "hd preload = CHR ''/''"
  shows "\<exists>before after dir element. strchr preload CHR ''$'' = Some (before, after) \<and> strrchr before CHR ''/'' = Some (dir, element)
    \<and> preload = dir @ CHR ''/'' # element @ CHR ''$'' # after \<and> CHR ''$'' \<notin> set dir
    \<and> token_export_path preload = (if dir = [] then None else Some dir) \<and> (dir \<noteq> [] \<longrightarrow> hd dir = CHR ''/'')"
proof -
  have "CHR ''$'' \<in> set preload" using classified_token [OF assms(1)] assms(2) by blast
  then obtain before after where ba: "strchr preload CHR ''$'' = Some (before, after)"
    by (cases "strchr preload CHR ''$''") (auto simp: strchr_None)
  then have p: "preload = before @ CHR ''$'' # after" "CHR ''$'' \<notin> set before" using strchr_SomeD by blast+
  then have b: "before \<noteq> []" "hd before = CHR ''/''" using assms(4) by (cases before; auto)+
  then have "CHR ''/'' \<in> set before" by (cases before) auto
  then obtain dir element where de: "strrchr before CHR ''/'' = Some (dir, element)"
    by (cases "strrchr before CHR ''/''") (auto simp: strrchr_None)
  then have d: "before = dir @ CHR ''/'' # element" by (simp add: strrchr_Some_iff)
  have hd: "dir \<noteq> [] \<longrightarrow> hd dir = CHR ''/''" using b d by (cases dir) auto
  have "token_export_path preload = (if dir = [] then None else Some dir)"
    using assms(3,4) ba de hd by (auto simp: token_export_path_def)
  then show ?thesis using ba de p d hd by auto
qed

theorem token_export_path_safe_witness:
  "token_export_path ''/opt/x/plat-${ORIGIN}/a.so'' = Some ''/opt/x'' \<and> token_export_path ''/$FOO/a.so'' = None"
proof -
  have c: "srt_loadable_classify ''/opt/x/plat-${ORIGIN}/a.so'' =
      (SRT_LOADABLE_KIND_PATH, {SRT_LOADABLE_FLAGS_DYNAMIC_TOKENS, SRT_LOADABLE_FLAGS_ORIGIN})" by code_simp
  have t: "SRT_LOADABLE_FLAGS_ORIGIN \<in> {SRT_LOADABLE_FLAGS_DYNAMIC_TOKENS, SRT_LOADABLE_FLAGS_ORIGIN} \<or>
      SRT_LOADABLE_FLAGS_UNKNOWN_TOKENS \<in> {SRT_LOADABLE_FLAGS_DYNAMIC_TOKENS, SRT_LOADABLE_FLAGS_ORIGIN}" by simp
  have "strchr ''/opt/x/plat-${ORIGIN}/a.so'' CHR ''$'' = Some (''/opt/x/plat-'', ''{ORIGIN}/a.so'')"
    "strrchr ''/opt/x/plat-'' CHR ''/'' = Some (''/opt/x'', ''plat-'')" by code_simp+
  with token_export_path_safe [OF c t] have "token_export_path ''/opt/x/plat-${ORIGIN}/a.so'' = Some ''/opt/x''" by auto
  moreover have "token_export_path ''/$FOO/a.so'' = None" by code_simp
  ultimately show ?thesis by simp
qed

section \<open>The options for \<open>pv-adverb\<close>\<close>

text \<open>What a module should become, without reference to the functions of the code that decide it. First its name in the
  container: files of the operating system, or of the Flatpak app, are found below another directory.\<close>

definition name_in_container :: "glib \<Rightarrow> wrap_context \<Rightarrow> append_preload_flag set \<Rightarrow> string \<Rightarrow> string" where
  "name_in_container G context flags path =
     (let in_flatpak = (PV_APPEND_PRELOAD_FLAGS_FLATPAK_SUBSANDBOX \<in> flags);
          elsewhere = [''/usr/'', ''/lib''] @ (if in_flatpak then [''/app/''] else [])
      in if wc_runtime context = None \<or> \<not> list_ex (g_str_has_prefix path) elsewhere then path
         else if in_flatpak then g_build_filename G [''/run/parent'', path]
         else g_build_filename G [''/run/host'', path])"

lemma container_name_eq: "container_name G context flags path = name_in_container G context flags path"
  by (auto simp: container_name_def module_moves_def name_in_container_def Let_def)

definition wrapped_module :: "glib \<Rightarrow> wrap_context \<Rightarrow> append_preload_flag set \<Rightarrow> preload_variable_index \<Rightarrow> nat option \<Rightarrow> string \<Rightarrow> preload_module" where
  "wrapped_module G context flags which abi path =
     \<lparr> pm_name = Some (name_in_container G context flags path), pm_index = which, pm_abi = abi \<rparr>"

definition split_modules :: "glib \<Rightarrow> (nat \<Rightarrow> string \<Rightarrow> string option) \<Rightarrow> wrap_context \<Rightarrow> append_preload_flag set \<Rightarrow> preload_variable_index \<Rightarrow>
    string \<Rightarrow> nat list \<Rightarrow> preload_module list" where
  "split_modules G check_library context flags which preload abis =
     concat (map (\<lambda>abi. case library_path check_library flags abi preload of
         None \<Rightarrow> [] | Some path \<Rightarrow> [wrapped_module G context flags which (Some abi) path]) abis)"

text \<open>The dynamic string tokens in a module, and what the runtime says about a library: in the unit tests it has all
  but those called \<open>libfake\<close>, and without a runtime there is none.\<close>

definition token_names :: "string \<Rightarrow> string list" where
  "token_names preload = map (\<lambda>t. token_name (tl t)) (filter (\<lambda>t. t \<noteq> [] \<and> hd t = CHR ''$'') (suffixes preload))"

definition runtime_says :: "nat \<Rightarrow> glib \<Rightarrow> 'w host \<Rightarrow> wrap_context \<Rightarrow> append_preload_flag set \<Rightarrow> string \<Rightarrow> bool \<Rightarrow> bool" where
  "runtime_says fuel G H context flags library has =
     (if PV_APPEND_PRELOAD_FLAGS_IN_UNIT_TESTS \<in> flags then has \<longleftrightarrow> \<not> g_str_has_prefix library ''libfake''
      else case wc_runtime context of
          None \<Rightarrow> \<not> has
        | Some rt \<Rightarrow> \<exists>s s'. run_state (pv_runtime_has_library fuel G (kern H) rt library) s = (Some has, s'))"

text \<open>Nothing for the two kinds of libraries that are not loaded in the container; a basename stays as it is if the runtime has
  it; and a path does unless it has only the tokens that differ between architectures, and at least one.\<close>

definition module_becomes :: "nat \<Rightarrow> glib \<Rightarrow> 'w host \<Rightarrow> (nat \<Rightarrow> string \<Rightarrow> string option) \<Rightarrow> wrap_context \<Rightarrow> append_preload_flag set \<Rightarrow>
    preload_variable_index \<times> string \<Rightarrow> preload_module list \<Rightarrow> bool" where
  "module_becomes fuel G H check_library context flags wp ms =
     (let (which, preload) = wp;
          one = [wrapped_module G context flags which None preload];
          each = split_modules G check_library context flags which preload
            (if PV_APPEND_PRELOAD_FLAGS_ONE_ARCHITECTURE \<in> flags then [0] else [0..<PV_N_SUPPORTED_ARCHITECTURES])
      in if str_contains preload ''gtk3-nocsd'' \<or> wc_remove_game_overlay context \<and> g_str_has_suffix preload ''/gameoverlayrenderer.so''
            \<or> preload = [] then ms = []
         else if CHR ''/'' \<notin> set preload then \<exists>has. runtime_says fuel G H context flags preload has \<and> ms = (if has then one else each)
         else if token_names preload \<noteq> [] \<and> set (token_names preload) \<subseteq> {''LIB'', ''PLATFORM''} then ms = each
         else ms = one)"

lemma in_token_names: "n \<in> set (token_names s) \<longleftrightarrow> (\<exists>a t. s = a @ CHR ''$'' # t \<and> n = token_name t)"
proof
  assume "n \<in> set (token_names s)"
  then obtain t where t: "suffix t s" "t \<noteq> []" "hd t = CHR ''$''" "n = token_name (tl t)" by (auto simp: token_names_def)
  then obtain a where "s = a @ CHR ''$'' # tl t" by (metis list.collapse suffix_def)
  then show "\<exists>a t. s = a @ CHR ''$'' # t \<and> n = token_name t" using t(4) by blast
qed (force simp: token_names_def suffix_def)

text \<open>The classification agrees with the tokens.\<close>

lemma token_flag_iff:
  "SRT_LOADABLE_FLAGS_ABI_DEPENDENT = token_flag n \<longleftrightarrow> n \<in> {''LIB'', ''PLATFORM''}"
  "SRT_LOADABLE_FLAGS_ORIGIN = token_flag n \<or> SRT_LOADABLE_FLAGS_UNKNOWN_TOKENS = token_flag n \<longleftrightarrow> n \<notin> {''LIB'', ''PLATFORM''}"
  by (simp_all add: token_flag_def)

lemma classified_path:
  assumes "srt_loadable_classify preload = (SRT_LOADABLE_KIND_PATH, lf)"
  shows "SRT_LOADABLE_FLAGS_ORIGIN \<in> lf \<or> SRT_LOADABLE_FLAGS_UNKNOWN_TOKENS \<in> lf \<longleftrightarrow> \<not> set (token_names preload) \<subseteq> {''LIB'', ''PLATFORM''}"
    and "SRT_LOADABLE_FLAGS_ABI_DEPENDENT \<in> lf \<longleftrightarrow> set (token_names preload) \<inter> {''LIB'', ''PLATFORM''} \<noteq> {}"
proof -
  have lf: "lf = classify_tokens preload {}" using assms by (auto simp: srt_loadable_classify_def split: if_splits)
  have f: "f \<in> lf \<longleftrightarrow> (\<exists>n \<in> set (token_names preload). f \<in> {SRT_LOADABLE_FLAGS_DYNAMIC_TOKENS, token_flag n})" for f
    unfolding lf classify_tokens_iff Bex_def in_token_names by blast
  show "SRT_LOADABLE_FLAGS_ORIGIN \<in> lf \<or> SRT_LOADABLE_FLAGS_UNKNOWN_TOKENS \<in> lf \<longleftrightarrow> \<not> set (token_names preload) \<subseteq> {''LIB'', ''PLATFORM''}"
    unfolding f using token_flag_iff(2) by blast
  show "SRT_LOADABLE_FLAGS_ABI_DEPENDENT \<in> lf \<longleftrightarrow> set (token_names preload) \<inter> {''LIB'', ''PLATFORM''} \<noteq> {}"
    unfolding f using token_flag_iff(1) by blast
qed

definition cli_arg :: "preload_module \<Rightarrow> string" where
  "cli_arg m = pv_adverb_option (pv_preload_variables (pm_index m)) @ ''='' @ cli_value m"

text \<open>Of the context only the exports change, and they stay well-formed and only grow.\<close>

definition context_grows :: "wrap_context \<Rightarrow> wrap_context \<Rightarrow> bool" where
  "context_grows c c' = (c' = c\<lparr> wc_exports := wc_exports c' \<rparr> \<and>
     (case (wc_exports c, wc_exports c') of
        (None, None) \<Rightarrow> True
      | (Some ex, Some ex') \<Rightarrow> (exports_ok ex \<longrightarrow> exports_ok ex') \<and> exports_grow ex ex'
      | _ \<Rightarrow> False))"

lemma context_grows_refl [simp]: "context_grows c c"
  by (simp add: context_grows_def split: option.split)

lemma context_grows_trans: "context_grows a b \<Longrightarrow> context_grows b c \<Longrightarrow> context_grows a c"
  unfolding context_grows_def
  by (cases "wc_exports a"; cases "wc_exports b"; cases "wc_exports c"; cases a; cases b; cases c)
    (auto intro: exports_grow_trans)

lemma context_grows_same:
  assumes "context_grows c c'"
  shows "name_in_container G c' flags p = name_in_container G c flags p" "wrapped_module G c' = wrapped_module G c"
    "split_modules G cl c' = split_modules G cl c" "module_becomes fuel G H cl c' = module_becomes fuel G H cl c"
proof -
  have c: "c' = c\<lparr> wc_exports := wc_exports c' \<rparr>" using assms by (simp add: context_grows_def)
  have same: "wc_runtime c' = wc_runtime c" "wc_remove_game_overlay c' = wc_remove_game_overlay c"
    by (subst c, simp)+
  show n: "name_in_container G c' flags p = name_in_container G c flags p" for flags p
    by (simp add: name_in_container_def same)
  show w: "wrapped_module G c' = wrapped_module G c" by (intro ext) (simp add: wrapped_module_def n)
  show s: "split_modules G cl c' = split_modules G cl c" by (intro ext) (simp only: split_modules_def w)
  have rs: "runtime_says fuel G H c' = runtime_says fuel G H c"
    unfolding fun_eq_iff runtime_says_def same by (intro allI refl)
  show "module_becomes fuel G H cl c' = module_becomes fuel G H cl c"
    unfolding fun_eq_iff module_becomes_def w s same rs by (intro allI refl)
qed

lemma expose_or_log_grows:
  assumes "canonicalizer (g_file_path G)"
  shows "hoare (\<lambda>_. True) (pv_exports_expose_or_log G H ex mode path) (\<lambda>ex' _. (exports_ok ex \<longrightarrow> exports_ok ex') \<and> exports_grow ex ex')"
  unfolding pv_exports_expose_or_log_def
proof (rule hoare_bind [where R = "\<lambda>r _. expose_good ex r"])
  show "hoare (\<lambda>_. True) (flatpak_exports_add_path_expose G H mode path ex) (\<lambda>r _. expose_good ex r)"
    unfolding flatpak_exports_add_path_expose_def
    by (intro hoare_if hoare_weaken [OF exports_path_expose_good [OF assms] _ exposed_good]) (simp_all add: hoare_return)
next
  fix r
  show "hoare (\<lambda>_. expose_good ex r) (case r of (ex', uu) \<Rightarrow> State_Monad.return ex')
      (\<lambda>ex' _. (exports_ok ex \<longrightarrow> exports_ok ex') \<and> exports_grow ex ex')"
    by (cases r) (auto intro: hoare_return simp: expose_good_def)
qed

lemma expose_or_log_modes:
  "hoare (\<lambda>_. True) (pv_exports_expose_or_log G H ex mode path) (\<lambda>ex' _. new_modes {mode, FAKE_MODE_SYMLINK} ex ex')"
  unfolding pv_exports_expose_or_log_def flatpak_exports_add_path_expose_def
  by (rule hoare_bind [where R = "\<lambda>r _. new_modes {mode, FAKE_MODE_SYMLINK} ex (fst r)"],
      intro hoare_if exports_path_expose_modes, simp add: hoare_return, rule hoare_prod, simp add: hoare_return)

definition adds :: "wrap_context \<Rightarrow> string list \<Rightarrow> preload_module list \<Rightarrow> wrap_context \<times> string list \<Rightarrow> bool" where
  "adds c args ms r = (context_grows c (fst r) \<and> snd r = args @ map cli_arg ms)"

lemma append_preload_internal_adds:
  assumes canon: "canonicalizer (g_file_path G)" and abi: "\<forall>a. abi = Some a \<longrightarrow> a < PV_N_SUPPORTED_ARCHITECTURES"
  shows "hoare (\<lambda>_. True) (append_preload_internal G H c args which abi export_path path flags)
    (\<lambda>r _. adds c args [wrapped_module G c flags which abi path] r)"
proof -
  let ?m = "wrapped_module G c flags which abi path"
  have m: "PV_ADVERB_PRELOAD_MODULE_INIT\<lparr> pm_index := which, pm_abi := abi, pm_name := Some (container_name G c flags path) \<rparr> = ?m"
    by (simp add: PV_ADVERB_PRELOAD_MODULE_INIT_def wrapped_module_def container_name_eq)
  have "cli_module ?m" using abi by (simp add: cli_module_def wrapped_module_def)
  then have arg: "pv_adverb_preload_module_to_adverb_cli ?m = Some (cli_arg ?m)" by (simp add: to_adverb_cli cli_arg_def)
  have expose: "hoare (\<lambda>_. True) (do { ex' \<leftarrow> pv_exports_expose_or_log G H ex FLATPAK_FILESYSTEM_MODE_READ_ONLY p;
        State_Monad.return (c\<lparr> wc_exports := Some ex' \<rparr>) }) (\<lambda>c' _. context_grows c c')" if "wc_exports c = Some ex" for ex p
    by (rule hoare_wrap [OF expose_or_log_grows [OF canon]]) (use that in \<open>simp add: context_grows_def\<close>)
  show ?thesis
    unfolding append_preload_internal_def Let_def m arg option.case
  proof (rule hoare_bind [where R = "\<lambda>c' _. context_grows c c'"])
    show "hoare (\<lambda>_. context_grows c c') (State_Monad.return (c', args @ [cli_arg ?m])) (\<lambda>r _. adds c args [?m] r)" for c'
      by (rule hoare_return) (simp add: adds_def)
  qed (auto intro!: hoare_if hoare_return expose split: option.split)
qed

lemma hoare_adds:
  "hoare (\<lambda>_. True) m (\<lambda>r _. adds c args ms r) \<Longrightarrow>
   hoare (\<lambda>_. True) (do { r \<leftarrow> m; State_Monad.return (Some r) }) (\<lambda>r _. \<forall>r'. r = Some r' \<longrightarrow> adds c args ms r')"
  by (erule hoare_wrap) simp

lemma append_architectures_adds:
  assumes canon: "canonicalizer (g_file_path G)"
  shows "\<forall>abi \<in> set abis. abi < PV_N_SUPPORTED_ARCHITECTURES \<Longrightarrow>
    hoare (\<lambda>_. True) (append_architectures fuel G H cl c args which preload flags abis)
      (\<lambda>r _. \<forall>r'. r = Some r' \<longrightarrow> adds c args (split_modules G cl c flags which preload abis) r')"
proof (induction abis arbitrary: c args)
  case Nil
  show ?case by (auto intro: hoare_return simp: adds_def split_modules_def)
next
  case (Cons abi abis)
  show ?case
  proof (cases "library_path cl flags abi preload")
    case None
    then show ?thesis using Cons.IH [of c args] Cons.prems by (simp add: split_modules_def)
  next
    case (Some path)
    have split: "split_modules G cl c flags which preload (abi # abis) =
        wrapped_module G c flags which (Some abi) path # split_modules G cl c flags which preload abis"
      by (simp add: split_modules_def Some)
    have step: "hoare (\<lambda>_. True) (do { (c', args') \<leftarrow> append_preload_internal G H c args which (Some abi) export_path path flags;
          append_architectures fuel G H cl c' args' which preload flags abis })
        (\<lambda>r _. \<forall>r'. r = Some r' \<longrightarrow> adds c args (split_modules G cl c flags which preload (abi # abis)) r')" for export_path
    proof (rule hoare_bind [OF append_preload_internal_adds [OF canon]], use Cons.prems in simp, rule hoare_prod)
      fix r :: "wrap_context \<times> string list" and c' args'
      assume r: "r = (c', args')"
      show "hoare (\<lambda>_. adds c args [wrapped_module G c flags which (Some abi) path] r)
          (append_architectures fuel G H cl c' args' which preload flags abis)
          (\<lambda>r _. \<forall>r'. r = Some r' \<longrightarrow> adds c args (split_modules G cl c flags which preload (abi # abis)) r')"
      proof (cases "adds c args [wrapped_module G c flags which (Some abi) path] r")
        case True
        then have grow: "context_grows c c'" and a: "args' = args @ [cli_arg (wrapped_module G c flags which (Some abi) path)]"
          using r by (auto simp: adds_def)
        show ?thesis
        proof (rule hoare_weaken [OF Cons.IH])
          fix q s
          assume "\<forall>r'. q = Some r' \<longrightarrow> adds c' args' (split_modules G cl c' flags which preload abis) r'"
          then show "\<forall>r'. q = Some r' \<longrightarrow> adds c args (split_modules G cl c flags which preload (abi # abis)) r'"
            unfolding context_grows_same(3) [OF grow] split adds_def a by (auto intro: context_grows_trans [OF grow])
        qed (use Cons.prems in auto)
      qed (simp add: hoare_false)
    qed
    show ?thesis
      unfolding append_architectures.simps Some option.case
      by (rule hoare_bind [OF hoare_any], rule hoare_option, rule hoare_return, simp, rule hoare_pre [OF step], simp)
  qed
qed

lemma preload_architectures_eq:
  "preload_architectures flags = (if PV_APPEND_PRELOAD_FLAGS_ONE_ARCHITECTURE \<in> flags then [0] else [0..<PV_N_SUPPORTED_ARCHITECTURES])"
  by (simp add: preload_architectures_def)

text \<open>The answer of the runtime is the one that the code acts on.\<close>

lemma hoare_answers: "hoare P m (\<lambda>r _. \<exists>s s'. run_state m s = (r, s'))"
  by (auto simp: hoare_def split: prod.split)

lemma append_preload_basename_adds:
  assumes canon: "canonicalizer (g_file_path G)"
  shows "hoare (\<lambda>_. True) (append_preload_basename fuel G H cl c args which preload flags)
    (\<lambda>r _. \<forall>r'. r = Some r' \<longrightarrow> (\<exists>has. runtime_says fuel G H c flags preload has \<and>
      adds c args (if has then [wrapped_module G c flags which None preload]
        else split_modules G cl c flags which preload (preload_architectures flags)) r'))"
    (is "hoare _ _ ?R")
proof -
  have one: "hoare (\<lambda>_. True) (do { r \<leftarrow> append_preload_internal G H c args which None None preload flags; State_Monad.return (Some r) }) ?R"
    if "runtime_says fuel G H c flags preload True"
    by (rule hoare_weaken [OF hoare_adds [OF append_preload_internal_adds [OF canon]]]) (use that in auto)
  have each: "hoare (\<lambda>_. True) (append_preload_per_architecture fuel G H cl c args which preload flags) ?R"
    if "runtime_says fuel G H c flags preload False"
    unfolding append_preload_per_architecture_def
    by (rule hoare_weaken [OF append_architectures_adds [OF canon]])
      (use that in \<open>auto simp: preload_architectures_def PV_N_SUPPORTED_ARCHITECTURES_def split: if_splits\<close>)
  let ?ask = "case wc_runtime c of None \<Rightarrow> State_Monad.return (Some False) | Some rt \<Rightarrow> pv_runtime_has_library fuel G (kern H) rt preload"
  let ?is = "\<lambda>has. if PV_APPEND_PRELOAD_FLAGS_IN_UNIT_TESTS \<in> flags then \<not> g_str_has_prefix preload ''libfake'' else has"
  let ?act = "\<lambda>b. if b
          then do { r \<leftarrow> append_preload_internal G H c args which None None preload flags; State_Monad.return (Some r) }
          else append_preload_per_architecture fuel G H cl c args which preload flags"
  have says: "hoare (\<lambda>_. True) (?act b) ?R" if "runtime_says fuel G H c flags preload b" for b
    using that one each by (cases b) auto
  have act: "hoare (\<lambda>_. \<exists>s s'. run_state ?ask s = (Some has, s')) (?act (?is has)) ?R" for has
  proof (cases "\<exists>s s'. run_state ?ask s = (Some has, s')")
    case True
    then have "runtime_says fuel G H c flags preload (?is has)"
      by (auto simp: runtime_says_def split: option.splits)
    from says [OF this] show ?thesis by (rule hoare_pre) simp
  qed (simp add: hoare_false)
  show ?thesis
    unfolding append_preload_basename_def
    by (rule hoare_bind [OF hoare_answers], rule hoare_option, rule hoare_return, simp, simp only: option.case, rule act)
qed

lemma pv_wrap_append_preload_adds:
  assumes canon: "canonicalizer (g_file_path G)"
  shows "hoare (\<lambda>_. True) (pv_wrap_append_preload fuel G H cl c args which preload flags)
    (\<lambda>r _. \<forall>r'. r = Some r' \<longrightarrow> (\<exists>ms. module_becomes fuel G H cl c flags (which, preload) ms \<and> adds c args ms r'))"
proof -
  obtain kind lf where k: "srt_loadable_classify preload = (kind, lf)" by fastforce
  let ?Q = "\<lambda>ms r _. \<forall>r'. r = Some r' \<longrightarrow> adds c args ms r'"
  let ?R = "\<lambda>r _. \<forall>r'. r = Some r' \<longrightarrow> (\<exists>ms. module_becomes fuel G H cl c flags (which, preload) ms \<and> adds c args ms r')"
  let ?one = "[wrapped_module G c flags which None preload]"
  let ?each = "split_modules G cl c flags which preload (preload_architectures flags)"
  note becomes = module_becomes_def Let_def preload_architectures_eq [symmetric]
  have fin: "hoare (\<lambda>_. True) m ?R" if "hoare (\<lambda>_. True) m (?Q ms)" "module_becomes fuel G H cl c flags (which, preload) ms" for m ms
    by (rule hoare_weaken [OF that(1)]) (use that(2) in auto)
  have none: "hoare (\<lambda>_. True) (State_Monad.return (Some (c, args))) ?R" if "module_becomes fuel G H cl c flags (which, preload) []"
    by (rule fin [OF _ that]) (auto intro: hoare_return simp: adds_def)
  have one: "hoare (\<lambda>_. True) (do { r \<leftarrow> append_preload_internal G H c args which None e preload flags; State_Monad.return (Some r) }) (?Q ?one)" for e
    by (rule hoare_adds [OF append_preload_internal_adds [OF canon]]) simp
  have each: "hoare (\<lambda>_. True) (append_preload_per_architecture fuel G H cl c args which preload flags) (?Q ?each)"
    unfolding append_preload_per_architecture_def
    by (rule append_architectures_adds [OF canon]) (auto simp: preload_architectures_def PV_N_SUPPORTED_ARCHITECTURES_def split: if_splits)
  show ?thesis
  proof (cases "str_contains preload ''gtk3-nocsd'' \<or> wc_remove_game_overlay c \<and> g_str_has_suffix preload ''/gameoverlayrenderer.so''")
    case True
    then have "pv_wrap_append_preload fuel G H cl c args which preload flags = State_Monad.return (Some (c, args))"
      by (auto simp: pv_wrap_append_preload_def)
    moreover have "module_becomes fuel G H cl c flags (which, preload) []" using True by (auto simp: becomes)
    ultimately show ?thesis using none by simp
  next
    case removed: False
    show ?thesis
    proof (cases kind)
      case SRT_LOADABLE_KIND_ERROR
      then have "preload = []" using k by (auto simp: srt_loadable_classify_def split: if_splits)
      moreover have "pv_wrap_append_preload fuel G H cl c args which preload flags = State_Monad.return (Some (c, args))"
        using removed SRT_LOADABLE_KIND_ERROR k by (auto simp: pv_wrap_append_preload_def)
      moreover have "module_becomes fuel G H cl c flags (which, preload) []" using \<open>preload = []\<close> by (auto simp: becomes)
      ultimately show ?thesis using none by simp
    next
      case SRT_LOADABLE_KIND_BASENAME
      then have "preload \<noteq> []" "CHR ''/'' \<notin> set preload" using k by (auto simp: srt_loadable_classify_def split: if_splits)
      then have "module_becomes fuel G H cl c flags (which, preload) ms \<longleftrightarrow>
          (\<exists>has. runtime_says fuel G H c flags preload has \<and> ms = (if has then ?one else ?each))" for ms
        using removed by (auto simp: becomes)
      moreover have "pv_wrap_append_preload fuel G H cl c args which preload flags =
          append_preload_basename fuel G H cl c args which preload flags"
        using removed SRT_LOADABLE_KIND_BASENAME k by (auto simp: pv_wrap_append_preload_def)
      moreover have "hoare (\<lambda>_. True) (append_preload_basename fuel G H cl c args which preload flags)
          (\<lambda>r _. \<forall>r'. r = Some r' \<longrightarrow> (\<exists>ms. (\<exists>has. runtime_says fuel G H c flags preload has \<and> ms = (if has then ?one else ?each)) \<and> adds c args ms r'))"
        by (rule hoare_weaken [OF append_preload_basename_adds [OF canon]]) blast+
      ultimately show ?thesis by simp
    next
      case SRT_LOADABLE_KIND_PATH
      note path = k [unfolded SRT_LOADABLE_KIND_PATH]
      have p: "preload \<noteq> []" "CHR ''/'' \<in> set preload" using path by (auto simp: srt_loadable_classify_def split: if_splits)
      let ?expected = "if SRT_LOADABLE_FLAGS_ORIGIN \<in> lf \<or> SRT_LOADABLE_FLAGS_UNKNOWN_TOKENS \<in> lf then ?one
           else if SRT_LOADABLE_FLAGS_ABI_DEPENDENT \<in> lf then ?each else ?one"
      have e: "module_becomes fuel G H cl c flags (which, preload) ?expected"
        using removed p classified_path [OF path] by (cases "token_names preload") (auto simp: becomes)
      have concrete: "hoare (\<lambda>_. True) (do { e \<leftarrow> export_path_for_preload fuel G (kern H) c preload;
            (case e of None \<Rightarrow> State_Monad.return None
             | Some export_path \<Rightarrow> do { r \<leftarrow> append_preload_internal G H c args which None export_path preload flags; State_Monad.return (Some r) }) })
          (?Q ?one)"
        by (rule hoare_bind [OF hoare_any], rule hoare_option, rule hoare_return, simp, rule hoare_pre [OF one], simp)
      have "pv_wrap_append_preload fuel G H cl c args which preload flags =
          (if SRT_LOADABLE_FLAGS_ORIGIN \<in> lf \<or> SRT_LOADABLE_FLAGS_UNKNOWN_TOKENS \<in> lf then do {
              r \<leftarrow> append_preload_unsupported_token G H c args which preload flags; State_Monad.return (Some r) }
           else if SRT_LOADABLE_FLAGS_ABI_DEPENDENT \<in> lf then append_preload_per_architecture fuel G H cl c args which preload flags
           else do { e \<leftarrow> export_path_for_preload fuel G (kern H) c preload;
            (case e of None \<Rightarrow> State_Monad.return None
             | Some export_path \<Rightarrow> do { r \<leftarrow> append_preload_internal G H c args which None export_path preload flags; State_Monad.return (Some r) }) })"
        using removed path by (auto simp: pv_wrap_append_preload_def)
      also have "hoare (\<lambda>_. True) \<dots> (?Q ?expected)"
        unfolding append_preload_unsupported_token_def using one each concrete by simp
      finally show ?thesis by (rule fin) (rule e)
    qed
  qed
qed

text \<open>All modules of a command line.\<close>

lemma append_preloads_adds:
  assumes canon: "canonicalizer (g_file_path G)"
  shows "hoare (\<lambda>_. True) (append_preloads fuel G H cl c args flags mods)
    (\<lambda>r _. \<forall>r'. r = Some r' \<longrightarrow> (\<exists>mss. list_all2 (module_becomes fuel G H cl c flags) mods mss \<and> adds c args (concat mss) r'))"
proof (induction mods arbitrary: c args)
  case Nil
  show ?case by (auto intro: hoare_return simp: adds_def)
next
  case (Cons m mods)
  obtain which preload where m: "m = (which, preload)" by (cases m)
  show ?case
    unfolding m append_preloads.simps
  proof (rule hoare_bind [OF pv_wrap_append_preload_adds [OF canon]], rule hoare_option, rule hoare_return, simp, rule hoare_prod)
    fix r and p :: "wrap_context \<times> string list" and c' args'
    assume r: "r = Some p" "p = (c', args')"
    let ?Q = "\<lambda>r _. \<forall>r'. r = Some r' \<longrightarrow> (\<exists>mss. list_all2 (module_becomes fuel G H cl c flags) ((which, preload) # mods) mss
        \<and> adds c args (concat mss) r')"
    show "hoare (\<lambda>_. \<forall>r'. r = Some r' \<longrightarrow> (\<exists>ms. module_becomes fuel G H cl c flags (which, preload) ms \<and> adds c args ms r'))
        (append_preloads fuel G H cl c' args' flags mods) ?Q"
    proof (cases "\<exists>ms. module_becomes fuel G H cl c flags (which, preload) ms \<and> adds c args ms p")
      case True
      then obtain ms where b: "module_becomes fuel G H cl c flags (which, preload) ms"
        and grow: "context_grows c c'" and a: "args' = args @ map cli_arg ms"
        using r by (auto simp: adds_def)
      show ?thesis
      proof (rule hoare_weaken [OF Cons.IH], simp, intro allI impI)
        fix q s r'
        assume "\<forall>r'. q = Some r' \<longrightarrow> (\<exists>mss. list_all2 (module_becomes fuel G H cl c' flags) mods mss \<and> adds c' args' (concat mss) r')" "q = Some r'"
        then obtain mss where mss: "list_all2 (module_becomes fuel G H cl c flags) mods mss" "adds c' args' (concat mss) r'"
          unfolding context_grows_same(4) [OF grow, of fuel G H cl] by blast
        have "adds c args (concat (ms # mss)) r'"
          using mss(2) context_grows_trans [OF grow] by (auto simp: adds_def a)
        then show "\<exists>mss. list_all2 (module_becomes fuel G H cl c flags) ((which, preload) # mods) mss \<and> adds c args (concat mss) r'"
          using mss(1) b by (intro exI [of _ "ms # mss"]) simp
      qed
    qed (use r in \<open>auto simp: hoare_false\<close>)
  qed
qed

text \<open>How an argument is recognised as an option with a value.\<close>

definition adverb_arg :: "string \<Rightarrow> (preload_variable_index \<times> string) option" where
  "adverb_arg arg =
     (if g_str_has_prefix arg ''--ld-audit='' then Some (PV_PRELOAD_VARIABLE_INDEX_LD_AUDIT, drop 11 arg)
      else if g_str_has_prefix arg ''--ld-preload='' then Some (PV_PRELOAD_VARIABLE_INDEX_LD_PRELOAD, drop 13 arg) else None)"

lemma adverb_arg_cli [simp]: "adverb_arg (cli_arg m) = Some (pm_index m, cli_value m)"
  by (cases "pm_index m") (simp_all add: adverb_arg_def cli_arg_def g_str_has_prefix_def)

lemma becomes_cli: "module_becomes fuel G H cl c flags wp ms \<Longrightarrow> m \<in> set ms \<Longrightarrow> cli_module m"
proof -
  have one: "cli_module (wrapped_module G c flags which None preload)" for which preload by (simp add: cli_module_def wrapped_module_def)
  have each: "cli_module m" if "m \<in> set (split_modules G cl c flags which preload (preload_architectures flags))" for m which preload
    using that by (auto simp: split_modules_def cli_module_def wrapped_module_def preload_architectures_def
        PV_N_SUPPORTED_ARCHITECTURES_def split: option.splits if_splits)
  show "module_becomes fuel G H cl c flags wp ms \<Longrightarrow> m \<in> set ms \<Longrightarrow> cli_module m"
    using each by (cases wp) (auto simp: module_becomes_def Let_def preload_architectures_eq [symmetric] one split: if_splits)
qed

lemma all_become_cli:
  assumes "list_all2 (module_becomes fuel G H cl c flags) mods mss" "m \<in> set (concat mss)"
  shows "cli_module m"
proof -
  obtain ms where "ms \<in> set mss" "m \<in> set ms" using assms(2) by auto
  then show ?thesis using assms(1) becomes_cli by (metis in_set_conv_nth list_all2_conv_all_nth)
qed

lemma adverb_options_all:
  assumes "\<forall>m \<in> set ms. cli_module m \<and> CHR '':'' \<notin> set (the (pm_name m))"
  shows "adverb_options (map (\<lambda>m. (pm_index m, cli_value m)) ms) None = (Inr (), case ms of [] \<Rightarrow> None | m # ms \<Rightarrow> Some (m # ms))"
  using adverb_options_modules [OF assms, of None] by (simp split: list.split)


definition demo_context :: wrap_context where
  "demo_context = \<lparr> wc_exports = Some flatpak_exports_new, wc_runtime = None,
     wc_current_root = \<lparr> sr_path = ''/'', sr_fd = 3, sr_mode = MODE_DIRECT \<rparr>, wc_current_home_fd = - 1,
     wc_original_environ = [], wc_remove_game_overlay = False, wc_paths_not_exported = [] \<rparr>"

definition demo_check_library :: "nat \<Rightarrow> string \<Rightarrow> string option" where
  "demo_check_library abi preload = Some (if abi = 0 then ''/opt/x64/a.so'' else ''/opt/x86/a.so'')"

definition demo_preloads :: "(preload_variable_index \<times> string) list" where
  "demo_preloads = wrap_opt_ld_something PV_PRELOAD_VARIABLE_INDEX_LD_PRELOAD ''/opt/${LIB}/a.so libgtk3-nocsd.so.0'' True []"


end
