(* ===== verification/WrapSetup.thy ===== *)
theory WrapSetup imports WrapPreload PvBwrap begin

text \<open>
  The rest of \<open>pressure-vessel/wrap-setup.c\<close> that decides what the container sees of the host: paths from
  environment variables and temporary directories, icons, the directories of the root, and the host's
  operating system; with \<open>pv_wrap_context_export_if_allowed\<close> (\<open>wrap-context.c\<close>) and
  \<open>pv_export_symlink_targets\<close> (\<open>exports.c\<close>). \<^const>\<open>None\<close> again means that symbolic links ran out of fuel.
\<close>

section \<open>Exporting what is allowed\<close>

definition is_os_path :: "string \<Rightarrow> bool" where
  "is_os_path path = list_ex (\<lambda>os. srt_get_path_after path os \<noteq> None) [''/etc'', ''/run'', ''/var'', ''/usr'']"

text \<open>The message is a warning (\<^const>\<open>True\<close>) the first time that a path is not exported.\<close>

definition export_not_allowed :: "wrap_context \<Rightarrow> string \<Rightarrow> bool \<Rightarrow> bool \<times> wrap_context" where
  "export_not_allowed context path os_quiet =
     (if os_quiet \<and> is_os_path path then (False, context)
      else if path \<in> set (wc_paths_not_exported context) then (False, context)
      else (True, context\<lparr> wc_paths_not_exported := path # wc_paths_not_exported context \<rparr>))"

definition overlaps_reserved :: "string \<Rightarrow> bool" where
  "overlaps_reserved path =
     list_ex (\<lambda>r. srt_get_path_after path r \<noteq> None \<or> srt_get_path_after r path \<noteq> None) pv_get_reserved_paths"

definition pv_wrap_context_export_if_allowed :: "glib \<Rightarrow> 'w host \<Rightarrow> wrap_context \<Rightarrow> int \<Rightarrow> string \<Rightarrow> string \<Rightarrow> bool \<Rightarrow>
    ('w, bool \<times> wrap_context) state" where
  "pv_wrap_context_export_if_allowed G H context export_mode path host_path os_quiet =
     (case wc_exports context of
        None \<Rightarrow> State_Monad.return (False, context)
      | Some ex \<Rightarrow>
          if \<not> (export_mode > FLATPAK_FILESYSTEM_MODE_NONE \<and> export_mode \<le> FLATPAK_FILESYSTEM_MODE_LAST
                \<and> g_path_is_absolute path \<and> g_path_is_absolute host_path)
          then State_Monad.return (False, context)
          else if overlaps_reserved path then State_Monad.return (False, snd (export_not_allowed context path os_quiet))
          else do {
            ex' \<leftarrow> pv_exports_expose_or_log G H ex export_mode path;
            State_Monad.return (True, context\<lparr> wc_exports := Some ex' \<rparr>) })"

section \<open>Paths in environment variables\<close>

datatype env_mount_flag = ENV_MOUNT_FLAGS_COLON_DELIMITED | ENV_MOUNT_FLAGS_DEPRECATED
  | ENV_MOUNT_FLAGS_READ_ONLY | ENV_MOUNT_FLAGS_IF_HOME_SHARED

datatype home_mode = PV_HOME_MODE_TRANSIENT | PV_HOME_MODE_PRIVATE | PV_HOME_MODE_SHARED

text \<open>No entry of the table has a \<open>PvWrapExportFlags\<close>.\<close>

definition known_required_env :: "(string \<times> env_mount_flag set) list" where
  "known_required_env =
    [(''PRESSURE_VESSEL_FILESYSTEMS_RO'', {ENV_MOUNT_FLAGS_READ_ONLY, ENV_MOUNT_FLAGS_COLON_DELIMITED}),
     (''PRESSURE_VESSEL_FILESYSTEMS_RW'', {ENV_MOUNT_FLAGS_COLON_DELIMITED}),
     (''PROTON_LOG_DIR'', {}),
     (''STEAM_COMPAT_APP_LIBRARY_PATH'', {ENV_MOUNT_FLAGS_DEPRECATED}),
     (''STEAM_COMPAT_APP_LIBRARY_PATHS'', {ENV_MOUNT_FLAGS_COLON_DELIMITED, ENV_MOUNT_FLAGS_DEPRECATED}),
     (''STEAM_COMPAT_CLIENT_INSTALL_PATH'', {}),
     (''STEAM_COMPAT_DATA_PATH'', {}),
     (''STEAM_COMPAT_INSTALL_PATH'', {}),
     (''STEAM_COMPAT_LIBRARY_PATHS'', {ENV_MOUNT_FLAGS_COLON_DELIMITED}),
     (''STEAM_COMPAT_MOUNT_PATHS'', {ENV_MOUNT_FLAGS_COLON_DELIMITED, ENV_MOUNT_FLAGS_DEPRECATED}),
     (''STEAM_COMPAT_MOUNTS'', {ENV_MOUNT_FLAGS_COLON_DELIMITED}),
     (''STEAM_COMPAT_SHADER_PATH'', {}),
     (''STEAM_COMPAT_TOOL_PATH'', {ENV_MOUNT_FLAGS_DEPRECATED}),
     (''STEAM_COMPAT_TOOL_PATHS'', {ENV_MOUNT_FLAGS_COLON_DELIMITED}),
     (''STEAM_EXTRA_COMPAT_TOOLS_PATHS'', {ENV_MOUNT_FLAGS_COLON_DELIMITED}),
     (''STEAM_RUNTIME_SCOUT'', {}),
     (''XDG_CACHE_HOME'', {ENV_MOUNT_FLAGS_IF_HOME_SHARED}),
     (''XDG_CONFIG_HOME'', {ENV_MOUNT_FLAGS_IF_HOME_SHARED}),
     (''XDG_DATA_HOME'', {ENV_MOUNT_FLAGS_IF_HOME_SHARED}),
     (''XDG_STATE_HOME'', {ENV_MOUNT_FLAGS_IF_HOME_SHARED})]"

text \<open>One value: whether it exists, and what it becomes. \<open>g_canonicalize_filename\<close> makes a relative path absolute with
  the working directory, which is part of the parameter.\<close>

definition bind_value :: "nat \<Rightarrow> glib \<Rightarrow> 'w host \<Rightarrow> int \<Rightarrow> wrap_context \<Rightarrow> string \<Rightarrow> ('w, (string \<times> wrap_context) option) state" where
  "bind_value fuel G H mode context v =
     (if v = [] then State_Monad.return (Some (v, context))
      else do {
        t \<leftarrow> srt_sysroot_test fuel G (kern H) (wc_current_root context) v {};
        (case t of
           None \<Rightarrow> State_Monad.return None
         | Some (Inl _) \<Rightarrow> State_Monad.return (Some (v, context))
         | Some (Inr _) \<Rightarrow> do {
             value_host \<leftarrow> pv_current_namespace_path_to_host_path G H (g_canonicalize_filename G v None);
             (allowed, context') \<leftarrow> pv_wrap_context_export_if_allowed G H context mode (g_canonicalize_filename G v None) value_host False;
             State_Monad.return (Some (if allowed then value_host else v, context')) }) })"

fun bind_values :: "nat \<Rightarrow> glib \<Rightarrow> 'w host \<Rightarrow> int \<Rightarrow> wrap_context \<Rightarrow> string list \<Rightarrow> ('w, (string list \<times> wrap_context) option) state" where
  "bind_values fuel G H mode context [] = State_Monad.return (Some ([], context))"
| "bind_values fuel G H mode context (v # vs) = do {
     r \<leftarrow> bind_value fuel G H mode context v;
     (case r of
        None \<Rightarrow> State_Monad.return None
      | Some (v', context') \<Rightarrow> do {
          rs \<leftarrow> bind_values fuel G H mode context' vs;
          State_Monad.return (map_option (\<lambda>(vs', c). (v' # vs', c)) rs) }) }"

definition values_of :: "env_mount_flag set \<Rightarrow> string \<Rightarrow> string list" where
  "values_of flags v = (if ENV_MOUNT_FLAGS_COLON_DELIMITED \<in> flags then g_strsplit v CHR '':'' else [v])"

text \<open>The value is only set if it has changed, or in a Flatpak sandbox.\<close>

definition bind_variable :: "nat \<Rightarrow> glib \<Rightarrow> 'w host \<Rightarrow> wrap_context \<Rightarrow> env_overlay \<Rightarrow> string \<Rightarrow> env_mount_flag set \<Rightarrow> string \<Rightarrow>
    ('w, (wrap_context \<times> env_overlay) option) state" where
  "bind_variable fuel G H context container_env variable flags v =
     (let mode = (if ENV_MOUNT_FLAGS_READ_ONLY \<in> flags then FLATPAK_FILESYSTEM_MODE_READ_ONLY else FLATPAK_FILESYSTEM_MODE_READ_WRITE);
          old = values_of flags v
      in do {
        r \<leftarrow> bind_values fuel G H mode context old;
        (case r of
           None \<Rightarrow> State_Monad.return None
         | Some (new, context') \<Rightarrow> do {
             in_flatpak \<leftarrow> (if new \<noteq> old then State_Monad.return (Some (Inr ()))
               else srt_sysroot_test fuel G (kern H) (wc_current_root context) ''/.flatpak-info'' {});
             State_Monad.return (map_option (\<lambda>f. (context',
               case f of Inr _ \<Rightarrow> srt_env_overlay_set container_env variable (Some (g_strjoinv '':'' new))
                       | Inl _ \<Rightarrow> container_env)) in_flatpak) }) })"

definition bind_and_propagate_from_environ :: "nat \<Rightarrow> glib \<Rightarrow> 'w host \<Rightarrow> wrap_context \<Rightarrow> home_mode \<Rightarrow> env_overlay \<Rightarrow> string \<Rightarrow>
    env_mount_flag set \<Rightarrow> ('w, (wrap_context \<times> env_overlay) option) state" where
  "bind_and_propagate_from_environ fuel G H context home_mode container_env variable flags =
     (if wc_exports context = None then State_Monad.return (Some (context, container_env))
      else if home_mode \<noteq> PV_HOME_MODE_SHARED \<and> ENV_MOUNT_FLAGS_IF_HOME_SHARED \<in> flags
      then State_Monad.return (Some (context, container_env))
      else (case (if srt_env_overlay_contains container_env variable then srt_env_overlay_get container_env variable
                  else g_environ_getenv G (wc_original_environ context) variable) of
          None \<Rightarrow> State_Monad.return (Some (context, container_env))
        | Some v \<Rightarrow> bind_variable fuel G H context container_env variable flags v))"

definition propagate_in_subsandbox :: "glib \<Rightarrow> wrap_context \<Rightarrow> string \<Rightarrow> env_overlay \<Rightarrow> env_overlay" where
  "propagate_in_subsandbox G context name container_env =
     (if \<not> srt_env_overlay_contains container_env name
      then srt_env_overlay_set container_env name (g_environ_getenv G (wc_original_environ context) name) else container_env)"

text \<open>Without exports the home directory must be shared, or the function returns at once.\<close>

fun bind_all :: "nat \<Rightarrow> glib \<Rightarrow> 'w host \<Rightarrow> wrap_context \<Rightarrow> home_mode \<Rightarrow> env_overlay \<Rightarrow> (string \<times> env_mount_flag set) list \<Rightarrow>
    ('w, (wrap_context \<times> env_overlay) option) state" where
  "bind_all fuel G H context home_mode container_env [] = State_Monad.return (Some (context, container_env))"
| "bind_all fuel G H context home_mode container_env ((name, flags) # rest) =
     (if wc_exports context \<noteq> None then do {
        r \<leftarrow> bind_and_propagate_from_environ fuel G H context home_mode container_env name flags;
        (case r of
           None \<Rightarrow> State_Monad.return None
         | Some (context', container_env') \<Rightarrow> bind_all fuel G H context' home_mode container_env' rest) }
      else if home_mode \<noteq> PV_HOME_MODE_SHARED then State_Monad.return (Some (context, container_env))
      else bind_all fuel G H context home_mode (propagate_in_subsandbox G context name container_env) rest)"

definition pv_bind_and_propagate_from_environ :: "nat \<Rightarrow> glib \<Rightarrow> 'w host \<Rightarrow> wrap_context \<Rightarrow> home_mode \<Rightarrow> env_overlay \<Rightarrow>
    ('w, (wrap_context \<times> env_overlay) option) state" where
  "pv_bind_and_propagate_from_environ fuel G H context home_mode container_env =
     bind_all fuel G H context home_mode container_env known_required_env"

section \<open>Temporary directories and icons\<close>

fun share_temp_vars :: "glib \<Rightarrow> 'w host \<Rightarrow> string list \<Rightarrow> exports \<Rightarrow> env_overlay \<Rightarrow> ('w, exports \<times> env_overlay) state" where
  "share_temp_vars G H [] ex container_env = State_Monad.return (ex, container_env)"
| "share_temp_vars G H (var # vars) ex container_env =
     (case g_environ_getenv G (h_environ H) var of
        None \<Rightarrow> share_temp_vars G H vars ex container_env
      | Some v \<Rightarrow>
          if v = [] \<or> hd v \<noteq> CHR ''/'' then share_temp_vars G H vars ex container_env
          else if srt_get_path_after v ''run/user'' \<noteq> None
          then share_temp_vars G H vars ex (srt_env_overlay_set container_env var None)
          else do {
            ex' \<leftarrow> pv_exports_expose_or_log G H ex FLATPAK_FILESYSTEM_MODE_READ_WRITE v;
            share_temp_vars G H vars ex' container_env })"

definition pv_share_temp_dir :: "glib \<Rightarrow> 'w host \<Rightarrow> exports \<Rightarrow> env_overlay \<Rightarrow> ('w, exports \<times> env_overlay) state" where
  "pv_share_temp_dir G H ex container_env = do {
     ex' \<leftarrow> pv_exports_expose_or_warn G H ex FLATPAK_FILESYSTEM_MODE_READ_WRITE ''/tmp'';
     share_temp_vars G H [''TEMP'', ''TEMPDIR'', ''TMP'', ''TMPDIR''] ex' container_env }"

definition append_all :: "string list \<Rightarrow> string" where
  "append_all items = foldl (\<lambda>s i. pv_search_path_append s (Some i)) [] items"

definition pv_wrap_set_icons_env_vars :: "glib \<Rightarrow> env_overlay \<Rightarrow> string list \<Rightarrow> env_overlay" where
  "pv_wrap_set_icons_env_vars G container_env original_environ =
     (let xcursor = (case g_environ_getenv G original_environ ''XCURSOR_PATH'' of
            None \<Rightarrow>
              (let data_home = (case srt_env_overlay_get container_env ''XDG_DATA_HOME'' of None \<Rightarrow> ''~/.local/share'' | Some d \<Rightarrow> d)
               in [g_build_filename G [data_home, ''icons''], ''~/.icons'', ''/usr/share/icons'', ''/usr/share/pixmaps'',
                   ''/usr/X11R6/lib/X11/icons''])
          | Some p \<Rightarrow> [p]);
          env1 = srt_env_overlay_set container_env ''XCURSOR_PATH''
            (Some (append_all (xcursor @ [''/run/host/user-share/icons'', ''/run/host/share/icons''])));
          data_dirs = (case srt_env_overlay_get env1 ''XDG_DATA_DIRS'' of
              Some d \<Rightarrow> d
            | None \<Rightarrow> (case g_environ_getenv G original_environ ''XDG_DATA_DIRS'' of
                  Some d \<Rightarrow> d | None \<Rightarrow> ''/usr/local/share:/usr/share''))
      in srt_env_overlay_set env1 ''XDG_DATA_DIRS''
           (Some (append_all [data_dirs, ''/run/host/user-share'', ''/run/host/share''])))"

section \<open>The directories of the host\<close>

definition dont_mount_in_root :: "string list" where
  "dont_mount_in_root = [''.'', ''..'', ''app'', ''bin'', ''boot'', ''dev'', ''efi'', ''etc'', ''lib'', ''lib32'', ''lib64'',
     ''overrides'', ''proc'', ''root'', ''run'', ''sbin'', ''sys'', ''tmp'', ''usr'', ''var'']"

text \<open>All entries of a directory, in the arbitrary order of the caller. (The code reads them one by one if there is no
  order; then an error is only noticed after the entries before it.)\<close>

definition dir_members :: "'w host \<Rightarrow> fd \<Rightarrow> string \<Rightarrow> (string \<Rightarrow> string \<Rightarrow> int) option \<Rightarrow> ('w, string list) io" where
  "dir_members H root_fd path arbitrary_order = do {
     d \<leftarrow> glnx_opendirat (kern H) root_fd path True;
     (case d of
        Inl e \<Rightarrow> State_Monad.return (Inl e)
      | Inr dfd \<Rightarrow> do {
          r \<leftarrow> h_readdir H dfd;
          glnx_close_fd (kern H) dfd;
          State_Monad.return (map_sum id (\<lambda>ms. case arbitrary_order of Some cmp \<Rightarrow> qsort_by cmp ms | None \<Rightarrow> ms) r) }) }"

fun expose_root_members :: "glib \<Rightarrow> 'w host \<Rightarrow> int \<Rightarrow> string list \<Rightarrow> exports \<Rightarrow> ('w, exports) state" where
  "expose_root_members G H mode [] ex = State_Monad.return ex"
| "expose_root_members G H mode (m # ms) ex =
     (if m \<in> set dont_mount_in_root then expose_root_members G H mode ms ex
      else do {
        ex' \<leftarrow> pv_exports_expose_quietly G H ex mode (g_build_filename G [''/'', m]);
        expose_root_members G H mode ms ex' })"

definition pv_export_root_dirs_like_filesystem_host :: "glib \<Rightarrow> 'w host \<Rightarrow> fd \<Rightarrow> exports \<Rightarrow> int \<Rightarrow>
    (string \<Rightarrow> string \<Rightarrow> int) option \<Rightarrow> ('w, (gerror + unit) \<times> exports) state" where
  "pv_export_root_dirs_like_filesystem_host G H root_fd ex mode arbitrary_order =
     (if \<not> (root_fd \<ge> 0 \<and> mode \<ge> 0 \<and> mode \<le> FLATPAK_FILESYSTEM_MODE_LAST) then State_Monad.return (Inl PRECONDITION_FAILED, ex)
      else do {
        d \<leftarrow> dir_members H root_fd ''.'' arbitrary_order;
        (case d of
           Inl e \<Rightarrow> State_Monad.return (Inl e, ex)
         | Inr members \<Rightarrow> do {
             ex' \<leftarrow> expose_root_members G H mode members ex;
             ex'' \<leftarrow> pv_exports_expose_or_log G H ex' mode ''/run/media'';
             State_Monad.return (Inr (), ex'') }) })"

definition bind_run_members :: "glib \<Rightarrow> string list \<Rightarrow> bwrap \<Rightarrow> bwrap" where
  "bind_run_members G members b =
     foldl (\<lambda>b m. if m \<in> set [''gfx'', ''host'', ''media'', ''pressure-vessel''] then b
                  else (let path = g_build_filename G [''/run'', m] in flatpak_bwrap_add_args b [''--bind'', path, path]))
       b members"

definition export_contents_of_run :: "glib \<Rightarrow> 'w host \<Rightarrow> fd \<Rightarrow> bwrap \<Rightarrow> (string \<Rightarrow> string \<Rightarrow> int) option \<Rightarrow>
    ('w, (gerror + unit) \<times> bwrap) state" where
  "export_contents_of_run G H root_fd b arbitrary_order = do {
     flatpak \<leftarrow> g_file_test_is_regular (kern H) ''/.flatpak-info'';
     (if root_fd < 0 \<or> flatpak then State_Monad.return (Inl PRECONDITION_FAILED, b)
      else do {
        d \<leftarrow> dir_members H root_fd ''run'' arbitrary_order;
        State_Monad.return (case d of
            Inl e \<Rightarrow> (Inl e, b)
          | Inr members \<Rightarrow> (Inr (), bind_run_members G members b)) }) }"

fun bind_mutable :: "'w kernel \<Rightarrow> fd \<Rightarrow> string list \<Rightarrow> bwrap \<Rightarrow> ('w, bwrap) state" where
  "bind_mutable K root_fd [] b = State_Monad.return b"
| "bind_mutable K root_fd (dir # dirs) b = do {
     s \<leftarrow> sys_fstatat K root_fd (tl dir) {};
     bind_mutable K root_fd dirs (case s of Inr _ \<Rightarrow> flatpak_bwrap_add_args b [''--bind'', dir, dir] | Inl _ \<Rightarrow> b) }"

definition use_host_dirs :: "glib \<Rightarrow> 'w host \<Rightarrow> fd \<Rightarrow> exports \<Rightarrow> bwrap \<Rightarrow> (string \<Rightarrow> string \<Rightarrow> int) option \<Rightarrow>
    ('w, (gerror + unit) \<times> exports \<times> bwrap) state" where
  "use_host_dirs G H root_fd ex b arbitrary_order = do {
     b' \<leftarrow> bind_mutable (kern H) root_fd [''/etc'', ''/tmp'', ''/var''] b;
     (r, b'') \<leftarrow> export_contents_of_run G H root_fd b' arbitrary_order;
     (case r of
        Inl e \<Rightarrow> State_Monad.return (Inl e, ex, b'')
      | Inr _ \<Rightarrow> do {
          (r', ex') \<leftarrow> pv_export_root_dirs_like_filesystem_host G H root_fd ex FLATPAK_FILESYSTEM_MODE_READ_WRITE arbitrary_order;
          State_Monad.return (r', ex', b'') }) }"

definition pv_wrap_use_host_os :: "nat \<Rightarrow> glib \<Rightarrow> 'w host \<Rightarrow> fd \<Rightarrow> exports \<Rightarrow> bwrap \<Rightarrow> (string \<Rightarrow> string \<Rightarrow> int) option \<Rightarrow>
    ('w, (gerror + unit) option \<times> exports \<times> bwrap) state" where
  "pv_wrap_use_host_os fuel G H root_fd ex b arbitrary_order =
     (if root_fd < 0 then State_Monad.return (Some (Inl PRECONDITION_FAILED), ex, b)
      else do {
        (u, b') \<leftarrow> pv_bwrap_bind_usr fuel G H ''/'' root_fd ''/'' b;
        (case u of
           None \<Rightarrow> State_Monad.return (None, ex, b')
         | Some (Inl e) \<Rightarrow> State_Monad.return (Some (Inl e), ex, b')
         | Some (Inr _) \<Rightarrow> do {
             (r, ex', b'') \<leftarrow> use_host_dirs G H root_fd ex b' arbitrary_order;
             State_Monad.return (Some r, ex', b'') }) })"

section \<open>Targets of symbolic links\<close>

definition exclude_prefixes :: "string list" where
  "exclude_prefixes = [''/app/'', ''/bin/'', ''/dev/'', ''/etc/'', ''/lib'', ''/overrides/'', ''/proc/'', ''/run/gfx/'',
     ''/run/host/'', ''/run/interpreter-host/'', ''/run/pressure-vessel/'', ''/sbin/'', ''/usr/'', ''/var/pressure-vessel/'']"

text \<open>A link that cannot be read is a null pointer, which is dereferenced: \<^const>\<open>None\<close>.\<close>

definition export_targets_helper :: "glib \<Rightarrow> 'w host \<Rightarrow> string \<Rightarrow> ftw_type \<Rightarrow> exports \<Rightarrow> ('w, exports option) state" where
  "export_targets_helper G H fpath typeflag ex =
     (if typeflag \<noteq> FTW_SL then State_Monad.return (Some ex)
      else do {
        t \<leftarrow> glnx_readlinkat_malloc (kern H) (- 1) fpath;
        (case t of
           Inl _ \<Rightarrow> State_Monad.return None
         | Inr target \<Rightarrow>
             if target = [] \<or> hd target \<noteq> CHR ''/'' then State_Monad.return (Some ex)
             else if list_ex (g_str_has_prefix target) exclude_prefixes then State_Monad.return (Some ex)
             else do {
               ex' \<leftarrow> pv_exports_expose_or_warn G H ex FLATPAK_FILESYSTEM_MODE_READ_ONLY target;
               State_Monad.return (Some ex') }) })"

fun export_target_list :: "glib \<Rightarrow> 'w host \<Rightarrow> (string \<times> ftw_type) list \<Rightarrow> exports \<Rightarrow> ('w, exports option) state" where
  "export_target_list G H [] ex = State_Monad.return (Some ex)"
| "export_target_list G H ((fpath, typeflag) # rest) ex = do {
     r \<leftarrow> export_targets_helper G H fpath typeflag ex;
     (case r of None \<Rightarrow> State_Monad.return None | Some ex' \<Rightarrow> export_target_list G H rest ex') }"

text \<open>The order in which \<open>nftw\<close> visits a tree.\<close>

fun ftw_list :: "ftw_tree \<Rightarrow> (string \<times> ftw_type) list" where
  "ftw_list (FTW fpath typeflag children) = (fpath, typeflag) # concat (map ftw_list children)"

definition pv_export_symlink_targets :: "glib \<Rightarrow> 'w host \<Rightarrow> exports \<Rightarrow> string \<Rightarrow> ('w, exports option) state" where
  "pv_export_symlink_targets G H ex source = do {
     t \<leftarrow> sys_ftw (kern H) source;
     (case t of
        Inl _ \<Rightarrow> State_Monad.return (Some ex)
      | Inr ftw \<Rightarrow> export_target_list G H (ftw_list ftw) ex) }"

section \<open>What is exported\<close>

text \<open>The two checks for reserved paths agree, so the second one cannot fail for the path itself.\<close>

lemma overlaps_reserved_iff: "overlaps_reserved p = is_reserved p"
proof -
  have "set flatpak_abs_usrmerged_dirs \<subseteq> set pv_get_reserved_paths"
    by (simp add: flatpak_abs_usrmerged_dirs_def pv_get_reserved_paths_def)
  then show ?thesis
    unfolding overlaps_reserved_def is_reserved_def has_path_prefix_get_path_after list_ex_iff by blast
qed

definition context_extends :: "wrap_context \<Rightarrow> wrap_context \<Rightarrow> bool" where
  "context_extends c c' = (c' = c\<lparr> wc_exports := wc_exports c', wc_paths_not_exported := wc_paths_not_exported c' \<rparr>
     \<and> set (wc_paths_not_exported c) \<subseteq> set (wc_paths_not_exported c')
     \<and> (case (wc_exports c, wc_exports c') of
          (None, None) \<Rightarrow> True
        | (Some ex, Some ex') \<Rightarrow> (exports_ok ex \<longrightarrow> exports_ok ex') \<and> exports_grow ex ex'
        | _ \<Rightarrow> False))"

lemma context_extends_refl [simp]: "context_extends c c"
  by (simp add: context_extends_def split: option.split)

lemma context_extends_trans: "context_extends a b \<Longrightarrow> context_extends b c \<Longrightarrow> context_extends a c"
  unfolding context_extends_def
  by (cases "wc_exports a"; cases "wc_exports b"; cases "wc_exports c"; cases a; cases b; cases c)
    (auto intro: exports_grow_trans)

lemma context_extends_same:
  assumes "context_extends c c'"
  shows "wc_original_environ c' = wc_original_environ c" "wc_current_root c' = wc_current_root c" "wc_exports c' = None \<longleftrightarrow> wc_exports c = None"
proof -
  have c: "c' = c\<lparr> wc_exports := wc_exports c', wc_paths_not_exported := wc_paths_not_exported c' \<rparr>"
    using assms by (simp add: context_extends_def)
  show "wc_original_environ c' = wc_original_environ c" "wc_current_root c' = wc_current_root c" by (subst c, simp)+
  show "wc_exports c' = None \<longleftrightarrow> wc_exports c = None" using assms by (auto simp: context_extends_def split: option.splits)
qed

text \<open>The modes of what is exported in addition.\<close>

definition context_adds :: "int set \<Rightarrow> wrap_context \<Rightarrow> wrap_context \<Rightarrow> bool" where
  "context_adds S c c' = (context_extends c c' \<and>
     (\<forall>ex ex'. wc_exports c = Some ex \<longrightarrow> wc_exports c' = Some ex' \<longrightarrow> new_modes S ex ex'))"

lemma context_adds_refl [simp]: "context_adds S c c"
  by (simp add: context_adds_def)

lemma context_adds_trans:
  assumes "context_adds S a b" "context_adds S b c"
  shows "context_adds S a c"
proof -
  have "context_extends a b" "context_extends b c" using assms by (simp_all add: context_adds_def)
  then have "wc_exports b = None \<longleftrightarrow> wc_exports a = None" "context_extends a c"
    using context_extends_same(3) context_extends_trans by blast+
  then show ?thesis using assms unfolding context_adds_def by (metis new_modes_trans not_None_eq)
qed

lemma context_adds_mono: "context_adds S a b \<Longrightarrow> S \<subseteq> T \<Longrightarrow> context_adds T a b"
  unfolding context_adds_def using new_modes_mono by blast

lemma context_extends_not_allowed: "context_extends c (snd (export_not_allowed c path q))"
  by (auto simp: export_not_allowed_def context_extends_def split: option.split)

lemma not_allowed_adds: "context_adds S c (snd (export_not_allowed c path q))"
  using context_extends_not_allowed [of c path q] by (auto simp: context_adds_def export_not_allowed_def split: if_splits)

lemma export_if_allowed_adds:
  assumes "canonicalizer (g_file_path G)" and "wc_exports c = Some ex"
    and "mode \<in> {FLATPAK_FILESYSTEM_MODE_READ_ONLY, FLATPAK_FILESYSTEM_MODE_READ_WRITE}"
  shows "hoare (\<lambda>_. True) (pv_wrap_context_export_if_allowed G H c mode path host_path q)
    (\<lambda>r _. context_adds {mode, FAKE_MODE_SYMLINK} c (snd r)
      \<and> (fst r \<longleftrightarrow> g_path_is_absolute path \<and> g_path_is_absolute host_path \<and> \<not> is_reserved path))"
proof -
  have mode: "mode > FLATPAK_FILESYSTEM_MODE_NONE \<and> mode \<le> FLATPAK_FILESYSTEM_MODE_LAST" using assms(3) by (auto simp: mode_defs)
  have "hoare (\<lambda>_. True) (do { ex' \<leftarrow> pv_exports_expose_or_log G H ex mode path; State_Monad.return (True, c\<lparr> wc_exports := Some ex' \<rparr>) })
      (\<lambda>r _. context_adds {mode, FAKE_MODE_SYMLINK} c (snd r) \<and> fst r)"
    by (rule hoare_wrap [OF hoare_conj [OF expose_or_log_grows [OF assms(1)] expose_or_log_modes]])
      (simp add: context_adds_def context_extends_def assms(2))
  then have expose: "hoare (\<lambda>_. True) (do { ex' \<leftarrow> pv_exports_expose_or_log G H ex mode path; State_Monad.return (True, c\<lparr> wc_exports := Some ex' \<rparr>) })
      (\<lambda>r _. context_adds {mode, FAKE_MODE_SYMLINK} c (snd r)
        \<and> (fst r \<longleftrightarrow> g_path_is_absolute path \<and> g_path_is_absolute host_path \<and> \<not> is_reserved path))"
    if "g_path_is_absolute path" "g_path_is_absolute host_path" "\<not> is_reserved path" using that by simp
  show ?thesis
    unfolding pv_wrap_context_export_if_allowed_def assms(2) option.case overlaps_reserved_iff
    by (intro hoare_if expose) (use mode in \<open>auto intro: hoare_return simp: not_allowed_adds\<close>)
qed

section \<open>What becomes of the variables\<close>

text \<open>A value becomes what the host calls its canonical name if it exists, unless that is reserved or a name is not
  absolute; then, or if it does not exist, it is left alone.\<close>

definition value_mapped :: "nat \<Rightarrow> glib \<Rightarrow> 'w host \<Rightarrow> sysroot \<Rightarrow> string \<Rightarrow> string \<Rightarrow> bool" where
  "value_mapped fuel G H root v v' =
     (let canonical = g_canonicalize_filename G v None;
          tested = (\<lambda>t. \<exists>s s'. run_state (srt_sysroot_test fuel G (kern H) root v {}) s = (Some t, s'));
          host_path = (\<lambda>p. \<exists>s s'. run_state (pv_current_namespace_path_to_host_path G H canonical) s = (p, s'));
          may_be_exported = (\<lambda>p. g_path_is_absolute canonical \<and> g_path_is_absolute p \<and> \<not> is_reserved canonical)
      in if v = [] then v' = v
         else (\<exists>e. tested (Inl e)) \<and> v' = v
            \<or> (\<exists>u p. tested (Inr u) \<and> host_path p \<and> v' = (if may_be_exported p then p else v)))"

lemma bind_value_mapped:
  assumes canon: "canonicalizer (g_file_path G)" and ex: "wc_exports c = Some ex"
    and mode: "mode \<in> {FLATPAK_FILESYSTEM_MODE_READ_ONLY, FLATPAK_FILESYSTEM_MODE_READ_WRITE}"
  shows "hoare (\<lambda>_. True) (bind_value fuel G H mode c v) (\<lambda>r _. \<forall>v' c'. r = Some (v', c') \<longrightarrow>
    context_adds {mode, FAKE_MODE_SYMLINK} c c' \<and> value_mapped fuel G H (wc_current_root c) v v')"
    (is "hoare _ _ ?Q")
proof -
  let ?canonical = "g_canonicalize_filename G v None"
  let ?tested = "\<lambda>t. \<exists>s s'. run_state (srt_sysroot_test fuel G (kern H) (wc_current_root c) v {}) s = (t, s')"
  have allowed: "hoare (\<lambda>_. True) (do { value_host \<leftarrow> pv_current_namespace_path_to_host_path G H ?canonical;
        (allowed, c') \<leftarrow> pv_wrap_context_export_if_allowed G H c mode ?canonical value_host False;
        State_Monad.return (Some (if allowed then value_host else v, c')) }) ?Q"
    if "?tested (Some (Inr u))" "v \<noteq> []" for u
  proof (rule hoare_bind [OF hoare_answers])
    fix p
    let ?host = "\<exists>s s'. run_state (pv_current_namespace_path_to_host_path G H ?canonical) s = (p, s')"
    show "hoare (\<lambda>_. ?host) (do { (allowed, c') \<leftarrow> pv_wrap_context_export_if_allowed G H c mode ?canonical p False;
        State_Monad.return (Some (if allowed then p else v, c')) }) ?Q"
    proof (cases ?host)
      case True
      let ?may = "g_path_is_absolute ?canonical \<and> g_path_is_absolute p \<and> \<not> is_reserved ?canonical"
      have m: "value_mapped fuel G H (wc_current_root c) v (if ?may then p else v)"
        unfolding value_mapped_def Let_def if_not_P [OF that(2)] using that(1) True by blast
      show ?thesis
      proof (rule hoare_pre [OF hoare_bind [OF export_if_allowed_adds [OF canon ex mode]]], rule hoare_prod)
        fix r :: "bool \<times> wrap_context" and allowed c'
        assume "r = (allowed, c')"
        then show "hoare (\<lambda>_. context_adds {mode, FAKE_MODE_SYMLINK} c (snd r) \<and> (fst r \<longleftrightarrow> ?may))
            (State_Monad.return (Some (if allowed then p else v, c'))) ?Q"
          using m by (intro hoare_return) auto
      qed simp
    qed (simp add: hoare_false)
  qed
  have answer: "hoare (\<lambda>_. ?tested t) (case t of None \<Rightarrow> State_Monad.return None
      | Some (Inl _) \<Rightarrow> State_Monad.return (Some (v, c))
      | Some (Inr _) \<Rightarrow> do { value_host \<leftarrow> pv_current_namespace_path_to_host_path G H ?canonical;
            (allowed, c') \<leftarrow> pv_wrap_context_export_if_allowed G H c mode ?canonical value_host False;
            State_Monad.return (Some (if allowed then value_host else v, c')) }) ?Q" if "v \<noteq> []" for t
  proof (cases "?tested t")
    case True
    show ?thesis
    proof (cases t)
      case None
      then show ?thesis by (simp add: hoare_return)
    next
      case (Some q)
      show ?thesis
      proof (cases q)
        case (Inl e)
        then have "value_mapped fuel G H (wc_current_root c) v v" using True Some by (auto simp: value_mapped_def Let_def)
        then show ?thesis using Some Inl by (auto intro: hoare_return)
      next
        case (Inr u)
        from True have "?tested (Some (Inr u))" unfolding Some Inr .
        from allowed [OF this that] show ?thesis unfolding Some Inr option.case sum.case by (rule hoare_pre) simp
      qed
    qed
  qed (simp add: hoare_false)
  show ?thesis
    unfolding bind_value_def
    by (rule hoare_if, rule hoare_return, simp add: value_mapped_def, rule hoare_bind [OF hoare_answers], rule answer)
qed

lemma bind_values_mapped:
  assumes canon: "canonicalizer (g_file_path G)"
    and mode: "mode \<in> {FLATPAK_FILESYSTEM_MODE_READ_ONLY, FLATPAK_FILESYSTEM_MODE_READ_WRITE}"
  shows "wc_exports c \<noteq> None \<Longrightarrow> hoare (\<lambda>_. True) (bind_values fuel G H mode c vs)
    (\<lambda>r _. \<forall>vs' c'. r = Some (vs', c') \<longrightarrow> context_adds {mode, FAKE_MODE_SYMLINK} c c' \<and> list_all2 (value_mapped fuel G H (wc_current_root c)) vs vs')"
proof (induction vs arbitrary: c)
  case Nil
  show ?case by (auto intro: hoare_return)
next
  case (Cons v vs)
  let ?S = "{mode, FAKE_MODE_SYMLINK}"
  obtain ex where ex: "wc_exports c = Some ex" using Cons.prems by blast
  show ?case
    unfolding bind_values.simps
  proof (rule hoare_bind [OF bind_value_mapped [OF canon ex mode]], rule hoare_option, rule hoare_return, simp, rule hoare_prod)
    fix r and p :: "string \<times> wrap_context" and v' c'
    assume r: "r = Some p" "p = (v', c')"
    show "hoare (\<lambda>_. \<forall>v' c'. r = Some (v', c') \<longrightarrow> context_adds ?S c c' \<and> value_mapped fuel G H (wc_current_root c) v v')
        (do { rs \<leftarrow> bind_values fuel G H mode c' vs; State_Monad.return (map_option (\<lambda>(vs', c). (v' # vs', c)) rs) })
        (\<lambda>r _. \<forall>vs' c'. r = Some (vs', c') \<longrightarrow> context_adds ?S c c' \<and> list_all2 (value_mapped fuel G H (wc_current_root c)) (v # vs) vs')"
    proof (cases "context_adds ?S c c' \<and> value_mapped fuel G H (wc_current_root c) v v'")
      case True
      then have ext: "context_extends c c'" by (simp add: context_adds_def)
      have some: "wc_exports c' \<noteq> None" using context_extends_same(3) [OF ext] Cons.prems by simp
      show ?thesis
        by (rule hoare_pre [OF hoare_wrap [OF Cons.IH [OF some, unfolded context_extends_same(2) [OF ext]]]])
          (use True in \<open>auto intro: context_adds_trans\<close>)
    qed (use r in \<open>auto simp: hoare_false\<close>)
  qed
qed

text \<open>The value that a variable had, and what may become of it.\<close>

definition old_value :: "glib \<Rightarrow> wrap_context \<Rightarrow> env_overlay \<Rightarrow> string \<Rightarrow> string option" where
  "old_value G c env variable =
     (if srt_env_overlay_contains env variable then srt_env_overlay_get env variable
      else g_environ_getenv G (wc_original_environ c) variable)"

definition home_only :: "home_mode \<Rightarrow> env_mount_flag set \<Rightarrow> bool" where
  "home_only home_mode flags = (home_mode \<noteq> PV_HOME_MODE_SHARED \<and> ENV_MOUNT_FLAGS_IF_HOME_SHARED \<in> flags)"

text \<open>A variable that is not looked at stays as it is; otherwise its entries are mapped, one by one, and it is set, unless
  nothing has changed and the process is not in a Flatpak sandbox.\<close>

definition variable_mapped :: "nat \<Rightarrow> glib \<Rightarrow> 'w host \<Rightarrow> wrap_context \<Rightarrow> home_mode \<Rightarrow> env_overlay \<Rightarrow> env_mount_flag set \<Rightarrow> string \<Rightarrow> env_overlay \<Rightarrow> bool" where
  "variable_mapped fuel G H c home_mode env flags name env' =
     (if home_only home_mode flags \<or> old_value G c env name = None then overlay_map env' name = overlay_map env name
      else \<exists>new. list_all2 (value_mapped fuel G H (wc_current_root c)) (values_of flags (the (old_value G c env name))) new
        \<and> (overlay_map env' name = Some (Some (g_strjoinv '':'' new))
           \<or> new = values_of flags (the (old_value G c env name)) \<and> overlay_map env' name = overlay_map env name
             \<and> (\<exists>e s s'. run_state (srt_sysroot_test fuel G (kern H) (wc_current_root c) ''/.flatpak-info'' {}) s = (Some (Inl e), s'))))"

text \<open>The modes in which the entries of a variable may be exported.\<close>

definition variable_modes :: "glib \<Rightarrow> wrap_context \<Rightarrow> home_mode \<Rightarrow> env_overlay \<Rightarrow> string \<times> env_mount_flag set \<Rightarrow> int set" where
  "variable_modes G c home_mode env nf =
     (if home_only home_mode (snd nf) \<or> old_value G c env (fst nf) = None then {}
      else {if ENV_MOUNT_FLAGS_READ_ONLY \<in> snd nf then FLATPAK_FILESYSTEM_MODE_READ_ONLY else FLATPAK_FILESYSTEM_MODE_READ_WRITE,
            FAKE_MODE_SYMLINK})"

definition variable_step :: "nat \<Rightarrow> glib \<Rightarrow> 'w host \<Rightarrow> wrap_context \<Rightarrow> env_overlay \<Rightarrow> home_mode \<Rightarrow> env_mount_flag set \<Rightarrow> string \<Rightarrow> wrap_context \<times> env_overlay \<Rightarrow> bool" where
  "variable_step fuel G H c env home_mode flags name r =
     (context_adds (variable_modes G c home_mode env (name, flags)) c (fst r) \<and> variable_mapped fuel G H c home_mode env flags name (snd r)
      \<and> (\<forall>var. var \<noteq> name \<longrightarrow> overlay_map (snd r) var = overlay_map env var))"

lemma bind_variable_step:
  assumes canon: "canonicalizer (g_file_path G)" and v: "old_value G c env name = Some v"
    and home: "\<not> home_only home_mode flags" and ex: "wc_exports c \<noteq> None"
  shows "hoare (\<lambda>_. True) (bind_variable fuel G H c env name flags v)
    (\<lambda>r _. \<forall>r'. r = Some r' \<longrightarrow> variable_step fuel G H c env home_mode flags name r')"
proof -
  let ?mode = "if ENV_MOUNT_FLAGS_READ_ONLY \<in> flags then FLATPAK_FILESYSTEM_MODE_READ_ONLY else FLATPAK_FILESYSTEM_MODE_READ_WRITE"
  let ?S = "{?mode, FAKE_MODE_SYMLINK}" and ?old = "values_of flags v"
  let ?ask = "srt_sysroot_test fuel G (kern H) (wc_current_root c) ''/.flatpak-info'' {}"
  have mode: "?mode \<in> {FLATPAK_FILESYSTEM_MODE_READ_ONLY, FLATPAK_FILESYSTEM_MODE_READ_WRITE}" by simp
  have modes: "variable_modes G c home_mode env (name, flags) = ?S" using v home by (simp add: variable_modes_def)
  show ?thesis
    unfolding bind_variable_def Let_def
  proof (rule hoare_bind [OF bind_values_mapped [OF canon mode ex]], rule hoare_option, rule hoare_return, simp, rule hoare_prod)
    fix r and p :: "string list \<times> wrap_context" and new c'
    assume r: "r = Some p" "p = (new, c')"
    show "hoare (\<lambda>_. \<forall>vs' c'. r = Some (vs', c') \<longrightarrow> context_adds ?S c c' \<and> list_all2 (value_mapped fuel G H (wc_current_root c)) ?old vs')
        (do { in_flatpak \<leftarrow> (if new \<noteq> ?old then State_Monad.return (Some (Inr ())) else ?ask);
              State_Monad.return (map_option (\<lambda>f. (c', case f of Inr _ \<Rightarrow> srt_env_overlay_set env name (Some (g_strjoinv '':'' new)) | Inl _ \<Rightarrow> env)) in_flatpak) })
        (\<lambda>r _. \<forall>r'. r = Some r' \<longrightarrow> variable_step fuel G H c env home_mode flags name r')"
    proof (cases "context_adds ?S c c' \<and> list_all2 (value_mapped fuel G H (wc_current_root c)) ?old new")
      case True
      then have set: "variable_step fuel G H c env home_mode flags name (c', srt_env_overlay_set env name (Some (g_strjoinv '':'' new)))"
        using v home by (auto simp: variable_step_def variable_mapped_def srt_env_overlay_set_def modes)
      have keep: "variable_step fuel G H c env home_mode flags name (c', env)"
        if "new = ?old" "\<exists>s s'. run_state ?ask s = (Some (Inl e), s')" for e
        using True v home that by (auto simp: variable_step_def variable_mapped_def modes)
      have step: "variable_step fuel G H c env home_mode flags name
          (c', case f of Inr _ \<Rightarrow> srt_env_overlay_set env name (Some (g_strjoinv '':'' new)) | Inl _ \<Rightarrow> env)"
        if "\<forall>e. f = Inl e \<longrightarrow> new = ?old \<and> (\<exists>s s'. run_state ?ask s = (Some (Inl e), s'))" for f :: "gerror + unit"
        using that set keep by (cases f) auto
      have "hoare (\<lambda>_. True) (if new \<noteq> ?old then State_Monad.return (Some (Inr ())) else ?ask)
          (\<lambda>q _. \<forall>e. q = Some (Inl e) \<longrightarrow> new = ?old \<and> (\<exists>s s'. run_state ?ask s = (Some (Inl e), s')))"
        by (rule hoare_if, simp add: hoare_return, rule hoare_weaken [OF hoare_answers]) auto
      from hoare_wrap [OF this] show ?thesis
        by (rule hoare_pre) (use step in \<open>simp_all only: map_option_eq_Some, blast\<close>)
    qed (use r in \<open>auto simp: hoare_false\<close>)
  qed
qed

lemma variable_step_same:
  "home_only home_mode flags \<or> old_value G c env name = None \<Longrightarrow> variable_step fuel G H c env home_mode flags name (c, env)"
  by (simp add: variable_step_def variable_mapped_def)

lemma bind_and_propagate_step:
  assumes "canonicalizer (g_file_path G)" and "wc_exports c \<noteq> None"
  shows "hoare (\<lambda>_. True) (bind_and_propagate_from_environ fuel G H c home_mode env name flags)
    (\<lambda>r _. \<forall>r'. r = Some r' \<longrightarrow> variable_step fuel G H c env home_mode flags name r')"
proof -
  have "hoare (\<lambda>_. True) (State_Monad.return (Some (c, env))) (\<lambda>r _. \<forall>r'. r = Some r' \<longrightarrow> variable_step fuel G H c env home_mode flags name r')"
    if "home_only home_mode flags \<or> old_value G c env name = None"
    by (rule hoare_return) (use variable_step_same [OF that] in auto)
  moreover have "bind_and_propagate_from_environ fuel G H c home_mode env name flags =
      (if home_only home_mode flags then State_Monad.return (Some (c, env))
       else case old_value G c env name of None \<Rightarrow> State_Monad.return (Some (c, env)) | Some v \<Rightarrow> bind_variable fuel G H c env name flags v)"
    unfolding bind_and_propagate_from_environ_def if_not_P [OF assms(2)] old_value_def home_only_def by (rule refl)
  ultimately show ?thesis using bind_variable_step [OF assms(1) _ _ assms(2)]
    by (cases "home_only home_mode flags"; cases "old_value G c env name") simp_all
qed

lemma old_value_cong:
  "overlay_map env1 name = overlay_map env name \<Longrightarrow> wc_original_environ c1 = wc_original_environ c \<Longrightarrow>
   old_value G c1 env1 name = old_value G c env name"
  by (simp add: old_value_def srt_env_overlay_contains_def srt_env_overlay_get_def)

lemma variable_mapped_cong:
  assumes "overlay_map env1 name = overlay_map env name" "context_extends c c1"
    and "overlay_map env1' name = overlay_map env' name"
  shows "variable_mapped fuel G H c1 home_mode env1 flags name env1' = variable_mapped fuel G H c home_mode env flags name env'"
  by (simp add: variable_mapped_def old_value_cong [OF assms(1) context_extends_same(1) [OF assms(2)]]
      context_extends_same(2) [OF assms(2)] assms(1,3))

text \<open>The variables of a table, after all of them have been looked at.\<close>

definition table_mapped :: "nat \<Rightarrow> glib \<Rightarrow> 'w host \<Rightarrow> wrap_context \<Rightarrow> env_overlay \<Rightarrow> home_mode \<Rightarrow> (string \<times> env_mount_flag set) list \<Rightarrow> env_overlay \<Rightarrow> bool" where
  "table_mapped fuel G H c env home_mode vars env' =
     ((\<forall>var. var \<notin> fst ` set vars \<longrightarrow> overlay_map env' var = overlay_map env var)
      \<and> (\<forall>(name, flags) \<in> set vars. variable_mapped fuel G H c home_mode env flags name env'))"

lemma table_mapped_Cons:
  assumes step: "variable_step fuel G H c env home_mode flags name (c1, env1)" and rest: "table_mapped fuel G H c1 env1 home_mode vars env'"
    and new: "name \<notin> fst ` set vars"
  shows "table_mapped fuel G H c env home_mode ((name, flags) # vars) env'"
proof -
  have ext: "context_extends c c1" and other: "\<And>var. var \<noteq> name \<Longrightarrow> overlay_map env1 var = overlay_map env var"
    using step by (auto simp: variable_step_def context_adds_def)
  have name: "overlay_map env' name = overlay_map env1 name" using rest new by (simp add: table_mapped_def)
  have "variable_mapped fuel G H c home_mode env fl n env'" if "(n, fl) \<in> set vars" for n fl
  proof -
    have n: "n \<noteq> name" using that new by force
    have "variable_mapped fuel G H c1 home_mode env1 fl n env'" using rest that unfolding table_mapped_def by auto
    then show ?thesis using variable_mapped_cong [OF other [OF n] ext refl] by metis
  qed
  moreover have "variable_mapped fuel G H c home_mode env flags name env'"
    using step variable_mapped_cong [where fuel = fuel and G = G and H = H, OF refl context_extends_refl name] by (simp add: variable_step_def)
  ultimately show ?thesis
    using other rest by (auto simp: table_mapped_def)
qed

lemma variable_modes_Cons:
  assumes step: "variable_step fuel G H c env home_mode flags name (c1, env1)" and new: "name \<notin> fst ` set vars" and "nf \<in> set vars"
  shows "variable_modes G c1 home_mode env1 nf = variable_modes G c home_mode env nf"
proof -
  have ext: "context_extends c c1" and "fst nf \<noteq> name" using step assms(3) new by (auto simp: variable_step_def context_adds_def)
  then have "overlay_map env1 (fst nf) = overlay_map env (fst nf)" using step by (simp add: variable_step_def)
  from old_value_cong [OF this context_extends_same(1) [OF ext]] show ?thesis by (simp add: variable_modes_def)
qed

definition table_modes :: "glib \<Rightarrow> wrap_context \<Rightarrow> home_mode \<Rightarrow> env_overlay \<Rightarrow> (string \<times> env_mount_flag set) list \<Rightarrow> int set" where
  "table_modes G c home_mode env vars = \<Union> (variable_modes G c home_mode env ` set vars)"

lemma bind_all_mapped:
  assumes canon: "canonicalizer (g_file_path G)"
  shows "distinct (map fst vars) \<Longrightarrow> wc_exports c \<noteq> None \<Longrightarrow>
    hoare (\<lambda>_. True) (bind_all fuel G H c home_mode env vars)
      (\<lambda>r _. \<forall>c' env'. r = Some (c', env') \<longrightarrow>
        context_adds (table_modes G c home_mode env vars) c c' \<and> table_mapped fuel G H c env home_mode vars env')"
proof (induction vars arbitrary: c env)
  case Nil
  show ?case by (auto intro: hoare_return simp: table_mapped_def)
next
  case (Cons nf vars)
  obtain name flags where nf: "nf = (name, flags)" by (cases nf)
  show ?case
    unfolding nf bind_all.simps if_P [OF Cons.prems(2)]
  proof (rule hoare_bind [OF bind_and_propagate_step [OF canon Cons.prems(2)]], rule hoare_option, rule hoare_return, simp, rule hoare_prod)
    fix r and p :: "wrap_context \<times> env_overlay" and c1 env1
    assume r: "r = Some p" "p = (c1, env1)"
    let ?T = "table_modes G c home_mode env ((name, flags) # vars)"
    show "hoare (\<lambda>_. \<forall>r'. r = Some r' \<longrightarrow> variable_step fuel G H c env home_mode flags name r')
        (bind_all fuel G H c1 home_mode env1 vars)
        (\<lambda>r _. \<forall>c' env'. r = Some (c', env') \<longrightarrow> context_adds ?T c c' \<and> table_mapped fuel G H c env home_mode ((name, flags) # vars) env')"
    proof (cases "variable_step fuel G H c env home_mode flags name (c1, env1)")
      case True
      then have adds: "context_adds (variable_modes G c home_mode env (name, flags)) c c1" by (simp add: variable_step_def)
      then have ext: "context_extends c c1" by (simp add: context_adds_def)
      have exports: "wc_exports c1 \<noteq> None" using context_extends_same(3) [OF ext] Cons.prems(2) by simp
      have new: "name \<notin> fst ` set vars" and dist: "distinct (map fst vars)" using Cons.prems(1) nf by auto
      have T: "?T = variable_modes G c home_mode env (name, flags) \<union> table_modes G c1 home_mode env1 vars"
        unfolding table_modes_def using variable_modes_Cons [OF True new] by auto
      have first: "context_adds ?T c c1" by (rule context_adds_mono [OF adds]) (simp add: T)
      have rest: "context_adds ?T c1 c'" if "context_adds (table_modes G c1 home_mode env1 vars) c1 c'" for c'
        by (rule context_adds_mono [OF that]) (simp add: T)
      show ?thesis
        by (rule hoare_weaken [OF Cons.IH [OF dist exports]])
          (auto intro: context_adds_trans [OF first rest] table_mapped_Cons [OF True _ new])
    qed (use r in \<open>auto simp: hoare_false\<close>)
  qed
qed

lemma known_required_env_distinct: "distinct (map fst known_required_env)"
  by code_simp


definition demo_environ :: "string list" where
  "demo_environ = [''STEAM_COMPAT_MOUNTS=/opt::/srv'', ''XDG_DATA_HOME=/home/me/data'']"


section \<open>Temporary directories\<close>

text \<open>Whether a variable points below the runtime directory of the user, where nothing can be mounted.\<close>

definition in_run_user :: "glib \<Rightarrow> 'w host \<Rightarrow> string \<Rightarrow> bool" where
  "in_run_user G H var = (\<exists>v. g_environ_getenv G (h_environ H) var = Some v \<and> v \<noteq> [] \<and> hd v = CHR ''/''
     \<and> prefix [''run'', ''user''] (segs v))"

lemma in_run_user_iff:
  "(srt_get_path_after v ''run/user'' \<noteq> None) = prefix [''run'', ''user''] (segs v)"
proof -
  have "segs ''run/user'' = [''run'', ''user'']" by code_simp
  then show ?thesis using has_path_prefix_iff [of v "''run/user''"] by (simp add: has_path_prefix_get_path_after)
qed

definition exports_extend :: "exports \<Rightarrow> exports \<Rightarrow> bool" where
  "exports_extend ex ex' = ((exports_ok ex \<longrightarrow> exports_ok ex') \<and> exports_grow ex ex')"

lemma exports_extend_refl [simp]: "exports_extend ex ex"
  by (simp add: exports_extend_def)

lemma exports_extend_trans: "exports_extend a b \<Longrightarrow> exports_extend b c \<Longrightarrow> exports_extend a c"
  unfolding exports_extend_def by (blast intro: exports_grow_trans)

lemma expose_or_log_extends:
  assumes "canonicalizer (g_file_path G)"
  shows "hoare (\<lambda>_. True) (pv_exports_expose_or_log G H ex mode path) (\<lambda>ex' _. exports_extend ex ex')"
  using expose_or_log_grows [OF assms] by (simp add: exports_extend_def)

lemma expose_then:
  assumes canon: "canonicalizer (g_file_path G)"
    and rest: "\<And>ex'. hoare (\<lambda>_. True) (f ex') (\<lambda>r _. exports_extend ex' (fst r) \<and> P (snd r))"
  shows "hoare (\<lambda>_. True) (State_Monad.bind (pv_exports_expose_or_log G H ex mode path) f) (\<lambda>r _. exports_extend ex (fst r) \<and> P (snd r))"
proof (rule hoare_bind [OF expose_or_log_extends [OF canon]])
  fix x
  show "hoare (\<lambda>_. exports_extend ex x) (f x) (\<lambda>r _. exports_extend ex (fst r) \<and> P (snd r))"
  proof (cases "exports_extend ex x")
    case True
    show ?thesis by (rule hoare_weaken [OF rest]) (use True in \<open>auto intro: exports_extend_trans\<close>)
  qed (simp add: hoare_false)
qed

lemma share_temp_vars_env:
  assumes canon: "canonicalizer (g_file_path G)"
  shows "hoare (\<lambda>_. True) (share_temp_vars G H vars ex env)
    (\<lambda>r _. exports_extend ex (fst r) \<and> (\<forall>var. overlay_map (snd r) var =
       (if var \<in> set vars \<and> in_run_user G H var then Some None else overlay_map env var)))"
proof (induction vars arbitrary: ex env)
  case Nil
  show ?case by (auto intro: hoare_return)
next
  case (Cons v vars)
  let ?Q = "\<lambda>r _. exports_extend ex (fst r) \<and> (\<forall>var. overlay_map (snd r) var =
       (if var \<in> set (v # vars) \<and> in_run_user G H var then Some None else overlay_map env var))"
  have skip: "hoare (\<lambda>_. True) (share_temp_vars G H vars ex env) ?Q" if "\<not> in_run_user G H v"
    by (rule hoare_weaken [OF Cons.IH]) (use that in auto)
  show ?case
  proof (cases "g_environ_getenv G (h_environ H) v")
    case None
    then show ?thesis using skip by (simp add: in_run_user_def)
  next
    case (Some x)
    have iff: "in_run_user G H v \<longleftrightarrow> \<not> (x = [] \<or> hd x \<noteq> CHR ''/'') \<and> srt_get_path_after x ''run/user'' \<noteq> None"
      unfolding in_run_user_def Some in_run_user_iff by auto
    consider (rel) "x = [] \<or> hd x \<noteq> CHR ''/''" | (run) "\<not> (x = [] \<or> hd x \<noteq> CHR ''/'')" "srt_get_path_after x ''run/user'' \<noteq> None"
      | (share) "\<not> (x = [] \<or> hd x \<noteq> CHR ''/'')" "srt_get_path_after x ''run/user'' = None" by blast
    then show ?thesis
    proof cases
      case rel
      then have "\<not> in_run_user G H v" using iff by blast
      from skip [OF this] show ?thesis using Some rel by simp
    next
      case run
      then have "in_run_user G H v" using iff by blast
      then have "hoare (\<lambda>_. True) (share_temp_vars G H vars ex (srt_env_overlay_set env v None)) ?Q"
        by (intro hoare_weaken [OF Cons.IH [of ex "srt_env_overlay_set env v None"]]) (auto simp: srt_env_overlay_set_def)
      then show ?thesis using Some run by simp
    next
      case share
      then have "\<not> in_run_user G H v" using iff by blast
      then have set: "(var \<in> set (v # vars) \<and> in_run_user G H var) = (var \<in> set vars \<and> in_run_user G H var)" for var by auto
      have "hoare (\<lambda>_. True) (do { ex' \<leftarrow> pv_exports_expose_or_log G H ex FLATPAK_FILESYSTEM_MODE_READ_WRITE x;
          share_temp_vars G H vars ex' env }) ?Q"
        unfolding set by (rule expose_then [OF canon Cons.IH])
      then show ?thesis using Some share by simp
    qed
  qed
qed

lemma warn_log: "pv_exports_expose_or_warn G H = pv_exports_expose_or_log G H"
  by (intro ext) (simp add: pv_exports_expose_or_warn_def pv_exports_expose_or_log_def)

text \<open>After the temporary directories are shared, exactly those of the four variables that point below the user's
  runtime directory are unset in the container, and no other variable changes, whatever can be
  exported; the exports stay well-formed and only grow.\<close>

theorem pv_share_temp_dir_env:
  assumes "canonicalizer (g_file_path G)"
    and "run_state (pv_share_temp_dir G H ex container_env) w = ((ex', container_env'), w')"
  shows "exports_extend ex ex' \<and> (\<forall>var. overlay_map container_env' var =
    (if var \<in> {''TEMP'', ''TEMPDIR'', ''TMP'', ''TMPDIR''} \<and> in_run_user G H var then Some None else overlay_map container_env var))"
proof -
  have "hoare (\<lambda>_. True) (pv_share_temp_dir G H ex container_env) (\<lambda>r _. exports_extend ex (fst r) \<and> (\<forall>var. overlay_map (snd r) var =
       (if var \<in> set [''TEMP'', ''TEMPDIR'', ''TMP'', ''TMPDIR''] \<and> in_run_user G H var then Some None else overlay_map container_env var)))"
    unfolding pv_share_temp_dir_def warn_log by (rule expose_then [OF assms(1) share_temp_vars_env [OF assms(1)]])
  from hoareD [OF this TrueI assms(2)] show ?thesis by simp
qed

theorem pv_share_temp_dir_env_witness:
  "\<exists>ex' container_env' w'. run_state (pv_share_temp_dir glib_ref
      ((path_host [(''/tmp'', Dir)])\<lparr> h_environ := [''TMPDIR=/run//user/1000/snap.steam'', ''TMP=/run/users''] \<rparr>) flatpak_exports_new srt_env_overlay_new) demo_world
      = ((ex', container_env'), w')
    \<and> overlay_map container_env' ''TMPDIR'' = Some None \<and> overlay_map container_env' ''TMP'' = None"
proof -
  let ?H = "(path_host [(''/tmp'', Dir)])\<lparr> h_environ := [''TMPDIR=/run//user/1000/snap.steam'', ''TMP=/run/users''] \<rparr>"
  obtain ex' env' w' where r: "run_state (pv_share_temp_dir glib_ref ?H flatpak_exports_new srt_env_overlay_new) demo_world = ((ex', env'), w')"
    by (metis surj_pair)
  have t: "g_environ_getenv glib_ref (h_environ ?H) ''TMPDIR'' = Some ''/run//user/1000/snap.steam''"
    "g_environ_getenv glib_ref (h_environ ?H) ''TMP'' = Some ''/run/users''" by code_simp+
  have p: "srt_get_path_after ''/run//user/1000/snap.steam'' ''run/user'' \<noteq> None" "srt_get_path_after ''/run/users'' ''run/user'' = None"
    by code_simp+
  have "in_run_user glib_ref ?H ''TMPDIR''" "\<not> in_run_user glib_ref ?H ''TMP''"
    using t p by (auto simp: in_run_user_def in_run_user_iff [symmetric])
  with pv_share_temp_dir_env [OF canonicalizer_ref r]
  have "overlay_map env' ''TMPDIR'' = Some None \<and> overlay_map env' ''TMP'' = overlay_map srt_env_overlay_new ''TMP''" by simp
  then show ?thesis using r by (simp add: srt_env_overlay_new_def)
qed

end
