(* ===== verification/Passwd.thy ===== *)
theory Passwd imports Sysroot MemKernel begin

text \<open>
  The files \<open>/etc/passwd\<close> and \<open>/etc/group\<close> of the container (\<open>pressure-vessel/passwd.c\<close>): the entry of the user, or
  of the primary group, and the other entries of the provider. The mock results for unit tests are left out,
  so \<open>getpwuid_wrapper\<close> is \<open>getpwuid\<close>. A result of \<^const>\<open>None\<close> means that following symbolic links ran out of fuel.
\<close>

section \<open>The files\<close>

abbreviation newline :: char where "newline \<equiv> CHR 0x0A"

record passwd =
  pw_name :: string
  pw_uid :: "32 word"
  pw_gid :: "32 word"
  pw_gecos :: string
  pw_dir :: string

record group_entry =
  gr_name :: string
  gr_gid :: "32 word"

text \<open>What the C library and GLib say about the user.\<close>

record user_database =
  ud_user_name :: "string option"    \<comment> \<open>\<open>g_get_user_name\<close>\<close>
  ud_real_name :: "string option"    \<comment> \<open>\<open>g_get_real_name\<close>\<close>
  ud_home_dir :: string              \<comment> \<open>\<open>g_get_home_dir\<close>\<close>
  ud_uid :: "32 word"
  ud_gid :: "32 word"
  ud_getpwuid :: "32 word \<Rightarrow> passwd option"
  ud_getgrgid :: "32 word \<Rightarrow> group_entry option"

definition replace_separator :: "char \<Rightarrow> char" where
  "replace_separator c = (if c = CHR '':'' \<or> c = newline then CHR ''_'' else c)"

definition append_field :: "string \<Rightarrow> string \<Rightarrow> string" where
  "append_field buffer field = buffer @ map replace_separator field"

text \<open>\<open>printf\<close> with \<open>%d\<close>: the number is read as a signed one.\<close>

definition print_id :: "32 word \<Rightarrow> string" where
  "print_id w = decimal (sint w)"

text \<open>The user or group with a colon; that there is a colon is asserted, and holds (\<open>exclude_passwd\<close> and
  \<open>exclude_group\<close> below).\<close>

definition exclude_same_name :: "string \<Rightarrow> string option" where
  "exclude_same_name buffer =
     (if buffer \<noteq> [] then map_option (\<lambda>(name, _). name @ '':'') (strchr buffer CHR '':'') else None)"

definition append_line :: "string option \<Rightarrow> string \<Rightarrow> string \<Rightarrow> string \<Rightarrow> string" where
  "append_line exclude line text_of_line buffer =
     (if (case exclude of None \<Rightarrow> False | Some name \<Rightarrow> g_str_has_prefix line name) then buffer
      else if length text_of_line > 0 then buffer @ text_of_line @ [newline] else buffer)"

function append_lines :: "string option \<Rightarrow> string \<Rightarrow> string \<Rightarrow> string" where
  "append_lines exclude line buffer =
     (case strchr line newline of
        None \<Rightarrow> append_line exclude line line buffer
      | Some (text_of_line, next_line) \<Rightarrow>
          append_lines exclude next_line (append_line exclude line text_of_line buffer))"
  by pat_completeness auto
termination
  by (relation "measure (\<lambda>(_, line, _). length line)") (auto dest: strchr_SomeD)

declare append_lines.simps [simp del]

definition append_remaining_lines :: "nat \<Rightarrow> glib \<Rightarrow> 'w kernel \<Rightarrow> string \<Rightarrow> sysroot \<Rightarrow> string \<Rightarrow> ('w, (gerror + string) option) state" where
  "append_remaining_lines fuel G K buffer source path = do {
     r \<leftarrow> srt_sysroot_load fuel G K source path {READABLE} False True;
     State_Monad.return (map_option (map_sum id (\<lambda>(_, content).
       append_lines (exclude_same_name buffer) (takeWhile (\<lambda>c. c \<noteq> CHR 0x00) (the content)) buffer)) r) }"

definition fallback_passwd :: "user_database \<Rightarrow> passwd" where
  "fallback_passwd U =
     (let name = (case ud_user_name U of None \<Rightarrow> ''user'' | Some n \<Rightarrow> n)
      in \<lparr> pw_name = name, pw_uid = ud_uid U, pw_gid = ud_gid U,
           pw_gecos = (case ud_real_name U of None \<Rightarrow> name | Some n \<Rightarrow> n), pw_dir = ud_home_dir U \<rparr>)"

definition own_passwd :: "user_database \<Rightarrow> passwd" where
  "own_passwd U = (case ud_getpwuid U (ud_uid U) of None \<Rightarrow> fallback_passwd U | Some pw \<Rightarrow> pw)"

definition passwd_line :: "passwd \<Rightarrow> string" where
  "passwd_line pw =
     append_field (append_field (append_field [] (pw_name pw) @ '':x:'' @ print_id (pw_uid pw) @ '':'' @ print_id (pw_gid pw) @ '':'')
       (pw_gecos pw) @ '':'') (pw_dir pw) @ '':/bin/bash'' @ [newline]"

text \<open>An error is only logged: then there are no other entries.\<close>

definition pv_generate_etc_passwd :: "nat \<Rightarrow> glib \<Rightarrow> 'w kernel \<Rightarrow> user_database \<Rightarrow> sysroot \<Rightarrow> ('w, string option) state" where
  "pv_generate_etc_passwd fuel G K U source =
     (let buffer = passwd_line (own_passwd U) in do {
        r \<leftarrow> append_remaining_lines fuel G K buffer source ''/etc/passwd'';
        State_Monad.return (map_option (\<lambda>s. case s of Inl _ \<Rightarrow> buffer | Inr b \<Rightarrow> b) r) })"

definition group_line :: "group_entry option \<Rightarrow> string" where
  "group_line gr =
     (case gr of None \<Rightarrow> [] | Some g \<Rightarrow> append_field [] (gr_name g) @ '':x:'' @ print_id (gr_gid g) @ '':'' @ [newline])"

definition pv_generate_etc_group :: "nat \<Rightarrow> glib \<Rightarrow> 'w kernel \<Rightarrow> user_database \<Rightarrow> sysroot \<Rightarrow> ('w, string option) state" where
  "pv_generate_etc_group fuel G K U source =
     (let buffer = group_line (ud_getgrgid U (ud_gid U)) in do {
        r \<leftarrow> append_remaining_lines fuel G K buffer source ''/etc/group'';
        State_Monad.return (map_option (\<lambda>s. case s of Inl _ \<Rightarrow> buffer | Inr b \<Rightarrow> b) r) })"

section \<open>Lines and fields\<close>

text \<open>How the C library reads these files: lines, their fields, and the first entry with a name.\<close>

definition file_lines :: "string \<Rightarrow> string list" where
  "file_lines s = split_on (\<lambda>c. c = newline) s"

definition line_fields :: "string \<Rightarrow> string list" where
  "line_fields l = split_on (\<lambda>c. c = CHR '':'') l"

definition entry_named :: "string \<Rightarrow> string list \<Rightarrow> string option" where
  "entry_named name ls = find (\<lambda>l. g_str_has_prefix l (name @ '':'')) ls"

definition kept_lines :: "string option \<Rightarrow> string \<Rightarrow> string list" where
  "kept_lines exclude content =
     filter (\<lambda>l. l \<noteq> [] \<and> \<not> (case exclude of None \<Rightarrow> False | Some name \<Rightarrow> g_str_has_prefix l name)) (file_lines content)"

lemma file_lines_Cons: "newline \<notin> set l \<Longrightarrow> file_lines (l @ newline # s) = l # file_lines s"
  unfolding file_lines_def by (intro split_on_append_delim) auto

lemma file_lines_single: "newline \<notin> set l \<Longrightarrow> file_lines l = [l]"
  unfolding file_lines_def by (intro split_on_id) auto

lemma file_lines_rec:
  "file_lines s = (case strchr s newline of None \<Rightarrow> [s] | Some (l, r) \<Rightarrow> l # file_lines r)"
  by (auto simp: strchr_None file_lines_single file_lines_Cons dest!: strchr_SomeD split: option.splits)

lemma prefix_of_line:
  assumes "newline \<notin> set name" and "s = l @ newline # r" and "newline \<notin> set l"
  shows "g_str_has_prefix s name = g_str_has_prefix l name"
proof
  assume "g_str_has_prefix s name"
  then obtain t where t: "l @ newline # r = name @ t" using assms(2) by (auto simp: g_str_has_prefix_iff)
  have "length name \<le> length l"
  proof (rule ccontr)
    assume "\<not> length name \<le> length l"
    then have "(l @ newline # r) ! length l \<in> set name" using t by (metis nth_append not_le nth_mem)
    then show False using assms(1) by simp
  qed
  then show "g_str_has_prefix l name" using t by (auto simp: g_str_has_prefix_iff append_eq_append_conv2)
qed (use assms(2) in \<open>auto simp: g_str_has_prefix_iff\<close>)

lemma append_lines_kept:
  assumes "\<And>name. exclude = Some name \<Longrightarrow> newline \<notin> set name"
  shows "append_lines exclude line buffer = buffer @ concat (map (\<lambda>l. l @ [newline]) (kept_lines exclude line))"
  using assms
proof (induction exclude line buffer rule: append_lines.induct)
  case (1 exclude line buffer)
  show ?case
  proof (cases "strchr line newline")
    case None
    then show ?thesis
      by (auto simp: append_lines.simps [of exclude line] append_line_def kept_lines_def file_lines_rec [of line] split: option.splits)
  next
    case (Some lr)
    obtain l r where lr: "lr = (l, r)" by (cases lr)
    then have s: "line = l @ newline # r" "newline \<notin> set l" using Some strchr_SomeD by auto
    have "(case exclude of None \<Rightarrow> False | Some name \<Rightarrow> g_str_has_prefix line name) =
        (case exclude of None \<Rightarrow> False | Some name \<Rightarrow> g_str_has_prefix l name)"
      using prefix_of_line [OF _ s] "1.prems" by (auto split: option.splits)
    then show ?thesis
      using "1.IH" [OF Some lr [symmetric]] "1.prems" Some lr
      by (auto simp: append_lines.simps [of exclude line] append_line_def kept_lines_def file_lines_rec [of line] split: if_splits)
  qed
qed

lemma file_lines_concat:
  assumes "\<And>l. l \<in> set ls \<Longrightarrow> newline \<notin> set l"
  shows "file_lines (concat (map (\<lambda>l. l @ [newline]) ls)) = ls @ [[]]"
  using assms by (induction ls) (auto simp: file_lines_Cons file_lines_single)

lemma kept_line_no_newline: "l \<in> set (kept_lines exclude content) \<Longrightarrow> newline \<notin> set l"
  using split_on_no_delim [of l "\<lambda>c. c = newline" content] by (auto simp: kept_lines_def file_lines_def)

lemma prefix_name_eq:
  assumes "g_str_has_prefix l (a @ '':'')" and "g_str_has_prefix l (b @ '':'')" and "CHR '':'' \<notin> set a" and "CHR '':'' \<notin> set b"
  shows "a = b"
proof -
  obtain s t where "a @ CHR '':'' # s = b @ CHR '':'' # t" using assms(1,2) by (auto simp: g_str_has_prefix_iff)
  then have "strchr (a @ CHR '':'' # s) CHR '':'' = Some (b, t)" using assms(4) by (simp add: strchr_append)
  then show ?thesis using assms(3) by (simp add: strchr_append)
qed

text \<open>Numbers have neither separator.\<close>

lemma print_nat_no_separator: "c \<in> set (print_nat 10 n) \<Longrightarrow> c \<noteq> CHR '':'' \<and> c \<noteq> newline"
  using print_nat_digits [of 10 n]
  by (auto simp: list_all_iff is_base_digit_def g_ascii_isdigit_def less_eq_char_def simp del: print_nat.simps)

lemma print_id_no_separator: "c \<in> set (print_id w) \<Longrightarrow> c \<noteq> CHR '':'' \<and> c \<noteq> newline"
  using print_nat_no_separator [of c "nat (sint w)"] print_nat_no_separator [of c "nat (- sint w)"]
  by (cases "sint w < 0") (auto simp: print_id_def decimal_def simp del: print_nat.simps)

lemma print_id_small: "unat w < 2 ^ 31 \<Longrightarrow> digits_value 10 (print_id w) = unat w" for w :: "32 word"
proof -
  assume small: "unat w < 2 ^ 31"
  have u: "uint w = int (unat w)" by simp
  have "- (2 ^ 31) \<le> uint w" by (rule order.trans [of _ 0]) simp_all
  moreover have "uint w < 2 ^ 31" unfolding u using small by (simp only: of_nat_less_numeral_power_cancel_iff)
  ultimately have "signed_take_bit 31 (uint w) = uint w" by (intro signed_take_bit_int_eq_self) simp_all
  then have s: "sint w = int (unat w)" unfolding u [symmetric] by (simp add: sint_uint)
  have "\<not> int (unat w) < 0" by simp
  then show ?thesis unfolding print_id_def decimal_def s by (simp only: if_False nat_int) (rule print_nat_value, simp_all)
qed

lemma replaced_no_separator: "c \<in> set (map replace_separator s) \<Longrightarrow> c \<noteq> CHR '':'' \<and> c \<noteq> newline"
  by (auto simp: replace_separator_def)

section \<open>What is generated\<close>

definition passwd_entry :: "passwd \<Rightarrow> string" where
  "passwd_entry pw =
     map replace_separator (pw_name pw) @ '':x:'' @ print_id (pw_uid pw) @ '':'' @ print_id (pw_gid pw) @ '':''
       @ map replace_separator (pw_gecos pw) @ '':'' @ map replace_separator (pw_dir pw) @ '':/bin/bash''"

definition group_entry_line :: "group_entry \<Rightarrow> string" where
  "group_entry_line g = map replace_separator (gr_name g) @ '':x:'' @ print_id (gr_gid g) @ '':''"

lemma passwd_line_entry: "passwd_line pw = passwd_entry pw @ [newline]"
  by (simp add: passwd_line_def passwd_entry_def append_field_def)

lemma group_line_entry: "group_line (Some g) = group_entry_line g @ [newline]"
  by (simp add: group_line_def group_entry_line_def append_field_def)

lemma passwd_entry_no_newline: "newline \<notin> set (passwd_entry pw)"
  using replaced_no_separator print_id_no_separator by (fastforce simp: passwd_entry_def)

lemma group_entry_no_newline: "newline \<notin> set (group_entry_line g)"
  using replaced_no_separator print_id_no_separator by (fastforce simp: group_entry_line_def)

text \<open>The fields of an entry.\<close>

lemma line_fields_Cons: "CHR '':'' \<notin> set f \<Longrightarrow> line_fields (f @ CHR '':'' # s) = f # line_fields s"
  unfolding line_fields_def by (intro split_on_append_delim) auto

lemma line_fields_single: "CHR '':'' \<notin> set f \<Longrightarrow> line_fields f = [f]"
  unfolding line_fields_def by (intro split_on_id) auto

lemma no_colon: "CHR '':'' \<notin> set (map replace_separator s)" "CHR '':'' \<notin> set (print_id w)"
  using replaced_no_separator print_id_no_separator by blast+

lemma passwd_entry_fields:
  "line_fields (passwd_entry pw) = [map replace_separator (pw_name pw), ''x'', print_id (pw_uid pw), print_id (pw_gid pw),
     map replace_separator (pw_gecos pw), map replace_separator (pw_dir pw), ''/bin/bash'']"
proof -
  have x: "CHR '':'' \<notin> set ''x''" "CHR '':'' \<notin> set ''/bin/bash''" by simp_all
  have "passwd_entry pw = map replace_separator (pw_name pw) @ CHR '':'' # ''x'' @ CHR '':'' # print_id (pw_uid pw) @ CHR '':'' #
      print_id (pw_gid pw) @ CHR '':'' # map replace_separator (pw_gecos pw) @ CHR '':'' # map replace_separator (pw_dir pw) @ CHR '':'' # ''/bin/bash''"
    by (simp add: passwd_entry_def)
  then show ?thesis by (simp only: line_fields_Cons no_colon x line_fields_single not_False_eq_True)
qed

lemma group_entry_fields: "line_fields (group_entry_line g) = [map replace_separator (gr_name g), ''x'', print_id (gr_gid g), []]"
proof -
  have x: "CHR '':'' \<notin> set ''x''" "CHR '':'' \<notin> set []" by simp_all
  have "group_entry_line g = map replace_separator (gr_name g) @ CHR '':'' # ''x'' @ CHR '':'' # print_id (gr_gid g) @ CHR '':'' # []"
    by (simp add: group_entry_line_def)
  then show ?thesis by (simp only: line_fields_Cons no_colon x line_fields_single not_False_eq_True)
qed

lemma exclude_passwd: "exclude_same_name (passwd_line pw) = Some (map replace_separator (pw_name pw) @ '':'')"
  using strchr_append [OF no_colon(1)] by (simp add: exclude_same_name_def passwd_line_entry passwd_entry_def)

lemma exclude_group: "exclude_same_name (group_line (Some g)) = Some (map replace_separator (gr_name g) @ '':'')"
  using strchr_append [OF no_colon(1)] by (simp add: exclude_same_name_def group_line_entry group_entry_line_def)

text \<open>The entries of a file: those of the source, with one entry in front that replaces those of the same name.\<close>

definition source_lines :: "gerror + string option \<times> string option \<Rightarrow> string list" where
  "source_lines l = (case l of Inl _ \<Rightarrow> [] | Inr (_, content) \<Rightarrow> file_lines (takeWhile (\<lambda>c. c \<noteq> CHR 0x00) (the content)))"

definition generated :: "string \<Rightarrow> gerror + string option \<times> string option \<Rightarrow> string" where
  "generated buffer l = (case l of Inl _ \<Rightarrow> buffer
     | Inr (_, content) \<Rightarrow> append_lines (exclude_same_name buffer) (takeWhile (\<lambda>c. c \<noteq> CHR 0x00) (the content)) buffer)"

lemma run_generated:
  assumes "run_state (srt_sysroot_load fuel G K source path {READABLE} False True) w = (Some l, w')"
  shows "run_state (State_Monad.bind (append_remaining_lines fuel G K buffer source path)
      (\<lambda>r. State_Monad.return (map_option (\<lambda>s. case s of Inl _ \<Rightarrow> buffer | Inr b \<Rightarrow> b) r))) w = (Some (generated buffer l), w')"
  using assms by (cases l) (auto simp: append_remaining_lines_def generated_def split: prod.splits)

lemma entry_named_Nil_line [simp]: "entry_named n [[]] = None"
  by (simp add: entry_named_def g_str_has_prefix_iff)

lemma entry_named_append: "entry_named n (xs @ ys) = (case entry_named n xs of None \<Rightarrow> entry_named n ys | Some l \<Rightarrow> Some l)"
  unfolding entry_named_def by (induction xs) auto

lemma generated_lines:
  assumes "newline \<notin> set entry" and "exclude_same_name (entry @ [newline]) = Some own" and "newline \<notin> set own"
  shows "file_lines (generated (entry @ [newline]) l) =
    entry # filter (\<lambda>x. x \<noteq> [] \<and> \<not> g_str_has_prefix x own) (source_lines l) @ [[]]"
proof (cases l)
  case (Inl e)
  then show ?thesis using assms(1) by (simp add: generated_def source_lines_def file_lines_Cons file_lines_single)
next
  case (Inr p)
  obtain r content where p: "p = (r, content)" by (cases p)
  let ?c = "takeWhile (\<lambda>c. c \<noteq> CHR 0x00) (the content)"
  have "generated (entry @ [newline]) l = entry @ newline # concat (map (\<lambda>l. l @ [newline]) (kept_lines (Some own) ?c))"
    using append_lines_kept [of "Some own" ?c "entry @ [newline]"] assms(2,3) by (simp add: generated_def Inr p)
  moreover have "file_lines (concat (map (\<lambda>l. l @ [newline]) (kept_lines (Some own) ?c))) = kept_lines (Some own) ?c @ [[]]"
    by (rule file_lines_concat) (rule kept_line_no_newline)
  ultimately show ?thesis using assms(1) by (simp add: file_lines_Cons kept_lines_def source_lines_def Inr p)
qed

lemma generated_named:
  assumes "newline \<notin> set entry" and "exclude_same_name (entry @ [newline]) = Some (own @ '':'')" and "newline \<notin> set own"
    and "CHR '':'' \<notin> set own" and "CHR '':'' \<notin> set n" and "entry = own @ CHR '':'' # rest"
  shows "entry_named n (file_lines (generated (entry @ [newline]) l)) = (if n = own then Some entry else entry_named n (source_lines l))"
proof -
  have lines: "file_lines (generated (entry @ [newline]) l) =
      entry # filter (\<lambda>x. x \<noteq> [] \<and> \<not> g_str_has_prefix x (own @ '':'')) (source_lines l) @ [[]]"
    using generated_lines [OF assms(1,2)] assms(3) by simp
  have own: "g_str_has_prefix entry (n @ '':'') = (n = own)"
    using prefix_name_eq [of entry n own] assms(4-6) by (auto simp: g_str_has_prefix_iff)
  have kept: "entry_named n (filter (\<lambda>x. x \<noteq> [] \<and> \<not> g_str_has_prefix x (own @ '':'')) ls) = entry_named n ls" if "n \<noteq> own" for ls
  proof (induction ls)
    case (Cons x ls)
    have "\<not> (g_str_has_prefix x (n @ '':'') \<and> g_str_has_prefix x (own @ '':''))"
      using prefix_name_eq [of x n own] assms(4,5) that by blast
    moreover have "\<not> g_str_has_prefix [] (n @ '':'')" by (simp add: g_str_has_prefix_iff)
    ultimately show ?case using Cons by (auto simp: entry_named_def)
  qed (simp add: entry_named_def)
  show ?thesis
  proof (cases "n = own")
    case True
    then show ?thesis using own by (simp add: lines entry_named_def)
  next
    case False
    then have "entry_named n (file_lines (generated (entry @ [newline]) l)) =
        entry_named n (filter (\<lambda>x. x \<noteq> [] \<and> \<not> g_str_has_prefix x (own @ '':'')) (source_lines l) @ [[]])"
      using own by (simp add: lines entry_named_def)
    then show ?thesis using False by (simp add: entry_named_append kept split: option.splits)
  qed
qed

lemmas generate_defs = pv_generate_etc_passwd_def pv_generate_etc_group_def Let_def

text \<open>C30: For any contents of the provider's \<open>/etc/passwd\<close>, or none: the file for the container is an entry of seven fields for
  the user, whatever the name, description and home directory contain, followed by exactly those lines of the
  provider, in their order, that are not empty and have another name; so looking a name up finds that entry or what the
  provider has. The number in the third field is that of the user if it is below \<open>2 ^ 31\<close>; from there on it is printed
  as a negative number.\<close>

theorem pv_generate_etc_passwd_entries:
  assumes "run_state (srt_sysroot_load fuel G K source ''/etc/passwd'' {READABLE} False True) w = (Some l, w')"
    and "CHR '':'' \<notin> set n"
  shows "\<exists>out entry others. run_state (pv_generate_etc_passwd fuel G K U source) w = (Some out, w')
    \<and> file_lines out = entry # others @ [[]]
    \<and> others = filter (\<lambda>x. x \<noteq> [] \<and> \<not> g_str_has_prefix x (map replace_separator (pw_name (own_passwd U)) @ '':'')) (source_lines l)
    \<and> line_fields entry = [map replace_separator (pw_name (own_passwd U)), ''x'', print_id (pw_uid (own_passwd U)),
        print_id (pw_gid (own_passwd U)), map replace_separator (pw_gecos (own_passwd U)),
        map replace_separator (pw_dir (own_passwd U)), ''/bin/bash'']
    \<and> (unat (pw_uid (own_passwd U)) < 2 ^ 31 \<longrightarrow> digits_value 10 (print_id (pw_uid (own_passwd U))) = unat (pw_uid (own_passwd U)))
    \<and> entry_named n (file_lines out) =
        (if n = map replace_separator (pw_name (own_passwd U)) then Some entry else entry_named n (source_lines l))"
proof -
  let ?pw = "own_passwd U" and ?own = "map replace_separator (pw_name (own_passwd U))"
  let ?out = "generated (passwd_line ?pw) l"
  have e: "exclude_same_name (passwd_entry ?pw @ [newline]) = Some (?own @ '':'')" "newline \<notin> set ?own" "newline \<notin> set (?own @ '':'')"
    using exclude_passwd [of ?pw] replaced_no_separator [of newline "pw_name ?pw"] by (auto simp: passwd_line_entry)
  obtain rest where rest: "passwd_entry ?pw = ?own @ CHR '':'' # rest" by (simp add: passwd_entry_def)
  have "run_state (pv_generate_etc_passwd fuel G K U source) w = (Some ?out, w')"
    using run_generated [OF assms(1)] by (simp add: generate_defs)
  moreover have "file_lines ?out = passwd_entry ?pw #
      filter (\<lambda>x. x \<noteq> [] \<and> \<not> g_str_has_prefix x (?own @ '':'')) (source_lines l) @ [[]]"
    using generated_lines [OF passwd_entry_no_newline e(1,3)] by (simp add: passwd_line_entry)
  moreover have "entry_named n (file_lines ?out) = (if n = ?own then Some (passwd_entry ?pw) else entry_named n (source_lines l))"
    using generated_named [OF passwd_entry_no_newline e(1,2) no_colon(1) assms(2) rest] by (simp add: passwd_line_entry)
  ultimately show ?thesis using passwd_entry_fields [of ?pw] print_id_small [of "pw_uid ?pw"]
    by (intro exI [of _ ?out] exI [of _ "passwd_entry ?pw"]
        exI [of _ "filter (\<lambda>x. x \<noteq> [] \<and> \<not> g_str_has_prefix x (?own @ '':'')) (source_lines l)"] conjI impI) simp_all
qed

text \<open>A user without an entry, whose name has a colon; the provider has another user of the name that is written.\<close>

definition demo_users :: user_database where
  "demo_users = \<lparr> ud_user_name = Some ''a:b'', ud_real_name = None, ud_home_dir = ''/home/ab'', ud_uid = 1000, ud_gid = 100,
     ud_getpwuid = (\<lambda>_. None), ud_getgrgid = (\<lambda>_. None) \<rparr>"

definition passwd_world :: mem_world where
  "passwd_world = \<lparr> tree = [([''etc''], Dir),
       ([''etc'', ''passwd''], Reg (''a_b:x:1:1:::'' @ [newline, newline] @ ''root:x:0:0::/root:/bin/sh'' @ [newline]))],
     table = [(3, [])], next_fd = 4 \<rparr>"

theorem pv_generate_etc_passwd_entries_witness:
  "\<exists>out entry w'. run_state (pv_generate_etc_passwd 9 glib_ref mem_kernel demo_users
        \<lparr> sr_path = ''/'', sr_fd = 3, sr_mode = MODE_NORMAL \<rparr>) passwd_world = (Some out, w')
    \<and> file_lines out = [entry, ''root:x:0:0::/root:/bin/sh'', []]
    \<and> line_fields entry = [''a_b'', ''x'', ''1000'', ''100'', ''a_b'', ''/home/ab'', ''/bin/bash'']
    \<and> entry_named ''root'' (file_lines out) = Some ''root:x:0:0::/root:/bin/sh''"
proof -
  let ?sr = "\<lparr> sr_path = ''/'', sr_fd = 3, sr_mode = MODE_NORMAL \<rparr>"
  let ?load = "run_state (srt_sysroot_load 9 glib_ref mem_kernel ?sr ''/etc/passwd'' {READABLE} False True) passwd_world"
  have "map_option source_lines (fst ?load) = Some [''a_b:x:1:1:::'', [], ''root:x:0:0::/root:/bin/sh'', []]" by code_simp
  then obtain l w' where load: "?load = (Some l, w')" and lines: "source_lines l = [''a_b:x:1:1:::'', [], ''root:x:0:0::/root:/bin/sh'', []]"
    by (cases ?load) auto
  have root: "CHR '':'' \<notin> set ''root''" by simp
  have own: "map replace_separator (pw_name (own_passwd demo_users)) = ''a_b''" "print_id (pw_uid (own_passwd demo_users)) = ''1000''"
    "print_id (pw_gid (own_passwd demo_users)) = ''100''" "map replace_separator (pw_gecos (own_passwd demo_users)) = ''a_b''"
    "map replace_separator (pw_dir (own_passwd demo_users)) = ''/home/ab''" by code_simp+
  have others: "filter (\<lambda>x. x \<noteq> [] \<and> \<not> g_str_has_prefix x (''a_b'' @ '':'')) (source_lines l) = [''root:x:0:0::/root:/bin/sh'']"
    unfolding lines by code_simp
  have "entry_named ''root'' (source_lines l) = Some ''root:x:0:0::/root:/bin/sh''" unfolding lines by code_simp
  then show ?thesis using pv_generate_etc_passwd_entries [OF load root, of demo_users] unfolding own others by auto
qed

text \<open>The same for groups; a primary group that is not known has no entry.\<close>

lemma pv_generate_etc_group_entries:
  assumes "run_state (srt_sysroot_load fuel G K source ''/etc/group'' {READABLE} False True) w = (Some l, w')"
    and "ud_getgrgid U (ud_gid U) = Some g" and "CHR '':'' \<notin> set n"
  shows "\<exists>out. run_state (pv_generate_etc_group fuel G K U source) w = (Some out, w')
    \<and> entry_named n (file_lines out) =
        (if n = map replace_separator (gr_name g) then Some (group_entry_line g) else entry_named n (source_lines l))"
proof -
  let ?own = "map replace_separator (gr_name g)"
  have e: "exclude_same_name (group_entry_line g @ [newline]) = Some (?own @ '':'')" "newline \<notin> set ?own"
    using exclude_group [of g] replaced_no_separator [of newline "gr_name g"] by (auto simp: group_line_entry)
  obtain rest where "group_entry_line g = ?own @ CHR '':'' # rest" by (simp add: group_entry_line_def)
  from generated_named [OF group_entry_no_newline e no_colon(1) assms(3) this] show ?thesis
    using run_generated [OF assms(1)] assms(2) by (auto simp: generate_defs group_line_entry)
qed

lemma pv_generate_etc_group_unknown:
  assumes "run_state (srt_sysroot_load fuel G K source ''/etc/group'' {READABLE} False True) w = (Some l, w')"
    and "ud_getgrgid U (ud_gid U) = None"
  shows "\<exists>out. run_state (pv_generate_etc_group fuel G K U source) w = (Some out, w')
    \<and> filter (\<lambda>x. x \<noteq> []) (file_lines out) = filter (\<lambda>x. x \<noteq> []) (source_lines l)"
proof -
  have "file_lines (append_lines None s []) = kept_lines None s @ [[]]" for s
    using append_lines_kept [of None s "[]"] file_lines_concat [of "kept_lines None s"] kept_line_no_newline by force
  then have "filter (\<lambda>x. x \<noteq> []) (file_lines (generated [] l)) = filter (\<lambda>x. x \<noteq> []) (source_lines l)"
    by (cases l) (auto simp: generated_def source_lines_def exclude_same_name_def kept_lines_def file_lines_single)
  then show ?thesis using run_generated [OF assms(1), of "[]"] assms(2) by (auto simp: generate_defs group_line_def)
qed

end
