(* ===== verification/Terminate.thy ===== *)
theory Terminate imports Kernel begin

text \<open>
  Terminating all child processes (\<open>steam-runtime-tools/process-manager.c\<close>): a subreaper waits for a while, then
  sends \<open>SIGTERM\<close> to the remaining children, and after a grace period \<open>SIGKILL\<close>, each time together with \<open>SIGCONT\<close>,
  until no child is left. The kernel, \<open>/proc\<close> and the main loop are the fields of the record \<open>process_calls\<close>. The loops that
  depend on the number of processes run under fuel, one unit for each \<open>waitpid\<close>, each entry of \<open>/proc\<close> and each iteration of
  the main loop; a result of \<^const>\<open>None\<close> means that it did not suffice.
\<close>

section \<open>Calls\<close>

definition EINTR :: errno where "EINTR = EOTHER 4"
definition ECHILD :: errno where "ECHILD = EOTHER 10"

definition SIGKILL :: nat where "SIGKILL = 9"
definition SIGTERM :: nat where "SIGTERM = 15"
definition SIGCONT :: nat where "SIGCONT = 18"

definition G_MAXINT :: int where "G_MAXINT = 2147483647"

text \<open>The sources of the main context. An iteration dispatches some of those that are attached, in some order.\<close>

datatype loop_source = Wait_source | Kill_source | Sigchld_source

record 'w process_calls =
  pc_wait :: "('w, int \<times> 32 word) sys"                      \<comment> \<open>\<open>wait\<close>\<close>
  pc_waitpid_nohang :: "('w, (int \<times> 32 word) option) sys"   \<comment> \<open>\<open>waitpid (-1, .., WNOHANG)\<close>; none: 0 was returned\<close>
  pc_kill :: "int \<Rightarrow> nat \<Rightarrow> ('w, unit) sys"
  pc_children :: "('w, string) io"                           \<comment> \<open>\<open>/proc/PID/task/PID/children\<close>\<close>
  pc_is_process :: "int \<Rightarrow> ('w, bool) state"                  \<comment> \<open>\<open>/proc/%d\<close> is a directory\<close>
  pc_open_proc :: "('w, unit) io"
  pc_next_entry :: "('w, (string \<times> bool) option) io"         \<comment> \<open>name, and whether it is a directory\<close>
  pc_status :: "int \<Rightarrow> ('w, string) io"                       \<comment> \<open>\<open>/proc/%d/status\<close>\<close>
  pc_getpid :: int
  pc_is_subreaper :: "('w, bool) sys"
  pc_sigchld_blocked :: "('w, bool) sys"
  pc_signalfd :: "('w, unit) sys"
  pc_iteration :: "('w, loop_source list) state"             \<comment> \<open>\<open>g_main_context_iteration\<close>\<close>
  pc_read_siginfo :: "('w, unit) state"

section \<open>The state of a termination\<close>

record termination_data =
  td_error :: "gerror option"
  td_sent_sigterm :: "int set"
  td_sent_sigkill :: "int set"
  td_sending_signal :: nat        \<comment> \<open>0, \<open>SIGTERM\<close> or \<open>SIGKILL\<close>\<close>
  td_wait_source :: bool          \<comment> \<open>whether the source is attached\<close>
  td_kill_source :: bool
  td_sigchld_source :: bool
  td_finished :: bool

definition termination_data_init :: termination_data where
  "termination_data_init = \<lparr> td_error = None, td_sent_sigterm = {}, td_sent_sigkill = {}, td_sending_signal = 0,
     td_wait_source = False, td_kill_source = False, td_sigchld_source = False, td_finished = False \<rparr>"

definition already_sent :: "termination_data \<Rightarrow> int set" where
  "already_sent data = (if td_sending_signal data = SIGKILL then td_sent_sigkill data else td_sent_sigterm data)"

definition record_sent :: "int \<Rightarrow> termination_data \<Rightarrow> termination_data" where
  "record_sent child data =
     (if td_sending_signal data = SIGKILL then data\<lparr> td_sent_sigkill := insert child (td_sent_sigkill data) \<rparr>
      else data\<lparr> td_sent_sigterm := insert child (td_sent_sigterm data) \<rparr>)"

text \<open>A signal that cannot be sent only gives a warning.\<close>

definition termination_data_signal_child :: "'w process_calls \<Rightarrow> int \<Rightarrow> termination_data \<Rightarrow> ('w, termination_data) state" where
  "termination_data_signal_child P child data =
     (if td_sending_signal data = 0 \<or> child \<in> already_sent data then State_Monad.return data
      else do {
        pc_kill P child (td_sending_signal data);
        pc_kill P child SIGCONT;
        State_Monad.return (record_sent child data) })"

text \<open>\<open>sscanf (p, "PPid: %d", ..)\<close>, at the start of each line.\<close>

definition sscanf_ppid :: "string \<Rightarrow> int option" where
  "sscanf_ppid p =
     (if g_str_has_prefix p ''PPid:''
      then map_option (\<lambda>(neg, n, _). if neg then - int n else int n) (strto_scan 10 (drop 5 p))
      else None)"

function find_ppid :: "string \<Rightarrow> int option" where
  "find_ppid p =
     (if p = [] then None
      else (case sscanf_ppid p of
          Some ppid \<Rightarrow> Some ppid
        | None \<Rightarrow> (case strchr p CHR 0x0A of None \<Rightarrow> None | Some (_, next_line) \<Rightarrow> find_ppid next_line)))"
  by pat_completeness auto
termination
  by (relation "measure length") (auto dest: strchr_SomeD)

declare find_ppid.simps [simp del]

definition termination_data_read_ppid :: "'w process_calls \<Rightarrow> int \<Rightarrow> ('w, int) io" where
  "termination_data_read_ppid P pid = do {
     r \<leftarrow> pc_status P pid;
     State_Monad.return (case r of
         Inl e \<Rightarrow> Inl e
       | Inr contents \<Rightarrow> (case find_ppid contents of None \<Rightarrow> Inl (G_IO_ERROR IO_FAILED) | Some ppid \<Rightarrow> Inr ppid)) }"

text \<open>Reaping the children that have exited: whether to go on afterwards.\<close>

fun reap :: "nat \<Rightarrow> 'w process_calls \<Rightarrow> termination_data \<Rightarrow> ('w, (bool \<times> termination_data) option) state" where
  "reap 0 P data = State_Monad.return None"
| "reap (Suc fuel) P data = do {
     r \<leftarrow> pc_waitpid_nohang P;
     (case r of
        Inl e \<Rightarrow>
          if e = EINTR then reap fuel P data
          else if e = ECHILD then State_Monad.return (Some (False, data\<lparr> td_finished := True \<rparr>))
          else State_Monad.return (Some (False, data\<lparr> td_error := Some (throw_errno e) \<rparr>))
      | Inr None \<Rightarrow> State_Monad.return (Some (True, data))
      | Inr (Some (died, _)) \<Rightarrow> reap fuel P
          (data\<lparr> td_sent_sigkill := td_sent_sigkill data - {died}, td_sent_sigterm := td_sent_sigterm data - {died} \<rparr>)) }"

text \<open>The numbers in a list of children, up to the first that is not one.\<close>

lemma strto_rest_shorter: "takeWhile P s \<noteq> [] \<Longrightarrow> length (dropWhile P s) < length s"
  by (cases s) (auto simp: less_Suc_eq_le length_dropWhile_le split: if_splits)

lemma strto_scan_shorter:
  assumes "strto_scan b p = Some (neg, n, rest)"
  shows "length rest < length p"
proof -
  let ?s1 = "dropWhile isspace p"
  define s2 where "s2 = (if ?s1 \<noteq> [] \<and> (hd ?s1 = CHR ''-'' \<or> hd ?s1 = CHR ''+'') then tl ?s1 else ?s1)"
  have "takeWhile (is_base_digit b) s2 \<noteq> []" "rest = dropWhile (is_base_digit b) s2"
    using assms by (auto simp: strto_scan_def Let_def s2_def split: if_splits)
  then have "length rest < length s2" using strto_rest_shorter [of "is_base_digit b" s2] by blast
  also have "length s2 \<le> length ?s1" by (simp add: s2_def)
  also have "\<dots> \<le> length p" by (rule length_dropWhile_le)
  finally show ?thesis .
qed

function parse_children :: "string \<Rightarrow> int list \<times> gerror option" where
  "parse_children contents =
     (let p = dropWhile g_ascii_isspace contents in
      if p = [] then ([], None)
      else (let (maybe_child, endptr) = strtoull p 10 in
        if endptr \<noteq> [] \<and> \<not> g_ascii_isspace (hd endptr) then ([], Some (G_IO_ERROR IO_FAILED))
        else if uint maybe_child > G_MAXINT then ([], Some (G_IO_ERROR IO_FAILED))
        else if length endptr < length contents
        then (let (children, e) = parse_children endptr in (uint maybe_child # children, e))
        else ([], None)))"
  by pat_completeness auto
termination
  by (relation "measure length") auto

declare parse_children.simps [simp del]

text \<open>The test for progress, which the code does not have, never fails: a number that ends where it starts is an error.\<close>

lemma parse_children_progress:
  assumes "dropWhile g_ascii_isspace contents = p" and "p \<noteq> []" and "strtoull p 10 = (maybe_child, endptr)"
    and "\<not> (endptr \<noteq> [] \<and> \<not> g_ascii_isspace (hd endptr))"
  shows "length endptr < length contents"
proof -
  have p: "\<not> g_ascii_isspace (hd p)" using assms(1,2) by (metis hd_dropWhile)
  have "length endptr < length p"
  proof (cases "strto_scan 10 p")
    case None
    then show ?thesis using assms(2-4) p by (simp add: strtoull_def)
  next
    case (Some r)
    then obtain neg n where "strto_scan 10 p = Some (neg, n, endptr)"
      using assms(3) by (cases r) (auto simp: strtoull_def)
    then show ?thesis by (rule strto_scan_shorter)
  qed
  then show ?thesis using assms(1) length_dropWhile_le [of g_ascii_isspace contents] by simp
qed

text \<open>Tasks that are only threads have no directory of their own.\<close>

fun signal_children :: "'w process_calls \<Rightarrow> int list \<Rightarrow> termination_data \<Rightarrow> ('w, termination_data) state" where
  "signal_children P [] data = State_Monad.return data"
| "signal_children P (child # children) data = do {
     d \<leftarrow> pc_is_process P child;
     data' \<leftarrow> (if d then termination_data_signal_child P child data else State_Monad.return data);
     signal_children P children data' }"

fun scan_proc :: "nat \<Rightarrow> 'w process_calls \<Rightarrow> termination_data \<Rightarrow> ('w, termination_data option) state" where
  "scan_proc 0 P data = State_Monad.return None"
| "scan_proc (Suc fuel) P data = do {
     r \<leftarrow> pc_next_entry P;
     (case r of
        Inl e \<Rightarrow> State_Monad.return (Some (data\<lparr> td_error := Some e \<rparr>))
      | Inr None \<Rightarrow> State_Monad.return (Some data)
      | Inr (Some (name, is_dir)) \<Rightarrow>
          (let (maybe_child, endptr) = strtoull name 10; child = uint maybe_child in
           if \<not> is_dir \<or> endptr \<noteq> [] then scan_proc fuel P data
           else if uint maybe_child > G_MAXINT then State_Monad.return (Some (data\<lparr> td_error := Some (G_IO_ERROR IO_FAILED) \<rparr>))
           else do {
             q \<leftarrow> termination_data_read_ppid P child;
             data' \<leftarrow> (if q = Inr (pc_getpid P) then termination_data_signal_child P child data else State_Monad.return data);
             scan_proc fuel P data' })) }"

definition signal_all :: "nat \<Rightarrow> 'w process_calls \<Rightarrow> termination_data \<Rightarrow> ('w, termination_data option) state" where
  "signal_all fuel P data = do {
     r \<leftarrow> pc_children P;
     (case r of
        Inr contents \<Rightarrow> (let (children, e) = parse_children contents in do {
          data' \<leftarrow> signal_children P children data;
          State_Monad.return (Some (case e of None \<Rightarrow> data' | Some e \<Rightarrow> data'\<lparr> td_error := Some e \<rparr>)) })
      | Inl _ \<Rightarrow> do {
          q \<leftarrow> pc_open_proc P;
          (case q of
             Inl e \<Rightarrow> State_Monad.return (Some (data\<lparr> td_error := Some e \<rparr>))
           | Inr _ \<Rightarrow> scan_proc fuel P data) }) }"

definition termination_data_refresh :: "nat \<Rightarrow> 'w process_calls \<Rightarrow> termination_data \<Rightarrow> ('w, termination_data option) state" where
  "termination_data_refresh fuel P data =
     (if td_error data \<noteq> None then State_Monad.return (Some data)
      else do {
        r \<leftarrow> reap fuel P data;
        (case r of
           None \<Rightarrow> State_Monad.return None
         | Some (go_on, data') \<Rightarrow>
             if \<not> go_on \<or> td_sending_signal data' = 0 then State_Monad.return (Some data')
             else signal_all fuel P data') })"

section \<open>Callbacks and the main loop\<close>

definition start_sending_sigterm :: "nat \<Rightarrow> 'w process_calls \<Rightarrow> termination_data \<Rightarrow> ('w, termination_data option) state" where
  "start_sending_sigterm fuel P data = do {
     r \<leftarrow> termination_data_refresh fuel P
       (if td_sending_signal data = 0 then data\<lparr> td_sending_signal := SIGTERM \<rparr> else data);
     State_Monad.return (map_option (td_wait_source_update (\<lambda>_. False)) r) }"

definition start_sending_sigkill :: "nat \<Rightarrow> 'w process_calls \<Rightarrow> termination_data \<Rightarrow> ('w, termination_data option) state" where
  "start_sending_sigkill fuel P data = do {
     r \<leftarrow> termination_data_refresh fuel P (data\<lparr> td_sending_signal := SIGKILL \<rparr>);
     State_Monad.return (map_option (td_kill_source_update (\<lambda>_. False)) r) }"

definition sigchld_cb :: "nat \<Rightarrow> 'w process_calls \<Rightarrow> termination_data \<Rightarrow> ('w, termination_data option) state" where
  "sigchld_cb fuel P data = do {
     pc_read_siginfo P;
     termination_data_refresh fuel P data }"

definition dispatch :: "nat \<Rightarrow> 'w process_calls \<Rightarrow> loop_source \<Rightarrow> termination_data \<Rightarrow> ('w, termination_data option) state" where
  "dispatch fuel P s data =
     (case s of
        Wait_source \<Rightarrow> if td_wait_source data then start_sending_sigterm fuel P data else State_Monad.return (Some data)
      | Kill_source \<Rightarrow> if td_kill_source data then start_sending_sigkill fuel P data else State_Monad.return (Some data)
      | Sigchld_source \<Rightarrow> if td_sigchld_source data then sigchld_cb fuel P data else State_Monad.return (Some data))"

fun dispatch_all :: "nat \<Rightarrow> 'w process_calls \<Rightarrow> loop_source list \<Rightarrow> termination_data \<Rightarrow> ('w, termination_data option) state" where
  "dispatch_all fuel P [] data = State_Monad.return (Some data)"
| "dispatch_all fuel P (s # ss) data = do {
     r \<leftarrow> dispatch fuel P s data;
     (case r of None \<Rightarrow> State_Monad.return None | Some data' \<Rightarrow> dispatch_all fuel P ss data') }"

definition keeps_going :: "termination_data \<Rightarrow> bool" where
  "keeps_going data = (td_error data = None \<and> \<not> td_finished data \<and>
     (td_wait_source data \<or> td_kill_source data \<or> td_sigchld_source data))"

fun terminate_loop :: "nat \<Rightarrow> nat \<Rightarrow> 'w process_calls \<Rightarrow> termination_data \<Rightarrow> ('w, termination_data option) state" where
  "terminate_loop 0 fuel P data = State_Monad.return (if keeps_going data then None else Some data)"
| "terminate_loop (Suc n) fuel P data =
     (if \<not> keeps_going data then State_Monad.return (Some data)
      else do {
        ss \<leftarrow> pc_iteration P;
        r \<leftarrow> dispatch_all fuel P ss data;
        (case r of None \<Rightarrow> State_Monad.return None | Some data' \<Rightarrow> terminate_loop n fuel P data') })"

text \<open>The first steps: with a wait and a grace period, attach a timer for \<open>SIGTERM\<close>; without a wait, send it now.\<close>

definition start_waiting :: "nat \<Rightarrow> 'w process_calls \<Rightarrow> int \<Rightarrow> int \<Rightarrow> termination_data \<Rightarrow> ('w, termination_data option) state" where
  "start_waiting fuel P wait_period grace_period data =
     (if wait_period > 0 \<and> grace_period > 0 then State_Monad.return (Some (data\<lparr> td_wait_source := True \<rparr>))
      else if grace_period > 0 then start_sending_sigterm fuel P data
      else State_Monad.return (Some data))"

definition start_grace :: "nat \<Rightarrow> 'w process_calls \<Rightarrow> int \<Rightarrow> int \<Rightarrow> termination_data \<Rightarrow> ('w, termination_data option) state" where
  "start_grace fuel P wait_period grace_period data =
     (if wait_period + grace_period > 0 then State_Monad.return (Some (data\<lparr> td_kill_source := True \<rparr>))
      else start_sending_sigkill fuel P data)"

definition terminate_children :: "nat \<Rightarrow> nat \<Rightarrow> 'w process_calls \<Rightarrow> termination_data \<Rightarrow> ('w, (gerror + unit) option) state" where
  "terminate_children n fuel P data = do {
     s \<leftarrow> pc_signalfd P;
     (case s of
        Inl e \<Rightarrow> State_Monad.return (Some (Inl (throw_errno e)))
      | Inr _ \<Rightarrow> do {
          r \<leftarrow> termination_data_refresh fuel P (data\<lparr> td_sigchld_source := True \<rparr>);
          (case r of
             None \<Rightarrow> State_Monad.return None
           | Some data' \<Rightarrow> do {
               q \<leftarrow> terminate_loop n fuel P data';
               State_Monad.return (map_option (\<lambda>d. case td_error d of Some e \<Rightarrow> Inl e | None \<Rightarrow> Inr ()) q) }) }) }"

definition start_and_terminate :: "nat \<Rightarrow> nat \<Rightarrow> 'w process_calls \<Rightarrow> int \<Rightarrow> int \<Rightarrow> ('w, (gerror + unit) option) state" where
  "start_and_terminate n fuel P wait_period grace_period = do {
     r \<leftarrow> start_waiting fuel P wait_period grace_period termination_data_init;
     (case r of
        None \<Rightarrow> State_Monad.return None
      | Some data \<Rightarrow> do {
          q \<leftarrow> start_grace fuel P wait_period grace_period data;
          (case q of None \<Rightarrow> State_Monad.return None | Some data' \<Rightarrow> terminate_children n fuel P data') }) }"

definition srt_subreaper_terminate_all_child_processes ::
    "nat \<Rightarrow> nat \<Rightarrow> 'w process_calls \<Rightarrow> int \<Rightarrow> int \<Rightarrow> ('w, (gerror + unit) option) state" where
  "srt_subreaper_terminate_all_child_processes n fuel P wait_period grace_period = do {
     s \<leftarrow> pc_is_subreaper P;
     (case s of
        Inl e \<Rightarrow> State_Monad.return (Some (Inl (throw_errno e)))
      | Inr False \<Rightarrow> State_Monad.return (Some (Inl (G_IO_ERROR IO_FAILED)))
      | Inr True \<Rightarrow> do {
          b \<leftarrow> pc_sigchld_blocked P;
          (case b of
             Inl e \<Rightarrow> State_Monad.return (Some (Inl (throw_errno e)))
           | Inr False \<Rightarrow> State_Monad.return (Some (Inl (G_IO_ERROR IO_FAILED)))
           | Inr True \<Rightarrow> start_and_terminate n fuel P wait_period grace_period) }) }"

section \<open>What is asked of the kernel\<close>

datatype process_event =
    E_wait "errno + int \<times> 32 word"
  | E_waitpid "errno + (int \<times> 32 word) option"
  | E_kill int nat "errno + unit"
  | E_is_process int bool
  | E_status int "gerror + string"
  | E_iteration "loop_source list"
  | E_spawn "gerror + int"
  | E_close fd
  | E_other

definition logged_processes :: "'w process_calls \<Rightarrow> ('w \<times> process_event list) process_calls" where
  "logged_processes P = \<lparr>
     pc_wait = log_call (pc_wait P) E_wait,
     pc_waitpid_nohang = log_call (pc_waitpid_nohang P) E_waitpid,
     pc_kill = (\<lambda>c s. log_call (pc_kill P c s) (E_kill c s)),
     pc_children = log_call (pc_children P) (\<lambda>_. E_other),
     pc_is_process = (\<lambda>c. log_call (pc_is_process P c) (E_is_process c)),
     pc_open_proc = log_call (pc_open_proc P) (\<lambda>_. E_other),
     pc_next_entry = log_call (pc_next_entry P) (\<lambda>_. E_other),
     pc_status = (\<lambda>c. log_call (pc_status P c) (E_status c)),
     pc_getpid = pc_getpid P,
     pc_is_subreaper = log_call (pc_is_subreaper P) (\<lambda>_. E_other),
     pc_sigchld_blocked = log_call (pc_sigchld_blocked P) (\<lambda>_. E_other),
     pc_signalfd = log_call (pc_signalfd P) (\<lambda>_. E_other),
     pc_iteration = log_call (pc_iteration P) E_iteration,
     pc_read_siginfo = log_call (pc_read_siginfo P) (\<lambda>_. E_other) \<rparr>"

lemma logged_processes_simps [simp]:
  "pc_wait (logged_processes P) = log_call (pc_wait P) E_wait"
  "pc_waitpid_nohang (logged_processes P) = log_call (pc_waitpid_nohang P) E_waitpid"
  "pc_kill (logged_processes P) c s = log_call (pc_kill P c s) (E_kill c s)"
  "pc_children (logged_processes P) = log_call (pc_children P) (\<lambda>_. E_other)"
  "pc_is_process (logged_processes P) c = log_call (pc_is_process P c) (E_is_process c)"
  "pc_open_proc (logged_processes P) = log_call (pc_open_proc P) (\<lambda>_. E_other)"
  "pc_next_entry (logged_processes P) = log_call (pc_next_entry P) (\<lambda>_. E_other)"
  "pc_status (logged_processes P) c = log_call (pc_status P c) (E_status c)"
  "pc_getpid (logged_processes P) = pc_getpid P"
  "pc_is_subreaper (logged_processes P) = log_call (pc_is_subreaper P) (\<lambda>_. E_other)"
  "pc_sigchld_blocked (logged_processes P) = log_call (pc_sigchld_blocked P) (\<lambda>_. E_other)"
  "pc_signalfd (logged_processes P) = log_call (pc_signalfd P) (\<lambda>_. E_other)"
  "pc_iteration (logged_processes P) = log_call (pc_iteration P) E_iteration"
  "pc_read_siginfo (logged_processes P) = log_call (pc_read_siginfo P) (\<lambda>_. E_other)"
  by (simp_all add: logged_processes_def)

lemmas signal_numbers = SIGTERM_def SIGKILL_def SIGCONT_def

text \<open>The processes that were sent a signal and have not been reaped since.\<close>

fun outstanding_step :: "nat \<Rightarrow> process_event \<Rightarrow> int set \<Rightarrow> int set" where
  "outstanding_step s (E_kill c s' q) A = (if s' = s then insert c A else A)"
| "outstanding_step s (E_waitpid (Inr (Some (c, status)))) A = A - {c}"
| "outstanding_step s e A = A"

definition outstanding :: "nat \<Rightarrow> process_event list \<Rightarrow> int set" where
  "outstanding s l = fold (outstanding_step s) l {}"

lemma outstanding_simps [simp]:
  "outstanding s [] = {}" "outstanding s (l @ [e]) = outstanding_step s e (outstanding s l)"
  by (simp_all add: outstanding_def)

definition dispatched :: "loop_source \<Rightarrow> process_event list \<Rightarrow> bool" where
  "dispatched s l = (\<exists>ss. E_iteration ss \<in> set l \<and> s \<in> set ss)"

definition kill_sent :: "process_event list \<Rightarrow> bool" where
  "kill_sent l = (\<exists>c q. E_kill c SIGKILL q \<in> set l)"

lemma dispatched_snoc [simp]: "dispatched s (l @ [e]) = (dispatched s l \<or> (\<exists>ss. e = E_iteration ss \<and> s \<in> set ss))"
  by (auto simp: dispatched_def)

lemma kill_sent_snoc [simp]: "kill_sent (l @ [e]) = (kill_sent l \<or> (\<exists>c q. e = E_kill c SIGKILL q))"
  by (auto simp: kill_sent_def)

lemma empty_log [simp]: "\<not> dispatched s []" "\<not> kill_sent []"
  by (simp_all add: dispatched_def kill_sent_def)

text \<open>When a signal may be sent, after the events \<open>pre\<close>.\<close>

definition signal_allowed :: "int \<Rightarrow> int \<Rightarrow> process_event list \<Rightarrow> int \<Rightarrow> nat \<Rightarrow> bool" where
  "signal_allowed wait_period grace_period pre c s =
     (if s = SIGTERM then grace_period > 0 \<and> (wait_period > 0 \<longrightarrow> dispatched Wait_source pre)
        \<and> c \<notin> outstanding SIGTERM pre \<and> \<not> kill_sent pre
      else if s = SIGKILL then (wait_period + grace_period > 0 \<longrightarrow> dispatched Kill_source pre) \<and> c \<notin> outstanding SIGKILL pre
      else s = SIGCONT \<and> (\<exists>pre' s' q. pre = pre' @ [E_kill c s' q] \<and> (s' = SIGTERM \<or> s' = SIGKILL)))"

text \<open>The child that an event has found, and what follows then.\<close>

fun found_child :: "int \<Rightarrow> process_event \<Rightarrow> int option" where
  "found_child self (E_is_process c True) = Some c"
| "found_child self (E_status c (Inr contents)) = (if find_ppid contents = Some self then Some c else None)"
| "found_child self e = None"

definition answered :: "process_event list \<Rightarrow> int \<Rightarrow> process_event list \<Rightarrow> bool" where
  "answered pre c suf = (\<exists>s. (s = SIGTERM \<or> s = SIGKILL) \<and> (kill_sent pre \<longrightarrow> s = SIGKILL)
     \<and> (c \<in> outstanding s pre \<or> (\<exists>q suf'. suf = E_kill c s q # suf')))"

definition protocol :: "int \<Rightarrow> int \<Rightarrow> process_event list \<Rightarrow> bool" where
  "protocol wait_period grace_period l =
     (\<forall>pre c s q suf. l = pre @ E_kill c s q # suf \<longrightarrow> signal_allowed wait_period grace_period pre c s)"

definition all_answered :: "int \<Rightarrow> process_event list \<Rightarrow> bool" where
  "all_answered self l = (\<forall>pre e c suf. l = pre @ e # suf \<and> found_child self e = Some c \<longrightarrow> answered pre c suf)"

lemma protocol_snoc:
  "protocol w g (l @ [e]) = (protocol w g l \<and> (\<forall>c s q. e = E_kill c s q \<longrightarrow> signal_allowed w g l c s))"
  unfolding protocol_def
  by (auto simp: append_eq_append_conv2 Cons_eq_append_conv append_eq_Cons_conv) (metis append.assoc append_Cons append_Nil2)+

lemma answered_append: "answered pre c suf \<Longrightarrow> answered pre c (suf @ l)"
  by (auto simp: answered_def)

lemma all_answered_snoc: "all_answered self l \<Longrightarrow> found_child self e = None \<Longrightarrow> all_answered self (l @ [e])"
  unfolding all_answered_def
  by (auto simp: append_eq_append_conv2 Cons_eq_append_conv append_eq_Cons_conv answered_append)

lemma logs_Nil [simp]: "protocol w g []" "all_answered self []"
  by (simp_all add: protocol_def all_answered_def)

section \<open>The invariant\<close>

definition good :: "int \<Rightarrow> int \<Rightarrow> int \<Rightarrow> process_event list \<Rightarrow> bool" where
  "good self w g l = (protocol w g l \<and> all_answered self l)"

text \<open>The state of the termination agrees with the log: the two tables hold the outstanding signals, and the phase
  and the timers follow the periods and what the main loop has dispatched.\<close>

definition in_phase :: "int \<Rightarrow> int \<Rightarrow> termination_data \<Rightarrow> process_event list \<Rightarrow> bool" where
  "in_phase w g data l =
     ((td_sending_signal data = 0 \<and> \<not> kill_sent l
       \<or> td_sending_signal data = SIGTERM \<and> \<not> kill_sent l \<and> g > 0 \<and> (w > 0 \<longrightarrow> dispatched Wait_source l)
       \<or> td_sending_signal data = SIGKILL \<and> (w + g > 0 \<longrightarrow> dispatched Kill_source l))
      \<and> (td_wait_source data \<longrightarrow> g > 0) \<and> (td_finished data \<longrightarrow> E_waitpid (Inl ECHILD) \<in> set l))"

definition agrees :: "int \<Rightarrow> int \<Rightarrow> int \<Rightarrow> termination_data \<Rightarrow> process_event list \<Rightarrow> bool" where
  "agrees self w g data l =
     (good self w g l \<and> in_phase w g data l
      \<and> td_sent_sigterm data = outstanding SIGTERM l \<and> td_sent_sigkill data = outstanding SIGKILL l)"

lemma agrees_good: "agrees self w g data l \<Longrightarrow> good self w g l"
  by (simp add: agrees_def)

text \<open>Events that are neither a signal, nor a child reaped, nor a child found.\<close>

fun plain_event :: "process_event \<Rightarrow> bool" where
  "plain_event (E_kill c s q) = False"
| "plain_event (E_waitpid (Inr (Some x))) = False"
| "plain_event e = True"

lemma outstanding_plain: "plain_event e \<Longrightarrow> outstanding_step s e A = A"
  by (induction s e A rule: outstanding_step.induct) auto

lemma in_phase_snoc: "in_phase w g data l \<Longrightarrow> (\<And>c s q. e = E_kill c s q \<Longrightarrow> td_sending_signal data = s \<or> s \<noteq> SIGKILL) \<Longrightarrow> in_phase w g data (l @ [e])"
  by (cases e) (auto simp: in_phase_def signal_numbers)

lemma good_plain: "good self w g l \<Longrightarrow> plain_event e \<Longrightarrow> found_child self e = None \<Longrightarrow> good self w g (l @ [e])"
  by (cases e) (auto simp: good_def protocol_snoc all_answered_snoc)

lemma agrees_plain:
  "agrees self w g data l \<Longrightarrow> plain_event e \<Longrightarrow> found_child self e = None \<Longrightarrow> agrees self w g data (l @ [e])"
  by (cases e) (auto simp: agrees_def outstanding_plain good_plain intro: in_phase_snoc)

lemma agrees_reaped:
  assumes "agrees self w g data l"
  shows "agrees self w g (data\<lparr> td_sent_sigkill := td_sent_sigkill data - {died}, td_sent_sigterm := td_sent_sigterm data - {died} \<rparr>)
     (l @ [E_waitpid (Inr (Some (died, status)))])"
  using assms by (auto simp: agrees_def good_def protocol_snoc all_answered_snoc in_phase_def)

lemma agrees_error [simp]: "agrees self w g (data\<lparr> td_error := e \<rparr>) l = agrees self w g data l"
  by (simp add: agrees_def in_phase_def)

lemma agrees_sources [simp]:
  "agrees self w g (data\<lparr> td_kill_source := b \<rparr>) l = agrees self w g data l"
  "agrees self w g (data\<lparr> td_sigchld_source := b \<rparr>) l = agrees self w g data l"
  "agrees self w g data l \<Longrightarrow> (b \<Longrightarrow> g > 0) \<Longrightarrow> agrees self w g (data\<lparr> td_wait_source := b \<rparr>) l"
  by (simp_all add: agrees_def in_phase_def)

text \<open>A child that was found: the event itself and, unless the signal is outstanding, the two signals.\<close>

lemma all_answered_found:
  assumes "all_answered self l" and "found_child self e = Some c"
    and "answered l c suf" and "\<forall>x \<in> set suf. found_child self x = None"
  shows "all_answered self (l @ e # suf)"
  unfolding all_answered_def
proof (intro allI impI, elim conjE)
  fix pre e' c' suf'
  assume l: "l @ e # suf = pre @ e' # suf'" and f: "found_child self e' = Some c'"
  from l consider (before) us where "l = pre @ e' # us" "suf' = us @ e # suf" | (here) "pre = l" "e' = e" "suf' = suf"
    | (after) "e' \<in> set suf"
    by (auto simp: append_eq_append_conv2 append_eq_Cons_conv Cons_eq_append_conv)
  then show "answered pre c' suf'"
  proof cases
    case before
    then show ?thesis using assms(1) f answered_append unfolding all_answered_def by blast
  qed (use assms f in auto)
qed

lemma in_phase_record_sent: "in_phase w g (record_sent c data) l = in_phase w g data l"
  by (simp add: in_phase_def record_sent_def)

lemma record_sent_sending: "td_sending_signal (record_sent c data) = td_sending_signal data"
  by (simp add: record_sent_def)

lemma signal_child_agrees:
  assumes "td_sending_signal data = s" and "s = SIGTERM \<or> s = SIGKILL" and "agrees self w g data l" and "c \<notin> already_sent data"
    and "found_child self e = Some c" and "plain_event e"
  shows "agrees self w g (record_sent c data) (l @ [e, E_kill c s q1, E_kill c SIGCONT q2])"
proof -
  have m: "c \<notin> outstanding s l" "s = SIGKILL \<longrightarrow> (w + g > 0 \<longrightarrow> dispatched Kill_source l)"
      "s = SIGTERM \<longrightarrow> g > 0 \<and> (w > 0 \<longrightarrow> dispatched Wait_source l) \<and> \<not> kill_sent l"
    using assms by (auto simp: agrees_def already_sent_def in_phase_def signal_numbers)
  have l: "l @ [e, E_kill c s q1, E_kill c SIGCONT q2] = ((l @ [e]) @ [E_kill c s q1]) @ [E_kill c SIGCONT q2]" by simp
  have plain: "outstanding s' (l @ [e]) = outstanding s' l" "kill_sent (l @ [e]) = kill_sent l" for s'
    using assms(6) by (cases e; auto simp: outstanding_plain)+
  have "protocol w g (l @ [e])" using assms(3,6) by (cases e) (auto simp: agrees_def good_def protocol_snoc)
  moreover have "signal_allowed w g (l @ [e]) c s"
    using m assms(2) by (auto simp: signal_allowed_def plain signal_numbers simp del: outstanding_simps kill_sent_snoc)
  ultimately have "protocol w g ((l @ [e]) @ [E_kill c s q1])" by (subst protocol_snoc) auto
  then have "protocol w g (l @ [e, E_kill c s q1, E_kill c SIGCONT q2])"
    unfolding l using assms(2) by (subst protocol_snoc) (auto simp: signal_allowed_def signal_numbers)
  moreover have "answered l c [E_kill c s q1, E_kill c SIGCONT q2]" using assms(2) m(3) by (auto simp: answered_def)
  then have "all_answered self (l @ [e, E_kill c s q1, E_kill c SIGCONT q2])"
    using assms(3,5) by (intro all_answered_found) (auto simp: agrees_def good_def)
  moreover have "in_phase w g (record_sent c data) (((l @ [e]) @ [E_kill c s q1]) @ [E_kill c SIGCONT q2])"
  proof -
    have "in_phase w g data (((l @ [e]) @ [E_kill c s q1]) @ [E_kill c SIGCONT q2])"
      by (intro in_phase_snoc) (use assms(1,3,6) in \<open>auto simp: agrees_def signal_numbers\<close>)
    then show ?thesis by (simp only: in_phase_record_sent)
  qed
  moreover have "td_sent_sigterm (record_sent c data) = outstanding SIGTERM (((l @ [e]) @ [E_kill c s q1]) @ [E_kill c SIGCONT q2])"
    "td_sent_sigkill (record_sent c data) = outstanding SIGKILL (((l @ [e]) @ [E_kill c s q1]) @ [E_kill c SIGCONT q2])"
    unfolding outstanding_simps plain [simplified] using assms(1-3) outstanding_plain [OF assms(6)]
    by (auto simp: agrees_def record_sent_def signal_numbers)
  ultimately show ?thesis by (simp add: agrees_def good_def)
qed

lemma found_not_signalled_agrees:
  assumes "agrees self w g data l" and "td_sending_signal data \<noteq> 0" and "c \<in> already_sent data"
    and "found_child self e = Some c" and "plain_event e"
  shows "agrees self w g data (l @ [e])"
proof -
  have "answered l c []"
    using assms(1-3) by (auto simp: answered_def agrees_def already_sent_def in_phase_def signal_numbers split: if_splits)
  then have "all_answered self (l @ [e])"
    using assms(1,4) all_answered_found [of self l e c "[]"] by (simp add: agrees_def good_def)
  moreover have "protocol w g (l @ [e])" using assms(1,5) by (cases e) (auto simp: agrees_def good_def protocol_snoc)
  moreover have "in_phase w g data (l @ [e])"
    using assms(1,5) by (intro in_phase_snoc) (auto simp: agrees_def)
  ultimately show ?thesis using assms(1) outstanding_plain [OF assms(5)] by (simp add: agrees_def good_def)
qed

section \<open>The operations preserve it\<close>

text \<open>The parameter \<open>b\<close> is what stays as it is: whether there is a source for \<open>SIGCHLD\<close>, and sources known to have been dispatched.\<close>

definition kept :: "bool \<times> loop_source set \<Rightarrow> termination_data \<Rightarrow> process_event list \<Rightarrow> bool" where
  "kept b data l = (td_sigchld_source data = fst b \<and> (\<forall>src \<in> snd b. dispatched src l))"

definition ok :: "int \<Rightarrow> int \<Rightarrow> int \<Rightarrow> bool \<times> loop_source set \<Rightarrow> termination_data \<Rightarrow> 'w \<times> process_event list \<Rightarrow> bool" where
  "ok self w g b data s = (agrees self w g data (snd s) \<and> kept b data (snd s))"

lemma kept_simps [simp]:
  "kept b (data\<lparr> td_error := e \<rparr>) l = kept b data l" "kept b (data\<lparr> td_finished := c \<rparr>) l = kept b data l"
  "kept b (data\<lparr> td_sent_sigkill := K, td_sent_sigterm := T \<rparr>) l = kept b data l"
  "kept b (data\<lparr> td_sending_signal := s \<rparr>) l = kept b data l" "kept b (data\<lparr> td_wait_source := c \<rparr>) l = kept b data l"
  "kept b (data\<lparr> td_kill_source := c \<rparr>) l = kept b data l" "kept b (record_sent child data) l = kept b data l"
  by (simp_all add: kept_def record_sent_def)

lemma kept_snoc: "kept b data l \<Longrightarrow> kept b data (l @ [e])"
  by (auto simp: kept_def)

lemma kept_append: "kept b data l \<Longrightarrow> kept b data (l @ l')"
  by (auto simp: kept_def dispatched_def)

definition after :: "int \<Rightarrow> int \<Rightarrow> int \<Rightarrow> bool \<times> loop_source set \<Rightarrow> termination_data option \<Rightarrow> 'w \<times> process_event list \<Rightarrow> bool" where
  "after self w g b r s = (case r of None \<Rightarrow> good self w g (snd s) | Some data \<Rightarrow> ok self w g b data s)"

lemma after_simps [simp]: "after self w g b None s = good self w g (snd s)" "after self w g b (Some data) s = ok self w g b data s"
  by (simp_all add: after_def)

lemma after_Some: "after self w g b (Some data) = ok self w g b data"
  by (rule ext) simp

lemma ok_good: "ok self w g b data s \<Longrightarrow> good self w g (snd s)"
  by (simp add: ok_def agrees_def)

lemma ok_error [simp]: "ok self w g b (data\<lparr> td_error := e \<rparr>) s = ok self w g b data s"
  by (simp add: ok_def)

lemma ok_finished: "ok self w g b data s \<Longrightarrow> E_waitpid (Inl ECHILD) \<in> set (snd s) \<Longrightarrow> ok self w g b (data\<lparr> td_finished := True \<rparr>) s"
  by (simp add: ok_def agrees_def in_phase_def)

lemma ok_call:
  "(\<And>r. plain_event (c r) \<and> found_child self (c r) = None) \<Longrightarrow> hoare (ok self w g b data) (log_call m c) (\<lambda>_. ok self w g b data)"
  by (rule hoare_log_call) (auto simp: ok_def intro!: agrees_plain kept_snoc)

lemma good_call:
  "(\<And>r. plain_event (c r) \<and> found_child self (c r) = None) \<Longrightarrow>
   hoare (\<lambda>s. good self w g (snd s)) (log_call m c) (\<lambda>_ s. good self w g (snd s))"
  by (rule hoare_log_call) (auto intro!: good_plain)

lemma reap_ok:
  "hoare (ok self w g b data) (reap fuel (logged_processes P) data)
     (\<lambda>r s. case r of None \<Rightarrow> good self w g (snd s) | Some (_, data') \<Rightarrow> ok self w g b data' s)"
proof (induction fuel arbitrary: data)
  case 0
  then show ?case by (auto intro!: hoare_rules dest: ok_good)
next
  case (Suc fuel)
  let ?reaped = "\<lambda>died. data\<lparr> td_sent_sigkill := td_sent_sigkill data - {died}, td_sent_sigterm := td_sent_sigterm data - {died} \<rparr>"
  have "hoare (ok self w g b data) (pc_waitpid_nohang (logged_processes P))
     (\<lambda>r s. case r of Inr (Some (died, _)) \<Rightarrow> ok self w g b (?reaped died) s
        | Inl e \<Rightarrow> ok self w g b data s \<and> (e = ECHILD \<longrightarrow> E_waitpid (Inl ECHILD) \<in> set (snd s)) | _ \<Rightarrow> ok self w g b data s)"
    unfolding logged_processes_simps
    by (rule hoare_log_call) (auto simp: ok_def agrees_reaped intro: agrees_plain kept_snoc split: sum.split option.split)
  then show ?case
    unfolding reap.simps
  proof (rule hoare_bind)
    fix r
    show "hoare (\<lambda>s. case r of Inr (Some (died, _)) \<Rightarrow> ok self w g b (?reaped died) s
        | Inl e \<Rightarrow> ok self w g b data s \<and> (e = ECHILD \<longrightarrow> E_waitpid (Inl ECHILD) \<in> set (snd s)) | _ \<Rightarrow> ok self w g b data s)
      (case r of
        Inl e \<Rightarrow>
          if e = EINTR then reap fuel (logged_processes P) data
          else if e = ECHILD then State_Monad.return (Some (False, data\<lparr> td_finished := True \<rparr>))
          else State_Monad.return (Some (False, data\<lparr> td_error := Some (throw_errno e) \<rparr>))
      | Inr None \<Rightarrow> State_Monad.return (Some (True, data))
      | Inr (Some (died, _)) \<Rightarrow> reap fuel (logged_processes P) (?reaped died))
     (\<lambda>r s. case r of None \<Rightarrow> good self w g (snd s) | Some (_, data') \<Rightarrow> ok self w g b data' s)"
    proof (cases r)
      case (Inl e)
      then show ?thesis by (auto intro!: hoare_rules hoare_pre [OF Suc.IH] ok_finished)
    next
      case (Inr x)
      then show ?thesis using Suc.IH by (cases x) (auto intro!: hoare_rules)
    qed
  qed
qed

text \<open>A child was found by the last event.\<close>

definition just_found :: "int \<Rightarrow> int \<Rightarrow> int \<Rightarrow> bool \<times> loop_source set \<Rightarrow> termination_data \<Rightarrow> int \<Rightarrow> 'w \<times> process_event list \<Rightarrow> bool" where
  "just_found self w g b data c s = (\<exists>l e. snd s = l @ [e] \<and> found_child self e = Some c \<and> plain_event e
     \<and> agrees self w g data l \<and> kept b data l)"

lemma signal_child_ok:
  assumes "td_sending_signal data \<noteq> 0"
  shows "hoare (just_found self w g b data c) (termination_data_signal_child (logged_processes P) c data)
     (\<lambda>data' s. ok self w g b data' s \<and> td_sending_signal data' \<noteq> 0)"
proof (rule hoareI)
  fix s data' s'
  assume "just_found self w g b data c s" and run: "run_state (termination_data_signal_child (logged_processes P) c data) s = (data', s')"
  then obtain x l e where s: "s = (x, l @ [e])" "found_child self e = Some c" "plain_event e" "agrees self w g data l"
      "kept b data l"
    unfolding just_found_def by (cases s) auto
  show "ok self w g b data' s' \<and> td_sending_signal data' \<noteq> 0"
  proof (cases "c \<in> already_sent data")
    case True
    then show ?thesis
      using run s assms found_not_signalled_agrees [OF s(4) assms True s(2,3)]
      by (auto simp: termination_data_signal_child_def ok_def kept_snoc)
  next
    case False
    then obtain q1 q2 x' where "s' = (x', l @ [e, E_kill c (td_sending_signal data) q1, E_kill c SIGCONT q2])"
        "data' = record_sent c data"
      using run s(1) assms by (auto simp: termination_data_signal_child_def run_state_bind log_call_def split: prod.splits)
    moreover have "td_sending_signal data = SIGTERM \<or> td_sending_signal data = SIGKILL"
      using s(4) assms by (auto simp: agrees_def in_phase_def)
    ultimately show ?thesis
      using signal_child_agrees [OF refl _ s(4) False s(2,3)] s(5) assms kept_append by (simp add: ok_def record_sent_sending)
  qed
qed

lemma ok_just_found:
  assumes "td_sending_signal data \<noteq> 0"
    and "\<And>r. plain_event (c r) \<and> found_child self (c r) = (if f r then Some child else None)"
  shows "hoare (ok self w g b data) (log_call m c) (\<lambda>r s. if f r then just_found self w g b data child s else ok self w g b data s)"
proof (rule hoare_log_call)
  fix x l r x'
  assume "ok self w g b data (x, l)"
  then show "if f r then just_found self w g b data child (x', l @ [c r]) else ok self w g b data (x', l @ [c r])"
    using assms(2) [of r] by (auto simp: ok_def just_found_def intro!: agrees_plain kept_snoc split: if_splits)
qed

lemma signal_children_ok:
  "td_sending_signal data \<noteq> 0 \<Longrightarrow>
   hoare (ok self w g b data) (signal_children (logged_processes P) children data) (\<lambda>data'. ok self w g b data')"
proof (induction children arbitrary: data)
  case Nil
  then show ?case by (auto intro!: hoare_rules)
next
  case (Cons child children)
  have "hoare (ok self w g b data) (pc_is_process (logged_processes P) child)
      (\<lambda>r s. if r then just_found self w g b data child s else ok self w g b data s)"
    unfolding logged_processes_simps by (rule ok_just_found [OF Cons.prems]) (auto split: bool.splits)
  moreover have "hoare (\<lambda>s. if d then just_found self w g b data child s else ok self w g b data s)
      (if d then termination_data_signal_child (logged_processes P) child data else State_Monad.return data)
      (\<lambda>data' s. ok self w g b data' s \<and> td_sending_signal data' \<noteq> 0)" for d
    using Cons.prems by (auto intro!: hoare_rules signal_child_ok simp del: neq0_conv)
  moreover have "hoare (\<lambda>s. ok self w g b data' s \<and> td_sending_signal data' \<noteq> 0)
      (signal_children (logged_processes P) children data') (\<lambda>data'. ok self w g b data')" for data'
    using Cons.IH [of data'] by (cases "td_sending_signal data' = 0") (auto elim: hoare_pre intro: hoare_false)
  ultimately show ?case unfolding signal_children.simps by (rule hoare_bind [OF _ hoare_bind])
qed

lemma scan_proc_ok:
  "td_sending_signal data \<noteq> 0 \<Longrightarrow>
   hoare (ok (pc_getpid P) w g b data) (scan_proc fuel (logged_processes P) data) (after (pc_getpid P) w g b)"
proof (induction fuel arbitrary: data)
  case 0
  then show ?case by (auto intro!: hoare_rules dest: ok_good)
next
  case (Suc fuel)
  let ?self = "pc_getpid P"
  have status: "hoare (ok ?self w g b data) (termination_data_read_ppid (logged_processes P) child)
      (\<lambda>q s. if q = Inr ?self then just_found ?self w g b data child s else ok ?self w g b data s)" for child
    unfolding termination_data_read_ppid_def logged_processes_simps
    by (rule hoare_wrap [OF ok_just_found [OF Suc.prems,
          where f = "\<lambda>r. case r of Inr contents \<Rightarrow> find_ppid contents = Some ?self | _ \<Rightarrow> False" and child = child]])
      (auto split: sum.splits option.splits if_splits)
  have signal: "hoare (\<lambda>s. if q = Inr ?self then just_found ?self w g b data child s else ok ?self w g b data s)
      (if q = Inr ?self then termination_data_signal_child (logged_processes P) child data else State_Monad.return data)
      (\<lambda>data' s. ok ?self w g b data' s \<and> td_sending_signal data' \<noteq> 0)" for q :: "gerror + int" and child
    using Suc.prems by (auto intro!: hoare_rules signal_child_ok simp del: neq0_conv)
  have again: "hoare (\<lambda>s. ok ?self w g b data' s \<and> td_sending_signal data' \<noteq> 0)
      (scan_proc fuel (logged_processes P) data') (after ?self w g b)" for data'
    using Suc.IH [of data'] by (cases "td_sending_signal data' = 0") (auto elim: hoare_pre intro: hoare_false)
  have body: "hoare (ok ?self w g b data)
      (do { q \<leftarrow> termination_data_read_ppid (logged_processes P) child;
            data' \<leftarrow> (if q = Inr ?self then termination_data_signal_child (logged_processes P) child data else State_Monad.return data);
            scan_proc fuel (logged_processes P) data' }) (after ?self w g b)" for child
    by (rule hoare_bind [OF status hoare_bind [OF signal again]])
  show ?case
    unfolding scan_proc.simps
  proof (rule hoare_bind [where R = "\<lambda>_. ok ?self w g b data"], goal_cases)
    case 1
    show ?case unfolding logged_processes_simps by (rule ok_call) simp
  next
    case (2 r)
    show ?case
      using body Suc.IH [OF Suc.prems] by (auto simp: Let_def split: sum.split option.split prod.split intro!: hoare_rules)
  qed
qed

lemma signal_all_ok:
  assumes "td_sending_signal data \<noteq> 0"
  shows "hoare (ok (pc_getpid P) w g b data) (signal_all fuel (logged_processes P) data) (after (pc_getpid P) w g b)"
  unfolding signal_all_def
proof (rule hoare_bind [where R = "\<lambda>_. ok (pc_getpid P) w g b data"], goal_cases)
  case 1
  show ?case unfolding logged_processes_simps by (rule ok_call) simp
next
  case (2 r)
  have listed: "hoare (ok (pc_getpid P) w g b data)
      (do { data' \<leftarrow> signal_children (logged_processes P) children data;
            State_Monad.return (Some (case e of None \<Rightarrow> data' | Some e \<Rightarrow> data'\<lparr> td_error := Some e \<rparr>)) })
      (after (pc_getpid P) w g b)" for children e
    by (rule hoare_wrap [OF signal_children_ok [OF assms]]) (auto split: option.split)
  have scanned: "hoare (ok (pc_getpid P) w g b data)
      (do { q \<leftarrow> pc_open_proc (logged_processes P);
            (case q of Inl e \<Rightarrow> State_Monad.return (Some (data\<lparr> td_error := Some e \<rparr>)) | Inr _ \<Rightarrow> scan_proc fuel (logged_processes P) data) })
      (after (pc_getpid P) w g b)"
    unfolding logged_processes_simps
    by (rule hoare_bind [OF ok_call]) (auto intro!: hoare_rules scan_proc_ok [OF assms] split: sum.split)
  show ?case using listed scanned by (cases r) (auto split: prod.split)
qed

lemma refresh_ok:
  "hoare (ok (pc_getpid P) w g b data) (termination_data_refresh fuel (logged_processes P) data) (after (pc_getpid P) w g b)"
proof (cases "td_error data = None")
  case False
  then show ?thesis by (auto simp: termination_data_refresh_def intro!: hoare_rules)
next
  case True
  then show ?thesis
    unfolding termination_data_refresh_def
    by (auto intro!: hoare_bind [OF reap_ok] hoare_rules signal_all_ok simp del: neq0_conv split: option.split prod.split)
qed

lemma hoare_after_map:
  fixes m :: "('w \<times> process_event list, termination_data option) state"
  shows "hoare P m (after self w g b) \<Longrightarrow> (\<And>data (s :: 'w \<times> process_event list). ok self w g b data s \<Longrightarrow> ok self w g b (f data) s) \<Longrightarrow>
   hoare P (do { r \<leftarrow> m; State_Monad.return (map_option f r) }) (after self w g b)"
  by (erule hoare_wrap) (auto simp: after_def split: option.splits)

lemma hoare_after_bind:
  "hoare P m (after self w g b) \<Longrightarrow> (\<And>data. hoare (ok self w g b data) (f data) (after self w g b')) \<Longrightarrow>
   hoare P (do { r \<leftarrow> m; (case r of None \<Rightarrow> State_Monad.return None | Some data \<Rightarrow> f data) }) (after self w g b')"
  by (erule hoare_bind) (auto simp: after_Some intro!: hoare_return split: option.split)

lemma start_sending_sigterm_ok:
  "hoare (\<lambda>s. ok (pc_getpid P) w g b data s \<and> g > 0 \<and> (w > 0 \<longrightarrow> dispatched Wait_source (snd s)))
     (start_sending_sigterm fuel (logged_processes P) data) (after (pc_getpid P) w g b)"
  unfolding start_sending_sigterm_def
proof (rule hoare_after_map, goal_cases)
  case 1
  show ?case by (rule hoare_pre [OF refresh_ok]) (auto simp: ok_def agrees_def in_phase_def signal_numbers)
next
  case (2 data s)
  then show ?case by (simp add: ok_def)
qed

lemma start_sending_sigkill_ok:
  "hoare (\<lambda>s. ok (pc_getpid P) w g b data s \<and> (w + g > 0 \<longrightarrow> dispatched Kill_source (snd s)))
     (start_sending_sigkill fuel (logged_processes P) data) (after (pc_getpid P) w g b)"
  unfolding start_sending_sigkill_def
proof (rule hoare_after_map, goal_cases)
  case 1
  show ?case by (rule hoare_pre [OF refresh_ok]) (auto simp: ok_def agrees_def in_phase_def signal_numbers)
next
  case (2 data s)
  then show ?case by (simp add: ok_def)
qed

lemma sigchld_cb_ok:
  "hoare (ok (pc_getpid P) w g b data) (sigchld_cb fuel (logged_processes P) data) (after (pc_getpid P) w g b)"
  unfolding sigchld_cb_def logged_processes_simps by (rule hoare_bind [OF ok_call refresh_ok]) simp

lemma dispatch_ok:
  "hoare (\<lambda>x. ok (pc_getpid P) w g b data x \<and> dispatched s (snd x)) (dispatch fuel (logged_processes P) s data)
     (after (pc_getpid P) w g b)"
proof (cases s)
  case Wait_source
  then show ?thesis
    by (auto simp: dispatch_def ok_def agrees_def in_phase_def intro!: hoare_rules hoare_pre [OF start_sending_sigterm_ok])
next
  case Kill_source
  then show ?thesis by (auto simp: dispatch_def intro!: hoare_rules hoare_pre [OF start_sending_sigkill_ok])
next
  case Sigchld_source
  then show ?thesis by (auto simp: dispatch_def intro!: hoare_rules hoare_pre [OF sigchld_cb_ok])
qed

lemma dispatch_all_ok:
  "hoare (\<lambda>x. ok (pc_getpid P) w g b data x \<and> (\<forall>s \<in> set ss. dispatched s (snd x)))
     (dispatch_all fuel (logged_processes P) ss data) (after (pc_getpid P) w g b)"
proof -
  have "set ss \<subseteq> D \<Longrightarrow> hoare (ok (pc_getpid P) w g (c, D) data) (dispatch_all fuel (logged_processes P) ss data)
      (after (pc_getpid P) w g (c, D))" for c D
  proof (induction ss arbitrary: data)
    case Nil
    then show ?case by (auto intro!: hoare_rules)
  next
    case (Cons s ss)
    have "hoare (ok (pc_getpid P) w g (c, D) data) (dispatch fuel (logged_processes P) s data) (after (pc_getpid P) w g (c, D))"
      by (rule hoare_pre [OF dispatch_ok]) (use Cons.prems in \<open>auto simp: ok_def kept_def\<close>)
    then show ?case unfolding dispatch_all.simps by (rule hoare_after_bind) (use Cons in auto)
  qed
  from this [of "set ss \<union> snd b" "fst b"] show ?thesis
    by (auto elim!: hoare_weaken simp: ok_def kept_def after_def split: option.splits)
qed

lemma terminate_loop_ok:
  "hoare (ok (pc_getpid P) w g b data) (terminate_loop n fuel (logged_processes P) data)
     (\<lambda>r s. after (pc_getpid P) w g b r s \<and> (\<forall>data'. r = Some data' \<longrightarrow> \<not> keeps_going data'))"
proof (induction n arbitrary: data)
  case 0
  then show ?case by (auto intro!: hoare_rules dest: ok_good)
next
  case (Suc n)
  have iteration: "hoare (ok (pc_getpid P) w g b data) (pc_iteration (logged_processes P))
      (\<lambda>ss x. ok (pc_getpid P) w g b data x \<and> (\<forall>s \<in> set ss. dispatched s (snd x)))"
    unfolding logged_processes_simps by (rule hoare_log_call) (auto simp: ok_def intro!: agrees_plain kept_snoc)
  show ?case
    by (auto intro!: hoare_rules hoare_bind [OF iteration] hoare_bind [OF dispatch_all_ok] Suc.IH
      simp: after_Some simp del: logged_processes_simps split: option.split)
qed

lemma terminate_children_ok:
  "hoare (ok (pc_getpid P) w g (b, D) data) (terminate_children n fuel (logged_processes P) data)
     (\<lambda>r s. good (pc_getpid P) w g (snd s) \<and> (r = Some (Inr ()) \<longrightarrow> E_waitpid (Inl ECHILD) \<in> set (snd s)))"
  unfolding terminate_children_def logged_processes_simps
proof (rule hoare_bind [OF ok_call], simp, rule hoare_sum, goal_cases)
  case (1 r e)
  then show ?case by (auto intro!: hoare_rules dest: ok_good)
next
  case (2 r u)
  have "hoare (ok (pc_getpid P) w g (b, D) data) (termination_data_refresh fuel (logged_processes P) (data\<lparr> td_sigchld_source := True \<rparr>))
      (after (pc_getpid P) w g (True, D))"
    by (rule hoare_pre [OF refresh_ok]) (auto simp: ok_def kept_def)
  moreover have "hoare (ok (pc_getpid P) w g (True, D) data')
      (do { q \<leftarrow> terminate_loop n fuel (logged_processes P) data';
            State_Monad.return (map_option (\<lambda>d. case td_error d of Some e \<Rightarrow> Inl e | None \<Rightarrow> Inr ()) q) })
      (\<lambda>r s. good (pc_getpid P) w g (snd s) \<and> (r = Some (Inr ()) \<longrightarrow> E_waitpid (Inl ECHILD) \<in> set (snd s)))" for data'
    by (rule hoare_wrap [OF terminate_loop_ok])
      (auto simp: after_def ok_def kept_def keeps_going_def agrees_def in_phase_def split: option.splits)
  ultimately show ?case
    by (auto intro!: hoare_rules elim!: hoare_bind simp: after_Some split: option.split)
qed

lemma start_waiting_ok:
  "hoare (ok (pc_getpid P) w g b data) (start_waiting fuel (logged_processes P) w g data) (after (pc_getpid P) w g b)"
  unfolding start_waiting_def
  by (auto intro!: hoare_rules hoare_pre [OF start_sending_sigterm_ok] simp: ok_def)

lemma start_grace_ok:
  "hoare (ok (pc_getpid P) w g b data) (start_grace fuel (logged_processes P) w g data) (after (pc_getpid P) w g b)"
  unfolding start_grace_def
  by (auto intro!: hoare_rules hoare_pre [OF start_sending_sigkill_ok] simp: ok_def)

lemma start_and_terminate_ok:
  "hoare (ok (pc_getpid P) w g (b, D) termination_data_init) (start_and_terminate n fuel (logged_processes P) w g)
     (\<lambda>r s. good (pc_getpid P) w g (snd s) \<and> (r = Some (Inr ()) \<longrightarrow> E_waitpid (Inl ECHILD) \<in> set (snd s)))"
proof -
  have "hoare (ok (pc_getpid P) w g (b, D) data)
      (do { q \<leftarrow> start_grace fuel (logged_processes P) w g data;
            (case q of None \<Rightarrow> State_Monad.return None | Some data' \<Rightarrow> terminate_children n fuel (logged_processes P) data') })
      (\<lambda>r s. good (pc_getpid P) w g (snd s) \<and> (r = Some (Inr ()) \<longrightarrow> E_waitpid (Inl ECHILD) \<in> set (snd s)))" for data
    by (rule hoare_bind [OF start_grace_ok])
      (auto intro!: hoare_return terminate_children_ok simp: after_Some split: option.split)
  then show ?thesis
    unfolding start_and_terminate_def
    by (intro hoare_bind [OF start_waiting_ok]) (auto intro!: hoare_return simp: after_Some split: option.split)
qed

lemma terminate_good:
  assumes "run_state (srt_subreaper_terminate_all_child_processes n fuel (logged_processes P) w g) (x, []) = (r, (x', l))"
  shows "good (pc_getpid P) w g l \<and> (r = Some (Inr ()) \<longrightarrow> E_waitpid (Inl ECHILD) \<in> set l)"
proof -
  let ?ok = "ok (pc_getpid P) w g (False, {}) termination_data_init :: _ \<times> process_event list \<Rightarrow> bool"
  have "hoare ?ok (srt_subreaper_terminate_all_child_processes n fuel (logged_processes P) w g)
      (\<lambda>r s. good (pc_getpid P) w g (snd s) \<and> (r = Some (Inr ()) \<longrightarrow> E_waitpid (Inl ECHILD) \<in> set (snd s)))"
    unfolding srt_subreaper_terminate_all_child_processes_def logged_processes_simps
    by (intro hoare_bind [OF ok_call])
      (auto intro!: hoare_return hoare_bind [OF ok_call] start_and_terminate_ok dest: ok_good split: sum.split bool.split)
  moreover have "?ok (x, [])"
    by (simp add: ok_def agrees_def good_def in_phase_def kept_def termination_data_init_def)
  ultimately show ?thesis using assms by (auto dest: hoareD)
qed

text \<open>What a termination adds to the log does not depend on what was there.\<close>

lemma frames_signal_child [frame_rules]: "frames (termination_data_signal_child (logged_processes P) c data)"
  unfolding termination_data_signal_child_def logged_processes_simps by (intro frame_rules)

lemma frames_reap [frame_rules]: "frames (reap fuel (logged_processes P) data)"
  by (induction fuel arbitrary: data) (auto intro!: frame_rules)

lemma frames_signal_children [frame_rules]: "frames (signal_children (logged_processes P) children data)"
  by (induction children arbitrary: data) (auto intro!: frame_rules)

lemma frames_scan_proc [frame_rules]: "frames (scan_proc fuel (logged_processes P) data)"
  by (induction fuel arbitrary: data) (auto intro!: frame_rules simp: Let_def termination_data_read_ppid_def)

lemma frames_refresh [frame_rules]: "frames (termination_data_refresh fuel (logged_processes P) data)"
  unfolding termination_data_refresh_def signal_all_def by (auto intro!: frame_rules)

lemma frames_dispatch [frame_rules]: "frames (dispatch fuel (logged_processes P) s data)"
  by (cases s) (auto simp: dispatch_def start_sending_sigterm_def start_sending_sigkill_def sigchld_cb_def intro!: frame_rules)

lemma frames_dispatch_all [frame_rules]: "frames (dispatch_all fuel (logged_processes P) ss data)"
  by (induction ss arbitrary: data) (auto intro!: frame_rules)

lemma frames_terminate_loop [frame_rules]: "frames (terminate_loop n fuel (logged_processes P) data)"
  by (induction n arbitrary: data) (auto intro!: frame_rules)

lemma frames_terminate:
  "frames (srt_subreaper_terminate_all_child_processes n fuel (logged_processes P) w g)"
  unfolding srt_subreaper_terminate_all_child_processes_def start_and_terminate_def start_waiting_def start_grace_def
    terminate_children_def start_sending_sigterm_def start_sending_sigkill_def
  by (auto intro!: frame_rules split: sum.split bool.split)

section \<open>What holds of a termination\<close>

text \<open>C24: Whatever the kernel and the main loop do: \<open>SIGTERM\<close> is only sent when there is a grace period and the wait period
  is over, never after a \<open>SIGKILL\<close>; \<open>SIGKILL\<close> only when both periods are over; \<open>SIGCONT\<close> only right after one of them, to the
  same process; no process is sent a signal again before it was reaped, and no other signal is sent. Success is only
  returned when the kernel has said that no child is left.\<close>

theorem terminate_signal_protocol:
  assumes "run_state (srt_subreaper_terminate_all_child_processes n fuel (logged_processes P) wait_period grace_period) (w, []) = (r, (w', l))"
  shows "(\<forall>pre c s q suf. l = pre @ E_kill c s q # suf \<longrightarrow> signal_allowed wait_period grace_period pre c s)
    \<and> (r = Some (Inr ()) \<longrightarrow> E_waitpid (Inl ECHILD) \<in> set l)"
  using terminate_good [OF assms] by (simp add: good_def protocol_def)

text \<open>C25: No child is forgotten: whenever a task of the list of children turns out to be a process, or a process in \<open>/proc\<close>
  turns out to be a child, then \<open>SIGTERM\<close> or \<open>SIGKILL\<close> has been sent to it since a process of that number was last reaped,
  or it is sent next; and once \<open>SIGKILL\<close> has been sent to any process, it is \<open>SIGKILL\<close>.\<close>

theorem terminate_signals_children:
  assumes "run_state (srt_subreaper_terminate_all_child_processes n fuel (logged_processes P) wait_period grace_period) (w, []) = (r, (w', l))"
    and "l = pre @ e # suf" and "found_child (pc_getpid P) e = Some c"
  shows "\<exists>s. (s = SIGTERM \<or> s = SIGKILL) \<and> (kill_sent pre \<longrightarrow> s = SIGKILL)
    \<and> (c \<in> outstanding s pre \<or> (\<exists>q suf'. suf = E_kill c s q # suf'))"
  using terminate_good [OF assms(1)] assms(2,3) by (auto simp: good_def all_answered_def answered_def)

section \<open>Sample runs\<close>

text \<open>For evaluation: the bound as a binary number.\<close>

lemma strtoull_code [code]:
  "strtoull s b =
     (case strto_scan b s of
        None \<Rightarrow> (0, s)
      | Some (neg, n, rest) \<Rightarrow>
          (if int n \<ge> 18446744073709551616 then - 1 else if neg then - of_int (int n) else of_int (int n), rest))"
  by (auto simp: strtoull_def split: option.split)

text \<open>A kernel whose processes die from \<open>SIGKILL\<close>, those with an even number from \<open>SIGTERM\<close> too; a thread 3 is in every list of
  children. The main loop lets time pass.\<close>

record demo_children =
  dc_alive :: "int list"
  dc_dead :: "int list"
  dc_time :: nat

definition demo_kill :: "int \<Rightarrow> nat \<Rightarrow> demo_children \<Rightarrow> demo_children" where
  "demo_kill c s k = (if c \<in> set (dc_alive k) \<and> (s = SIGKILL \<or> s = SIGTERM \<and> even c)
     then k\<lparr> dc_alive := removeAll c (dc_alive k), dc_dead := dc_dead k @ [c] \<rparr> else k)"

definition demo_processes :: "demo_children process_calls" where
  "demo_processes = \<lparr>
     pc_wait = State_Monad.return (Inl ECHILD),
     pc_waitpid_nohang = State (\<lambda>k. case dc_dead k of c # cs \<Rightarrow> (Inr (Some (c, 0)), k\<lparr> dc_dead := cs \<rparr>)
        | [] \<Rightarrow> (if dc_alive k = [] then Inl ECHILD else Inr None, k)),
     pc_kill = (\<lambda>c s. State (\<lambda>k. (Inr (), demo_kill c s k))),
     pc_children = State (\<lambda>k. (Inr (concat (map (\<lambda>c. decimal c @ '' '') (3 # dc_alive k))), k)),
     pc_is_process = (\<lambda>c. State (\<lambda>k. (c \<noteq> 3, k))),
     pc_open_proc = State_Monad.return (Inr ()),
     pc_next_entry = State_Monad.return (Inr None),
     pc_status = (\<lambda>c. State_Monad.return (Inr ''PPid: 1'')),
     pc_getpid = 2,
     pc_is_subreaper = State_Monad.return (Inr True),
     pc_sigchld_blocked = State_Monad.return (Inr True),
     pc_signalfd = State_Monad.return (Inr ()),
     pc_iteration = State (\<lambda>k. (if dc_time k = 0 then [Wait_source] else if dc_time k = 2 then [Kill_source] else [Sigchld_source],
        k\<lparr> dc_time := dc_time k + 1 \<rparr>)),
     pc_read_siginfo = State_Monad.return () \<rparr>"

definition demo_run :: "(gerror + unit) option \<times> demo_children \<times> process_event list" where
  "demo_run = run_state (srt_subreaper_terminate_all_child_processes 10 10 (logged_processes demo_processes) 1000 5000)
     (\<lparr> dc_alive = [4, 5], dc_dead = [], dc_time = 0 \<rparr>, [])"

definition is_kill :: "process_event \<Rightarrow> (int \<times> nat) option" where
  "is_kill e = (case e of E_kill c s q \<Rightarrow> Some (c, s) | _ \<Rightarrow> None)"

lemma demo_run_result:
  "fst demo_run = Some (Inr ())"
  "List.map_filter is_kill (snd (snd demo_run)) = [(4, 15), (4, 18), (5, 15), (5, 18), (5, 9), (5, 18)]"
  by code_simp+

lemma demo_run_found: "found_child 2 (snd (snd demo_run) ! 20) = Some 5" "length (snd (snd demo_run)) > 20"
  by code_simp+

theorem terminate_signal_protocol_witness:
  "\<exists>w' l pre q suf. demo_run = (Some (Inr ()), (w', l)) \<and> E_waitpid (Inl ECHILD) \<in> set l
     \<and> l = pre @ E_kill 5 SIGKILL q # suf \<and> signal_allowed 1000 5000 pre 5 SIGKILL"
proof -
  obtain w' l where run: "demo_run = (Some (Inr ()), (w', l))" using demo_run_result(1) by (metis prod.collapse)
  have "(5, 9) \<in> set (List.map_filter is_kill l)" using demo_run_result(2) unfolding run by simp
  then obtain e where e: "e \<in> set l" "is_kill e = Some (5, 9)" by (auto simp: map_filter_def)
  from e(2) have "\<exists>q. e = E_kill 5 SIGKILL q" by (cases e) (auto simp: is_kill_def SIGKILL_def)
  then obtain q where "E_kill 5 SIGKILL q \<in> set l" using e(1) by blast
  then obtain pre suf where l: "l = pre @ E_kill 5 SIGKILL q # suf" by (meson split_list)
  from terminate_signal_protocol [OF run [unfolded demo_run_def]] l
  have "E_waitpid (Inl ECHILD) \<in> set l" "signal_allowed 1000 5000 pre 5 SIGKILL" by simp_all
  then show ?thesis using run l by blast
qed

theorem terminate_signals_children_witness:
  "\<exists>r w' l e s. demo_run = (r, (w', l)) \<and> e = l ! 20 \<and> found_child 2 e = Some 5 \<and> (s = SIGTERM \<or> s = SIGKILL)
     \<and> (5 \<in> outstanding s (take 20 l) \<or> (\<exists>q suf'. drop 21 l = E_kill 5 s q # suf'))"
proof -
  obtain r w' l where run: "demo_run = (r, (w', l))" by (metis surj_pair)
  have "length l > 20" using demo_run_found(2) unfolding run by simp
  then have l: "l = take 20 l @ l ! 20 # drop 21 l" using id_take_nth_drop [of 20 l] by simp
  have self: "pc_getpid demo_processes = 2" by (simp add: demo_processes_def)
  have found: "found_child 2 (l ! 20) = Some 5" using demo_run_found(1) unfolding run by simp
  from terminate_signals_children [OF run [unfolded demo_run_def] l, unfolded self, OF found] run found
  show ?thesis by blast
qed

end
