(* ===== verification/FileLock.thy ===== *)
theory FileLock imports Kernel begin

text \<open>
  Locks on files that are compatible with those of bubblewrap and Flatpak (\<open>steam-runtime-tools/file-lock.c\<close>). The calls
  are fields of the record \<open>lock_calls\<close>; \<open>logged_locks\<close> records them, and what is proved holds for any answers.
\<close>

section \<open>Locks\<close>

text \<open>Error numbers without a name of their own in \<open>Kernel\<close>.\<close>

definition EAGAIN :: errno where "EAGAIN = EOTHER 11"

datatype file_lock_flag = SRT_FILE_LOCK_FLAGS_CREATE | SRT_FILE_LOCK_FLAGS_WAIT | SRT_FILE_LOCK_FLAGS_VERBOSE
  | SRT_FILE_LOCK_FLAGS_EXCLUSIVE | SRT_FILE_LOCK_FLAGS_PROCESS_ORIENTED | SRT_FILE_LOCK_FLAGS_REQUIRE_OFD

record 'w lock_calls =
  lk_openat :: "fd \<Rightarrow> string \<Rightarrow> open_flag set \<Rightarrow> ('w, nat) sys"
  lk_setlk :: "fd \<Rightarrow> lock_cmd \<Rightarrow> lock_type \<Rightarrow> ('w, unit) sys"    \<comment> \<open>\<open>fcntl\<close>, for the whole file\<close>
  lk_close :: "fd \<Rightarrow> ('w, unit) state"

record file_lock =
  fl_fd :: fd
  fl_is_ofd :: bool

definition lock_type_of :: "file_lock_flag set \<Rightarrow> lock_type" where
  "lock_type_of flags = (if SRT_FILE_LOCK_FLAGS_EXCLUSIVE \<in> flags then F_WRLCK else F_RDLCK)"

definition lock_cmd_of :: "file_lock_flag set \<Rightarrow> bool \<Rightarrow> lock_cmd" where
  "lock_cmd_of flags ofd =
     (if ofd then (if SRT_FILE_LOCK_FLAGS_WAIT \<in> flags then F_OFD_SETLKW else F_OFD_SETLK)
      else (if SRT_FILE_LOCK_FLAGS_WAIT \<in> flags then F_SETLKW else F_SETLK))"

text \<open>The loop, over the values of \<open>ofd\<close>.\<close>

fun acquire_loop :: "'w lock_calls \<Rightarrow> fd \<Rightarrow> file_lock_flag set \<Rightarrow> bool list \<Rightarrow> ('w, bool) io" where
  "acquire_loop L fd flags [] = State_Monad.return (Inl PRECONDITION_FAILED)"
| "acquire_loop L fd flags (ofd # rest) = do {
     r \<leftarrow> lk_setlk L fd (lock_cmd_of flags ofd) (lock_type_of flags);
     (case r of
        Inr _ \<Rightarrow> State_Monad.return (Inr ofd)
      | Inl e \<Rightarrow>
          if e = EINVAL \<and> ofd \<and> SRT_FILE_LOCK_FLAGS_REQUIRE_OFD \<notin> flags then acquire_loop L fd flags rest
          else if e = EACCES \<or> e = EAGAIN then State_Monad.return (Inl (G_IO_ERROR IO_BUSY))
          else State_Monad.return (Inl (throw_errno e))) }"

definition srt_file_lock_acquire :: "'w lock_calls \<Rightarrow> fd \<Rightarrow> file_lock_flag set \<Rightarrow> ('w, bool) io" where
  "srt_file_lock_acquire L fd flags =
     acquire_loop L fd flags (if SRT_FILE_LOCK_FLAGS_PROCESS_ORIENTED \<in> flags then [False] else [True, False])"

text \<open>\<^const>\<open>None\<close> is the null pointer that a failed precondition returns.\<close>

definition srt_file_lock_new_take :: "fd \<Rightarrow> bool \<Rightarrow> file_lock option" where
  "srt_file_lock_new_take fd is_ofd = (if \<not> fd \<ge> 0 then None else Some \<lparr> fl_fd = fd, fl_is_ofd = is_ofd \<rparr>)"

definition lock_open_flags :: "file_lock_flag set \<Rightarrow> open_flag set" where
  "lock_open_flags flags = {O_CLOEXEC, O_NOCTTY} \<union>
     (if SRT_FILE_LOCK_FLAGS_CREATE \<in> flags then {O_RDWR, O_CREAT}
      else if SRT_FILE_LOCK_FLAGS_EXCLUSIVE \<in> flags then {O_RDWR} else {O_RDONLY})"

text \<open>A verbose lock that may wait is first tried without waiting.\<close>

definition acquire_verbosely :: "'w lock_calls \<Rightarrow> fd \<Rightarrow> file_lock_flag set \<Rightarrow> ('w, bool) io" where
  "acquire_verbosely L fd flags =
     (if {SRT_FILE_LOCK_FLAGS_WAIT, SRT_FILE_LOCK_FLAGS_VERBOSE} \<subseteq> flags then do {
        r \<leftarrow> srt_file_lock_acquire L fd (flags - {SRT_FILE_LOCK_FLAGS_WAIT});
        (if r = Inl (G_IO_ERROR IO_BUSY) then srt_file_lock_acquire L fd flags else State_Monad.return r) }
      else srt_file_lock_acquire L fd flags)"

definition srt_file_lock_new :: "'w lock_calls \<Rightarrow> fd \<Rightarrow> string \<Rightarrow> file_lock_flag set \<Rightarrow> ('w, file_lock) io" where
  "srt_file_lock_new L at_fd path flags =
     (if {SRT_FILE_LOCK_FLAGS_PROCESS_ORIENTED, SRT_FILE_LOCK_FLAGS_REQUIRE_OFD} \<subseteq> flags
      then State_Monad.return (Inl PRECONDITION_FAILED)
      else do {
        r \<leftarrow> lk_openat L (glnx_dirfd_canonicalize at_fd) path (lock_open_flags flags);
        (case r of
           Inl e \<Rightarrow> State_Monad.return (Inl (throw_errno e))
         | Inr n \<Rightarrow> do {
             a \<leftarrow> acquire_verbosely L (int n) flags;
             (case a of
                Inl e \<Rightarrow> do { lk_close L (int n); State_Monad.return (Inl e) }
              | Inr ofd \<Rightarrow> State_Monad.return
                  (case srt_file_lock_new_take (int n) ofd of None \<Rightarrow> Inl PRECONDITION_FAILED | Some lock \<Rightarrow> Inr lock)) }) })"

text \<open>Closing the descriptor releases the lock.\<close>

definition srt_file_lock_free :: "'w lock_calls \<Rightarrow> file_lock \<Rightarrow> ('w, unit) state" where
  "srt_file_lock_free L self = (if fl_fd self \<ge> 0 then lk_close L (fl_fd self) else State_Monad.return ())"

definition srt_file_lock_steal_fd :: "file_lock \<Rightarrow> fd \<times> file_lock" where
  "srt_file_lock_steal_fd self = (fl_fd self, self\<lparr> fl_fd := - 1 \<rparr>)"

definition srt_file_lock_is_ofd :: "file_lock \<Rightarrow> bool" where
  "srt_file_lock_is_ofd self = fl_is_ofd self"

section \<open>What is asked of the kernel\<close>

datatype lock_event =
    L_open fd string "open_flag set" "errno + nat"
  | L_setlk fd lock_cmd lock_type "errno + unit"
  | L_close fd

definition logged_locks :: "'w lock_calls \<Rightarrow> ('w \<times> lock_event list) lock_calls" where
  "logged_locks L = \<lparr>
     lk_openat = (\<lambda>d p fl. log_call (lk_openat L d p fl) (L_open d p fl)),
     lk_setlk = (\<lambda>fd c t. log_call (lk_setlk L fd c t) (L_setlk fd c t)),
     lk_close = (\<lambda>fd. log_call (lk_close L fd) (\<lambda>_. L_close fd)) \<rparr>"

lemmas logged_locks_simps [simp] = logged_locks_def [THEN arg_cong [where f = lk_openat], simplified]
  logged_locks_def [THEN arg_cong [where f = lk_setlk], simplified] logged_locks_def [THEN arg_cong [where f = lk_close], simplified]

definition waits :: "lock_cmd \<Rightarrow> bool" where
  "waits cmd = (cmd = F_OFD_SETLKW \<or> cmd = F_SETLKW)"

definition is_ofd_cmd :: "lock_cmd \<Rightarrow> bool" where
  "is_ofd_cmd cmd = (cmd = F_OFD_SETLK \<or> cmd = F_OFD_SETLKW)"

lemma lock_cmd_of_simps [simp]:
  "waits (lock_cmd_of flags ofd) = (SRT_FILE_LOCK_FLAGS_WAIT \<in> flags)" "is_ofd_cmd (lock_cmd_of flags ofd) = ofd"
  by (auto simp: waits_def is_ofd_cmd_def lock_cmd_of_def)

text \<open>A list of attempts that were all refused.\<close>

definition all_refused :: "fd \<Rightarrow> file_lock_flag set \<Rightarrow> lock_event list \<Rightarrow> bool" where
  "all_refused fd flags l = (\<forall>x \<in> set l. \<exists>cmd e. x = L_setlk fd cmd (lock_type_of flags) (Inl e))"

definition busy_error :: "errno \<Rightarrow> bool" where
  "busy_error e = (e = EACCES \<or> e = EAGAIN)"

text \<open>What an acquisition may do: the attempts before the last one, the last one, and its result.\<close>

definition acquisition :: "fd \<Rightarrow> file_lock_flag set \<Rightarrow> lock_event list \<Rightarrow> gerror + bool \<Rightarrow> bool" where
  "acquisition fd flags l r =
     (\<exists>pre ofd q. l = pre @ [L_setlk fd (lock_cmd_of flags ofd) (lock_type_of flags) q]
       \<and> (if ofd then pre = [] \<and> SRT_FILE_LOCK_FLAGS_PROCESS_ORIENTED \<notin> flags
          else if SRT_FILE_LOCK_FLAGS_PROCESS_ORIENTED \<in> flags then pre = []
          else SRT_FILE_LOCK_FLAGS_REQUIRE_OFD \<notin> flags \<and>
            pre = [L_setlk fd (lock_cmd_of flags True) (lock_type_of flags) (Inl EINVAL)])
       \<and> (case q of Inr _ \<Rightarrow> r = Inr ofd
          | Inl e \<Rightarrow> r = Inl (if busy_error e then G_IO_ERROR IO_BUSY else throw_errno e)))"

lemma acquisitionI:
  "l = pre @ [L_setlk fd (lock_cmd_of flags ofd) (lock_type_of flags) q] \<Longrightarrow>
   (if ofd then pre = [] \<and> SRT_FILE_LOCK_FLAGS_PROCESS_ORIENTED \<notin> flags
    else if SRT_FILE_LOCK_FLAGS_PROCESS_ORIENTED \<in> flags then pre = []
    else SRT_FILE_LOCK_FLAGS_REQUIRE_OFD \<notin> flags \<and> pre = [L_setlk fd (lock_cmd_of flags True) (lock_type_of flags) (Inl EINVAL)]) \<Longrightarrow>
   (case q of Inr _ \<Rightarrow> r = Inr ofd | Inl e \<Rightarrow> r = Inl (if busy_error e then G_IO_ERROR IO_BUSY else throw_errno e)) \<Longrightarrow>
   acquisition fd flags l r"
  unfolding acquisition_def by blast

lemma run_lock_call: "run_state (log_call m c) (w, l) = (r, (w', l')) \<longleftrightarrow> run_state m w = (r, w') \<and> l' = l @ [c r]"
  by (auto simp: log_call_def split: prod.splits)

lemma acquire_acquisition:
  assumes "run_state (srt_file_lock_acquire (logged_locks L) fd flags) (w, l0) = (r, (w', l))"
  shows "\<exists>l1. l = l0 @ l1 \<and> acquisition fd flags l1 r"
proof (cases "SRT_FILE_LOCK_FLAGS_PROCESS_ORIENTED \<in> flags")
  case True
  obtain q w1 where q: "run_state (lk_setlk L fd (lock_cmd_of flags False) (lock_type_of flags)) w = (q, w1)" by (metis surj_pair)
  then have "l = l0 @ [L_setlk fd (lock_cmd_of flags False) (lock_type_of flags) q] \<and>
      (case q of Inr _ \<Rightarrow> r = Inr False | Inl e \<Rightarrow> r = Inl (if busy_error e then G_IO_ERROR IO_BUSY else throw_errno e))"
    using assms True by (cases q) (auto simp: srt_file_lock_acquire_def run_state_bind log_call_def busy_error_def split: if_splits)
  then show ?thesis using True acquisitionI [of _ "[]" fd flags False q r] by simp
next
  case False
  obtain q w1 where q: "run_state (lk_setlk L fd (lock_cmd_of flags True) (lock_type_of flags)) w = (q, w1)" by (metis surj_pair)
  let ?e = "L_setlk fd (lock_cmd_of flags True) (lock_type_of flags) q"
  show ?thesis
  proof (cases "q = Inl EINVAL \<and> SRT_FILE_LOCK_FLAGS_REQUIRE_OFD \<notin> flags")
    case one: False
    then have "l = l0 @ [?e] \<and> (case q of Inr _ \<Rightarrow> r = Inr True | Inl e \<Rightarrow> r = Inl (if busy_error e then G_IO_ERROR IO_BUSY else throw_errno e))"
      using assms False q by (cases q) (auto simp: srt_file_lock_acquire_def run_state_bind log_call_def busy_error_def split: if_splits)
    then show ?thesis using False acquisitionI [of _ "[]" fd flags True q r] by simp
  next
    case two: True
    obtain q2 w2 where q2: "run_state (lk_setlk L fd (lock_cmd_of flags False) (lock_type_of flags)) w1 = (q2, w2)" by (metis surj_pair)
    let ?f = "L_setlk fd (lock_cmd_of flags False) (lock_type_of flags) q2"
    have "l = l0 @ [?e, ?f] \<and> (case q2 of Inr _ \<Rightarrow> r = Inr False | Inl e \<Rightarrow> r = Inl (if busy_error e then G_IO_ERROR IO_BUSY else throw_errno e))"
      using assms False q two q2 by (cases q2) (auto simp: srt_file_lock_acquire_def run_state_bind log_call_def busy_error_def split: if_splits)
    then show ?thesis using False two acquisitionI [of _ "[?e]" fd flags False q2 r] by simp
  qed
qed

text \<open>The facts about an acquisition.\<close>

lemma lock_type_of_diff [simp]: "lock_type_of (flags - {SRT_FILE_LOCK_FLAGS_WAIT}) = lock_type_of flags"
  by (simp add: lock_type_of_def)

lemma throw_not_busy: "throw_errno e \<noteq> G_IO_ERROR IO_BUSY"
  by (cases e) (auto simp: throw_errno_def)

lemma acquisition_events:
  assumes "acquisition fd flags l r" and "x \<in> set l"
  shows "\<exists>cmd q. x = L_setlk fd cmd (lock_type_of flags) q \<and> (waits cmd \<longleftrightarrow> SRT_FILE_LOCK_FLAGS_WAIT \<in> flags)"
  using assms by (auto simp: acquisition_def split: if_splits)

lemma acquisitionE:
  assumes "acquisition fd flags l r"
  obtains pre ofd q where "l = pre @ [L_setlk fd (lock_cmd_of flags ofd) (lock_type_of flags) q]" "all_refused fd flags pre"
    "ofd \<Longrightarrow> SRT_FILE_LOCK_FLAGS_PROCESS_ORIENTED \<notin> flags"
    "\<not> ofd \<Longrightarrow> SRT_FILE_LOCK_FLAGS_PROCESS_ORIENTED \<in> flags \<or> SRT_FILE_LOCK_FLAGS_REQUIRE_OFD \<notin> flags
        \<and> L_setlk fd (lock_cmd_of flags True) (lock_type_of flags) (Inl EINVAL) \<in> set pre"
    "case q of Inr _ \<Rightarrow> r = Inr ofd | Inl e \<Rightarrow> r = Inl (if busy_error e then G_IO_ERROR IO_BUSY else throw_errno e)"
proof -
  from assms obtain pre ofd q where a: "l = pre @ [L_setlk fd (lock_cmd_of flags ofd) (lock_type_of flags) q]"
    "if ofd then pre = [] \<and> SRT_FILE_LOCK_FLAGS_PROCESS_ORIENTED \<notin> flags
     else if SRT_FILE_LOCK_FLAGS_PROCESS_ORIENTED \<in> flags then pre = []
     else SRT_FILE_LOCK_FLAGS_REQUIRE_OFD \<notin> flags \<and> pre = [L_setlk fd (lock_cmd_of flags True) (lock_type_of flags) (Inl EINVAL)]"
    "case q of Inr _ \<Rightarrow> r = Inr ofd | Inl e \<Rightarrow> r = Inl (if busy_error e then G_IO_ERROR IO_BUSY else throw_errno e)"
    unfolding acquisition_def by blast
  show thesis
    by (rule that [OF a(1) _ _ _ a(3)]) (use a(2) in \<open>auto simp: all_refused_def split: if_splits\<close>)
qed

lemma acquisition_refused:
  assumes "acquisition fd flags l (Inl e)"
  shows "all_refused fd flags l"
  using assms
proof (cases rule: acquisitionE)
  case (1 pre ofd q)
  then show ?thesis by (cases q) (auto simp: all_refused_def)
qed

lemma acquisition_busy:
  assumes "acquisition fd flags l (Inl (G_IO_ERROR IO_BUSY))"
  shows "\<exists>cmd e. L_setlk fd cmd (lock_type_of flags) (Inl e) \<in> set l \<and> busy_error e \<and> (waits cmd \<longleftrightarrow> SRT_FILE_LOCK_FLAGS_WAIT \<in> flags)"
  using assms
proof (cases rule: acquisitionE)
  case (1 pre ofd q)
  then obtain e where e: "q = Inl e" by (cases q) auto
  moreover have "busy_error e" using 1(5) throw_not_busy [of e] e by (cases "busy_error e") auto
  ultimately show ?thesis
    using 1(1) by (intro exI [of _ "lock_cmd_of flags ofd"] exI [of _ e]) auto
qed

definition acquired :: "fd \<Rightarrow> file_lock_flag set \<Rightarrow> lock_event list \<Rightarrow> gerror + bool \<Rightarrow> bool" where
  "acquired fd flags l r =
     (\<exists>l1 l2. l = l1 @ l2 \<and> acquisition fd (if l1 = [] \<and> SRT_FILE_LOCK_FLAGS_VERBOSE \<in> flags then flags - {SRT_FILE_LOCK_FLAGS_WAIT} else flags) l2 r
       \<and> (l1 = [] \<or> acquisition fd (flags - {SRT_FILE_LOCK_FLAGS_WAIT}) l1 (Inl (G_IO_ERROR IO_BUSY))))"

lemma acquisition_not_Nil: "\<not> acquisition fd flags [] r"
  by (simp add: acquisition_def)

lemma acquiredI1:
  "acquisition fd (if SRT_FILE_LOCK_FLAGS_VERBOSE \<in> flags then flags - {SRT_FILE_LOCK_FLAGS_WAIT} else flags) l r \<Longrightarrow> acquired fd flags l r"
  unfolding acquired_def by (rule exI [of _ "[]"]) simp

lemma acquiredI2:
  "acquisition fd (flags - {SRT_FILE_LOCK_FLAGS_WAIT}) l1 (Inl (G_IO_ERROR IO_BUSY)) \<Longrightarrow> acquisition fd flags l2 r \<Longrightarrow>
   acquired fd flags (l1 @ l2) r"
  unfolding acquired_def by (rule exI [of _ l1], rule exI [of _ l2]) (use acquisition_not_Nil in auto)

lemma acquire_verbosely_acquired:
  assumes "run_state (acquire_verbosely (logged_locks L) fd flags) (w, l0) = (r, (w', l))"
  shows "\<exists>l1. l = l0 @ l1 \<and> acquired fd flags l1 r"
proof (cases "{SRT_FILE_LOCK_FLAGS_WAIT, SRT_FILE_LOCK_FLAGS_VERBOSE} \<subseteq> flags")
  case False
  then obtain l1 where l1: "l = l0 @ l1" "acquisition fd flags l1 r"
    using acquire_acquisition [of L fd flags w l0 r w' l] assms by (auto simp: acquire_verbosely_def split: if_splits)
  then have "acquisition fd (if SRT_FILE_LOCK_FLAGS_VERBOSE \<in> flags then flags - {SRT_FILE_LOCK_FLAGS_WAIT} else flags) l1 r"
    using False by (cases "SRT_FILE_LOCK_FLAGS_VERBOSE \<in> flags") auto
  then show ?thesis using l1(1) acquiredI1 by blast
next
  case True
  obtain q w1 m where q: "run_state (srt_file_lock_acquire (logged_locks L) fd (flags - {SRT_FILE_LOCK_FLAGS_WAIT})) (w, l0) = (q, (w1, m))"
    by (metis surj_pair)
  from acquire_acquisition [OF q] obtain l1 where l1: "m = l0 @ l1" "acquisition fd (flags - {SRT_FILE_LOCK_FLAGS_WAIT}) l1 q" by auto
  have run: "run_state (if q = Inl (G_IO_ERROR IO_BUSY) then srt_file_lock_acquire (logged_locks L) fd flags else State_Monad.return q) (w1, m) = (r, (w', l))"
    using assms True unfolding acquire_verbosely_def by (simp only: if_True run_state_bind q prod.case)
  show ?thesis
  proof (cases "q = Inl (G_IO_ERROR IO_BUSY)")
    case busy: True
    then have "run_state (srt_file_lock_acquire (logged_locks L) fd flags) (w1, m) = (r, (w', l))"
      using run by simp
    from acquire_acquisition [OF this] obtain l2 where "l = m @ l2" "acquisition fd flags l2 r" by auto
    then show ?thesis using l1 busy acquiredI2 by (metis append.assoc)
  next
    case False
    then have "r = q" "l = m" using run by auto
    then show ?thesis using l1 True acquiredI1 [of fd flags l1 r] by auto
  qed
qed

lemma acquiredE:
  assumes "acquired fd flags l r"
  obtains l1 l2 flags' where "l = l1 @ l2" "acquisition fd flags' l2 r" "flags' = flags \<or> flags' = flags - {SRT_FILE_LOCK_FLAGS_WAIT}"
    "all_refused fd flags l1" "l1 = [] \<Longrightarrow> SRT_FILE_LOCK_FLAGS_VERBOSE \<in> flags \<Longrightarrow> SRT_FILE_LOCK_FLAGS_WAIT \<notin> flags'"
    "l1 = [] \<or> acquisition fd (flags - {SRT_FILE_LOCK_FLAGS_WAIT}) l1 (Inl (G_IO_ERROR IO_BUSY))"
proof -
  obtain l1 l2 where a: "l = l1 @ l2"
    "acquisition fd (if l1 = [] \<and> SRT_FILE_LOCK_FLAGS_VERBOSE \<in> flags then flags - {SRT_FILE_LOCK_FLAGS_WAIT} else flags) l2 r"
    "l1 = [] \<or> acquisition fd (flags - {SRT_FILE_LOCK_FLAGS_WAIT}) l1 (Inl (G_IO_ERROR IO_BUSY))"
    using assms unfolding acquired_def by blast
  moreover have "all_refused fd flags l1"
    using a(3) acquisition_refused [of fd "flags - {SRT_FILE_LOCK_FLAGS_WAIT}" l1] by (auto simp: all_refused_def)
  ultimately show thesis by (intro that [OF a(1) a(2)]) auto
qed

text \<open>What a lock stands for.\<close>

lemma acquired_granted:
  assumes "acquired fd flags l (Inr ofd)"
  shows "\<exists>pre cmd. l = pre @ [L_setlk fd cmd (lock_type_of flags) (Inr ())] \<and> is_ofd_cmd cmd = ofd \<and> all_refused fd flags pre
    \<and> (ofd \<longrightarrow> SRT_FILE_LOCK_FLAGS_PROCESS_ORIENTED \<notin> flags)
    \<and> (\<not> ofd \<longrightarrow> SRT_FILE_LOCK_FLAGS_PROCESS_ORIENTED \<in> flags \<or> SRT_FILE_LOCK_FLAGS_REQUIRE_OFD \<notin> flags
        \<and> (\<exists>c. is_ofd_cmd c \<and> L_setlk fd c (lock_type_of flags) (Inl EINVAL) \<in> set pre))"
proof -
  obtain l1 l2 flags' where l: "l = l1 @ l2" "acquisition fd flags' l2 (Inr ofd)"
      "flags' = flags \<or> flags' = flags - {SRT_FILE_LOCK_FLAGS_WAIT}" "all_refused fd flags l1"
    using assms by (blast elim: acquiredE)
  have f: "lock_type_of flags' = lock_type_of flags"
    "SRT_FILE_LOCK_FLAGS_PROCESS_ORIENTED \<in> flags' \<longleftrightarrow> SRT_FILE_LOCK_FLAGS_PROCESS_ORIENTED \<in> flags"
    "SRT_FILE_LOCK_FLAGS_REQUIRE_OFD \<in> flags' \<longleftrightarrow> SRT_FILE_LOCK_FLAGS_REQUIRE_OFD \<in> flags"
    using l(3) by auto
  from l(2) show ?thesis
  proof (cases rule: acquisitionE)
    case (1 pre ofd' q)
    then have q: "q = Inr ()" "ofd' = ofd" by (cases q; simp split: if_splits)+
    have "all_refused fd flags (l1 @ pre)" using l(4) 1(2) f(1) by (auto simp: all_refused_def)
    moreover have "l = (l1 @ pre) @ [L_setlk fd (lock_cmd_of flags' ofd) (lock_type_of flags) (Inr ())]" using l(1) 1(1) q f(1) by simp
    moreover have "\<not> ofd \<longrightarrow> SRT_FILE_LOCK_FLAGS_PROCESS_ORIENTED \<in> flags \<or> SRT_FILE_LOCK_FLAGS_REQUIRE_OFD \<notin> flags
        \<and> (\<exists>c. is_ofd_cmd c \<and> L_setlk fd c (lock_type_of flags) (Inl EINVAL) \<in> set (l1 @ pre))"
      using 1(4) q(2) f lock_cmd_of_simps(2) [of flags' True] by (metis Un_iff set_append)
    ultimately show ?thesis using 1(3) q(2) f(2) lock_cmd_of_simps(2) [of flags' ofd] by blast
  qed
qed

lemma acquired_refused:
  assumes "acquired fd flags l (Inl e)"
  shows "all_refused fd flags l"
proof -
  obtain l1 l2 flags' where l: "l = l1 @ l2" "acquisition fd flags' l2 (Inl e)"
      "flags' = flags \<or> flags' = flags - {SRT_FILE_LOCK_FLAGS_WAIT}" "all_refused fd flags l1"
    using assms by (blast elim: acquiredE)
  then show ?thesis using acquisition_refused [OF l(2)] by (auto simp: all_refused_def)
qed

text \<open>An attempt that waits is only made if that was asked for; and if messages were asked for, only when an attempt
  that does not wait has found the file busy.\<close>

lemma acquired_waits:
  assumes "acquired fd flags l r" and "l = pre @ L_setlk f cmd t q # suf" and "waits cmd"
  shows "SRT_FILE_LOCK_FLAGS_WAIT \<in> flags \<and>
    (SRT_FILE_LOCK_FLAGS_VERBOSE \<in> flags \<longrightarrow> (\<exists>c e. \<not> waits c \<and> busy_error e \<and> L_setlk f c t (Inl e) \<in> set pre))"
proof -
  obtain l1 l2 flags' where l: "l = l1 @ l2" and a2: "acquisition fd flags' l2 r"
    and f: "flags' = flags \<or> flags' = flags - {SRT_FILE_LOCK_FLAGS_WAIT}" and "all_refused fd flags l1"
    and v: "l1 = [] \<Longrightarrow> SRT_FILE_LOCK_FLAGS_VERBOSE \<in> flags \<Longrightarrow> SRT_FILE_LOCK_FLAGS_WAIT \<notin> flags'"
    and a1: "l1 = [] \<or> acquisition fd (flags - {SRT_FILE_LOCK_FLAGS_WAIT}) l1 (Inl (G_IO_ERROR IO_BUSY))"
    using assms(1) by (blast elim: acquiredE)
  have not1: "L_setlk f cmd t q \<notin> set l1" using a1 acquisition_events [of fd "flags - {SRT_FILE_LOCK_FLAGS_WAIT}" l1] assms(3) by auto
  then have in2: "L_setlk f cmd t q \<in> set l2" using l assms(2) by (metis Un_iff in_set_conv_decomp set_append)
  obtain k where k: "pre = l1 @ k"
    using l assms(2) not1 by (auto simp: append_eq_append_conv2 Cons_eq_append_conv)
  from acquisition_events [OF a2 in2] assms(3) have w: "SRT_FILE_LOCK_FLAGS_WAIT \<in> flags" "f = fd" "t = lock_type_of flags"
    "\<not> (l1 = [] \<and> SRT_FILE_LOCK_FLAGS_VERBOSE \<in> flags)" using f v by auto
  then show ?thesis using a1 acquisition_busy [of fd "flags - {SRT_FILE_LOCK_FLAGS_WAIT}" l1] k by fastforce
qed

text \<open>C29: Whatever the kernel answers: a lock that is returned was granted last, with the mode asked for, on the file that
  was opened, and says rightly whose lock it is; a lock of the process is only taken if that was asked for or
  the kernel does not have the other kind and it was not required. On failure the file is closed and no lock
  was granted. No call waits unless that was asked for, and with messages only after one that does not.\<close>

theorem srt_file_lock_new_holds:
  assumes "run_state (srt_file_lock_new (logged_locks L) at_fd path flags) (w, []) = (r, (w', l))"
  shows "(case r of
      Inr lock \<Rightarrow> \<exists>n pre cmd. l = L_open (glnx_dirfd_canonicalize at_fd) path (lock_open_flags flags) (Inr n) # pre
            @ [L_setlk (int n) cmd (lock_type_of flags) (Inr ())]
        \<and> fl_fd lock = int n \<and> fl_is_ofd lock = is_ofd_cmd cmd \<and> all_refused (int n) flags pre
        \<and> (is_ofd_cmd cmd \<longrightarrow> SRT_FILE_LOCK_FLAGS_PROCESS_ORIENTED \<notin> flags)
        \<and> (\<not> is_ofd_cmd cmd \<longrightarrow> SRT_FILE_LOCK_FLAGS_PROCESS_ORIENTED \<in> flags \<or> SRT_FILE_LOCK_FLAGS_REQUIRE_OFD \<notin> flags
            \<and> (\<exists>c. is_ofd_cmd c \<and> L_setlk (int n) c (lock_type_of flags) (Inl EINVAL) \<in> set pre))
    | Inl e \<Rightarrow> l = [] \<or> (\<exists>q. l = [L_open (glnx_dirfd_canonicalize at_fd) path (lock_open_flags flags) (Inl q)])
        \<or> (\<exists>n pre. l = L_open (glnx_dirfd_canonicalize at_fd) path (lock_open_flags flags) (Inr n) # pre @ [L_close (int n)]
            \<and> all_refused (int n) flags pre))
    \<and> (\<forall>pre f cmd t q suf. l = pre @ L_setlk f cmd t q # suf \<and> waits cmd \<longrightarrow> SRT_FILE_LOCK_FLAGS_WAIT \<in> flags \<and>
        (SRT_FILE_LOCK_FLAGS_VERBOSE \<in> flags \<longrightarrow> (\<exists>c e. \<not> waits c \<and> busy_error e \<and> L_setlk f c t (Inl e) \<in> set pre)))"
proof (cases "{SRT_FILE_LOCK_FLAGS_PROCESS_ORIENTED, SRT_FILE_LOCK_FLAGS_REQUIRE_OFD} \<subseteq> flags")
  case True
  then have "r = Inl PRECONDITION_FAILED" "l = []" using assms by (simp_all add: srt_file_lock_new_def)
  then show ?thesis by simp
next
  case False
  let ?d = "glnx_dirfd_canonicalize at_fd" and ?fl = "lock_open_flags flags"
  obtain q w1 where q: "run_state (lk_openat L ?d path ?fl) w = (q, w1)" by (metis surj_pair)
  have opened: "run_state (lk_openat (logged_locks L) ?d path ?fl) (w, []) = (q, (w1, [L_open ?d path ?fl q]))"
    by (simp add: run_lock_call q)
  note run = assms [unfolded srt_file_lock_new_def if_not_P [OF False] run_state_bind opened prod.case]
  show ?thesis
  proof (cases q)
    case (Inl e)
    then have "l = [L_open ?d path ?fl (Inl e)] \<and> (\<exists>e'. r = Inl e')" using run by auto
    then show ?thesis by (auto simp: Cons_eq_append_conv)
  next
    case (Inr n)
    let ?o = "L_open ?d path ?fl (Inr n)"
    obtain a w2 m where a: "run_state (acquire_verbosely (logged_locks L) (int n) flags) (w1, [?o]) = (a, (w2, m))" by (metis surj_pair)
    from acquire_verbosely_acquired [OF a] obtain l1 where l1: "m = ?o # l1" "acquired (int n) flags l1 a" by auto
    have waits: "SRT_FILE_LOCK_FLAGS_WAIT \<in> flags \<and> (SRT_FILE_LOCK_FLAGS_VERBOSE \<in> flags \<longrightarrow> (\<exists>c e. \<not> waits c \<and> busy_error e \<and> L_setlk f c t (Inl e) \<in> set pre))"
      if prem: "?o # l1 @ suf' = pre @ L_setlk f cmd t q # suf" "waits cmd" "suf' = [] \<or> suf' = [L_close (int n)]" for pre f cmd t q suf suf'
    proof -
      obtain pre' where p: "pre = ?o # pre'" "l1 @ suf' = pre' @ L_setlk f cmd t q # suf" using prem(1) by (cases pre) auto
      obtain suf2 where "l1 = pre' @ L_setlk f cmd t q # suf2"
        using p(2) prem(3) by (cases suf rule: rev_cases) (auto simp: append_eq_append_conv2 Cons_eq_append_conv)
      from acquired_waits [OF l1(2) this prem(2)] show ?thesis using p(1) by auto
    qed
    show ?thesis
    proof (cases a)
      case e: (Inl e)
      then have "l = ?o # l1 @ [L_close (int n)]" "r = Inl e"
        using run [unfolded Inr sum.case run_state_bind a prod.case] l1(1) by (auto simp: run_state_bind log_call_def split: prod.splits)
      then show ?thesis using acquired_refused l1(2) waits [of "[L_close (int n)]"] e by auto
    next
      case ofd: (Inr ofd)
      then have "l = ?o # l1" "r = Inr \<lparr> fl_fd = int n, fl_is_ofd = ofd \<rparr>"
        using run [unfolded Inr sum.case run_state_bind a prod.case] l1(1) by (auto simp: srt_file_lock_new_take_def)
      then show ?thesis using acquired_granted [of "int n" flags l1 ofd] l1(2) waits [of "[]"] ofd by auto
    qed
  qed
qed

text \<open>A kernel without locks of descriptions, on which another process has a lock until somebody waits for it.\<close>

definition demo_locks :: "bool lock_calls" where
  "demo_locks = \<lparr> lk_openat = (\<lambda>_ _ _. State_Monad.return (Inr 5)),
     lk_setlk = (\<lambda>_ cmd _. State (\<lambda>busy. if is_ofd_cmd cmd then (Inl EINVAL, busy) else if waits cmd then (Inr (), False)
        else if busy then (Inl EAGAIN, busy) else (Inr (), busy))),
     lk_close = (\<lambda>_. State_Monad.return ()) \<rparr>"

theorem srt_file_lock_new_holds_witness:
  "\<exists>lock w' l n pre cmd. run_state (srt_file_lock_new (logged_locks demo_locks) (- 1) ''lock''
      {SRT_FILE_LOCK_FLAGS_EXCLUSIVE, SRT_FILE_LOCK_FLAGS_WAIT, SRT_FILE_LOCK_FLAGS_VERBOSE}) (True, []) = (Inr lock, (w', l))
    \<and> l = L_open AT_FDCWD ''lock'' {O_CLOEXEC, O_NOCTTY, O_RDWR} (Inr n) # pre @ [L_setlk 5 cmd F_WRLCK (Inr ())]
    \<and> \<not> fl_is_ofd lock \<and> length pre = 3"
proof -
  let ?flags = "{SRT_FILE_LOCK_FLAGS_EXCLUSIVE, SRT_FILE_LOCK_FLAGS_WAIT, SRT_FILE_LOCK_FLAGS_VERBOSE}"
  let ?run = "run_state (srt_file_lock_new (logged_locks demo_locks) (- 1) ''lock'' ?flags) (True, [])"
  have ok: "map_sum (\<lambda>_. ()) (\<lambda>lock. (fl_fd lock, fl_is_ofd lock)) (fst ?run) = Inr (5, False)" "length (snd (snd ?run)) = 5"
    by code_simp+
  obtain r w' l where run: "?run = (r, (w', l))" by (metis surj_pair)
  obtain lock where r: "r = Inr lock" "\<not> fl_is_ofd lock" "fl_fd lock = 5" using ok(1) run by (cases r) auto
  have "glnx_dirfd_canonicalize (- 1) = AT_FDCWD" "lock_open_flags ?flags = {O_CLOEXEC, O_NOCTTY, O_RDWR}" "lock_type_of ?flags = F_WRLCK"
    by (auto simp: glnx_dirfd_canonicalize_def lock_open_flags_def lock_type_of_def)
  then show ?thesis using srt_file_lock_new_holds [OF run] r ok(2) run by auto
qed

end
