(* ===== verification/Process.thy ===== *)
theory Process imports Terminate FileLock begin

text \<open>
  The process manager (\<open>steam-runtime-tools/process-manager.c\<close>): its options and their command line forms, what happens in
  the child between \<open>fork\<close> and \<open>exec\<close>, running the main process, and waiting for it and its descendants. The calls are
  fields of the record \<open>spawn_calls\<close>; the locale \<open>descriptor_calls\<close> states what those on file descriptors do to the
  table of descriptors, and is interpreted on a table that is given explicitly.
\<close>

section \<open>Calls\<close>

record 'w spawn_calls =
  sp_pdeathsig :: "nat \<Rightarrow> ('w, unit) sys"
  sp_set_subreaper :: "('w, unit) sys"
  sp_sigmask_empty :: "('w, unit) state"
  sp_signal_default :: "nat \<Rightarrow> ('w, unit) state"
  sp_signal_forward :: "nat \<Rightarrow> ('w, unit) state"       \<comment> \<open>install \<open>terminate_child_cb\<close>\<close>
  sp_raise :: "nat \<Rightarrow> ('w, unit) state"
  sp_getfd :: "fd \<Rightarrow> ('w, bool) sys"                    \<comment> \<open>\<open>FD_CLOEXEC\<close>\<close>
  sp_setfd :: "fd \<Rightarrow> bool \<Rightarrow> ('w, unit) sys"
  sp_dup2 :: "fd \<Rightarrow> fd \<Rightarrow> ('w, fd) sys"
  sp_fdwalk_set_cloexec :: "fd \<Rightarrow> ('w, unit) state"
  sp_close :: "fd \<Rightarrow> ('w, unit) state"
  sp_spawn :: "string list \<Rightarrow> string list \<Rightarrow> ('w, int) io"  \<comment> \<open>\<open>g_spawn_async\<close>: the process ID of the child\<close>

definition SIGHUP :: nat where "SIGHUP = 1"
definition SIGINT :: nat where "SIGINT = 2"
definition SIGQUIT :: nat where "SIGQUIT = 3"
definition SIGUSR1 :: nat where "SIGUSR1 = 10"
definition SIGUSR2 :: nat where "SIGUSR2 = 12"
definition SIGSTOP :: nat where "SIGSTOP = 19"
definition NSIG :: nat where "NSIG = 65"

definition STDOUT_FILENO :: fd where "STDOUT_FILENO = 1"
definition STDERR_FILENO :: fd where "STDERR_FILENO = 2"

definition LAUNCH_EX_FAILED :: int where "LAUNCH_EX_FAILED = 125"
definition LAUNCH_EX_CANNOT_INVOKE :: int where "LAUNCH_EX_CANNOT_INVOKE = 126"
definition LAUNCH_EX_NOT_FOUND :: int where "LAUNCH_EX_NOT_FOUND = 127"
definition LAUNCH_EX_CANNOT_REPORT :: int where "LAUNCH_EX_CANNOT_REPORT = 255"

definition G_SPAWN_ERROR_NOENT :: nat where "G_SPAWN_ERROR_NOENT = 8"

fun for_all :: "('a \<Rightarrow> ('w, unit) state) \<Rightarrow> 'a list \<Rightarrow> ('w, unit) state" where
  "for_all f [] = State_Monad.return ()"
| "for_all f (x # xs) = do { f x; for_all f xs }"

section \<open>Waiting\<close>

definition WTERMSIG :: "32 word \<Rightarrow> 32 word" where "WTERMSIG s = s AND 0x7F"
definition WIFEXITED :: "32 word \<Rightarrow> bool" where "WIFEXITED s = (WTERMSIG s = 0)"
definition WEXITSTATUS :: "32 word \<Rightarrow> 32 word" where "WEXITSTATUS s = drop_bit 8 (s AND 0xFF00)"
definition WIFSIGNALED :: "32 word \<Rightarrow> bool" where "WIFSIGNALED s = (WTERMSIG s \<noteq> 0 \<and> WTERMSIG s \<noteq> 0x7F)"

definition srt_wait_status_to_exit_status :: "32 word \<Rightarrow> int" where
  "srt_wait_status_to_exit_status wait_status =
     (if WIFEXITED wait_status then uint (WEXITSTATUS wait_status)
      else if WIFSIGNALED wait_status then 128 + uint (WTERMSIG wait_status)
      else LAUNCH_EX_CANNOT_REPORT)"

text \<open>The wait status is -1 until the main process has been seen to exit.\<close>

fun srt_wait_for_child_processes :: "nat \<Rightarrow> 'w process_calls \<Rightarrow> int \<Rightarrow> ('w, (gerror + 32 word) option) state" where
  "srt_wait_for_child_processes 0 P main_process = State_Monad.return None"
| "srt_wait_for_child_processes (Suc fuel) P main_process = do {
     r \<leftarrow> pc_wait P;
     (case r of
        Inl e \<Rightarrow>
          if e = EINTR then srt_wait_for_child_processes fuel P main_process
          else if e = ECHILD then
            State_Monad.return (Some (if main_process > 0 then Inl (G_IO_ERROR IO_NOT_FOUND) else Inr (- 1)))
          else State_Monad.return (Some (Inl (throw_errno e)))
      | Inr (died, wait_status) \<Rightarrow>
          if died = main_process then State_Monad.return (Some (Inr wait_status))
          else srt_wait_for_child_processes fuel P main_process) }"

section \<open>Options\<close>

record assign_fd =
  af_target :: fd
  af_source :: fd

record process_manager_options =
  po_assign_fds :: "assign_fd list"
  po_pass_fds :: "fd list"
  po_locks :: "file_lock list"
  po_terminate_wait_usec :: int
  po_terminate_grace_usec :: int
  po_close_fds :: bool
  po_exit_with_parent :: bool
  po_forward_signals :: bool
  po_subreaper :: bool

definition SRT_PROCESS_MANAGER_OPTIONS_INIT :: process_manager_options where
  "SRT_PROCESS_MANAGER_OPTIONS_INIT = \<lparr> po_assign_fds = [], po_pass_fds = [], po_locks = [], po_terminate_wait_usec = 0,
     po_terminate_grace_usec = - 1, po_close_fds = False, po_exit_with_parent = False, po_forward_signals = False,
     po_subreaper = False \<rparr>"

text \<open>Clearing the options releases the locks.\<close>

definition srt_process_manager_options_clear :: "'w lock_calls \<Rightarrow> process_manager_options \<Rightarrow> ('w, process_manager_options) state" where
  "srt_process_manager_options_clear L self = do {
     for_all (srt_file_lock_free L) (po_locks self);
     State_Monad.return SRT_PROCESS_MANAGER_OPTIONS_INIT }"

definition take_fd_assignment :: "process_manager_options \<Rightarrow> fd \<Rightarrow> fd \<Rightarrow> process_manager_options" where
  "take_fd_assignment self target source =
     self\<lparr> po_assign_fds := po_assign_fds self @ [\<lparr> af_target = target, af_source = source \<rparr>] \<rparr>"

definition close_fd :: "'w spawn_calls \<Rightarrow> fd \<Rightarrow> ('w, fd) state" where
  "close_fd S fd = (if fd \<ge> 0 then do { sp_close S fd; State_Monad.return (- 1) } else State_Monad.return fd)"

fun close_assigned :: "'w spawn_calls \<Rightarrow> assign_fd list \<Rightarrow> fd \<Rightarrow> fd \<Rightarrow> ('w, fd \<times> fd) state" where
  "close_assigned S [] original_stdout original_stderr = State_Monad.return (original_stdout, original_stderr)"
| "close_assigned S (pair # rest) original_stdout original_stderr = do {
     fd1 \<leftarrow> (if af_target pair = STDOUT_FILENO then close_fd S original_stdout else State_Monad.return original_stdout);
     fd2 \<leftarrow> (if af_target pair = STDERR_FILENO then close_fd S original_stderr else State_Monad.return original_stderr);
     close_assigned S rest fd1 fd2 }"

definition take_original_stdout_stderr ::
    "'w spawn_calls \<Rightarrow> process_manager_options \<Rightarrow> fd \<Rightarrow> fd \<Rightarrow> ('w, process_manager_options) state" where
  "take_original_stdout_stderr S self original_stdout original_stderr = do {
     fds' \<leftarrow> close_assigned S (po_assign_fds self) original_stdout original_stderr;
     (let self1 = (if fst fds' \<ge> 0 then take_fd_assignment self STDOUT_FILENO (fst fds') else self);
          self2 = (if snd fds' \<ge> 0 then take_fd_assignment self1 STDERR_FILENO (snd fds') else self1) in
      State_Monad.return self2) }"

text \<open>A number in the range of \<open>int\<close>, and what follows it.\<close>

definition parse_fd :: "string \<Rightarrow> (fd \<times> string) option" where
  "parse_fd value =
     (let (i64, endptr) = strtoll value 10 in
      if i64 < 0 \<or> i64 > G_MAXINT \<or> endptr = value then None else Some (i64, endptr))"

definition assign_fd_cli ::
    "'w spawn_calls \<Rightarrow> process_manager_options \<Rightarrow> string \<Rightarrow> ('w, process_manager_options) io" where
  "assign_fd_cli S self value =
     (case parse_fd value of
        None \<Rightarrow> State_Monad.return (Inl G_OPTION_ERROR_BAD_VALUE)
      | Some (target, endptr) \<Rightarrow>
          if endptr = [] \<or> hd endptr \<noteq> CHR ''='' then State_Monad.return (Inl G_OPTION_ERROR_BAD_VALUE)
          else (case parse_fd (tl endptr) of
              None \<Rightarrow> State_Monad.return (Inl G_OPTION_ERROR_BAD_VALUE)
            | Some (source, endptr') \<Rightarrow>
                if endptr' \<noteq> [] then State_Monad.return (Inl G_OPTION_ERROR_BAD_VALUE)
                else do {
                  fd_flags \<leftarrow> sp_getfd S source;
                  State_Monad.return (case fd_flags of
                      Inl e \<Rightarrow> Inl (throw_errno e) | Inr _ \<Rightarrow> Inr (take_fd_assignment self target source)) }))"

definition take_lock :: "process_manager_options \<Rightarrow> file_lock \<Rightarrow> process_manager_options" where
  "take_lock self lock = self\<lparr> po_locks := po_locks self @ [lock] \<rparr>"

definition srt_fd_set_close_on_exec :: "'w spawn_calls \<Rightarrow> fd \<Rightarrow> ('w, unit) sys" where
  "srt_fd_set_close_on_exec S fd = do {
     flags \<leftarrow> sp_getfd S fd;
     (case flags of
        Inl e \<Rightarrow> State_Monad.return (Inl e)
      | Inr cloexec \<Rightarrow> if \<not> cloexec then sp_setfd S fd True else State_Monad.return (Inr ())) }"

definition lock_fd_cli :: "'w spawn_calls \<Rightarrow> process_manager_options \<Rightarrow> string \<Rightarrow> ('w, process_manager_options) io" where
  "lock_fd_cli S self value =
     (case parse_fd value of
        Some (fd, []) \<Rightarrow> do {
          r \<leftarrow> srt_fd_set_close_on_exec S fd;
          State_Monad.return (case r of
              Inl e \<Rightarrow> Inl (throw_errno e)
            | Inr _ \<Rightarrow> (case srt_file_lock_new_take fd True of
                  None \<Rightarrow> Inl PRECONDITION_FAILED | Some lock \<Rightarrow> Inr (take_lock self lock))) }
      | _ \<Rightarrow> State_Monad.return (Inl G_OPTION_ERROR_BAD_VALUE))"

definition pass_fd_cli :: "'w spawn_calls \<Rightarrow> process_manager_options \<Rightarrow> string \<Rightarrow> ('w, process_manager_options) io" where
  "pass_fd_cli S self value =
     (case parse_fd value of
        Some (fd, []) \<Rightarrow> do {
          fd_flags \<leftarrow> sp_getfd S fd;
          State_Monad.return (case fd_flags of
              Inl e \<Rightarrow> Inl (throw_errno e) | Inr _ \<Rightarrow> Inr (self\<lparr> po_pass_fds := po_pass_fds self @ [fd] \<rparr>)) }
      | _ \<Rightarrow> State_Monad.return (Inl G_OPTION_ERROR_BAD_VALUE))"

section \<open>The manager\<close>

text \<open>\<open>pm_child_pid\<close> is the variable \<open>global_child_pid\<close>.\<close>

record process_manager =
  pm_opts :: process_manager_options
  pm_exit_status :: int
  pm_child_pid :: int

definition srt_raise_on_parent_death :: "'w spawn_calls \<Rightarrow> nat \<Rightarrow> ('w, unit) io" where
  "srt_raise_on_parent_death S signal_number = do {
     r \<leftarrow> sp_pdeathsig S signal_number;
     State_Monad.return (case r of Inl e \<Rightarrow> Inl (throw_errno e) | Inr _ \<Rightarrow> Inr ()) }"

definition srt_process_manager_new ::
    "'w spawn_calls \<Rightarrow> process_manager_options \<Rightarrow> ('w, (gerror + process_manager) \<times> process_manager_options) state" where
  "srt_process_manager_new S options =
     (if \<not> (po_terminate_grace_usec options < 0 \<or> po_subreaper options)
      then State_Monad.return (Inl PRECONDITION_FAILED, options)
      else do {
        d \<leftarrow> (if po_exit_with_parent options then srt_raise_on_parent_death S SIGTERM else State_Monad.return (Inr ()));
        (case d of
           Inl e \<Rightarrow> State_Monad.return (Inl e, options)
         | Inr _ \<Rightarrow> do {
             r \<leftarrow> (if po_subreaper options then sp_set_subreaper S else State_Monad.return (Inr ()));
             State_Monad.return (case r of
                 Inl e \<Rightarrow> (Inl (throw_errno e), options)
               | Inr _ \<Rightarrow> (Inr \<lparr> pm_opts = options, pm_exit_status = - 1, pm_child_pid = 0 \<rparr>,
                   SRT_PROCESS_MANAGER_OPTIONS_INIT)) }) })"

section \<open>In the child\<close>

definition srt_child_setup_unblock_signals :: "'w spawn_calls \<Rightarrow> ('w, unit) state" where
  "srt_child_setup_unblock_signals S = do {
     sp_sigmask_empty S;
     for_all (sp_signal_default S) (filter (\<lambda>sig. sig \<noteq> SIGKILL \<and> sig \<noteq> SIGSTOP) [1..<NSIG]) }"

text \<open>The left value is the status with which the child exits.\<close>

fun clear_cloexec :: "'w spawn_calls \<Rightarrow> fd list \<Rightarrow> ('w, int + unit) state" where
  "clear_cloexec S [] = State_Monad.return (Inr ())"
| "clear_cloexec S (fd # pass_fds) = do {
     fd_flags \<leftarrow> sp_getfd S fd;
     (case fd_flags of
        Inl e \<Rightarrow> State_Monad.return (Inl LAUNCH_EX_FAILED)
      | Inr cloexec \<Rightarrow> do {
          r \<leftarrow> (if cloexec then sp_setfd S fd False else State_Monad.return (Inr ()));
          (case r of
             Inl e \<Rightarrow> State_Monad.return (Inl LAUNCH_EX_FAILED)
           | Inr _ \<Rightarrow> clear_cloexec S pass_fds) }) }"

fun assign_all :: "'w spawn_calls \<Rightarrow> assign_fd list \<Rightarrow> ('w, int + unit) state" where
  "assign_all S [] = State_Monad.return (Inr ())"
| "assign_all S (pair # assign_fds) = do {
     r \<leftarrow> sp_dup2 S (af_source pair) (af_target pair);
     (if r \<noteq> Inr (af_target pair) then State_Monad.return (Inl LAUNCH_EX_FAILED) else assign_all S assign_fds) }"

definition setup_descriptors :: "'w spawn_calls \<Rightarrow> process_manager_options \<Rightarrow> ('w, int + unit) state" where
  "setup_descriptors S opts = do {
     (if po_close_fds opts then sp_fdwalk_set_cloexec S 3 else State_Monad.return ());
     r \<leftarrow> clear_cloexec S (po_pass_fds opts);
     (case r of Inl e \<Rightarrow> State_Monad.return (Inl e) | Inr _ \<Rightarrow> assign_all S (po_assign_fds opts)) }"

definition srt_process_manager_child_setup_cb :: "'w spawn_calls \<Rightarrow> process_manager \<Rightarrow> ('w, int + unit) state" where
  "srt_process_manager_child_setup_cb S self = do {
     d \<leftarrow> (if po_exit_with_parent (pm_opts self) then srt_raise_on_parent_death S SIGTERM else State_Monad.return (Inr ()));
     (case d of
        Inl e \<Rightarrow> State_Monad.return (Inl LAUNCH_EX_FAILED)
      | Inr _ \<Rightarrow> do {
          srt_child_setup_unblock_signals S;
          setup_descriptors S (pm_opts self) }) }"

section \<open>Running the main process\<close>

definition forwarded_signals :: "nat list" where
  "forwarded_signals = [SIGHUP, SIGINT, SIGQUIT, SIGTERM, SIGUSR1, SIGUSR2]"

definition terminate_child_cb :: "'w process_calls \<Rightarrow> 'w spawn_calls \<Rightarrow> int \<Rightarrow> nat \<Rightarrow> ('w, unit) state" where
  "terminate_child_cb P S global_child_pid signum =
     (if global_child_pid \<noteq> 0 then do { pc_kill P global_child_pid signum; State_Monad.return () }
      else do { sp_signal_default S signum; sp_raise S signum })"

definition close_parent_copies :: "'w spawn_calls \<Rightarrow> process_manager_options \<Rightarrow> ('w, unit) state" where
  "close_parent_copies S opts = do {
     for_all (\<lambda>fd. if fd > 2 then sp_close S fd else State_Monad.return ()) (po_pass_fds opts);
     for_all (\<lambda>pair. if af_source pair > 2 then sp_close S (af_source pair) else State_Monad.return ()) (po_assign_fds opts) }"

definition wait_for_others :: "nat \<Rightarrow> nat \<Rightarrow> 'w process_calls \<Rightarrow> process_manager_options \<Rightarrow> ('w, (gerror + unit) option) state" where
  "wait_for_others n fuel P opts =
     (if po_terminate_grace_usec opts \<ge> 0
      then srt_subreaper_terminate_all_child_processes n fuel P (po_terminate_wait_usec opts) (po_terminate_grace_usec opts)
      else do {
        r \<leftarrow> srt_wait_for_child_processes fuel P 0;
        State_Monad.return (map_option (map_sum id (\<lambda>_. ())) r) })"

definition wait_for_main :: "nat \<Rightarrow> nat \<Rightarrow> 'w process_calls \<Rightarrow> process_manager \<Rightarrow> ('w, ((gerror + unit) \<times> process_manager) option) state" where
  "wait_for_main n fuel P self = do {
     r \<leftarrow> srt_wait_for_child_processes fuel P (pm_child_pid self);
     (case r of
        None \<Rightarrow> State_Monad.return None
      | Some (Inl e) \<Rightarrow> State_Monad.return (Some (Inl e, self\<lparr> pm_exit_status := LAUNCH_EX_CANNOT_REPORT \<rparr>))
      | Some (Inr wait_status) \<Rightarrow> do {
          q \<leftarrow> wait_for_others n fuel P (pm_opts self);
          State_Monad.return (map_option (\<lambda>res. (res,
            self\<lparr> pm_child_pid := 0, pm_exit_status := srt_wait_status_to_exit_status wait_status \<rparr>)) q) }) }"

definition srt_process_manager_run ::
    "nat \<Rightarrow> nat \<Rightarrow> 'w process_calls \<Rightarrow> 'w spawn_calls \<Rightarrow> process_manager \<Rightarrow> string list \<Rightarrow> string list \<Rightarrow>
     ('w, ((gerror + unit) \<times> process_manager) option) state" where
  "srt_process_manager_run n fuel P S self argv envp =
     (if pm_child_pid self \<noteq> 0 \<or> pm_exit_status self \<noteq> - 1 then State_Monad.return (Some (Inl PRECONDITION_FAILED, self))
      else do {
        (if po_forward_signals (pm_opts self) then for_all (sp_signal_forward S) forwarded_signals else State_Monad.return ());
        r \<leftarrow> sp_spawn S argv envp;
        (case r of
           Inl e \<Rightarrow> State_Monad.return (Some (Inl e, self\<lparr> pm_exit_status :=
             (if e = G_SPAWN_ERROR G_SPAWN_ERROR_NOENT then LAUNCH_EX_NOT_FOUND else LAUNCH_EX_CANNOT_INVOKE) \<rparr>))
         | Inr pid \<Rightarrow> do {
             close_parent_copies S (pm_opts self);
             wait_for_main n fuel P (self\<lparr> pm_child_pid := pid \<rparr>) }) })"

definition srt_process_manager_get_exit_status :: "process_manager \<Rightarrow> int" where
  "srt_process_manager_get_exit_status self = pm_exit_status self"

section \<open>The descriptors of the child\<close>

text \<open>The table of descriptors: the open file and whether it is close-on-exec.\<close>

type_synonym fd_table = "fd \<Rightarrow> (nat \<times> bool) option"

definition with_cloexec :: "bool \<Rightarrow> (nat \<times> bool) option \<Rightarrow> (nat \<times> bool) option" where
  "with_cloexec b = map_option (\<lambda>(file, _). (file, b))"

locale descriptor_calls =
  fixes S :: "'w spawn_calls" and tbl :: "'w \<Rightarrow> fd_table"
  assumes getfd: "run_state (sp_getfd S fd) w = (r, w') \<Longrightarrow> tbl w' = tbl w \<and> (\<forall>b. r = Inr b \<longrightarrow> map_option snd (tbl w fd) = Some b)"
    and setfd: "run_state (sp_setfd S fd b) w = (Inr u, w') \<Longrightarrow> tbl w' = (tbl w)(fd := with_cloexec b (tbl w fd))"
    and dup2: "run_state (sp_dup2 S source target) w = (Inr t, w') \<Longrightarrow> \<exists>file c. tbl w source = Some (file, c) \<and>
        tbl w' = (if source = target then tbl w else (tbl w)(target \<mapsto> (file, False)))"
    and fdwalk: "run_state (sp_fdwalk_set_cloexec S low) w = (u, w') \<Longrightarrow>
        tbl w' = (\<lambda>fd. if fd \<ge> low then with_cloexec True (tbl w fd) else tbl w fd)"
    and other: "run_state (sp_pdeathsig S sig) w = (p, w') \<Longrightarrow> tbl w' = tbl w"
      "run_state (sp_sigmask_empty S) w = (u, w') \<Longrightarrow> tbl w' = tbl w"
      "run_state (sp_signal_default S sig) w = (u, w') \<Longrightarrow> tbl w' = tbl w"

definition assign_step :: "assign_fd \<Rightarrow> fd_table \<Rightarrow> fd_table" where
  "assign_step pair t =
     (if af_source pair = af_target pair then t
      else t(af_target pair := with_cloexec False (t (af_source pair))))"

definition passed_table :: "process_manager_options \<Rightarrow> fd_table \<Rightarrow> fd_table" where
  "passed_table opts t = (\<lambda>fd.
     if fd \<in> set (po_pass_fds opts) then with_cloexec False (t fd)
     else if po_close_fds opts \<and> fd \<ge> 3 then with_cloexec True (t fd) else t fd)"

definition child_table :: "process_manager_options \<Rightarrow> fd_table \<Rightarrow> fd_table" where
  "child_table opts t = fold assign_step (po_assign_fds opts) (passed_table opts t)"

context descriptor_calls begin

lemma clear_cloexec_table:
  "run_state (clear_cloexec S fds') w = (Inr u, w') \<Longrightarrow>
   tbl w' = (\<lambda>fd. if fd \<in> set fds' then with_cloexec False (tbl w fd) else tbl w fd)"
proof (induction fds' arbitrary: w)
  case Nil
  then show ?case by simp
next
  case (Cons fd fds')
  obtain r w1 where r: "run_state (sp_getfd S fd) w = (r, w1)" by (metis surj_pair)
  from getfd [OF r] Cons.prems r obtain c where c: "r = Inr c" "tbl w1 = tbl w" "map_option snd (tbl w fd) = Some c"
    by (cases r) (auto simp: run_state_bind)
  have same: "tbl w = (tbl w)(fd := with_cloexec False (tbl w fd))" if "\<not> c"
    using c(3) that by (auto simp: with_cloexec_def)
  obtain w2 where w2: "tbl w2 = (tbl w)(fd := with_cloexec False (tbl w fd))"
      "run_state (clear_cloexec S fds') w2 = (Inr u, w')"
  proof (cases c)
    case True
    obtain q w2 where q: "run_state (sp_setfd S fd False) w1 = (q, w2)" by (metis surj_pair)
    then have "q = Inr ()" using Cons.prems r c(1) True by (cases q) (auto simp: run_state_bind)
    then show thesis using that [of w2] setfd q Cons.prems r c True by (auto simp: run_state_bind)
  next
    case False
    then show thesis using that [of w1] same Cons.prems r c by (auto simp: run_state_bind)
  qed
  have "with_cloexec False (with_cloexec False x) = with_cloexec False x" for x
    by (cases x) (auto simp: with_cloexec_def)
  then show ?case using Cons.IH [OF w2(2)] w2(1) by (auto simp: fun_eq_iff)
qed

lemma assign_all_table:
  "run_state (assign_all S pairs) w = (Inr u, w') \<Longrightarrow> tbl w' = fold assign_step pairs (tbl w)"
proof (induction pairs arbitrary: w)
  case Nil
  then show ?case by simp
next
  case (Cons pair pairs)
  obtain r w1 where r: "run_state (sp_dup2 S (af_source pair) (af_target pair)) w = (r, w1)" by (metis surj_pair)
  then have q: "r = Inr (af_target pair)" "run_state (assign_all S pairs) w1 = (Inr u, w')"
    using Cons.prems by (auto simp: run_state_bind split: if_splits)
  have "tbl w1 = assign_step pair (tbl w)"
    using dup2 [OF r [unfolded q(1)]] by (auto simp: assign_step_def with_cloexec_def)
  then show ?case using Cons.IH [OF q(2)] by simp
qed

lemma setup_descriptors_table:
  assumes "run_state (setup_descriptors S opts) w = (Inr u, w')"
  shows "tbl w' = child_table opts (tbl w)"
proof -
  obtain w1 where w1: "tbl w1 = (\<lambda>fd. if po_close_fds opts \<and> fd \<ge> 3 then with_cloexec True (tbl w fd) else tbl w fd)"
      "run_state (do { r \<leftarrow> clear_cloexec S (po_pass_fds opts);
         (case r of Inl e \<Rightarrow> State_Monad.return (Inl e) | Inr _ \<Rightarrow> assign_all S (po_assign_fds opts)) }) w1 = (Inr u, w')"
  proof (cases "po_close_fds opts")
    case True
    obtain w1 where r: "run_state (sp_fdwalk_set_cloexec S 3) w = ((), w1)" by (cases "run_state (sp_fdwalk_set_cloexec S 3) w") auto
    have "tbl w1 = (\<lambda>fd. if po_close_fds opts \<and> fd \<ge> 3 then with_cloexec True (tbl w fd) else tbl w fd)"
      using True by (simp add: fdwalk [OF r])
    moreover have "run_state (do { r \<leftarrow> clear_cloexec S (po_pass_fds opts);
         (case r of Inl e \<Rightarrow> State_Monad.return (Inl e) | Inr _ \<Rightarrow> assign_all S (po_assign_fds opts)) }) w1 = (Inr u, w')"
      using assms True r by (simp add: setup_descriptors_def run_state_bind)
    ultimately show thesis by (rule that)
  next
    case False
    then show thesis using that [of w] assms by (simp add: setup_descriptors_def)
  qed
  obtain q w2 where q: "run_state (clear_cloexec S (po_pass_fds opts)) w1 = (q, w2)" by (metis surj_pair)
  with w1(2) have ok: "q = Inr ()" "run_state (assign_all S (po_assign_fds opts)) w2 = (Inr u, w')"
    by (cases q; auto simp: run_state_bind)+
  have "with_cloexec False (with_cloexec True x) = with_cloexec False x" for x
    by (cases x) (auto simp: with_cloexec_def)
  then have "tbl w2 = passed_table opts (tbl w)"
    using clear_cloexec_table [OF q [unfolded ok(1)]] w1(1) by (auto simp: fun_eq_iff passed_table_def)
  then show ?thesis using assign_all_table [OF ok(2)] by (simp add: child_table_def)
qed

lemma unblock_signals_table:
  assumes "run_state (srt_child_setup_unblock_signals S) w = (u, w')"
  shows "tbl w' = tbl w"
proof -
  have all: "run_state (for_all (sp_signal_default S) sigs) w = (u, w') \<Longrightarrow> tbl w' = tbl w" for sigs w w' and u :: unit
    by (induction sigs arbitrary: w) (auto simp: run_state_bind dest: other(3) split: prod.splits)
  obtain w1 where w1: "run_state (sp_sigmask_empty S) w = ((), w1)" by (cases "run_state (sp_sigmask_empty S) w") auto
  then show ?thesis
    using assms all other(2) [OF w1] by (simp add: srt_child_setup_unblock_signals_def run_state_bind)
qed

lemma child_setup_table:
  assumes "run_state (srt_process_manager_child_setup_cb S self) w = (Inr u, w')"
  shows "tbl w' = child_table (pm_opts self) (tbl w)"
proof -
  obtain w1 where w1: "tbl w1 = tbl w" "run_state (do { srt_child_setup_unblock_signals S; setup_descriptors S (pm_opts self) }) w1 = (Inr u, w')"
  proof (cases "po_exit_with_parent (pm_opts self)")
    case True
    obtain p w1 where p: "run_state (sp_pdeathsig S SIGTERM) w = (p, w1)" by (metis surj_pair)
    then show thesis
      using that [of w1] other(1) [OF p] assms True
      by (cases p) (auto simp: srt_process_manager_child_setup_cb_def srt_raise_on_parent_death_def run_state_bind)
  next
    case False
    then show thesis using that [of w] assms by (simp add: srt_process_manager_child_setup_cb_def)
  qed
  obtain v w2 where v: "run_state (srt_child_setup_unblock_signals S) w1 = (v, w2)" by (metis surj_pair)
  then show ?thesis
    using w1 unblock_signals_table [OF v] setup_descriptors_table [of "pm_opts self" w2 u w'] by (simp add: run_state_bind)
qed

end

text \<open>The file that the program finds at a descriptor after \<open>exec\<close>.\<close>

definition inherited :: "fd_table \<Rightarrow> fd \<Rightarrow> nat option" where
  "inherited t fd = (case t fd of Some (file, False) \<Rightarrow> Some file | _ \<Rightarrow> None)"

definition reassigned :: "assign_fd list \<Rightarrow> fd set" where
  "reassigned pairs = set (map af_target (filter (\<lambda>pair. af_source pair \<noteq> af_target pair) pairs))"

lemma assign_other: "fd \<notin> reassigned pairs \<Longrightarrow> fold assign_step pairs t fd = t fd"
proof (induction pairs arbitrary: t)
  case (Cons pair pairs)
  then show ?case by (cases "af_source pair = af_target pair") (auto simp: reassigned_def assign_step_def)
qed simp

lemma assign_last:
  assumes "pairs = pre @ \<lparr> af_target = target, af_source = source \<rparr> # suf" and "source \<noteq> target"
    and "target \<notin> reassigned suf" and "source \<notin> reassigned pre"
  shows "fold assign_step pairs t target = with_cloexec False (t source)"
  using assms assign_other [of target suf] assign_other [of source pre t] by (simp add: assign_step_def)

lemma assign_reassigned:
  "fold assign_step pairs t fd \<noteq> t fd \<Longrightarrow> fd \<in> reassigned pairs"
  using assign_other by blast

lemma inherited_cloexec [simp]:
  "x = with_cloexec False (t fd) \<Longrightarrow> (case x of Some (file, False) \<Rightarrow> Some file | _ \<Rightarrow> None) = map_option fst (t fd)"
  "x = with_cloexec True (t fd) \<Longrightarrow> (case x of Some (file, False) \<Rightarrow> Some file | _ \<Rightarrow> None) = None"
  by (cases "t fd"; auto simp: with_cloexec_def)+

lemma passed_inherited:
  "fd \<in> set (po_pass_fds opts) \<Longrightarrow> inherited (passed_table opts t) fd = map_option fst (t fd)"
  "fd \<notin> set (po_pass_fds opts) \<Longrightarrow> po_close_fds opts \<Longrightarrow> fd \<ge> 3 \<Longrightarrow> inherited (passed_table opts t) fd = None"
  "fd \<notin> set (po_pass_fds opts) \<Longrightarrow> \<not> (po_close_fds opts \<and> fd \<ge> 3) \<Longrightarrow> passed_table opts t fd = t fd"
  by (auto simp: inherited_def passed_table_def)

lemma fst_passed: "map_option fst (passed_table opts t fd) = map_option fst (t fd)"
  by (cases "t fd") (auto simp: passed_table_def with_cloexec_def)

text \<open>C27: The descriptors of the child of the process manager. One that is passed, and is not the target of an assignment from
  another descriptor, is inherited with its file. One that is neither passed nor such a target is closed if the others
  are to be closed and it is above 2; otherwise it stays exactly as it is, inheritable or not. So the standard streams stay
  as they are, and an assignment of a descriptor to itself has no effect, not even to keep it open. The target of an
  assignment from another descriptor gets the file of the source, if it is not assigned again later and
  the source was not itself reassigned before.\<close>

theorem child_setup_descriptors:
  assumes "descriptor_calls S tbl"
    and "run_state (srt_process_manager_child_setup_cb S self) w = (Inr (), w')"
  shows "(\<forall>fd. fd \<notin> reassigned (po_assign_fds (pm_opts self)) \<longrightarrow>
        (if fd \<in> set (po_pass_fds (pm_opts self)) then inherited (tbl w') fd = map_option fst (tbl w fd)
         else if po_close_fds (pm_opts self) \<and> fd \<ge> 3 then inherited (tbl w') fd = None
         else tbl w' fd = tbl w fd))
    \<and> (\<forall>pre target source suf. po_assign_fds (pm_opts self) = pre @ \<lparr> af_target = target, af_source = source \<rparr> # suf \<and>
         source \<noteq> target \<and> target \<notin> reassigned suf \<and> source \<notin> reassigned pre \<longrightarrow>
         inherited (tbl w') target = map_option fst (tbl w source))"
proof -
  let ?opts = "pm_opts self" and ?t = "passed_table (pm_opts self) (tbl w)"
  have final: "tbl w' = fold assign_step (po_assign_fds ?opts) ?t"
    using descriptor_calls.child_setup_table [OF assms] by (simp add: child_table_def)
  have kept: "tbl w' fd = ?t fd" if "fd \<notin> reassigned (po_assign_fds ?opts)" for fd
    unfolding final by (rule assign_other [OF that])
  then have "inherited (tbl w') fd = inherited ?t fd" if "fd \<notin> reassigned (po_assign_fds ?opts)" for fd
    using that by (simp add: inherited_def)
  moreover have "inherited (tbl w') target = map_option fst (tbl w source)"
    if prem: "po_assign_fds ?opts = pre @ \<lparr> af_target = target, af_source = source \<rparr> # suf" "source \<noteq> target"
      "target \<notin> reassigned suf" "source \<notin> reassigned pre" for pre target source suf
    using assign_last [OF prem] fst_passed [of ?opts "tbl w" source] by (simp add: final inherited_def)
  ultimately show ?thesis using kept passed_inherited by (auto split: if_splits)
qed

text \<open>Descriptors in an explicit table.\<close>

definition table_calls :: "fd_table spawn_calls" where
  "table_calls = \<lparr>
     sp_pdeathsig = (\<lambda>_. State_Monad.return (Inr ())),
     sp_set_subreaper = State_Monad.return (Inr ()),
     sp_sigmask_empty = State_Monad.return (),
     sp_signal_default = (\<lambda>_. State_Monad.return ()),
     sp_signal_forward = (\<lambda>_. State_Monad.return ()),
     sp_raise = (\<lambda>_. State_Monad.return ()),
     sp_getfd = (\<lambda>fd. State (\<lambda>t. (case t fd of None \<Rightarrow> Inl EBADF | Some (_, c) \<Rightarrow> Inr c, t))),
     sp_setfd = (\<lambda>fd b. State (\<lambda>t. case t fd of None \<Rightarrow> (Inl EBADF, t) | Some (file, _) \<Rightarrow> (Inr (), t(fd \<mapsto> (file, b))))),
     sp_dup2 = (\<lambda>source target. State (\<lambda>t. case t source of
          None \<Rightarrow> (Inl EBADF, t)
        | Some (file, _) \<Rightarrow> if target < 0 then (Inl EBADF, t)
            else (Inr target, if source = target then t else t(target \<mapsto> (file, False))))),
     sp_fdwalk_set_cloexec = (\<lambda>low. State (\<lambda>t. ((), \<lambda>fd. if fd \<ge> low then with_cloexec True (t fd) else t fd))),
     sp_close = (\<lambda>fd. State (\<lambda>t. ((), t(fd := None)))),
     sp_spawn = (\<lambda>_ _. State_Monad.return (Inr 100)) \<rparr>"

interpretation descriptors: descriptor_calls table_calls "\<lambda>t. t"
  by unfold_locales
    (auto simp: table_calls_def with_cloexec_def split: option.splits if_splits)

definition demo_options :: process_manager_options where
  "demo_options = SRT_PROCESS_MANAGER_OPTIONS_INIT\<lparr> po_assign_fds := [\<lparr> af_target = 1, af_source = 7 \<rparr>, \<lparr> af_target = 5, af_source = 5 \<rparr>],
     po_pass_fds := [4], po_close_fds := True \<rparr>"

definition demo_table :: fd_table where
  "demo_table = [0 \<mapsto> (10, False), 1 \<mapsto> (11, False), 2 \<mapsto> (12, False), 4 \<mapsto> (14, True), 5 \<mapsto> (15, False), 7 \<mapsto> (17, True)]"

text \<open>The descriptor 5, assigned to itself, is not inherited.\<close>

theorem child_setup_descriptors_witness:
  "\<exists>t'. run_state (srt_process_manager_child_setup_cb table_calls \<lparr> pm_opts = demo_options, pm_exit_status = - 1, pm_child_pid = 0 \<rparr>)
       demo_table = (Inr (), t')
     \<and> map (inherited t') [0, 1, 2, 4, 5, 7] = [Some 10, Some 17, Some 12, Some 14, None, None]"
proof -
  let ?self = "\<lparr> pm_opts = demo_options, pm_exit_status = - 1, pm_child_pid = 0 \<rparr>"
  obtain r t' where run: "run_state (srt_process_manager_child_setup_cb table_calls ?self) demo_table = (r, t')" by (metis surj_pair)
  have "fst (run_state (srt_process_manager_child_setup_cb table_calls ?self) demo_table) = Inr ()" by code_simp
  then have ok: "run_state (srt_process_manager_child_setup_cb table_calls ?self) demo_table = (Inr (), t')" using run by simp
  have opts: "po_assign_fds demo_options = [] @ \<lparr> af_target = 1, af_source = 7 \<rparr> # [\<lparr> af_target = 5, af_source = 5 \<rparr>]"
    "po_pass_fds demo_options = [4]" "po_close_fds demo_options" "reassigned (po_assign_fds demo_options) = {1}"
    "reassigned [\<lparr> af_target = 5, af_source = 5 \<rparr>] = {}" "reassigned [] = {}"
    by (auto simp: demo_options_def reassigned_def)
  note facts = child_setup_descriptors [OF descriptors.descriptor_calls_axioms ok, simplified opts process_manager.simps]
  have "inherited t' 1 = map_option fst (demo_table 7)"
    using facts [THEN conjunct2, rule_format, of "[]" 1 7] opts by simp
  moreover have "inherited t' fd = map_option fst (demo_table fd)" if "fd \<in> {0, 2, 4}" for fd
    using facts [THEN conjunct1, rule_format, of fd] that by (auto simp: inherited_def demo_table_def reassigned_def)
  moreover have "inherited t' fd = None" if "fd \<in> {5, 7}" for fd
    using facts [THEN conjunct1, rule_format, of fd] that by (auto simp: reassigned_def)
  ultimately show ?thesis using ok by (auto simp: demo_table_def)
qed

section \<open>What a run does\<close>

definition logged_spawn :: "'w spawn_calls \<Rightarrow> ('w \<times> process_event list) spawn_calls" where
  "logged_spawn S = \<lparr>
     sp_pdeathsig = (\<lambda>s. log_call (sp_pdeathsig S s) (\<lambda>_. E_other)),
     sp_set_subreaper = log_call (sp_set_subreaper S) (\<lambda>_. E_other),
     sp_sigmask_empty = log_call (sp_sigmask_empty S) (\<lambda>_. E_other),
     sp_signal_default = (\<lambda>s. log_call (sp_signal_default S s) (\<lambda>_. E_other)),
     sp_signal_forward = (\<lambda>s. log_call (sp_signal_forward S s) (\<lambda>_. E_other)),
     sp_raise = (\<lambda>s. log_call (sp_raise S s) (\<lambda>_. E_other)),
     sp_getfd = (\<lambda>fd. log_call (sp_getfd S fd) (\<lambda>_. E_other)),
     sp_setfd = (\<lambda>fd b. log_call (sp_setfd S fd b) (\<lambda>_. E_other)),
     sp_dup2 = (\<lambda>s t. log_call (sp_dup2 S s t) (\<lambda>_. E_other)),
     sp_fdwalk_set_cloexec = (\<lambda>low. log_call (sp_fdwalk_set_cloexec S low) (\<lambda>_. E_other)),
     sp_close = (\<lambda>fd. log_call (sp_close S fd) (\<lambda>_. E_close fd)),
     sp_spawn = (\<lambda>argv envp. log_call (sp_spawn S argv envp) E_spawn) \<rparr>"

lemma logged_spawn_simps [simp]:
  "sp_signal_forward (logged_spawn S) s = log_call (sp_signal_forward S s) (\<lambda>_. E_other)"
  "sp_close (logged_spawn S) fd = log_call (sp_close S fd) (\<lambda>_. E_close fd)"
  "sp_spawn (logged_spawn S) argv envp = log_call (sp_spawn S argv envp) E_spawn"
  by (simp_all add: logged_spawn_def)

lemma for_all_logged:
  assumes "\<And>x w l. \<exists>w'. run_state (f x) (w, l) = ((), (w', l @ g x))"
  shows "\<exists>w'. run_state (for_all f xs) (w, l) = ((), (w', l @ concat (map g xs)))"
proof (induction xs arbitrary: w l)
  case (Cons x xs)
  obtain w1 where "run_state (f x) (w, l) = ((), (w1, l @ g x))" using assms by blast
  moreover obtain w2 where "run_state (for_all f xs) (w1, l @ g x) = ((), (w2, (l @ g x) @ concat (map g xs)))"
    using Cons.IH by blast
  ultimately show ?case by (simp add: run_state_bind)
qed simp

lemma run_logged_unit: "\<exists>w'. run_state (log_call m (\<lambda>_. c)) (w, l) = ((), (w', l @ [c]))"
  by (auto simp: log_call_def split: prod.splits)

text \<open>The descriptors that the parent closes, in order.\<close>

definition parent_closes :: "process_manager_options \<Rightarrow> fd list" where
  "parent_closes opts = filter (\<lambda>fd. fd > 2) (po_pass_fds opts @ map af_source (po_assign_fds opts))"

lemma concat_filter: "concat (map (\<lambda>x. if Q (h x) then [g (h x)] else []) xs) = map g (filter Q (map h xs))"
  by (induction xs) auto

lemma close_parent_copies_log:
  "\<exists>w'. run_state (close_parent_copies (logged_spawn S) opts) (w, l) = ((), (w', l @ map E_close (parent_closes opts)))"
proof -
  let ?f = "\<lambda>fd. if fd > 2 then sp_close (logged_spawn S) fd else State_Monad.return ()"
  have f: "\<exists>w'. run_state (?f fd) (w, l) = ((), (w', l @ (if fd > 2 then [E_close fd] else [])))" for fd w l
    using run_logged_unit by auto
  obtain w1 where w1: "run_state (for_all ?f (po_pass_fds opts)) (w, l)
      = ((), (w1, l @ concat (map (\<lambda>fd. if fd > 2 then [E_close fd] else []) (po_pass_fds opts))))"
    using for_all_logged [where f = ?f, OF f] by blast
  obtain w2 where w2: "run_state (for_all (\<lambda>pair. ?f (af_source pair)) (po_assign_fds opts)) (w1, m)
      = ((), (w2, m @ concat (map (\<lambda>pair. if af_source pair > 2 then [E_close (af_source pair)] else []) (po_assign_fds opts))))"
    if "m = l @ concat (map (\<lambda>fd. if fd > 2 then [E_close fd] else []) (po_pass_fds opts))" for m
    using for_all_logged [where f = "\<lambda>pair. ?f (af_source pair)", OF f] by blast
  show ?thesis
    unfolding close_parent_copies_def run_state_bind w1 prod.case w2 [OF refl]
    using concat_filter [of "\<lambda>fd. fd > 2" "\<lambda>fd. fd" E_close "po_pass_fds opts"]
      concat_filter [of "\<lambda>fd. fd > 2" af_source E_close "po_assign_fds opts"]
    by (auto simp: parent_closes_def)
qed

text \<open>Waiting only waits, and only gives the status that was reported for the main process.\<close>

lemma wait_log:
  "run_state (srt_wait_for_child_processes fuel (logged_processes P) main) (w, l0) = (r, (w', l)) \<Longrightarrow>
   \<exists>ws. l = l0 @ map E_wait ws \<and> (case r of
       Some (Inr st) \<Rightarrow> Inr (main, st) \<in> set ws \<or> \<not> main > 0 \<and> Inl ECHILD \<in> set ws
     | _ \<Rightarrow> \<forall>st. Inr (main, st) \<notin> set ws)"
proof (induction fuel arbitrary: w l0)
  case 0
  then show ?case by auto
next
  case (Suc fuel)
  obtain q w1 where q: "run_state (pc_wait P) w = (q, w1)" by (metis surj_pair)
  have step: "run_state (pc_wait (logged_processes P)) (w, l0) = (q, (w1, l0 @ [E_wait q]))"
    by (simp add: log_call_def q)
  note run = Suc.prems [unfolded srt_wait_for_child_processes.simps run_state_bind step prod.case]
  have again: ?case if prem: "run_state (srt_wait_for_child_processes fuel (logged_processes P) main) (w1, l0 @ [E_wait q]) = (r, (w', l))"
      "\<forall>st. q \<noteq> Inr (main, st)"
  proof -
    from Suc.IH [OF prem(1)] obtain ws where "l = (l0 @ [E_wait q]) @ map E_wait ws"
      "case r of Some (Inr st) \<Rightarrow> Inr (main, st) \<in> set ws \<or> \<not> main > 0 \<and> Inl ECHILD \<in> set ws | _ \<Rightarrow> \<forall>st. Inr (main, st) \<notin> set ws"
      by blast
    then show ?thesis using prem(2) by (intro exI [of _ "q # ws"]) (auto split: option.splits sum.splits)
  qed
  show ?case
  proof (cases q)
    case (Inl e)
    show ?thesis
    proof (cases "e = EINTR")
      case True
      then show ?thesis using again run Inl by simp
    next
      case False
      then show ?thesis using run Inl by (intro exI [of _ "[q]"]) (auto split: if_splits)
    qed
  next
    case (Inr x)
    obtain died status where x: "x = (died, status)" by (cases x)
    show ?thesis
    proof (cases "died = main")
      case True
      then show ?thesis using run Inr x by (intro exI [of _ "[q]"]) auto
    next
      case False
      then show ?thesis using again run Inr x by simp
    qed
  qed
qed

text \<open>Waiting for the rest: no signal without a grace period, and success only without children.\<close>

definition others_log :: "process_manager_options \<Rightarrow> gerror + unit \<Rightarrow> process_event list \<Rightarrow> bool" where
  "others_log opts r l =
     ((\<forall>pre c s q suf. l = pre @ E_kill c s q # suf \<longrightarrow> po_terminate_grace_usec opts \<ge> 0
         \<and> signal_allowed (po_terminate_wait_usec opts) (po_terminate_grace_usec opts) pre c s)
      \<and> (r = Inr () \<longrightarrow> E_waitpid (Inl ECHILD) \<in> set l \<or> E_wait (Inl ECHILD) \<in> set l \<or> (\<exists>st. E_wait (Inr (0, st)) \<in> set l)))"

lemma wait_for_others_log:
  assumes "run_state (wait_for_others n fuel (logged_processes P) opts) (w, l0) = (Some r, (w', l))"
  shows "\<exists>l1. l = l0 @ l1 \<and> others_log opts r l1"
proof (cases "po_terminate_grace_usec opts \<ge> 0")
  case True
  let ?m = "srt_subreaper_terminate_all_child_processes n fuel (logged_processes P) (po_terminate_wait_usec opts) (po_terminate_grace_usec opts)"
  obtain q w1 l1 where q: "run_state ?m (w, []) = (q, (w1, l1))" by (metis surj_pair)
  then have "run_state ?m (w, l0) = (q, (w1, l0 @ l1))" by (rule framesD [OF frames_terminate])
  then have "q = Some r" "l = l0 @ l1" using assms True by (auto simp: wait_for_others_def)
  then show ?thesis using terminate_good [OF q] True by (auto simp: others_log_def good_def protocol_def)
next
  case False
  obtain q w1 l1 where q: "run_state (srt_wait_for_child_processes fuel (logged_processes P) 0) (w, l0) = (q, (w1, l1))"
    by (metis surj_pair)
  then obtain x where x: "l = l1" "q = Some x" "r = map_sum id (\<lambda>_. ()) x"
    using assms False by (auto simp: wait_for_others_def run_state_bind)
  from wait_log [OF q] obtain ws where ws: "l1 = l0 @ map E_wait ws"
      "case q of Some (Inr st) \<Rightarrow> Inr (0, st) \<in> set ws \<or> \<not> (0::int) > 0 \<and> Inl ECHILD \<in> set ws | _ \<Rightarrow> \<forall>st. Inr (0, st) \<notin> set ws"
    by blast
  have "map E_wait ws \<noteq> pre @ E_kill c s p # suf" for pre c s p suf
    by (auto simp: map_eq_append_conv)
  then have "others_log opts r (map E_wait ws)"
    using ws(2) x(2,3) by (cases x) (auto simp: others_log_def)
  then show ?thesis using ws(1) x(1) by blast
qed

definition main_outcome :: "process_manager_options \<Rightarrow> int \<Rightarrow> gerror + unit \<Rightarrow> process_manager \<Rightarrow> process_event list \<Rightarrow> bool" where
  "main_outcome opts pid r self' l =
     (\<exists>ws others. l = map E_wait ws @ others \<and>
       (if \<exists>st. Inr (pid, st) \<in> set ws
        then (\<exists>st. Inr (pid, st) \<in> set ws \<and> pm_exit_status self' = srt_wait_status_to_exit_status st)
          \<and> pm_child_pid self' = 0 \<and> others_log opts r others
        else others = [] \<and> pm_exit_status self' = LAUNCH_EX_CANNOT_REPORT \<and> (\<exists>e. r = Inl e)))"

lemma wait_for_main_log:
  assumes "run_state (wait_for_main n fuel (logged_processes P) self) (w, l0) = (Some (r, self'), (w', l))"
    and "pm_child_pid self > 0"
  shows "\<exists>l1. l = l0 @ l1 \<and> main_outcome (pm_opts self) (pm_child_pid self) r self' l1"
proof -
  obtain q w1 m where q: "run_state (srt_wait_for_child_processes fuel (logged_processes P) (pm_child_pid self)) (w, l0) = (q, (w1, m))"
    by (metis surj_pair)
  from wait_log [OF q] obtain ws where ws: "m = l0 @ map E_wait ws" "case q of
       Some (Inr st) \<Rightarrow> Inr (pm_child_pid self, st) \<in> set ws \<or> \<not> pm_child_pid self > 0 \<and> Inl ECHILD \<in> set ws
     | _ \<Rightarrow> \<forall>st. Inr (pm_child_pid self, st) \<notin> set ws" by blast
  note run = assms(1) [unfolded wait_for_main_def run_state_bind q prod.case]
  show ?thesis
  proof (cases q)
    case None
    then show ?thesis using run by simp
  next
    case (Some x)
    show ?thesis
    proof (cases x)
      case (Inl e)
      then have "l = m" "r = Inl e" "self' = self\<lparr> pm_exit_status := LAUNCH_EX_CANNOT_REPORT \<rparr>"
        using run Some by auto
      then show ?thesis using ws Some Inl by (auto simp: main_outcome_def intro!: exI [of _ ws])
    next
      case (Inr st)
      obtain p w2 l2 where p: "run_state (wait_for_others n fuel (logged_processes P) (pm_opts self)) (w1, m) = (p, (w2, l2))"
        by (metis surj_pair)
      with run Some Inr obtain res where res: "p = Some res" "r = res" "l = l2"
          "self' = self\<lparr> pm_child_pid := 0, pm_exit_status := srt_wait_status_to_exit_status st \<rparr>"
        by (cases p) (auto simp: run_state_bind)
      from wait_for_others_log [OF p [unfolded res(1)]] obtain l1 where l1: "l2 = m @ l1" "others_log (pm_opts self) res l1" by blast
      have st: "Inr (pm_child_pid self, st) \<in> set ws" using ws(2) Some Inr assms(2) by simp
      then have "main_outcome (pm_opts self) (pm_child_pid self) r self' (map E_wait ws @ l1)"
        unfolding main_outcome_def using l1(2) res(2,4) by (intro exI [of _ ws] exI [of _ l1]) auto
      then show ?thesis using l1(1) ws(1) res(3) by simp
    qed
  qed
qed

text \<open>C26: A run of the main process, whatever the kernel answers. If it cannot be started, the exit status is 127 when it was
  not found and 126 otherwise, and nothing else happens. Otherwise the parent first closes its copies of the descriptors
  above 2 that were passed or assigned. Then it only waits, until the main process is reported to have
  exited: the exit status is made from that report, or is 255 with an error if there is none. Only afterwards are
  other processes sent signals, following the protocol, and only with a grace period; success means that no
  child is left.\<close>

theorem srt_process_manager_run_outcome:
  assumes "run_state (srt_process_manager_run n fuel (logged_processes P) (logged_spawn S) self argv envp) (w, []) = (Some (r, self'), (w', l))"
    and "pm_child_pid self = 0" and "pm_exit_status self = - 1" and "\<And>x pid x'. run_state (sp_spawn S argv envp) x = (Inr pid, x') \<Longrightarrow> pid > 0"
  shows "\<exists>before q rest. l = before @ E_spawn q # rest \<and> set before \<subseteq> {E_other} \<and>
    (case q of
       Inl e \<Rightarrow> rest = [] \<and> r = Inl e \<and> pm_exit_status self' = (if e = G_SPAWN_ERROR G_SPAWN_ERROR_NOENT then 127 else 126)
     | Inr pid \<Rightarrow> \<exists>l1. rest = map E_close (parent_closes (pm_opts self)) @ l1 \<and> main_outcome (pm_opts self) pid r self' l1)"
proof -
  let ?forward = "if po_forward_signals (pm_opts self) then for_all (sp_signal_forward (logged_spawn S)) forwarded_signals
    else State_Monad.return ()"
  obtain w1 before where f: "run_state ?forward (w, []) = ((), (w1, before))" "set before \<subseteq> {E_other}"
  proof (cases "po_forward_signals (pm_opts self)")
    case True
    obtain w1 where "run_state (for_all (sp_signal_forward (logged_spawn S)) forwarded_signals) (w, [])
        = ((), (w1, [] @ concat (map (\<lambda>_. [E_other]) forwarded_signals)))"
      using for_all_logged [where f = "sp_signal_forward (logged_spawn S)" and g = "\<lambda>_. [E_other]" and xs = forwarded_signals and w = w and l = "[]"]
        run_logged_unit by (metis logged_spawn_simps(1))
    then show thesis using that [of w1 "concat (map (\<lambda>_. [E_other]) forwarded_signals)"] True by auto
  next
    case False
    then show thesis using that [of w "[]"] by simp
  qed
  obtain q w2 where q: "run_state (sp_spawn S argv envp) w1 = (q, w2)" by (metis surj_pair)
  have spawn: "run_state (sp_spawn (logged_spawn S) argv envp) (w1, before) = (q, (w2, before @ [E_spawn q]))"
    by (simp add: log_call_def q)
  have enter: "\<not> (pm_child_pid self \<noteq> 0 \<or> pm_exit_status self \<noteq> - 1)" using assms(2,3) by simp
  note run = assms(1) [unfolded srt_process_manager_run_def if_not_P [OF enter] run_state_bind f(1) spawn prod.case]
  show ?thesis
  proof (cases q)
    case (Inl e)
    then show ?thesis
      using run f(2) by (auto simp: LAUNCH_EX_NOT_FOUND_def LAUNCH_EX_CANNOT_INVOKE_def intro!: exI [of _ before])
  next
    case (Inr pid)
    obtain w3 where c: "run_state (close_parent_copies (logged_spawn S) (pm_opts self)) (w2, before @ [E_spawn q])
        = ((), (w3, (before @ [E_spawn q]) @ map E_close (parent_closes (pm_opts self))))"
      by (rule exE [OF close_parent_copies_log [of S "pm_opts self" w2 "before @ [E_spawn q]"]])
    have main: "run_state (wait_for_main n fuel (logged_processes P) (self\<lparr> pm_child_pid := pid \<rparr>))
        (w3, (before @ [E_spawn q]) @ map E_close (parent_closes (pm_opts self))) = (Some (r, self'), (w', l))"
      using run [unfolded Inr sum.case run_state_bind c [unfolded Inr] prod.case] Inr by simp
    have "pid > 0" using assms(4) q Inr by blast
    then show ?thesis
      using wait_for_main_log [OF main] f(2) Inr by (auto intro!: exI [of _ before])
  qed
qed

text \<open>A main process 5 that exits with status 1 and leaves the processes 4 and 7 behind.\<close>

definition demo_spawn :: "demo_children spawn_calls" where
  "demo_spawn = \<lparr>
     sp_pdeathsig = (\<lambda>_. State_Monad.return (Inr ())),
     sp_set_subreaper = State_Monad.return (Inr ()),
     sp_sigmask_empty = State_Monad.return (),
     sp_signal_default = (\<lambda>_. State_Monad.return ()),
     sp_signal_forward = (\<lambda>_. State_Monad.return ()),
     sp_raise = (\<lambda>_. State_Monad.return ()),
     sp_getfd = (\<lambda>_. State_Monad.return (Inr False)),
     sp_setfd = (\<lambda>_ _. State_Monad.return (Inr ())),
     sp_dup2 = (\<lambda>_ target. State_Monad.return (Inr target)),
     sp_fdwalk_set_cloexec = (\<lambda>_. State_Monad.return ()),
     sp_close = (\<lambda>_. State_Monad.return ()),
     sp_spawn = (\<lambda>_ _. State_Monad.return (Inr 5)) \<rparr>"

definition demo_waiting :: "demo_children process_calls" where
  "demo_waiting = demo_processes\<lparr> pc_wait := State_Monad.return (Inr (5, 256)) \<rparr>"

definition demo_manager :: process_manager where
  "demo_manager = \<lparr> pm_opts = demo_options\<lparr> po_terminate_grace_usec := 0, po_subreaper := True, po_forward_signals := True \<rparr>,
     pm_exit_status = - 1, pm_child_pid = 0 \<rparr>"

definition demo_managed :: "((gerror + unit) \<times> process_manager) option \<times> demo_children \<times> process_event list" where
  "demo_managed = run_state (srt_process_manager_run 10 10 (logged_processes demo_waiting) (logged_spawn demo_spawn) demo_manager [''prog''] [])
     (\<lparr> dc_alive = [4, 7], dc_dead = [], dc_time = 0 \<rparr>, [])"

lemma demo_managed_result:
  "map_option (\<lambda>(r, self). (r, pm_exit_status self)) (fst demo_managed) = Some (Inr (), 1)"
  "List.map_filter is_kill (snd (snd demo_managed)) = [(4, 9), (4, 18), (7, 9), (7, 18)]"
  by code_simp+

theorem srt_process_manager_run_outcome_witness:
  "\<exists>self' w' l before q rest. demo_managed = (Some (Inr (), self'), (w', l)) \<and> pm_exit_status self' = 1
    \<and> l = before @ E_spawn q # rest \<and> set before \<subseteq> {E_other} \<and> (\<exists>pid l1. q = Inr pid \<and> rest = map E_close [4, 7, 5] @ l1)"
proof -
  obtain x w' l where run: "demo_managed = (x, (w', l))" by (metis surj_pair)
  from demo_managed_result(1) obtain self' where x: "x = Some (Inr (), self')" "pm_exit_status self' = 1"
    unfolding run by (cases x) auto
  note run' = run [unfolded x(1)]
  have closes: "parent_closes (pm_opts demo_manager) = [4, 7, 5]"
    by (simp add: parent_closes_def demo_manager_def demo_options_def)
  have init: "pm_child_pid demo_manager = 0" "pm_exit_status demo_manager = - 1" by (simp_all add: demo_manager_def)
  have "\<exists>before q rest. l = before @ E_spawn q # rest \<and> set before \<subseteq> {E_other} \<and>
    (case q of
       Inl e \<Rightarrow> rest = [] \<and> Inr () = (Inl e :: gerror + unit) \<and> pm_exit_status self' = (if e = G_SPAWN_ERROR G_SPAWN_ERROR_NOENT then 127 else 126)
     | Inr pid \<Rightarrow> \<exists>l1. rest = map E_close (parent_closes (pm_opts demo_manager)) @ l1 \<and> main_outcome (pm_opts demo_manager) pid (Inr ()) self' l1)"
    by (rule srt_process_manager_run_outcome [OF run' [unfolded demo_managed_def] init]) (auto simp: demo_spawn_def)
  then obtain before q rest where o: "l = before @ E_spawn q # rest" "set before \<subseteq> {E_other}"
    "case q of Inl e \<Rightarrow> rest = [] \<and> Inr () = (Inl e :: gerror + unit) \<and> pm_exit_status self' = (if e = G_SPAWN_ERROR G_SPAWN_ERROR_NOENT then 127 else 126)
     | Inr pid \<Rightarrow> \<exists>l1. rest = map E_close (parent_closes (pm_opts demo_manager)) @ l1 \<and> main_outcome (pm_opts demo_manager) pid (Inr ()) self' l1"
    by blast
  then have "\<exists>pid l1. q = Inr pid \<and> rest = map E_close [4, 7, 5] @ l1"
    unfolding closes by (cases q) auto
  then show ?thesis using run' x(2) o(1,2) by blast
qed

section \<open>Exit statuses\<close>

text \<open>The exit status in arithmetic: the second byte of the wait status of a process that has exited, 128 plus the
  number of the signal that killed it, and 255 otherwise; always between 0 and 255.\<close>

theorem srt_wait_status_to_exit_status_value:
  "srt_wait_status_to_exit_status s =
     (if uint s mod 128 = 0 then uint s div 256 mod 256 else if uint s mod 128 = 127 then 255 else 128 + uint s mod 128)
   \<and> 0 \<le> srt_wait_status_to_exit_status s \<and> srt_wait_status_to_exit_status s \<le> 255"
proof -
  have sig: "WTERMSIG s = take_bit 7 s"
    by (simp add: WTERMSIG_def take_bit_eq_mask mask_eq_exp_minus_1)
  have u: "uint (take_bit 7 s) = uint s mod 128"
    unfolding unsigned_take_bit_eq by (simp add: take_bit_eq_mod)
  have "WEXITSTATUS s = take_bit 8 (drop_bit 8 s)"
    by (simp add: WEXITSTATUS_def drop_bit_and take_bit_eq_mask mask_eq_exp_minus_1)
  moreover have "uint s mod 4294967296 = uint s" using uint_lt2p [of s] by simp
  ultimately have e: "uint (WEXITSTATUS s) = uint s div 256 mod 256"
    by (simp add: unsigned_take_bit_eq unsigned_drop_bit_eq) (simp add: take_bit_eq_mod drop_bit_eq_div)
  have z: "(WTERMSIG s = 0) = (uint s mod 128 = 0)" "(WTERMSIG s = 0x7F) = (uint s mod 128 = 127)"
    unfolding sig u [symmetric] by (simp_all add: word_uint_eq_iff)
  have r: "srt_wait_status_to_exit_status s =
     (if uint s mod 128 = 0 then uint s div 256 mod 256 else if uint s mod 128 = 127 then 255 else 128 + uint s mod 128)"
    unfolding srt_wait_status_to_exit_status_def WIFEXITED_def WIFSIGNALED_def z e LAUNCH_EX_CANNOT_REPORT_def
    by (simp add: sig u)
  have "0 \<le> uint s mod 128" "uint s mod 128 < 128" "0 \<le> uint s div 256 mod 256" "uint s div 256 mod 256 < 256"
    by simp_all
  then show ?thesis unfolding r by (auto simp: less_le)
qed

section \<open>Descriptors on the command line\<close>

lemma parse_fd_print:
  assumes "0 \<le> fd" and "fd \<le> G_MAXINT" and "rest = [] \<or> \<not> is_base_digit 10 (hd rest)"
  shows "parse_fd (decimal fd @ rest) = Some (fd, rest)"
proof -
  let ?ds = "print_nat 10 (nat fd)"
  have "strto_scan 10 (?ds @ rest) = Some (False, digits_value 10 ?ds, rest)"
    by (rule strto_scan_digits) (use assms(3) print_nat_digits [of 10 "nat fd"] print_nat_nonempty [of 10] in auto)
  then have "strtoll (?ds @ rest) 10 = (fd, rest)"
    using assms(1,2) by (simp add: strtoll_def print_nat_value G_MAXINT_def)
  moreover have "rest \<noteq> ?ds @ rest" using print_nat_nonempty [of 10] by simp
  ultimately show ?thesis using assms(1,2) by (simp add: parse_fd_def decimal_def)
qed

lemma parse_fd_range: "parse_fd value = Some (fd, rest) \<Longrightarrow> 0 \<le> fd \<and> fd \<le> G_MAXINT"
  by (auto simp: parse_fd_def Let_def split: if_splits prod.splits)

text \<open>C28: An assignment on the command line that is accepted has both numbers in the range of \<open>int\<close>, from a source that is
  open, and only appends to the assignments; the printed form of any such pair is accepted as that pair, if the
  source is open.\<close>

theorem assign_fd_cli_correct:
  "(\<forall>value self' w'. run_state (assign_fd_cli S self value) w = (Inr self', w') \<longrightarrow>
     (\<exists>target source c. 0 \<le> target \<and> target \<le> G_MAXINT \<and> 0 \<le> source \<and> source \<le> G_MAXINT
       \<and> run_state (sp_getfd S source) w = (Inr c, w') \<and> self' = take_fd_assignment self target source))
   \<and> (\<forall>t s c w'. 0 \<le> t \<and> t \<le> G_MAXINT \<and> 0 \<le> s \<and> s \<le> G_MAXINT \<and> run_state (sp_getfd S s) w = (Inr c, w') \<longrightarrow>
     run_state (assign_fd_cli S self (decimal t @ ''='' @ decimal s)) w = (Inr (take_fd_assignment self t s), w'))"
proof (intro conjI allI impI, goal_cases)
  case (1 v self' w')
  then show ?case unfolding assign_fd_cli_def
    by (auto simp: run_state_bind dest: parse_fd_range split: option.splits prod.splits sum.splits if_splits)
next
  case (2 t s c w')
  then have "parse_fd (decimal t @ ''='' @ decimal s) = Some (t, ''='' @ decimal s)" "parse_fd (decimal s) = Some (s, [])"
    using parse_fd_print [of t "''='' @ decimal s"] parse_fd_print [of s "[]"]
    by (auto simp: is_base_digit_def g_ascii_isdigit_def)
  then show ?case using 2 by (simp add: assign_fd_cli_def run_state_bind)
qed

theorem assign_fd_cli_correct_witness:
  "run_state (assign_fd_cli table_calls demo_options (decimal 9 @ ''='' @ decimal 4)) demo_table
     = (Inr (take_fd_assignment demo_options 9 4), demo_table)"
  using assign_fd_cli_correct [of table_calls demo_options demo_table, THEN conjunct2, rule_format, of 9 4 True demo_table]
  by (simp add: table_calls_def demo_table_def G_MAXINT_def)

end
