(* ===== verification/TreeCopy.thy ===== *)
theory TreeCopy imports Kernel Glib "HOL-Library.Multiset" begin

text \<open>
  Copying a directory tree by hard links (\<open>pressure-vessel/tree-copy.c\<close>), optionally merging \<open>/bin\<close>, \<open>/sbin\<close> and \<open>/lib*\<close>
  into \<open>/usr\<close>. The calls are fields of the record \<open>copy_calls\<close>; \<open>nftw\<close> is one of them, which yields the next entry
  each time, so that the walk may depend on what was copied. \<open>logged_copy\<close> records all calls. One unit of fuel is used
  for each entry.
\<close>

section \<open>Calls\<close>

datatype copy_flag = PV_COPY_FLAGS_USRMERGE | PV_COPY_FLAGS_EXPECT_HARD_LINKS | PV_COPY_FLAGS_CHMOD_MAY_FAIL

text \<open>What \<open>nftw\<close> passes to its callback: the path, the mode and times of its \<open>struct stat\<close>, and the type flag.\<close>

record copy_entry =
  ce_path :: string
  ce_mode :: "32 word"
  ce_times :: "int \<times> int"
  ce_type :: ftw_type

record 'w copy_calls =
  cc_nftw_next :: "string \<Rightarrow> ('w, copy_entry option) sys"
  cc_open :: "string \<Rightarrow> open_flag set \<Rightarrow> ('w, fd) sys"
  cc_mkstemp :: "string \<Rightarrow> open_flag set \<Rightarrow> 32 word \<Rightarrow> ('w, fd \<times> string) sys"  \<comment> \<open>with the name that was made from the template\<close>
  cc_copy_bytes :: "fd \<Rightarrow> fd \<Rightarrow> ('w, unit) sys"
  cc_fchmod :: "fd \<Rightarrow> 32 word \<Rightarrow> ('w, unit) sys"
  cc_access :: "string \<Rightarrow> access_mode set \<Rightarrow> ('w, unit) sys"
  cc_futimens :: "fd \<Rightarrow> int \<times> int \<Rightarrow> ('w, unit) sys"
  cc_close :: "fd \<Rightarrow> ('w, unit) state"
  cc_rename :: "string \<Rightarrow> string \<Rightarrow> ('w, unit) sys"
  cc_unlink :: "string \<Rightarrow> ('w, unit) sys"
  cc_link :: "string \<Rightarrow> string \<Rightarrow> ('w, unit) sys"
  cc_symlink :: "string \<Rightarrow> string \<Rightarrow> ('w, unit) sys"
  cc_readlink :: "string \<Rightarrow> ('w, string) sys"
  cc_lstat :: "string \<Rightarrow> ('w, 32 word) sys"  \<comment> \<open>the mode, by \<open>fstatat\<close> with \<open>AT_SYMLINK_NOFOLLOW\<close>\<close>
  cc_mkdir :: "string \<Rightarrow> 32 word \<Rightarrow> ('w, unit) sys"

definition srt_stat_get_permissions :: "32 word \<Rightarrow> 32 word" where
  "srt_stat_get_permissions mode = mode AND 0xFFF"

section \<open>Directories with their ancestors\<close>

text \<open>After \<open>ENOENT\<close> the parent is made, and \<open>mkdirat\<close> tried once more. Whatever exists already may not be a directory; then
  the next call below it fails.\<close>

definition mkdir_result :: "errno + unit \<Rightarrow> gerror + unit" where
  "mkdir_result r = (case r of Inr _ \<Rightarrow> Inr () | Inl e \<Rightarrow> if e = EEXIST then Inr () else Inl (throw_errno e))"

function mkdir_p_at_internal :: "'w copy_calls \<Rightarrow> string \<Rightarrow> 32 word \<Rightarrow> ('w, unit) io"
  and glnx_shutil_mkdir_p_at :: "'w copy_calls \<Rightarrow> string \<Rightarrow> 32 word \<Rightarrow> ('w, unit) io" where
  "mkdir_p_at_internal C path mode = do {
     r \<leftarrow> cc_mkdir C path mode;
     (if r = Inl ENOENT
      then (case strrchr path CHR ''/'' of
          None \<Rightarrow> State_Monad.return (Inl (throw_errno ENOENT))
        | Some (parent, _) \<Rightarrow> do {
            q \<leftarrow> glnx_shutil_mkdir_p_at C parent mode;
            (case q of
               Inl e \<Rightarrow> State_Monad.return (Inl e)
             | Inr _ \<Rightarrow> do { r' \<leftarrow> cc_mkdir C path mode; State_Monad.return (mkdir_result r') }) })
      else State_Monad.return (mkdir_result r)) }"
| "glnx_shutil_mkdir_p_at C path mode = do {
     st \<leftarrow> cc_lstat C path;
     (case st of
        Inr m \<Rightarrow> if S_ISDIR m then State_Monad.return (Inr ()) else mkdir_p_at_internal C path mode
      | Inl _ \<Rightarrow> mkdir_p_at_internal C path mode) }"
  by pat_completeness auto
termination
  by (relation "measure (\<lambda>x. case x of Inl (C, p, m) \<Rightarrow> 2 * length p | Inr (C, p, m) \<Rightarrow> Suc (2 * length p))")
    (auto simp: strrchr_Some_iff)

declare mkdir_p_at_internal.simps [simp del] glnx_shutil_mkdir_p_at.simps [simp del]

section \<open>Copying\<close>

definition gets_usrmerged :: "string \<Rightarrow> bool" where
  "gets_usrmerged path =
     (let path = dropWhile is_slash path in
      path = ''bin'' \<or> path = ''sbin'' \<or> g_str_has_prefix path ''bin/'' \<or> g_str_has_prefix path ''sbin/''
      \<or> (g_str_has_prefix path ''lib'' \<and> path \<noteq> ''libexec'' \<and> \<not> g_str_has_prefix path ''libexec/''))"

text \<open>The copy of the contents and permissions, up to the rename. If \<open>access\<close> fails, its error number has replaced
  that of \<open>fchmod\<close>. The boolean says whether the destination is still open.\<close>

definition fill_copy ::
    "'w copy_calls \<Rightarrow> copy_flag set \<Rightarrow> fd \<Rightarrow> fd \<Rightarrow> string \<Rightarrow> string \<Rightarrow> copy_entry \<Rightarrow> ('w, (gerror + unit) \<times> bool) state" where
  "fill_copy C flags source_fd dest_fd temp dest st = do {
     b \<leftarrow> cc_copy_bytes C source_fd dest_fd;
     (case b of
        Inl e \<Rightarrow> State_Monad.return (Inl (throw_errno e), True)
      | Inr _ \<Rightarrow> do {
          m \<leftarrow> cc_fchmod C dest_fd (srt_stat_get_permissions (ce_mode st));
          p \<leftarrow> (case m of
              Inr _ \<Rightarrow> State_Monad.return (Inr ())
            | Inl e \<Rightarrow>
                if e = EPERM \<and> PV_COPY_FLAGS_CHMOD_MAY_FAIL \<in> flags
                then cc_access C temp (if srt_stat_get_permissions (ce_mode st) AND 0x49 \<noteq> 0 then {R_OK, X_OK} else {R_OK})
                else State_Monad.return (Inl e));
          (case p of
             Inl e \<Rightarrow> State_Monad.return (Inl (throw_errno e), True)
           | Inr _ \<Rightarrow> do {
               cc_futimens C dest_fd (ce_times st);
               cc_close C dest_fd;
               r \<leftarrow> cc_rename C temp dest;
               State_Monad.return (map_sum throw_errno id r, False) }) }) }"

definition copy_regular_file ::
    "'w copy_calls \<Rightarrow> copy_flag set \<Rightarrow> string \<Rightarrow> copy_entry \<Rightarrow> string \<Rightarrow> ('w, unit) io" where
  "copy_regular_file C flags source st dest = do {
     s \<leftarrow> cc_open C source {O_RDONLY, O_CLOEXEC, O_NOCTTY, O_NOFOLLOW};
     (case s of
        Inl e \<Rightarrow> State_Monad.return (Inl (throw_errno e))
      | Inr source_fd \<Rightarrow> do {
          t \<leftarrow> cc_mkstemp C (dest @ ''.XXXXXX'') {O_RDWR, O_CLOEXEC} (0x80 OR srt_stat_get_permissions (ce_mode st));
          (case t of
             Inl e \<Rightarrow> do { cc_close C source_fd; State_Monad.return (Inl (throw_errno e)) }
           | Inr (dest_fd, temp) \<Rightarrow> do {
               r \<leftarrow> fill_copy C flags source_fd dest_fd temp dest st;
               (case r of
                  (Inr _, _) \<Rightarrow> do { cc_close C source_fd; State_Monad.return (Inr ()) }
                | (Inl e, still_open) \<Rightarrow> do {
                    cc_unlink C temp;
                    (if still_open then cc_close C dest_fd else State_Monad.return ());
                    cc_close C source_fd;
                    State_Monad.return (Inl e) }) }) }) }"

text \<open>The result is the flags for the rest of the walk: the warning is given once.\<close>

definition link_or_copy_regular_file ::
    "'w copy_calls \<Rightarrow> copy_flag set \<Rightarrow> string \<Rightarrow> copy_entry \<Rightarrow> string \<Rightarrow> ('w, copy_flag set) io" where
  "link_or_copy_regular_file C flags fpath sb dest = do {
     l \<leftarrow> cc_link C fpath dest;
     (case l of
        Inr _ \<Rightarrow> State_Monad.return (Inr flags)
      | Inl _ \<Rightarrow> do {
          r \<leftarrow> copy_regular_file C flags fpath sb dest;
          State_Monad.return (map_sum id (\<lambda>_. flags - {PV_COPY_FLAGS_EXPECT_HARD_LINKS}) r) }) }"

definition lexical_target :: "glib \<Rightarrow> string \<Rightarrow> string \<Rightarrow> string" where
  "lexical_target G below target = g_canonicalize_filename G (g_build_filename G [g_path_get_dirname G below, target]) (Some ''/'')"

definition compat_into_usr :: "glib \<Rightarrow> string \<Rightarrow> string \<Rightarrow> bool" where
  "compat_into_usr G below target =
     ((g_str_has_prefix target ''/usr/'' \<and> drop 5 target = below)
      \<or> (\<not> absolute target \<and> (let canon = lexical_target G below target in
           g_str_has_prefix canon ''/usr/'' \<and> drop 5 canon = below)))"

definition compat_out_of_usr :: "glib \<Rightarrow> string \<Rightarrow> string \<Rightarrow> bool" where
  "compat_out_of_usr G below target =
     (drop 3 below = target \<or> (\<not> absolute target \<and> drop 3 below = lexical_target G below target))"

definition ignored_symlink :: "glib \<Rightarrow> copy_flag set \<Rightarrow> string \<Rightarrow> string \<Rightarrow> bool" where
  "ignored_symlink G flags below target =
     (PV_COPY_FLAGS_USRMERGE \<in> flags \<and>
       ((gets_usrmerged below \<and> compat_into_usr G below target)
        \<or> (g_str_has_prefix below ''usr/'' \<and> gets_usrmerged (drop 4 below) \<and> compat_out_of_usr G below target)))"

definition copy_destination :: "glib \<Rightarrow> copy_flag set \<Rightarrow> string \<Rightarrow> string \<Rightarrow> string" where
  "copy_destination G flags dest_root below =
     (if PV_COPY_FLAGS_USRMERGE \<in> flags \<and> gets_usrmerged below
      then g_build_filename G [dest_root, ''usr'', below] else g_build_filename G [dest_root, below])"

definition copy_directory ::
    "'w copy_calls \<Rightarrow> glib \<Rightarrow> copy_flag set \<Rightarrow> string \<Rightarrow> string \<Rightarrow> copy_entry \<Rightarrow> ('w, unit) io" where
  "copy_directory C G flags dest_root below sb = do {
     l \<leftarrow> (if PV_COPY_FLAGS_USRMERGE \<in> flags \<and> gets_usrmerged below \<and> CHR ''/'' \<notin> set below
          then cc_symlink C (g_build_filename G [''usr'', below]) (g_build_filename G [dest_root, below])
          else State_Monad.return (Inr ()));
     (case l of
        Inl e \<Rightarrow> State_Monad.return (Inl (throw_errno e))
      | Inr _ \<Rightarrow> glnx_shutil_mkdir_p_at C (copy_destination G flags dest_root below) (srt_stat_get_permissions (ce_mode sb))) }"

definition copy_symlink ::
    "'w copy_calls \<Rightarrow> glib \<Rightarrow> copy_flag set \<Rightarrow> string \<Rightarrow> string \<Rightarrow> string \<Rightarrow> ('w, unit) io" where
  "copy_symlink C G flags dest_root below fpath = do {
     t \<leftarrow> cc_readlink C fpath;
     (case t of
        Inl e \<Rightarrow> State_Monad.return (Inl (throw_errno e))
      | Inr target \<Rightarrow>
          if ignored_symlink G flags below target then State_Monad.return (Inr ())
          else do {
            r \<leftarrow> cc_symlink C target (copy_destination G flags dest_root below);
            State_Monad.return (map_sum throw_errno id r) }) }"

definition copy_suffix :: "string \<Rightarrow> string \<Rightarrow> string" where
  "copy_suffix source_root fpath = dropWhile is_slash (drop (Suc (length source_root)) fpath)"

definition keeping :: "copy_flag set \<Rightarrow> ('w, unit) io \<Rightarrow> ('w, copy_flag set) io" where
  "keeping flags m = do { r \<leftarrow> m; State_Monad.return (map_sum id (\<lambda>_. flags) r) }"

definition cheap_copy_helper ::
    "'w copy_calls \<Rightarrow> glib \<Rightarrow> string \<Rightarrow> string \<Rightarrow> copy_flag set \<Rightarrow> copy_entry \<Rightarrow> ('w, copy_flag set) io" where
  "cheap_copy_helper C G source_root dest_root flags sb =
     (let fpath = ce_path sb; below = copy_suffix source_root fpath in
      if \<not> g_str_has_prefix fpath source_root then State_Monad.return (Inl PRECONDITION_FAILED)
      else if fpath = source_root then
        (if ce_type sb \<noteq> FTW_D then State_Monad.return (Inl (G_IO_ERROR IO_FAILED))
         else keeping flags (glnx_shutil_mkdir_p_at C dest_root (srt_stat_get_permissions (ce_mode sb))))
      else if fpath ! length source_root \<noteq> CHR ''/'' then State_Monad.return (Inl PRECONDITION_FAILED)
      else (case ce_type sb of
          FTW_D \<Rightarrow> keeping flags (copy_directory C G flags dest_root below sb)
        | FTW_SL \<Rightarrow> keeping flags (copy_symlink C G flags dest_root below fpath)
        | FTW_F \<Rightarrow> link_or_copy_regular_file C flags fpath sb (copy_destination G flags dest_root below)
        | _ \<Rightarrow> State_Monad.return (Inl (G_IO_ERROR IO_FAILED))))"

fun copy_walk ::
    "nat \<Rightarrow> 'w copy_calls \<Rightarrow> glib \<Rightarrow> string \<Rightarrow> string \<Rightarrow> copy_flag set \<Rightarrow> ('w, (gerror + unit) option) state" where
  "copy_walk 0 C G source_root dest_root flags = State_Monad.return None"
| "copy_walk (Suc fuel) C G source_root dest_root flags = do {
     n \<leftarrow> cc_nftw_next C source_root;
     (case n of
        Inl e \<Rightarrow> State_Monad.return (Some (Inl (throw_errno e)))
      | Inr None \<Rightarrow> State_Monad.return (Some (Inr ()))
      | Inr (Some sb) \<Rightarrow> do {
          r \<leftarrow> cheap_copy_helper C G source_root dest_root flags sb;
          (case r of
             Inl e \<Rightarrow> State_Monad.return (Some (Inl e))
           | Inr flags' \<Rightarrow> copy_walk fuel C G source_root dest_root flags') }) }"

definition pv_cheap_tree_copy ::
    "nat \<Rightarrow> 'w copy_calls \<Rightarrow> glib \<Rightarrow> string \<Rightarrow> string \<Rightarrow> copy_flag set \<Rightarrow> ('w, (gerror + unit) option) state" where
  "pv_cheap_tree_copy fuel C G source_root dest_root flags =
     copy_walk fuel C G (g_file_path G source_root) (g_file_path G dest_root) flags"

section \<open>Which links are left out\<close>

text \<open>Where a path goes when the tree is merged, relative to the root.\<close>

definition merged_place :: "string \<Rightarrow> string" where
  "merged_place s = (if gets_usrmerged s then ''usr/'' @ s else s)"

definition target_from_root :: "glib \<Rightarrow> string \<Rightarrow> string \<Rightarrow> string" where
  "target_from_root G s target =
     (if absolute target then g_canonicalize_filename G target (Some ''/'') else lexical_target G s target)"

text \<open>What the code compares: an absolute target as it is spelled.\<close>

definition target_compared :: "glib \<Rightarrow> string \<Rightarrow> string \<Rightarrow> string" where
  "target_compared G s target = (if absolute target then target else lexical_target G s target)"

lemma gets_usrmerged_usr [simp]: "\<not> gets_usrmerged (''usr/'' @ s)" "\<not> gets_usrmerged (CHR ''u'' # t)"
  by (simp_all add: gets_usrmerged_def Let_def g_str_has_prefix_def)

lemma prefix_drop_iff: "g_str_has_prefix s p \<and> drop (length p) s = x \<longleftrightarrow> s = p @ x"
  by (auto simp: g_str_has_prefix_def) (metis append_take_drop_id)

lemma usr_prefix_iff: "g_str_has_prefix s ''/usr/'' \<and> drop 5 s = x \<longleftrightarrow> s = ''/usr/'' @ x"
  using prefix_drop_iff [of s "''/usr/''" x] by (simp add: eval_nat_numeral)

lemma compat_into_usr_iff: "compat_into_usr G s target \<longleftrightarrow> target_compared G s target = ''/usr/'' @ s"
  unfolding compat_into_usr_def Let_def usr_prefix_iff by (auto simp: target_compared_def absolute_def)

lemma compat_out_of_usr_iff:
  assumes "s = ''usr/'' @ r"
  shows "compat_out_of_usr G s target \<longleftrightarrow> target_compared G s target = ''/'' @ r"
  using assms by (auto simp: compat_out_of_usr_def target_compared_def absolute_def)

lemma ignored_symlink_iff:
  assumes "PV_COPY_FLAGS_USRMERGE \<in> flags"
  shows "ignored_symlink G flags s target \<longleftrightarrow>
    (\<exists>x. target_compared G s target = ''/'' @ x \<and> x \<noteq> s \<and> merged_place x = merged_place s)"
proof (cases "gets_usrmerged s")
  case True
  have no_usr: "\<not> g_str_has_prefix s ''usr/''"
    using True by (metis g_str_has_prefix_iff gets_usrmerged_usr(1))
  have "merged_place x = merged_place s \<longleftrightarrow> x = s \<or> x = ''usr/'' @ s" for x
    using True by (auto simp: merged_place_def)
  moreover have "''usr/'' @ s \<noteq> s" by simp
  ultimately show ?thesis
    using True assms no_usr by (auto simp: ignored_symlink_def compat_into_usr_iff)
next
  case False
  have place: "merged_place x = merged_place s \<and> x \<noteq> s \<longleftrightarrow> gets_usrmerged x \<and> s = ''usr/'' @ x" for x
    using False by (auto simp: merged_place_def)
  show ?thesis
  proof (cases "g_str_has_prefix s ''usr/''")
    case True
    then obtain r where r: "s = ''usr/'' @ r" using g_str_has_prefix_iff by metis
    then have "drop 4 s = r" by simp
    then have "ignored_symlink G flags s target \<longleftrightarrow> gets_usrmerged r \<and> target_compared G s target = ''/'' @ r"
      using assms False True compat_out_of_usr_iff [OF r] by (simp add: ignored_symlink_def)
    moreover have "(\<exists>x. target_compared G s target = ''/'' @ x \<and> x \<noteq> s \<and> merged_place x = merged_place s)
        \<longleftrightarrow> (\<exists>x. target_compared G s target = ''/'' @ x \<and> gets_usrmerged x \<and> s = ''usr/'' @ x)"
      using place by blast
    ultimately show ?thesis using r by auto
  next
    case no: False
    then have "s \<noteq> ''usr/'' @ x" for x using g_str_has_prefix_iff by metis
    then show ?thesis using False no place by (auto simp: ignored_symlink_def)
  qed
qed

text \<open>C33: When the tree is merged, a symbolic link is left out exactly if its target, taken lexically from the root of the tree, is
  another path that goes to the same place as the link itself, so that the link would become a link to itself, and the
  target is relative or in canonical form. An absolute target that is spelled in another way, such as \<open>/usr//lib/x\<close> for
  \<open>lib/x\<close>, is not left out, although that link becomes a link to itself too.\<close>

theorem ignored_symlink_self:
  assumes "PV_COPY_FLAGS_USRMERGE \<in> flags"
    and "\<And>x. merged_place x = merged_place s \<Longrightarrow> g_canonicalize_filename G (''/'' @ x) (Some ''/'') = ''/'' @ x"
  shows "ignored_symlink G flags s target \<longleftrightarrow>
    (\<exists>x. target_from_root G s target = ''/'' @ x \<and> x \<noteq> s \<and> merged_place x = merged_place s)
    \<and> (absolute target \<longrightarrow> g_canonicalize_filename G target (Some ''/'') = target)"
  unfolding ignored_symlink_iff [OF assms(1)] target_from_root_def target_compared_def using assms(2) by auto

section \<open>What is asked of the kernel\<close>

datatype copy_event =
    T_next "errno + copy_entry option"
  | T_open string "open_flag set" "errno + fd"
  | T_mkstemp string "32 word" "errno + fd \<times> string"
  | T_copy_bytes fd fd "errno + unit"
  | T_fchmod fd "32 word" "errno + unit"
  | T_access string "errno + unit"
  | T_futimens fd "int \<times> int"
  | T_close fd
  | T_rename string string "errno + unit"
  | T_unlink string
  | T_link string string "errno + unit"
  | T_symlink string string "errno + unit"
  | T_readlink string "errno + string"
  | T_lstat string "errno + 32 word"
  | T_mkdir string "32 word" "errno + unit"

definition logged_copy :: "'w copy_calls \<Rightarrow> ('w \<times> copy_event list) copy_calls" where
  "logged_copy C = \<lparr>
     cc_nftw_next = (\<lambda>r. log_call (cc_nftw_next C r) T_next),
     cc_open = (\<lambda>p fl. log_call (cc_open C p fl) (T_open p fl)),
     cc_mkstemp = (\<lambda>p fl m. log_call (cc_mkstemp C p fl m) (T_mkstemp p m)),
     cc_copy_bytes = (\<lambda>s d. log_call (cc_copy_bytes C s d) (T_copy_bytes s d)),
     cc_fchmod = (\<lambda>fd m. log_call (cc_fchmod C fd m) (T_fchmod fd m)),
     cc_access = (\<lambda>p m. log_call (cc_access C p m) (T_access p)),
     cc_futimens = (\<lambda>fd t. log_call (cc_futimens C fd t) (\<lambda>_. T_futimens fd t)),
     cc_close = (\<lambda>fd. log_call (cc_close C fd) (\<lambda>_. T_close fd)),
     cc_rename = (\<lambda>a b. log_call (cc_rename C a b) (T_rename a b)),
     cc_unlink = (\<lambda>p. log_call (cc_unlink C p) (\<lambda>_. T_unlink p)),
     cc_link = (\<lambda>a b. log_call (cc_link C a b) (T_link a b)),
     cc_symlink = (\<lambda>t p. log_call (cc_symlink C t p) (T_symlink t p)),
     cc_readlink = (\<lambda>p. log_call (cc_readlink C p) (T_readlink p)),
     cc_lstat = (\<lambda>p. log_call (cc_lstat C p) (T_lstat p)),
     cc_mkdir = (\<lambda>p m. log_call (cc_mkdir C p m) (T_mkdir p m)) \<rparr>"

text \<open>A computation and what it extends to the log.\<close>

definition extends :: "('w \<times> 'c list, 'a) state \<Rightarrow> ('a \<Rightarrow> 'c list \<Rightarrow> bool) \<Rightarrow> bool" where
  "extends m Q = (\<forall>w l r w' l'. run_state m (w, l) = (r, (w', l')) \<longrightarrow> (\<exists>evs. l' = l @ evs \<and> Q r evs))"

lemma extendsD: "extends m Q \<Longrightarrow> run_state m (w, []) = (r, (w', l)) \<Longrightarrow> Q r l"
  unfolding extends_def by fastforce

lemma extends_return: "Q x [] \<Longrightarrow> extends (State_Monad.return x) Q"
  by (simp add: extends_def)

lemma extends_call: "(\<And>r. Q r [c r]) \<Longrightarrow> extends (log_call m c) Q"
  by (auto simp: extends_def log_call_def split: prod.splits)

lemma extends_weaken: "extends m Q \<Longrightarrow> (\<And>r evs. Q r evs \<Longrightarrow> Q' r evs) \<Longrightarrow> extends m Q'"
  unfolding extends_def by blast

lemma extends_bind:
  assumes "extends m R" and "\<And>x evs. R x evs \<Longrightarrow> extends (f x) (\<lambda>r evs'. Q r (evs @ evs'))"
  shows "extends (State_Monad.bind m f) Q"
  unfolding extends_def
proof (intro allI impI)
  fix w l r w' l'
  assume run: "run_state (m \<bind> f) (w, l) = (r, (w', l'))"
  obtain x w1 l1 where m: "run_state m (w, l) = (x, (w1, l1))" by (metis surj_pair)
  then obtain evs where evs: "l1 = l @ evs" "R x evs" using assms(1) unfolding extends_def by blast
  have "run_state (f x) (w1, l1) = (r, (w', l'))" using run m by (simp add: run_state_bind)
  then obtain evs' where "l' = l1 @ evs'" "Q r (evs @ evs')" using assms(2) [OF evs(2)] unfolding extends_def by blast
  then show "\<exists>evs. l' = l @ evs \<and> Q r evs" using evs(1) by (intro exI [of _ "evs @ evs'"]) simp
qed

lemma extends_call_bind:
  assumes "\<And>x. extends (f x) (\<lambda>r evs. Q r (c x # evs))"
  shows "extends (State_Monad.bind (log_call m c) f) Q"
  by (rule extends_bind [where R = "\<lambda>x evs. evs = [c x]"]) (auto intro: extends_call assms)

lemma extends_if: "(b \<Longrightarrow> extends m Q) \<Longrightarrow> (\<not> b \<Longrightarrow> extends n Q) \<Longrightarrow> extends (if b then m else n) Q"
  by simp

lemma extends_sum:
  "(\<And>e. r = Inl e \<Longrightarrow> extends (f e) Q) \<Longrightarrow> (\<And>x. r = Inr x \<Longrightarrow> extends (g x) Q) \<Longrightarrow>
   extends (case r of Inl e \<Rightarrow> f e | Inr x \<Rightarrow> g x) Q"
  by (cases r) auto

section \<open>One file\<close>

text \<open>A complete copy: the temporary file gets the contents and the permissions (or keeps those it has, if that is
  allowed and they are enough) before it is renamed.\<close>

definition file_copied :: "copy_flag set \<Rightarrow> copy_entry \<Rightarrow> string \<Rightarrow> copy_event list \<Rightarrow> bool" where
  "file_copied flags st dest evs =
     (\<exists>sfd dfd temp m checked. evs =
        [T_open (ce_path st) {O_RDONLY, O_CLOEXEC, O_NOCTTY, O_NOFOLLOW} (Inr sfd),
         T_mkstemp (dest @ ''.XXXXXX'') (0x80 OR srt_stat_get_permissions (ce_mode st)) (Inr (dfd, temp)),
         T_copy_bytes sfd dfd (Inr ()), T_fchmod dfd (srt_stat_get_permissions (ce_mode st)) m] @ checked @
        [T_futimens dfd (ce_times st), T_close dfd, T_rename temp dest (Inr ()), T_close sfd]
      \<and> (case m of Inr _ \<Rightarrow> checked = []
         | Inl e \<Rightarrow> e = EPERM \<and> PV_COPY_FLAGS_CHMOD_MAY_FAIL \<in> flags \<and> checked = [T_access temp (Inr ())]))"

text \<open>The descriptors that were opened and closed, and what became of temporary files.\<close>

fun opens_fd :: "copy_event \<Rightarrow> fd list" where
  "opens_fd (T_open p fl (Inr fd)) = [fd]"
| "opens_fd (T_mkstemp p m (Inr (fd, temp))) = [fd]"
| "opens_fd e = []"

fun closes_fd :: "copy_event \<Rightarrow> fd list" where
  "closes_fd (T_close fd) = [fd]"
| "closes_fd e = []"

fun temp_of :: "copy_event \<Rightarrow> string option" where
  "temp_of (T_mkstemp p m (Inr (fd, temp))) = Some temp"
| "temp_of e = None"

definition cleaned_up :: "copy_event list \<Rightarrow> bool" where
  "cleaned_up evs =
     (mset (concat (map opens_fd evs)) = mset (concat (map closes_fd evs))
      \<and> (\<forall>e \<in> set evs. \<forall>temp. temp_of e = Some temp \<longrightarrow>
           (\<exists>dest. T_rename temp dest (Inr ()) \<in> set evs) \<or> T_unlink temp \<in> set evs))"

text \<open>What a descriptor stands for, by the calls so far (the last one first), and which names were made for temporary files.\<close>

fun open_since :: "(copy_event \<Rightarrow> bool) \<Rightarrow> fd \<Rightarrow> copy_event list \<Rightarrow> bool" where
  "open_since opened fd [] = False"
| "open_since opened fd (e # past) = (opened e \<or> (e \<noteq> T_close fd \<and> open_since opened fd past))"

definition reads_source :: "fd \<Rightarrow> copy_event list \<Rightarrow> bool" where
  "reads_source fd = open_since (\<lambda>e. \<exists>p fl. e = T_open p fl (Inr fd)) fd"

definition writes_temp :: "fd \<Rightarrow> copy_event list \<Rightarrow> bool" where
  "writes_temp fd = open_since (\<lambda>e. \<exists>p m temp. e = T_mkstemp p m (Inr (fd, temp))) fd"

definition temp_made :: "string \<Rightarrow> string \<Rightarrow> copy_event list \<Rightarrow> bool" where
  "temp_made dest temp past = (\<exists>m fd. T_mkstemp (dest @ ''.XXXXXX'') m (Inr (fd, temp)) \<in> set past)"

definition below_root :: "string \<Rightarrow> string \<Rightarrow> bool" where
  "below_root root p = (\<exists>xs. segs p = segs root @ xs)"

definition leads_to_root :: "string \<Rightarrow> string \<Rightarrow> bool" where
  "leads_to_root root p = (\<exists>xs. segs root = segs p @ xs)"

text \<open>What may be done to which path and descriptor: sources are opened for reading only; contents, permissions and times are
  only written through the descriptor of a temporary file, and only its name is checked, removed, or renamed to the
  destination that it was made for.\<close>

definition event_ok :: "string \<Rightarrow> copy_event list \<Rightarrow> copy_event \<Rightarrow> bool" where
  "event_ok root past e = (case e of
       T_open p fl r \<Rightarrow> fl = {O_RDONLY, O_CLOEXEC, O_NOCTTY, O_NOFOLLOW}
     | T_mkstemp p m r \<Rightarrow> \<exists>dest. below_root root dest \<and> p = dest @ ''.XXXXXX''
     | T_copy_bytes s d r \<Rightarrow> reads_source s past \<and> writes_temp d past
     | T_fchmod d m r \<Rightarrow> writes_temp d past
     | T_futimens d t \<Rightarrow> writes_temp d past
     | T_access p r \<Rightarrow> \<exists>dest. temp_made dest p past
     | T_unlink p \<Rightarrow> \<exists>dest. temp_made dest p past
     | T_rename p dest r \<Rightarrow> below_root root dest \<and> temp_made dest p past
     | T_link p dest r \<Rightarrow> below_root root dest
     | T_symlink t dest r \<Rightarrow> below_root root dest
     | T_mkdir p m r \<Rightarrow> below_root root p \<or> leads_to_root root p
     | _ \<Rightarrow> True)"

fun events_ok :: "string \<Rightarrow> copy_event list \<Rightarrow> copy_event list \<Rightarrow> bool" where
  "events_ok root past [] = True"
| "events_ok root past (e # evs) = (event_ok root past e \<and> events_ok root (e # past) evs)"

definition proper :: "string \<Rightarrow> copy_event list \<Rightarrow> bool" where
  "proper root evs = (cleaned_up evs \<and> events_ok root [] evs)"

lemma proper_Nil: "proper root []"
  by (simp add: proper_def cleaned_up_def)

lemma open_since_mono: "open_since opened fd past \<Longrightarrow> open_since opened fd (past @ older)"
  by (induction past) auto

lemma event_ok_mono: "event_ok root past e \<Longrightarrow> event_ok root (past @ older) e"
  unfolding event_ok_def reads_source_def writes_temp_def temp_made_def
  by (cases e) (auto intro: open_since_mono)

lemma events_ok_mono: "events_ok root past evs \<Longrightarrow> events_ok root (past @ older) evs"
  by (induction evs arbitrary: past) (auto intro: event_ok_mono dest: spec [of _ "_ # _"] simp flip: append_Cons)

lemma events_ok_append: "events_ok root past (evs @ evs') \<longleftrightarrow> events_ok root past evs \<and> events_ok root (rev evs @ past) evs'"
  by (induction evs arbitrary: past) auto

lemma proper_append: "proper root evs \<Longrightarrow> proper root evs' \<Longrightarrow> proper root (evs @ evs')"
  using events_ok_mono [of root "[]" evs' "rev evs"]
  unfolding proper_def cleaned_up_def by (auto simp: events_ok_append)

text \<open>The part up to the rename.\<close>

definition checked_mode :: "copy_flag set \<Rightarrow> string \<Rightarrow> errno + unit \<Rightarrow> copy_event list \<Rightarrow> bool" where
  "checked_mode flags temp m checked = (case m of
       Inr _ \<Rightarrow> checked = []
     | Inl e \<Rightarrow> e = EPERM \<and> PV_COPY_FLAGS_CHMOD_MAY_FAIL \<in> flags \<and> checked = [T_access temp (Inr ())])"

definition fill_calls :: "fd \<Rightarrow> fd \<Rightarrow> string \<Rightarrow> string \<Rightarrow> copy_entry \<Rightarrow> bool \<Rightarrow> copy_event list \<Rightarrow> bool" where
  "fill_calls sfd dfd temp dest st still_open evs =
     (\<exists>b m checked r. let perm = srt_stat_get_permissions (ce_mode st);
          opened = T_copy_bytes sfd dfd b # (if b = Inr () then T_fchmod dfd perm m # checked else []) in
        (checked = [] \<or> (\<exists>q. checked = [T_access temp q])) \<and>
        evs = opened @ (if still_open then [] else [T_futimens dfd (ce_times st), T_close dfd, T_rename temp dest r]))"

definition filled ::
    "copy_flag set \<Rightarrow> fd \<Rightarrow> fd \<Rightarrow> string \<Rightarrow> string \<Rightarrow> copy_entry \<Rightarrow> (gerror + unit) \<times> bool \<Rightarrow> copy_event list \<Rightarrow> bool" where
  "filled flags sfd dfd temp dest st res evs =
     (fill_calls sfd dfd temp dest st (snd res) evs
      \<and> (fst res = Inr () \<longrightarrow> \<not> snd res \<and> (\<exists>m checked. checked_mode flags temp m checked \<and>
          evs = [T_copy_bytes sfd dfd (Inr ()), T_fchmod dfd (srt_stat_get_permissions (ce_mode st)) m] @ checked @
            [T_futimens dfd (ce_times st), T_close dfd, T_rename temp dest (Inr ())])))"

lemma fill_calls_facts:
  assumes "fill_calls sfd dfd temp dest st b evs" and "below_root root dest"
    and "\<exists>fl p. past = [T_mkstemp (dest @ ''.XXXXXX'') m (Inr (dfd, temp)), T_open p fl (Inr sfd)]"
  shows "concat (map closes_fd evs) = (if b then [] else [dfd])" and "concat (map opens_fd evs) = []"
    and "\<forall>e \<in> set evs. temp_of e = None" and "events_ok root past evs"
proof -
  obtain q m' checked r where checked: "checked = [] \<or> (\<exists>q. checked = [T_access temp q])"
    and evs: "evs = (T_copy_bytes sfd dfd q # (if q = Inr () then T_fchmod dfd (srt_stat_get_permissions (ce_mode st)) m' # checked else []))
      @ (if b then [] else [T_futimens dfd (ce_times st), T_close dfd, T_rename temp dest r])"
    using assms(1) unfolding fill_calls_def Let_def by blast
  obtain fl p where past: "past = [T_mkstemp (dest @ ''.XXXXXX'') m (Inr (dfd, temp)), T_open p fl (Inr sfd)]" using assms(3) by blast
  show "concat (map closes_fd evs) = (if b then [] else [dfd])" "concat (map opens_fd evs) = []" "\<forall>e \<in> set evs. temp_of e = None"
    using checked by (auto simp: evs simp del: concat_eq_Nil_conv)
  have last: "events_ok root (xs @ past) (if b then [] else [T_futimens dfd (ce_times st), T_close dfd, T_rename temp dest r])"
    if "\<And>fd. T_close fd \<notin> set xs" for xs
  proof -
    have "writes_temp dfd (xs @ past)"
      using that by (induction xs) (auto simp: writes_temp_def past)
    then show ?thesis using assms(2) by (auto simp: event_ok_def temp_made_def past)
  qed
  show "events_ok root past evs"
    unfolding evs events_ok_append
    by (intro conjI last) (use checked in \<open>auto simp: event_ok_def reads_source_def writes_temp_def temp_made_def past\<close>)
qed

lemma fill_calls_intros:
  "fill_calls sfd dfd temp dest st True [T_copy_bytes sfd dfd (Inl e)]"
  "checked = [] \<or> (\<exists>q. checked = [T_access temp q]) \<Longrightarrow>
   fill_calls sfd dfd temp dest st True (T_copy_bytes sfd dfd (Inr ()) # T_fchmod dfd (srt_stat_get_permissions (ce_mode st)) m # checked)"
  "checked = [] \<or> (\<exists>q. checked = [T_access temp q]) \<Longrightarrow>
   fill_calls sfd dfd temp dest st False (T_copy_bytes sfd dfd (Inr ()) # T_fchmod dfd (srt_stat_get_permissions (ce_mode st)) m # checked
     @ [T_futimens dfd (ce_times st), T_close dfd, T_rename temp dest r])"
  unfolding fill_calls_def Let_def
  by (intro exI [of _ "Inl e"] exI [of _ "[]"], simp)
    (intro exI [of _ "Inr ()"] exI [of _ m] exI [of _ checked] exI [of _ r], simp)+

lemma fill_copy_adds: "extends (fill_copy (logged_copy C) flags sfd dfd temp dest st) (filled flags sfd dfd temp dest st)"
proof -
  let ?C = "logged_copy C" and ?perm = "srt_stat_get_permissions (ce_mode st)"
  have last: "extends (do { cc_futimens ?C dfd (ce_times st); cc_close ?C dfd; r \<leftarrow> cc_rename ?C temp dest;
        State_Monad.return (map_sum throw_errno id r, False) })
      (\<lambda>res evs. filled flags sfd dfd temp dest st res ([T_copy_bytes sfd dfd (Inr ()), T_fchmod dfd ?perm m] @ checked @ evs))"
    if "checked_mode flags temp m checked" for m checked
  proof -
    have "checked = [] \<or> (\<exists>r. checked = [T_access temp r])"
      using that by (auto simp: checked_mode_def split: sum.splits)
    note fill_calls_intros(3) [OF this]
    then have "filled flags sfd dfd temp dest st (map_sum throw_errno id r, False)
      ([T_copy_bytes sfd dfd (Inr ()), T_fchmod dfd ?perm m] @ checked @ [T_futimens dfd (ce_times st), T_close dfd, T_rename temp dest r])" for r
      using that by (cases r) (auto simp: filled_def)
    then show ?thesis
      unfolding logged_copy_def copy_calls.simps by (intro extends_call_bind extends_return) simp
  qed
  have mode: "extends (case m of
        Inr _ \<Rightarrow> State_Monad.return (Inr ())
      | Inl e \<Rightarrow> if e = EPERM \<and> PV_COPY_FLAGS_CHMOD_MAY_FAIL \<in> flags
          then cc_access ?C temp (if ?perm AND 0x49 \<noteq> 0 then {R_OK, X_OK} else {R_OK})
          else State_Monad.return (Inl e))
      (\<lambda>p evs. (p = Inr () \<longrightarrow> checked_mode flags temp m evs) \<and> (evs = [] \<or> (\<exists>r. evs = [T_access temp r])))" for m
    unfolding logged_copy_def copy_calls.simps
    by (intro extends_sum extends_if extends_return extends_call) (auto simp: checked_mode_def split: sum.splits)
  show ?thesis
    unfolding fill_copy_def
  proof (subst logged_copy_def, subst copy_calls.simps, rule extends_call_bind, rule extends_sum, goal_cases)
    case (1 b e)
    then show ?case by (auto intro!: extends_return fill_calls_intros simp: filled_def)
  next
    case (2 b u)
    have fchmod: "cc_fchmod ?C dfd ?perm = log_call (cc_fchmod C dfd ?perm) (T_fchmod dfd ?perm)"
      by (simp add: logged_copy_def)
    show ?case
      unfolding fchmod
    proof (rule extends_call_bind, rule extends_bind [OF mode], rule extends_sum, goal_cases)
      case (1 m p evs e)
      then show ?case using 2 fill_calls_intros(2) [of evs temp sfd dfd dest st m] by (auto intro!: extends_return simp: filled_def)
    next
      case (2 m p evs u')
      then show ?case using last [of m evs] \<open>b = Inr u\<close> by (auto elim: extends_weaken)
    qed
  qed
qed

lemma filled_proper:
  assumes f: "filled flags sfd dfd temp dest st res fevs" and dest: "below_root root dest"
    and rest: "rest = (if fst res = Inr () then [] else T_unlink temp # (if snd res then [T_close dfd] else []))"
  shows "proper root (T_open src {O_RDONLY, O_CLOEXEC, O_NOCTTY, O_NOFOLLOW} (Inr sfd) #
      T_mkstemp (dest @ ''.XXXXXX'') m (Inr (dfd, temp)) # fevs @ rest @ [T_close sfd])"
    (is "proper root ?evs")
proof -
  let ?past = "[T_mkstemp (dest @ ''.XXXXXX'') m (Inr (dfd, temp)), T_open src {O_RDONLY, O_CLOEXEC, O_NOCTTY, O_NOFOLLOW} (Inr sfd)]"
  have calls: "fill_calls sfd dfd temp dest st (snd res) fevs" using f by (simp add: filled_def)
  have past: "\<exists>fl p. ?past = [T_mkstemp (dest @ ''.XXXXXX'') m (Inr (dfd, temp)), T_open p fl (Inr sfd)]" by blast
  note facts = fill_calls_facts [OF calls dest past]
  have "mset (concat (map opens_fd ?evs)) = mset (concat (map closes_fd ?evs))"
    using facts(1,2) f rest by (auto simp: filled_def)
  moreover have "(\<exists>d. T_rename temp d (Inr ()) \<in> set ?evs) \<or> T_unlink temp \<in> set ?evs"
    using f rest by (cases "fst res = Inr ()") (auto simp: filled_def)
  moreover have "t = temp" if "e \<in> set ?evs" "temp_of e = Some t" for e t
    using that facts(3) rest by (auto split: if_splits)
  moreover have "temp_made dest temp (rev fevs @ ?past)" by (auto simp: temp_made_def)
  then have "events_ok root (rev fevs @ ?past) (rest @ [T_close sfd])"
    using rest by (auto simp: event_ok_def temp_made_def)
  then have "events_ok root [] ?evs"
    using facts(4) dest by (auto simp: events_ok_append event_ok_def)
  ultimately show ?thesis unfolding proper_def cleaned_up_def by blast
qed

lemma filled_copied:
  assumes "filled flags sfd dfd temp dest st (Inr (), b) fevs" and "ce_path st = src"
  shows "file_copied flags st dest (T_open src {O_RDONLY, O_CLOEXEC, O_NOCTTY, O_NOFOLLOW} (Inr sfd) #
    T_mkstemp (dest @ ''.XXXXXX'') (0x80 OR srt_stat_get_permissions (ce_mode st)) (Inr (dfd, temp)) # fevs @ [T_close sfd])"
  using assms unfolding filled_def file_copied_def checked_mode_def by auto

lemma copy_regular_file_adds:
  assumes "below_root root dest" and "ce_path st = source"
  shows "extends (copy_regular_file (logged_copy C) flags source st dest)
    (\<lambda>r evs. proper root evs \<and> (r = Inr () \<longrightarrow> file_copied flags st dest evs))"
proof -
  let ?C = "logged_copy C" and ?m = "0x80 OR srt_stat_get_permissions (ce_mode st)"
  have calls: "cc_open ?C source fl = log_call (cc_open C source fl) (T_open source fl)"
    "cc_mkstemp ?C t fl ?m = log_call (cc_mkstemp C t fl ?m) (T_mkstemp t ?m)"
    "cc_close ?C fd = log_call (cc_close C fd) (\<lambda>_. T_close fd)" "cc_unlink ?C t = log_call (cc_unlink C t) (\<lambda>_. T_unlink t)" for fl t fd
    by (simp_all add: logged_copy_def)
  show ?thesis
    unfolding copy_regular_file_def calls
  proof (rule extends_call_bind, rule extends_sum, goal_cases)
    case (1 s e)
    then show ?case by (auto intro!: extends_return simp: proper_def cleaned_up_def event_ok_def)
  next
    case (2 s sfd)
    show ?case
    proof (rule extends_call_bind, rule extends_sum, goal_cases)
      case (1 t e)
      then show ?case using 2
        by (auto intro!: extends_call_bind extends_return simp: proper_def cleaned_up_def event_ok_def assms(1))
    next
      case (2 t x)
      obtain dfd temp where x: "x = (dfd, temp)" by (cases x)
      show ?case
        unfolding x prod.case
      proof (rule extends_bind [OF fill_copy_adds], goal_cases)
        case (1 res fevs)
        obtain q b where res: "res = (q, b)" by (cases res)
        show ?case
        proof (cases q)
          case (Inr u)
          then show ?thesis
            using filled_proper [where root = root, OF 1 assms(1), of "[]" source ?m] filled_copied [of flags sfd dfd temp dest st b fevs source] 1 assms(2)
              res \<open>s = Inr sfd\<close> \<open>t = Inr x\<close> x
            by (auto intro!: extends_call_bind extends_return)
        next
          case (Inl e)
          then show ?thesis
            using filled_proper [where root = root, OF 1 assms(1) refl, of source ?m] res \<open>s = Inr sfd\<close> \<open>t = Inr x\<close> x
            by (cases b) (auto intro!: extends_call_bind extends_return)
        qed
      qed
    qed
  qed
qed

section \<open>The whole tree\<close>

locale tree_builder = path_builder +
  assumes segs_build3: "a \<noteq> [] \<Longrightarrow> segs (build [a, b, c]) = segs a @ segs b @ segs c"

interpretation ref_tree: tree_builder "g_build_filename glib_ref"
  by unfold_locales (simp add: glib_ref_def segs_ref_build)

text \<open>A directory with its ancestors: the call that ended it found the directory, made it, or found that its name is taken; the
  calls before concern its ancestors.\<close>

definition leads_to :: "string \<Rightarrow> string \<Rightarrow> bool" where
  "leads_to p path = (path = p \<or> (\<exists>rest. path = p @ CHR ''/'' # rest))"

definition dir_events :: "string \<Rightarrow> 32 word \<Rightarrow> copy_event list \<Rightarrow> bool" where
  "dir_events path mode evs = (\<forall>e \<in> set evs. \<exists>p. leads_to p path \<and> (\<exists>r q. e = T_lstat p r \<or> e = T_mkdir p mode q))"

definition dir_made :: "string \<Rightarrow> 32 word \<Rightarrow> copy_event list \<Rightarrow> bool" where
  "dir_made path mode evs =
     (\<exists>before e. evs = before @ [e] \<and> dir_events path mode before
       \<and> ((\<exists>m. e = T_lstat path (Inr m) \<and> S_ISDIR m) \<or> e = T_mkdir path mode (Inr ()) \<or> e = T_mkdir path mode (Inl EEXIST)))"

text \<open>What is done for an entry, if that succeeds.\<close>

definition handled :: "glib \<Rightarrow> string \<Rightarrow> string \<Rightarrow> copy_flag set \<Rightarrow> copy_entry \<Rightarrow> copy_event list \<Rightarrow> bool" where
  "handled G source_root dest_root flags sb evs =
     (let fpath = ce_path sb; below = copy_suffix source_root fpath; dest = copy_destination G flags dest_root below;
          perm = srt_stat_get_permissions (ce_mode sb) in
      if fpath = source_root then ce_type sb = FTW_D \<and> dir_made dest_root perm evs
      else (case ce_type sb of
          FTW_D \<Rightarrow> \<exists>made. dir_made dest perm made \<and> evs =
            (if PV_COPY_FLAGS_USRMERGE \<in> flags \<and> gets_usrmerged below \<and> CHR ''/'' \<notin> set below
             then [T_symlink (g_build_filename G [''usr'', below]) (g_build_filename G [dest_root, below]) (Inr ())] else []) @ made
        | FTW_SL \<Rightarrow> \<exists>target. evs = T_readlink fpath (Inr target) #
            (if ignored_symlink G flags below target then [] else [T_symlink target dest (Inr ())])
        | FTW_F \<Rightarrow> evs = [T_link fpath dest (Inr ())]
            \<or> (\<exists>e copied. evs = T_link fpath dest (Inl e) # copied \<and> file_copied flags sb dest copied)
        | _ \<Rightarrow> False))"

lemma below_root_destinations:
  assumes "tree_builder (g_build_filename G)" and "root \<noteq> []"
  shows "below_root root root" "below_root root (copy_destination G flags root s)" "below_root root (g_build_filename G [root, s])"
proof -
  have b: "segs (g_build_filename G [root, s]) = segs root @ segs s"
    using assms by (simp add: tree_builder_def path_builder.segs_build2)
  have "segs (g_build_filename G [root, ''usr'', s]) = segs root @ segs ''usr'' @ segs s"
    using tree_builder.segs_build3 [OF assms] .
  with b show "below_root root root" "below_root root (copy_destination G flags root s)" "below_root root (g_build_filename G [root, s])"
    by (auto simp: below_root_def copy_destination_def)
qed

text \<open>The flag for a warning is the only one that changes.\<close>

definition same_flags :: "copy_flag set \<Rightarrow> copy_flag set \<Rightarrow> bool" where
  "same_flags f g = ((PV_COPY_FLAGS_USRMERGE \<in> f \<longleftrightarrow> PV_COPY_FLAGS_USRMERGE \<in> g) \<and> (PV_COPY_FLAGS_CHMOD_MAY_FAIL \<in> f \<longleftrightarrow> PV_COPY_FLAGS_CHMOD_MAY_FAIL \<in> g))"

lemma same_flags_destination: "same_flags f g \<Longrightarrow> copy_destination G f = copy_destination G g"
  by (auto simp: same_flags_def copy_destination_def fun_eq_iff)

lemma same_flags_handled: "same_flags f g \<Longrightarrow> handled G a b f = handled G a b g"
proof (intro ext)
  fix sb evs
  assume s: "same_flags f g"
  have m: "PV_COPY_FLAGS_USRMERGE \<in> f \<longleftrightarrow> PV_COPY_FLAGS_USRMERGE \<in> g" "PV_COPY_FLAGS_CHMOD_MAY_FAIL \<in> f \<longleftrightarrow> PV_COPY_FLAGS_CHMOD_MAY_FAIL \<in> g"
    using s by (simp_all add: same_flags_def)
  show "handled G a b f sb evs = handled G a b g sb evs"
    by (simp only: handled_def same_flags_destination [OF s] ignored_symlink_def file_copied_def m)
qed

lemma proper_single: "opens_fd e = [] \<Longrightarrow> closes_fd e = [] \<Longrightarrow> temp_of e = None \<Longrightarrow> event_ok root [] e \<Longrightarrow> proper root [e]"
  by (simp add: proper_def cleaned_up_def)

lemma proper_Cons: "proper root [e] \<Longrightarrow> proper root evs \<Longrightarrow> proper root (e # evs)"
  using proper_append [of root "[e]" evs] by simp

lemma extends_keeping:
  "extends m (\<lambda>r evs. Q (map_sum id (\<lambda>_. flags) r) evs) \<Longrightarrow> extends (keeping flags m) Q"
  unfolding keeping_def
  by (rule extends_bind [where R = "\<lambda>r evs. Q (map_sum id (\<lambda>_. flags) r) evs"]) (auto intro: extends_return)

lemma map_sum_Inr [simp]: "map_sum f g x = Inr y \<longleftrightarrow> (\<exists>z. x = Inr z \<and> y = g z)"
  by (cases x) auto

lemma link_or_copy_adds:
  assumes "below_root root dest" and "ce_path sb = fpath"
  shows "extends (link_or_copy_regular_file (logged_copy C) flags fpath sb dest)
    (\<lambda>r evs. proper root evs \<and> (\<forall>f. r = Inr f \<longrightarrow> same_flags f flags \<and>
       (evs = [T_link fpath dest (Inr ())] \<or> (\<exists>e copied. evs = T_link fpath dest (Inl e) # copied \<and> file_copied flags sb dest copied))))"
proof -
  have link: "cc_link (logged_copy C) fpath dest = log_call (cc_link C fpath dest) (T_link fpath dest)" by (simp add: logged_copy_def)
  have proper: "proper root [T_link fpath dest q]" for q
    by (rule proper_single) (simp_all add: event_ok_def assms(1))
  show ?thesis
    unfolding link_or_copy_regular_file_def link
  proof (rule extends_call_bind, rule extends_sum, goal_cases)
    case (1 l e)
    then show ?case
      by (intro extends_bind [OF copy_regular_file_adds [where root = root, OF assms]])
        (auto intro!: extends_return proper_Cons [OF proper] simp: same_flags_def)
  next
    case (2 l u)
    then show ?case using proper by (auto intro!: extends_return simp: same_flags_def)
  qed
qed

lemma leads_to_root_cases:
  assumes "leads_to p path" and "below_root root path"
  shows "below_root root p \<or> leads_to_root root p"
proof -
  obtain ys where "segs path = segs p @ ys" using assms(1) segs_append_slash by (auto simp: leads_to_def)
  with assms(2) obtain xs where "segs p @ ys = segs root @ xs" by (auto simp: below_root_def)
  then have "\<exists>us. segs p = segs root @ us \<or> segs root = segs p @ us" unfolding append_eq_append_conv2 by metis
  then show ?thesis by (auto simp: below_root_def leads_to_root_def)
qed

lemma leads_to_trans: "leads_to p q \<Longrightarrow> leads_to q r \<Longrightarrow> leads_to p r"
  by (auto simp: leads_to_def)

lemma dir_events_proper:
  assumes "dir_events path mode evs" and "below_root root path"
  shows "proper root evs"
proof -
  have "events_ok root past evs \<and> concat (map opens_fd evs) = [] \<and> concat (map closes_fd evs) = [] \<and> (\<forall>e \<in> set evs. temp_of e = None)" for past
    using assms(1)
  proof (induction evs arbitrary: past)
    case (Cons e evs)
    obtain p r q where p: "leads_to p path" and e: "e = T_lstat p r \<or> e = T_mkdir p mode q"
      using Cons.prems by (auto simp: dir_events_def)
    have "event_ok root past e \<and> opens_fd e = [] \<and> closes_fd e = [] \<and> temp_of e = None"
      using e leads_to_root_cases [OF p assms(2)] by (auto simp: event_ok_def)
    moreover have "dir_events path mode evs" using Cons.prems by (simp add: dir_events_def)
    ultimately show ?case using Cons.IH by simp
  qed simp
  from this [of "[]"] show ?thesis by (simp add: proper_def cleaned_up_def del: concat_eq_Nil_conv)
qed

lemma dir_events_Cons:
  "leads_to p path \<Longrightarrow> dir_events path mode evs \<Longrightarrow> dir_events path mode (T_lstat p r # evs)"
  "leads_to p path \<Longrightarrow> dir_events path mode evs \<Longrightarrow> dir_events path mode (T_mkdir p mode q # evs)"
  by (auto simp: dir_events_def)

lemma dir_events_Nil [simp]: "dir_events path mode []"
  by (simp add: dir_events_def)

lemma dir_made_Cons: "dir_events path mode [e] \<Longrightarrow> dir_made path mode evs \<Longrightarrow> dir_made path mode (e # evs)"
  unfolding dir_made_def
proof (elim exE conjE)
  fix before e'
  assume "dir_events path mode [e]" "evs = before @ [e']" "dir_events path mode before"
    and l: "(\<exists>m. e' = T_lstat path (Inr m) \<and> S_ISDIR m) \<or> e' = T_mkdir path mode (Inr ()) \<or> e' = T_mkdir path mode (Inl EEXIST)"
  then have "e # evs = (e # before) @ [e']" "dir_events path mode (e # before)" by (simp_all add: dir_events_def)
  then show "\<exists>before e'. e # evs = before @ [e'] \<and> dir_events path mode before
      \<and> ((\<exists>m. e' = T_lstat path (Inr m) \<and> S_ISDIR m) \<or> e' = T_mkdir path mode (Inr ()) \<or> e' = T_mkdir path mode (Inl EEXIST))"
    using l by blast
qed

lemma dir_made_last:
  "dir_events path mode before \<Longrightarrow> mkdir_result r = Inr () \<Longrightarrow> dir_made path mode (before @ [T_mkdir path mode r])"
  unfolding dir_made_def by (cases r) (auto simp: mkdir_result_def split: if_splits)

definition mkdir_adds :: "string \<Rightarrow> 32 word \<Rightarrow> gerror + unit \<Rightarrow> copy_event list \<Rightarrow> bool" where
  "mkdir_adds path mode r evs = (dir_events path mode evs \<and> (r = Inr () \<longrightarrow> dir_made path mode evs))"

lemma mkdir_internal_adds:
  assumes "\<And>parent b. path = parent @ CHR ''/'' # b \<Longrightarrow> extends (glnx_shutil_mkdir_p_at (logged_copy C) parent mode) (mkdir_adds parent mode)"
  shows "extends (mkdir_p_at_internal (logged_copy C) path mode) (mkdir_adds path mode)"
proof -
  have call: "cc_mkdir (logged_copy C) path mode = log_call (cc_mkdir C path mode) (T_mkdir path mode)" by (simp add: logged_copy_def)
  have self: "leads_to path path" by (simp add: leads_to_def)
  have ret: "extends (State_Monad.return (mkdir_result r)) (\<lambda>r' evs. mkdir_adds path mode r' (T_mkdir path mode r # evs))" for r
    using dir_made_last [of path mode "[]" r] dir_events_Cons(2) [OF self]
    by (auto intro!: extends_return simp: mkdir_adds_def)
  have retry: "extends (do { q \<leftarrow> glnx_shutil_mkdir_p_at (logged_copy C) parent mode;
      (case q of Inl e \<Rightarrow> State_Monad.return (Inl e)
       | Inr _ \<Rightarrow> do { r' \<leftarrow> log_call (cc_mkdir C path mode) (T_mkdir path mode); State_Monad.return (mkdir_result r') }) })
      (\<lambda>r evs. mkdir_adds path mode r (T_mkdir path mode r0 # evs))" if "path = parent @ CHR ''/'' # b" for parent b r0
  proof (rule extends_bind [OF assms [OF that]], rule extends_sum, goal_cases)
    case (1 q evs e)
    then have "dir_events path mode evs" using that leads_to_trans by (fastforce simp: mkdir_adds_def dir_events_def leads_to_def)
    then show ?case by (auto intro!: extends_return dir_events_Cons self simp: mkdir_adds_def)
  next
    case (2 q evs u)
    then have "dir_events path mode evs" using that leads_to_trans by (fastforce simp: mkdir_adds_def dir_events_def leads_to_def)
    then have "dir_events path mode (T_mkdir path mode r0 # evs)" by (intro dir_events_Cons self)
    then show ?case
      using dir_made_last [of path mode "T_mkdir path mode r0 # evs"]
      by (auto intro!: extends_call_bind extends_return simp: mkdir_adds_def dir_events_def leads_to_def)
  qed
  show ?thesis
    unfolding mkdir_p_at_internal.simps call
  proof (rule extends_call_bind, rule extends_if, goal_cases)
    case (1 r)
    show ?case
    proof (cases "strrchr path CHR ''/''")
      case None
      then show ?thesis by (auto intro!: extends_return dir_events_Cons self simp: mkdir_adds_def)
    next
      case (Some ab)
      obtain a b where ab: "ab = (a, b)" by (cases ab)
      have "path = a @ CHR ''/'' # b" using Some ab by (simp add: strrchr_Some_iff)
      from retry [OF this] show ?thesis unfolding Some ab option.case prod.case .
    qed
  next
    case (2 r)
    show ?case by (rule ret)
  qed
qed

lemma glnx_mkdir_adds: "extends (glnx_shutil_mkdir_p_at (logged_copy C) path mode) (mkdir_adds path mode)"
proof (induction path rule: length_induct)
  case (1 path)
  have internal: "extends (mkdir_p_at_internal (logged_copy C) path mode) (mkdir_adds path mode)"
    using 1 by (intro mkdir_internal_adds) simp
  have call: "cc_lstat (logged_copy C) path = log_call (cc_lstat C path) (T_lstat path)" by (simp add: logged_copy_def)
  have self: "leads_to path path" by (simp add: leads_to_def)
  have st: "dir_events path mode [T_lstat path r]" for r by (auto intro!: dir_events_Cons self)
  have "extends (mkdir_p_at_internal (logged_copy C) path mode) (\<lambda>r evs. mkdir_adds path mode r (T_lstat path q # evs))" for q
    by (rule extends_weaken [OF internal]) (auto simp: mkdir_adds_def intro!: dir_made_Cons [OF st] dir_events_Cons self)
  moreover have "S_ISDIR m \<Longrightarrow> mkdir_adds path mode (Inr ()) [T_lstat path (Inr m)]" for m
    using st by (auto simp: mkdir_adds_def dir_made_def)
  ultimately show ?case
    unfolding glnx_shutil_mkdir_p_at.simps call
    by (intro extends_call_bind extends_sum extends_if) (auto intro: extends_return)
qed

definition top_link :: "glib \<Rightarrow> copy_flag set \<Rightarrow> string \<Rightarrow> string \<Rightarrow> copy_event list" where
  "top_link G flags root s =
     (if PV_COPY_FLAGS_USRMERGE \<in> flags \<and> gets_usrmerged s \<and> CHR ''/'' \<notin> set s
      then [T_symlink (g_build_filename G [''usr'', s]) (g_build_filename G [root, s]) (Inr ())] else [])"

lemma copy_directory_adds:
  assumes "tree_builder (g_build_filename G)" and "root \<noteq> []"
  shows "extends (copy_directory (logged_copy C) G flags root s sb)
    (\<lambda>r evs. proper root evs \<and> (r = Inr () \<longrightarrow>
       (\<exists>made. dir_made (copy_destination G flags root s) (srt_stat_get_permissions (ce_mode sb)) made \<and> evs = top_link G flags root s @ made)))"
    (is "extends _ ?Q")
proof -
  note below = below_root_destinations [OF assms]
  have sl: "proper root [T_symlink t (g_build_filename G [root, s]) q]" for t q
    by (rule proper_single) (simp_all add: event_ok_def below)
  have call: "cc_symlink (logged_copy C) t p = log_call (cc_symlink C t p) (T_symlink t p)" for t p
    by (simp add: logged_copy_def)
  have made: "extends (glnx_shutil_mkdir_p_at (logged_copy C) (copy_destination G flags root s) (srt_stat_get_permissions (ce_mode sb)))
      (\<lambda>r evs. ?Q r (xs @ evs))" if "proper root xs" "xs = top_link G flags root s" for xs
    by (rule extends_weaken [OF glnx_mkdir_adds])
      (use that proper_append dir_events_proper below(2) in \<open>auto simp: mkdir_adds_def\<close>)
  have link: "extends (if PV_COPY_FLAGS_USRMERGE \<in> flags \<and> gets_usrmerged s \<and> CHR ''/'' \<notin> set s
          then log_call (cc_symlink C (g_build_filename G [''usr'', s]) (g_build_filename G [root, s]))
            (T_symlink (g_build_filename G [''usr'', s]) (g_build_filename G [root, s]))
          else State_Monad.return (Inr ()))
      (\<lambda>l evs. proper root evs \<and> (l = Inr () \<longrightarrow> evs = top_link G flags root s))"
    by (intro extends_if extends_call extends_return) (auto simp: top_link_def sl proper_Nil)
  show ?thesis
    unfolding copy_directory_def call
  proof (rule extends_bind [OF link], rule extends_sum, goal_cases)
    case (1 l evs e)
    then show ?case by (auto intro: extends_return)
  next
    case (2 l evs u)
    then have "proper root evs" and "evs = top_link G flags root s" by (blast, simp)
    then show ?case by (rule made)
  qed
qed

lemma copy_symlink_adds:
  assumes "tree_builder (g_build_filename G)" and "root \<noteq> []"
  shows "extends (copy_symlink (logged_copy C) G flags root s fpath)
    (\<lambda>r evs. proper root evs \<and> (r = Inr () \<longrightarrow> (\<exists>target. evs = T_readlink fpath (Inr target) #
       (if ignored_symlink G flags s target then [] else [T_symlink target (copy_destination G flags root s) (Inr ())]))))"
proof -
  note below = below_root_destinations [OF assms]
  have rl: "proper root [T_readlink fpath q]" for q
    by (rule proper_single) (simp_all add: event_ok_def)
  have sl: "proper root [T_symlink t (copy_destination G flags root s) q]" for t q
    by (rule proper_single) (simp_all add: event_ok_def below)
  have calls: "cc_symlink (logged_copy C) t p = log_call (cc_symlink C t p) (T_symlink t p)"
    "cc_readlink (logged_copy C) p = log_call (cc_readlink C p) (T_readlink p)" for t p
    by (simp_all add: logged_copy_def)
  show ?thesis
    unfolding copy_symlink_def calls
    by (intro extends_call_bind extends_sum extends_if extends_return)
      (auto intro!: rl sl proper_Cons [OF rl] split: sum.splits)
qed

lemma cheap_copy_helper_adds:
  assumes "tree_builder (g_build_filename G)" and "root \<noteq> []"
  shows "extends (cheap_copy_helper (logged_copy C) G source_root root flags sb)
    (\<lambda>r evs. proper root evs \<and> (\<forall>f. r = Inr f \<longrightarrow> same_flags f flags \<and> handled G source_root root flags sb evs))"
proof -
  let ?fpath = "ce_path sb" and ?s = "copy_suffix source_root (ce_path sb)"
  let ?Q = "\<lambda>r evs. proper root evs \<and> (\<forall>f. r = Inr f \<longrightarrow> same_flags f flags \<and> handled G source_root root flags sb evs)"
  note below = below_root_destinations [OF assms]
  have same: "same_flags flags flags" by (simp add: same_flags_def)
  have mk: "mkdir_adds root m r evs \<Longrightarrow> proper root evs" for m r evs
    using dir_events_proper below(1) by (auto simp: mkdir_adds_def)
  have root: "extends (keeping flags (glnx_shutil_mkdir_p_at (logged_copy C) root (srt_stat_get_permissions (ce_mode sb)))) ?Q"
    if "?fpath = source_root" "ce_type sb = FTW_D"
    by (rule extends_keeping, rule extends_weaken [OF glnx_mkdir_adds])
      (use that mk same in \<open>auto simp: handled_def mkdir_adds_def\<close>)
  have dir: "extends (keeping flags (copy_directory (logged_copy C) G flags root ?s sb)) ?Q"
    if "?fpath \<noteq> source_root" "ce_type sb = FTW_D"
    by (rule extends_keeping, rule extends_weaken [OF copy_directory_adds [OF assms]]) (use that same in \<open>auto simp: handled_def top_link_def\<close>)
  have link: "extends (keeping flags (copy_symlink (logged_copy C) G flags root ?s ?fpath)) ?Q"
    if "?fpath \<noteq> source_root" "ce_type sb = FTW_SL"
    by (rule extends_keeping, rule extends_weaken [OF copy_symlink_adds [OF assms]]) (use that same in \<open>auto simp: handled_def\<close>)
  have regular: "extends (link_or_copy_regular_file (logged_copy C) flags ?fpath sb (copy_destination G flags root ?s)) ?Q"
    if "?fpath \<noteq> source_root" "ce_type sb = FTW_F"
    by (rule extends_weaken [OF link_or_copy_adds [where root = root, OF below(2) refl]])
      (use that in \<open>auto simp: handled_def\<close>)
  have bad: "extends (State_Monad.return (Inl e)) ?Q" for e
    by (rule extends_return) (simp add: proper_Nil)
  show ?thesis
    unfolding cheap_copy_helper_def Let_def
    by (intro extends_if bad root) (use dir link regular bad in \<open>auto split: ftw_type.split\<close>)
qed

lemma copy_walk_adds:
  assumes "tree_builder (g_build_filename G)" and "root \<noteq> []" and "same_flags f flags"
  shows "extends (copy_walk fuel (logged_copy C) G source_root root f)
    (\<lambda>r evs. proper root evs \<and> (r = Some (Inr ()) \<longrightarrow>
       (\<exists>steps. evs = concat (map (\<lambda>(sb, done'). T_next (Inr (Some sb)) # done') steps) @ [T_next (Inr None)]
          \<and> (\<forall>(sb, done') \<in> set steps. handled G source_root root flags sb done'))))"
  using assms(3)
proof (induction fuel arbitrary: f)
  case 0
  then show ?case by (auto intro!: extends_return simp: proper_Nil)
next
  case (Suc fuel)
  have nx: "proper root [T_next q]" for q
    by (rule proper_single) (simp_all add: event_ok_def)
  have call: "cc_nftw_next (logged_copy C) source_root = log_call (cc_nftw_next C source_root) T_next"
    by (simp add: logged_copy_def)
  show ?case
    unfolding copy_walk.simps call
  proof (rule extends_call_bind, rule extends_sum, goal_cases)
    case (1 n e)
    then show ?case using nx by (auto intro!: extends_return)
  next
    case (2 n x)
    show ?case
    proof (cases x)
      case None
      then show ?thesis using nx 2 by (auto intro!: extends_return exI [of _ "[]"])
    next
      case (Some sb)
      show ?thesis
        unfolding Some option.case
      proof (rule extends_bind [OF cheap_copy_helper_adds [OF assms(1,2)]], rule extends_sum, goal_cases)
        case (1 q evs e)
        then show ?case by (auto intro!: extends_return proper_Cons [OF nx])
      next
        case (2 q evs f')
        then have f': "same_flags f' flags" "handled G source_root root flags sb evs" "proper root evs"
          using Suc.prems same_flags_handled [OF Suc.prems] by (auto simp: same_flags_def)
        show ?case
        proof (rule extends_weaken [OF Suc.IH [OF f'(1)]], goal_cases)
          case (1 r evs')
          have "proper root (T_next n # evs @ evs')"
            using 1 f'(3) by (auto intro!: proper_Cons [OF nx] proper_append)
          moreover have "\<exists>steps. T_next n # evs @ evs' = concat (map (\<lambda>(sb, done'). T_next (Inr (Some sb)) # done') steps) @ [T_next (Inr None)]
              \<and> (\<forall>(sb, done') \<in> set steps. handled G source_root root flags sb done')"
            if "r = Some (Inr ())"
          proof -
            obtain steps where "evs' = concat (map (\<lambda>(sb, done'). T_next (Inr (Some sb)) # done') steps) @ [T_next (Inr None)]"
              "\<forall>(sb, done') \<in> set steps. handled G source_root root flags sb done'" using 1 \<open>r = Some (Inr ())\<close> by blast
            then show ?thesis using f'(2) \<open>n = Inr x\<close> Some by (intro exI [of _ "(sb, evs) # steps"]) auto
          qed
          ultimately show ?case by blast
        qed
      qed
    qed
  qed
qed

lemma tree_copy_adds:
  assumes "tree_builder (g_build_filename G)" and "g_file_path G dest_root \<noteq> []"
    and "run_state (pv_cheap_tree_copy fuel (logged_copy C) G source_root dest_root flags) (w, []) = (r, (w', l))"
  shows "proper (g_file_path G dest_root) l \<and> (r = Some (Inr ()) \<longrightarrow>
       (\<exists>steps. l = concat (map (\<lambda>(sb, evs). T_next (Inr (Some sb)) # evs) steps) @ [T_next (Inr None)]
          \<and> (\<forall>(sb, evs) \<in> set steps. handled G (g_file_path G source_root) (g_file_path G dest_root) flags sb evs)))"
proof -
  have same: "same_flags flags flags" by (simp add: same_flags_def)
  show ?thesis by (rule extendsD [OF copy_walk_adds [OF assms(1,2) same] assms(3) [unfolded pv_cheap_tree_copy_def]])
qed



text \<open>A tree with a link from \<open>/lib\<close> into \<open>/usr\<close>, on a kernel that does not make hard links. The state has the entries that are
  left, and the directories that exist: the parent of the destination does not.\<close>

definition demo_entries :: "copy_entry list" where
  "demo_entries = map (\<lambda>(p, t). \<lparr> ce_path = ''/s'' @ p, ce_mode = 0x1ED, ce_times = (0, 0), ce_type = t \<rparr>)
     [([], FTW_D), (''/bin'', FTW_D), (''/bin/sh'', FTW_F), (''/lib'', FTW_D), (''/lib/x'', FTW_SL)]"

definition demo_mkdir :: "string \<Rightarrow> string list \<Rightarrow> (errno + unit) \<times> string list" where
  "demo_mkdir p dirs =
     (if p \<in> set dirs then (Inl EEXIST, dirs)
      else if (case strrchr p CHR ''/'' of Some (a, b) \<Rightarrow> a = [] \<or> a \<in> set dirs | None \<Rightarrow> False) then (Inr (), p # dirs)
      else (Inl ENOENT, dirs))"

definition demo_copy :: "(copy_entry list \<times> string list) copy_calls" where
  "demo_copy = \<lparr>
     cc_nftw_next = (\<lambda>_. State (\<lambda>(es, dirs). case es of [] \<Rightarrow> (Inr None, ([], dirs)) | e # es' \<Rightarrow> (Inr (Some e), (es', dirs)))),
     cc_open = (\<lambda>_ _. State_Monad.return (Inr 3)),
     cc_mkstemp = (\<lambda>t _ _. State_Monad.return (Inr (4, t))),
     cc_copy_bytes = (\<lambda>_ _. State_Monad.return (Inr ())),
     cc_fchmod = (\<lambda>_ _. State_Monad.return (Inl EPERM)),
     cc_access = (\<lambda>_ _. State_Monad.return (Inr ())),
     cc_futimens = (\<lambda>_ _. State_Monad.return (Inr ())),
     cc_close = (\<lambda>_. State_Monad.return ()),
     cc_rename = (\<lambda>_ _. State_Monad.return (Inr ())),
     cc_unlink = (\<lambda>_. State_Monad.return (Inr ())),
     cc_link = (\<lambda>_ _. State_Monad.return (Inl EPERM)),
     cc_symlink = (\<lambda>_ _. State_Monad.return (Inr ())),
     cc_readlink = (\<lambda>_. State_Monad.return (Inr ''/usr/lib/x'')),
     cc_lstat = (\<lambda>p. State (\<lambda>(es, dirs). (if p \<in> set dirs then Inr 0x41ED else Inl ENOENT, (es, dirs)))),
     cc_mkdir = (\<lambda>p _. State (\<lambda>(es, dirs). case demo_mkdir p dirs of (r, dirs') \<Rightarrow> (r, (es, dirs')))) \<rparr>"

definition demo_tree_run :: "(gerror + unit) option \<times> (copy_entry list \<times> string list) \<times> copy_event list" where
  "demo_tree_run = run_state (pv_cheap_tree_copy 6 (logged_copy demo_copy) glib_ref ''/s'' ''/n/d'' {PV_COPY_FLAGS_USRMERGE, PV_COPY_FLAGS_CHMOD_MAY_FAIL})
     ((demo_entries, []), [])"

lemma demo_tree_result:
  "fst demo_tree_run = Some (Inr ())"
  "snd (fst (snd demo_tree_run)) = [''/n/d/usr/lib'', ''/n/d/usr/bin'', ''/n/d/usr'', ''/n/d'', ''/n'']"
  "T_rename ''/n/d/usr/bin/sh.XXXXXX'' ''/n/d/usr/bin/sh'' (Inr ()) \<in> set (snd (snd demo_tree_run))"
  "T_futimens 4 (0, 0) \<in> set (snd (snd demo_tree_run))"
  by code_simp+

lemma demo_roots: "g_file_path glib_ref ''/s'' = ''/s''" "g_file_path glib_ref ''/n/d'' = ''/n/d''"
  by code_simp+


text \<open>Times may not be written through the descriptor of the source.\<close>

lemma source_times_not_ok:
  "\<not> event_ok root [T_mkstemp p m (Inr (4, temp)), T_open q fl (Inr 3)] (T_futimens 3 t)"
  by (simp add: event_ok_def writes_temp_def)


text \<open>The last of these links is a link to itself in the new tree, but its target is not in canonical form.\<close>

theorem ignored_symlink_self_witness:
  "ignored_symlink glib_ref {PV_COPY_FLAGS_USRMERGE} ''lib/x'' ''/usr/lib/x''
   \<and> ignored_symlink glib_ref {PV_COPY_FLAGS_USRMERGE} ''lib/x'' ''.././usr/lib/x''
   \<and> \<not> ignored_symlink glib_ref {PV_COPY_FLAGS_USRMERGE} ''lib/x'' ''/usr/lib/y''
   \<and> \<not> ignored_symlink glib_ref {PV_COPY_FLAGS_USRMERGE} ''lib/x'' ''/usr//lib/x''"
proof -
  have m: "gets_usrmerged ''lib/x''" by code_simp
  then have p: "merged_place ''lib/x'' = ''usr/lib/x''" by (simp add: merged_place_def)
  have places: "x = ''lib/x'' \<or> x = ''usr/lib/x''" if "merged_place x = merged_place ''lib/x''" for x
    using that unfolding p by (auto simp: merged_place_def split: if_splits)
  have canon: "g_canonicalize_filename glib_ref (''/'' @ ''lib/x'') (Some ''/'') = ''/'' @ ''lib/x''"
    "g_canonicalize_filename glib_ref (''/'' @ ''usr/lib/x'') (Some ''/'') = ''/'' @ ''usr/lib/x''"
    by code_simp+
  have self: "g_canonicalize_filename glib_ref (''/'' @ x) (Some ''/'') = ''/'' @ x" if "merged_place x = merged_place ''lib/x''" for x
    using places [OF that] canon by blast
  have usr: "merged_place ''usr/lib/x'' = ''usr/lib/x''" by (simp add: merged_place_def)
  have t: "target_from_root glib_ref ''lib/x'' ''/usr/lib/x'' = ''/usr/lib/x''"
    "target_from_root glib_ref ''lib/x'' ''.././usr/lib/x'' = ''/usr/lib/x''"
    "target_from_root glib_ref ''lib/x'' ''/usr/lib/y'' = ''/usr/lib/y''"
    "g_canonicalize_filename glib_ref ''/usr/lib/x'' (Some ''/'') = ''/usr/lib/x''"
    "g_canonicalize_filename glib_ref ''/usr//lib/x'' (Some ''/'') \<noteq> ''/usr//lib/x''"
    by code_simp+
  have y: "merged_place ''usr/lib/y'' = ''usr/lib/y''" by (simp add: merged_place_def)
  have iff: "ignored_symlink glib_ref {PV_COPY_FLAGS_USRMERGE} ''lib/x'' target \<longleftrightarrow>
    (\<exists>x. target_from_root glib_ref ''lib/x'' target = ''/'' @ x \<and> x \<noteq> ''lib/x'' \<and> merged_place x = merged_place ''lib/x'')
    \<and> (absolute target \<longrightarrow> g_canonicalize_filename glib_ref target (Some ''/'') = target)" for target
    by (rule ignored_symlink_self [OF singletonI self])
  show ?thesis
    unfolding iff t p using usr y t(4,5) by (auto simp: absolute_def)
qed

text \<open>If the source is merged already, \<open>/bin\<close> is a link to \<open>usr/bin\<close>, and the copy has no \<open>/bin\<close> at all: the link is left out, and
  only a directory is replaced by a link.\<close>

theorem merged_source_loses_links:
  assumes "PV_COPY_FLAGS_USRMERGE \<in> flags" and "gets_usrmerged s"
  shows "ignored_symlink G flags s (''/usr/'' @ s)"
  using assms by (simp add: ignored_symlink_def compat_into_usr_iff target_compared_def absolute_def)

end
