(* ===== verification/Spec2Isabelle.thy ===== *)
theory Spec2Isabelle imports SysrootOpen SysrootRefine EnvOverlay MtreeRoundtrip MtreeVerify Bwrap PvBwrap OsRelease LoggerRotate LoggerOptions WrapSetup Passwd Process TreeCopy begin

text \<open>
  Verification of the core of \<^bold>\<open>steam-runtime-tools\<close>, the library and the container launcher
  (pressure-vessel) of the Steam Runtime. pressure-vessel puts a game into a container made from a
  runtime, a directory tree that it treats as a root directory (a sysroot). What can go wrong is
  mostly a matter of paths, symbolic links, file descriptors, environment blocks and small
  parsers, and that is what is modelled.

  \<^bold>\<open>Shared theories.\<close>
  \<^item> Prelude: strings as lists of characters, the C string functions, number parsing
    (\<open>strtoull\<close> on 64-bit words), path elements (\<open>segs\<close>), a Hoare calculus for the state monad.
  \<^item> Glib: functions of GLib and of the C library whose code is not in the repository are fields
    of the record \<open>glib\<close>; their documented behaviour is stated as locales (\<open>environ_block\<close>,
    \<open>path_builder\<close>, \<open>canonicalizer\<close>, \<open>shell_quoting\<close>), each interpreted on the concrete instance \<open>glib_ref\<close>.
  \<^item> Kernel, MemKernel, Host: system calls are fields of the record \<open>kernel\<close> (and \<open>host\<close>), state
    transformers over a world of any type; a failing call is an \<open>errno\<close>, a failing function a
    \<open>gerror\<close> (domain and code; message texts are not modelled). The wrappers of libglnx are
    translated on top. \<open>logged\<close> adds a log of all calls, over which safety is stated for an
    arbitrary kernel. MemKernel is a file tree in memory.
  \<^item> Qsort: \<open>qsort\<close> with a comparison function (locale \<open>qsort_order\<close>), \<open>flatpak_envp_cmp\<close>.

  \<^bold>\<open>Components.\<close>
  \<^item> Sysroot (steam-runtime-tools/resolve-in-sysroot.c): the resolver loop under fuel, one
    iteration per path element, with the stack of descriptors of the current directory chain.
    SysrootConfine: for every kernel, only confined system calls and no leak. SysrootRefine: on
    the file tree it implements an abstract specification of resolution (\<open>chroot\<close> semantics).
    SysrootWalk: without links it returns within one iteration per character. SysrootOpen: opening,
    testing and loading a file. There is no bound on links in the code, so fuel is needed and
    a link to itself uses up any amount of it, which is a theorem.
  \<^item> PathPrefix (flatpak-utils.c, utils.c, flatpak-exports.c): the prefix order of paths.
  \<^item> HashTable, Utils (steam-runtime-tools/utils.c): association lists as hash tables, sorted
    iteration, and the pure helpers of the library.
  \<^item> EnvOverlay (steam-runtime-tools/env-overlay.c): set, unset and inherited variables, their
    command line options, their serialisation and its inverse.
  \<^item> Mtree, MtreeApply, MtreeVerify (pressure-vessel/mtree.c): the parser of manifests, applying
    one to a directory tree and verifying a tree against it. MtreeRoundtrip prints and reads back
    entries; MtreeConfine is the confinement of applying. A null pointer that is
    dereferenced is the outcome \<open>Crash\<close>.
  \<^item> Bwrap (pressure-vessel/flatpak-bwrap.c): command lines of bubblewrap, the descriptors they
    own, their environment, and the file of bundled arguments.
  \<^item> Exports (pressure-vessel/flatpak-exports.c): the table of paths that are shared with the
    container, how it is filled, queried and turned into arguments for bubblewrap. An automount point is opened by a child process, whose steps
    are an argument of \<open>h_fork\<close>. ExportsMapped: the nearest mount
    decides, and what visibility means; ExportsSafe: reserved paths, what is exported instead,
    and the calls made. Adding a path
    recurses at most 41 times (the fuel \<open>MAX_LEVELS\<close> is the code's own limit); asking for the mode of a
    path has no limit in the code and runs under fuel.
  \<^item> OsRelease (steam-runtime-tools/os.c): what os-release(5) in a sysroot says, with diagnostics for
    malformed and repeated lines.
  \<^item> PvUtils (pressure-vessel/utils.c): the workarounds of the environment, unique file names, counting digits,
    and paths as the host sees them.
  \<^item> PvBwrap (pressure-vessel/bwrap.c): command lines that bind \<open>/usr\<close>, copy a tree, adjust the exports for
    an interpreter root, and pass an environment overlay to a subsandbox.
  \<^item> Prog: programs as trees of system calls, for code whose calls are interleaved with those of other
    processes; a property of all runs holds for every kernel.
  \<^item> Logger (steam-runtime-tools/logger.c): the logger object, its set-up, the main loop that splits its input into
    lines, parses their levels and sends them to a terminal, the Journal and a file, and the
    rotation of the file. The input is given with the sizes of the reads; one read for each
    byte and one more are enough. Lines are at most \<open>LINE_MAX\<close> = 2048 bytes long. LoggerLines: the lines
    that the loop finds are those of a specification of the input alone; LoggerSinks: what each sink
    receives, and which times become stamps. Starting the logging process is left out.
    LoggerProtocol: the order of the calls on the log files, as a protocol that every logger follows. LoggerRotate:
    any number of loggers that share a log, with their calls interleaved, on a kernel with names, descriptors
    and locks: rotations exclude each other and lose nothing.
  \<^item> LoggerOptions (bin/logger.c): the command line of the logger, which also carries its configuration to
    the process that it starts; GLib's option parser is a parameter (locale \<open>option_context\<close>). Names for
    rotation, and size limits.
  \<^item> Preload (pressure-vessel/supported-architectures.c, adverb-preload.c, per-arch-dirs.c): modules for
    \<open>LD_PRELOAD\<close> and \<open>LD_AUDIT\<close> as \<open>pv-adverb\<close> handles them. PreloadLoad: the dynamic string tokens of the
    dynamic linker (locale \<open>dl_tokens\<close>), and that they lead to the directory of the architecture. PreloadModules:
    which modules an architecture loads in the end, for any kernel (\<open>link_store\<close>) and for one that makes the
    links (\<open>working_links\<close>).
  \<^item> WrapPreload (steam-runtime-tools/libdl.c, pressure-vessel/wrap-setup.c, exports.c and pv_runtime_has_library of
    runtime.c): from the modules given to \<open>pv-wrap\<close> to the options of \<open>pv-adverb\<close>. What a helper process
    finds out about a library is a parameter. \<open>module_becomes\<close> says what should become of a module, apart from the code.
  \<^item> WrapSetup (pressure-vessel/wrap-setup.c, wrap-context.c, exports.c): variables that name paths, temporary
    directories, icons, and the directories of the host in the container. Links in a sysroot need fuel, as for
    Sysroot. \<open>table_mapped\<close> and \<open>table_modes\<close> say which values are replaced, by what, and with which modes.
  \<^item> Passwd (pressure-vessel/passwd.c): the files passwd and group for the container.
  \<^item> FileLock (steam-runtime-tools/file-lock.c): shared and exclusive locks of files, of the descriptor or the process.
  \<^item> Terminate, Process (steam-runtime-tools/process-manager.c): terminating all children of a subreaper, as a protocol
    over the log of signals and reaped children; the process manager around it, from its options and the descriptors of
    the child (locale \<open>descriptor_calls\<close>) to the exit status. Every \<open>waitpid\<close>, entry of \<open>/proc\<close> and iteration of the
    main loop takes one unit of fuel; how many there are depends on the other processes.
  \<^item> TreeCopy (pressure-vessel/tree-copy.c): copying a tree by hard links, with merging of the top level into
    \<open>/usr\<close> (locale \<open>tree_builder\<close>). \<open>nftw\<close> and the kernel are parameters; one unit of fuel for each entry.
    Directories with their ancestors are those of glnx-shutil.c. \<open>events_ok\<close>: what may be done to which path and
    descriptor, given the calls so far.

  The properties say, per component: which system calls can be made and which descriptors stay
  open (safety, invariants), what a function computes on every branch (functional), that printing
  and parsing are inverse (round trips), that an operation meets an abstract specification
  (refinement, equivalence), that loops end (termination), and how malformed input is handled
  (errors). Where the code misbehaves, the theorem states what it does and the manifest has a
  finding.

  \<^bold>\<open>Not modelled.\<close> Message texts, logging and debug output; the vendored bubblewrap and libcapsule;
  D-Bus services, JSON reports and helper programs (graphics, libraries, input devices), which are
  input and output around json-glib, udev and subprocesses; the orchestration of pressure-vessel
  (runtime.c, wrap.c), which drives the components above. Memory allocation is assumed to succeed,
  as GLib does. Threads are not used by the modelled code.
\<close>

end
